(* ===== verification/Ik_Prelude.thy ===== *)
theory Ik_Prelude
  imports Main "HOL-Library.Word"
begin

text \<open>
  Shared vocabulary of the development.

  \<^item> \<open>err_code\<close>, \<open>fault\<close> and \<open>'a res\<close> are the model of \<^verbatim>\<open>res_t\<close> of shared/error.h, extended
    with the two ways in which the C code stops instead of returning an error: \<open>Panic\<close> (the
    \<^verbatim>\<open>PANIC\<close> macro) and \<open>AssertFail\<close> (a failed \<^verbatim>\<open>assert\<close> of a debug build), and with
    \<open>MemFault\<close>, an access outside of an allocated block, and \<open>IntOverflow\<close>, an overflow of a signed
    integer, both of which are undefined behaviour in C.
    A theorem that a call \<open>returns\<close> therefore says that none of these happens.
  \<^item> \<open>load\<close>, \<open>store\<close> and \<open>move_cells\<close> are reading, writing and \<^verbatim>\<open>memmove\<close> on a block of memory,
    with the bounds of the block checked.
  \<^item> The loops \<open>append_all\<close>, \<open>insert_all\<close> and \<open>delete_n\<close> are the three loops with which clients
    edit a sequence one element at a time; the locale \<open>editable_seq\<close> states the laws a sequence
    has to satisfy and proves once what the loops do.
  Failure of the allocator is not modelled: the code stops the process there.
\<close>

unbundle bit_operations_syntax

type_synonym byte = "8 word"

subsection \<open>Results\<close>

datatype err_code =
    INVALID_ARG | OUT_OF_RANGE | IO | PARSE | DB_CONNECT | DB_MIGRATE | OUT_OF_MEMORY
  | AGENT_NOT_FOUND | PROVIDER | MISSING_CREDENTIALS | NOT_IMPLEMENTED

datatype fault = Err err_code | Panic | AssertFail | MemFault | IntOverflow

type_synonym 'a res = "fault + 'a"

text \<open>Early return on error: the \<^verbatim>\<open>CHECK\<close> and \<^verbatim>\<open>TRY\<close> macros.\<close>

fun res_bind :: "'a res \<Rightarrow> ('a \<Rightarrow> 'b res) \<Rightarrow> 'b res" where
  "res_bind (Inl e) f = Inl e"
| "res_bind (Inr x) f = f x"

definition check_assert :: "bool \<Rightarrow> 'a res \<Rightarrow> 'a res" where
  "check_assert b m = (if b then m else Inl AssertFail)"

text \<open>\<open>returns m P\<close>: the computation \<open>m\<close> ends normally, with a value that satisfies \<open>P\<close>.\<close>

fun returns :: "'a res \<Rightarrow> ('a \<Rightarrow> bool) \<Rightarrow> bool" where
  "returns (Inl e) P = False"
| "returns (Inr x) P = P x"

named_theorems mem_defs \<open>the definitions of the accesses to a block of memory\<close>

lemma returns_iff: "returns m P \<longleftrightarrow> (\<exists>x. m = Inr x \<and> P x)"
  by (cases m) auto

lemma returnsE:
  assumes "returns m P"
  obtains x where "m = Inr x" and "P x"
  using assms by (auto simp: returns_iff)

lemma returns_bindI:
  assumes "returns m Q" and "\<And>x. Q x \<Longrightarrow> returns (f x) P"
  shows "returns (res_bind m f) P"
  using assms by (cases m) auto

lemma returns_mono: "returns m P \<Longrightarrow> (\<And>x. P x \<Longrightarrow> Q x) \<Longrightarrow> returns m Q"
  by (cases m) auto

lemma res_bind_Inr_iff: "res_bind m f = Inr y \<longleftrightarrow> (\<exists>x. m = Inr x \<and> f x = Inr y)"
  by (cases m) auto

lemma returns_check_assert [simp]: "returns (check_assert b m) P \<longleftrightarrow> b \<and> returns m P"
  by (simp add: check_assert_def)

lemma check_assert_True [simp]: "check_assert True m = m"
  by (simp add: check_assert_def)

lemma check_assert_Inr_iff: "check_assert b m = Inr x \<longleftrightarrow> b \<and> m = Inr x"
  by (simp add: check_assert_def)

subsection \<open>Blocks of memory\<close>

definition load :: "'a list \<Rightarrow> nat \<Rightarrow> 'a res" where
  "load xs i = (if i < length xs then Inr (xs ! i) else Inl MemFault)"

definition store :: "'a list \<Rightarrow> nat \<Rightarrow> 'a \<Rightarrow> 'a list res" where
  "store xs i v = (if i < length xs then Inr (xs[i := v]) else Inl MemFault)"

definition move_cells :: "'a list \<Rightarrow> nat \<Rightarrow> nat \<Rightarrow> nat \<Rightarrow> 'a list res" where
  "move_cells xs dst src n =
     (if dst + n \<le> length xs \<and> src + n \<le> length xs
      then Inr (take dst xs @ take n (drop src xs) @ drop (dst + n) xs) else Inl MemFault)"

text \<open>\<^verbatim>\<open>realloc\<close> keeps what fits; new cells hold \<open>d\<close>. \<open>copy_in\<close> is \<^verbatim>\<open>memcpy\<close> into a block.\<close>

definition realloc :: "'a \<Rightarrow> 'a list \<Rightarrow> nat \<Rightarrow> 'a list" where
  "realloc d xs n = take n xs @ replicate (n - length xs) d"

definition copy_in :: "'a list \<Rightarrow> nat \<Rightarrow> 'a list \<Rightarrow> 'a list res" where
  "copy_in xs off data =
     (if off + length data \<le> length xs
      then Inr (take off xs @ data @ drop (off + length data) xs) else Inl MemFault)"

lemmas [mem_defs] = load_def store_def move_cells_def realloc_def copy_in_def

lemma length_realloc [simp]: "length (realloc d xs n) = n"
  by (simp add: realloc_def)

lemma take_realloc: "k \<le> length xs \<Longrightarrow> k \<le> n \<Longrightarrow> take k (realloc d xs n) = take k xs"
  by (simp add: realloc_def min_def)

lemma copy_in_range [simp]:
  "off + length data \<le> length xs \<Longrightarrow>
   copy_in xs off data = Inr (take off xs @ data @ drop (off + length data) xs)"
  by (simp add: copy_in_def)

lemma load_in_range [simp]: "i < length xs \<Longrightarrow> load xs i = Inr (xs ! i)"
  by (simp add: load_def)

lemma store_in_range [simp]: "i < length xs \<Longrightarrow> store xs i v = Inr (xs[i := v])"
  by (simp add: store_def)

lemma move_cells_in_range [simp]:
  "dst + n \<le> length xs \<Longrightarrow> src + n \<le> length xs \<Longrightarrow>
   move_cells xs dst src n = Inr (take dst xs @ take n (drop src xs) @ drop (dst + n) xs)"
  by (simp add: move_cells_def)

lemma store_mid: "store (us @ c # vs) (length us) x = Inr (us @ x # vs)"
  by (simp add: store_def list_update_append)

text \<open>Opening and closing a gap of one cell.\<close>

lemma move_cells_right:
  "move_cells (us @ vs @ c # ws) (length us + 1) (length us) (length vs)
   = Inr (us @ hd (vs @ [c]) # vs @ ws)"
  by (cases vs) (simp_all add: move_cells_def)

lemma drop_length_Cons: "drop (length vs) (c # vs) = [last (c # vs)]"
  by (induction vs arbitrary: c) simp_all

lemma move_cells_left:
  "move_cells (us @ c # vs @ ws) (length us) (length us + 1) (length vs)
   = Inr (us @ vs @ last (c # vs) # ws)"
proof -
  have "drop (length vs) (c # vs @ ws) = [last (c # vs)] @ ws"
    using drop_length_Cons [of vs c] by (metis append_Cons drop_append diff_is_0_eq' drop0
        le_SucI length_Cons order_refl)
  then show ?thesis by (simp add: move_cells_def)
qed

subsection \<open>Lists\<close>

lemma take_Suc_snoc: "i < length xs \<Longrightarrow> take (Suc i) xs = take i xs @ [xs ! i]"
  by (rule take_Suc_conv_app_nth)

lemma list_all_take: "list_all P xs \<Longrightarrow> list_all P (take n xs)"
  by (auto simp: list_all_iff dest: in_set_takeD)

lemma list_all_drop: "list_all P xs \<Longrightarrow> list_all P (drop n xs)"
  by (auto simp: list_all_iff dest: in_set_dropD)

subsection \<open>32 bit integers\<close>

text \<open>Addition and subtraction of \<^verbatim>\<open>int32_t\<close>; leaving the range is undefined behaviour.\<close>

definition in_int32 :: "int \<Rightarrow> bool" where
  "in_int32 v \<longleftrightarrow> - 2147483648 \<le> v \<and> v \<le> 2147483647"

definition add32 :: "int \<Rightarrow> int \<Rightarrow> int res" where
  "add32 a b = (if in_int32 (a + b) then Inr (a + b) else Inl IntOverflow)"

definition sub32 :: "int \<Rightarrow> int \<Rightarrow> int res" where
  "sub32 a b = (if in_int32 (a - b) then Inr (a - b) else Inl IntOverflow)"

text \<open>A computation that returns a value with \<open>P\<close> or meets the overflow of a number.\<close>

fun safe :: "'a res \<Rightarrow> ('a \<Rightarrow> bool) \<Rightarrow> bool" where
  "safe (Inl e) P = (e = IntOverflow)"
| "safe (Inr x) P = P x"

lemma safe_bind: "safe m Q \<Longrightarrow> (\<And>x. Q x \<Longrightarrow> safe (f x) P) \<Longrightarrow> safe (res_bind m f) P"
  by (cases m) auto

lemma safe_mono: "safe m P \<Longrightarrow> (\<And>x. P x \<Longrightarrow> Q x) \<Longrightarrow> safe m Q"
  by (cases m) auto

lemma safe_add32: "safe (add32 a b) (\<lambda>v. v = a + b)"
  by (simp add: add32_def)

lemma safe_sub32: "safe (sub32 a b) (\<lambda>v. v = a - b)"
  by (simp add: sub32_def)

subsection \<open>Bytes\<close>

text \<open>The bytes of a literal in the source.\<close>

definition bytes_of :: "string \<Rightarrow> byte list" where
  "bytes_of s = map of_char s"

lemma length_bytes_of [simp]: "length (bytes_of s) = length s"
  by (simp add: bytes_of_def)

text \<open>A NUL terminated string is the list of its bytes before the NUL; \<open>c_string\<close> reads one from memory.\<close>

type_synonym cstr = "byte list"

definition c_string :: "byte list \<Rightarrow> cstr" where
  "c_string bs = takeWhile (\<lambda>b. b \<noteq> 0) bs"

lemma unat_byte_less: "unat (b :: byte) < 256"
  using unsigned_less [of b] by simp

text \<open>A fact about a byte and its number holds if it holds for the 256 bytes.\<close>

lemma byte_exhaust:
  assumes "\<forall>n<256. P (word_of_nat n :: byte) = Q n"
  shows "P b = Q (unat b)"
proof -
  have "P (word_of_nat (unat b)) = Q (unat b)" using assms unat_byte_less [of b] by blast
  then show ?thesis by simp
qed

subsection \<open>Sequences edited one element at a time\<close>

fun append_all :: "('s \<Rightarrow> 'e \<Rightarrow> 's res) \<Rightarrow> 's \<Rightarrow> 'e list \<Rightarrow> 's res" where
  "append_all app s [] = Inr s"
| "append_all app s (b # bs) = res_bind (app s b) (\<lambda>s'. append_all app s' bs)"

fun insert_all :: "('s \<Rightarrow> nat \<Rightarrow> 'e \<Rightarrow> 's res) \<Rightarrow> 's \<Rightarrow> nat \<Rightarrow> 'e list \<Rightarrow> 's res" where
  "insert_all ins s off [] = Inr s"
| "insert_all ins s off (b # bs) = res_bind (ins s off b) (\<lambda>s'. insert_all ins s' (off + 1) bs)"

fun delete_n :: "('s \<Rightarrow> nat \<Rightarrow> 's res) \<Rightarrow> 's \<Rightarrow> nat \<Rightarrow> nat \<Rightarrow> 's res" where
  "delete_n del s pos 0 = Inr s"
| "delete_n del s pos (Suc n) = res_bind (del s pos) (\<lambda>s'. delete_n del s' pos n)"

locale editable_seq =
  fixes inv :: "'s \<Rightarrow> bool"
    and elems :: "'s \<Rightarrow> 'e list"
    and append :: "'s \<Rightarrow> 'e \<Rightarrow> 's res"
    and ins :: "'s \<Rightarrow> nat \<Rightarrow> 'e \<Rightarrow> 's res"
    and del :: "'s \<Rightarrow> nat \<Rightarrow> 's res"
    and clear :: "'s \<Rightarrow> 's"
  assumes append_law: "inv s \<Longrightarrow> returns (append s x) (\<lambda>s'. inv s' \<and> elems s' = elems s @ [x])"
    and ins_law: "inv s \<Longrightarrow> i \<le> length (elems s) \<Longrightarrow>
      returns (ins s i x) (\<lambda>s'. inv s' \<and> elems s' = take i (elems s) @ x # drop i (elems s))"
    and del_law: "inv s \<Longrightarrow> i < length (elems s) \<Longrightarrow>
      returns (del s i) (\<lambda>s'. inv s' \<and> elems s' = take i (elems s) @ drop (Suc i) (elems s))"
    and clear_inv: "inv s \<Longrightarrow> inv (clear s)"
    and clear_elems: "inv s \<Longrightarrow> elems (clear s) = []"
begin

lemma append_all_spec:
  "inv s \<Longrightarrow> returns (append_all append s xs) (\<lambda>s'. inv s' \<and> elems s' = elems s @ xs)"
proof (induction xs arbitrary: s)
  case Nil
  then show ?case by simp
next
  case (Cons x xs)
  show ?case
    by (auto intro!: returns_bindI [OF append_law [OF Cons.prems]] returns_mono [OF Cons.IH])
qed

lemma set_all_spec:
  "inv s \<Longrightarrow> returns (append_all append (clear s) xs) (\<lambda>s'. inv s' \<and> elems s' = xs)"
  using append_all_spec [OF clear_inv, of s xs] by (simp add: clear_elems)

lemma insert_all_spec:
  "inv s \<Longrightarrow> off \<le> length (elems s) \<Longrightarrow>
   returns (insert_all ins s off xs)
     (\<lambda>s'. inv s' \<and> elems s' = take off (elems s) @ xs @ drop off (elems s))"
proof (induction xs arbitrary: s off)
  case Nil
  then show ?case by simp
next
  case (Cons x xs)
  show ?case
    by (simp, rule returns_bindI [OF ins_law [OF Cons.prems]])
       (rule returns_mono [OF Cons.IH], use Cons.prems in auto)
qed

lemma delete_n_spec:
  "inv s \<Longrightarrow> pos + n \<le> length (elems s) \<Longrightarrow>
   returns (delete_n del s pos n)
     (\<lambda>s'. inv s' \<and> elems s' = take pos (elems s) @ drop (pos + n) (elems s))"
proof (induction n arbitrary: s)
  case 0
  then show ?case by simp
next
  case (Suc n)
  have "pos < length (elems s)" and "n + pos \<le> length (elems s) - Suc 0"
    using Suc.prems(2) by simp_all
  then show ?case
    by (simp, intro returns_bindI [OF del_law [OF Suc.prems(1)]])
       (auto intro!: returns_mono [OF Suc.IH] simp: min_def add.commute add.left_commute)
qed

end

end
