(* ===== verification/Ik_Layer.thy ===== *)
theory Ik_Layer
  imports Ik_Prelude
begin

text \<open>
  The output buffer and the layer cake, apps/ikigai/layer.c.

  A layer is a record of its three callbacks; what the code passes them through the \<^verbatim>\<open>data\<close> pointer is
  captured in the functions. A callback renders a range of its rows by appending to the output buffer.
  The buffer is its allocated block.

  The locale \<open>row_layer\<close> is what the cake relies on, in particular when the viewport cuts a layer:
  rendering \<open>n\<close> rows from row \<open>s\<close> on appends exactly these rows.
\<close>

subsection \<open>The output buffer\<close>

record ik_output_buffer =
  ob_data :: "byte list"
  ob_size :: nat
  ob_capacity :: nat

definition ik_output_buffer_create :: "nat \<Rightarrow> ik_output_buffer res" where
  "ik_output_buffer_create initial_capacity =
     check_assert (initial_capacity > 0)
       (Inr \<lparr>ob_data = replicate initial_capacity 0, ob_size = 0, ob_capacity = initial_capacity\<rparr>)"

definition ik_output_buffer_append :: "ik_output_buffer \<Rightarrow> byte list \<Rightarrow> ik_output_buffer res" where
  "ik_output_buffer_append buf data =
     (if length data = 0 then Inr buf
      else (let required_capacity = ob_size buf + length data;
                buf' = (if required_capacity > ob_capacity buf
                        then (let new_capacity = (if ob_capacity buf * 3 div 2 < required_capacity
                                                  then required_capacity else ob_capacity buf * 3 div 2)
                              in buf\<lparr>ob_data := realloc 0 (ob_data buf) new_capacity,
                                     ob_capacity := new_capacity\<rparr>)
                        else buf)
            in res_bind (copy_in (ob_data buf') (ob_size buf') data)
                 (\<lambda>d. Inr (buf'\<lparr>ob_data := d, ob_size := ob_size buf' + length data\<rparr>))))"

fun output_all :: "ik_output_buffer \<Rightarrow> byte list list \<Rightarrow> ik_output_buffer res" where
  "output_all buf [] = Inr buf"
| "output_all buf (d # ds) = res_bind (ik_output_buffer_append buf d) (\<lambda>buf'. output_all buf' ds)"

subsection \<open>Layers and the cake\<close>

record ik_layer =
  ly_name :: string
  ly_is_visible :: bool
  ly_get_height :: "nat \<Rightarrow> nat"
  ly_render :: "ik_output_buffer \<Rightarrow> nat \<Rightarrow> nat \<Rightarrow> nat \<Rightarrow> ik_output_buffer res"

definition ik_layer_create ::
  "string \<Rightarrow> bool \<Rightarrow> (nat \<Rightarrow> nat) \<Rightarrow> (ik_output_buffer \<Rightarrow> nat \<Rightarrow> nat \<Rightarrow> nat \<Rightarrow> ik_output_buffer res) \<Rightarrow> ik_layer" where
  "ik_layer_create name is_visible get_height render =
     \<lparr>ly_name = name, ly_is_visible = is_visible, ly_get_height = get_height, ly_render = render\<rparr>"

record ik_layer_cake =
  lc_layers :: "ik_layer list"
  lc_layer_capacity :: nat
  lc_viewport_row :: nat
  lc_viewport_height :: nat

definition ik_layer_cake_create :: "nat \<Rightarrow> ik_layer_cake" where
  "ik_layer_cake_create viewport_height =
     \<lparr>lc_layers = [], lc_layer_capacity = 4, lc_viewport_row = 0, lc_viewport_height = viewport_height\<rparr>"

text \<open>\<open>lc_layers\<close> is the used part of the array, whose size is the capacity.\<close>

definition ik_layer_cake_add_layer :: "ik_layer_cake \<Rightarrow> ik_layer \<Rightarrow> ik_layer_cake res" where
  "ik_layer_cake_add_layer cake l =
     (let cap = (if length (lc_layers cake) \<ge> lc_layer_capacity cake
                 then lc_layer_capacity cake * 2 else lc_layer_capacity cake)
      in if length (lc_layers cake) < cap
         then Inr (cake\<lparr>lc_layers := lc_layers cake @ [l], lc_layer_capacity := cap\<rparr>)
         else Inl MemFault)"

definition ik_layer_cake_get_total_height :: "ik_layer_cake \<Rightarrow> nat \<Rightarrow> nat" where
  "ik_layer_cake_get_total_height cake width =
     sum_list (map (\<lambda>l. ly_get_height l width) (filter ly_is_visible (lc_layers cake)))"

fun cake_loop ::
  "ik_layer list \<Rightarrow> ik_output_buffer \<Rightarrow> nat \<Rightarrow> nat \<Rightarrow> nat \<Rightarrow> nat \<Rightarrow> ik_output_buffer res" where
  "cake_loop [] output width viewport_row viewport_end current_row = Inr output"
| "cake_loop (l # ls) output width viewport_row viewport_end current_row =
     (if \<not> ly_is_visible l then cake_loop ls output width viewport_row viewport_end current_row
      else (let layer_height = ly_get_height l width;
                layer_end = current_row + layer_height
            in res_bind
                 (if layer_end > viewport_row \<and> current_row < viewport_end
                  then (let start_row = (if current_row < viewport_row then viewport_row - current_row else 0);
                            row_count = layer_height - start_row
                              - (if layer_end > viewport_end then layer_end - viewport_end else 0)
                        in ly_render l output width start_row row_count)
                  else Inr output)
                 (\<lambda>out. if layer_end \<ge> viewport_end then Inr out
                        else cake_loop ls out width viewport_row viewport_end layer_end)))"

definition ik_layer_cake_render :: "ik_layer_cake \<Rightarrow> ik_output_buffer \<Rightarrow> nat \<Rightarrow> ik_output_buffer res" where
  "ik_layer_cake_render cake output width =
     check_assert (width > 0)
       (cake_loop (lc_layers cake) output width (lc_viewport_row cake)
          (lc_viewport_row cake + lc_viewport_height cake) 0)"

subsection \<open>The buffer as a list of bytes\<close>

definition ob_inv :: "ik_output_buffer \<Rightarrow> bool" where
  "ob_inv b \<longleftrightarrow> length (ob_data b) = ob_capacity b \<and> ob_size b \<le> ob_capacity b"

definition contents :: "ik_output_buffer \<Rightarrow> byte list" where
  "contents b = take (ob_size b) (ob_data b)"

text \<open>\<open>emits m out bs\<close>: the computation returns the buffer \<open>out\<close> with \<open>bs\<close> appended.\<close>

definition emits :: "ik_output_buffer res \<Rightarrow> ik_output_buffer \<Rightarrow> byte list \<Rightarrow> bool" where
  "emits m out bs \<longleftrightarrow> returns m (\<lambda>out'. ob_inv out' \<and> contents out' = contents out @ bs)"

lemma append_emits:
  assumes "ob_inv b"
  shows "emits (ik_output_buffer_append b data) b data"
proof (cases "data = []")
  case True
  then show ?thesis using assms by (simp add: emits_def ik_output_buffer_append_def)
next
  case False
  define b' where "b' = (if ob_size b + length data > ob_capacity b
      then (let new_capacity = (if ob_capacity b * 3 div 2 < ob_size b + length data
                                then ob_size b + length data else ob_capacity b * 3 div 2)
            in b\<lparr>ob_data := realloc 0 (ob_data b) new_capacity, ob_capacity := new_capacity\<rparr>)
      else b)"
  have b': "length (ob_data b') = ob_capacity b'" "ob_size b' = ob_size b"
    "ob_size b + length data \<le> ob_capacity b'" "take (ob_size b) (ob_data b') = take (ob_size b) (ob_data b)"
    using assms by (auto simp: b'_def ob_inv_def Let_def take_realloc)
  have "ik_output_buffer_append b data
      = res_bind (copy_in (ob_data b') (ob_size b') data)
          (\<lambda>d. Inr (b'\<lparr>ob_data := d, ob_size := ob_size b' + length data\<rparr>))"
    unfolding ik_output_buffer_append_def b'_def [symmetric] Let_def using False by (simp add: b'_def Let_def)
  moreover have "ob_size b \<le> length (ob_data b)" using assms by (simp add: ob_inv_def)
  ultimately show ?thesis using b' by (simp add: emits_def ob_inv_def contents_def min_def)
qed

lemma emits_bind:
  assumes "emits m out bs" and "\<And>out'. ob_inv out' \<Longrightarrow> emits (f out') out' cs"
  shows "emits (res_bind m f) out (bs @ cs)"
  using assms unfolding emits_def
  by (elim returnsE) (fastforce simp: returns_iff)

lemma emits_nothing: "ob_inv out \<Longrightarrow> emits (Inr out) out []"
  by (simp add: emits_def)

lemma output_all_emits: "ob_inv b \<Longrightarrow> emits (output_all b ds) b (concat ds)"
proof (induction ds arbitrary: b)
  case Nil
  then show ?case by (simp add: emits_nothing)
next
  case (Cons d ds)
  then show ?case using emits_bind [OF append_emits [OF Cons.prems]] by simp
qed

subsection \<open>The contract of a layer\<close>

locale row_layer =
  fixes layer :: ik_layer and width :: nat and rows :: "byte list list"
  assumes height: "ly_get_height layer width = length rows"
    and render_rows: "ob_inv out \<Longrightarrow> 0 < n \<or> rows = [] \<Longrightarrow> s + n \<le> length rows \<Longrightarrow>
      emits (ly_render layer out width s n) out (concat (take n (drop s rows)))"

text \<open>The rows of the visible layers, from top to bottom.\<close>

fun visible_rows :: "ik_layer list \<Rightarrow> byte list list list \<Rightarrow> byte list list" where
  "visible_rows (l # ls) (r # rs) = (if ly_is_visible l then r else []) @ visible_rows ls rs"
| "visible_rows ls rs = []"

context row_layer
begin

text \<open>What the cake renders of one layer that starts at row \<open>cur\<close>.\<close>

lemma clipped:
  assumes out: "ob_inv out" and e: "vrow < vend"
  shows "emits (if cur + length rows > vrow \<and> cur < vend
      then (let start_row = (if cur < vrow then vrow - cur else 0);
                row_count = length rows - start_row
                  - (if cur + length rows > vend then cur + length rows - vend else 0)
            in ly_render layer out width start_row row_count)
      else Inr out) out (concat (take (vend - max cur vrow) (drop (vrow - cur) rows)))"
proof (cases "cur + length rows > vrow \<and> cur < vend")
  case True
  let ?s = "if cur < vrow then vrow - cur else 0"
  let ?n = "length rows - ?s - (if cur + length rows > vend then cur + length rows - vend else 0)"
  have s: "?s = vrow - cur" by simp
  have n: "0 < ?n \<or> rows = []" "?s + ?n \<le> length rows" using True e by auto
  have "take (vend - max cur vrow) (drop (vrow - cur) rows) = take ?n (drop ?s rows)"
  proof (cases "cur + length rows > vend")
    case True
    then have "?n = vend - max cur vrow" using e by auto
    then show ?thesis using s by simp
  next
    case False
    then have "length (drop ?s rows) \<le> ?n" "length (drop ?s rows) \<le> vend - max cur vrow" by auto
    then show ?thesis using s by simp
  qed
  then show ?thesis using render_rows [OF out n] True by (simp add: Let_def)
next
  case False
  then have "take (vend - max cur vrow) (drop (vrow - cur) rows) = []" using e by auto
  then show ?thesis using emits_nothing [OF out] False by (simp only: if_False concat.simps)
qed

end

lemma take_drop_append:
  "take (e - max c v) (drop (v - c) (xs @ ys))
   = take (e - max c v) (drop (v - c) xs) @ take (e - max (c + length xs) v) (drop (v - (c + length xs)) ys)"
proof (cases "v - c \<le> length xs")
  case True
  then have "e - max c v - length (drop (v - c) xs) = e - max (c + length xs) v"
    "v - (c + length xs) = 0" "v - c - length xs = 0" by auto
  then show ?thesis by (simp only: drop_append take_append)
next
  case False
  then have "max c v = max (c + length xs) v" "v - c - length xs = v - (c + length xs)" by auto
  then show ?thesis using False by simp
qed

lemma cake_loop_rows:
  assumes "vrow < vend"
  shows "list_all2 (\<lambda>l r. row_layer l width r) ls rs \<Longrightarrow> ob_inv out \<Longrightarrow>
    emits (cake_loop ls out width vrow vend cur) out
      (concat (take (vend - max cur vrow) (drop (vrow - cur) (visible_rows ls rs))))"
proof (induction ls arbitrary: rs out cur)
  case Nil
  then show ?case by (simp add: emits_nothing)
next
  case (Cons l ls)
  then obtain r rs' where rs: "rs = r # rs'" "row_layer l width r" "list_all2 (\<lambda>l r. row_layer l width r) ls rs'"
    by (auto simp: list_all2_Cons1)
  show ?case
  proof (cases "ly_is_visible l")
    case False
    then show ?thesis using Cons.IH [OF rs(3) Cons.prems(2)] rs(1) by simp
  next
    case True
    let ?rest = "take (vend - max (cur + length r) vrow) (drop (vrow - (cur + length r)) (visible_rows ls rs'))"
    have h: "ly_get_height l width = length r" using rs(2) by (rule row_layer.height)
    have tail: "emits (if cur + length r \<ge> vend then Inr out' else cake_loop ls out' width vrow vend (cur + length r))
        out' (concat ?rest)" if "ob_inv out'" for out'
      using Cons.IH [OF rs(3) that, of "cur + length r"] emits_nothing [OF that] by simp
    have step: "cake_loop (l # ls) out width vrow vend cur
        = res_bind (if cur + length r > vrow \<and> cur < vend
            then (let start_row = (if cur < vrow then vrow - cur else 0);
                      row_count = length r - start_row
                        - (if cur + length r > vend then cur + length r - vend else 0)
                  in ly_render l out width start_row row_count)
            else Inr out)
          (\<lambda>out'. if cur + length r \<ge> vend then Inr out' else cake_loop ls out' width vrow vend (cur + length r))"
      using True by (simp only: cake_loop.simps h not_True_eq_False if_False Let_def)
    have rows: "concat (take (vend - max cur vrow) (drop (vrow - cur) (visible_rows (l # ls) rs)))
        = concat (take (vend - max cur vrow) (drop (vrow - cur) r)) @ concat ?rest"
      using True by (simp only: rs(1) visible_rows.simps if_True take_drop_append concat_append)
    show ?thesis
      unfolding step rows by (rule emits_bind [OF row_layer.clipped [OF rs(2) Cons.prems(2) assms] tail])
  qed
qed

lemma total_height_rows:
  "list_all2 (\<lambda>l r. row_layer l width r) ls rs \<Longrightarrow>
   sum_list (map (\<lambda>l. ly_get_height l width) (filter ly_is_visible ls)) = length (visible_rows ls rs)"
  by (induction rule: list_all2_induct) (auto simp: row_layer.height)

end
