(* ===== verification/Ik_Ansi.thy ===== *)
theory Ik_Ansi
  imports Ik_Prelude
begin

text \<open>
  Terminal control sequences, apps/ikigai/ansi.c: skipping a CSI sequence, the 256 colour
  foreground sequence, and the colour switch read from the environment (\<open>getenv\<close> is a parameter).

  A skip never leaves the text and starts at an escape character; every colour sequence the
  program emits is skipped as a whole, so it takes no column of the display.
\<close>

subsection \<open>The code\<close>

function csi_scan :: "byte list \<Rightarrow> nat \<Rightarrow> nat \<Rightarrow> nat" where
  "csi_scan text pos i =
     (if i < length text then
        (let c = text ! i
         in if (c \<ge> 0x30 \<and> c \<le> 0x3F) \<or> (c \<ge> 0x20 \<and> c \<le> 0x2F) then csi_scan text pos (i + 1)
            else if c \<ge> 0x40 \<and> c \<le> 0x7E then i + 1 - pos
            else 0)
      else 0)"
  by pat_completeness auto
termination
  by (relation "measure (\<lambda>(text, pos, i). length text - i)") auto

declare csi_scan.simps [simp del]

definition ik_ansi_skip_csi :: "byte list \<Rightarrow> nat \<Rightarrow> nat" where
  "ik_ansi_skip_csi text pos =
     (if pos + 1 \<ge> length text then 0
      else if text ! pos \<noteq> 0x1B \<or> text ! (pos + 1) \<noteq> 0x5B then 0
      else csi_scan text pos (pos + 2))"

text \<open>Decimal digits of an 8 bit number, as the format \<^verbatim>\<open>%u\<close> prints them.\<close>

definition dec_u8 :: "byte \<Rightarrow> byte list" where
  "dec_u8 c =
     (let n = unat c; d = (\<lambda>k. word_of_nat (48 + k))
      in if n < 10 then [d n]
         else if n < 100 then [d (n div 10), d (n mod 10)]
         else [d (n div 100), d (n div 10 mod 10), d (n mod 10)])"

definition fg_256_text :: "byte \<Rightarrow> byte list" where
  "fg_256_text color = [0x1B, 0x5B, 0x33, 0x38, 0x3B, 0x35, 0x3B] @ dec_u8 color @ [0x6D]"

text \<open>\<^verbatim>\<open>snprintf\<close> writes what fits and a terminator; the result is the text and the returned length.\<close>

definition ik_ansi_fg_256 :: "nat \<Rightarrow> byte \<Rightarrow> byte list \<times> nat" where
  "ik_ansi_fg_256 buf_size color =
     (let written = length (fg_256_text color)
      in (take (buf_size - 1) (fg_256_text color), if written \<ge> buf_size then 0 else written))"

definition ik_ansi_init :: "(string \<Rightarrow> string option) \<Rightarrow> bool" where
  "ik_ansi_init getenv =
     (if getenv ''NO_COLOR'' \<noteq> None then False
      else if getenv ''TERM'' = Some ''dumb'' then False
      else True)"

definition ansi_reset :: "byte list" where
  "ansi_reset = [0x1B, 0x5B, 0x30, 0x6D]"

text \<open>A colour sequence written to a buffer of 16 bytes, as far as its returned length.\<close>

definition fg :: "byte \<Rightarrow> byte list" where
  "fg color = (case ik_ansi_fg_256 16 color of (seq, len) \<Rightarrow> take len seq)"

subsection \<open>Properties\<close>

lemma csi_scan_bounds:
  "pos < i \<Longrightarrow> csi_scan text pos i > 0 \<Longrightarrow>
   i - pos < csi_scan text pos i \<and> pos + csi_scan text pos i \<le> length text"
proof (induction "text" pos i rule: csi_scan.induct)
  case (1 "text" pos i)
  show ?case
    using "1.prems" "1.IH" [OF _ refl]
    by (auto simp: csi_scan.simps [of "text" pos i] Let_def split: if_splits)
qed

lemma skip_csi_bound: "ik_ansi_skip_csi text pos > 0 \<Longrightarrow> pos + ik_ansi_skip_csi text pos \<le> length text"
  using csi_scan_bounds [of pos "pos + 2" "text"] by (auto simp: ik_ansi_skip_csi_def split: if_splits)

lemma skip_csi_starts:
  "ik_ansi_skip_csi text pos > 0 \<Longrightarrow> pos + 1 < length text \<and> text ! pos = 0x1B \<and> text ! (pos + 1) = 0x5B"
  by (auto simp: ik_ansi_skip_csi_def split: if_splits)

text \<open>A run of parameter bytes followed by a final byte is skipped completely.\<close>

definition is_param :: "byte \<Rightarrow> bool" where
  "is_param c \<longleftrightarrow> (c \<ge> 0x30 \<and> c \<le> 0x3F) \<or> (c \<ge> 0x20 \<and> c \<le> 0x2F)"

lemma csi_scan_params:
  assumes "list_all is_param ps" and "f \<ge> 0x40" and "f \<le> 0x7E" and "pos \<le> length us"
  shows "csi_scan (us @ ps @ f # vs) pos (length us) = length us + length ps + 1 - pos"
  using assms(1,4)
proof (induction ps arbitrary: us)
  case Nil
  have "\<not> f \<le> 0x3F" and "\<not> f \<le> 0x2F" using assms(2) by (auto simp: word_le_nat_alt)
  with assms(2,3) show ?case by (subst csi_scan.simps) (simp add: nth_append)
next
  case (Cons p ps)
  from Cons.IH [of "us @ [p]"] Cons.prems show ?case
    by (subst csi_scan.simps) (simp add: nth_append is_param_def)
qed

lemma dec_u8_params: "list_all is_param (dec_u8 c)"
proof -
  have digit: "is_param (word_of_nat (48 + k))" if "k < 10" for k
  proof -
    have "unat (word_of_nat (48 + k) :: byte) = 48 + k"
      using that by (simp add: unat_of_nat del: of_nat_add)
    then show ?thesis using that by (simp add: is_param_def word_le_nat_alt del: of_nat_add)
  qed
  have "unat c div 100 < 10" and "unat c div 10 mod 10 < 10"
    using unat_byte_less [of c] by linarith+
  moreover have "unat c div 10 < 10" if "unat c < 100" using that by linarith
  ultimately show ?thesis
    using digit by (auto simp: dec_u8_def Let_def simp del: of_nat_add)
qed

lemma skip_fg_256: "ik_ansi_skip_csi (fg_256_text color @ vs) 0 = length (fg_256_text color)"
proof -
  have "list_all is_param ([0x33, 0x38, 0x3B, 0x35, 0x3B] @ dec_u8 color)"
    using dec_u8_params by (simp add: is_param_def)
  from csi_scan_params [OF this, of "0x6D" 0 "[0x1B, 0x5B]" vs] show ?thesis
    by (simp add: ik_ansi_skip_csi_def fg_256_text_def)
qed

text \<open>A colour sequence written into a buffer of at least 12 bytes is complete, and wherever it
  stands in a text the skip of control sequences steps over exactly this sequence.\<close>

theorem colour_sequence_skipped:
  assumes "buf_size \<ge> 12"
  shows "snd (ik_ansi_fg_256 buf_size color) = length (fst (ik_ansi_fg_256 buf_size color))
    \<and> snd (ik_ansi_fg_256 buf_size color) > 0
    \<and> ik_ansi_skip_csi (fst (ik_ansi_fg_256 buf_size color) @ rest) 0
        = snd (ik_ansi_fg_256 buf_size color)"
proof -
  have l: "length (fg_256_text color) < 12" "0 < length (fg_256_text color)"
    by (simp_all add: fg_256_text_def dec_u8_def Let_def)
  then have "take (buf_size - 1) (fg_256_text color) = fg_256_text color" using assms by simp
  then have "ik_ansi_fg_256 buf_size color = (fg_256_text color, length (fg_256_text color))"
    using l assms by (simp add: ik_ansi_fg_256_def Let_def)
  with l show ?thesis by (simp add: skip_fg_256)
qed

theorem colour_sequence_skipped_witness:
  "ik_ansi_skip_csi (fst (ik_ansi_fg_256 16 242) @ [65]) 0 = 11"
proof -
  have "snd (ik_ansi_fg_256 16 242) = 11" by code_simp
  then show ?thesis using colour_sequence_skipped [of 16 242 "[65]"] by simp
qed

end
