(* ===== verification/Ik_Utf8.thy ===== *)
theory Ik_Utf8
  imports Ik_Prelude
begin

text \<open>
  UTF-8 as the program encodes, decodes and scans it.

  \<open>encode_utf8\<close>, \<open>find_prev_char_start\<close> and \<open>find_next_char_end\<close> are the static helpers of
  apps/ikigai/input_buffer/core.c, \<open>decode_utf8_sequence\<close> the one of apps/ikigai/input.c, and
  \<open>lead_len\<close> the classification of lead bytes written out in core.c and multiline.c. Bytes are
  8 bit words and code points 32 bit words, as in the code, with the code's masks and shifts.

  \<open>utf8 cps\<close> is the byte string of a list of code points; \<open>is_scalar\<close> excludes the surrogates.
  The lemmas show the shape of an encoding (one lead byte that announces the length, then
  continuation bytes), that the two scans move by exactly one code point, that decoding inverts
  encoding, and that decoding only ever yields scalar values.
\<close>

subsection \<open>The code\<close>

definition encode_utf8 :: "32 word \<Rightarrow> byte list" where
  "encode_utf8 codepoint =
     (if codepoint \<le> 0x7F then [ucast codepoint]
      else if codepoint \<le> 0x7FF then
        [ucast (0xC0 OR drop_bit 6 codepoint),
         ucast (0x80 OR (codepoint AND 0x3F))]
      else if codepoint \<le> 0xFFFF then
        [ucast (0xE0 OR drop_bit 12 codepoint),
         ucast (0x80 OR (drop_bit 6 codepoint AND 0x3F)),
         ucast (0x80 OR (codepoint AND 0x3F))]
      else if codepoint \<le> 0x10FFFF then
        [ucast (0xF0 OR drop_bit 18 codepoint),
         ucast (0x80 OR (drop_bit 12 codepoint AND 0x3F)),
         ucast (0x80 OR (drop_bit 6 codepoint AND 0x3F)),
         ucast (0x80 OR (codepoint AND 0x3F))]
      else [])"

definition decode_bits :: "byte list \<Rightarrow> 32 word res" where
  "decode_bits buf = (case buf of
      [b0, b1] \<Rightarrow>
        Inr (push_bit 6 (ucast (b0 AND 0x1F)) OR ucast (b1 AND 0x3F))
    | [b0, b1, b2] \<Rightarrow>
        Inr (push_bit 12 (ucast (b0 AND 0x0F)) OR (push_bit 6 (ucast (b1 AND 0x3F))
             OR ucast (b2 AND 0x3F)))
    | [b0, b1, b2, b3] \<Rightarrow>
        Inr (push_bit 18 (ucast (b0 AND 0x07)) OR (push_bit 12 (ucast (b1 AND 0x3F))
             OR (push_bit 6 (ucast (b2 AND 0x3F)) OR ucast (b3 AND 0x3F))))
    | _ \<Rightarrow> Inl Panic)"

definition decode_utf8_sequence :: "byte list \<Rightarrow> 32 word res" where
  "decode_utf8_sequence buf =
     res_bind (decode_bits buf) (\<lambda>codepoint.
       if length buf = 2 \<and> codepoint < 0x80 then Inr 0xFFFD
       else if length buf = 3 \<and> codepoint < 0x800 then Inr 0xFFFD
       else if length buf = 4 \<and> codepoint < 0x10000 then Inr 0xFFFD
       else if codepoint \<ge> 0xD800 \<and> codepoint \<le> 0xDFFF then Inr 0xFFFD
       else if codepoint > 0x10FFFF then Inr 0xFFFD
       else Inr codepoint)"

text \<open>Length announced by a lead byte; \<open>None\<close> for a byte that is no lead byte.\<close>

definition lead_len :: "byte \<Rightarrow> nat option" where
  "lead_len first_byte =
     (if first_byte AND 0x80 = 0 then Some 1
      else if first_byte AND 0xE0 = 0xC0 then Some 2
      else if first_byte AND 0xF0 = 0xE0 then Some 3
      else if first_byte AND 0xF8 = 0xF0 then Some 4
      else None)"

fun skip_continuation :: "byte list \<Rightarrow> nat \<Rightarrow> nat res" where
  "skip_continuation data 0 = Inr 0"
| "skip_continuation data (Suc p) =
     res_bind (load data (Suc p))
       (\<lambda>b. if b AND 0xC0 = 0x80 then skip_continuation data p else Inr (Suc p))"

definition find_prev_char_start :: "byte list \<Rightarrow> nat \<Rightarrow> nat res" where
  "find_prev_char_start data cursor_pos =
     check_assert (cursor_pos > 0) (skip_continuation data (cursor_pos - 1))"

definition find_next_char_end :: "byte list \<Rightarrow> nat \<Rightarrow> nat" where
  "find_next_char_end data cursor_pos =
     (if cursor_pos \<ge> length data then cursor_pos
      else (let char_len = (case lead_len (data ! cursor_pos) of Some n \<Rightarrow> n | None \<Rightarrow> 1);
                end_pos = cursor_pos + char_len
            in if end_pos > length data then length data else end_pos))"

subsection \<open>Word arithmetic\<close>

lemma take_bit_small: "unat (y :: 'a::len word) < 2 ^ k \<Longrightarrow> take_bit k y = y"
  by (simp add: word_unat_eq_iff unsigned_take_bit_eq take_bit_nat_eq_self)

lemma or_add:
  assumes "unat (y :: 'a::len word) < 2 ^ k"
  shows "push_bit k x OR y = push_bit k x + y"
proof -
  have "push_bit k x AND take_bit k y = 0"
    by (rule bit_word_eqI) (auto simp: bit_simps)
  then show ?thesis using disjunctive_add_eq_or take_bit_small [OF assms] by metis
qed

lemma unat_and_mask: "unat ((x :: 'a::len word) AND mask k) = unat x mod 2 ^ k"
  by (metis take_bit_eq_mask unsigned_take_bit_eq take_bit_eq_mod)

lemma unat_drop_bit: "unat (drop_bit k (x :: 'a::len word)) = unat x div 2 ^ k"
  using unat_drop_bit_eq [of k x] drop_bit_eq_div [of k "unat x"] by metis

lemma unat_or_lead:
  "unat (y :: 32 word) < 64 \<Longrightarrow> unat (0x80 OR y) = 128 + unat y"
  "unat (y :: 32 word) < 64 \<Longrightarrow> unat (0xC0 OR y) = 192 + unat y"
  "unat (y :: 32 word) < 32 \<Longrightarrow> unat (0xE0 OR y) = 224 + unat y"
  "unat (y :: 32 word) < 16 \<Longrightarrow> unat (0xF0 OR y) = 240 + unat y"
  using or_add [of y 6 2] or_add [of y 6 3] or_add [of y 5 7] or_add [of y 4 15]
  by (simp_all add: push_bit_eq_mult unat_word_ariths)

lemma unat_and_low:
  "unat ((x :: 'a::len word) AND 0x3F) = unat x mod 64"
  "unat (x AND 0x1F) = unat x mod 32"
  "unat (x AND 0x0F) = unat x mod 16"
  "unat (x AND 0x07) = unat x mod 8"
  using unat_and_mask [of x 6] unat_and_mask [of x 5] unat_and_mask [of x 4] unat_and_mask [of x 3]
  by (simp_all add: mask_numeral)

lemma unat_to_byte: "unat (ucast (x :: 32 word) :: byte) = unat x mod 256"
  by (simp add: unsigned_ucast_eq take_bit_eq_mod)

lemma unat_of_byte: "unat (ucast (x :: byte) :: 32 word) = unat x"
  using unat_byte_less [of x] by (simp add: unsigned_ucast_eq take_bit_eq_mod)

lemma unat_push_or:
  assumes "unat (y :: 32 word) < 2 ^ k" and "unat x * 2 ^ k + unat y < 2 ^ 32" and "k < 32"
  shows "unat (push_bit k x OR y) = unat x * 2 ^ k + unat y"
proof -
  have "(2 :: nat) ^ k < 2 ^ 32" using assms(3) by (intro power_strict_increasing) simp_all
  moreover have "(2 ^ k :: 32 word) = word_of_nat (2 ^ k)" by simp
  ultimately have "unat (2 ^ k :: 32 word) = 2 ^ k"
    by (simp only: unat_of_nat) (simp add: take_bit_nat_eq_self)
  moreover have "unat x * 2 ^ k < 2 ^ 32" using assms(2) by linarith
  ultimately have "unat (push_bit k x) = unat x * 2 ^ k"
    by (simp add: push_bit_eq_mult unat_word_ariths)
  with assms(2) show ?thesis by (simp add: or_add [OF assms(1)] unat_word_ariths)
qed

lemma byte_class_cont: "((b :: byte) AND 0xC0 = 0x80) \<longleftrightarrow> 128 \<le> unat b \<and> unat b < 192"
  by (rule byte_exhaust [of "\<lambda>b. b AND 0xC0 = 0x80" "\<lambda>n. 128 \<le> n \<and> n < 192"]) code_simp

lemma byte_class_ascii: "((b :: byte) AND 0x80 = 0) \<longleftrightarrow> unat b < 128"
  by (rule byte_exhaust [of "\<lambda>b. b AND 0x80 = 0" "\<lambda>n. n < 128"]) code_simp

lemma byte_class_2: "((b :: byte) AND 0xE0 = 0xC0) \<longleftrightarrow> 192 \<le> unat b \<and> unat b < 224"
  by (rule byte_exhaust [of "\<lambda>b. b AND 0xE0 = 0xC0" "\<lambda>n. 192 \<le> n \<and> n < 224"]) code_simp

lemma byte_class_3: "((b :: byte) AND 0xF0 = 0xE0) \<longleftrightarrow> 224 \<le> unat b \<and> unat b < 240"
  by (rule byte_exhaust [of "\<lambda>b. b AND 0xF0 = 0xE0" "\<lambda>n. 224 \<le> n \<and> n < 240"]) code_simp

lemma byte_class_4: "((b :: byte) AND 0xF8 = 0xF0) \<longleftrightarrow> 240 \<le> unat b \<and> unat b < 248"
  by (rule byte_exhaust [of "\<lambda>b. b AND 0xF8 = 0xF0" "\<lambda>n. 240 \<le> n \<and> n < 248"]) code_simp

lemmas byte_classes = byte_class_cont byte_class_ascii byte_class_2 byte_class_3 byte_class_4

subsection \<open>Encodings\<close>

definition is_scalar :: "32 word \<Rightarrow> bool" where
  "is_scalar cp \<longleftrightarrow> cp \<le> 0x10FFFF \<and> \<not> (0xD800 \<le> cp \<and> cp \<le> 0xDFFF)"

definition utf8 :: "32 word list \<Rightarrow> byte list" where
  "utf8 cps = concat (map encode_utf8 cps)"

definition is_cont :: "byte \<Rightarrow> bool" where
  "is_cont b \<longleftrightarrow> b AND 0xC0 = 0x80"

lemma utf8_simps [simp]:
  "utf8 [] = []"
  "utf8 (c # cs) = encode_utf8 c @ utf8 cs"
  "utf8 (cs @ ds) = utf8 cs @ utf8 ds"
  by (simp_all add: utf8_def)

text \<open>The bytes of an encoding as numbers.\<close>

lemma encode_utf8_nats:
  "map unat (encode_utf8 cp) =
     (let n = unat cp in
      if n \<le> 127 then [n]
      else if n \<le> 2047 then [192 + n div 64, 128 + n mod 64]
      else if n \<le> 65535 then [224 + n div 4096, 128 + n div 64 mod 64, 128 + n mod 64]
      else if n \<le> 1114111 then
        [240 + n div 262144, 128 + n div 4096 mod 64, 128 + n div 64 mod 64, 128 + n mod 64]
      else [])"
proof -
  let ?n = "unat cp"
  have "?n div 64 < 32" if "?n \<le> 2047" using that by linarith
  moreover have "?n div 4096 < 16" if "?n \<le> 65535" using that by linarith
  moreover have "?n div 262144 < 5" if "?n \<le> 1114111" using that by linarith
  ultimately show ?thesis
    by (simp add: encode_utf8_def Let_def word_le_nat_alt unat_to_byte unat_or_lead unat_drop_bit
        unat_and_low)
qed

lemma encode_utf8_shape:
  assumes "cp \<le> 0x10FFFF"
  obtains l cs where "encode_utf8 cp = l # cs" and "\<not> is_cont l" and "list_all is_cont cs"
    and "lead_len l = Some (Suc (length cs))"
proof -
  let ?n = "unat cp"
  have n: "?n \<le> 1114111" using assms by (simp add: word_le_nat_alt)
  obtain l cs where e: "encode_utf8 cp = l # cs"
    using n encode_utf8_nats [of cp] by (cases "encode_utf8 cp") (auto simp: Let_def split: if_splits)
  have "?n div 64 < 32" if "?n \<le> 2047" using that by linarith
  moreover have "?n div 4096 < 16" if "?n \<le> 65535" using that by linarith
  moreover have "?n div 262144 < 5" using n by linarith
  ultimately have "\<not> is_cont l" and "list_all is_cont cs" and "lead_len l = Some (Suc (length cs))"
    using n encode_utf8_nats [of cp] e
    by (auto simp: Let_def is_cont_def lead_len_def byte_classes list_all_iff split: if_splits)
  with e that show ?thesis by blast
qed

lemma encode_utf8_nonempty [simp]: "cp \<le> 0x10FFFF \<Longrightarrow> encode_utf8 cp \<noteq> []"
  by (auto elim: encode_utf8_shape)

lemma length_encode_utf8: "cp \<le> 0x10FFFF \<Longrightarrow> 0 < length (encode_utf8 cp) \<and> length (encode_utf8 cp) \<le> 4"
  by (simp add: encode_utf8_def)

lemma encode_utf8_ascii: "unat cp < 128 \<Longrightarrow> encode_utf8 cp = [ucast cp]"
  by (simp add: encode_utf8_def word_le_nat_alt)

text \<open>An ASCII byte occurs in an encoding only as the code point itself.\<close>

lemma ascii_in_encoding:
  assumes "b \<in> set (encode_utf8 cp)" and "unat b < 128"
  shows "encode_utf8 cp = [b] \<and> unat cp = unat b"
proof -
  have "unat b \<in> set (map unat (encode_utf8 cp))" using assms(1) by simp
  then have "unat cp \<le> 127" and "unat b = unat cp"
    using assms(2) unfolding encode_utf8_nats by (auto simp: Let_def split: if_splits)
  then show ?thesis
    using encode_utf8_ascii [of cp] assms(1) by simp
qed

abbreviation scalars :: "32 word list \<Rightarrow> bool" where
  "scalars cps \<equiv> list_all is_scalar cps"

lemma is_scalar_le: "is_scalar cp \<Longrightarrow> cp \<le> 0x10FFFF"
  by (simp add: is_scalar_def)

lemma length_encode_pos: "is_scalar c \<Longrightarrow> 0 < length (encode_utf8 c)"
  using length_encode_utf8 [OF is_scalar_le] by simp

lemma utf8_eq_Nil [simp]: "scalars l \<Longrightarrow> utf8 l = [] \<longleftrightarrow> l = []"
  using length_encode_pos by (cases l) auto

lemma utf8_newline: "(10 :: byte) \<in> set (utf8 l) \<longleftrightarrow> 10 \<in> set l"
proof -
  have "c = 10" if "(10 :: byte) \<in> set (encode_utf8 c)" for c
    using ascii_in_encoding [OF that] by (simp add: word_unat_eq_iff)
  then have "(10 :: byte) \<in> set (encode_utf8 c) \<longleftrightarrow> c = 10" for c
    using encode_utf8_ascii [of 10] by auto
  then show ?thesis by (induction l) auto
qed

subsection \<open>Scanning\<close>

lemma skip_continuation_step:
  assumes "\<not> is_cont l" and "list_all is_cont cs" and "j \<le> length cs"
  shows "skip_continuation (us @ (l # cs) @ vs) (length us + j) = Inr (length us)"
  using assms(3)
proof (induction j)
  case 0
  show ?case
    using assms(1) by (cases us) (auto simp: load_def nth_append is_cont_def)
next
  case (Suc j)
  have "is_cont (cs ! j)" using assms(2) Suc.prems by (simp add: list_all_length)
  with Suc show ?case by (auto simp: load_def nth_append is_cont_def)
qed

lemma find_prev_char_start_utf8:
  assumes "c \<le> 0x10FFFF"
  shows "find_prev_char_start (us @ encode_utf8 c @ vs) (length us + length (encode_utf8 c))
    = Inr (length us)"
proof -
  obtain l cs where e: "encode_utf8 c = l # cs" "\<not> is_cont l" "list_all is_cont cs"
    using encode_utf8_shape [OF assms] by metis
  show ?thesis
    using skip_continuation_step [OF e(2,3), of "length cs" us vs] e(1)
    by (simp add: find_prev_char_start_def)
qed

lemma find_next_char_end_utf8:
  assumes "c \<le> 0x10FFFF"
  shows "find_next_char_end (us @ encode_utf8 c @ vs) (length us) = length us + length (encode_utf8 c)"
proof -
  obtain l cs where "encode_utf8 c = l # cs" "lead_len l = Some (Suc (length cs))"
    using encode_utf8_shape [OF assms] by metis
  then show ?thesis by (simp add: find_next_char_end_def Let_def nth_append)
qed

subsection \<open>Decoding\<close>

lemma decode_bits_nat:
  "decode_bits [b0, b1] = Inr w \<Longrightarrow> unat w = unat b0 mod 32 * 64 + unat b1 mod 64"
  "decode_bits [b0, b1, b2] = Inr w \<Longrightarrow>
     unat w = unat b0 mod 16 * 4096 + unat b1 mod 64 * 64 + unat b2 mod 64"
  "decode_bits [b0, b1, b2, b3] = Inr w \<Longrightarrow>
     unat w = unat b0 mod 8 * 262144 + unat b1 mod 64 * 4096 + unat b2 mod 64 * 64 + unat b3 mod 64"
proof -
  have m: "a mod 64 < 64" "a mod 32 < 32" "a mod 16 < 16" "a mod 8 < 8" for a :: nat by simp_all
  let ?w = "\<lambda>b :: byte. ucast (b AND 0x3F) :: 32 word"
  have w: "unat (?w b) = unat b mod 64" for b by (simp add: unat_of_byte unat_and_low)
  have p6: "unat (push_bit 6 x OR ?w b) = unat x * 64 + unat b mod 64" if "unat x < 64" for x b
    using unat_push_or [of "?w b" 6 x] that m(1) [of "unat b"] by (simp add: w)
  show "decode_bits [b0, b1] = Inr w \<Longrightarrow> unat w = unat b0 mod 32 * 64 + unat b1 mod 64"
    using m(2) [of "unat b0"]
    by (auto simp: decode_bits_def p6 unat_of_byte unat_and_low)
  have p12: "unat (push_bit 12 x OR (push_bit 6 (?w b) OR ?w c))
      = unat x * 4096 + unat b mod 64 * 64 + unat c mod 64" if "unat x < 64" for x b c
    using unat_push_or [of "push_bit 6 (?w b) OR ?w c" 12 x] that m(1) [of "unat b"]
      m(1) [of "unat c"]
    by (simp add: p6 w)
  show "decode_bits [b0, b1, b2] = Inr w \<Longrightarrow>
     unat w = unat b0 mod 16 * 4096 + unat b1 mod 64 * 64 + unat b2 mod 64"
    using m(3) [of "unat b0"]
    by (auto simp: decode_bits_def p12 unat_of_byte unat_and_low)
  have p18: "unat (push_bit 18 x OR (push_bit 12 (?w b) OR (push_bit 6 (?w c) OR ?w d)))
      = unat x * 262144 + unat b mod 64 * 4096 + unat c mod 64 * 64 + unat d mod 64"
    if "unat x < 8" for x b c d
    using unat_push_or [of "push_bit 12 (?w b) OR (push_bit 6 (?w c) OR ?w d)" 18 x] that
      m(1) [of "unat b"] m(1) [of "unat c"] m(1) [of "unat d"]
    by (simp add: p12 w)
  show "decode_bits [b0, b1, b2, b3] = Inr w \<Longrightarrow>
     unat w = unat b0 mod 8 * 262144 + unat b1 mod 64 * 4096 + unat b2 mod 64 * 64 + unat b3 mod 64"
    using m(4) [of "unat b0"]
    by (auto simp: decode_bits_def p18 unat_of_byte unat_and_low)
qed

text \<open>Whatever the bytes, decoding yields a scalar value.\<close>

lemma decode_utf8_scalar:
  assumes "decode_utf8_sequence buf = Inr cp"
  shows "is_scalar cp"
  using assms
  by (auto simp: decode_utf8_sequence_def res_bind_Inr_iff is_scalar_def not_le not_less
      split: if_splits)

lemma decode_utf8_total: "2 \<le> length buf \<Longrightarrow> length buf \<le> 4 \<Longrightarrow> \<exists>cp. decode_utf8_sequence buf = Inr cp"
proof -
  assume "2 \<le> length buf" "length buf \<le> 4"
  then have "\<exists>w. decode_bits buf = Inr w"
    by (auto simp: decode_bits_def split: list.splits)
  then show ?thesis by (auto simp: decode_utf8_sequence_def)
qed

text \<open>Decoding inverts encoding on every scalar value beyond ASCII.\<close>

lemma decode_bits_encode:
  assumes "cp \<le> 0x10FFFF" and "unat cp \<ge> 128"
  shows "decode_bits (encode_utf8 cp) = Inr cp"
proof -
  let ?n = "unat cp"
  have n: "?n \<le> 1114111" using assms by (simp add: word_le_nat_alt)
  have d: "?n div 64 = ?n div 4096 * 64 + ?n div 64 mod 64"
    "?n div 4096 = ?n div 262144 * 64 + ?n div 4096 mod 64"
    by (simp_all add: div_mult2_eq [of ?n 64 64, simplified] div_mult2_eq [of ?n 4096 64, simplified])
  have s: "?n = ?n div 64 * 64 + ?n mod 64" by simp
  have "\<exists>w. decode_bits (encode_utf8 cp) = Inr w \<and> unat w = ?n"
  proof -
    consider "?n \<le> 2047" | "2047 < ?n" "?n \<le> 65535" | "65535 < ?n" by linarith
    then show ?thesis
    proof cases
      case 1
      then obtain b0 b1 where e: "encode_utf8 cp = [b0, b1]"
        "unat b0 = 192 + ?n div 64" "unat b1 = 128 + ?n mod 64"
        using encode_utf8_nats [of cp] assms(2) by (auto simp: Let_def)
      have "?n div 64 < 32" using 1 by linarith
      then have "unat b0 mod 32 * 64 + unat b1 mod 64 = ?n"
        using e(2,3) by (simp add: mod_add_left_eq [of 192 32, symmetric]
            mod_add_left_eq [of 128 64, symmetric])
      with e(1) decode_bits_nat(1) [of b0 b1] show ?thesis
        by (simp add: decode_bits_def)
    next
      case 2
      then obtain b0 b1 b2 where e: "encode_utf8 cp = [b0, b1, b2]"
        "unat b0 = 224 + ?n div 4096" "unat b1 = 128 + ?n div 64 mod 64" "unat b2 = 128 + ?n mod 64"
        using encode_utf8_nats [of cp] assms(2) by (auto simp: Let_def)
      have "?n div 4096 < 16" using 2 by linarith
      then have "unat b0 mod 16 = ?n div 4096" "unat b1 mod 64 = ?n div 64 mod 64"
        "unat b2 mod 64 = ?n mod 64"
        using e(2-) by (simp_all add: mod_add_left_eq [of 224 16, symmetric]
            mod_add_left_eq [of 128 64, symmetric])
      then have "unat b0 mod 16 * 4096 + unat b1 mod 64 * 64 + unat b2 mod 64 = ?n"
        using d(1) s by linarith
      with e(1) decode_bits_nat(2) [of b0 b1 b2] show ?thesis
        by (simp add: decode_bits_def)
    next
      case 3
      then obtain b0 b1 b2 b3 where e: "encode_utf8 cp = [b0, b1, b2, b3]"
        "unat b0 = 240 + ?n div 262144" "unat b1 = 128 + ?n div 4096 mod 64"
        "unat b2 = 128 + ?n div 64 mod 64" "unat b3 = 128 + ?n mod 64"
        using encode_utf8_nats [of cp] n by (auto simp: Let_def)
      have "?n div 262144 < 8" using n by linarith
      then have "unat b0 mod 8 = ?n div 262144" "unat b1 mod 64 = ?n div 4096 mod 64"
        "unat b2 mod 64 = ?n div 64 mod 64" "unat b3 mod 64 = ?n mod 64"
        using e(2-) by (simp_all add: mod_add_left_eq [of 240 8, symmetric]
            mod_add_left_eq [of 128 64, symmetric])
      then have "unat b0 mod 8 * 262144 + unat b1 mod 64 * 4096 + unat b2 mod 64 * 64 + unat b3 mod 64
          = ?n"
        using d s by linarith
      with e(1) decode_bits_nat(3) [of b0 b1 b2 b3] show ?thesis
        by (simp add: decode_bits_def)
    qed
  qed
  then show ?thesis by (auto simp: word_unat_eq_iff)
qed

lemma decode_encode_utf8:
  assumes "is_scalar cp" and "unat cp \<ge> 128"
  shows "decode_utf8_sequence (encode_utf8 cp) = Inr cp"
proof -
  have "length (encode_utf8 cp) = (if unat cp \<le> 2047 then 2 else if unat cp \<le> 65535 then 3 else 4)"
    using assms arg_cong [OF encode_utf8_nats [of cp], of length]
    by (auto simp: Let_def is_scalar_def word_le_nat_alt)
  then show ?thesis
    using assms decode_bits_encode [OF is_scalar_le [OF assms(1)] assms(2)]
    by (auto simp: decode_utf8_sequence_def is_scalar_def word_le_nat_alt word_less_nat_alt)
qed

end
