(* ===== verification/Ik_Utf8proc.thy ===== *)
theory Ik_Utf8proc
  imports Ik_Utf8
begin

text \<open>
  The utf8proc library is not part of the repository. The three functions the program calls are a
  parameter of the model, the record \<open>utf8proc\<close>: \<open>iterate\<close> takes the bytes from the read position
  to the end and yields the number of bytes read (zero or less: an error) and the code point,
  \<open>grapheme_break\<close> says whether a cluster ends between two code points, \<open>charwidth\<close> is the number
  of columns of a code point.

  \<open>utf8proc_ok\<close> is what the program relies on and the library documents: at the start of a
  well-formed sequence of a scalar value, \<open>iterate\<close> reads that sequence, and it never reads past
  the end. \<open>utf8proc_strict\<close> adds that surrogates are rejected. \<open>ref_utf8proc\<close> is a concrete
  instance that satisfies both; it is used to evaluate the model on concrete inputs only.
\<close>

record utf8proc =
  iterate :: "byte list \<Rightarrow> int \<times> 32 word"
  grapheme_break :: "32 word \<Rightarrow> 32 word \<Rightarrow> bool"
  charwidth :: "32 word \<Rightarrow> int"

definition utf8proc_ok :: "utf8proc \<Rightarrow> bool" where
  "utf8proc_ok U \<longleftrightarrow>
     (\<forall>c rest. is_scalar c \<longrightarrow>
        iterate U (encode_utf8 c @ rest) = (int (length (encode_utf8 c)), c))
     \<and> (\<forall>bs. fst (iterate U bs) \<le> int (length bs))"

definition utf8proc_strict :: "utf8proc \<Rightarrow> bool" where
  "utf8proc_strict U \<longleftrightarrow>
     (\<forall>c rest. 0xD800 \<le> c \<and> c \<le> 0xDFFF \<longrightarrow> fst (iterate U (encode_utf8 c @ rest)) \<le> 0)"

lemma iterate_scalar:
  "utf8proc_ok U \<Longrightarrow> is_scalar c \<Longrightarrow>
   iterate U (encode_utf8 c @ rest) = (int (length (encode_utf8 c)), c)"
  by (simp add: utf8proc_ok_def)

lemma iterate_bound: "utf8proc_ok U \<Longrightarrow> fst (iterate U bs) \<le> int (length bs)"
  by (simp add: utf8proc_ok_def)

lemma scalar_not_minus_one: "is_scalar c \<Longrightarrow> c \<noteq> - 1"
proof -
  have "\<not> (- 1 :: 32 word) \<le> 0x10FFFF" by code_simp
  then show "is_scalar c \<Longrightarrow> c \<noteq> - 1" by (auto simp: is_scalar_def)
qed

subsection \<open>A concrete instance\<close>

definition ref_decode :: "byte list \<Rightarrow> 32 word" where
  "ref_decode bs = (case bs of [b] \<Rightarrow> ucast b
     | _ \<Rightarrow> (case decode_bits bs of Inr w \<Rightarrow> w | Inl _ \<Rightarrow> 0))"

definition ref_iterate :: "byte list \<Rightarrow> int \<times> 32 word" where
  "ref_iterate bs = (case bs of [] \<Rightarrow> (0, - 1)
     | b # _ \<Rightarrow>
         (case lead_len b of None \<Rightarrow> (- 3, - 1)
          | Some n \<Rightarrow>
             (let cp = ref_decode (take n bs)
              in if is_scalar cp \<and> encode_utf8 cp = take n bs then (int n, cp) else (- 3, - 1))))"

definition ref_utf8proc :: utf8proc where
  "ref_utf8proc =
     \<lparr>iterate = ref_iterate,
      grapheme_break = (\<lambda>a b. \<not> (0x300 \<le> b \<and> b \<le> 0x36F)),
      charwidth = (\<lambda>c. if c < 32 \<or> (0x300 \<le> c \<and> c \<le> 0x36F) then 0 else 1)\<rparr>"

lemma ref_decode_encode: "cp \<le> 0x10FFFF \<Longrightarrow> ref_decode (encode_utf8 cp) = cp"
proof (cases "unat cp < 128")
  case True
  then show ?thesis
    by (simp add: encode_utf8_ascii ref_decode_def word_unat_eq_iff unat_of_byte unat_to_byte)
next
  case False
  assume cp: "cp \<le> 0x10FFFF"
  have "2 \<le> length (encode_utf8 cp)"
    using False cp by (simp add: encode_utf8_def word_le_nat_alt)
  then obtain a b r where "encode_utf8 cp = a # b # r"
    by (metis One_nat_def Suc_le_length_iff numeral_2_eq_2)
  with False cp decode_bits_encode [of cp] show ?thesis by (simp add: ref_decode_def)
qed

lemma ref_iterate_encode:
  assumes "c \<le> 0x10FFFF"
  shows "ref_iterate (encode_utf8 c @ rest)
    = (if is_scalar c then (int (length (encode_utf8 c)), c) else (- 3, - 1))"
proof -
  obtain l cs where e: "encode_utf8 c = l # cs" "lead_len l = Some (Suc (length cs))"
    using encode_utf8_shape [OF assms] by metis
  moreover have "ref_decode (l # cs) = c" using ref_decode_encode [OF assms] e(1) by simp
  ultimately show ?thesis by (simp add: ref_iterate_def Let_def)
qed

lemma ref_utf8proc_ok: "utf8proc_ok ref_utf8proc"
proof -
  have "n \<le> Suc (length bs)"
    if n: "lead_len b = Some n" and e: "encode_utf8 cp = take n (b # bs)" and "is_scalar cp" for b n cp bs
  proof -
    obtain l cs where "encode_utf8 cp = l # cs" and l: "lead_len l = Some (Suc (length cs))"
      using encode_utf8_shape is_scalar_le [OF \<open>is_scalar cp\<close>] by metis
    with e have "take n (b # bs) = l # cs" by simp
    moreover from this n l have "n = Suc (length cs)" by (cases n) auto
    ultimately show ?thesis by (metis length_Cons length_take min.cobounded1)
  qed
  then have "fst (ref_iterate bs) \<le> int (length bs)" for bs
    by (cases bs) (fastforce simp: ref_iterate_def Let_def split: option.splits)+
  then show ?thesis
    by (auto simp: utf8proc_ok_def ref_utf8proc_def ref_iterate_encode is_scalar_le)
qed

lemma ref_utf8proc_strict: "utf8proc_strict ref_utf8proc"
proof -
  have "c \<le> 0x10FFFF \<and> \<not> is_scalar c" if "0xD800 \<le> c" and "c \<le> 0xDFFF" for c
    using that by (simp add: is_scalar_def word_le_nat_alt)
  then show ?thesis
    by (simp add: utf8proc_strict_def ref_utf8proc_def ref_iterate_encode)
qed

end
