(* ===== verification/Ik_Scrollback.thy ===== *)
theory Ik_Scrollback
  imports Ik_Ansi Ik_Utf8proc
begin

text \<open>
  The scrollback buffer: apps/ikigai/scrollback.c, scrollback_layout.c, scrollback_utils.c and
  scrollback_render.c.

  The text of all lines is one block of bytes, addressed by the arrays of offsets and lengths; the
  layout of a line (display width, number of rows, widths of the segments between its newlines) is
  computed when it is appended and recomputed from the segment widths when the width of the terminal
  changes. Blocks have their allocated size; accesses are checked. Sizes are natural numbers, and the
  width of the terminal is a positive \<^verbatim>\<open>int32_t\<close>.

  All loops over a text read it the same way: \<open>cells\<close> is that reading, and each loop is shown to
  compute a function of the cells.
\<close>

record ik_line_layout =
  ll_display_width :: nat
  ll_physical_lines :: nat
  ll_newline_count :: nat
  ll_segment_widths :: "nat list"

record ik_scrollback =
  sb_text_buffer :: "byte list"
  sb_text_offsets :: "nat list"
  sb_text_lengths :: "nat list"
  sb_layouts :: "ik_line_layout list"
  sb_count :: nat
  sb_capacity :: nat
  sb_cached_width :: int
  sb_total_physical_lines :: nat
  sb_buffer_used :: nat
  sb_buffer_capacity :: nat

subsection \<open>scrollback_utils.c\<close>

function sb_width_loop :: "utf8proc \<Rightarrow> byte list \<Rightarrow> nat \<Rightarrow> nat \<Rightarrow> nat" where
  "sb_width_loop U txt pos display_width =
     (if pos < length txt then
        (let skip = ik_ansi_skip_csi txt pos
         in if skip > 0 then sb_width_loop U txt (pos + skip) display_width
            else (case iterate U (drop pos txt) of (bytes, cp) \<Rightarrow>
               if bytes \<le> 0 then sb_width_loop U txt (pos + 1) (display_width + 1)
               else if cp = 10 then sb_width_loop U txt (pos + nat bytes) display_width
               else sb_width_loop U txt (pos + nat bytes)
                      (if charwidth U cp > 0 then display_width + nat (charwidth U cp) else display_width)))
      else display_width)"
  by pat_completeness auto
termination
  by (relation "measure (\<lambda>(U, txt, pos, w). length txt - pos)") auto

declare sb_width_loop.simps [simp del]

definition ik_scrollback_calculate_display_width :: "utf8proc \<Rightarrow> byte list \<Rightarrow> nat" where
  "ik_scrollback_calculate_display_width U txt = sb_width_loop U txt 0 0"

function newline_loop :: "utf8proc \<Rightarrow> byte list \<Rightarrow> nat \<Rightarrow> nat \<Rightarrow> nat" where
  "newline_loop U txt pos newline_count =
     (if pos < length txt then
        (let skip = ik_ansi_skip_csi txt pos
         in if skip > 0 then newline_loop U txt (pos + skip) newline_count
            else (case iterate U (drop pos txt) of (bytes, cp) \<Rightarrow>
               if bytes \<le> 0 then newline_loop U txt (pos + 1) newline_count
               else newline_loop U txt (pos + nat bytes) (if cp = 10 then newline_count + 1 else newline_count)))
      else newline_count)"
  by pat_completeness auto
termination
  by (relation "measure (\<lambda>(U, txt, pos, n). length txt - pos)") auto

declare newline_loop.simps [simp del]

definition ik_scrollback_count_newlines :: "utf8proc \<Rightarrow> byte list \<Rightarrow> nat" where
  "ik_scrollback_count_newlines U txt = newline_loop U txt 0 0"

fun trim_loop :: "byte list \<Rightarrow> nat \<Rightarrow> nat" where
  "trim_loop txt 0 = 0"
| "trim_loop txt (Suc e) =
     (let c = txt ! e
      in if c \<noteq> 0x20 \<and> c \<noteq> 0x09 \<and> c \<noteq> 0x0A \<and> c \<noteq> 0x0D then Suc e else trim_loop txt e)"

definition ik_scrollback_trim_trailing :: "byte list option \<Rightarrow> byte list" where
  "ik_scrollback_trim_trailing t =
     (case t of None \<Rightarrow> []
      | Some txt \<Rightarrow> if length txt = 0 then [] else take (trim_loop txt (length txt)) txt)"

subsection \<open>scrollback_layout.c\<close>

definition rows_for :: "nat \<Rightarrow> nat \<Rightarrow> nat" where
  "rows_for terminal_width line_width = (line_width + terminal_width - 1) div terminal_width"

text \<open>
  The state of the second pass: the array of segment widths, the rows so far, the width of the current
  segment, its index, and the two flags.
\<close>

record layout_state =
  ls_segment_widths :: "nat list"
  ls_physical_lines :: nat
  ls_line_width :: nat
  ls_current_segment :: nat
  ls_has_any_content :: bool
  ls_ends_with_newline :: bool

function layout_scan :: "utf8proc \<Rightarrow> byte list \<Rightarrow> nat \<Rightarrow> nat \<Rightarrow> layout_state \<Rightarrow> layout_state res" where
  "layout_scan U txt w pos s =
     (if pos < length txt then
        (let skip = ik_ansi_skip_csi txt pos
         in if skip > 0 then layout_scan U txt w (pos + skip) s
            else (case iterate U (drop pos txt) of (bytes, cp) \<Rightarrow>
               if bytes \<le> 0 then
                 layout_scan U txt w (pos + 1)
                   (s\<lparr>ls_line_width := ls_line_width s + 1, ls_has_any_content := True,
                      ls_ends_with_newline := False\<rparr>)
               else if cp = 10 then
                 (case store (ls_segment_widths s) (ls_current_segment s) (ls_line_width s) of
                    Inl e \<Rightarrow> Inl e
                  | Inr segs \<Rightarrow>
                      layout_scan U txt w (pos + nat bytes)
                        (s\<lparr>ls_segment_widths := segs,
                           ls_physical_lines := ls_physical_lines s
                             + (if ls_line_width s = 0 then 1 else rows_for w (ls_line_width s)),
                           ls_current_segment := ls_current_segment s + 1, ls_line_width := 0,
                           ls_ends_with_newline := True\<rparr>))
               else layout_scan U txt w (pos + nat bytes)
                      (s\<lparr>ls_line_width := (if charwidth U cp > 0
                                         then ls_line_width s + nat (charwidth U cp) else ls_line_width s),
                         ls_has_any_content := True, ls_ends_with_newline := False\<rparr>)))
      else Inr s)"
  by pat_completeness auto
termination
  by (relation "measure (\<lambda>(U, txt, w, pos, s). length txt - pos)") auto

declare layout_scan.simps [simp del]

definition ik_scrollback_calculate_layout :: "utf8proc \<Rightarrow> byte list \<Rightarrow> int \<Rightarrow> ik_line_layout res" where
  "ik_scrollback_calculate_layout U txt terminal_width =
     (let newline_count = ik_scrollback_count_newlines U txt
      in res_bind (layout_scan U txt (nat terminal_width) 0
            \<lparr>ls_segment_widths = replicate (newline_count + 1) 0, ls_physical_lines = 0, ls_line_width = 0,
             ls_current_segment = 0, ls_has_any_content = False, ls_ends_with_newline = False\<rparr>)
          (\<lambda>s. res_bind (store (ls_segment_widths s) (ls_current_segment s) (ls_line_width s))
            (\<lambda>segs. Inr
               \<lparr>ll_display_width = ik_scrollback_calculate_display_width U txt,
                ll_physical_lines =
                  (if ls_line_width s = 0 \<and> ls_physical_lines s = 0 then 1
                   else if ls_line_width s > 0
                        then ls_physical_lines s + rows_for (nat terminal_width) (ls_line_width s)
                   else if ls_ends_with_newline s \<and> ls_has_any_content s then ls_physical_lines s + 1
                   else ls_physical_lines s),
                ll_newline_count = newline_count, ll_segment_widths = segs\<rparr>)))"

subsection \<open>scrollback.c\<close>

definition no_layout :: ik_line_layout where
  "no_layout = \<lparr>ll_display_width = 0, ll_physical_lines = 0, ll_newline_count = 0, ll_segment_widths = []\<rparr>"

definition ik_scrollback_create :: "int \<Rightarrow> ik_scrollback res" where
  "ik_scrollback_create terminal_width =
     check_assert (terminal_width > 0)
       (Inr \<lparr>sb_text_buffer = replicate 1024 0, sb_text_offsets = replicate 16 0,
             sb_text_lengths = replicate 16 0, sb_layouts = replicate 16 no_layout, sb_count = 0,
             sb_capacity = 16, sb_cached_width = terminal_width, sb_total_physical_lines = 0,
             sb_buffer_used = 0, sb_buffer_capacity = 1024\<rparr>)"

definition grow_lines :: "ik_scrollback \<Rightarrow> ik_scrollback" where
  "grow_lines sb =
     (if sb_count sb \<ge> sb_capacity sb
      then (let new_capacity = sb_capacity sb * 2
            in sb\<lparr>sb_text_offsets := realloc 0 (sb_text_offsets sb) new_capacity,
                  sb_text_lengths := realloc 0 (sb_text_lengths sb) new_capacity,
                  sb_layouts := realloc no_layout (sb_layouts sb) new_capacity,
                  sb_capacity := new_capacity\<rparr>)
      else sb)"

text \<open>The doubling loop; it does not end for capacity 0, which never occurs.\<close>

function double_until :: "nat \<Rightarrow> nat \<Rightarrow> nat" where
  "double_until need cap = (if need > cap \<and> cap > 0 then double_until need (cap * 2) else cap)"
  by pat_completeness auto
termination
  by (relation "measure (\<lambda>(need, cap). need - cap)") auto

declare double_until.simps [simp del]

definition grow_text :: "ik_scrollback \<Rightarrow> nat \<Rightarrow> ik_scrollback" where
  "grow_text sb n =
     (if sb_buffer_used sb + n + 1 > sb_buffer_capacity sb
      then (let new_buffer_capacity = double_until (sb_buffer_used sb + n + 1) (sb_buffer_capacity sb * 2)
            in sb\<lparr>sb_text_buffer := realloc 0 (sb_text_buffer sb) new_buffer_capacity,
                  sb_buffer_capacity := new_buffer_capacity\<rparr>)
      else sb)"

definition ik_scrollback_append_line :: "utf8proc \<Rightarrow> ik_scrollback \<Rightarrow> byte list \<Rightarrow> ik_scrollback res" where
  "ik_scrollback_append_line U sb0 txt =
     (let sb = grow_text (grow_lines sb0) (length txt); n = sb_count sb; used = sb_buffer_used sb
      in res_bind (store (sb_text_offsets sb) n used) (\<lambda>offsets.
         res_bind (store (sb_text_lengths sb) n (length txt)) (\<lambda>lengths.
         res_bind (if length txt > 0 then copy_in (sb_text_buffer sb) used txt else Inr (sb_text_buffer sb)) (\<lambda>buf.
         res_bind (store buf (used + length txt) 0) (\<lambda>buf'.
         res_bind (ik_scrollback_calculate_layout U txt (sb_cached_width sb)) (\<lambda>layout.
         res_bind (store (sb_layouts sb) n layout) (\<lambda>layouts.
           Inr (sb\<lparr>sb_text_offsets := offsets, sb_text_lengths := lengths, sb_text_buffer := buf',
                   sb_buffer_used := used + length txt + 1, sb_layouts := layouts,
                   sb_total_physical_lines := sb_total_physical_lines sb + ll_physical_lines layout,
                   sb_count := n + 1\<rparr>))))))))"

text \<open>The rows of a line for another width, from the widths of its segments.\<close>

fun reflow_segments :: "nat \<Rightarrow> nat list \<Rightarrow> nat" where
  "reflow_segments w [] = 0"
| "reflow_segments w (sw # sws) = (if sw = 0 then 1 else rows_for w sw) + reflow_segments w sws"

definition reflow_line :: "nat \<Rightarrow> ik_line_layout \<Rightarrow> ik_line_layout" where
  "reflow_line w l =
     l\<lparr>ll_physical_lines := reflow_segments w (take (ll_newline_count l + 1) (ll_segment_widths l))\<rparr>"

definition ik_scrollback_ensure_layout :: "ik_scrollback \<Rightarrow> int \<Rightarrow> ik_scrollback res" where
  "ik_scrollback_ensure_layout sb terminal_width =
     check_assert (terminal_width > 0)
       (if terminal_width = sb_cached_width sb then Inr sb
        else (let n = sb_count sb;
                  ls = map (reflow_line (nat terminal_width)) (take n (sb_layouts sb))
              in Inr (sb\<lparr>sb_layouts := ls @ drop n (sb_layouts sb), sb_cached_width := terminal_width,
                         sb_total_physical_lines := sum_list (map ll_physical_lines ls)\<rparr>)))"

definition ik_scrollback_get_line_count :: "ik_scrollback \<Rightarrow> nat" where
  "ik_scrollback_get_line_count sb = sb_count sb"

definition ik_scrollback_get_total_physical_lines :: "ik_scrollback \<Rightarrow> nat" where
  "ik_scrollback_get_total_physical_lines sb = sb_total_physical_lines sb"

text \<open>The pointer and the length that are returned stand for the bytes they delimit.\<close>

definition line_bytes :: "ik_scrollback \<Rightarrow> nat \<Rightarrow> byte list" where
  "line_bytes sb i = take (sb_text_lengths sb ! i) (drop (sb_text_offsets sb ! i) (sb_text_buffer sb))"

definition ik_scrollback_get_line_text :: "ik_scrollback \<Rightarrow> nat \<Rightarrow> byte list res" where
  "ik_scrollback_get_line_text sb line_index =
     (if line_index \<ge> sb_count sb then Inl (Err OUT_OF_RANGE) else Inr (line_bytes sb line_index))"

fun find_row :: "ik_line_layout list \<Rightarrow> nat \<Rightarrow> nat \<Rightarrow> nat \<Rightarrow> (nat \<times> nat) res" where
  "find_row [] physical_row i current_row = Inl (Err OUT_OF_RANGE)"
| "find_row (l # ls) physical_row i current_row =
     (if physical_row < current_row + ll_physical_lines l then Inr (i, physical_row - current_row)
      else find_row ls physical_row (i + 1) (current_row + ll_physical_lines l))"

definition ik_scrollback_find_logical_line_at_physical_row ::
  "ik_scrollback \<Rightarrow> nat \<Rightarrow> (nat \<times> nat) res" where
  "ik_scrollback_find_logical_line_at_physical_row sb physical_row =
     (if physical_row \<ge> sb_total_physical_lines sb then Inl (Err OUT_OF_RANGE)
      else find_row (take (sb_count sb) (sb_layouts sb)) physical_row 0 0)"

definition ik_scrollback_clear :: "ik_scrollback \<Rightarrow> ik_scrollback" where
  "ik_scrollback_clear sb =
     sb\<lparr>sb_layouts := map (\<lambda>l. l\<lparr>ll_segment_widths := []\<rparr>) (take (sb_count sb) (sb_layouts sb))
                        @ drop (sb_count sb) (sb_layouts sb),
        sb_count := 0, sb_buffer_used := 0, sb_total_physical_lines := 0\<rparr>"

fun append_lines :: "utf8proc \<Rightarrow> ik_scrollback \<Rightarrow> byte list list \<Rightarrow> ik_scrollback res" where
  "append_lines U dest [] = Inr dest"
| "append_lines U dest (l # ls) =
     res_bind (ik_scrollback_append_line U dest l) (\<lambda>dest'. append_lines U dest' ls)"

definition ik_scrollback_copy_from :: "utf8proc \<Rightarrow> ik_scrollback \<Rightarrow> ik_scrollback \<Rightarrow> ik_scrollback res" where
  "ik_scrollback_copy_from U dest src = append_lines U dest (map (line_bytes src) [0..<sb_count src])"

text \<open>The two loops of the search for a display column.\<close>

function col_loop :: "utf8proc \<Rightarrow> byte list \<Rightarrow> nat \<Rightarrow> nat \<Rightarrow> nat \<Rightarrow> nat" where
  "col_loop U txt display_col pos col =
     (if pos < length txt \<and> col < display_col then
        (let skip = ik_ansi_skip_csi txt pos
         in if skip > 0 then col_loop U txt display_col (pos + skip) col
            else (case iterate U (drop pos txt) of (bytes, cp) \<Rightarrow>
               if bytes \<le> 0 then col_loop U txt display_col (pos + 1) (col + 1)
               else if cp = 10 then col_loop U txt display_col (pos + nat bytes) col
               else col_loop U txt display_col (pos + nat bytes)
                      (if charwidth U cp > 0 then col + nat (charwidth U cp) else col)))
      else pos)"
  by pat_completeness auto
termination
  by (relation "measure (\<lambda>(U, txt, dc, pos, col). length txt - pos)") auto

declare col_loop.simps [simp del]

function skip_escapes :: "byte list \<Rightarrow> nat \<Rightarrow> nat" where
  "skip_escapes txt pos =
     (if pos < length txt then
        (let skip = ik_ansi_skip_csi txt pos in if skip > 0 then skip_escapes txt (pos + skip) else pos)
      else pos)"
  by pat_completeness auto
termination
  by (relation "measure (\<lambda>(txt, pos). length txt - pos)") auto

declare skip_escapes.simps [simp del]

definition ik_scrollback_get_byte_offset_at_display_col ::
  "utf8proc \<Rightarrow> ik_scrollback \<Rightarrow> nat \<Rightarrow> nat \<Rightarrow> nat res" where
  "ik_scrollback_get_byte_offset_at_display_col U sb line_index display_col =
     (if line_index \<ge> sb_count sb then Inl (Err OUT_OF_RANGE)
      else if display_col = 0 then Inr 0
      else (let txt = line_bytes sb line_index
            in Inr (skip_escapes txt (col_loop U txt display_col 0 0))))"

subsection \<open>scrollback_render.c\<close>

text \<open>
  The search for the segment in which a row lies: the number of segments that are skipped as a whole
  and the rows of the next one.
\<close>

fun seek_segment :: "nat \<Rightarrow> nat list \<Rightarrow> nat \<Rightarrow> nat \<Rightarrow> nat \<times> nat" where
  "seek_segment w [] rows seg_idx = (seg_idx, 0)"
| "seek_segment w (sw # sws) rows seg_idx =
     (if rows > 0 then
        (let seg_rows = (if sw = 0 then 1 else rows_for w sw)
         in if rows \<ge> seg_rows then seek_segment w sws (rows - seg_rows) (seg_idx + 1)
            else (seg_idx, rows))
      else (seg_idx, 0))"

fun nth_newline :: "byte list \<Rightarrow> nat \<Rightarrow> nat \<Rightarrow> nat option" where
  "nth_newline [] k j = None"
| "nth_newline (b # bs) k j =
     (if b = 10 then (if k = 1 then Some (j + 1) else nth_newline bs (k - 1) (j + 1))
      else nth_newline bs k (j + 1))"

text \<open>The byte at which the row after \<open>rows\<close> rows starts: shared by the two functions below.\<close>

definition byte_after_rows :: "utf8proc \<Rightarrow> ik_scrollback \<Rightarrow> nat \<Rightarrow> nat \<Rightarrow> nat \<Rightarrow> nat \<Rightarrow> nat" where
  "byte_after_rows U sb line_index terminal_width rows on_error =
     (let l = sb_layouts sb ! line_index;
          segs = take (ll_newline_count l + 1) (ll_segment_widths l)
      in case seek_segment terminal_width segs rows 0 of (seg_idx, partial_rows) \<Rightarrow>
        (let cols = sum_list (take seg_idx segs) + partial_rows * terminal_width
         in case ik_scrollback_get_byte_offset_at_display_col U sb line_index cols of
              Inl e \<Rightarrow> on_error
            | Inr start_byte \<Rightarrow>
                (if seg_idx > 0
                 then (case nth_newline (line_bytes sb line_index) seg_idx 0 of
                         Some j \<Rightarrow> j | None \<Rightarrow> start_byte)
                 else start_byte)))"

definition ik_scrollback_calc_start_byte_for_row :: "utf8proc \<Rightarrow> ik_scrollback \<Rightarrow> nat \<Rightarrow> nat \<Rightarrow> nat \<Rightarrow> nat" where
  "ik_scrollback_calc_start_byte_for_row U sb line_index terminal_width start_row_offset =
     (if start_row_offset = 0 then 0
      else byte_after_rows U sb line_index terminal_width start_row_offset 0)"

definition ik_scrollback_calc_end_byte_for_row ::
  "utf8proc \<Rightarrow> ik_scrollback \<Rightarrow> nat \<Rightarrow> nat \<Rightarrow> nat \<Rightarrow> nat \<times> bool" where
  "ik_scrollback_calc_end_byte_for_row U sb line_index terminal_width end_row_offset =
     (let line_len = length (line_bytes sb line_index)
      in if end_row_offset + 1 \<ge> ll_physical_lines (sb_layouts sb ! line_index) then (line_len, True)
         else (byte_after_rows U sb line_index terminal_width (end_row_offset + 1) line_len, False))"

definition ik_scrollback_calc_byte_range_for_rows ::
  "utf8proc \<Rightarrow> ik_scrollback \<Rightarrow> nat \<Rightarrow> nat \<Rightarrow> nat \<Rightarrow> nat \<Rightarrow> nat \<times> nat \<times> bool" where
  "ik_scrollback_calc_byte_range_for_rows U sb line_index terminal_width start_row_offset row_count =
     (ik_scrollback_calc_start_byte_for_row U sb line_index terminal_width start_row_offset,
      ik_scrollback_calc_end_byte_for_row U sb line_index terminal_width (start_row_offset + row_count - 1))"

end
