(* ===== verification/Ik_Completion.thy ===== *)
theory Ik_Completion
  imports Ik_Prelude Complex_Main "HOL-Library.Multiset"
begin

text \<open>
  Completion of commands and of their arguments: apps/ikigai/completion.c and fzy_wrapper.c, the registry
  of commands of commands.c, and \<^verbatim>\<open>has_match\<close> of the vendored matcher fzy.

  The score of fzy, a double that is only compared, is a parameter, as is \<^verbatim>\<open>qsort\<close>, which may order equal
  elements as it likes: the record \<open>fzy\<close>, with \<open>fzy_ok\<close> what C promises of \<^verbatim>\<open>qsort\<close>. The labels of the
  marks, which complete \<^verbatim>\<open>/rewind\<close>, are an argument.
\<close>

subsection \<open>The registry of commands\<close>

text \<open>The registry of commands of commands.c: names and descriptions.\<close>

definition commands :: "(string \<times> string) list" where
  "commands =
    [(''clear'', ''Clear scrollback, session messages, and marks''),
     (''mark'', ''Create a checkpoint for rollback (usage: /mark [label])''),
     (''rewind'', ''Rollback to a checkpoint (usage: /rewind [label])''),
     (''fork'', ''Create a child agent (usage: /fork)''),
     (''kill'', ''Terminate agent (usage: /kill [uuid])''),
     (''send'', ''Send message to agent (usage: /send <uuid> '' @ [CHR 0x22] @ ''message'' @ [CHR 0x22] @ '')''),
     (''wait'', ''Wait for messages (usage: /wait TIMEOUT [UUID...])''),
     (''reap'', ''Remove dead agents (usage: /reap [uuid])''),
     (''agents'', ''Display agent hierarchy tree''),
     (''help'', ''Show available commands''),
     (''model'', ''Switch LLM model (usage: /model <name>)''),
     (''system'', ''Set system message (usage: /system <text>)''),
     (''tool'', ''List tools or show schema (usage: /tool [name])''),
     (''refresh'', ''Reload tool registry''),
     (''pin'', ''Manage pinned documents (usage: /pin [path])''),
     (''unpin'', ''Remove pinned document (usage: /unpin <path>)''),
     (''toolset'', ''Filter tools visible to LLM (usage: /toolset [tool1, tool2, ...])''),
     (''exit'', ''Exit the application'')]"

subsection \<open>Strings of C\<close>

definition toupper :: "byte \<Rightarrow> byte" where
  "toupper b = (if 0x61 \<le> b \<and> b \<le> 0x7A then b - 32 else b)"

definition tolower :: "byte \<Rightarrow> byte" where
  "tolower b = (if 0x41 \<le> b \<and> b \<le> 0x5A then b + 32 else b)"

text \<open>Whether \<^verbatim>\<open>strncasecmp\<close> returns 0.\<close>

fun strncasecmp_eq :: "cstr \<Rightarrow> cstr \<Rightarrow> nat \<Rightarrow> bool" where
  "strncasecmp_eq xs ys 0 = True"
| "strncasecmp_eq [] [] (Suc n) = True"
| "strncasecmp_eq (x # xs) (y # ys) (Suc n) = (tolower x = tolower y \<and> strncasecmp_eq xs ys n)"
| "strncasecmp_eq [] (y # ys) (Suc n) = False"
| "strncasecmp_eq (x # xs) [] (Suc n) = False"

text \<open>\<^verbatim>\<open>strchr\<close>, with the offset of the occurrence instead of a pointer to it.\<close>

fun strchr :: "cstr \<Rightarrow> byte \<Rightarrow> nat option" where
  "strchr [] c = None"
| "strchr (x # xs) c = (if x = c then Some 0 else map_option Suc (strchr xs c))"

subsection \<open>vendor/fzy/match.c\<close>

fun strcasechr :: "cstr \<Rightarrow> byte \<Rightarrow> cstr option" where
  "strcasechr [] c = None"
| "strcasechr (x # xs) c = (if x = c \<or> x = toupper c then Some (x # xs) else strcasechr xs c)"

fun has_match :: "cstr \<Rightarrow> cstr \<Rightarrow> bool" where
  "has_match [] haystack = True"
| "has_match (nch # needle) haystack =
     (case strcasechr haystack nch of None \<Rightarrow> False | Some rest \<Rightarrow> has_match needle (tl rest))"

subsection \<open>fzy_wrapper.c\<close>

type_synonym scored_index = "nat \<times> real"

record fzy =
  fz_match :: "cstr \<Rightarrow> cstr \<Rightarrow> real"
  fz_qsort :: "scored_index list \<Rightarrow> scored_index list"

definition fzy_ok :: "fzy \<Rightarrow> bool" where
  "fzy_ok F \<longleftrightarrow> (\<forall>xs. mset (fz_qsort F xs) = mset xs
     \<and> sorted_wrt (\<lambda>a b. snd a \<ge> snd b) (fz_qsort F xs))"

fun score_loop :: "fzy \<Rightarrow> cstr \<Rightarrow> cstr list \<Rightarrow> nat \<Rightarrow> scored_index list" where
  "score_loop F search [] i = []"
| "score_loop F search (c # cs) i =
     (if \<not> strncasecmp_eq c search (length search) then score_loop F search cs (i + 1)
      else if has_match search c then (i, fz_match F search c) # score_loop F search cs (i + 1)
      else score_loop F search cs (i + 1))"

text \<open>The empty list stands for \<^verbatim>\<open>NULL\<close> with a count of 0.\<close>

definition ik_fzy_filter :: "fzy \<Rightarrow> cstr list \<Rightarrow> cstr \<Rightarrow> nat \<Rightarrow> (cstr \<times> real) list" where
  "ik_fzy_filter F candidates search max_results =
     (if length candidates = 0 then []
      else (let scored = score_loop F search candidates 0; match_count = length scored
            in if match_count = 0 then []
               else (let sorted_scores = fz_qsort F scored;
                         result_count = (if match_count < max_results then match_count else max_results)
                     in map (\<lambda>(i, s). (candidates ! i, s)) (take result_count sorted_scores))))"

subsection \<open>completion.c\<close>

record ik_completion =
  cp_candidates :: "cstr list"
  cp_current :: nat
  cp_prefix :: cstr
  cp_original_input :: "cstr option"

definition MAX_COMPLETIONS :: nat where
  "MAX_COMPLETIONS = 15"

definition provide_model_args :: "cstr list" where
  "provide_model_args = map bytes_of
     [''claude-haiku-4-5'', ''claude-sonnet-4-5'', ''claude-opus-4-5'', ''gpt-4'', ''gpt-4-turbo'',
      ''gpt-4o'', ''gpt-4o-mini'', ''gpt-5'', ''gpt-5-mini'', ''gpt-5-nano'', ''gpt-5-pro'', ''gpt-5.1'',
      ''gpt-5.1-chat-latest'', ''gpt-5.1-codex'', ''gpt-5.2'', ''gpt-5.2-chat-latest'', ''gpt-5.2-codex'',
      ''o1'', ''o1-mini'', ''o1-preview'', ''o3'', ''o3-mini'', ''gemini-2.5-pro'', ''gemini-2.5-flash'',
      ''gemini-2.5-flash-lite'', ''gemini-3-flash-preview'', ''gemini-3-pro-preview'',
      ''gemini-3.1-pro-preview'']"

definition provide_thinking_args :: "cstr list" where
  "provide_thinking_args = map bytes_of [''min'', ''low'', ''med'', ''high'']"

definition provide_debug_args :: "cstr list" where
  "provide_debug_args = map bytes_of [''off'', ''on'']"

definition provide_rewind_args :: "cstr option list \<Rightarrow> cstr list" where
  "provide_rewind_args marks = List.map_filter id marks"

text \<open>The common end of the two constructors.\<close>

definition completion_of :: "cstr \<Rightarrow> (cstr \<times> real) list \<Rightarrow> ik_completion option" where
  "completion_of prefix results =
     (if length results = 0 then None
      else Some \<lparr>cp_candidates = map fst results, cp_current = 0, cp_prefix = prefix,
                 cp_original_input = None\<rparr>)"

definition ik_completion_create_for_commands :: "fzy \<Rightarrow> cstr \<Rightarrow> ik_completion option res" where
  "ik_completion_create_for_commands F prefix =
     check_assert (prefix \<noteq> [] \<and> hd prefix = 0x2F)
       (let search = tl prefix
        in Inr (completion_of prefix
             (ik_fzy_filter F (map (bytes_of \<circ> fst) commands) search MAX_COMPLETIONS)))"

definition ik_completion_get_current :: "ik_completion \<Rightarrow> cstr option res" where
  "ik_completion_get_current c =
     (if length (cp_candidates c) = 0 then Inr None
      else res_bind (load (cp_candidates c) (cp_current c)) (\<lambda>s. Inr (Some s)))"

definition ik_completion_next :: "ik_completion \<Rightarrow> ik_completion res" where
  "ik_completion_next c =
     check_assert (length (cp_candidates c) > 0)
       (Inr (c\<lparr>cp_current := (cp_current c + 1) mod length (cp_candidates c)\<rparr>))"

definition ik_completion_prev :: "ik_completion \<Rightarrow> ik_completion res" where
  "ik_completion_prev c =
     check_assert (length (cp_candidates c) > 0)
       (Inr (if cp_current c = 0 then c\<lparr>cp_current := length (cp_candidates c) - 1\<rparr>
             else c\<lparr>cp_current := cp_current c - 1\<rparr>))"

text \<open>
  The provider of a command and the text it completes; \<open>None\<close> for a command without completion of its
  arguments. A blank at offset 0 makes the length of the command name wrap around.
\<close>

definition argument_provider :: "cstr option list \<Rightarrow> cstr \<Rightarrow> cstr \<Rightarrow> (cstr list \<times> cstr) option" where
  "argument_provider marks cmd_name arg_prefix =
     (if cmd_name = bytes_of ''model'' then
        (case strchr arg_prefix 0x2F of
           Some slash \<Rightarrow> Some (provide_thinking_args, drop (slash + 1) arg_prefix)
         | None \<Rightarrow> Some (provide_model_args, arg_prefix))
      else if cmd_name = bytes_of ''debug'' then Some (provide_debug_args, arg_prefix)
      else if cmd_name = bytes_of ''rewind'' then Some (provide_rewind_args marks, arg_prefix)
      else None)"

definition ik_completion_create_for_arguments ::
  "fzy \<Rightarrow> cstr option list \<Rightarrow> cstr \<Rightarrow> ik_completion option res" where
  "ik_completion_create_for_arguments F marks input =
     (case strchr input 0x20 of
        None \<Rightarrow> Inr None
      | Some 0 \<Rightarrow> Inl MemFault
      | Some (Suc cmd_len) \<Rightarrow>
          (if cmd_len = 0 then Inr None
           else (case argument_provider marks (take cmd_len (drop 1 input)) (drop (Suc cmd_len + 1) input) of
                   None \<Rightarrow> Inr None
                 | Some (args, arg_prefix) \<Rightarrow>
                     (if length args = 0 then Inr None
                      else Inr (completion_of input (ik_fzy_filter F args arg_prefix MAX_COMPLETIONS))))))"

subsection \<open>What the filter returns\<close>

definition matches :: "cstr \<Rightarrow> cstr \<Rightarrow> bool" where
  "matches search c \<longleftrightarrow> strncasecmp_eq c search (length search) \<and> has_match search c"

lemma score_loop_eq:
  "score_loop F search cs i
   = map (\<lambda>k. (i + k, fz_match F search (cs ! k))) (filter (\<lambda>k. matches search (cs ! k)) [0..<length cs])"
proof (induction cs arbitrary: i)
  case (Cons c cs)
  have "[0..<length (c # cs)] = 0 # map Suc [0..<length cs]" by (simp add: map_Suc_upt upt_conv_Cons del: upt_Suc)
  then show ?case
    by (simp add: Cons.IH filter_map comp_def matches_def del: upt_Suc)
qed simp

lemma score_loop_candidates:
  "map (\<lambda>p. cs ! fst p) (score_loop F search cs 0) = filter (matches search) cs"
proof -
  have "map (\<lambda>p. cs ! fst p) (score_loop F search cs 0) = map ((!) cs) (filter (matches search \<circ> (!) cs) [0..<length cs])"
    by (simp add: score_loop_eq comp_def)
  also have "\<dots> = filter (matches search) (map ((!) cs) [0..<length cs])" by (simp only: filter_map)
  finally show ?thesis by (simp only: map_nth)
qed

text \<open>
  The filter returns the best \<open>n\<close> of the matching candidates: there is an arrangement of them by falling
  score of which the result is the beginning.
\<close>

lemma fzy_filter_best:
  assumes "fzy_ok F"
  obtains ms where "mset ms = mset (filter (matches search) cs)"
    and "sorted_wrt (\<lambda>a b. fz_match F search a \<ge> fz_match F search b) ms"
    and "map fst (ik_fzy_filter F cs search n) = take n ms"
proof
  let ?sl = "score_loop F search cs 0" and ?g = "\<lambda>p. cs ! fst p"
  let ?q = "fz_qsort F ?sl"
  have q: "mset ?q = mset ?sl" "sorted_wrt (\<lambda>a b. snd a \<ge> snd b) ?q" using assms by (simp_all add: fzy_ok_def)
  show "mset (map ?g ?q) = mset (filter (matches search) cs)"
    using q(1) by (metis mset_map score_loop_candidates)
  have "set ?q = set ?sl" using q(1) by (rule mset_eq_setD)
  moreover have "snd p = fz_match F search (?g p)" if "p \<in> set ?sl" for p
    using that by (auto simp: score_loop_eq)
  ultimately have "snd p = fz_match F search (?g p)" if "p \<in> set ?q" for p using that by simp
  then show "sorted_wrt (\<lambda>a b. fz_match F search a \<ge> fz_match F search b) (map ?g ?q)"
    using q(2) by (auto simp: sorted_wrt_map elim!: sorted_wrt_mono_rel [rotated])
  have len: "length ?q = length ?sl" using q(1) by (rule mset_eq_length)
  show "map fst (ik_fzy_filter F cs search n) = take n (map ?g ?q)"
  proof (cases "cs = [] \<or> ?sl = []")
    case True
    then have "?sl = []" by auto
    with True len show ?thesis by (auto simp: ik_fzy_filter_def Let_def)
  next
    case False
    then show ?thesis
      using len by (auto simp: ik_fzy_filter_def Let_def take_map comp_def case_prod_beta')
  qed
qed

text \<open>Lower case letters compare as they are.\<close>

definition no_upper :: "cstr \<Rightarrow> bool" where
  "no_upper s \<longleftrightarrow> list_all (\<lambda>b. \<not> (0x41 \<le> b \<and> b \<le> 0x5A)) s"

lemma has_match_prefix: "has_match s (s @ r)"
  by (induction s arbitrary: r) auto

lemma strncasecmp_lower:
  "no_upper s \<Longrightarrow> no_upper c \<Longrightarrow> strncasecmp_eq c s (length s) \<longleftrightarrow> take (length s) c = s"
proof (induction s arbitrary: c)
  case (Cons b s)
  then show ?case by (cases c) (auto simp: no_upper_def tolower_def)
qed simp

lemma matches_lower:
  assumes "no_upper s" and "no_upper c"
  shows "matches s c \<longleftrightarrow> take (length s) c = s"
  using strncasecmp_lower [OF assms] has_match_prefix [of s "drop (length s) c"]
  by (auto simp: matches_def) (metis append_take_drop_id)

lemma command_names: "list_all no_upper (map (bytes_of \<circ> fst) commands)" "distinct (map (bytes_of \<circ> fst) commands)"
  by code_simp+

definition completion_ok :: "ik_completion \<Rightarrow> bool" where
  "completion_ok c \<longleftrightarrow> cp_current c < length (cp_candidates c)"

lemma completion_of_ok: "completion_of p rs = Some c \<Longrightarrow> completion_ok c"
  by (auto simp: completion_of_def completion_ok_def split: if_splits)

lemma next_ok: "completion_ok c \<Longrightarrow> returns (ik_completion_next c) completion_ok"
  by (cases "cp_candidates c") (auto simp: completion_ok_def ik_completion_next_def)

lemma prev_ok: "completion_ok c \<Longrightarrow> returns (ik_completion_prev c) completion_ok"
  by (cases "cp_candidates c") (auto simp: completion_ok_def ik_completion_prev_def)

lemma get_current_ok:
  "completion_ok c \<Longrightarrow> ik_completion_get_current c = Inr (Some (cp_candidates c ! cp_current c))"
  by (cases "cp_candidates c") (auto simp: completion_ok_def ik_completion_get_current_def)

subsection \<open>Theorems\<close>

text \<open>C40. Completing a search without capital letters offers the commands that begin with it: all of them
  if there are at most 15, otherwise 15 none of which has a lower score than one left out; in the order
  of falling scores (completion.h promises alphabetical order and at most 10), each once, the first one
  selected; and no completion at all exactly when no command begins with it.\<close>

theorem command_completion:
  assumes F: "fzy_ok F" and s: "no_upper s"
    and M: "M = filter (\<lambda>c. take (length s) c = s) (map (bytes_of \<circ> fst) commands)"
  shows "returns (ik_completion_create_for_commands F (0x2F # s))
    (\<lambda>r. case r of None \<Rightarrow> M = []
       | Some c \<Rightarrow> cp_current c = 0 \<and> cp_candidates c \<noteq> [] \<and> length (cp_candidates c) = min 15 (length M)
           \<and> distinct (cp_candidates c) \<and> set (cp_candidates c) \<subseteq> set M
           \<and> sorted_wrt (\<lambda>a b. fz_match F s a \<ge> fz_match F s b) (cp_candidates c)
           \<and> (\<forall>a \<in> set (cp_candidates c). \<forall>b \<in> set M - set (cp_candidates c). fz_match F s b \<le> fz_match F s a))"
proof -
  let ?names = "map (bytes_of \<circ> fst) commands"
  obtain ms where ms: "mset ms = mset (filter (matches s) ?names)"
    "sorted_wrt (\<lambda>a b. fz_match F s a \<ge> fz_match F s b) ms"
    "map fst (ik_fzy_filter F ?names s 15) = take 15 ms"
    using fzy_filter_best [OF F] .
  have "filter (matches s) ?names = M"
    unfolding M by (rule filter_cong [OF refl]) (use command_names(1) matches_lower [OF s] in \<open>auto simp: list_all_iff\<close>)
  with ms(1) have mM: "mset ms = mset M" by simp
  then have len: "length ms = length M" and set: "set ms = set M" by (auto dest: mset_eq_length mset_eq_setD)
  have dist: "distinct ms" using command_names(2) mM by (metis M distinct_filter mset_eq_imp_distinct_iff)
  have cut: "fz_match F s b \<le> fz_match F s a" if "a \<in> set (take 15 ms)" "b \<in> set ms - set (take 15 ms)" for a b
  proof -
    have "b \<in> set (drop 15 ms)" using that(2) by (metis Diff_iff Un_iff append_take_drop_id set_append)
    then show ?thesis using ms(2) that(1) by (metis append_take_drop_id sorted_wrt_append)
  qed
  have r: "ik_completion_create_for_commands F (0x2F # s)
      = Inr (completion_of (0x2F # s) (ik_fzy_filter F ?names s 15))"
    by (simp add: ik_completion_create_for_commands_def MAX_COMPLETIONS_def)
  have "length (ik_fzy_filter F ?names s 15) = length (take 15 ms)" using ms(3) by (metis length_map)
  then show ?thesis
    using ms(2,3) set dist cut len
    by (auto simp: r completion_of_def min.commute sorted_wrt_take dest: in_set_takeD)
qed

definition ref_fzy :: fzy where
  "ref_fzy = \<lparr>fz_match = (\<lambda>s c. - real (length c)), fz_qsort = sort_key (\<lambda>p. - snd p)\<rparr>"

lemma ref_fzy_ok: "fzy_ok ref_fzy"
proof -
  have "sorted_wrt (\<lambda>a b. snd a \<ge> snd b) (sort_key (\<lambda>p. - snd p) xs)" for xs :: "scored_index list"
  proof -
    have "sorted (map (\<lambda>p. - snd p) (sort_key (\<lambda>p. - snd p) xs))" by simp
    then show ?thesis by (simp add: sorted_map)
  qed
  then show ?thesis by (simp add: fzy_ok_def ref_fzy_def)
qed

theorem command_completion_witness:
  "\<exists>c. ik_completion_create_for_commands ref_fzy (bytes_of ''/re'') = Inr (Some c)
     \<and> set (cp_candidates c) = set (map bytes_of [''rewind'', ''reap'', ''refresh''])"
proof -
  let ?s = "bytes_of ''re''" and ?M = "map bytes_of [''rewind'', ''reap'', ''refresh'']"
  have M: "?M = filter (\<lambda>c. take (length ?s) c = ?s) (map (bytes_of \<circ> fst) commands)"
    and s: "no_upper ?s" and d: "bytes_of ''/re'' = 0x2F # ?s"
    by code_simp+
  note r = command_completion [OF ref_fzy_ok s M, unfolded d [symmetric]]
  then obtain c where c: "ik_completion_create_for_commands ref_fzy (bytes_of ''/re'') = Inr (Some c)"
    "length (cp_candidates c) = 3" "distinct (cp_candidates c)" "set (cp_candidates c) \<subseteq> set ?M"
    by (auto simp: returns_iff split: option.splits)
  have "card (set (cp_candidates c)) = 3" using c(2,3) by (simp add: distinct_card)
  moreover have "card (set ?M) = 3" by code_simp
  ultimately have "set (cp_candidates c) = set ?M" using c(4) by (intro card_subset_eq) simp_all
  with c(1) show ?thesis by blast
qed

text \<open>Going to the next and then to the previous candidate, or the other way round, selects what was
  selected before; going on as often as there are candidates does too.\<close>

theorem completion_cycle:
  assumes "completion_ok c"
  shows "res_bind (ik_completion_next c) ik_completion_prev = Inr c
    \<and> res_bind (ik_completion_prev c) ik_completion_next = Inr c
    \<and> ((\<lambda>m. res_bind m ik_completion_next) ^^ length (cp_candidates c)) (Inr c) = Inr c"
proof -
  have k: "0 < length (cp_candidates c)" "cp_current c < length (cp_candidates c)"
    using assms by (auto simp: completion_ok_def)
  have up: "c\<lparr>cp_current := cp_current c\<rparr> = c" by simp
  have "((\<lambda>m. res_bind m ik_completion_next) ^^ n) (Inr c)
      = Inr (c\<lparr>cp_current := (cp_current c + n) mod length (cp_candidates c)\<rparr>)" for n
  proof (induction n)
    case (Suc n)
    then show ?case using k by (simp add: ik_completion_next_def mod_Suc_eq)
  qed (use k in simp)
  then have "((\<lambda>m. res_bind m ik_completion_next) ^^ length (cp_candidates c)) (Inr c) = Inr c"
    using k(2) by simp
  moreover have "res_bind (ik_completion_next c) ik_completion_prev = Inr c"
  proof (cases "Suc (cp_current c) = length (cp_candidates c)")
    case True
    then show ?thesis using k up by (simp add: ik_completion_next_def ik_completion_prev_def)
  next
    case False
    then show ?thesis using k by (simp add: ik_completion_next_def ik_completion_prev_def)
  qed
  moreover have "res_bind (ik_completion_prev c) ik_completion_next = Inr c"
    using k by (cases "cp_current c") (auto simp: ik_completion_next_def ik_completion_prev_def)
  ultimately show ?thesis by blast
qed

theorem completion_cycle_witness:
  "res_bind (ik_completion_next \<lparr>cp_candidates = [[1], [2]], cp_current = 1, cp_prefix = [], cp_original_input = None\<rparr>)
     ik_completion_prev
   = Inr \<lparr>cp_candidates = [[1], [2]], cp_current = 1, cp_prefix = [], cp_original_input = None\<rparr>"
  using completion_cycle [of "\<lparr>cp_candidates = [[1], [2]], cp_current = 1, cp_prefix = [], cp_original_input = None\<rparr>"]
  by (simp add: completion_ok_def)

end
