(* ===== verification/Ik_Layers.thy ===== *)
theory Ik_Layers
  imports Ik_Layer Ik_Scrollback Ik_Completion
begin

text \<open>
  The layers of the screen other than the scrollback: apps/ikigai/layer_banner.c, layer_spinner.c,
  layer_separator.c, layer_input.c, layer_completion.c and layer_status.c.

  The banner, the spinner and the separator meet the contract \<open>row_layer\<close> of the layer cake. The input
  and the status layer ignore the range of rows they are asked for, the completion layer its first row.
  The debug text of the separator, which the program leaves unset, is an argument.
\<close>

definition eol :: "byte list" where
  "eol = [0x1B, 0x5B, 0x4B, 0x0D, 0x0A]"

subsection \<open>layer_banner.c\<close>

definition BOX_DOUBLE_HORIZONTAL :: "byte list" where "BOX_DOUBLE_HORIZONTAL = [0xE2, 0x95, 0x90]"
definition BOX_ROUNDED_DOWN_RIGHT :: "byte list" where "BOX_ROUNDED_DOWN_RIGHT = [0xE2, 0x95, 0xAD]"
definition BOX_ROUNDED_DOWN_LEFT :: "byte list" where "BOX_ROUNDED_DOWN_LEFT = [0xE2, 0x95, 0xAE]"
definition BOX_LIGHT_VERTICAL :: "byte list" where "BOX_LIGHT_VERTICAL = [0xE2, 0x94, 0x82]"
definition BOX_ROUNDED_UP_RIGHT :: "byte list" where "BOX_ROUNDED_UP_RIGHT = [0xE2, 0x95, 0xB0]"
definition BOX_ROUNDED_UP_LEFT :: "byte list" where "BOX_ROUNDED_UP_LEFT = [0xE2, 0x95, 0xAF]"
definition BOX_LIGHT_HORIZONTAL :: "byte list" where "BOX_LIGHT_HORIZONTAL = [0xE2, 0x94, 0x80]"
definition BLACK_CIRCLE :: "byte list" where "BLACK_CIRCLE = [0xE2, 0x97, 0x8F]"

text \<open>The pieces that are appended for each row of the banner.\<close>

definition banner_row :: "nat \<Rightarrow> nat \<Rightarrow> byte list list" where
  "banner_row width k =
     (if k = 0 \<or> k = 5 then [fg 245] @ replicate width BOX_DOUBLE_HORIZONTAL @ [ansi_reset, eol]
      else if k = 1 then
        [bytes_of '' '', fg 81, BOX_ROUNDED_DOWN_RIGHT, BOX_LIGHT_HORIZONTAL, BOX_ROUNDED_DOWN_LEFT,
         BOX_ROUNDED_DOWN_RIGHT, BOX_LIGHT_HORIZONTAL, BOX_ROUNDED_DOWN_LEFT, ansi_reset, eol]
      else if k = 2 then
        [fg 211, bytes_of ''('', ansi_reset, fg 81, BOX_LIGHT_VERTICAL, ansi_reset, fg 214, BLACK_CIRCLE,
         ansi_reset, fg 81, BOX_LIGHT_VERTICAL, BOX_LIGHT_VERTICAL, ansi_reset, fg 214, BLACK_CIRCLE,
         ansi_reset, fg 81, BOX_LIGHT_VERTICAL, ansi_reset, fg 211, bytes_of '')'', ansi_reset,
         bytes_of ''    '', fg 153, bytes_of ''Ikigai v'', bytes_of ''0.12.0'', ansi_reset, eol]
      else if k = 3 then
        [bytes_of '' '', fg 81, BOX_ROUNDED_UP_RIGHT, BOX_LIGHT_HORIZONTAL, BOX_ROUNDED_UP_LEFT,
         BOX_ROUNDED_UP_RIGHT, BOX_LIGHT_HORIZONTAL, BOX_ROUNDED_UP_LEFT, ansi_reset, bytes_of ''     '',
         fg 250, bytes_of ''Agentic Orchestration'', ansi_reset, eol]
      else
        [bytes_of ''  '', fg 211, BOX_ROUNDED_UP_RIGHT, BOX_LIGHT_HORIZONTAL, BOX_LIGHT_HORIZONTAL,
         BOX_ROUNDED_UP_LEFT, ansi_reset, eol])"

fun banner_loop :: "nat list \<Rightarrow> nat \<Rightarrow> nat \<Rightarrow> nat \<Rightarrow> ik_output_buffer \<Rightarrow> ik_output_buffer res" where
  "banner_loop [] width start_row end_row out = Inr out"
| "banner_loop (k # ks) width start_row end_row out =
     res_bind (if k \<ge> start_row \<and> k < end_row then output_all out (banner_row width k) else Inr out)
       (banner_loop ks width start_row end_row)"

definition banner_render :: "ik_output_buffer \<Rightarrow> nat \<Rightarrow> nat \<Rightarrow> nat \<Rightarrow> ik_output_buffer res" where
  "banner_render out width start_row row_count =
     banner_loop [0, 1, 2, 3, 4, 5] width start_row (start_row + row_count) out"

definition banner_get_height :: "nat \<Rightarrow> nat" where
  "banner_get_height width = 6"

definition ik_banner_layer_create :: "string \<Rightarrow> bool \<Rightarrow> ik_layer" where
  "ik_banner_layer_create name visible = ik_layer_create name visible banner_get_height banner_render"

subsection \<open>layer_spinner.c\<close>

record ik_spinner_state =
  sp_frame_index :: nat
  sp_visible :: bool
  sp_last_advance_ms :: int

text \<open>The ten frames are Braille characters U+28xx.\<close>

definition SPINNER_FRAMES :: "byte list list" where
  "SPINNER_FRAMES =
     [[0xE2, 0xA0, 0x8B], [0xE2, 0xA0, 0x99], [0xE2, 0xA0, 0xB9], [0xE2, 0xA0, 0xB8], [0xE2, 0xA0, 0xBC],
      [0xE2, 0xA0, 0xB4], [0xE2, 0xA0, 0xA6], [0xE2, 0xA0, 0xA7], [0xE2, 0xA0, 0x87], [0xE2, 0xA0, 0x8F]]"

definition ik_spinner_get_frame :: "ik_spinner_state \<Rightarrow> byte list" where
  "ik_spinner_get_frame s = SPINNER_FRAMES ! (sp_frame_index s mod 10)"

definition ik_spinner_advance :: "ik_spinner_state \<Rightarrow> ik_spinner_state" where
  "ik_spinner_advance s = s\<lparr>sp_frame_index := (sp_frame_index s + 1) mod 10\<rparr>"

definition ik_spinner_maybe_advance :: "ik_spinner_state \<Rightarrow> int \<Rightarrow> ik_spinner_state \<times> bool" where
  "ik_spinner_maybe_advance s now_ms =
     (if now_ms - sp_last_advance_ms s \<ge> 120
      then ((ik_spinner_advance s)\<lparr>sp_last_advance_ms := now_ms\<rparr>, True) else (s, False))"

definition spinner_get_height :: "nat \<Rightarrow> nat" where
  "spinner_get_height width = 1"

definition spinner_render ::
  "ik_spinner_state \<Rightarrow> ik_output_buffer \<Rightarrow> nat \<Rightarrow> nat \<Rightarrow> nat \<Rightarrow> ik_output_buffer res" where
  "spinner_render s out width start_row row_count =
     output_all out [ik_spinner_get_frame s, bytes_of '' Waiting for response...'', eol]"

definition ik_spinner_layer_create :: "string \<Rightarrow> ik_spinner_state \<Rightarrow> ik_layer" where
  "ik_spinner_layer_create name s = ik_layer_create name (sp_visible s) spinner_get_height (spinner_render s)"

subsection \<open>layer_input.c\<close>

fun input_height_loop :: "nat \<Rightarrow> byte list \<Rightarrow> nat \<Rightarrow> nat \<Rightarrow> nat" where
  "input_height_loop width [] physical_lines current_col = physical_lines"
| "input_height_loop width (b # bs) physical_lines current_col =
     (if b = 10 then input_height_loop width bs (physical_lines + 1) 0
      else if current_col + 1 \<ge> width then input_height_loop width bs (physical_lines + 1) 0
      else input_height_loop width bs physical_lines (current_col + 1))"

definition input_get_height :: "byte list \<Rightarrow> nat \<Rightarrow> nat" where
  "input_get_height t width = (if length t = 0 then 1 else input_height_loop width t 1 0)"

text \<open>Newlines are written as a clear to the end of the line, CR and LF.\<close>

definition newline_to_eol :: "byte \<Rightarrow> byte list" where
  "newline_to_eol b = (if b = 10 then eol else [b])"

definition input_render :: "byte list \<Rightarrow> ik_output_buffer \<Rightarrow> nat \<Rightarrow> nat \<Rightarrow> nat \<Rightarrow> ik_output_buffer res" where
  "input_render t out width start_row row_count =
     (if length t = 0 then ik_output_buffer_append out eol
      else res_bind (output_all out (map newline_to_eol t))
             (\<lambda>out'. if t ! (length t - 1) \<noteq> 10 then ik_output_buffer_append out' eol else Inr out'))"

definition ik_input_layer_create :: "string \<Rightarrow> bool \<Rightarrow> byte list \<Rightarrow> ik_layer" where
  "ik_input_layer_create name visible t = ik_layer_create name visible (input_get_height t) (input_render t)"

subsection \<open>layer_status.c\<close>

definition ik_commands_thinking_level_to_string :: "int \<Rightarrow> string" where
  "ik_commands_thinking_level_to_string level =
     (if level = 0 then ''min'' else if level = 1 then ''low'' else if level = 2 then ''medium''
      else if level = 3 then ''high'' else ''unknown'')"

definition status_get_height :: "nat \<Rightarrow> nat" where
  "status_get_height width = 2"

definition status_render ::
  "byte list option \<Rightarrow> int \<Rightarrow> ik_output_buffer \<Rightarrow> nat \<Rightarrow> nat \<Rightarrow> nat \<Rightarrow> ik_output_buffer res" where
  "status_render model thinking_level out width start_row row_count =
     output_all out
       (replicate width BOX_LIGHT_HORIZONTAL @ [eol, [0xF0, 0x9F, 0xA4, 0x96], bytes_of '' '']
        @ (case model of
             None \<Rightarrow> [fg 153, bytes_of ''(no model)'', ansi_reset]
           | Some m \<Rightarrow> [fg 153, m, bytes_of ''/'',
                        bytes_of (ik_commands_thinking_level_to_string thinking_level), ansi_reset])
        @ [eol])"

definition ik_status_layer_create :: "string \<Rightarrow> bool \<Rightarrow> byte list option \<Rightarrow> int \<Rightarrow> ik_layer" where
  "ik_status_layer_create name visible model thinking_level =
     ik_layer_create name visible status_get_height (status_render model thinking_level)"

subsection \<open>layer_completion.c\<close>

definition completion_get_height :: "ik_completion option \<Rightarrow> nat \<Rightarrow> nat" where
  "completion_get_height cm width = (case cm of None \<Rightarrow> 0 | Some c \<Rightarrow> length (cp_candidates c))"

definition command_description :: "cstr \<Rightarrow> cstr" where
  "command_description candidate =
     (case find (\<lambda>(name, d). bytes_of name = candidate) commands of None \<Rightarrow> [] | Some (name, d) \<Rightarrow> bytes_of d)"

definition completion_row :: "nat \<Rightarrow> bool \<Rightarrow> cstr \<Rightarrow> byte list list" where
  "completion_row width is_current candidate =
     (let description = command_description candidate;
          visible_len = 2 + length candidate + 3 + length description
      in (if is_current then [[0x1B, 0x5B, 0x37, 0x3B, 0x31, 0x6D]] else [])
         @ [bytes_of ''  '', candidate, bytes_of ''   '', description]
         @ (if is_current then [ansi_reset] else [])
         @ replicate (width - visible_len) (bytes_of '' '') @ [eol])"

definition completion_render ::
  "ik_completion option \<Rightarrow> ik_output_buffer \<Rightarrow> nat \<Rightarrow> nat \<Rightarrow> nat \<Rightarrow> ik_output_buffer res" where
  "completion_render cm out width start_row row_count =
     (case cm of None \<Rightarrow> Inr out
      | Some c \<Rightarrow>
         (if row_count = 0 then Inr out
          else (let candidates_to_render = (if row_count < length (cp_candidates c) then row_count
                                            else length (cp_candidates c))
                in output_all out (concat (map (\<lambda>i. completion_row width (i = cp_current c) (cp_candidates c ! i))
                     [0..<candidates_to_render])))))"

definition ik_completion_layer_create :: "string \<Rightarrow> ik_completion option \<Rightarrow> ik_layer" where
  "ik_completion_layer_create name cm =
     ik_layer_create name (cm \<noteq> None) (completion_get_height cm) (completion_render cm)"

subsection \<open>layer_separator.c\<close>

record ik_separator_nav_context =
  nav_parent_uuid :: "byte list option"
  nav_prev_sibling_uuid :: "byte list option"
  nav_current_uuid :: "byte list option"
  nav_next_sibling_uuid :: "byte list option"
  nav_child_count :: nat

text \<open>Decimal digits, as the format \<^verbatim>\<open>%zu\<close> prints them, and \<^verbatim>\<open>snprintf\<close> into a buffer of \<open>buf_size\<close> bytes.\<close>

fun dec_nat :: "nat \<Rightarrow> byte list" where
  "dec_nat n = (if n < 10 then [word_of_nat (48 + n)] else dec_nat (n div 10) @ [word_of_nat (48 + n mod 10)])"

declare dec_nat.simps [simp del]

definition snprintf :: "nat \<Rightarrow> byte list \<Rightarrow> byte list" where
  "snprintf buf_size t = take (buf_size - 1) t"

definition nav_arrow :: "byte \<Rightarrow> byte list option \<Rightarrow> byte list" where
  "nav_arrow arrow uuid =
     snprintf 32
       (case uuid of
          Some u \<Rightarrow> [0xE2, 0x86, arrow] @ take 6 u @ bytes_of ''...''
        | None \<Rightarrow> [0x1B, 0x5B, 0x32, 0x6D, 0xE2, 0x86, arrow, 0x2D] @ ansi_reset)"

definition nav_text :: "ik_separator_nav_context \<Rightarrow> byte list" where
  "nav_text ctx =
     (case nav_current_uuid ctx of
        None \<Rightarrow> []
      | Some current \<Rightarrow>
         snprintf 256
           (bytes_of '' '' @ nav_arrow 0x91 (nav_parent_uuid ctx) @ bytes_of '' ''
            @ nav_arrow 0x90 (nav_prev_sibling_uuid ctx) @ bytes_of '' ''
            @ snprintf 32 (bytes_of ''['' @ take 6 current @ bytes_of ''...]'') @ bytes_of '' ''
            @ nav_arrow 0x92 (nav_next_sibling_uuid ctx) @ bytes_of '' ''
            @ snprintf 32 (if nav_child_count ctx > 0 then [0xE2, 0x86, 0x93] @ dec_nat (nav_child_count ctx)
                           else [0x1B, 0x5B, 0x32, 0x6D, 0xE2, 0x86, 0x93, 0x2D] @ ansi_reset)
            @ bytes_of '' ''))"

definition separator_get_height :: "nat \<Rightarrow> nat" where
  "separator_get_height width = 1"

definition separator_chars :: "utf8proc \<Rightarrow> ik_separator_nav_context \<Rightarrow> byte list \<Rightarrow> nat \<Rightarrow> nat" where
  "separator_chars U ctx debug width =
     (let info_visual = ik_scrollback_calculate_display_width U (nav_text ctx)
            + ik_scrollback_calculate_display_width U debug
      in if info_visual > 0 \<and> info_visual < width then width - info_visual else width)"

definition separator_render ::
  "utf8proc \<Rightarrow> ik_separator_nav_context \<Rightarrow> byte list \<Rightarrow> ik_output_buffer \<Rightarrow> nat \<Rightarrow> nat \<Rightarrow> nat \<Rightarrow> ik_output_buffer res" where
  "separator_render U ctx debug out width start_row row_count =
     output_all out
       (replicate (separator_chars U ctx debug width) BOX_LIGHT_HORIZONTAL @ [nav_text ctx, debug, eol])"

definition ik_separator_layer_create ::
  "utf8proc \<Rightarrow> string \<Rightarrow> bool \<Rightarrow> ik_separator_nav_context \<Rightarrow> byte list \<Rightarrow> ik_layer" where
  "ik_separator_layer_create U name visible ctx debug =
     ik_layer_create name visible separator_get_height (separator_render U ctx debug)"

subsection \<open>Contracts\<close>

lemma banner_loop_emits:
  "ob_inv out \<Longrightarrow> emits (banner_loop ks width s e out) out
     (concat (map (\<lambda>k. concat (banner_row width k)) (filter (\<lambda>k. s \<le> k \<and> k < e) ks)))"
proof (induction ks arbitrary: out)
  case Nil
  then show ?case by (simp add: emits_nothing)
next
  case (Cons k ks)
  have "emits (if k \<ge> s \<and> k < e then output_all out (banner_row width k) else Inr out) out
      (if k \<ge> s \<and> k < e then concat (banner_row width k) else [])"
    using Cons.prems by (simp add: output_all_emits emits_nothing)
  from emits_bind [OF this Cons.IH] show ?case by (cases "s \<le> k \<and> k < e") auto
qed

lemma filter_range: "s + n \<le> m \<Longrightarrow> filter (\<lambda>k. s \<le> k \<and> k < s + n) [0..<m] = [s..<s + n]"
proof -
  assume "s + n \<le> m"
  then have "[0..<m] = [0..<s] @ [s..<s + n] @ [s + n..<m]"
    by (metis le_add1 le_add2 le_trans add_0 upt_add_eq_append zero_le append_assoc le_Suc_ex)
  then show ?thesis by (simp add: filter_empty_conv)
qed

interpretation banner: row_layer "ik_banner_layer_create name visible" width
  "map (\<lambda>k. concat (banner_row width k)) [0..<6]" for name visible width
proof
  show "ly_get_height (ik_banner_layer_create name visible) width
      = length (map (\<lambda>k. concat (banner_row width k)) [0..<6])"
    by (simp add: ik_banner_layer_create_def ik_layer_create_def banner_get_height_def)
next
  fix out n s
  assume out: "ob_inv out" and "s + n \<le> length (map (\<lambda>k. concat (banner_row width k)) [0..<6])"
  then have n: "s + n \<le> 6" by simp
  have six: "[0, 1, 2, 3, 4, 5] = [0..<6]" by (simp add: upt_rec)
  have "take n (drop s [0..<6]) = [s..<s + n]" using n by (simp add: drop_upt take_upt)
  then have "concat (take n (drop s (map (\<lambda>k. concat (banner_row width k)) [0..<6])))
      = concat (map (\<lambda>k. concat (banner_row width k)) (filter (\<lambda>k. s \<le> k \<and> k < s + n) [0..<6]))"
    using filter_range [OF n] by (simp add: drop_map take_map del: upt_Suc)
  then show "emits (ly_render (ik_banner_layer_create name visible) out width s n) out
      (concat (take n (drop s (map (\<lambda>k. concat (banner_row width k)) [0..<6]))))"
    using banner_loop_emits [OF out, of "[0..<6]" width s "s + n"]
    by (simp only: ik_banner_layer_create_def ik_layer_create_def ik_layer.simps banner_render_def six)
qed

text \<open>A layer of one row may ignore the range.\<close>

lemma one_row_layer:
  assumes "ly_get_height l width = 1"
    and "\<And>out s n. ob_inv out \<Longrightarrow> emits (ly_render l out width s n) out row"
  shows "row_layer l width [row]"
proof
  show "ly_get_height l width = length [row]" using assms(1) by simp
next
  fix out :: ik_output_buffer and n s :: nat
  assume "ob_inv out" "0 < n \<or> [row] = []" "s + n \<le> length [row]"
  moreover from this have "s = 0 \<and> n = 1" by auto
  ultimately show "emits (ly_render l out width s n) out (concat (take n (drop s [row])))"
    using assms(2) by simp
qed

interpretation spinner: row_layer "ik_spinner_layer_create name st" width
  "[ik_spinner_get_frame st @ bytes_of '' Waiting for response...'' @ eol]" for name st width
  using output_all_emits [of _ "[ik_spinner_get_frame st, bytes_of '' Waiting for response...'', eol]"]
  by (intro one_row_layer)
     (simp_all add: ik_spinner_layer_create_def ik_layer_create_def spinner_get_height_def spinner_render_def)

definition separator_row :: "utf8proc \<Rightarrow> ik_separator_nav_context \<Rightarrow> byte list \<Rightarrow> nat \<Rightarrow> byte list" where
  "separator_row U ctx debug width =
     concat (replicate (separator_chars U ctx debug width) BOX_LIGHT_HORIZONTAL) @ nav_text ctx @ debug @ eol"

interpretation separator: row_layer "ik_separator_layer_create U name visible ctx debug" width
  "[separator_row U ctx debug width]" for U name visible ctx debug width
  using output_all_emits [of _ "replicate (separator_chars U ctx debug width) BOX_LIGHT_HORIZONTAL @ [nav_text ctx, debug, eol]"]
  by (intro one_row_layer)
     (simp_all add: ik_separator_layer_create_def ik_layer_create_def separator_get_height_def
        separator_render_def separator_row_def)

end
