(* ===== verification/Ik_Scrollback_Lines.thy ===== *)
theory Ik_Scrollback_Lines
  imports Ik_Scrollback
begin

text \<open>
  The scrollback as a list of lines: what its loops compute on a text, the representation of a list of
  lines by the buffer, and that every operation implements the operation on lists.
\<close>

subsection \<open>The reading of a text\<close>

datatype cell = Escape nat | Invalid | Glyph nat "32 word"

function cells :: "utf8proc \<Rightarrow> byte list \<Rightarrow> nat \<Rightarrow> cell list" where
  "cells U txt pos =
     (if pos < length txt then
        (let skip = ik_ansi_skip_csi txt pos
         in if skip > 0 then Escape skip # cells U txt (pos + skip)
            else (case iterate U (drop pos txt) of (bytes, cp) \<Rightarrow>
               if bytes \<le> 0 then Invalid # cells U txt (pos + 1)
               else Glyph (nat bytes) cp # cells U txt (pos + nat bytes)))
      else [])"
  by pat_completeness auto
termination
  by (relation "measure (\<lambda>(U, txt, pos). length txt - pos)") auto

declare cells.simps [simp del]

fun is_nl :: "cell \<Rightarrow> bool" where
  "is_nl (Glyph n cp) = (cp = 10)"
| "is_nl c = False"

fun cell_width :: "utf8proc \<Rightarrow> cell \<Rightarrow> nat" where
  "cell_width U (Escape n) = 0"
| "cell_width U Invalid = 1"
| "cell_width U (Glyph n cp) = (if cp = 10 then 0 else nat (charwidth U cp))"

fun cell_bytes :: "cell \<Rightarrow> nat" where
  "cell_bytes (Escape n) = n"
| "cell_bytes Invalid = 1"
| "cell_bytes (Glyph n cp) = n"

text \<open>The widths of the segments between newlines, the first one starting with \<open>acc\<close>.\<close>

fun seg_widths :: "utf8proc \<Rightarrow> nat \<Rightarrow> cell list \<Rightarrow> nat list" where
  "seg_widths U acc [] = [acc]"
| "seg_widths U acc (c # cs) =
     (if is_nl c then acc # seg_widths U 0 cs else seg_widths U (acc + cell_width U c) cs)"

lemma newline_loop_cells: "newline_loop U txt pos n = n + length (filter is_nl (cells U txt pos))"
proof (induction U "txt" pos n rule: newline_loop.induct)
  case (1 U "txt" pos n)
  show ?case
    by (subst newline_loop.simps, subst cells.simps) (use 1 in \<open>auto simp: Let_def split: prod.splits\<close>)
qed

lemma sb_width_loop_cells: "sb_width_loop U txt pos w = w + sum_list (map (cell_width U) (cells U txt pos))"
proof (induction U "txt" pos w rule: sb_width_loop.induct)
  case (1 U "txt" pos w)
  show ?case
    by (subst sb_width_loop.simps, subst cells.simps) (use 1 in \<open>auto simp: Let_def split: prod.splits\<close>)
qed

lemma length_seg_widths: "length (seg_widths U acc cs) = Suc (length (filter is_nl cs))"
  by (induction U acc cs rule: seg_widths.induct) auto

lemma seg_widths_nonempty [simp]: "seg_widths U acc cs \<noteq> []"
  using length_seg_widths [of U acc cs] by force

lemma cell_width_nl: "is_nl c \<Longrightarrow> cell_width U c = 0"
  by (cases c) auto

lemma sum_seg_widths: "sum_list (seg_widths U acc cs) = acc + sum_list (map (cell_width U) cs)"
  by (induction U acc cs rule: seg_widths.induct) (auto simp: cell_width_nl)

subsection \<open>The layout of a text\<close>

fun has_content :: "cell \<Rightarrow> bool" where
  "has_content (Escape n) = False"
| "has_content c = (\<not> is_nl c)"

fun ends_step :: "cell \<Rightarrow> bool \<Rightarrow> bool" where
  "ends_step (Escape n) e = e"
| "ends_step c e = is_nl c"

text \<open>The second pass of the layout on the cells of the text.\<close>

fun scan_cells :: "utf8proc \<Rightarrow> nat \<Rightarrow> cell list \<Rightarrow> layout_state \<Rightarrow> layout_state res" where
  "scan_cells U w [] s = Inr s"
| "scan_cells U w (c # cs) s =
     (if is_nl c then
        res_bind (store (ls_segment_widths s) (ls_current_segment s) (ls_line_width s)) (\<lambda>segs.
          scan_cells U w cs
            (s\<lparr>ls_segment_widths := segs,
               ls_physical_lines := ls_physical_lines s
                 + (if ls_line_width s = 0 then 1 else rows_for w (ls_line_width s)),
               ls_current_segment := ls_current_segment s + 1, ls_line_width := 0,
               ls_ends_with_newline := True\<rparr>))
      else scan_cells U w cs
             (s\<lparr>ls_line_width := ls_line_width s + cell_width U c,
                ls_has_any_content := ls_has_any_content s \<or> has_content c,
                ls_ends_with_newline := ends_step c (ls_ends_with_newline s)\<rparr>))"

lemma layout_scan_cells: "layout_scan U txt w pos s = scan_cells U w (cells U txt pos) s"
proof (induction U "txt" w pos s rule: layout_scan.induct)
  case (1 U "txt" w pos s)
  obtain bytes cp where it: "iterate U (drop pos txt) = (bytes, cp)" by fastforce
  consider "\<not> pos < length txt" | "pos < length txt" "ik_ansi_skip_csi txt pos > 0"
    | "pos < length txt" "ik_ansi_skip_csi txt pos = 0" "bytes \<le> 0"
    | "pos < length txt" "ik_ansi_skip_csi txt pos = 0" "bytes > 0" "cp = 10"
    | "pos < length txt" "ik_ansi_skip_csi txt pos = 0" "bytes > 0" "cp \<noteq> 10" by linarith
  then show ?case
  proof cases
    case 1
    then show ?thesis by (simp add: layout_scan.simps [of U "txt" w pos] cells.simps [of U "txt" pos] Let_def)
  next
    case 2
    then show ?thesis
      using "1.IH"(1) by (simp add: layout_scan.simps [of U "txt" w pos] cells.simps [of U "txt" pos] Let_def)
  next
    case 3
    then show ?thesis
      using "1.IH"(2) it by (simp add: layout_scan.simps [of U "txt" w pos] cells.simps [of U "txt" pos] Let_def)
  next
    case 4
    then show ?thesis
      using "1.IH"(3) it
      by (cases "store (ls_segment_widths s) (ls_current_segment s) (ls_line_width s)")
         (simp_all add: layout_scan.simps [of U "txt" w pos] cells.simps [of U "txt" pos] Let_def)
  next
    case 5
    then show ?thesis
      using "1.IH"(4) it by (simp add: layout_scan.simps [of U "txt" w pos] cells.simps [of U "txt" pos] Let_def)
  qed
qed

lemma scan_cells_spec:
  assumes "ls_current_segment s + length (filter is_nl cs) < length (ls_segment_widths s)"
  shows "\<exists>s'. scan_cells U w cs s = Inr s'
    \<and> ls_current_segment s' = ls_current_segment s + length (filter is_nl cs)
    \<and> length (ls_segment_widths s') = length (ls_segment_widths s)
    \<and> (ls_segment_widths s')[ls_current_segment s' := ls_line_width s']
      = take (ls_current_segment s) (ls_segment_widths s) @ seg_widths U (ls_line_width s) cs
        @ drop (ls_current_segment s + length (filter is_nl cs) + 1) (ls_segment_widths s)
    \<and> ls_line_width s' = last (seg_widths U (ls_line_width s) cs)
    \<and> ls_physical_lines s' = ls_physical_lines s + reflow_segments w (butlast (seg_widths U (ls_line_width s) cs))
    \<and> ls_has_any_content s' = (ls_has_any_content s \<or> (\<exists>c\<in>set cs. has_content c))
    \<and> ls_ends_with_newline s' = fold ends_step cs (ls_ends_with_newline s)"
  using assms
proof (induction cs arbitrary: s)
  case Nil
  then show ?case by (simp add: upd_conv_take_nth_drop)
next
  case (Cons c cs)
  show ?case
  proof (cases "is_nl c")
    case True
    let ?n = "ls_current_segment s" and ?w = "ls_line_width s"
    let ?s = "s\<lparr>ls_segment_widths := (ls_segment_widths s)[?n := ?w],
               ls_physical_lines := ls_physical_lines s + (if ?w = 0 then 1 else rows_for w ?w),
               ls_current_segment := ?n + 1, ls_line_width := 0, ls_ends_with_newline := True\<rparr>"
    have "has_content c = False" "\<And>e. ends_step c e = True" using True by (cases c; simp)+
    moreover have "take (Suc ?n) ((ls_segment_widths s)[?n := ?w]) = take ?n (ls_segment_widths s) @ [?w]"
      using Cons.prems by (simp add: take_Suc_conv_app_nth)
    ultimately show ?thesis
      using Cons.IH [of ?s] Cons.prems True by auto
  next
    case False
    let ?s = "s\<lparr>ls_line_width := ls_line_width s + cell_width U c,
                ls_has_any_content := ls_has_any_content s \<or> has_content c,
                ls_ends_with_newline := ends_step c (ls_ends_with_newline s)\<rparr>"
    show ?thesis using Cons.IH [of ?s] Cons.prems False by auto
  qed
qed

definition widths :: "utf8proc \<Rightarrow> byte list \<Rightarrow> nat list" where
  "widths U txt = seg_widths U 0 (cells U txt 0)"

text \<open>The rows of a text when it is laid out again, and when it is appended.\<close>

definition reflow_rows :: "utf8proc \<Rightarrow> nat \<Rightarrow> byte list \<Rightarrow> nat" where
  "reflow_rows U w txt = reflow_segments w (widths U txt)"

definition drops_last_row :: "utf8proc \<Rightarrow> byte list \<Rightarrow> bool" where
  "drops_last_row U txt \<longleftrightarrow>
     length (widths U txt) > 1 \<and> last (widths U txt) = 0
     \<and> \<not> (fold ends_step (cells U txt 0) False \<and> (\<exists>c\<in>set (cells U txt 0). has_content c))"

definition append_rows :: "utf8proc \<Rightarrow> nat \<Rightarrow> byte list \<Rightarrow> nat" where
  "append_rows U w txt = (if drops_last_row U txt then reflow_rows U w txt - 1 else reflow_rows U w txt)"

lemma rows_for_pos: "w > 0 \<Longrightarrow> x > 0 \<Longrightarrow> rows_for w x > 0"
  by (simp add: rows_for_def div_greater_zero_iff)

lemma reflow_segments_append: "reflow_segments w (xs @ ys) = reflow_segments w xs + reflow_segments w ys"
  by (induction xs) auto

lemma reflow_segments_ge: "w > 0 \<Longrightarrow> length xs \<le> reflow_segments w xs"
proof (induction xs)
  case (Cons x xs)
  then show ?case using rows_for_pos [of w x] by (cases "x = 0") auto
qed simp

lemma append_butlast_last: "xs \<noteq> [] \<Longrightarrow> reflow_segments w xs
   = reflow_segments w (butlast xs) + (if last xs = 0 then 1 else rows_for w (last xs))"
  using reflow_segments_append [of w "butlast xs" "[last xs]"] by simp

lemma calculate_layout_spec:
  assumes w: "w > 0"
  shows "ik_scrollback_calculate_layout U txt w
    = Inr \<lparr>ll_display_width = sum_list (widths U txt), ll_physical_lines = append_rows U (nat w) txt,
           ll_newline_count = length (widths U txt) - 1, ll_segment_widths = widths U txt\<rparr>"
proof -
  let ?cs = "cells U txt 0"
  let ?n = "length (filter is_nl ?cs)"
  have n: "ik_scrollback_count_newlines U txt = ?n" "length (widths U txt) = Suc ?n"
    by (simp_all add: ik_scrollback_count_newlines_def newline_loop_cells widths_def length_seg_widths)
  have dw: "ik_scrollback_calculate_display_width U txt = sum_list (widths U txt)"
    by (simp add: ik_scrollback_calculate_display_width_def sb_width_loop_cells widths_def sum_seg_widths)
  define s0 where "s0 = \<lparr>ls_segment_widths = replicate (?n + 1) 0, ls_physical_lines = 0, ls_line_width = 0,
      ls_current_segment = 0, ls_has_any_content = False, ls_ends_with_newline = False\<rparr>"
  have "\<exists>s'. scan_cells U (nat w) ?cs s0 = Inr s' \<and> ls_current_segment s' = ?n
    \<and> length (ls_segment_widths s') = Suc ?n
    \<and> (ls_segment_widths s')[ls_current_segment s' := ls_line_width s'] = widths U txt
    \<and> ls_line_width s' = last (widths U txt)
    \<and> ls_physical_lines s' = reflow_segments (nat w) (butlast (widths U txt))
    \<and> ls_has_any_content s' = (\<exists>c\<in>set ?cs. has_content c)
    \<and> ls_ends_with_newline s' = fold ends_step ?cs False"
    using scan_cells_spec [of s0 ?cs U "nat w"] by (simp add: s0_def widths_def)
  then obtain s' where s': "scan_cells U (nat w) ?cs s0 = Inr s'" "ls_current_segment s' = ?n"
    "length (ls_segment_widths s') = Suc ?n"
    "(ls_segment_widths s')[ls_current_segment s' := ls_line_width s'] = widths U txt"
    "ls_line_width s' = last (widths U txt)"
    "ls_physical_lines s' = reflow_segments (nat w) (butlast (widths U txt))"
    "ls_has_any_content s' = (\<exists>c\<in>set ?cs. has_content c)"
    "ls_ends_with_newline s' = fold ends_step ?cs False"
    by (elim exE conjE) (rule that)
  have pos: "reflow_segments (nat w) (butlast (widths U txt)) \<ge> ?n"
    using reflow_segments_ge [of "nat w" "butlast (widths U txt)"] w n(2) by simp
  have one: "?n = 0 \<Longrightarrow> reflow_segments (nat w) (butlast (widths U txt)) = 0"
    using n(2) by (cases "widths U txt") auto
  have "widths U txt \<noteq> []" by (simp add: widths_def)
  note all = append_butlast_last [OF this, of "nat w"]
  have "(if ls_line_width s' = 0 \<and> ls_physical_lines s' = 0 then 1
       else if ls_line_width s' > 0 then ls_physical_lines s' + rows_for (nat w) (ls_line_width s')
       else if ls_ends_with_newline s' \<and> ls_has_any_content s' then ls_physical_lines s' + 1
       else ls_physical_lines s') = append_rows U (nat w) txt"
    using all pos one n(2) s'(5-8)
    by (auto simp: append_rows_def drops_last_row_def reflow_rows_def)
  then show ?thesis
    unfolding ik_scrollback_calculate_layout_def Let_def n(1) layout_scan_cells s0_def [symmetric] s'(1)
    using s' n(2) dw by simp
qed

subsection \<open>The buffer as a list of lines\<close>

definition layout_of :: "utf8proc \<Rightarrow> nat \<Rightarrow> byte list \<Rightarrow> ik_line_layout \<Rightarrow> bool" where
  "layout_of U w txt l \<longleftrightarrow>
     ll_segment_widths l = widths U txt \<and> Suc (ll_newline_count l) = length (widths U txt)
     \<and> ll_display_width l = sum_list (widths U txt)
     \<and> (ll_physical_lines l = append_rows U w txt \<or> ll_physical_lines l = reflow_rows U w txt)"

definition sb_shape :: "ik_scrollback \<Rightarrow> bool" where
  "sb_shape sb \<longleftrightarrow>
     sb_count sb \<le> sb_capacity sb \<and> sb_capacity sb > 0
     \<and> length (sb_text_offsets sb) = sb_capacity sb \<and> length (sb_text_lengths sb) = sb_capacity sb
     \<and> length (sb_layouts sb) = sb_capacity sb
     \<and> length (sb_text_buffer sb) = sb_buffer_capacity sb \<and> sb_buffer_used sb \<le> sb_buffer_capacity sb
     \<and> sb_buffer_capacity sb > 0 \<and> sb_cached_width sb > 0"

definition line_ok :: "utf8proc \<Rightarrow> ik_scrollback \<Rightarrow> nat \<Rightarrow> byte list \<Rightarrow> bool" where
  "line_ok U sb i txt \<longleftrightarrow>
     sb_text_offsets sb ! i + sb_text_lengths sb ! i \<le> sb_buffer_used sb \<and> line_bytes sb i = txt
     \<and> layout_of U (nat (sb_cached_width sb)) txt (sb_layouts sb ! i)"

definition sb_repr :: "utf8proc \<Rightarrow> ik_scrollback \<Rightarrow> byte list list \<Rightarrow> bool" where
  "sb_repr U sb lines \<longleftrightarrow>
     sb_shape sb \<and> sb_count sb = length lines
     \<and> (\<forall>i<length lines. line_ok U sb i (lines ! i))
     \<and> sb_total_physical_lines sb = sum_list (map ll_physical_lines (take (sb_count sb) (sb_layouts sb)))"

lemma sb_reprD:
  assumes "sb_repr U sb lines"
  shows "sb_shape sb" "sb_count sb = length lines" "\<And>i. i < length lines \<Longrightarrow> line_ok U sb i (lines ! i)"
    "sb_total_physical_lines sb = sum_list (map ll_physical_lines (take (sb_count sb) (sb_layouts sb)))"
  using assms by (auto simp: sb_repr_def)

lemma double_until_ge: "cap > 0 \<Longrightarrow> double_until need cap \<ge> need \<and> double_until need cap \<ge> cap"
proof (induction need cap rule: double_until.induct)
  case (1 need cap)
  then show ?case by (subst (1 2) double_until.simps) auto
qed

text \<open>Growing the arrays and the block keeps the lines and makes room for one more.\<close>

lemma realloc_nth: "i < length xs \<Longrightarrow> length xs \<le> n \<Longrightarrow> realloc d xs n ! i = xs ! i"
  by (simp add: realloc_def nth_append)

lemma take_drop_realloc:
  "a + b \<le> length xs \<Longrightarrow> length xs \<le> n \<Longrightarrow> take b (drop a (realloc d xs n)) = take b (drop a xs)"
  by (simp add: realloc_def)

lemma grow_lines_repr:
  assumes "sb_repr U sb lines"
  shows "sb_repr U (grow_lines sb) lines \<and> sb_count (grow_lines sb) < sb_capacity (grow_lines sb)"
proof -
  note d = sb_reprD [OF assms]
  have c: "sb_count sb \<le> length (sb_layouts sb)" using d(1) by (simp add: sb_shape_def)
  have "line_ok U (grow_lines sb) i (lines ! i)" if "i < length lines" for i
    using d(3) [OF that] that d(1,2)
    by (simp add: grow_lines_def line_ok_def line_bytes_def sb_shape_def Let_def realloc_nth)
  moreover have "sb_shape (grow_lines sb)" "sb_count (grow_lines sb) < sb_capacity (grow_lines sb)"
    using d(1) by (auto simp: grow_lines_def sb_shape_def Let_def)
  moreover have "take (sb_count (grow_lines sb)) (sb_layouts (grow_lines sb)) = take (sb_count sb) (sb_layouts sb)"
    using c d(1) by (simp add: grow_lines_def Let_def take_realloc sb_shape_def)
  ultimately show ?thesis
    using d(2,4) by (simp add: sb_repr_def) (simp add: grow_lines_def Let_def)
qed

lemma grow_text_repr:
  assumes "sb_repr U sb lines"
  shows "sb_repr U (grow_text sb n) lines
    \<and> sb_buffer_used (grow_text sb n) + n < sb_buffer_capacity (grow_text sb n)"
proof -
  note d = sb_reprD [OF assms]
  let ?cap = "double_until (sb_buffer_used sb + n + 1) (sb_buffer_capacity sb * 2)"
  have cap: "?cap \<ge> sb_buffer_used sb + n + 1" "?cap \<ge> sb_buffer_capacity sb"
    using double_until_ge [of "sb_buffer_capacity sb * 2" "sb_buffer_used sb + n + 1"] d(1)
    by (auto simp: sb_shape_def)
  have "line_ok U (grow_text sb n) i (lines ! i)" if "i < length lines" for i
    using d(3) [OF that] d(1) cap(2)
    by (simp add: grow_text_def line_ok_def line_bytes_def sb_shape_def Let_def take_drop_realloc)
  moreover have "sb_shape (grow_text sb n)" "sb_buffer_used (grow_text sb n) + n < sb_buffer_capacity (grow_text sb n)"
    using d(1) cap by (auto simp: grow_text_def sb_shape_def Let_def)
  ultimately show ?thesis
    using d(2,4) by (simp add: sb_repr_def) (simp add: grow_text_def Let_def)
qed

subsection \<open>The operations\<close>

lemma scrollback_create_repr: "w > 0 \<Longrightarrow> returns (ik_scrollback_create w) (\<lambda>sb. sb_repr U sb [] \<and> sb_cached_width sb = w)"
  by (simp add: ik_scrollback_create_def sb_repr_def sb_shape_def)

lemma append_fresh:
  assumes r: "sb_repr U sb lines" and room: "sb_count sb < sb_capacity sb"
    and fits: "sb_buffer_used sb + length t < sb_buffer_capacity sb"
    and l: "layout_of U (nat (sb_cached_width sb)) t l"
  shows "sb_repr U (sb\<lparr>sb_text_offsets := (sb_text_offsets sb)[sb_count sb := sb_buffer_used sb],
      sb_text_lengths := (sb_text_lengths sb)[sb_count sb := length t],
      sb_text_buffer := (take (sb_buffer_used sb) (sb_text_buffer sb) @ t
          @ drop (sb_buffer_used sb + length t) (sb_text_buffer sb))[sb_buffer_used sb + length t := 0],
      sb_buffer_used := sb_buffer_used sb + length t + 1, sb_layouts := (sb_layouts sb)[sb_count sb := l],
      sb_total_physical_lines := sb_total_physical_lines sb + ll_physical_lines l,
      sb_count := sb_count sb + 1\<rparr>) (lines @ [t])" (is "sb_repr U ?sb _")
proof -
  note d = sb_reprD [OF r]
  let ?n = "sb_count sb" and ?u = "sb_buffer_used sb"
  let ?buf = "(take ?u (sb_text_buffer sb) @ t @ drop (?u + length t) (sb_text_buffer sb))[?u + length t := 0]"
  have lens: "length (sb_text_offsets sb) = sb_capacity sb" "length (sb_text_lengths sb) = sb_capacity sb"
    "length (sb_layouts sb) = sb_capacity sb" "length (sb_text_buffer sb) = sb_buffer_capacity sb"
    using d(1) by (simp_all add: sb_shape_def)
  have buf: "?buf = take ?u (sb_text_buffer sb) @ t @ 0 # drop (Suc (?u + length t)) (sb_text_buffer sb)"
    using fits lens(4) by (simp add: list_update_append drop_eq_Nil Cons_nth_drop_Suc [symmetric])
  have old: "line_ok U ?sb i (lines ! i)" if "i < length lines" for i
    using d(2) d(3) [OF that] that lens room fits
    by (auto simp: line_ok_def line_bytes_def buf take_drop)
  have new: "line_ok U ?sb ?n t"
    using lens room l fits by (simp add: line_ok_def line_bytes_def buf)
  have "line_ok U ?sb i ((lines @ [t]) ! i)" if "i < Suc (length lines)" for i
    using old [of i] new that d(2) by (cases "i = length lines") (simp_all add: nth_append)
  moreover have "sb_shape ?sb" using d(1) room fits lens by (auto simp: sb_shape_def)
  moreover have "take (Suc ?n) ((sb_layouts sb)[?n := l]) = take ?n (sb_layouts sb) @ [l]"
    using room lens(3) by (simp add: take_Suc_conv_app_nth)
  ultimately show ?thesis using d(2,4) by (simp add: sb_repr_def)
qed

lemma append_line_repr:
  assumes "sb_repr U sb lines"
  shows "returns (ik_scrollback_append_line U sb t)
    (\<lambda>sb'. sb_repr U sb' (lines @ [t]) \<and> sb_cached_width sb' = sb_cached_width sb
       \<and> sb_total_physical_lines sb' = sb_total_physical_lines sb + append_rows U (nat (sb_cached_width sb)) t)"
proof -
  define g where "g = grow_text (grow_lines sb) (length t)"
  have r: "sb_repr U g lines" and fits: "sb_buffer_used g + length t < sb_buffer_capacity g"
    using grow_text_repr [of U "grow_lines sb" lines "length t"] grow_lines_repr [OF assms] by (simp_all add: g_def)
  have same: "sb_count g = sb_count (grow_lines sb)" "sb_capacity g = sb_capacity (grow_lines sb)"
    "sb_cached_width g = sb_cached_width sb" "sb_total_physical_lines g = sb_total_physical_lines sb"
    by (simp_all add: g_def grow_text_def grow_lines_def Let_def)
  then have room: "sb_count g < sb_capacity g" using grow_lines_repr [OF assms] by simp
  have w: "sb_cached_width g > 0" using sb_reprD(1) [OF r] by (simp add: sb_shape_def)
  define l where "l = \<lparr>ll_display_width = sum_list (widths U t),
      ll_physical_lines = append_rows U (nat (sb_cached_width g)) t,
      ll_newline_count = length (widths U t) - 1, ll_segment_widths = widths U t\<rparr>"
  have l: "layout_of U (nat (sb_cached_width g)) t l"
    by (simp add: layout_of_def l_def widths_def length_seg_widths)
  have lens: "length (sb_text_offsets g) = sb_capacity g" "length (sb_text_lengths g) = sb_capacity g"
    "length (sb_layouts g) = sb_capacity g" "length (sb_text_buffer g) = sb_buffer_capacity g"
    using sb_reprD(1) [OF r] by (simp_all add: sb_shape_def)
  have "ik_scrollback_calculate_layout U t (sb_cached_width g) = Inr l"
    using calculate_layout_spec [OF w] by (simp add: l_def)
  moreover have "(if length t > 0 then copy_in (sb_text_buffer g) (sb_buffer_used g) t else Inr (sb_text_buffer g))
      = Inr (take (sb_buffer_used g) (sb_text_buffer g) @ t @ drop (sb_buffer_used g + length t) (sb_text_buffer g))"
    using lens(4) fits by simp
  moreover have "ll_physical_lines l = append_rows U (nat (sb_cached_width g)) t" by (simp add: l_def)
  ultimately show ?thesis
    using append_fresh [OF r room fits l] lens room fits same(3,4)
    by (simp add: ik_scrollback_append_line_def g_def [symmetric] Let_def)
qed

lemma ensure_layout_repr:
  assumes r: "sb_repr U sb lines" and w: "w > 0"
  shows "returns (ik_scrollback_ensure_layout sb w)
    (\<lambda>sb'. sb_repr U sb' lines \<and> sb_cached_width sb' = w
       \<and> (w \<noteq> sb_cached_width sb \<longrightarrow>
          sb_total_physical_lines sb' = sum_list (map (reflow_rows U (nat w)) lines)))"
proof (cases "w = sb_cached_width sb")
  case True
  then show ?thesis using r w by (simp add: ik_scrollback_ensure_layout_def)
next
  case False
  note d = sb_reprD [OF r]
  define ls where "ls = map (reflow_line (nat w)) (take (sb_count sb) (sb_layouts sb))"
  have len: "length ls = length lines" "sb_count sb \<le> length (sb_layouts sb)"
    using d(1,2) by (simp_all add: ls_def sb_shape_def)
  have nth: "ls ! i = reflow_line (nat w) (sb_layouts sb ! i)" if "i < length lines" for i
    using that len d(2) by (simp add: ls_def)
  have phys: "ll_physical_lines (ls ! i) = reflow_rows U (nat w) (lines ! i)" if "i < length lines" for i
    using d(3) [OF that] nth [OF that]
    by (simp add: line_ok_def layout_of_def reflow_line_def reflow_rows_def)
  have "map ll_physical_lines ls = map (reflow_rows U (nat w)) lines"
    using len(1) phys by (intro nth_equalityI) simp_all
  then have tot: "sum_list (map ll_physical_lines ls) = sum_list (map (reflow_rows U (nat w)) lines)" by simp
  define sb' where "sb' = sb\<lparr>sb_layouts := ls @ drop (sb_count sb) (sb_layouts sb), sb_cached_width := w,
      sb_total_physical_lines := sum_list (map ll_physical_lines ls)\<rparr>"
  have "line_ok U sb' i (lines ! i)" if "i < length lines" for i
    using d(3) [OF that] that len(1) nth [OF that] phys [OF that]
    by (simp add: sb'_def line_ok_def line_bytes_def layout_of_def nth_append reflow_line_def)
  moreover have "sb_shape sb'" using d(1,2) len w by (auto simp: sb'_def sb_shape_def)
  ultimately have "sb_repr U sb' lines" using d(2) len(1) by (simp add: sb_repr_def) (simp add: sb'_def)
  moreover have "ik_scrollback_ensure_layout sb w = Inr sb'"
    using False w by (simp add: ik_scrollback_ensure_layout_def ls_def sb'_def Let_def)
  ultimately show ?thesis using tot by (simp add: sb'_def)
qed

lemma clear_repr: "sb_repr U sb lines \<Longrightarrow> sb_repr U (ik_scrollback_clear sb) []"
  by (auto simp: sb_repr_def ik_scrollback_clear_def sb_shape_def)

lemma append_lines_repr:
  "sb_repr U sb lines \<Longrightarrow> returns (append_lines U sb new) (\<lambda>sb'. sb_repr U sb' (lines @ new))"
proof (induction new arbitrary: sb lines)
  case Nil
  then show ?case by simp
next
  case (Cons t new)
  show ?case
    by (simp, rule returns_bindI [OF append_line_repr [OF Cons.prems, of t]])
       (use Cons.IH [of _ "lines @ [t]"] in simp)
qed

lemma copy_from_repr:
  assumes "sb_repr U dest dlines" and "sb_repr U src slines"
  shows "returns (ik_scrollback_copy_from U dest src) (\<lambda>sb'. sb_repr U sb' (dlines @ slines))"
proof -
  have "map (line_bytes src) [0..<sb_count src] = slines"
    using sb_reprD(2,3) [OF assms(2)] by (intro nth_equalityI) (simp_all add: line_ok_def)
  then show ?thesis
    using append_lines_repr [OF assms(1)] by (simp add: ik_scrollback_copy_from_def)
qed

lemma find_row_spec:
  "cur \<le> row \<Longrightarrow> row < cur + sum_list (map ll_physical_lines ls) \<Longrightarrow>
   \<exists>k off. find_row ls row i cur = Inr (i + k, off) \<and> k < length ls \<and> off < ll_physical_lines (ls ! k)
     \<and> cur + sum_list (map ll_physical_lines (take k ls)) + off = row"
proof (induction ls arbitrary: i cur)
  case Nil
  then show ?case by simp
next
  case (Cons l ls)
  show ?case
  proof (cases "row < cur + ll_physical_lines l")
    case True
    then show ?thesis using Cons.prems(1) by - (rule exI [of _ 0], rule exI [of _ "row - cur"], auto)
  next
    case False
    then obtain k off where "find_row ls row (i + 1) (cur + ll_physical_lines l) = Inr (i + 1 + k, off)"
      "k < length ls" "off < ll_physical_lines (ls ! k)"
      "cur + ll_physical_lines l + sum_list (map ll_physical_lines (take k ls)) + off = row"
      using Cons.IH [of "cur + ll_physical_lines l" "i + 1"] Cons.prems(2) by auto
    then show ?thesis using False by - (rule exI [of _ "Suc k"], rule exI [of _ off], auto)
  qed
qed

subsection \<open>Properties\<close>

datatype sb_op = Append "byte list" | Resize int | Clear | Copy_From ik_scrollback "byte list list"

fun sb_apply :: "utf8proc \<Rightarrow> sb_op \<Rightarrow> ik_scrollback \<Rightarrow> ik_scrollback res" where
  "sb_apply U (Append t) sb = ik_scrollback_append_line U sb t"
| "sb_apply U (Resize w) sb = ik_scrollback_ensure_layout sb w"
| "sb_apply U Clear sb = Inr (ik_scrollback_clear sb)"
| "sb_apply U (Copy_From src ls) sb = ik_scrollback_copy_from U sb src"

fun sb_run :: "utf8proc \<Rightarrow> sb_op list \<Rightarrow> ik_scrollback \<Rightarrow> ik_scrollback res" where
  "sb_run U [] sb = Inr sb"
| "sb_run U (p # ps) sb = res_bind (sb_apply U p sb) (sb_run U ps)"

fun lines_op :: "sb_op \<Rightarrow> byte list list \<Rightarrow> byte list list" where
  "lines_op (Append t) ls = ls @ [t]"
| "lines_op (Resize w) ls = ls"
| "lines_op Clear ls = []"
| "lines_op (Copy_From src new) ls = ls @ new"

fun sb_op_ok :: "utf8proc \<Rightarrow> sb_op \<Rightarrow> bool" where
  "sb_op_ok U (Resize w) = (w > 0)"
| "sb_op_ok U (Copy_From src new) = sb_repr U src new"
| "sb_op_ok U p = True"

lemma sb_apply_repr:
  assumes "sb_op_ok U p" and "sb_repr U sb ls"
  shows "returns (sb_apply U p sb) (\<lambda>sb'. sb_repr U sb' (lines_op p ls))"
proof (cases p)
  case (Append t)
  then show ?thesis using returns_mono [OF append_line_repr [OF assms(2), of t]] by simp
next
  case (Resize w)
  then show ?thesis using returns_mono [OF ensure_layout_repr [OF assms(2), of w]] assms(1) by simp
next
  case Clear
  then show ?thesis using clear_repr [OF assms(2)] by simp
next
  case (Copy_From src new)
  then show ?thesis using copy_from_repr [OF assms(2)] assms(1) by simp
qed

lemma sb_run_repr:
  "list_all (sb_op_ok U) ps \<Longrightarrow> sb_repr U sb ls \<Longrightarrow>
   returns (sb_run U ps sb) (\<lambda>sb'. sb_repr U sb' (fold lines_op ps ls))"
proof (induction ps arbitrary: sb ls)
  case Nil
  then show ?case by simp
next
  case (Cons p ps)
  then have "sb_op_ok U p" "list_all (sb_op_ok U) ps" by simp_all
  then show ?case
    by (simp, intro returns_bindI [OF sb_apply_repr [OF _ Cons.prems(2)]] Cons.IH)
qed

text \<open>C5. The scrollback buffer implements a list of lines: after any sequence of appends, resizes to
  positive widths, clears and copies from other buffers, no access has left its block, every line reads
  back as it was appended, and the total number of rows is the sum of the rows of the lines.\<close>

theorem scrollback_simulation:
  assumes "width > 0" and "list_all (sb_op_ok U) ps"
  shows "returns (res_bind (ik_scrollback_create width) (sb_run U ps))
    (\<lambda>sb. ik_scrollback_get_line_count sb = length (fold lines_op ps [])
       \<and> (\<forall>i. ik_scrollback_get_line_text sb i
               = (if i < length (fold lines_op ps []) then Inr (fold lines_op ps [] ! i)
                  else Inl (Err OUT_OF_RANGE)))
       \<and> ik_scrollback_get_total_physical_lines sb
           = (\<Sum>i<length (fold lines_op ps []). ll_physical_lines (sb_layouts sb ! i)))"
proof (rule returns_bindI [OF scrollback_create_repr [OF assms(1)]], elim conjE, rule returns_mono)
  fix sb assume "sb_repr U sb []"
  then show "returns (sb_run U ps sb) (\<lambda>sb'. sb_repr U sb' (fold lines_op ps []))"
    by (rule sb_run_repr [OF assms(2)])
next
  fix sb
  let ?ls = "fold lines_op ps []"
  assume r: "sb_repr U sb ?ls"
  note d = sb_reprD [OF r]
  have c: "length ?ls \<le> length (sb_layouts sb)" using d(1,2) by (simp add: sb_shape_def)
  have "sum_list (map ll_physical_lines (take (length ?ls) (sb_layouts sb)))
      = (\<Sum>i<length ?ls. ll_physical_lines (sb_layouts sb ! i))"
    using c by (simp add: sum_list_sum_nth atLeast0LessThan)
  then show "ik_scrollback_get_line_count sb = length ?ls
       \<and> (\<forall>i. ik_scrollback_get_line_text sb i = (if i < length ?ls then Inr (?ls ! i) else Inl (Err OUT_OF_RANGE)))
       \<and> ik_scrollback_get_total_physical_lines sb = (\<Sum>i<length ?ls. ll_physical_lines (sb_layouts sb ! i))"
    using d by (auto simp: ik_scrollback_get_line_count_def ik_scrollback_get_line_text_def
        ik_scrollback_get_total_physical_lines_def line_ok_def)
qed

theorem scrollback_simulation_witness:
  "returns (res_bind (ik_scrollback_create 80) (sb_run ref_utf8proc [Append [0x61], Resize 40, Append [0x62]]))
    (\<lambda>sb. ik_scrollback_get_line_count sb = 2 \<and> ik_scrollback_get_line_text sb 1 = Inr [0x62])"
  by (rule returns_mono [OF scrollback_simulation [of 80 ref_utf8proc "[Append [0x61], Resize 40, Append [0x62]]"]])
     simp_all

text \<open>A physical row below the total lies in exactly the line and at the offset that are found:
  the rows of the lines before it and the offset add up to the row, and the offset is within the line.
  Rows from the total on are refused.\<close>

theorem scrollback_find_row:
  assumes "sb_repr U sb lines"
  shows "(if row < sb_total_physical_lines sb
      then \<exists>i off. ik_scrollback_find_logical_line_at_physical_row sb row = Inr (i, off)
             \<and> i < length lines \<and> off < ll_physical_lines (sb_layouts sb ! i)
             \<and> (\<Sum>j<i. ll_physical_lines (sb_layouts sb ! j)) + off = row
      else ik_scrollback_find_logical_line_at_physical_row sb row = Inl (Err OUT_OF_RANGE))"
proof -
  note d = sb_reprD [OF assms]
  let ?ls = "take (sb_count sb) (sb_layouts sb)"
  have c: "length ?ls = length lines" "length lines \<le> length (sb_layouts sb)"
    using d(1,2) by (simp_all add: sb_shape_def)
  have s: "sum_list (map ll_physical_lines (take k ?ls)) = (\<Sum>j<k. ll_physical_lines (sb_layouts sb ! j))"
    if "k < length ?ls" for k
    using that c d(2) by (simp add: sum_list_sum_nth atLeast0LessThan min_def)
  show ?thesis
  proof (cases "row < sb_total_physical_lines sb")
    case True
    then obtain k off where "find_row ?ls row 0 0 = Inr (k, off)" "k < length ?ls"
      "off < ll_physical_lines (?ls ! k)" "sum_list (map ll_physical_lines (take k ?ls)) + off = row"
      using find_row_spec [of 0 row ?ls 0] d(4) by auto
    then show ?thesis
      using True s c(1) by (auto simp: ik_scrollback_find_logical_line_at_physical_row_def)
  next
    case False
    then show ?thesis by (simp add: ik_scrollback_find_logical_line_at_physical_row_def)
  qed
qed

definition empty_scrollback :: ik_scrollback where
  "empty_scrollback = \<lparr>sb_text_buffer = replicate 8 0, sb_text_offsets = [0, 0], sb_text_lengths = [0, 0],
      sb_layouts = replicate 2 no_layout, sb_count = 0, sb_capacity = 2, sb_cached_width = 4,
      sb_total_physical_lines = 0, sb_buffer_used = 0, sb_buffer_capacity = 8\<rparr>"

lemma empty_scrollback_repr: "sb_repr U empty_scrollback []"
  by (simp add: sb_repr_def sb_shape_def empty_scrollback_def)

theorem scrollback_find_row_witness:
  "\<exists>sb. ik_scrollback_append_line ref_utf8proc empty_scrollback [0x61] = Inr sb
     \<and> sb_total_physical_lines sb = 1
     \<and> (\<exists>i off. ik_scrollback_find_logical_line_at_physical_row sb 0 = Inr (i, off)
          \<and> i < 1 \<and> off < ll_physical_lines (sb_layouts sb ! i)
          \<and> (\<Sum>j<i. ll_physical_lines (sb_layouts sb ! j)) + off = 0)"
proof -
  obtain sb where sb: "ik_scrollback_append_line ref_utf8proc empty_scrollback [0x61] = Inr sb"
    "sb_repr ref_utf8proc sb [[0x61]]"
    "sb_total_physical_lines sb = sb_total_physical_lines empty_scrollback
       + append_rows ref_utf8proc (nat (sb_cached_width empty_scrollback)) [0x61]"
    using append_line_repr [OF empty_scrollback_repr, of ref_utf8proc "[0x61]"] by (auto elim: returnsE)
  moreover have "append_rows ref_utf8proc 4 [0x61] = 1" by code_simp
  ultimately show ?thesis
    using scrollback_find_row [OF sb(2), of 0] by (simp add: empty_scrollback_def)
qed

lemma append_rows_reflow:
  assumes "w > 0"
  shows "reflow_rows U w t = append_rows U w t + (if drops_last_row U t then 1 else 0)"
proof -
  have "reflow_rows U w t > 0"
    using reflow_segments_ge [OF assms, of "widths U t"]
    by (simp add: reflow_rows_def widths_def length_seg_widths)
  then show ?thesis by (simp add: append_rows_def)
qed

lemma run_appends:
  "sb_repr U sb lines \<Longrightarrow>
   returns (sb_run U (map Append ts) sb)
     (\<lambda>sb'. sb_repr U sb' (lines @ ts) \<and> sb_cached_width sb' = sb_cached_width sb
        \<and> sb_total_physical_lines sb' = sb_total_physical_lines sb
            + sum_list (map (append_rows U (nat (sb_cached_width sb))) ts))"
proof (induction ts arbitrary: sb lines)
  case Nil
  then show ?case by simp
next
  case (Cons t ts)
  show ?case
    by (simp, rule returns_bindI [OF append_line_repr [OF Cons.prems, of t]], elim conjE,
        rule returns_mono [OF Cons.IH]) auto
qed

lemma sb_run_append: "sb_run U (ps @ qs) sb = res_bind (sb_run U ps sb) (sb_run U qs)"
proof (induction ps arbitrary: sb)
  case (Cons p ps)
  then show ?case by (cases "sb_apply U p sb") simp_all
qed simp

text \<open>The layout computed when lines are appended and the one computed when the terminal is resized
  agree except for the lines whose empty last segment was not counted (a text of newlines only, or with
  something of no width after the last newline): a resize to another width and back adds one row for
  each of these lines and changes nothing else.\<close>

theorem resize_there_and_back:
  assumes "width > 0" and "other > 0" and "other \<noteq> width"
  shows "returns (res_bind (ik_scrollback_create width) (sb_run U (map Append ts)))
      (\<lambda>sb. sb_total_physical_lines sb = sum_list (map (append_rows U (nat width)) ts))
    \<and> returns (res_bind (ik_scrollback_create width) (sb_run U (map Append ts @ [Resize other, Resize width])))
      (\<lambda>sb. sb_total_physical_lines sb
         = sum_list (map (append_rows U (nat width)) ts) + length (filter (drops_last_row U) ts))"
proof -
  obtain s0 where s0: "ik_scrollback_create width = Inr s0" "sb_repr U s0 []" "sb_cached_width s0 = width"
    using scrollback_create_repr [OF assms(1), of U] by (auto elim: returnsE)
  then have t0: "sb_total_physical_lines s0 = 0" using sb_reprD(2,4) [of U s0 "[]"] by simp
  obtain s1 where s1: "sb_run U (map Append ts) s0 = Inr s1" "sb_repr U s1 ts" "sb_cached_width s1 = width"
    "sb_total_physical_lines s1 = sum_list (map (append_rows U (nat width)) ts)"
    using run_appends [OF s0(2), of ts] s0(3) t0 by (auto elim: returnsE)
  obtain s2 where s2: "ik_scrollback_ensure_layout s1 other = Inr s2" "sb_repr U s2 ts" "sb_cached_width s2 = other"
    using ensure_layout_repr [OF s1(2) assms(2)] by (auto elim: returnsE)
  obtain s3 where s3: "ik_scrollback_ensure_layout s2 width = Inr s3"
    "sb_total_physical_lines s3 = sum_list (map (reflow_rows U (nat width)) ts)"
    using ensure_layout_repr [OF s2(2) assms(1)] s2(3) assms(3) by (auto elim: returnsE)
  have "sum_list (map (reflow_rows U (nat width)) ts)
      = sum_list (map (append_rows U (nat width)) ts) + length (filter (drops_last_row U) ts)"
    using assms(1) by (induction ts) (simp_all add: append_rows_reflow)
  with s0(1) s1 s2(1) s3 show ?thesis by (simp add: sb_run_append)
qed

theorem resize_there_and_back_witness:
  "returns (res_bind (ik_scrollback_create 80) (sb_run ref_utf8proc (map Append [[10]] @ [Resize 40, Resize 80])))
      (\<lambda>sb. sb_total_physical_lines sb = 2)
   \<and> returns (res_bind (ik_scrollback_create 80) (sb_run ref_utf8proc (map Append [[10]])))
      (\<lambda>sb. sb_total_physical_lines sb = 1)"
proof -
  have "append_rows ref_utf8proc 80 [10] = 1" "drops_last_row ref_utf8proc [10]" by code_simp+
  then show ?thesis
    using resize_there_and_back [of 80 40 ref_utf8proc "[[10]]"]
    by (auto elim!: returns_mono simp del: sb_run.simps sb_apply.simps)
qed

end
