(* ===== verification/Ik_Scrollback_Rows.thy ===== *)
theory Ik_Scrollback_Rows
  imports Ik_Scrollback_Lines
begin

text \<open>
  The byte ranges of the rows of a scrollback line: consecutive rows have adjacent ranges, which
  together are the whole line. For texts in UTF-8 the newlines that the layout counts are the newline
  bytes for which the ranges are cut.
\<close>

subsection \<open>Reading a suffix\<close>

lemma csi_scan_shift:
  "csi_scan (us @ ts) (length us + pos) (length us + i) = csi_scan ts pos i"
proof (induction ts pos i rule: csi_scan.induct)
  case (1 ts pos i)
  then show ?case
    by (subst (1 2) csi_scan.simps) (auto simp: Let_def nth_append)
qed

lemma skip_csi_shift: "ik_ansi_skip_csi (us @ ts) (length us + pos) = ik_ansi_skip_csi ts pos"
  using csi_scan_shift [of us ts pos "pos + 2"] by (auto simp: ik_ansi_skip_csi_def nth_append)

lemma cells_shift: "cells U (us @ ts) (length us + pos) = cells U ts pos"
proof (induction U ts pos rule: cells.induct)
  case (1 U ts pos)
  then show ?case
    by (subst (1 2) cells.simps) (auto simp: skip_csi_shift Let_def add.assoc split: prod.splits)
qed

lemma csi_bytes:
  "pos < i \<Longrightarrow> i \<le> j \<Longrightarrow> j < pos + csi_scan ts pos i \<Longrightarrow> 0x20 \<le> ts ! j \<and> ts ! j \<le> 0x7E"
proof (induction ts pos i rule: csi_scan.induct)
  case (1 ts pos i)
  consider "i < length ts" "(ts ! i \<ge> 0x30 \<and> ts ! i \<le> 0x3F) \<or> (ts ! i \<ge> 0x20 \<and> ts ! i \<le> 0x2F)"
    | "i < length ts" "\<not> ((ts ! i \<ge> 0x30 \<and> ts ! i \<le> 0x3F) \<or> (ts ! i \<ge> 0x20 \<and> ts ! i \<le> 0x2F))"
      "ts ! i \<ge> 0x40 \<and> ts ! i \<le> 0x7E"
    using "1.prems" by (fastforce simp: csi_scan.simps [of ts pos i] Let_def split: if_splits)
  then show ?case
  proof cases
    case 1
    then have "0x20 \<le> ts ! i \<and> ts ! i \<le> 0x7E" by (auto simp: word_le_nat_alt)
    then show ?thesis
      using 1 "1.prems" "1.IH" by (cases "j = i") (auto simp: csi_scan.simps [of ts pos i] Let_def)
  next
    case 2
    then have "j = i" using "1.prems" by (auto simp: csi_scan.simps [of ts pos i] Let_def)
    then show ?thesis using 2(3) by (auto simp: word_le_nat_alt)
  qed
qed

text \<open>An escape sequence consists of printable ASCII after the escape character.\<close>

lemma skip_csi_ascii:
  assumes "j < ik_ansi_skip_csi ts 0"
  shows "unat (ts ! j) < 128 \<and> ts ! j \<noteq> 10"
proof -
  have "ts ! 0 = 0x1B" "ts ! 1 = 0x5B" and s: "ik_ansi_skip_csi ts 0 = csi_scan ts 0 2"
    using assms by (auto simp: ik_ansi_skip_csi_def numeral_2_eq_2 split: if_splits)
  moreover have "0x20 \<le> ts ! j \<and> ts ! j \<le> 0x7E" if "j \<ge> 2"
    using csi_bytes [of 0 2 j ts] that assms s by simp
  moreover have "j = 0 \<or> j = 1 \<or> j \<ge> 2" by linarith
  ultimately show ?thesis by (auto simp: word_le_nat_alt)
qed

lemma ascii_prefix:
  "scalars l \<Longrightarrow> n \<le> length (utf8 l) \<Longrightarrow> \<forall>j<n. unat (utf8 l ! j) < 128 \<Longrightarrow>
   \<exists>e l'. l = e @ l' \<and> utf8 e = take n (utf8 l)"
proof (induction n arbitrary: l)
  case 0
  then show ?case by - (rule exI [of _ "[]"], simp)
next
  case (Suc n)
  then obtain c cs where l: "l = c # cs" by (cases l) auto
  then have c: "is_scalar c" using Suc.prems(1) by simp
  then obtain b bs where e: "encode_utf8 c = b # bs" using length_encode_pos by (cases "encode_utf8 c") auto
  moreover have "unat b < 128" using Suc.prems(3) l e by (auto dest: spec [of _ 0])
  ultimately have eb: "encode_utf8 c = [b]" using ascii_in_encoding [of b c] by simp
  have "\<exists>e l'. cs = e @ l' \<and> utf8 e = take n (utf8 cs)"
    using Suc.prems l eb by (intro Suc.IH) (auto dest: spec [of _ "Suc _"])
  then obtain e l' where "cs = e @ l'" "utf8 e = take n (utf8 cs)" by blast
  then show ?case using l eb by (intro exI [of _ "c # e"] exI [of _ l']) simp
qed

lemma in_set_take_nth: "x \<in> set (take n ts) \<Longrightarrow> \<exists>j<n. ts ! j = x"
  by (auto simp: in_set_conv_nth)

text \<open>The first cell of a text covers whole code points; a newline is a cell of its own.\<close>

lemma cells_cp:
  assumes U: "utf8proc_ok U" and sc: "scalars (c # cs)"
  obtains x e l' where "c # cs = e @ l'" "e \<noteq> []" "cells U (utf8 (c # cs)) 0 = x # cells U (utf8 l') 0"
    "cell_bytes x = length (utf8 e)" "10 \<in> set e \<longleftrightarrow> is_nl x" "is_nl x \<Longrightarrow> e = [10] \<and> x = Glyph 1 10"
proof (cases "ik_ansi_skip_csi (utf8 (c # cs)) 0 > 0")
  case True
  let ?t = "utf8 (c # cs)"
  let ?n = "ik_ansi_skip_csi ?t 0"
  have n: "?n \<le> length ?t" using skip_csi_bound [OF True] by simp
  obtain e l' where e: "c # cs = e @ l'" "utf8 e = take ?n ?t"
    using ascii_prefix [OF sc n] skip_csi_ascii by blast
  have "10 \<notin> set (take ?n ?t)"
  proof
    assume "10 \<in> set (take ?n ?t)"
    then obtain j where "j < ?n" "?t ! j = 10" by (blast dest: in_set_take_nth)
    then show False using skip_csi_ascii [of j ?t] by simp
  qed
  then have nl: "10 \<notin> set e" using utf8_newline [of e] e(2) by simp
  have len: "length (utf8 e) = ?n" using e(2) n by simp
  have t: "?t = utf8 e @ utf8 l'" using e(1) by (metis utf8_simps(3))
  then have "cells U ?t ?n = cells U (utf8 l') 0" using cells_shift [of U "utf8 e" "utf8 l'" 0] len by simp
  then have "cells U ?t 0 = Escape ?n # cells U (utf8 l') 0"
    using True length_encode_pos [of c] sc by (subst cells.simps) (auto simp: Let_def)
  moreover have "e \<noteq> []" using len True by auto
  ultimately show ?thesis using that [of e l' "Escape ?n"] e(1) len nl by simp
next
  case False
  have c: "is_scalar c" using sc by simp
  let ?t = "utf8 (c # cs)" and ?n = "length (encode_utf8 c)"
  have "cells U ?t 0 = Glyph ?n c # cells U ?t ?n"
    using False length_encode_pos [OF c] by (subst cells.simps) (simp add: iterate_scalar [OF U c])
  moreover have "cells U ?t ?n = cells U (utf8 cs) 0" using cells_shift [of U "encode_utf8 c" "utf8 cs" 0] by simp
  moreover have "?n = 1" if "c = 10" using that encode_utf8_ascii [of c] by simp
  ultimately show ?thesis using that [of "[c]" cs "Glyph ?n c"] by auto
qed

lemma cells_Nil [simp]: "cells U [] pos = []"
  by (subst cells.simps) simp

lemma cells_no_newline:
  assumes "utf8proc_ok U"
  shows "scalars l \<Longrightarrow> 10 \<notin> set l \<Longrightarrow> filter is_nl (cells U (utf8 l) 0) = []"
proof (induction "length l" arbitrary: l rule: less_induct)
  case less
  show ?case
  proof (cases l)
    case (Cons c cs)
    obtain x e l' where x: "l = e @ l'" "e \<noteq> []" "cells U (utf8 l) 0 = x # cells U (utf8 l') 0"
      "10 \<in> set e \<longleftrightarrow> is_nl x"
      using cells_cp [OF assms, of c cs] less.prems(1) Cons by metis
    then show ?thesis using less.hyps [of l'] less.prems by simp
  qed simp
qed

lemma cells_first_newline:
  assumes "utf8proc_ok U"
  shows "scalars (a @ 10 # b) \<Longrightarrow> 10 \<notin> set a \<Longrightarrow>
    \<exists>cs. cells U (utf8 (a @ 10 # b)) 0 = cs @ Glyph 1 10 # cells U (utf8 b) 0
      \<and> filter is_nl cs = [] \<and> sum_list (map cell_bytes cs) = length (utf8 a)"
proof (induction "length a" arbitrary: a rule: less_induct)
  case less
  show ?case
  proof (cases a)
    case Nil
    obtain x e l' where "10 # b = e @ l'" "e \<noteq> []" "cells U (utf8 (10 # b)) 0 = x # cells U (utf8 l') 0"
      "10 \<in> set e \<longleftrightarrow> is_nl x" "is_nl x \<Longrightarrow> e = [10] \<and> x = Glyph 1 10"
      using cells_cp [OF assms, of 10 b] less.prems(1) Nil by (metis append_Nil)
    moreover from this have "10 \<in> set e" by (cases e) auto
    ultimately show ?thesis using Nil by (intro exI [of _ "[]"]) simp
  next
    case (Cons c cs)
    obtain x e l' where x: "a @ 10 # b = e @ l'" "e \<noteq> []"
      "cells U (utf8 (a @ 10 # b)) 0 = x # cells U (utf8 l') 0" "cell_bytes x = length (utf8 e)"
      "10 \<in> set e \<longleftrightarrow> is_nl x" "is_nl x \<Longrightarrow> e = [10] \<and> x = Glyph 1 10"
      using cells_cp [OF assms, of c "cs @ 10 # b"] less.prems(1) Cons by (metis append_Cons)
    have "hd e = c" using x(1,2) Cons by (cases e) auto
    then have "\<not> is_nl x" using x(6) less.prems(2) Cons by auto
    then have e: "10 \<notin> set e" using x(5) by simp
    obtain a' where a': "a = e @ a'" "l' = a' @ 10 # b"
    proof -
      from x(1) obtain us where "a = e @ us \<and> us @ 10 # b = l' \<or> a @ us = e \<and> 10 # b = us @ l'"
        by (auto simp: append_eq_append_conv2)
      moreover have "us = []" if "a @ us = e" "10 # b = us @ l'" using that e by (cases us) auto
      ultimately show ?thesis using that by fastforce
    qed
    have "\<exists>cs. cells U (utf8 (a' @ 10 # b)) 0 = cs @ Glyph 1 10 # cells U (utf8 b) 0
        \<and> filter is_nl cs = [] \<and> sum_list (map cell_bytes cs) = length (utf8 a')"
      using less.prems a' x(2) by (intro less.hyps) auto
    then obtain cs' where "cells U (utf8 (a' @ 10 # b)) 0 = cs' @ Glyph 1 10 # cells U (utf8 b) 0"
      "filter is_nl cs' = []" "sum_list (map cell_bytes cs') = length (utf8 a')" by blast
    then show ?thesis
      using x(3,4) a' \<open>\<not> is_nl x\<close> by (intro exI [of _ "x # cs'"]) simp
  qed
qed

text \<open>The layout counts the newline bytes of the text.\<close>

lemma cells_newlines:
  assumes "utf8proc_ok U"
  shows "scalars l \<Longrightarrow> length (filter is_nl (cells U (utf8 l) 0)) = length (filter ((=) 10) l)"
proof (induction "length l" arbitrary: l rule: less_induct)
  case less
  show ?case
  proof (cases "10 \<in> set l")
    case True
    then obtain a b where l: "l = a @ 10 # b" "10 \<notin> set a" by (metis split_list_first)
    obtain cs where cs: "cells U (utf8 l) 0 = cs @ Glyph 1 10 # cells U (utf8 b) 0" "filter is_nl cs = []"
      using cells_first_newline [OF assms, of a b] less.prems l by auto
    have "filter ((=) 10) a = []" using l(2) by (auto simp: filter_empty_conv)
    then show ?thesis using cs less.hyps [of b] less.prems l by simp
  next
    case False
    then show ?thesis using cells_no_newline [OF assms less.prems] by (auto simp: filter_empty_conv)
  qed
qed

lemma raw_newlines: "scalars l \<Longrightarrow> length (filter ((=) 10) (utf8 l)) = length (filter ((=) 10) l)"
proof (induction l)
  case (Cons c l)
  have "filter (\<lambda>b. b = 10) (encode_utf8 c) = (if c = 10 then [10] else [])"
    using utf8_newline [of "[c]"] encode_utf8_ascii [of 10] by (auto simp: filter_empty_conv)
  then show ?case using Cons by simp
qed simp

subsection \<open>Columns\<close>

fun is_escape :: "cell \<Rightarrow> bool" where
  "is_escape (Escape n) = True"
| "is_escape c = False"

text \<open>The bytes up to a display column and the escape sequences after it, on cells.\<close>

fun col_bytes :: "utf8proc \<Rightarrow> nat \<Rightarrow> nat \<Rightarrow> cell list \<Rightarrow> nat" where
  "col_bytes U dc col [] = 0"
| "col_bytes U dc col (c # cs) =
     (if col < dc then cell_bytes c + col_bytes U dc (col + cell_width U c) cs
      else if is_escape c then cell_bytes c + col_bytes U dc col cs else 0)"

lemma skip_escapes_cells:
  "dc \<le> col \<Longrightarrow> skip_escapes ts pos = pos + col_bytes U dc col (cells U ts pos)"
proof (induction ts pos rule: skip_escapes.induct)
  case (1 ts pos)
  then show ?case
    by (subst skip_escapes.simps, subst cells.simps) (auto simp: Let_def split: prod.splits)
qed

lemma col_loop_cells:
  "skip_escapes ts (col_loop U ts dc pos col) = pos + col_bytes U dc col (cells U ts pos)"
proof (induction U ts dc pos col rule: col_loop.induct)
  case (1 U ts dc pos col)
  obtain bytes cp where it: "iterate U (drop pos ts) = (bytes, cp)" by fastforce
  show ?case
  proof (cases "pos < length ts \<and> col < dc")
    case True
    then show ?thesis
      using "1.IH" it
      by (subst col_loop.simps, subst cells.simps) (auto simp: Let_def)
  next
    case False
    then have "col_loop U ts dc pos col = pos" by (subst col_loop.simps) auto
    moreover have "cells U ts pos = []" if "\<not> pos < length ts" using that by (subst cells.simps) simp
    moreover have "skip_escapes ts pos = pos" if "\<not> pos < length ts"
      using that by (subst skip_escapes.simps) simp
    ultimately show ?thesis
      using False skip_escapes_cells [of dc col ts pos U] by (cases "pos < length ts") auto
  qed
qed

lemma escape_width: "is_escape c \<Longrightarrow> cell_width U c = 0"
  by (cases c) auto

lemma col_bytes_mono: "dc \<le> dc' \<Longrightarrow> col_bytes U dc col cs \<le> col_bytes U dc' col cs"
  by (induction U dc col cs rule: col_bytes.induct) (auto simp: escape_width)

lemma col_bytes_before:
  "dc \<le> col + sum_list (map (cell_width U) cs) \<Longrightarrow> \<not> is_escape x \<Longrightarrow>
   col_bytes U dc col (cs @ x # ys) \<le> sum_list (map cell_bytes cs)"
proof (induction cs arbitrary: col)
  case (Cons c cs)
  then show ?case by (auto simp: escape_width)
qed auto

subsection \<open>Segments and rows\<close>

text \<open>The place of a row among the segments: \<open>k\<close> whole segments and \<open>p\<close> rows of the next.\<close>

lemma seek_segment_shift:
  "seek_segment w sws rows (Suc n) = (case seek_segment w sws rows n of (k, p) \<Rightarrow> (Suc k, p))"
  by (induction w sws rows n rule: seek_segment.induct) (auto simp: Let_def)

lemma seek_segment_mono:
  assumes "w > 0"
  shows "rows \<le> rows' \<Longrightarrow> seek_segment w sws rows 0 = (k, p) \<Longrightarrow> seek_segment w sws rows' 0 = (k', p') \<Longrightarrow>
    k < k' \<or> k = k' \<and> p \<le> p'"
proof (induction sws arbitrary: rows rows' k p k' p')
  case Nil
  then show ?case by simp
next
  case (Cons sw sws)
  let ?r = "if sw = 0 then 1 else rows_for w sw"
  have r: "?r > 0" using rows_for_pos [OF assms] by simp
  show ?case
  proof (cases "rows \<ge> ?r")
    case True
    then have pos: "rows > 0" "rows' > 0" "rows' \<ge> ?r" using r Cons.prems(1) by linarith+
    obtain k1 p1 where 1: "seek_segment w sws (rows - ?r) 0 = (k1, p1)" by fastforce
    obtain k2 p2 where 2: "seek_segment w sws (rows' - ?r) 0 = (k2, p2)" by fastforce
    have "k = Suc k1" "p = p1" "k' = Suc k2" "p' = p2"
      using Cons.prems(2,3) True pos 1 2 by (auto simp: seek_segment_shift Let_def split: if_splits)
    then show ?thesis using Cons.IH [OF _ 1 2] Cons.prems(1) by auto
  next
    case False
    then have k: "k = 0" "p = rows" using Cons.prems(2) by (auto simp: Let_def split: if_splits)
    show ?thesis
    proof (cases "rows' \<ge> ?r")
      case True
      obtain k2 p2 where 2: "seek_segment w sws (rows' - ?r) 0 = (k2, p2)" by fastforce
      have "rows' > 0" using True r by linarith
      then have "k' = Suc k2" using Cons.prems(3) True 2 by (auto simp: seek_segment_shift Let_def split: if_splits)
      then show ?thesis using k by simp
    next
      case F: False
      then have "k' = 0" "p' = rows'" using Cons.prems(3) by (auto simp: Let_def split: if_splits)
      then show ?thesis using k Cons.prems(1) by simp
    qed
  qed
qed

lemma seek_segment_bounds:
  "w > 0 \<Longrightarrow> rows < reflow_segments w sws \<Longrightarrow> seek_segment w sws rows 0 = (k, p) \<Longrightarrow>
   k < length sws \<and> p < (if sws ! k = 0 then 1 else rows_for w (sws ! k))"
proof (induction sws arbitrary: rows k p)
  case Nil
  then show ?case by simp
next
  case (Cons sw sws)
  let ?r = "if sw = 0 then 1 else rows_for w sw"
  show ?case
  proof (cases "rows > 0 \<and> rows \<ge> ?r")
    case True
    obtain k1 p1 where 1: "seek_segment w sws (rows - ?r) 0 = (k1, p1)" by fastforce
    have "k = Suc k1" "p = p1"
      using Cons.prems(3) True 1 by (auto simp: seek_segment_shift Let_def split: if_splits)
    moreover have "rows - ?r < reflow_segments w sws" using Cons.prems(2) True by auto
    ultimately show ?thesis using Cons.IH [OF Cons.prems(1) _ 1] by (auto split: if_splits)
  next
    case False
    then show ?thesis using Cons.prems rows_for_pos [of w sw] by (auto simp: Let_def split: if_splits)
  qed
qed

lemma partial_row_cols: "p < (if sw = 0 then 1 else rows_for w sw) \<Longrightarrow> p * w \<le> sw"
proof (cases "sw = 0")
  case False
  assume "p < (if sw = 0 then 1 else rows_for w sw)"
  then have "p * w + w \<le> rows_for w sw * w"
    using False by (metis Suc_leI add.commute mult_Suc mult_le_mono1)
  also have "\<dots> \<le> sw + w - 1" by (simp add: rows_for_def)
  finally show ?thesis by simp
qed simp

subsection \<open>Newlines\<close>

lemma nth_newline_first: "10 \<notin> set a \<Longrightarrow> nth_newline (a @ 10 # b) 1 j = Some (j + length a + 1)"
  by (induction a arbitrary: j) auto

lemma nth_newline_ge: "nth_newline bs k j = Some m \<Longrightarrow> m > j \<and> m \<le> j + length bs"
  by (induction bs k j rule: nth_newline.induct) (auto split: if_splits)

lemma nth_newline_exists:
  "1 \<le> k \<Longrightarrow> k \<le> length (filter ((=) 10) bs) \<Longrightarrow> \<exists>m. nth_newline bs k j = Some m"
proof (induction bs k j rule: nth_newline.induct)
  case (2 b bs k j)
  then show ?case by (auto split: if_splits)
qed simp

lemma nth_newline_mono:
  "1 \<le> k \<Longrightarrow> k \<le> k' \<Longrightarrow> nth_newline bs k j = Some m \<Longrightarrow> nth_newline bs k' j = Some m' \<Longrightarrow> m \<le> m'"
proof (induction bs k j arbitrary: k' rule: nth_newline.induct)
  case (2 b bs k j)
  show ?case
  proof (cases "b = 10")
    case True
    consider "k = 1" "k' = 1" | "k = 1" "k' > 1" | "k > 1" using "2.prems" by linarith
    then show ?thesis
    proof cases
      case 2
      then show ?thesis using "2.prems" True nth_newline_ge [of bs "k' - 1" "j + 1" m'] by auto
    next
      case 3
      then show ?thesis using "2.prems" "2.IH"(1) [of "k' - 1"] True by auto
    qed (use "2.prems" True in auto)
  next
    case False
    then show ?thesis using "2.prems" "2.IH"(2) [of k'] by auto
  qed
qed simp

subsection \<open>The ranges of the rows\<close>

lemma seg_widths_first:
  "filter is_nl cs = [] \<Longrightarrow> is_nl x \<Longrightarrow>
   seg_widths U acc (cs @ x # ys) = (acc + sum_list (map (cell_width U) cs)) # seg_widths U 0 ys"
  by (induction cs arbitrary: acc) (auto split: if_splits)

definition col_offset :: "utf8proc \<Rightarrow> byte list \<Rightarrow> nat \<Rightarrow> nat" where
  "col_offset U ts dc = (if dc = 0 then 0 else col_bytes U dc 0 (cells U ts 0))"

definition row_byte :: "utf8proc \<Rightarrow> nat \<Rightarrow> byte list \<Rightarrow> nat \<Rightarrow> nat" where
  "row_byte U w ts rows =
     (case seek_segment w (widths U ts) rows 0 of (k, p) \<Rightarrow>
        (if k > 0
         then (case nth_newline ts k 0 of
                 Some m \<Rightarrow> m | None \<Rightarrow> col_offset U ts (sum_list (take k (widths U ts)) + p * w))
         else col_offset U ts (p * w)))"

lemma byte_after_rows_eq:
  assumes r: "sb_repr U sb lines" and i: "i < length lines" and w: "w > 0"
  shows "byte_after_rows U sb i w rows on_error = row_byte U w (lines ! i) rows"
proof -
  let ?t = "lines ! i"
  have l: "line_bytes sb i = ?t" "take (ll_newline_count (sb_layouts sb ! i) + 1) (ll_segment_widths (sb_layouts sb ! i)) = widths U ?t"
    using sb_reprD(3) [OF r i] by (simp_all add: line_ok_def layout_of_def)
  have "i < sb_count sb" using i sb_reprD(2) [OF r] by simp
  then have off: "ik_scrollback_get_byte_offset_at_display_col U sb i dc
      = Inr (col_offset U ?t dc)" for dc
    using col_loop_cells [of ?t U dc 0 0]
    by (simp add: col_offset_def ik_scrollback_get_byte_offset_at_display_col_def l(1) Let_def)
  obtain k p where kp: "seek_segment w (widths U ?t) rows 0 = (k, p)" by fastforce
  show ?thesis
    unfolding byte_after_rows_def row_byte_def Let_def l kp
    using w off by (auto split: option.splits)
qed

text \<open>The rows of a line start at later and later bytes.\<close>

lemma row_byte_mono:
  assumes U: "utf8proc_ok U" and sc: "scalars l" and w: "w > 0"
    and le: "rows \<le> rows'" and bd: "rows' < reflow_rows U w (utf8 l)"
  shows "row_byte U w (utf8 l) rows \<le> row_byte U w (utf8 l) rows'"
proof -
  let ?t = "utf8 l" and ?ws = "widths U (utf8 l)"
  obtain k p where kp: "seek_segment w ?ws rows 0 = (k, p)" by fastforce
  obtain k' p' where kp': "seek_segment w ?ws rows' 0 = (k', p')" by fastforce
  note b = seek_segment_bounds [OF w _ kp] and b' = seek_segment_bounds [OF w _ kp']
  have "k < length ?ws" "p < (if ?ws ! k = 0 then 1 else rows_for w (?ws ! k))" "k' < length ?ws"
    using b b' le bd by (simp_all add: reflow_rows_def)
  then have k: "k < length ?ws" "p * w \<le> ?ws ! k" "k' < length ?ws" using partial_row_cols by blast+
  have "length ?ws = Suc (length (filter ((=) 10) ?t))"
    by (simp add: widths_def length_seg_widths cells_newlines [OF U sc] raw_newlines [OF sc])
  then have nl: "\<exists>m. nth_newline ?t j 0 = Some m" if "1 \<le> j" "j < length ?ws" for j
    using that nth_newline_exists [of j ?t 0] by simp
  have later: "row_byte U w ?t rows' = the (nth_newline ?t k' 0)" if "k' > 0"
    using that nl [of k'] k(3) kp' by (auto simp: row_byte_def)
  consider "k = 0" "k' = 0" | "k = 0" "k' > 0" | "k > 0" "k \<le> k'"
    using seek_segment_mono [OF w le kp kp'] by linarith
  then show ?thesis
  proof cases
    case 1
    then have "p \<le> p'" using seek_segment_mono [OF w le kp kp'] by simp
    then have "p * w \<le> p' * w" by simp
    then show ?thesis
      using 1 kp kp' col_bytes_mono [of "p * w" "p' * w" U 0 "cells U ?t 0"]
      by (auto simp: row_byte_def col_offset_def)
  next
    case 2
    then have "filter ((=) 10) l \<noteq> []"
      using k(3) \<open>length ?ws = _\<close> raw_newlines [OF sc] by (metis length_greater_0_conv less_Suc_eq_0_disj not_less_eq not_less_zero)
    then have "10 \<in> set l" by (metis filter_empty_conv)
    then obtain x y where l: "l = x @ 10 # y" "10 \<notin> set x" by (metis split_list_first)
    obtain cs where cs: "cells U ?t 0 = cs @ Glyph 1 10 # cells U (utf8 y) 0" "filter is_nl cs = []"
      "sum_list (map cell_bytes cs) = length (utf8 x)"
      using cells_first_newline [OF U, of x y] sc l by auto
    have "?ws ! 0 = sum_list (map (cell_width U) cs)"
      using cs seg_widths_first [of cs "Glyph 1 10"] by (simp add: widths_def)
    then have "row_byte U w ?t rows \<le> length (utf8 x)"
      using 2 k(2) kp cs col_bytes_before [of "p * w" 0 U cs "Glyph 1 10" "cells U (utf8 y) 0"]
      by (simp add: row_byte_def col_offset_def)
    moreover have "encode_utf8 10 = [10]" using encode_utf8_ascii [of 10] by simp
    then have "nth_newline ?t 1 0 = Some (length (utf8 x) + 1)"
      using nth_newline_first [of "utf8 x" "utf8 y" 0] utf8_newline [of x] l by simp
    moreover obtain m where m: "nth_newline ?t k' 0 = Some m" using nl [of k'] 2 k(3) by auto
    ultimately have "row_byte U w ?t rows \<le> m"
      using nth_newline_mono [of 1 k' ?t 0 "length (utf8 x) + 1" m] 2 by simp
    then show ?thesis using later 2 m by simp
  next
    case 3
    then obtain m m' where "nth_newline ?t k 0 = Some m" "nth_newline ?t k' 0 = Some m'"
      using nl [of k] nl [of k'] k by auto
    moreover from this have "m \<le> m'" using nth_newline_mono [of k k' ?t 0 m m'] 3 by simp
    ultimately show ?thesis using later 3 kp by (simp add: row_byte_def)
  qed
qed

lemma cells_total:
  assumes "utf8proc_ok U"
  shows "scalars l \<Longrightarrow> sum_list (map cell_bytes (cells U (utf8 l) 0)) = length (utf8 l)"
proof (induction "length l" arbitrary: l rule: less_induct)
  case less
  show ?case
  proof (cases l)
    case (Cons c cs)
    obtain x e l' where x: "l = e @ l'" "e \<noteq> []" "cells U (utf8 l) 0 = x # cells U (utf8 l') 0"
      "cell_bytes x = length (utf8 e)"
      using cells_cp [OF assms, of c cs] less.prems(1) Cons by metis
    then show ?thesis using less.hyps [of l'] less.prems by simp
  qed simp
qed

lemma col_bytes_le: "col_bytes U dc col cs \<le> sum_list (map cell_bytes cs)"
  by (induction U dc col cs rule: col_bytes.induct) auto

lemma row_byte_le: "utf8proc_ok U \<Longrightarrow> scalars l \<Longrightarrow> row_byte U w (utf8 l) rows \<le> length (utf8 l)"
  using cells_total [of U l] col_bytes_le [of U _ 0 "cells U (utf8 l) 0"] nth_newline_ge [of "utf8 l" _ 0]
  by (fastforce simp: row_byte_def col_offset_def split: prod.split option.split)

lemma append_rows_pos:
  assumes "w > 0"
  shows "append_rows U w ts > 0"
proof -
  have "length (widths U ts) > 0" by (simp add: widths_def)
  moreover have "length (widths U ts) \<le> reflow_segments w (widths U ts)"
    using assms by (rule reflow_segments_ge)
  ultimately have "reflow_segments w (widths U ts) > 0" by linarith
  then show ?thesis
    using \<open>length (widths U ts) \<le> _\<close> by (simp add: append_rows_def reflow_rows_def drops_last_row_def)
qed

text \<open>Where row \<open>r\<close> of a line of \<open>n\<close> rows starts; row \<open>n\<close> would start at its end.\<close>

definition row_start :: "utf8proc \<Rightarrow> nat \<Rightarrow> byte list \<Rightarrow> nat \<Rightarrow> nat \<Rightarrow> nat" where
  "row_start U w ts n r = (if r < n then row_byte U w ts r else length ts)"

lemma row_start_0: "n > 0 \<Longrightarrow> row_start U w ts n 0 = 0"
  by (cases "widths U ts") (simp_all add: row_start_def row_byte_def col_offset_def)

lemma line_rows_bound:
  assumes "sb_repr U sb lines" and "i < length lines"
  shows "0 < ll_physical_lines (sb_layouts sb ! i)"
    "ll_physical_lines (sb_layouts sb ! i) \<le> reflow_rows U (nat (sb_cached_width sb)) (lines ! i)"
    "nat (sb_cached_width sb) > 0" "line_bytes sb i = lines ! i"
proof -
  let ?w = "nat (sb_cached_width sb)" and ?n = "ll_physical_lines (sb_layouts sb ! i)"
  have ok: "line_ok U sb i (lines ! i)" using sb_reprD(3) [OF assms] .
  show w: "?w > 0" using sb_reprD(1) [OF assms(1)] by (simp add: sb_shape_def)
  have "?n = append_rows U ?w (lines ! i) \<or> ?n = reflow_rows U ?w (lines ! i)"
    using ok by (simp add: line_ok_def layout_of_def)
  then show "0 < ?n" "?n \<le> reflow_rows U ?w (lines ! i)"
    using append_rows_pos [OF w, of U "lines ! i"] append_rows_reflow [OF w, of U "lines ! i"] by auto
  show "line_bytes sb i = lines ! i" using ok by (simp add: line_ok_def)
qed

lemma row_start_mono:
  assumes "utf8proc_ok U" and "scalars l" and "w > 0" and "n \<le> reflow_rows U w (utf8 l)" and "r < n"
  shows "row_start U w (utf8 l) n r \<le> row_start U w (utf8 l) n (Suc r)"
  using assms row_byte_mono [OF assms(1-3), of r "Suc r"] row_byte_le [OF assms(1,2), of w r]
  by (simp add: row_start_def)

text \<open>The byte range of \<open>m\<close> rows from row \<open>a\<close> on.\<close>

lemma byte_range_rows:
  assumes r: "sb_repr U sb lines" and i: "i < length lines" and m: "m > 0"
  defines "w \<equiv> nat (sb_cached_width sb)" and "n \<equiv> ll_physical_lines (sb_layouts sb ! i)"
  assumes am: "a + m \<le> n"
  shows "ik_scrollback_calc_byte_range_for_rows U sb i w a m
    = (row_start U w (lines ! i) n a, row_start U w (lines ! i) n (a + m), a + m = n)"
proof -
  note b = line_rows_bound [OF r i, folded w_def n_def]
  show ?thesis
    using m am b(4) row_start_0 [OF b(1), of U w "lines ! i"]
    by (auto simp: ik_scrollback_calc_byte_range_for_rows_def ik_scrollback_calc_start_byte_for_row_def
        ik_scrollback_calc_end_byte_for_row_def byte_after_rows_eq [OF r i b(3)] row_start_def
        n_def [symmetric] Let_def)
qed

lemma concat_ranges_from:
  assumes "\<And>r. a \<le> r \<Longrightarrow> r < a + m \<Longrightarrow> f r \<le> f (Suc r :: nat)"
  shows "concat (map (\<lambda>r. take (f (Suc r) - f r) (drop (f r) xs)) [a..<a + m])
    = take (f (a + m) - f a) (drop (f a) (xs :: 'a list)) \<and> f a \<le> f (a + m)"
  using assms
proof (induction m)
  case (Suc m)
  then have *: "f a \<le> f (a + m)" "f (a + m) \<le> f (a + Suc m)"
    "concat (map (\<lambda>r. take (f (Suc r) - f r) (drop (f r) xs)) [a..<a + m]) = take (f (a + m) - f a) (drop (f a) xs)"
    by simp_all
  have "take (f (a + m) - f a) (drop (f a) xs) @ take (f (Suc (a + m)) - f (a + m)) (drop (f (a + m)) xs)
      = take (f (a + Suc m) - f a) (drop (f a) xs)"
    using *(1,2) take_add [of "f (a + m) - f a" "f (Suc (a + m)) - f (a + m)" "drop (f a) xs"] by simp
  then show ?case using * by simp
qed simp

text \<open>The bytes of one row of a line.\<close>

definition row_bytes :: "utf8proc \<Rightarrow> ik_scrollback \<Rightarrow> nat \<Rightarrow> nat \<Rightarrow> nat \<Rightarrow> byte list" where
  "row_bytes U sb i w r =
     (case ik_scrollback_calc_byte_range_for_rows U sb i w r 1 of
        (start_byte, end_byte, is_line_end) \<Rightarrow> take (end_byte - start_byte) (drop start_byte (line_bytes sb i)))"

lemma rows_in_range:
  assumes U: "utf8proc_ok U" and r: "sb_repr U sb lines" and i: "i < length lines"
    and l: "lines ! i = utf8 l" "scalars l"
  defines "w \<equiv> nat (sb_cached_width sb)" and "n \<equiv> ll_physical_lines (sb_layouts sb ! i)"
  assumes am: "a + m \<le> n"
  shows "concat (map (row_bytes U sb i w) [a..<a + m])
    = take (row_start U w (utf8 l) n (a + m) - row_start U w (utf8 l) n a)
        (drop (row_start U w (utf8 l) n a) (utf8 l))"
proof -
  let ?f = "row_start U w (utf8 l) n"
  note b = line_rows_bound [OF r i, folded w_def n_def]
  have "row_bytes U sb i w k = take (?f (Suc k) - ?f k) (drop (?f k) (utf8 l))" if "k < n" for k
    using byte_range_rows [OF r i, of 1 k, folded w_def n_def] that l(1) b(4) by (simp add: row_bytes_def)
  then have "map (row_bytes U sb i w) [a..<a + m]
      = map (\<lambda>k. take (?f (Suc k) - ?f k) (drop (?f k) (utf8 l))) [a..<a + m]"
    using am by simp
  moreover have "concat (map (\<lambda>k. take (?f (Suc k) - ?f k) (drop (?f k) (utf8 l))) [a..<a + m])
      = take (?f (a + m) - ?f a) (drop (?f a) (utf8 l))"
    using concat_ranges_from [of a m ?f "utf8 l"] row_start_mono [OF U l(2) b(3)] b(2) l(1) am by simp
  ultimately show ?thesis by metis
qed

text \<open>C27. Rendering a line of UTF-8 row by row emits each of its bytes exactly once and in order: the
  byte ranges of the rows are adjacent, the first starts at 0, and only the last row reports the end of
  the line.\<close>

theorem rows_tile_line:
  assumes U: "utf8proc_ok U" and r: "sb_repr U sb lines" and i: "i < length lines"
    and l: "lines ! i = utf8 l" "scalars l"
  defines "w \<equiv> nat (sb_cached_width sb)" and "n \<equiv> ll_physical_lines (sb_layouts sb ! i)"
  shows "concat (map (row_bytes U sb i w) [0..<n]) = utf8 l
    \<and> (\<forall>k<n. snd (snd (ik_scrollback_calc_byte_range_for_rows U sb i w k 1)) = (k + 1 = n))"
proof -
  note b = line_rows_bound [OF r i, folded w_def n_def]
  show ?thesis
    using rows_in_range [OF U r i l, of 0 n] row_start_0 [OF b(1)] byte_range_rows [OF r i, of 1]
    by (simp add: w_def [symmetric] n_def [symmetric] row_start_def)
qed

theorem rows_tile_line_witness:
  "\<exists>sb. ik_scrollback_append_line ref_utf8proc empty_scrollback (utf8 [0x61, 0x62, 0x63, 0x64, 0x65]) = Inr sb
     \<and> ll_physical_lines (sb_layouts sb ! 0) = 2
     \<and> concat (map (row_bytes ref_utf8proc sb 0 4) [0..<2]) = [0x61, 0x62, 0x63, 0x64, 0x65]"
proof -
  let ?l = "[0x61, 0x62, 0x63, 0x64, 0x65] :: 32 word list"
  obtain sb where sb: "ik_scrollback_append_line ref_utf8proc empty_scrollback (utf8 ?l) = Inr sb"
    "sb_repr ref_utf8proc sb [utf8 ?l]" "sb_cached_width sb = sb_cached_width empty_scrollback"
    "sb_total_physical_lines sb = sb_total_physical_lines empty_scrollback
       + append_rows ref_utf8proc (nat (sb_cached_width empty_scrollback)) (utf8 ?l)"
    using append_line_repr [OF empty_scrollback_repr, of ref_utf8proc "utf8 ?l"]
    by (auto elim: returnsE simp del: utf8_simps)
  have w: "sb_cached_width sb = 4" using sb(3) by (simp add: empty_scrollback_def)
  have "append_rows ref_utf8proc 4 (utf8 ?l) = 2" "utf8 ?l = [0x61, 0x62, 0x63, 0x64, 0x65]" by code_simp+
  moreover have "sb_total_physical_lines sb = ll_physical_lines (sb_layouts sb ! 0)"
    using sb_reprD(1,2,4) [OF sb(2)] by (cases "sb_layouts sb") (auto simp: sb_shape_def)
  moreover have "scalars ?l" by code_simp
  ultimately have "ll_physical_lines (sb_layouts sb ! 0) = 2"
    "concat (map (row_bytes ref_utf8proc sb 0 4) [0..<ll_physical_lines (sb_layouts sb ! 0)])
      = [0x61, 0x62, 0x63, 0x64, 0x65]"
    using rows_tile_line [OF ref_utf8proc_ok sb(2), of 0 ?l] sb(4) w
    by (simp_all add: empty_scrollback_def del: utf8_simps)
  then show ?thesis using sb(1) by (metis)
qed

text \<open>A wrapped segment after the first newline of a line is not cut into rows: in the line
  \<^verbatim>\<open>a\nbcdefg\<close> at width 4 the second row is empty and the third holds all of \<^verbatim>\<open>bcdefg\<close>, six columns.\<close>

theorem wrapped_segment_collapses:
  "\<exists>sb. ik_scrollback_append_line ref_utf8proc empty_scrollback
          [0x61, 10, 0x62, 0x63, 0x64, 0x65, 0x66, 0x67] = Inr sb
     \<and> ll_physical_lines (sb_layouts sb ! 0) = 3
     \<and> map (row_bytes ref_utf8proc sb 0 4) [0..<3] = [[0x61, 10], [], [0x62, 0x63, 0x64, 0x65, 0x66, 0x67]]"
proof -
  have "returns (ik_scrollback_append_line ref_utf8proc empty_scrollback
          [0x61, 10, 0x62, 0x63, 0x64, 0x65, 0x66, 0x67])
     (\<lambda>sb. ll_physical_lines (sb_layouts sb ! 0) = 3
       \<and> map (row_bytes ref_utf8proc sb 0 4) [0..<3] = [[0x61, 10], [], [0x62, 0x63, 0x64, 0x65, 0x66, 0x67]])"
    by code_simp
  then show ?thesis by (auto simp: returns_iff)
qed

end
