(* ===== verification/Ik_Layer_Scrollback.thy ===== *)
theory Ik_Layer_Scrollback
  imports Ik_Layers Ik_Scrollback_Rows
begin

text \<open>
  The scrollback layer, apps/ikigai/layer_scrollback.c, that it meets the contract of a layer, and the
  properties of the layer cake.

  Both callbacks first bring the layout up to date for the width they are given. The cake asserts that
  the width is positive.
\<close>

definition laid_out :: "ik_scrollback \<Rightarrow> nat \<Rightarrow> ik_scrollback" where
  "laid_out sb width = (case ik_scrollback_ensure_layout sb (int width) of Inr sb' \<Rightarrow> sb' | Inl e \<Rightarrow> sb)"

definition scrollback_get_height :: "ik_scrollback \<Rightarrow> nat \<Rightarrow> nat" where
  "scrollback_get_height sb width = ik_scrollback_get_total_physical_lines (laid_out sb width)"

text \<open>The loop over the logical lines \<open>i\<close> up to \<open>end_line_idx\<close>.\<close>

fun render_lines ::
  "utf8proc \<Rightarrow> ik_scrollback \<Rightarrow> nat \<Rightarrow> nat \<Rightarrow> nat \<Rightarrow> nat \<Rightarrow> nat \<Rightarrow> nat list \<Rightarrow> ik_output_buffer
   \<Rightarrow> ik_output_buffer res" where
  "render_lines U sb width start_line_idx start_row_offset end_line_idx end_row_offset [] out = Inr out"
| "render_lines U sb width start_line_idx start_row_offset end_line_idx end_row_offset (i # is) out =
     (let line_start_row = (if i = start_line_idx then start_row_offset else 0);
          line_row_count = (if i = end_line_idx then end_row_offset - line_start_row + 1
                            else ll_physical_lines (sb_layouts sb ! i) - line_start_row)
      in case ik_scrollback_calc_byte_range_for_rows U sb i width line_start_row line_row_count of
           (render_start, render_end, is_line_end) \<Rightarrow>
             res_bind (output_all out (map newline_to_eol
                         (take (render_end - render_start) (drop render_start (line_bytes sb i))))) (\<lambda>out1.
             res_bind (if is_line_end then ik_output_buffer_append out1 eol else Inr out1)
               (render_lines U sb width start_line_idx start_row_offset end_line_idx end_row_offset is)))"

definition scrollback_render ::
  "utf8proc \<Rightarrow> ik_scrollback \<Rightarrow> ik_output_buffer \<Rightarrow> nat \<Rightarrow> nat \<Rightarrow> nat \<Rightarrow> ik_output_buffer res" where
  "scrollback_render U sb0 out width start_row row_count =
     (let sb = laid_out sb0 width; total_lines = ik_scrollback_get_line_count sb
      in if total_lines = 0 \<or> row_count = 0 then Inr out
         else (case ik_scrollback_find_logical_line_at_physical_row sb start_row of
                 Inl e \<Rightarrow> Inr out
               | Inr (start_line_idx, start_row_offset) \<Rightarrow>
                   (case (case ik_scrollback_find_logical_line_at_physical_row sb (start_row + row_count - 1) of
                            Inr p \<Rightarrow> p
                          | Inl e \<Rightarrow> (total_lines - 1, ll_physical_lines (sb_layouts sb ! (total_lines - 1)) - 1)) of
                      (end_line_idx, end_row_offset) \<Rightarrow>
                        check_assert (end_line_idx < total_lines)
                          (render_lines U sb width start_line_idx start_row_offset end_line_idx end_row_offset
                             [start_line_idx..<Suc end_line_idx] out))))"

definition ik_scrollback_layer_create :: "utf8proc \<Rightarrow> string \<Rightarrow> ik_scrollback \<Rightarrow> ik_layer" where
  "ik_scrollback_layer_create U name sb =
     ik_layer_create name True (scrollback_get_height sb) (scrollback_render U sb)"

subsection \<open>The rows of the scrollback\<close>

definition sb_rows :: "ik_scrollback \<Rightarrow> nat \<Rightarrow> nat" where
  "sb_rows sb i = ll_physical_lines (sb_layouts sb ! i)"

definition row_text :: "utf8proc \<Rightarrow> ik_scrollback \<Rightarrow> nat \<Rightarrow> nat \<Rightarrow> nat \<Rightarrow> byte list" where
  "row_text U sb w i r =
     concat (map newline_to_eol (row_bytes U sb i w r)) @ (if r + 1 = sb_rows sb i then eol else [])"

definition scrollback_rows :: "utf8proc \<Rightarrow> ik_scrollback \<Rightarrow> nat \<Rightarrow> byte list list" where
  "scrollback_rows U sb0 width =
     (let sb = laid_out sb0 width
      in concat (map (\<lambda>i. map (row_text U sb width i) [0..<sb_rows sb i]) [0..<sb_count sb]))"

definition rows_before :: "ik_scrollback \<Rightarrow> nat \<Rightarrow> nat" where
  "rows_before sb i = (\<Sum>j<i. sb_rows sb j)"

lemma nth_concat_at:
  "i < length xss \<Longrightarrow> r < length (xss ! i) \<Longrightarrow>
   concat xss ! (sum_list (map length (take i xss)) + r) = xss ! i ! r"
proof (induction xss arbitrary: i)
  case (Cons xs xss)
  then show ?case by (cases i) (simp_all add: nth_append add.assoc)
qed simp

lemma row_at:
  assumes "i < sb_count sb" and "r < sb_rows sb i"
  shows "concat (map (\<lambda>i. map (row_text U sb w i) [0..<sb_rows sb i]) [0..<sb_count sb]) ! (rows_before sb i + r)
    = row_text U sb w i r"
proof -
  let ?xss = "map (\<lambda>i. map (row_text U sb w i) [0..<sb_rows sb i]) [0..<sb_count sb]"
  have "map length (take i ?xss) = map (sb_rows sb) [0..<i]" using assms(1) by (simp add: take_map o_def)
  then have "sum_list (map length (take i ?xss)) = rows_before sb i"
    by (simp add: rows_before_def interv_sum_list_conv_sum_set_nat atLeast0LessThan)
  then show ?thesis using nth_concat_at [of i ?xss r] assms by simp
qed

lemma row_text_range:
  assumes "a < b" and "b \<le> sb_rows sb i"
  shows "concat (map (row_text U sb w i) [a..<b])
    = concat (map newline_to_eol (concat (map (row_bytes U sb i w) [a..<b]))) @ (if b = sb_rows sb i then eol else [])"
  using assms
proof (induction b)
  case (Suc b)
  then show ?case by (cases "a = b") (auto simp: row_text_def)
qed simp

text \<open>Rendering rows \<open>a\<close> to \<open>b\<close> of one line emits these rows.\<close>

lemma render_line_emits:
  assumes U: "utf8proc_ok U" and r: "sb_repr U sb lines" and i: "i < length lines"
    and l: "lines ! i = utf8 l" "scalars l" and w: "w = nat (sb_cached_width sb)"
    and ab: "a < b" "b \<le> sb_rows sb i" and out: "ob_inv out"
    and rng: "ik_scrollback_calc_byte_range_for_rows U sb i w a (b - a) = (rs, re, fin)"
  shows "emits (res_bind (output_all out (map newline_to_eol (take (re - rs) (drop rs (line_bytes sb i)))))
       (\<lambda>out1. if fin then ik_output_buffer_append out1 eol else Inr out1)) out
     (concat (map (row_text U sb w i) [a..<b]))"
proof -
  let ?n = "ll_physical_lines (sb_layouts sb ! i)"
  have ran: "(rs, re, fin) = (row_start U w (utf8 l) ?n a, row_start U w (utf8 l) ?n b, b = ?n)"
    using byte_range_rows [OF r i, of "b - a" a] ab rng l(1) by (simp add: w sb_rows_def)
  have t: "take (re - rs) (drop rs (line_bytes sb i)) = concat (map (row_bytes U sb i w) [a..<b])"
    using rows_in_range [OF U r i l, of a "b - a"] ab ran line_rows_bound(4) [OF r i] l(1)
    by (simp add: w sb_rows_def)
  have tail: "emits (if fin then ik_output_buffer_append out1 eol else Inr out1) out1
      (if b = sb_rows sb i then eol else [])" if "ob_inv out1" for out1
    using that ran append_emits emits_nothing by (simp add: sb_rows_def)
  show ?thesis
    unfolding row_text_range [OF ab] t by (rule emits_bind [OF output_all_emits [OF out] tail])
qed

lemma res_bind_assoc: "res_bind (res_bind m f) g = res_bind m (\<lambda>x. res_bind (f x) g)"
  by (cases m) simp_all

lemma rows_before_Suc: "rows_before sb (Suc i) = rows_before sb i + sb_rows sb i"
  by (simp add: rows_before_def)

text \<open>All lines of a buffer are valid UTF-8.\<close>

definition utf8_lines :: "byte list list \<Rightarrow> bool" where
  "utf8_lines lines \<longleftrightarrow> (\<forall>t\<in>set lines. \<exists>l. t = utf8 l \<and> scalars l)"

lemma utf8_lines_nth: "utf8_lines lines \<Longrightarrow> i < length lines \<Longrightarrow> \<exists>l. lines ! i = utf8 l \<and> scalars l"
  by (simp add: utf8_lines_def)

abbreviation all_rows :: "utf8proc \<Rightarrow> ik_scrollback \<Rightarrow> nat \<Rightarrow> byte list list" where
  "all_rows U sb w \<equiv> concat (map (\<lambda>i. map (row_text U sb w i) [0..<sb_rows sb i]) [0..<sb_count sb])"

lemma upt_split: "a \<le> b \<Longrightarrow> b \<le> c \<Longrightarrow> [a..<c] = [a..<b] @ [b..<c]"
  by (metis le_add_diff_inverse upt_add_eq_append)

lemma rows_slice:
  assumes "i < sb_count sb" and "b \<le> sb_rows sb i"
  shows "map (row_text U sb w i) [a..<b]
    = map ((!) (all_rows U sb w)) [rows_before sb i + a..<rows_before sb i + b]"
proof -
  have "map ((!) (all_rows U sb w)) [rows_before sb i + a..<rows_before sb i + b]
      = map (\<lambda>r. all_rows U sb w ! (rows_before sb i + r)) [a..<b]"
    by (rule nth_equalityI) (simp_all add: add.assoc)
  also have "\<dots> = map (row_text U sb w i) [a..<b]" using row_at [OF assms(1)] assms(2) by auto
  finally show ?thesis ..
qed

lemma render_lines_emits:
  assumes U: "utf8proc_ok U" and r: "sb_repr U sb lines" and u: "utf8_lines lines"
    and w: "w = nat (sb_cached_width sb)"
    and eo: "el < length lines" "eo < sb_rows sb el" and so: "so < sb_rows sb sl" "sl = el \<Longrightarrow> so \<le> eo"
  shows "sl \<le> i \<Longrightarrow> i \<le> el \<Longrightarrow> ob_inv out \<Longrightarrow>
    emits (render_lines U sb w sl so el eo [i..<Suc el] out) out
      (concat (map ((!) (all_rows U sb w))
         [rows_before sb i + (if i = sl then so else 0)..<rows_before sb el + eo + 1]))"
proof (induction "el - i" arbitrary: i out)
  case 0
  then have i: "i = el" by simp
  let ?a = "if i = sl then so else 0"
  have ab: "?a < eo + 1" "eo + 1 \<le> sb_rows sb i" and il: "i < length lines"
    using i eo so(2) by auto
  obtain l where l: "lines ! i = utf8 l" "scalars l" using utf8_lines_nth [OF u il] by blast
  obtain rs re fin where rng: "ik_scrollback_calc_byte_range_for_rows U sb i w ?a (eo + 1 - ?a) = (rs, re, fin)"
    by (rule prod_cases3)
  have cnt: "eo - ?a + 1 = eo + 1 - ?a" using ab(1) by linarith
  have "render_lines U sb w sl so el eo [i] out
      = res_bind (output_all out (map newline_to_eol (take (re - rs) (drop rs (line_bytes sb i)))))
          (\<lambda>out1. if fin then ik_output_buffer_append out1 eol else Inr out1)"
  proof -
    have "res_bind m Inr = m" for m :: "ik_output_buffer res" by (cases m) simp_all
    moreover have "render_lines U sb w sl so el eo [] = Inr" by (rule ext) simp
    ultimately show ?thesis using rng i cnt by (simp add: Let_def)
  qed
  moreover have "map (row_text U sb w i) [?a..<eo + 1]
      = map ((!) (all_rows U sb w)) [rows_before sb i + ?a..<rows_before sb el + eo + 1]"
    using rows_slice [of i sb "eo + 1" U w ?a] il ab(2) sb_reprD(2) [OF r] i by (simp add: add.assoc)
  ultimately show ?case
    using render_line_emits [OF U r il l w ab 0(4) rng] i by simp
next
  case (Suc k)
  then have i: "i < el" by simp
  let ?a = "if i = sl then so else 0" and ?b = "sb_rows sb i"
  have il: "i < length lines" using i eo(1) by simp
  have ab: "?a < ?b" "?b \<le> sb_rows sb i"
    using so(1) line_rows_bound(1) [OF r il] by (auto simp: sb_rows_def)
  obtain l where l: "lines ! i = utf8 l" "scalars l" using utf8_lines_nth [OF u il] by blast
  obtain rs re fin where rng: "ik_scrollback_calc_byte_range_for_rows U sb i w ?a (?b - ?a) = (rs, re, fin)"
    by (rule prod_cases3)
  have upt: "[i..<Suc el] = i # [Suc i..<Suc el]" using i by (simp add: upt_rec)
  have step: "render_lines U sb w sl so el eo [i..<Suc el] out
      = res_bind (res_bind (output_all out (map newline_to_eol (take (re - rs) (drop rs (line_bytes sb i)))))
          (\<lambda>out1. if fin then ik_output_buffer_append out1 eol else Inr out1))
          (render_lines U sb w sl so el eo [Suc i..<Suc el])"
    unfolding upt using rng i by (simp add: Let_def res_bind_assoc sb_rows_def)
  let ?E = "rows_before sb el + eo + 1"
  have "emits (render_lines U sb w sl so el eo [Suc i..<Suc el] out') out'
      (concat (map ((!) (all_rows U sb w)) [rows_before sb (Suc i)..<?E]))" if "ob_inv out'" for out'
    using Suc.hyps(1) [of "Suc i" out'] Suc.hyps(2) Suc.prems(1) i that by (simp del: upt_Suc)
  note rest = this
  have "rows_before sb (Suc i) \<le> rows_before sb el"
    unfolding rows_before_def by (intro sum_mono2) (use i in auto)
  then have "[rows_before sb i + ?a..<?E]
      = [rows_before sb i + ?a..<rows_before sb (Suc i)] @ [rows_before sb (Suc i)..<?E]"
    using ab(1) by (intro upt_split) (auto simp: rows_before_Suc)
  moreover have "map (row_text U sb w i) [?a..<?b]
      = map ((!) (all_rows U sb w)) [rows_before sb i + ?a..<rows_before sb (Suc i)]"
    using rows_slice [of i sb ?b U w ?a] il sb_reprD(2) [OF r] by (simp add: rows_before_Suc)
  ultimately show ?case
    unfolding step using emits_bind [OF render_line_emits [OF U r il l w ab Suc.prems(3) rng] rest] by simp
qed

subsection \<open>The contract\<close>

lemma laid_out_repr:
  assumes "sb_repr U sb lines" and "width > 0"
  shows "sb_repr U (laid_out sb width) lines" "sb_cached_width (laid_out sb width) = int width"
  using ensure_layout_repr [OF assms(1), of "int width"] assms(2)
  by (auto simp: laid_out_def returns_iff)

lemma total_rows:
  assumes "sb_repr U sb lines"
  shows "sb_total_physical_lines sb = rows_before sb (length lines)"
    "length (all_rows U sb w) = rows_before sb (length lines)"
proof -
  note d = sb_reprD [OF assms]
  have "length lines \<le> length (sb_layouts sb)" using d(1,2) by (simp add: sb_shape_def)
  then show "sb_total_physical_lines sb = rows_before sb (length lines)"
    using d(2,4) by (simp add: rows_before_def sb_rows_def sum_list_sum_nth atLeast0LessThan)
  show "length (all_rows U sb w) = rows_before sb (length lines)"
    using d(2) by (simp add: rows_before_def length_concat o_def interv_sum_list_conv_sum_set_nat atLeast0LessThan)
qed

lemma find_row_rows:
  assumes r: "sb_repr U sb lines" and row: "row < rows_before sb (length lines)"
  obtains i off where "ik_scrollback_find_logical_line_at_physical_row sb row = Inr (i, off)"
    "i < length lines" "off < sb_rows sb i" "rows_before sb i + off = row"
proof -
  let ?ls = "take (sb_count sb) (sb_layouts sb)"
  note d = sb_reprD [OF r]
  have c: "length ?ls = length lines" "length lines \<le> length (sb_layouts sb)"
    using d(1,2) by (simp_all add: sb_shape_def)
  have "row < sum_list (map ll_physical_lines ?ls)" using row total_rows(1) [OF r] d(4) by simp
  then obtain k off where k: "find_row ?ls row 0 0 = Inr (k, off)" "k < length ?ls"
    "off < ll_physical_lines (?ls ! k)" "sum_list (map ll_physical_lines (take k ?ls)) + off = row"
    using find_row_spec [of 0 row ?ls 0] by auto
  have "sum_list (map ll_physical_lines (take k ?ls)) = rows_before sb k"
    using k(2) c d(2)
    by (simp add: rows_before_def sb_rows_def sum_list_sum_nth atLeast0LessThan min_def)
  then show ?thesis
    using that [of k off] k c(1) d(2,4) row total_rows(1) [OF r]
    by (simp add: ik_scrollback_find_logical_line_at_physical_row_def sb_rows_def)
qed

lemma rows_before_mono: "i \<le> j \<Longrightarrow> rows_before sb i \<le> rows_before sb j"
  unfolding rows_before_def by (intro sum_mono2) auto

lemma scrollback_row_layer:
  assumes U: "utf8proc_ok U" and r0: "sb_repr U sb0 lines" and u: "utf8_lines lines" and width: "width > 0"
  shows "row_layer (ik_scrollback_layer_create U name sb0) width (scrollback_rows U sb0 width)"
proof
  define sb where "sb = laid_out sb0 width"
  have r: "sb_repr U sb lines" and w: "width = nat (sb_cached_width sb)"
    using laid_out_repr [OF r0 width] by (simp_all add: sb_def)
  have rows: "scrollback_rows U sb0 width = all_rows U sb width" by (simp only: scrollback_rows_def sb_def Let_def)
  have len: "length (all_rows U sb width) = rows_before sb (length lines)" by (rule total_rows(2) [OF r])
  show "ly_get_height (ik_scrollback_layer_create U name sb0) width = length (scrollback_rows U sb0 width)"
    unfolding rows len
    using total_rows(1) [OF r]
    by (simp add: ik_scrollback_layer_create_def ik_layer_create_def scrollback_get_height_def
        ik_scrollback_get_total_physical_lines_def sb_def)
  fix out n s
  assume out: "ob_inv out" and n: "0 < n \<or> scrollback_rows U sb0 width = []"
    and sn: "s + n \<le> length (scrollback_rows U sb0 width)"
  have render: "ly_render (ik_scrollback_layer_create U name sb0) = scrollback_render U sb0"
    by (simp add: ik_scrollback_layer_create_def ik_layer_create_def)
  have cnt: "ik_scrollback_get_line_count sb = length lines"
    using sb_reprD(2) [OF r] by (simp add: ik_scrollback_get_line_count_def)
  show "emits (ly_render (ik_scrollback_layer_create U name sb0) out width s n) out
      (concat (take n (drop s (scrollback_rows U sb0 width))))"
  proof (cases "n = 0")
    case True
    then show ?thesis using emits_nothing [OF out] by (simp add: render scrollback_render_def Let_def)
  next
    case False
    have sn': "s + n \<le> rows_before sb (length lines)" using sn rows len by simp
    have b: "s < rows_before sb (length lines)" "s + n - 1 < rows_before sb (length lines)"
      using sn' False by linarith+
    obtain sl so where sl: "ik_scrollback_find_logical_line_at_physical_row sb s = Inr (sl, so)"
      "sl < length lines" "so < sb_rows sb sl" "rows_before sb sl + so = s"
      by (rule find_row_rows [OF r b(1)])
    obtain el eo where el: "ik_scrollback_find_logical_line_at_physical_row sb (s + n - 1) = Inr (el, eo)"
      "el < length lines" "eo < sb_rows sb el" "rows_before sb el + eo = s + n - 1"
      by (rule find_row_rows [OF r b(2)])
    have le: "sl \<le> el"
      using rows_before_mono [of "Suc el" sl sb] sl(4) el(3,4) False by (fastforce simp: rows_before_Suc)
    have eq: "sl = el \<Longrightarrow> so \<le> eo" using sl(4) el(4) False by auto
    have "scrollback_render U sb0 out width s n
        = render_lines U sb width sl so el eo [sl..<Suc el] out"
      using sl(1,2) el(1,2) False cnt by (auto simp: scrollback_render_def sb_def [symmetric] Let_def simp del: upt_Suc)
    moreover have "take n (drop s (all_rows U sb width)) = map ((!) (all_rows U sb width)) [s..<s + n]"
      using sn' len by (intro nth_equalityI) simp_all
    moreover have "rows_before sb el + eo + 1 = s + n" using el(4) False by linarith
    ultimately show ?thesis
      using render_lines_emits [OF U r u w el(2,3) sl(3) eq order_refl le out] sl(4)
      by (simp add: render rows)
  qed
qed

subsection \<open>Properties\<close>

lemma cake_render_rows:
  assumes "list_all2 (\<lambda>l r. row_layer l width r) (lc_layers cake) rss" and "ob_inv out" and "width > 0"
    and "lc_viewport_height cake > 0"
  shows "ik_layer_cake_get_total_height cake width = length (visible_rows (lc_layers cake) rss)
    \<and> emits (ik_layer_cake_render cake out width) out
        (concat (take (lc_viewport_height cake) (drop (lc_viewport_row cake) (visible_rows (lc_layers cake) rss))))"
  using cake_loop_rows [OF _ assms(1,2), of "lc_viewport_row cake" "lc_viewport_row cake + lc_viewport_height cake" 0]
    total_height_rows [OF assms(1)] assms(3,4)
  by (simp add: ik_layer_cake_render_def ik_layer_cake_get_total_height_def)

text \<open>C26. The screen above the input: for every scroll position and size of the viewport, rendering the
  cake of the banner, the scrollback, the spinner and the separator appends exactly the rows of the
  viewport out of the rows of the visible layers, and the total height is their number.\<close>

theorem screen_viewport:
  fixes U :: utf8proc and sb :: ik_scrollback and width height vrow :: nat and out :: ik_output_buffer
    and banner_visible separator_visible :: bool and spin :: ik_spinner_state
    and ctx :: ik_separator_nav_context and debug :: "byte list"
  assumes "utf8proc_ok U" and "sb_repr U sb lines" and "utf8_lines lines" and "width > 0" and "height > 0"
    and "ob_inv out"
  defines "layers \<equiv> [ik_banner_layer_create ''banner'' banner_visible,
      ik_scrollback_layer_create U ''scrollback'' sb, ik_spinner_layer_create ''spinner'' spin,
      ik_separator_layer_create U ''separator'' separator_visible ctx debug]"
  defines "cake \<equiv> \<lparr>lc_layers = layers, lc_layer_capacity = 4, lc_viewport_row = vrow, lc_viewport_height = height\<rparr>"
  defines "rows \<equiv> (if banner_visible then map (\<lambda>k. concat (banner_row width k)) [0..<6] else [])
      @ scrollback_rows U sb width
      @ (if sp_visible spin then [ik_spinner_get_frame spin @ bytes_of '' Waiting for response...'' @ eol] else [])
      @ (if separator_visible then [separator_row U ctx debug width] else [])"
  shows "ik_layer_cake_get_total_height cake width = length rows
    \<and> returns (ik_layer_cake_render cake out width)
        (\<lambda>out'. contents out' = contents out @ concat (take height (drop vrow rows)))"
proof -
  let ?rss = "[map (\<lambda>k. concat (banner_row width k)) [0..<6], scrollback_rows U sb width,
      [ik_spinner_get_frame spin @ bytes_of '' Waiting for response...'' @ eol], [separator_row U ctx debug width]]"
  have "list_all2 (\<lambda>l r. row_layer l width r) layers ?rss"
    using scrollback_row_layer [OF assms(1-4)]
      banner.row_layer_axioms spinner.row_layer_axioms separator.row_layer_axioms
    by (simp add: layers_def)
  moreover have "visible_rows layers ?rss = rows"
    by (simp add: layers_def rows_def ik_banner_layer_create_def ik_scrollback_layer_create_def
        ik_spinner_layer_create_def ik_separator_layer_create_def ik_layer_create_def)
  ultimately show ?thesis
    using cake_render_rows [of width cake ?rss out] assms(4-6)
    by (auto simp: cake_def emits_def elim!: returns_mono)
qed

text \<open>The status layer does not honour the range of rows it is asked for: whatever the first row and
  the number of rows, it appends both of its rows, so that a viewport that cuts it receives more rows
  than it has room for.\<close>

theorem status_ignores_range:
  assumes "ob_inv out"
  shows "returns (ly_render (ik_status_layer_create name visible None level) out width start_row row_count)
    (\<lambda>out'. contents out' = contents out @ concat (replicate width BOX_LIGHT_HORIZONTAL) @ eol
       @ [0xF0, 0x9F, 0xA4, 0x96, 0x20] @ fg 153 @ bytes_of ''(no model)'' @ ansi_reset @ eol)"
proof -
  have "bytes_of '' '' = [0x20]" by (simp add: bytes_of_def)
  then show ?thesis
    using output_all_emits [OF assms, of "replicate width BOX_LIGHT_HORIZONTAL @ [eol, [0xF0, 0x9F, 0xA4, 0x96],
        bytes_of '' ''] @ [fg 153, bytes_of ''(no model)'', ansi_reset] @ [eol]"]
    by (auto simp: ik_status_layer_create_def ik_layer_create_def status_render_def emits_def elim!: returns_mono)
qed

definition sample_output :: ik_output_buffer where
  "sample_output = \<lparr>ob_data = [0, 0], ob_size = 0, ob_capacity = 2\<rparr>"

lemma sample_output_inv: "ob_inv sample_output" "contents sample_output = []"
  by (simp_all add: sample_output_def ob_inv_def contents_def)

definition sample_nav :: ik_separator_nav_context where
  "sample_nav = \<lparr>nav_parent_uuid = None, nav_prev_sibling_uuid = None, nav_current_uuid = None,
      nav_next_sibling_uuid = None, nav_child_count = 0\<rparr>"

theorem screen_viewport_witness:
  "returns (ik_layer_cake_render
       \<lparr>lc_layers = [ik_banner_layer_create ''banner'' False,
           ik_scrollback_layer_create ref_utf8proc ''scrollback'' empty_scrollback,
           ik_spinner_layer_create ''spinner'' \<lparr>sp_frame_index = 3, sp_visible = True, sp_last_advance_ms = 0\<rparr>,
           ik_separator_layer_create ref_utf8proc ''separator'' True sample_nav []],
        lc_layer_capacity = 4, lc_viewport_row = 0, lc_viewport_height = 1\<rparr> sample_output 4)
     (\<lambda>out'. contents out' = [0xE2, 0xA0, 0xB8] @ bytes_of '' Waiting for response...'' @ eol)"
proof -
  have sb: "scrollback_rows ref_utf8proc empty_scrollback 4 = []" by code_simp
  have "utf8_lines []" by (simp add: utf8_lines_def)
  from screen_viewport [OF ref_utf8proc_ok empty_scrollback_repr this, where height = 1 and width = 4
      and vrow = 0 and banner_visible = False and separator_visible = True and ctx = sample_nav and debug = "[]"
      and spin = "\<lparr>sp_frame_index = 3, sp_visible = True, sp_last_advance_ms = 0\<rparr>", OF _ _ sample_output_inv(1)]
  show ?thesis
    by (simp add: sb sample_output_inv(2) ik_spinner_get_frame_def SPINNER_FRAMES_def)
qed

theorem status_ignores_range_witness:
  "returns (ly_render (ik_status_layer_create ''status'' True None 0) sample_output 1 1 1)
    (\<lambda>out'. contents out' = BOX_LIGHT_HORIZONTAL @ eol
       @ [0xF0, 0x9F, 0xA4, 0x96, 0x20] @ fg 153 @ bytes_of ''(no model)'' @ ansi_reset @ eol)"
  using status_ignores_range [OF sample_output_inv(1), of "''status''" True 0 1 1 1]
  by (simp add: sample_output_inv(2))

end
