(* ===== verification/Ik_Json.thy ===== *)
theory Ik_Json
  imports Ik_Prelude Complex_Main
begin

text \<open>
  JSON documents as the program sees them through yyjson.

  The reader of yyjson is a parameter of the definitions that use it: a function from text to a document,
  \<open>None\<close> where it fails. The accessors below are those the program calls; each yields \<open>None\<close> (\<^verbatim>\<open>NULL\<close>)
  for a value of another kind. A string holds its bytes; code that takes it as a C string reads it up to
  the first NUL.
\<close>

datatype json =
    JNull | JBool bool | JInt int | JReal real | JStr "byte list" | JArr "json list"
  | JObj "(byte list \<times> json) list"

type_synonym yyjson = "cstr \<Rightarrow> json option"

fun obj_get :: "json \<Rightarrow> string \<Rightarrow> json option" where
  "obj_get (JObj members) key = map_of members (bytes_of key)"
| "obj_get _ key = None"

fun is_obj :: "json \<Rightarrow> bool" where
  "is_obj (JObj members) = True"
| "is_obj _ = False"

text \<open>The C string, or the integer, of a member that is there and of that kind.\<close>

fun str_of :: "json option \<Rightarrow> cstr option" where
  "str_of (Some (JStr s)) = Some (c_string s)"
| "str_of _ = None"

fun int_of :: "json option \<Rightarrow> int option" where
  "int_of (Some (JInt i)) = Some i"
| "int_of _ = None"

text \<open>The conversion to \<^verbatim>\<open>int32_t\<close>.\<close>

definition to_int32 :: "int \<Rightarrow> int" where
  "to_int32 v = sint (word_of_int v :: 32 word)"

lemma to_int32_range: "in_int32 (to_int32 v)"
  using sint_range_size [of "word_of_int v :: 32 word"] by (simp add: to_int32_def in_int32_def word_size)

end
