(* ===== verification/Ik_Event_Render.thy ===== *)
theory Ik_Event_Render
  imports Ik_Json Ik_Scrollback_Rows
begin

text \<open>
  Rendering of events into the scrollback: apps/ikigai/event_render.c and output_style.h.

  Whether colours are on is the argument \<open>colors\<close>, the reader of JSON the argument \<open>J\<close>, and the two
  functions of event_render_format.c that shorten the text of a tool call and of its result are the
  arguments \<open>fc\<close> and \<open>fr\<close>. Texts are C strings.
\<close>

subsection \<open>output_style.h\<close>

datatype ik_output_category =
    IK_OUTPUT_USER_INPUT | IK_OUTPUT_MODEL_TEXT | IK_OUTPUT_TOOL_REQUEST | IK_OUTPUT_TOOL_RESPONSE
  | IK_OUTPUT_WARNING | IK_OUTPUT_SLASH_CMD | IK_OUTPUT_SLASH_OUTPUT | IK_OUTPUT_SYSTEM_PROMPT
  | IK_OUTPUT_CANCELLED | IK_OUTPUT_COUNT

fun ik_output_prefix :: "ik_output_category \<Rightarrow> cstr option" where
  "ik_output_prefix IK_OUTPUT_USER_INPUT = Some [0xE2, 0x9D, 0xAF]"
| "ik_output_prefix IK_OUTPUT_MODEL_TEXT = Some [0xE2, 0x97, 0x8F]"
| "ik_output_prefix IK_OUTPUT_TOOL_REQUEST = Some [0xE2, 0x86, 0x92]"
| "ik_output_prefix IK_OUTPUT_TOOL_RESPONSE = Some [0xE2, 0x86, 0x90]"
| "ik_output_prefix IK_OUTPUT_WARNING = Some [0xE2, 0x9A, 0xA0]"
| "ik_output_prefix IK_OUTPUT_CANCELLED = Some [0xE2, 0x9C, 0x97]"
| "ik_output_prefix _ = None"

fun ik_output_color :: "ik_output_category \<Rightarrow> int" where
  "ik_output_color IK_OUTPUT_TOOL_REQUEST = 242"
| "ik_output_color IK_OUTPUT_TOOL_RESPONSE = 242"
| "ik_output_color IK_OUTPUT_WARNING = 179"
| "ik_output_color IK_OUTPUT_SLASH_CMD = 242"
| "ik_output_color IK_OUTPUT_SLASH_OUTPUT = 242"
| "ik_output_color IK_OUTPUT_SYSTEM_PROMPT = 153"
| "ik_output_color IK_OUTPUT_CANCELLED = 242"
| "ik_output_color _ = - 1"

text \<open>The colour of a category as a byte, 0 for the default colour.\<close>

definition style_color :: "ik_output_category \<Rightarrow> byte" where
  "style_color cat = (let color_code = ik_output_color cat in if color_code \<ge> 0 then word_of_int color_code else 0)"

subsection \<open>scrollback_utils.c\<close>

definition ik_scrollback_format_warning :: "bool \<Rightarrow> cstr \<Rightarrow> cstr" where
  "ik_scrollback_format_warning colors t =
     (let prefix = the (ik_output_prefix IK_OUTPUT_WARNING); color_code = ik_output_color IK_OUTPUT_WARNING
      in if \<not> colors \<or> color_code < 0 then prefix @ [0x20] @ t
         else fg (word_of_int color_code) @ prefix @ [0x20] @ t @ ansi_reset)"

subsection \<open>event_render.c\<close>

text \<open>The loop over the lines of a text with newlines; the last line is not styled when it is empty.\<close>

fun split_line :: "cstr \<Rightarrow> (cstr \<times> cstr) option" where
  "split_line [] = None"
| "split_line (c # cs) =
     (if c = 10 then Some ([], cs) else map_option (\<lambda>(l, r). (c # l, r)) (split_line cs))"

lemma split_line_length: "split_line s = Some (l, r) \<Longrightarrow> length r < length s"
  by (induction s arbitrary: l r) (auto split: if_splits simp: le_SucI less_SucI)

function style_loop :: "cstr \<Rightarrow> cstr \<Rightarrow> cstr \<Rightarrow> cstr" where
  "style_loop color_seq line_start result =
     (case split_line line_start of
        Some (line, rest) \<Rightarrow> style_loop color_seq rest (result @ color_seq @ line @ ansi_reset @ [10])
      | None \<Rightarrow> if line_start \<noteq> [] then result @ color_seq @ line_start @ ansi_reset else result)"
  by pat_completeness auto
termination
  by (relation "measure (\<lambda>(q, s, r). length s)") (auto dest: split_line_length)

declare style_loop.simps [simp del]

definition apply_style :: "bool \<Rightarrow> cstr \<Rightarrow> byte \<Rightarrow> cstr" where
  "apply_style colors content color =
     (if \<not> colors \<or> color = 0 then content
      else if split_line content = None then fg color @ content @ ansi_reset
      else style_loop (fg color) content [])"

text \<open>A non-empty string under a key of the document, as \<^verbatim>\<open>extract_label_from_json\<close> finds it.\<close>

definition extract_str :: "yyjson \<Rightarrow> string \<Rightarrow> cstr option \<Rightarrow> cstr option" where
  "extract_str J key data_json =
     (case data_json of None \<Rightarrow> None
      | Some d \<Rightarrow> (case J d of None \<Rightarrow> None
         | Some top_val \<Rightarrow> (case str_of (obj_get top_val key) of None \<Rightarrow> None
            | Some s \<Rightarrow> if s \<noteq> [] then Some s else None)))"

definition extract_label_from_json :: "yyjson \<Rightarrow> cstr option \<Rightarrow> cstr option" where
  "extract_label_from_json J data_json = extract_str J ''label'' data_json"

text \<open>A line and the blank line after it.\<close>

definition append_spaced :: "utf8proc \<Rightarrow> ik_scrollback \<Rightarrow> cstr \<Rightarrow> ik_scrollback res" where
  "append_spaced U sb t =
     res_bind (ik_scrollback_append_line U sb t) (\<lambda>sb'. ik_scrollback_append_line U sb' [])"

definition render_mark_event :: "utf8proc \<Rightarrow> yyjson \<Rightarrow> ik_scrollback \<Rightarrow> cstr option \<Rightarrow> ik_scrollback res" where
  "render_mark_event U J sb data_json =
     append_spaced U sb
       (case extract_label_from_json J data_json of
          Some label \<Rightarrow> bytes_of ''/mark '' @ label | None \<Rightarrow> bytes_of ''/mark'')"

definition render_command_event ::
  "utf8proc \<Rightarrow> yyjson \<Rightarrow> bool \<Rightarrow> ik_scrollback \<Rightarrow> cstr option \<Rightarrow> cstr option \<Rightarrow> ik_scrollback res" where
  "render_command_event U J colors sb content data_json =
     res_bind (case extract_str J ''echo'' data_json of
                 None \<Rightarrow> Inr sb
               | Some echo \<Rightarrow> append_spaced U sb (apply_style colors echo (style_color IK_OUTPUT_SLASH_CMD)))
       (\<lambda>sb'. let trimmed = ik_scrollback_trim_trailing content
              in if trimmed \<noteq> [] then append_spaced U sb' (apply_style colors trimmed (style_color IK_OUTPUT_SLASH_OUTPUT))
                 else Inr sb')"

text \<open>Decimal digits of an \<^verbatim>\<open>int32_t\<close>, as \<^verbatim>\<open>%d\<close> prints them.\<close>

fun dec_digits :: "nat \<Rightarrow> cstr" where
  "dec_digits n = (if n < 10 then [word_of_nat (48 + n)] else dec_digits (n div 10) @ [word_of_nat (48 + n mod 10)])"

declare dec_digits.simps [simp del]

definition dec_int :: "int \<Rightarrow> cstr" where
  "dec_int i = (if i < 0 then 0x2D # dec_digits (nat (- i)) else dec_digits (nat i))"

definition token_value :: "json \<Rightarrow> string \<Rightarrow> int" where
  "token_value top_val key = (case int_of (obj_get top_val key) of Some v \<Rightarrow> to_int32 v | None \<Rightarrow> 0)"

definition token_line :: "int \<Rightarrow> int \<Rightarrow> int \<Rightarrow> int \<Rightarrow> cstr res" where
  "token_line in_tok out_tok think_tok total_tok =
     (if think_tok > 0 then
        Inr (take 127 (bytes_of ''Tokens: '' @ dec_int in_tok @ bytes_of '' in + '' @ dec_int out_tok
          @ bytes_of '' out + '' @ dec_int think_tok @ bytes_of '' thinking = '' @ dec_int total_tok))
      else res_bind (add32 in_tok out_tok) (\<lambda>sum2.
        Inr (take 127 (bytes_of ''Tokens: '' @ dec_int in_tok @ bytes_of '' in + '' @ dec_int out_tok
          @ bytes_of '' out = '' @ dec_int sum2))))"

definition render_token_usage ::
  "utf8proc \<Rightarrow> yyjson \<Rightarrow> bool \<Rightarrow> ik_scrollback \<Rightarrow> cstr option \<Rightarrow> ik_scrollback res" where
  "render_token_usage U J colors sb data_json =
     (case data_json of None \<Rightarrow> Inr sb
      | Some d \<Rightarrow> (case J d of None \<Rightarrow> Inr sb
         | Some top_val \<Rightarrow>
             (let in_tok = token_value top_val ''input_tokens''; out_tok = token_value top_val ''output_tokens'';
                  think_tok = token_value top_val ''thinking_tokens''
              in res_bind (add32 in_tok out_tok) (\<lambda>sum2. res_bind (add32 sum2 think_tok) (\<lambda>total_tok.
                   if total_tok = 0 then Inr sb
                   else res_bind (token_line in_tok out_tok think_tok total_tok) (\<lambda>l.
                     ik_scrollback_append_line U sb (apply_style colors l 242)))))))"

definition render_content_event ::
  "utf8proc \<Rightarrow> bool \<Rightarrow> ik_scrollback \<Rightarrow> cstr option \<Rightarrow> byte \<Rightarrow> cstr option \<Rightarrow> ik_scrollback res" where
  "render_content_event U colors sb content color prefix =
     (case content of None \<Rightarrow> Inr sb
      | Some c0 \<Rightarrow>
         (if c0 = [] then Inr sb
          else (let c = (case prefix of None \<Rightarrow> c0 | Some p \<Rightarrow> p @ [0x20] @ c0);
                    trimmed = ik_scrollback_trim_trailing (Some c)
                in if trimmed = [] then Inr sb else append_spaced U sb (apply_style colors trimmed color))))"

definition event_style :: "string \<Rightarrow> bool \<Rightarrow> byte \<times> cstr option" where
  "event_style kind interrupted =
     (if interrupted \<and> (kind = ''user'' \<or> kind = ''tool_call'' \<or> kind = ''tool_result'')
      then (style_color IK_OUTPUT_CANCELLED, ik_output_prefix IK_OUTPUT_CANCELLED)
      else if kind = ''assistant'' then (249, ik_output_prefix IK_OUTPUT_MODEL_TEXT)
      else if kind = ''user'' then (0, ik_output_prefix IK_OUTPUT_USER_INPUT)
      else if kind = ''tool_call'' then (style_color IK_OUTPUT_TOOL_REQUEST, None)
      else if kind = ''tool_result'' then (style_color IK_OUTPUT_TOOL_RESPONSE, None)
      else if kind = ''fork'' then (style_color IK_OUTPUT_SLASH_OUTPUT, None)
      else (0, None))"

type_synonym formatter = "cstr option \<Rightarrow> cstr option \<Rightarrow> cstr option"

definition ik_event_render ::
  "utf8proc \<Rightarrow> yyjson \<Rightarrow> bool \<Rightarrow> formatter \<Rightarrow> formatter \<Rightarrow> ik_scrollback \<Rightarrow> string \<Rightarrow> cstr option \<Rightarrow> cstr option
   \<Rightarrow> bool \<Rightarrow> ik_scrollback res" where
  "ik_event_render U J colors fc fr sb kind content data_json interrupted =
     (case event_style kind interrupted of (color, prefix) \<Rightarrow>
        if kind = ''assistant'' \<or> kind = ''user'' \<or> kind = ''fork''
          then render_content_event U colors sb content color prefix
        else if kind = ''tool_call'' then render_content_event U colors sb (fc content data_json) color prefix
        else if kind = ''tool_result'' then render_content_event U colors sb (fr content data_json) color prefix
        else if kind = ''command'' then render_command_event U J colors sb content data_json
        else if kind = ''mark'' then render_mark_event U J sb data_json
        else if kind = ''usage'' then
          res_bind (render_token_usage U J colors sb data_json) (\<lambda>sb'. ik_scrollback_append_line U sb' [])
        else if kind = ''system'' \<or> kind = ''rewind'' \<or> kind = ''clear'' \<or> kind = ''agent_killed'' then Inr sb
        else Inl (Err INVALID_ARG))"

subsection \<open>Colour and layout\<close>

text \<open>The layout of a text is that of its cells without the escape sequences.\<close>

definition visible :: "cell list \<Rightarrow> cell list" where
  "visible cs = filter (\<lambda>c. \<not> is_escape c) cs"

lemma seg_widths_visible: "seg_widths U a (visible cs) = seg_widths U a cs"
proof (induction cs arbitrary: a)
  case (Cons c cs)
  then show ?case by (cases c) (simp_all add: visible_def)
qed (simp add: visible_def)

lemma ends_visible: "fold ends_step (visible cs) e = fold ends_step cs e"
proof (induction cs arbitrary: e)
  case (Cons c cs)
  then show ?case by (cases c) (simp_all add: visible_def)
qed (simp add: visible_def)

lemma content_visible: "(\<exists>c\<in>set (visible cs). has_content c) \<longleftrightarrow> (\<exists>c\<in>set cs. has_content c)"
  by (force simp: visible_def elim: is_escape.elims)

lemma layout_visible:
  assumes "visible (cells U t 0) = visible (cells U t' 0)" and "w > 0"
  shows "ik_scrollback_calculate_layout U t w = ik_scrollback_calculate_layout U t' w"
proof -
  have "widths U t = widths U t'" using assms(1) by (metis widths_def seg_widths_visible)
  moreover have "drops_last_row U t = drops_last_row U t'"
    unfolding drops_last_row_def using calculation assms(1) by (metis ends_visible content_visible)
  ultimately show ?thesis using assms(2) by (simp add: calculate_layout_spec append_rows_def reflow_rows_def)
qed

lemma visible_escape:
  assumes "ik_ansi_skip_csi (e @ ts) 0 = length e" and "e \<noteq> []"
  shows "visible (cells U (e @ ts) 0) = visible (cells U ts 0)"
  using assms cells_shift [of U e ts 0] by (subst cells.simps) (simp add: Let_def visible_def)

lemma fg_text: "fg c = fg_256_text c"
proof -
  have "length (fg_256_text c) < 12" by (simp add: fg_256_text_def dec_u8_def Let_def)
  then show ?thesis by (simp add: fg_def ik_ansi_fg_256_def Let_def)
qed

lemma fg_nonempty: "fg c \<noteq> []"
  by (simp add: fg_text fg_256_text_def)

lemma visible_fg: "visible (cells U (fg c @ ts) 0) = visible (cells U ts 0)"
  by (intro visible_escape) (simp_all add: fg_nonempty, simp add: fg_text skip_fg_256)

lemma visible_reset: "visible (cells U (ansi_reset @ ts) 0) = visible (cells U ts 0)"
proof -
  have "ik_ansi_skip_csi (ansi_reset @ ts) 0 = 4"
    by (simp add: ansi_reset_def ik_ansi_skip_csi_def csi_scan.simps)
  then show ?thesis by (intro visible_escape) (simp_all add: ansi_reset_def)
qed

text \<open>Text without escape characters is read code point by code point.\<close>

definition glyphs :: "32 word list \<Rightarrow> cell list" where
  "glyphs l = map (\<lambda>c. Glyph (length (encode_utf8 c)) c) l"

lemma cells_plain:
  assumes U: "utf8proc_ok U"
  shows "scalars l \<Longrightarrow> 27 \<notin> set l \<Longrightarrow> cells U (utf8 l @ ts) 0 = glyphs l @ cells U ts 0"
proof (induction l)
  case (Cons c l)
  have c: "is_scalar c" "c \<noteq> 27" using Cons.prems by auto
  let ?e = "encode_utf8 c"
  have pos: "0 < length ?e" by (rule length_encode_pos [OF c(1)])
  have "?e ! 0 \<noteq> 0x1B"
  proof
    assume a: "?e ! 0 = 0x1B"
    then have "0x1B \<in> set ?e" using pos by (metis nth_mem)
    then have "unat c = 27" using ascii_in_encoding [of "0x1B" c] by simp
    then show False using c(2) by (simp add: word_unat_eq_iff)
  qed
  then have "ik_ansi_skip_csi (?e @ utf8 l @ ts) 0 = 0"
    using pos by (simp add: ik_ansi_skip_csi_def nth_append)
  moreover have "cells U (?e @ utf8 l @ ts) (length ?e) = cells U (utf8 l @ ts) 0"
    using cells_shift [of U ?e "utf8 l @ ts" 0] by simp
  ultimately show ?case
    using Cons pos by (simp add: glyphs_def, subst cells.simps) (simp add: iterate_scalar [OF U c(1)])
qed (simp add: glyphs_def)

lemma style_loop_acc: "style_loop q s r = r @ style_loop q s []"
proof (induction s arbitrary: r rule: measure_induct_rule [of length])
  case (less s)
  show ?case
  proof (cases "split_line s")
    case None
    then show ?thesis by (subst (1 2) style_loop.simps) simp
  next
    case (Some p)
    obtain l t where p: "p = (l, t)" by (cases p)
    have t: "style_loop q t r' = r' @ style_loop q t []" for r'
      using less [of t r'] split_line_length [of s l t] Some p by simp
    have u: "style_loop q s r' = style_loop q t (r' @ q @ l @ ansi_reset @ [10])" for r'
      using Some p by (subst style_loop.simps) simp
    show ?thesis unfolding u t [of "r @ q @ l @ ansi_reset @ [10]"] t [of "[] @ q @ l @ ansi_reset @ [10]"] by simp
  qed
qed

lemma split_line_no_newline: "10 \<notin> set e \<Longrightarrow> split_line (e @ s) = map_option (\<lambda>(l, r). (e @ l, r)) (split_line s)"
proof (induction e)
  case Nil
  then show ?case by (cases "split_line s") auto
next
  case (Cons b e)
  then show ?case by (cases "split_line s") auto
qed

lemma split_line_utf8:
  "split_line (utf8 l) = None \<and> 10 \<notin> set l
   \<or> (\<exists>a b. l = a @ 10 # b \<and> split_line (utf8 l) = Some (utf8 a, utf8 b))"
proof (induction l)
  case (Cons c l)
  show ?case
  proof (cases "c = 10")
    case True
    moreover have "encode_utf8 10 = [10]" by code_simp
    ultimately have "c # l = [] @ 10 # l \<and> split_line (utf8 (c # l)) = Some (utf8 [], utf8 l)" by simp
    then show ?thesis by blast
  next
    case False
    have e: "10 \<notin> set (encode_utf8 c)" using utf8_newline [of "[c]"] False by simp
    show ?thesis
    proof (cases "split_line (utf8 l)")
      case None
      then show ?thesis using Cons.IH False split_line_no_newline [OF e, of "utf8 l"] by auto
    next
      case (Some p)
      with Cons.IH obtain a b where ab: "l = a @ 10 # b" "split_line (utf8 l) = Some (utf8 a, utf8 b)" by auto
      then have "c # l = (c # a) @ 10 # b \<and> split_line (utf8 (c # l)) = Some (utf8 (c # a), utf8 b)"
        using split_line_no_newline [OF e, of "utf8 l"] by simp
      then show ?thesis by blast
    qed
  qed
qed simp

lemma visible_Nil [simp]: "visible [] = []"
  by (simp add: visible_def)

lemma visible_Glyph [simp]: "visible (Glyph n c # cs) = Glyph n c # visible cs"
  by (simp add: visible_def)

lemma visible_append: "visible (a @ b) = visible a @ visible b"
  by (simp add: visible_def)

lemma visible_glyphs: "visible (glyphs l) = glyphs l"
  by (simp add: visible_def glyphs_def filter_id_conv)

text \<open>One styled line.\<close>

lemma visible_styled:
  assumes "utf8proc_ok U" and "scalars l" and "27 \<notin> set l"
  shows "visible (cells U (fg c @ utf8 l @ ansi_reset @ ts) 0) = glyphs l @ visible (cells U ts 0)"
  using assms by (simp add: visible_fg cells_plain visible_append visible_glyphs visible_reset)

lemma visible_style_loop:
  assumes U: "utf8proc_ok U"
  shows "scalars l \<Longrightarrow> 27 \<notin> set l \<Longrightarrow> visible (cells U (style_loop (fg c) (utf8 l) []) 0) = glyphs l"
proof (induction l rule: measure_induct_rule [of length])
  case (less l)
  have e10: "utf8 [10] = [10]" by code_simp
  consider "split_line (utf8 l) = None" | a b where "l = a @ 10 # b" "split_line (utf8 l) = Some (utf8 a, utf8 b)"
    using split_line_utf8 [of l] by (elim disjE exE conjE) simp_all
  then show ?case
  proof cases
    case 1
    then have "style_loop (fg c) (utf8 l) [] = (if utf8 l \<noteq> [] then fg c @ utf8 l @ ansi_reset @ [] else [])"
      by (subst style_loop.simps) simp
    moreover have "l = []" if "utf8 l = []" using that less.prems(1) by simp
    ultimately show ?thesis
      using visible_styled [OF U less.prems, of c "[]"] by (auto simp: visible_def glyphs_def)
  next
    case 2
    have sc: "scalars a" "27 \<notin> set a" "scalars b" "27 \<notin> set b" "scalars [10]" using less.prems 2(1) by auto
    have "style_loop (fg c) (utf8 l) [] = fg c @ utf8 a @ ansi_reset @ utf8 [10] @ style_loop (fg c) (utf8 b) []"
      unfolding e10 using 2(2) by (subst style_loop.simps, subst style_loop_acc) simp
    then show ?thesis
      using visible_styled [OF U sc(1,2), of c "utf8 [10] @ style_loop (fg c) (utf8 b) []"]
        cells_plain [OF U sc(5), of "style_loop (fg c) (utf8 b) []"] less.IH [of b] sc(3,4) 2(1)
      by (simp add: visible_append visible_glyphs glyphs_def del: utf8_simps)
  qed
qed

lemma visible_apply_style:
  assumes "utf8proc_ok U" and "scalars l" and "27 \<notin> set l"
  shows "visible (cells U (apply_style colors (utf8 l) color) 0) = visible (cells U (utf8 l) 0)"
proof -
  have p: "visible (cells U (utf8 l) 0) = glyphs l"
    using cells_plain [OF assms, of "[]"] by (simp add: visible_glyphs)
  show ?thesis
    using visible_style_loop [OF assms, of color] visible_styled [OF assms, of color "[]"]
    by (simp add: p apply_style_def)
qed

subsection \<open>Theorems\<close>

text \<open>Colour does not change the layout: a text without escape characters of its own, styled line by
  line in any colour, is laid out exactly as the plain text, with the same display width, rows, newlines
  and segment widths, at every width of the terminal.\<close>

theorem styled_layout:
  assumes "utf8proc_ok U" and "scalars l" and "27 \<notin> set l" and "w > 0"
  shows "ik_scrollback_calculate_layout U (apply_style colors (utf8 l) color) w
    = ik_scrollback_calculate_layout U (utf8 l) w"
  by (rule layout_visible [OF visible_apply_style [OF assms(1-3)] assms(4)])

theorem styled_layout_witness:
  "ik_scrollback_calculate_layout ref_utf8proc (apply_style True (utf8 [97, 10, 98]) 242) 80
   = ik_scrollback_calculate_layout ref_utf8proc (utf8 [97, 10, 98]) 80"
  by (rule styled_layout [OF ref_utf8proc_ok]) (simp_all add: is_scalar_def)

end
