(* ===== verification/Ik_Array.thy ===== *)
theory Ik_Array
  imports Ik_Prelude
begin

text \<open>
  The expandable array of apps/ikigai/array.c and its byte instance apps/ikigai/byte_array.c.

  The struct \<^verbatim>\<open>ik_array_t\<close> is the record \<open>ik_array\<close>. Its data block is a list of cells, one per
  element; \<open>None\<close> is a cell that has been allocated and not written yet, and the empty list is
  the \<^verbatim>\<open>NULL\<close> pointer of an array that has not been allocated (\<open>arr_capacity = 0\<close>). Elements are
  moved as wholes, so byte offsets \<^verbatim>\<open>index * element_size\<close> of the code are cell indices here.
  Sizes are natural numbers: the doubling of the capacity wraps around at \<open>2^64\<close> only for a block
  that no allocator hands out; \<open>array_inv\<close> records the exact shape of the capacities.

  \<open>array_inv\<close> is the representation invariant and \<open>elems\<close> the abstraction to lists. Every
  operation keeps the invariant, stays inside of the block and acts on \<open>elems\<close> as the
  corresponding list operation; the interpretations \<open>arr\<close> and \<open>bytes\<close> hand these laws to clients.
\<close>

record 'e ik_array =
  arr_data :: "'e option list"
  arr_element_size :: nat
  arr_size :: nat
  arr_capacity :: nat
  arr_increment :: nat

subsection \<open>Operations\<close>

definition ik_array_create :: "nat \<Rightarrow> nat \<Rightarrow> 'e ik_array res" where
  "ik_array_create element_size increment =
     (if element_size = 0 then Inl (Err INVALID_ARG)
      else if increment = 0 then Inl (Err INVALID_ARG)
      else Inr \<lparr>arr_data = [], arr_element_size = element_size, arr_size = 0,
                arr_capacity = 0, arr_increment = increment\<rparr>)"

definition grow_array :: "'e ik_array \<Rightarrow> 'e ik_array" where
  "grow_array a =
     (let new_capacity = (if arr_capacity a = 0 then arr_increment a else arr_capacity a * 2)
      in a\<lparr>arr_data := take new_capacity (arr_data a)
                        @ replicate (new_capacity - length (arr_data a)) None,
           arr_capacity := new_capacity\<rparr>)"

definition ensure_room :: "'e ik_array \<Rightarrow> 'e ik_array" where
  "ensure_room a = (if arr_size a \<ge> arr_capacity a then grow_array a else a)"

definition ik_array_append :: "'e ik_array \<Rightarrow> 'e \<Rightarrow> 'e ik_array res" where
  "ik_array_append a0 element =
     (let a = ensure_room a0
      in res_bind (store (arr_data a) (arr_size a) (Some element))
           (\<lambda>d. Inr (a\<lparr>arr_data := d, arr_size := arr_size a + 1\<rparr>)))"

definition ik_array_insert :: "'e ik_array \<Rightarrow> nat \<Rightarrow> 'e \<Rightarrow> 'e ik_array res" where
  "ik_array_insert a0 index element =
     check_assert (index \<le> arr_size a0)
       (let a = ensure_room a0
        in res_bind (if index < arr_size a
                     then move_cells (arr_data a) (index + 1) index (arr_size a - index)
                     else Inr (arr_data a))
             (\<lambda>d. res_bind (store d index (Some element))
               (\<lambda>d'. Inr (a\<lparr>arr_data := d', arr_size := arr_size a + 1\<rparr>))))"

definition ik_array_delete :: "'e ik_array \<Rightarrow> nat \<Rightarrow> 'e ik_array res" where
  "ik_array_delete a index =
     check_assert (index < arr_size a)
       (res_bind (if index < arr_size a - 1
                  then move_cells (arr_data a) index (index + 1) (arr_size a - index - 1)
                  else Inr (arr_data a))
          (\<lambda>d. Inr (a\<lparr>arr_data := d, arr_size := arr_size a - 1\<rparr>)))"

definition ik_array_set :: "'e ik_array \<Rightarrow> nat \<Rightarrow> 'e \<Rightarrow> 'e ik_array res" where
  "ik_array_set a index element =
     check_assert (index < arr_size a)
       (res_bind (store (arr_data a) index (Some element)) (\<lambda>d. Inr (a\<lparr>arr_data := d\<rparr>)))"

definition ik_array_clear :: "'e ik_array \<Rightarrow> 'e ik_array" where
  "ik_array_clear a = a\<lparr>arr_size := 0\<rparr>"

text \<open>Reading through the returned pointer; a cell that was never written is a fault.\<close>

definition ik_array_get :: "'e ik_array \<Rightarrow> nat \<Rightarrow> 'e res" where
  "ik_array_get a index =
     check_assert (index < arr_size a)
       (res_bind (load (arr_data a) index)
          (\<lambda>c. case c of None \<Rightarrow> Inl MemFault | Some x \<Rightarrow> Inr x))"

definition ik_array_size :: "'e ik_array \<Rightarrow> nat" where
  "ik_array_size a = arr_size a"

definition ik_array_capacity :: "'e ik_array \<Rightarrow> nat" where
  "ik_array_capacity a = arr_capacity a"

type_synonym ik_byte_array = "byte ik_array"

definition ik_byte_array_create :: "nat \<Rightarrow> ik_byte_array res" where
  "ik_byte_array_create increment = ik_array_create 1 increment"

definition ik_byte_array_append :: "ik_byte_array \<Rightarrow> byte \<Rightarrow> ik_byte_array res" where
  "ik_byte_array_append a b = ik_array_append a b"

definition ik_byte_array_insert :: "ik_byte_array \<Rightarrow> nat \<Rightarrow> byte \<Rightarrow> ik_byte_array res" where
  "ik_byte_array_insert a index b = ik_array_insert a index b"

definition ik_byte_array_delete :: "ik_byte_array \<Rightarrow> nat \<Rightarrow> ik_byte_array res" where
  "ik_byte_array_delete a index = ik_array_delete a index"

definition ik_byte_array_clear :: "ik_byte_array \<Rightarrow> ik_byte_array" where
  "ik_byte_array_clear a = ik_array_clear a"

definition ik_byte_array_get :: "ik_byte_array \<Rightarrow> nat \<Rightarrow> byte res" where
  "ik_byte_array_get a index = ik_array_get a index"

definition ik_byte_array_size :: "ik_byte_array \<Rightarrow> nat" where
  "ik_byte_array_size a = ik_array_size a"

subsection \<open>Representation invariant and abstraction\<close>

text \<open>Capacities are the increment doubled some number of times.\<close>

definition cap_shape :: "nat \<Rightarrow> nat \<Rightarrow> bool" where
  "cap_shape inc cap \<longleftrightarrow> cap = 0 \<or> (\<exists>k. cap = inc * 2 ^ k)"

definition array_inv :: "'e ik_array \<Rightarrow> bool" where
  "array_inv a \<longleftrightarrow>
     arr_element_size a > 0 \<and> arr_increment a > 0 \<and> arr_size a \<le> arr_capacity a
     \<and> length (arr_data a) = arr_capacity a
     \<and> list_all (\<lambda>c. c \<noteq> None) (take (arr_size a) (arr_data a))
     \<and> cap_shape (arr_increment a) (arr_capacity a)"

definition elems :: "'e ik_array \<Rightarrow> 'e list" where
  "elems a = map the (take (arr_size a) (arr_data a))"

text \<open>The invariant in the form the proofs use: a written prefix and a rest of the block.\<close>

definition arr_repr :: "'e ik_array \<Rightarrow> 'e list \<Rightarrow> 'e option list \<Rightarrow> bool" where
  "arr_repr a xs rest \<longleftrightarrow>
     arr_data a = map Some xs @ rest \<and> arr_size a = length xs
     \<and> arr_capacity a = length xs + length rest
     \<and> arr_element_size a > 0 \<and> arr_increment a > 0
     \<and> cap_shape (arr_increment a) (arr_capacity a)"

lemma cap_shape_double: "cap_shape inc cap \<Longrightarrow> cap_shape inc (cap * 2)"
  by (auto simp: cap_shape_def intro: exI [of _ "Suc k" for k])

lemma cap_shape_inc: "cap_shape inc inc"
  by (auto simp: cap_shape_def intro: exI [of _ 0])

lemma length_elems [simp]: "array_inv a \<Longrightarrow> length (elems a) = arr_size a"
  by (simp add: elems_def array_inv_def)

lemma arr_reprD: "arr_repr a xs rest \<Longrightarrow> array_inv a \<and> elems a = xs"
  by (auto simp: arr_repr_def array_inv_def elems_def list_all_iff comp_def)

lemma arr_reprE:
  assumes "array_inv a"
  obtains rest where "arr_repr a (elems a) rest"
proof -
  have "map Some (map the (take (arr_size a) (arr_data a))) = take (arr_size a) (arr_data a)"
    using assms by (auto simp: array_inv_def list_all_iff intro!: map_idI)
  then have "arr_data a = map Some (elems a) @ drop (arr_size a) (arr_data a)"
    by (simp only: elems_def append_take_drop_id)
  then have "arr_repr a (elems a) (drop (arr_size a) (arr_data a))"
    using assms by (simp add: arr_repr_def) (simp add: array_inv_def)
  then show ?thesis by (rule that)
qed

lemma array_create_inv:
  "es > 0 \<Longrightarrow> inc > 0 \<Longrightarrow>
   returns (ik_array_create es inc) (\<lambda>a. array_inv a \<and> elems a = [])"
  by (simp add: ik_array_create_def array_inv_def elems_def cap_shape_def)

lemma ensure_room_repr:
  assumes "arr_repr a xs rest"
  obtains c rest' where "arr_repr (ensure_room a) xs (c # rest')"
proof (cases "arr_size a \<ge> arr_capacity a")
  case True
  with assms have rest: "rest = []" by (simp add: arr_repr_def)
  let ?new = "if xs = [] then arr_increment a else length xs * 2"
  have "arr_repr (ensure_room a) xs (replicate (?new - length xs) None)"
    using assms rest True cap_shape_double cap_shape_inc
    by (auto simp: arr_repr_def ensure_room_def grow_array_def Let_def)
  moreover have "replicate (?new - length xs) None = None # replicate (?new - length xs - 1) None"
    using assms by (cases xs) (auto simp: arr_repr_def simp flip: replicate_Suc)
  ultimately show ?thesis using that by metis
next
  case False
  with assms have "rest \<noteq> []" and "ensure_room a = a"
    by (auto simp: arr_repr_def ensure_room_def)
  with assms that show ?thesis by (cases rest) auto
qed

lemma ensure_room_size [simp]: "arr_size (ensure_room a) = arr_size a"
  by (simp add: ensure_room_def grow_array_def Let_def)

lemma append_spec:
  assumes "array_inv a"
  shows "returns (ik_array_append a x) (\<lambda>a'. array_inv a' \<and> elems a' = elems a @ [x])"
proof -
  obtain c rest where r: "arr_repr (ensure_room a) (elems a) (c # rest)"
    using arr_reprE [OF assms] ensure_room_repr by metis
  let ?b = "ensure_room a"
  have "store (arr_data ?b) (arr_size a) (Some x) = Inr (map Some (elems a @ [x]) @ rest)"
    using r store_mid [of "map Some (elems a)" c rest "Some x"] by (simp add: arr_repr_def)
  moreover have "arr_repr (?b\<lparr>arr_data := map Some (elems a @ [x]) @ rest,
      arr_size := Suc (arr_size a)\<rparr>) (elems a @ [x]) rest"
    using r by (auto simp: arr_repr_def)
  ultimately show ?thesis
    by (simp add: ik_array_append_def Let_def arr_reprD)
qed

lemma insert_spec:
  assumes "array_inv a" and "i \<le> length (elems a)"
  shows "returns (ik_array_insert a i x)
    (\<lambda>a'. array_inv a' \<and> elems a' = take i (elems a) @ x # drop i (elems a))"
proof -
  obtain c rest where r: "arr_repr (ensure_room a) (elems a) (c # rest)"
    using arr_reprE [OF assms(1)] ensure_room_repr by metis
  let ?b = "ensure_room a" and ?n = "arr_size a" and ?xs = "elems a"
  let ?u = "take i (elems a)" and ?v = "drop i (elems a)"
  let ?new = "map Some (?u @ x # ?v) @ rest"
  have i: "i \<le> ?n" and n: "?n = length ?xs" using assms by simp_all
  have d: "arr_data ?b = map Some ?u @ map Some ?v @ c # rest"
    using r by (simp add: arr_repr_def) (simp flip: append.assoc map_append)
  have "move_cells (arr_data ?b) (i + 1) i (?n - i)
      = Inr (map Some ?u @ hd (map Some ?v @ [c]) # map Some ?v @ rest)"
    using move_cells_right [of "map Some ?u" "map Some ?v" c rest] i n unfolding d by simp
  then obtain y where moved:
    "(if i < ?n then move_cells (arr_data ?b) (i + 1) i (?n - i) else Inr (arr_data ?b))
      = Inr (map Some ?u @ y # map Some ?v @ rest)"
    using i unfolding d by (cases "i < ?n") (auto simp: n)
  have "arr_repr (?b\<lparr>arr_data := ?new, arr_size := Suc ?n\<rparr>) (?u @ x # ?v) rest"
    using r i n by (auto simp: arr_repr_def)
  moreover have "store (map Some ?u @ y # map Some ?v @ rest) i (Some x) = Inr ?new"
    using store_mid [of "map Some ?u" y "map Some ?v @ rest" "Some x"] i n by simp
  ultimately show ?thesis
    using i unfolding ik_array_insert_def Let_def ensure_room_size moved
    by (simp add: arr_reprD)
qed

lemma delete_spec:
  assumes "array_inv a" and "i < length (elems a)"
  shows "returns (ik_array_delete a i)
    (\<lambda>a'. array_inv a' \<and> elems a' = take i (elems a) @ drop (Suc i) (elems a))"
proof -
  obtain rest where r: "arr_repr a (elems a) rest" using arr_reprE [OF assms(1)] .
  let ?n = "arr_size a" and ?u = "take i (elems a)" and ?v = "drop (Suc i) (elems a)"
  have i: "i < ?n" and n: "?n = length (elems a)" using assms by simp_all
  have d: "arr_data a = map Some ?u @ Some (elems a ! i) # map Some ?v @ rest"
    using r assms(2) by (simp add: arr_repr_def)
       (metis id_take_nth_drop list.simps(9) map_append)
  have "move_cells (arr_data a) i (i + 1) (?n - i - 1)
      = Inr (map Some ?u @ map Some ?v @ last (Some (elems a ! i) # map Some ?v) # rest)"
    using move_cells_left [of "map Some ?u" "Some (elems a ! i)" "map Some ?v" rest] i n
    unfolding d by simp
  then obtain y where moved:
    "(if i < ?n - 1 then move_cells (arr_data a) i (i + 1) (?n - i - 1) else Inr (arr_data a))
      = Inr (map Some ?u @ map Some ?v @ y # rest)"
    using i unfolding d by (cases "i < ?n - 1") (auto simp: n)
  have "arr_repr (a\<lparr>arr_data := map Some ?u @ map Some ?v @ y # rest, arr_size := ?n - Suc 0\<rparr>)
      (?u @ ?v) (y # rest)"
    using r i n by (auto simp: arr_repr_def)
  then show ?thesis
    using i unfolding ik_array_delete_def moved by (simp add: arr_reprD)
qed

lemma set_spec:
  assumes "array_inv a" and "i < length (elems a)"
  shows "returns (ik_array_set a i x) (\<lambda>a'. array_inv a' \<and> elems a' = (elems a)[i := x])"
proof -
  obtain rest where r: "arr_repr a (elems a) rest" using arr_reprE [OF assms(1)] .
  have i: "i < arr_size a" using assms by simp
  have "store (arr_data a) i (Some x) = Inr (map Some ((elems a)[i := x]) @ rest)"
    using r assms by (simp add: arr_repr_def list_update_append map_update)
  moreover have "arr_repr (a\<lparr>arr_data := map Some ((elems a)[i := x]) @ rest\<rparr>) ((elems a)[i := x]) rest"
    using r by (auto simp: arr_repr_def)
  ultimately show ?thesis
    using i by (simp add: ik_array_set_def arr_reprD)
qed

lemma get_spec:
  assumes "array_inv a" and "i < length (elems a)"
  shows "ik_array_get a i = Inr (elems a ! i)"
proof -
  obtain rest where r: "arr_repr a (elems a) rest" using arr_reprE [OF assms(1)] .
  then show ?thesis
    using assms by (simp add: ik_array_get_def arr_repr_def nth_append)
qed

lemma clear_spec: "array_inv a \<Longrightarrow> array_inv (ik_array_clear a) \<and> elems (ik_array_clear a) = []"
  by (simp add: ik_array_clear_def array_inv_def elems_def)

interpretation arr: editable_seq array_inv elems ik_array_append ik_array_insert
  ik_array_delete ik_array_clear
  by unfold_locales (simp_all add: append_spec insert_spec delete_spec clear_spec)

interpretation bytes: editable_seq array_inv elems ik_byte_array_append ik_byte_array_insert
  ik_byte_array_delete ik_byte_array_clear
  by unfold_locales
     (simp_all add: append_spec insert_spec delete_spec clear_spec ik_byte_array_append_def
        ik_byte_array_insert_def ik_byte_array_delete_def ik_byte_array_clear_def)


subsection \<open>Theorems\<close>

text \<open>C28. On an array that satisfies its invariant, append, insert, delete, set, get and clear act as
  the list operations of the same name on the stored elements, stay inside of the data block and keep
  the invariant; an index out of range stops in an assertion instead of touching memory.\<close>

theorem array_operations:
  assumes "array_inv a"
  shows "returns (ik_array_append a x) (\<lambda>a'. array_inv a' \<and> elems a' = elems a @ [x])
    \<and> (if i \<le> ik_array_size a
       then returns (ik_array_insert a i x)
              (\<lambda>a'. array_inv a' \<and> elems a' = take i (elems a) @ x # drop i (elems a))
       else ik_array_insert a i x = Inl AssertFail)
    \<and> (if i < ik_array_size a
       then returns (ik_array_delete a i)
              (\<lambda>a'. array_inv a' \<and> elems a' = take i (elems a) @ drop (Suc i) (elems a))
            \<and> returns (ik_array_set a i x) (\<lambda>a'. array_inv a' \<and> elems a' = (elems a)[i := x])
            \<and> ik_array_get a i = Inr (elems a ! i)
       else ik_array_delete a i = Inl AssertFail \<and> ik_array_set a i x = Inl AssertFail
            \<and> ik_array_get a i = Inl AssertFail)
    \<and> array_inv (ik_array_clear a) \<and> elems (ik_array_clear a) = []
    \<and> ik_array_size a \<le> ik_array_capacity a"
  using append_spec [OF assms] insert_spec [OF assms, of i x] delete_spec [OF assms, of i]
    set_spec [OF assms, of i x] get_spec [OF assms, of i] clear_spec [OF assms] assms
  by (simp add: ik_array_size_def ik_array_capacity_def)
     (simp add: ik_array_insert_def ik_array_delete_def ik_array_set_def ik_array_get_def
        check_assert_def array_inv_def)

theorem array_operations_witness:
  "returns (ik_array_append \<lparr>arr_data = [Some 7, None], arr_element_size = 1, arr_size = 1,
      arr_capacity = 2, arr_increment = 2\<rparr> (8 :: nat)) (\<lambda>a'. array_inv a' \<and> elems a' = [7, 8])"
proof -
  let ?a = "\<lparr>arr_data = [Some (7 :: nat), None], arr_element_size = 1, arr_size = 1,
      arr_capacity = 2, arr_increment = 2\<rparr>"
  have "array_inv ?a" by (auto simp: array_inv_def cap_shape_def intro: exI [of _ 0])
  from array_operations [OF this, of 8] show ?thesis by (simp add: elems_def)
qed

end
