(* ===== verification/Ik_Cursor.thy ===== *)
theory Ik_Cursor
  imports Ik_Utf8proc
begin

text \<open>
  The grapheme aware cursor, apps/ikigai/input_buffer/cursor.c.

  A text is the byte list of the buffer, \<open>None\<close> the \<^verbatim>\<open>NULL\<close> pointer of a buffer without storage.
  The three scanning loops are recursive functions over the byte position; a decoder that reads no
  byte ends them with the failed assertion of the code.

  On well-formed text (\<open>utf8\<close> of scalar values) the loops are equal to scans over the list of code
  points: \<open>clusters\<close> counts the clusters, \<open>last_start\<close> is the start of the last cluster and
  \<open>cluster_len\<close> the length of the next one. Setting the position and moving left always leave the
  exact cluster count; moving right does so when it starts on a cluster boundary.
\<close>

record ik_input_buffer_cursor =
  cur_byte_offset :: nat
  cur_grapheme_offset :: nat

type_synonym ctext = "byte list option"

subsection \<open>The code\<close>

definition ik_input_buffer_cursor_create :: ik_input_buffer_cursor where
  "ik_input_buffer_cursor_create = \<lparr>cur_byte_offset = 0, cur_grapheme_offset = 0\<rparr>"

text \<open>The test for a cluster boundary before a code point; \<open>- 1\<close> is "no previous code point".\<close>

definition starts_cluster :: "utf8proc \<Rightarrow> 32 word \<Rightarrow> 32 word \<Rightarrow> bool" where
  "starts_cluster U prev cp \<longleftrightarrow> prev = - 1 \<or> grapheme_break U prev cp"

function set_position_loop ::
  "utf8proc \<Rightarrow> byte list \<Rightarrow> nat \<Rightarrow> nat \<Rightarrow> 32 word \<Rightarrow> nat \<Rightarrow> nat res" where
  "set_position_loop U bs byte_offset pos prev grapheme_count =
     (if pos < byte_offset then
        (case iterate U (drop pos bs) of (bytes_read, codepoint) \<Rightarrow>
           if bytes_read > 0 then
             set_position_loop U bs byte_offset (pos + nat bytes_read) codepoint
               (if starts_cluster U prev codepoint then grapheme_count + 1 else grapheme_count)
           else Inl AssertFail)
      else Inr grapheme_count)"
  by pat_completeness auto
termination
  by (relation "measure (\<lambda>(U, bs, off, pos, prev, cnt). off - pos)") auto

definition ik_input_buffer_cursor_set_position ::
  "utf8proc \<Rightarrow> ik_input_buffer_cursor \<Rightarrow> ctext \<Rightarrow> nat \<Rightarrow> ik_input_buffer_cursor res" where
  "ik_input_buffer_cursor_set_position U cursor txt byte_offset =
     (case txt of None \<Rightarrow> Inl AssertFail
      | Some bs \<Rightarrow>
          check_assert (byte_offset \<le> length bs)
            (res_bind (set_position_loop U bs byte_offset 0 (- 1) 0)
               (\<lambda>n. Inr (cursor\<lparr>cur_byte_offset := byte_offset, cur_grapheme_offset := n\<rparr>))))"

function move_left_loop ::
  "utf8proc \<Rightarrow> byte list \<Rightarrow> nat \<Rightarrow> nat \<Rightarrow> 32 word \<Rightarrow> nat \<Rightarrow> nat \<Rightarrow> (nat \<times> nat) res" where
  "move_left_loop U bs off pos prev last_boundary_byte grapheme_count =
     (if pos < length bs then
        (case iterate U (drop pos bs) of (bytes_read, codepoint) \<Rightarrow>
           if bytes_read > 0 then
             (if starts_cluster U prev codepoint then
                (if pos < off
                 then move_left_loop U bs off (pos + nat bytes_read) codepoint pos (grapheme_count + 1)
                 else Inr (last_boundary_byte, grapheme_count))
              else move_left_loop U bs off (pos + nat bytes_read) codepoint last_boundary_byte
                     grapheme_count)
           else Inl AssertFail)
      else Inr (last_boundary_byte, grapheme_count))"
  by pat_completeness auto
termination
  by (relation "measure (\<lambda>(U, bs, off, pos, prev, b, c). length bs - pos)") auto

definition ik_input_buffer_cursor_move_left ::
  "utf8proc \<Rightarrow> ik_input_buffer_cursor \<Rightarrow> ctext \<Rightarrow> ik_input_buffer_cursor res" where
  "ik_input_buffer_cursor_move_left U cursor txt =
     (case txt of None \<Rightarrow> Inl AssertFail
      | Some bs \<Rightarrow>
          if cur_byte_offset cursor = 0 then Inr cursor
          else res_bind (move_left_loop U bs (cur_byte_offset cursor) 0 (- 1) 0 0)
                 (\<lambda>(b, n). Inr (cursor\<lparr>cur_byte_offset := b,
                                       cur_grapheme_offset := (if n > 0 then n - 1 else 0)\<rparr>)))"

text \<open>The result is the boundary: the start of the code point that opens a new cluster, or the
  position at which the scan ended.\<close>

function move_right_loop :: "utf8proc \<Rightarrow> byte list \<Rightarrow> nat \<Rightarrow> 32 word \<Rightarrow> nat res" where
  "move_right_loop U bs pos prev =
     (if pos < length bs then
        (case iterate U (drop pos bs) of (bytes_read, codepoint) \<Rightarrow>
           if bytes_read > 0 then
             (if prev \<noteq> - 1 \<and> grapheme_break U prev codepoint
              then Inr (pos + nat bytes_read - nat bytes_read)
              else move_right_loop U bs (pos + nat bytes_read) codepoint)
           else Inl AssertFail)
      else Inr pos)"
  by pat_completeness auto
termination
  by (relation "measure (\<lambda>(U, bs, pos, prev). length bs - pos)") auto

definition ik_input_buffer_cursor_move_right ::
  "utf8proc \<Rightarrow> ik_input_buffer_cursor \<Rightarrow> ctext \<Rightarrow> ik_input_buffer_cursor res" where
  "ik_input_buffer_cursor_move_right U cursor txt =
     (case txt of None \<Rightarrow> Inl AssertFail
      | Some bs \<Rightarrow>
          if cur_byte_offset cursor = length bs then Inr cursor
          else res_bind (move_right_loop U bs (cur_byte_offset cursor) (- 1))
                 (\<lambda>b. Inr (cursor\<lparr>cur_byte_offset := b,
                                  cur_grapheme_offset := cur_grapheme_offset cursor + 1\<rparr>)))"

definition ik_input_buffer_cursor_get_position :: "ik_input_buffer_cursor \<Rightarrow> nat \<times> nat" where
  "ik_input_buffer_cursor_get_position cursor = (cur_byte_offset cursor, cur_grapheme_offset cursor)"

declare set_position_loop.simps [simp del] move_left_loop.simps [simp del]
  move_right_loop.simps [simp del]

subsection \<open>The scans over code points\<close>

fun clusters :: "utf8proc \<Rightarrow> 32 word \<Rightarrow> 32 word list \<Rightarrow> nat" where
  "clusters U prev [] = 0"
| "clusters U prev (c # cs) = (if starts_cluster U prev c then 1 else 0) + clusters U c cs"

text \<open>Index of the code point that starts the last cluster.\<close>

fun last_start :: "utf8proc \<Rightarrow> 32 word \<Rightarrow> nat \<Rightarrow> nat \<Rightarrow> 32 word list \<Rightarrow> nat" where
  "last_start U prev i best [] = best"
| "last_start U prev i best (c # cs) =
     last_start U c (Suc i) (if starts_cluster U prev c then i else best) cs"

text \<open>Number of code points before the next boundary.\<close>

fun cluster_len :: "utf8proc \<Rightarrow> 32 word \<Rightarrow> 32 word list \<Rightarrow> nat" where
  "cluster_len U prev [] = 0"
| "cluster_len U prev (c # cs) =
     (if prev \<noteq> - 1 \<and> grapheme_break U prev c then 0 else Suc (cluster_len U c cs))"

lemma drop_utf8 [simp]: "drop (length (utf8 ds)) (utf8 ds @ bs) = bs"
  by simp

lemma set_position_loop_utf8:
  assumes "utf8proc_ok U"
  shows "scalars l \<Longrightarrow>
    set_position_loop U (utf8 ds @ utf8 l @ bs) (length (utf8 ds) + length (utf8 l))
      (length (utf8 ds)) prev n = Inr (n + clusters U prev l)"
proof (induction l arbitrary: ds prev n)
  case Nil
  show ?case by (subst set_position_loop.simps) simp
next
  case (Cons c l)
  then have c: "is_scalar c" by simp
  have "length (encode_utf8 c) > 0" using length_encode_utf8 [OF is_scalar_le [OF c]] by simp
  then show ?case
    using Cons.IH [of "ds @ [c]" c] Cons.prems
    by (subst set_position_loop.simps)
       (simp add: iterate_scalar [OF assms c] add.assoc)
qed

lemma cursor_set_position_utf8:
  assumes "utf8proc_ok U" and "scalars l"
  shows "ik_input_buffer_cursor_set_position U cur (Some (utf8 l @ bs)) (length (utf8 l))
    = Inr \<lparr>cur_byte_offset = length (utf8 l), cur_grapheme_offset = clusters U (- 1) l\<rparr>"
  using set_position_loop_utf8 [OF assms, of "[]" bs "- 1" 0]
  by (simp add: ik_input_buffer_cursor_set_position_def)

subsection \<open>Moving left\<close>

text \<open>Behind the cursor the scan only looks for the end of the cluster the cursor is in.\<close>

lemma move_left_loop_tail:
  assumes "utf8proc_ok U"
  shows "scalars r \<Longrightarrow> off \<le> length (utf8 ds) \<Longrightarrow>
    move_left_loop U (utf8 ds @ utf8 r) off (length (utf8 ds)) prev b n = Inr (b, n)"
proof (induction r arbitrary: ds prev)
  case Nil
  show ?case by (subst move_left_loop.simps) simp
next
  case (Cons c r)
  then have c: "is_scalar c" by simp
  show ?case
    using Cons.IH [of "ds @ [c]" c] Cons.prems length_encode_pos [OF c]
    by (subst move_left_loop.simps) (simp add: iterate_scalar [OF assms c] add.assoc)
qed

lemma move_left_loop_utf8:
  assumes "utf8proc_ok U" and "scalars r"
  shows "scalars l \<Longrightarrow> best \<le> length ds \<Longrightarrow>
    move_left_loop U (utf8 ds @ utf8 l @ utf8 r) (length (utf8 ds) + length (utf8 l))
      (length (utf8 ds)) prev (length (utf8 (take best ds))) n
    = Inr (length (utf8 (take (last_start U prev (length ds) best l) (ds @ l))), n + clusters U prev l)"
proof (induction l arbitrary: ds prev best n)
  case Nil
  then show ?case using move_left_loop_tail [OF assms, of "length (utf8 ds)" ds] by simp
next
  case (Cons c l)
  then have c: "is_scalar c" by simp
  show ?case
    using Cons.IH [of "length ds" "ds @ [c]" c] Cons.IH [of best "ds @ [c]" c] Cons.prems
      length_encode_pos [OF c]
    by (subst move_left_loop.simps) (simp add: iterate_scalar [OF assms(1) c] add.assoc)
qed

lemma last_start_le: "best \<le> i \<Longrightarrow> last_start U prev i best l \<le> i + length l"
proof (induction l arbitrary: prev i best)
  case (Cons c l)
  then show ?case
    using Cons.IH [of i "Suc i" c] Cons.IH [of best "Suc i" c] by (simp split: if_splits)
qed simp

lemma clusters_append:
  "clusters U prev (l @ m) = clusters U prev l + clusters U (if l = [] then prev else last l) m"
  by (induction l arbitrary: prev) auto

text \<open>The prefix up to \<open>last_start\<close> has lost exactly one cluster.\<close>

lemma last_start_clusters:
  "clusters U prev (take (last_start U prev i best l - i) l) + 1 = clusters U prev l
     \<and> i \<le> last_start U prev i best l
   \<or> clusters U prev l = 0 \<and> last_start U prev i best l = best"
proof (induction l arbitrary: prev i best)
  case (Cons c l)
  show ?case
    using Cons.IH [of c "Suc i" "if starts_cluster U prev c then i else best"]
    by (auto simp: take_Cons' diff_Suc split: if_splits nat.splits)
qed simp

lemma clusters_first: "l \<noteq> [] \<Longrightarrow> 0 < clusters U (- 1) l"
  by (cases l) (simp_all add: starts_cluster_def)

definition prev_cluster :: "utf8proc \<Rightarrow> 32 word list \<Rightarrow> nat" where
  "prev_cluster U l = last_start U (- 1) 0 0 l"

lemma prev_cluster_less:
  assumes "l \<noteq> []"
  shows "prev_cluster U l < length l \<and> clusters U (- 1) (take (prev_cluster U l) l) + 1 = clusters U (- 1) l"
proof -
  have e: "clusters U (- 1) (take (prev_cluster U l) l) + 1 = clusters U (- 1) l"
    using last_start_clusters [of U "- 1" 0 0 l] clusters_first [OF assms, of U]
    by (auto simp: prev_cluster_def)
  moreover have "prev_cluster U l \<noteq> length l" using e by auto
  moreover have "prev_cluster U l \<le> length l"
    using last_start_le [of 0 0 U "- 1" l] by (simp add: prev_cluster_def)
  ultimately show ?thesis by simp
qed

lemma cursor_move_left_utf8:
  assumes "utf8proc_ok U" and "scalars l" and "scalars r"
    and "l \<noteq> []" and "cur_byte_offset cur = length (utf8 l)"
  shows "ik_input_buffer_cursor_move_left U cur (Some (utf8 l @ utf8 r))
    = Inr \<lparr>cur_byte_offset = length (utf8 (take (prev_cluster U l) l)),
           cur_grapheme_offset = clusters U (- 1) (take (prev_cluster U l) l)\<rparr>"
proof -
  let ?k = "prev_cluster U l"
  have "utf8 l \<noteq> []" using assms(2,4) length_encode_pos by (cases l) auto
  moreover have "clusters U (- 1) l - 1 = clusters U (- 1) (take ?k l)"
    using prev_cluster_less [OF assms(4), of U] by linarith
  ultimately show ?thesis
    using move_left_loop_utf8 [OF assms(1,3,2), of 0 "[]" "- 1" 0] assms(5)
    by (simp add: ik_input_buffer_cursor_move_left_def clusters_first [OF assms(4)]
        flip: prev_cluster_def)
qed

subsection \<open>Moving right\<close>

lemma move_right_loop_utf8:
  assumes "utf8proc_ok U"
  shows "scalars r \<Longrightarrow>
    move_right_loop U (utf8 ds @ utf8 r) (length (utf8 ds)) prev
    = Inr (length (utf8 ds) + length (utf8 (take (cluster_len U prev r) r)))"
proof (induction r arbitrary: ds prev)
  case Nil
  show ?case by (subst move_right_loop.simps) simp
next
  case (Cons c r)
  then have c: "is_scalar c" by simp
  show ?case
    using Cons.IH [of "ds @ [c]" c] Cons.prems length_encode_pos [OF c]
    by (subst move_right_loop.simps) (simp add: iterate_scalar [OF assms c] add.assoc)
qed

definition next_cluster :: "utf8proc \<Rightarrow> 32 word list \<Rightarrow> nat" where
  "next_cluster U r = cluster_len U (- 1) r"

lemma cluster_len_le: "cluster_len U prev r \<le> length r"
  by (induction r arbitrary: prev) simp_all

lemma next_cluster_le: "next_cluster U r \<le> length r"
  by (simp add: next_cluster_def cluster_len_le)

lemma next_cluster_pos: "r \<noteq> [] \<Longrightarrow> 0 < next_cluster U r"
  by (cases r) (simp_all add: next_cluster_def)

text \<open>Inside of the run \<open>cluster_len\<close> no cluster starts.\<close>

lemma cluster_len_no_start:
  "prev \<noteq> - 1 \<Longrightarrow> scalars r \<Longrightarrow> clusters U prev (take (cluster_len U prev r) r) = 0"
  by (induction r arbitrary: prev) (auto simp: starts_cluster_def scalar_not_minus_one)

text \<open>The cursor is on a cluster boundary.\<close>

definition at_boundary :: "utf8proc \<Rightarrow> 32 word list \<Rightarrow> 32 word list \<Rightarrow> bool" where
  "at_boundary U l r \<longleftrightarrow> l = [] \<or> r = [] \<or> grapheme_break U (last l) (hd r)"

lemma next_cluster_clusters:
  assumes "at_boundary U l r" and "r \<noteq> []" and "scalars r"
  shows "clusters U (- 1) (l @ take (next_cluster U r) r) = clusters U (- 1) l + 1"
proof -
  obtain c m where r: "r = c # m" using assms(2) by (cases r) auto
  have "next_cluster U r = Suc (cluster_len U c m)" by (simp add: next_cluster_def r)
  moreover have "clusters U c (take (cluster_len U c m) m) = 0"
    using cluster_len_no_start [of c m U] assms(3) by (simp add: r scalar_not_minus_one)
  ultimately show ?thesis
    using assms(1) by (auto simp: r clusters_append at_boundary_def starts_cluster_def)
qed

lemma cursor_move_right_utf8:
  assumes "utf8proc_ok U" and "scalars r" and "r \<noteq> []" and "cur_byte_offset cur = length (utf8 l)"
  shows "ik_input_buffer_cursor_move_right U cur (Some (utf8 l @ utf8 r))
    = Inr \<lparr>cur_byte_offset = length (utf8 (l @ take (next_cluster U r) r)),
           cur_grapheme_offset = cur_grapheme_offset cur + 1\<rparr>"
proof -
  have "utf8 r \<noteq> []" using assms(2,3) length_encode_pos by (cases r) auto
  then show ?thesis
    using move_right_loop_utf8 [OF assms(1,2), of l "- 1"] assms(4)
    by (simp add: ik_input_buffer_cursor_move_right_def next_cluster_def)
qed

end
