(* ===== verification/Ik_Input_Buffer.thy ===== *)
theory Ik_Input_Buffer
  imports Ik_Array Ik_Cursor Ik_Ansi
begin

text \<open>
  The editable text of the prompt: apps/ikigai/input_buffer/core.c, multiline.c and layout.c.

  The struct \<^verbatim>\<open>ik_input_buffer_t\<close> is the record \<open>ik_input_buffer\<close>; an operation takes the buffer and
  yields the changed buffer or the fault in which it ends. The two copies of the cursor position
  (\<open>ib_cursor_byte_offset\<close> and the cursor object) are kept apart as in the code. Reading at the
  cursor of the text is bounds checked, and the grapheme functions of utf8proc are the parameter
  \<open>U\<close>. The position loops of multiline.c that run over a substring \<^verbatim>\<open>text + start, len\<close> recurse over
  that substring.
\<close>

record ik_input_buffer =
  ib_text :: ik_byte_array
  ib_cursor :: ik_input_buffer_cursor
  ib_cursor_byte_offset :: nat
  ib_target_column :: nat
  ib_physical_lines :: nat
  ib_cached_width :: int
  ib_layout_dirty :: int

subsection \<open>core.c\<close>

definition ik_input_buffer_create :: "ik_input_buffer res" where
  "ik_input_buffer_create =
     (case ik_byte_array_create 64 of Inl _ \<Rightarrow> Inl Panic
      | Inr t \<Rightarrow>
          Inr \<lparr>ib_text = t, ib_cursor = ik_input_buffer_cursor_create, ib_cursor_byte_offset = 0,
               ib_target_column = 0, ib_physical_lines = 0, ib_cached_width = 0,
               ib_layout_dirty = 1\<rparr>)"

definition ik_input_buffer_get_text :: "ik_input_buffer \<Rightarrow> ctext" where
  "ik_input_buffer_get_text b = (if arr_data (ib_text b) = [] then None else Some (elems (ib_text b)))"

definition ik_input_buffer_invalidate_layout :: "ik_input_buffer \<Rightarrow> ik_input_buffer" where
  "ik_input_buffer_invalidate_layout b = b\<lparr>ib_layout_dirty := 1\<rparr>"

definition ik_input_buffer_clear :: "ik_input_buffer \<Rightarrow> ik_input_buffer" where
  "ik_input_buffer_clear b =
     (let b1 = b\<lparr>ib_text := ik_byte_array_clear (ib_text b), ib_cursor_byte_offset := 0,
                 ib_target_column := 0\<rparr>
      in (ik_input_buffer_invalidate_layout b1)
           \<lparr>ib_cursor := \<lparr>cur_byte_offset = 0, cur_grapheme_offset = 0\<rparr>\<rparr>)"

definition ik_input_buffer_set_text :: "ik_input_buffer \<Rightarrow> ctext \<Rightarrow> ik_input_buffer res" where
  "ik_input_buffer_set_text b txt =
     (case txt of None \<Rightarrow> Inl AssertFail
      | Some new_text \<Rightarrow>
          res_bind (append_all ik_byte_array_append (ik_byte_array_clear (ib_text b)) new_text)
            (\<lambda>t. Inr (ik_input_buffer_invalidate_layout
               (b\<lparr>ib_text := t, ib_cursor_byte_offset := 0, ib_target_column := 0,
                  ib_cursor := \<lparr>cur_byte_offset = 0, cur_grapheme_offset = 0\<rparr>\<rparr>))))"

text \<open>The resynchronisation of the cursor object with the byte offset, at the end of every edit.\<close>

definition sync_cursor :: "utf8proc \<Rightarrow> ik_input_buffer \<Rightarrow> ik_input_buffer res" where
  "sync_cursor U b =
     res_bind (ik_input_buffer_cursor_set_position U (ib_cursor b) (ik_input_buffer_get_text b)
                 (ib_cursor_byte_offset b))
       (\<lambda>c. Inr (b\<lparr>ib_cursor := c\<rparr>))"

definition ik_input_buffer_insert_codepoint ::
  "utf8proc \<Rightarrow> ik_input_buffer \<Rightarrow> 32 word \<Rightarrow> ik_input_buffer res" where
  "ik_input_buffer_insert_codepoint U b codepoint =
     (let utf8_bytes = encode_utf8 codepoint; num_bytes = length utf8_bytes
      in if num_bytes = 0 then Inl (Err INVALID_ARG)
         else res_bind (insert_all ik_byte_array_insert (ib_text b) (ib_cursor_byte_offset b) utf8_bytes)
           (\<lambda>t. sync_cursor U (ik_input_buffer_invalidate_layout
              (b\<lparr>ib_text := t, ib_cursor_byte_offset := ib_cursor_byte_offset b + num_bytes,
                 ib_target_column := 0\<rparr>))))"

definition ik_input_buffer_insert_newline :: "utf8proc \<Rightarrow> ik_input_buffer \<Rightarrow> ik_input_buffer res" where
  "ik_input_buffer_insert_newline U b =
     res_bind (ik_byte_array_insert (ib_text b) (ib_cursor_byte_offset b) 10)
       (\<lambda>t. sync_cursor U (ik_input_buffer_invalidate_layout
          (b\<lparr>ib_text := t, ib_cursor_byte_offset := ib_cursor_byte_offset b + 1,
             ib_target_column := 0\<rparr>)))"

definition ik_input_buffer_backspace :: "utf8proc \<Rightarrow> ik_input_buffer \<Rightarrow> ik_input_buffer res" where
  "ik_input_buffer_backspace U b =
     (if ib_cursor_byte_offset b = 0 then Inr b
      else res_bind (find_prev_char_start (elems (ib_text b)) (ib_cursor_byte_offset b))
        (\<lambda>prev_char_start.
           res_bind (delete_n ik_byte_array_delete (ib_text b) prev_char_start
                       (ib_cursor_byte_offset b - prev_char_start))
             (\<lambda>t. sync_cursor U (ik_input_buffer_invalidate_layout
                (b\<lparr>ib_text := t, ib_cursor_byte_offset := prev_char_start, ib_target_column := 0\<rparr>)))))"

definition ik_input_buffer_delete :: "utf8proc \<Rightarrow> ik_input_buffer \<Rightarrow> ik_input_buffer res" where
  "ik_input_buffer_delete U b =
     (if ib_cursor_byte_offset b \<ge> ik_byte_array_size (ib_text b) then Inr b
      else (let next_char_end = find_next_char_end (elems (ib_text b)) (ib_cursor_byte_offset b)
            in res_bind (delete_n ik_byte_array_delete (ib_text b) (ib_cursor_byte_offset b)
                           (next_char_end - ib_cursor_byte_offset b))
                 (\<lambda>t. sync_cursor U (ik_input_buffer_invalidate_layout
                    (b\<lparr>ib_text := t, ib_target_column := 0\<rparr>)))))"

definition ik_input_buffer_cursor_left :: "utf8proc \<Rightarrow> ik_input_buffer \<Rightarrow> ik_input_buffer res" where
  "ik_input_buffer_cursor_left U b =
     (if cur_byte_offset (ib_cursor b) = 0 then Inr b
      else (case ik_input_buffer_get_text b of None \<Rightarrow> Inr b
        | Some txt \<Rightarrow>
            res_bind (ik_input_buffer_cursor_move_left U (ib_cursor b) (Some txt))
              (\<lambda>c. Inr (b\<lparr>ib_cursor := c, ib_cursor_byte_offset := cur_byte_offset c,
                          ib_target_column := 0\<rparr>))))"

definition ik_input_buffer_cursor_right :: "utf8proc \<Rightarrow> ik_input_buffer \<Rightarrow> ik_input_buffer res" where
  "ik_input_buffer_cursor_right U b =
     (case ik_input_buffer_get_text b of None \<Rightarrow> Inr b
      | Some txt \<Rightarrow>
          if cur_byte_offset (ib_cursor b) \<ge> length txt then Inr b
          else res_bind (ik_input_buffer_cursor_move_right U (ib_cursor b) (Some txt))
                 (\<lambda>c. Inr (b\<lparr>ib_cursor := c, ib_cursor_byte_offset := cur_byte_offset c,
                             ib_target_column := 0\<rparr>)))"

definition ik_input_buffer_get_cursor_position :: "ik_input_buffer \<Rightarrow> nat \<times> nat" where
  "ik_input_buffer_get_cursor_position b = ik_input_buffer_cursor_get_position (ib_cursor b)"

definition is_word_char :: "byte \<Rightarrow> bool" where
  "is_word_char b =
     (if (b \<ge> 0x30 \<and> b \<le> 0x39) \<or> (b \<ge> 0x41 \<and> b \<le> 0x5A) \<or> (b \<ge> 0x61 \<and> b \<le> 0x7A) then True
      else if b \<ge> 0xC0 then True else False)"

definition is_whitespace :: "byte \<Rightarrow> bool" where
  "is_whitespace b \<longleftrightarrow> b = 0x20 \<or> b = 0x09 \<or> b = 0x0A \<or> b = 0x0D"

datatype char_class = CHAR_CLASS_WORD | CHAR_CLASS_WHITESPACE | CHAR_CLASS_PUNCTUATION

definition get_char_class :: "byte \<Rightarrow> char_class" where
  "get_char_class b =
     (if is_word_char b then CHAR_CLASS_WORD
      else if is_whitespace b then CHAR_CLASS_WHITESPACE else CHAR_CLASS_PUNCTUATION)"

text \<open>The two backward loops of the word deletion differ in the test of the lead byte only.\<close>

lemma skip_continuation_le: "skip_continuation data p = Inr q \<Longrightarrow> q \<le> p"
  by (induction data p rule: skip_continuation.induct)
     (auto simp: res_bind_Inr_iff le_SucI split: if_splits)

lemma find_prev_char_start_less: "find_prev_char_start data pos = Inr q \<Longrightarrow> q < pos"
  using skip_continuation_le [of data "pos - 1" q]
  by (auto simp: find_prev_char_start_def check_assert_Inr_iff)

function skip_back :: "(byte \<Rightarrow> bool) \<Rightarrow> byte list \<Rightarrow> nat \<Rightarrow> nat res" where
  "skip_back P data pos =
     (if pos > 0 then
        (case find_prev_char_start data pos of Inl e \<Rightarrow> Inl e
         | Inr prev_pos \<Rightarrow>
             (case load data prev_pos of Inl e \<Rightarrow> Inl e
              | Inr b \<Rightarrow> if P b then skip_back P data prev_pos else Inr pos))
      else Inr pos)"
  by pat_completeness auto
termination
  by (relation "measure (\<lambda>(P, data, pos). pos)") (auto dest: find_prev_char_start_less)

declare skip_back.simps [simp del]

definition word_start :: "byte list \<Rightarrow> nat \<Rightarrow> nat res" where
  "word_start data cursor =
     res_bind (skip_back is_whitespace data cursor)
       (\<lambda>pos. if pos = 0 then Inr pos
         else res_bind (find_prev_char_start data pos)
           (\<lambda>prev_pos. res_bind (load data prev_pos)
             (\<lambda>b. let target_class = get_char_class b
                  in skip_back (\<lambda>c. get_char_class c = target_class) data pos)))"

definition ik_input_buffer_delete_word_backward ::
  "utf8proc \<Rightarrow> ik_input_buffer \<Rightarrow> ik_input_buffer res" where
  "ik_input_buffer_delete_word_backward U b =
     (if ib_cursor_byte_offset b = 0 then Inr b
      else res_bind (word_start (elems (ib_text b)) (ib_cursor_byte_offset b))
        (\<lambda>pos. res_bind (delete_n ik_byte_array_delete (ib_text b) pos (ib_cursor_byte_offset b - pos))
          (\<lambda>t. res_bind (sync_cursor U (b\<lparr>ib_text := t, ib_cursor_byte_offset := pos\<rparr>))
            (\<lambda>b'. Inr (ik_input_buffer_invalidate_layout (b'\<lparr>ib_target_column := 0\<rparr>))))))"

subsection \<open>multiline.c\<close>

fun find_line_start :: "byte list \<Rightarrow> nat \<Rightarrow> nat res" where
  "find_line_start txt 0 = Inr 0"
| "find_line_start txt (Suc p) =
     res_bind (load txt p) (\<lambda>b. if b \<noteq> 10 then find_line_start txt p else Inr (Suc p))"

function find_line_end :: "byte list \<Rightarrow> nat \<Rightarrow> nat" where
  "find_line_end txt pos =
     (if pos < length txt \<and> txt ! pos \<noteq> 10 then find_line_end txt (pos + 1) else pos)"
  by pat_completeness auto
termination
  by (relation "measure (\<lambda>(txt, pos). length txt - pos)") auto

declare find_line_end.simps [simp del]

text \<open>Despite their names the two functions count code points; a byte that is no lead byte stops
  the process.\<close>

function count_graphemes :: "byte list \<Rightarrow> nat res" where
  "count_graphemes [] = Inr 0"
| "count_graphemes (b # bs) =
     (case lead_len b of None \<Rightarrow> Inl Panic
      | Some char_len \<Rightarrow> res_bind (count_graphemes (drop (char_len - 1) bs)) (\<lambda>n. Inr (n + 1)))"
  by pat_completeness auto
termination
  by (relation "measure length") auto

fun grapheme_to_byte_offset :: "byte list \<Rightarrow> nat \<Rightarrow> nat res" where
  "grapheme_to_byte_offset txt 0 = Inr 0"
| "grapheme_to_byte_offset [] (Suc n) = Inr 0"
| "grapheme_to_byte_offset (b # bs) (Suc n) =
     (case lead_len b of None \<Rightarrow> Inl Panic
      | Some char_len \<Rightarrow>
          res_bind (grapheme_to_byte_offset (drop (char_len - 1) bs) n) (\<lambda>k. Inr (char_len + k)))"

definition substring :: "byte list \<Rightarrow> nat \<Rightarrow> nat \<Rightarrow> byte list" where
  "substring txt from len = take len (drop from txt)"

text \<open>The common first test of the line operations: no text means nothing to do.\<close>

definition with_text ::
  "ik_input_buffer \<Rightarrow> (byte list \<Rightarrow> ik_input_buffer res) \<Rightarrow> ik_input_buffer res" where
  "with_text b body =
     (case ik_input_buffer_get_text b of None \<Rightarrow> Inr b
      | Some txt \<Rightarrow> if length txt = 0 then Inr b else body txt)"

text \<open>The common end of the two vertical movements: the column that is aimed at, clamped to the
  line from \<open>line_start\<close> to \<open>line_end\<close>.\<close>

definition goto_column ::
  "utf8proc \<Rightarrow> ik_input_buffer \<Rightarrow> byte list \<Rightarrow> nat \<Rightarrow> nat \<Rightarrow> nat \<Rightarrow> ik_input_buffer res" where
  "goto_column U b txt column_graphemes line_start line_end =
     (let b1 = (if ib_target_column b = 0 then b\<lparr>ib_target_column := column_graphemes\<rparr> else b)
      in res_bind (count_graphemes (substring txt line_start (line_end - line_start)))
        (\<lambda>line_graphemes.
           let desired_column = (if ib_target_column b1 > 0 then ib_target_column b1 else column_graphemes);
               target_column = (if desired_column \<le> line_graphemes then desired_column else line_graphemes)
           in res_bind (grapheme_to_byte_offset (substring txt line_start (line_end - line_start))
                          target_column)
                (\<lambda>off. sync_cursor U (b1\<lparr>ib_cursor_byte_offset := line_start + off\<rparr>))))"

definition ik_input_buffer_cursor_up :: "utf8proc \<Rightarrow> ik_input_buffer \<Rightarrow> ik_input_buffer res" where
  "ik_input_buffer_cursor_up U b =
     with_text b (\<lambda>txt.
       let cursor_pos = cur_byte_offset (ib_cursor b)
       in res_bind (find_line_start txt cursor_pos)
         (\<lambda>current_line_start.
            if current_line_start = 0 then Inr b
            else res_bind (count_graphemes (substring txt current_line_start
                                              (cursor_pos - current_line_start)))
              (\<lambda>column_graphemes. res_bind (find_line_start txt (current_line_start - 1))
                (\<lambda>prev_line_start.
                   goto_column U b txt column_graphemes prev_line_start (current_line_start - 1)))))"

definition ik_input_buffer_cursor_down :: "utf8proc \<Rightarrow> ik_input_buffer \<Rightarrow> ik_input_buffer res" where
  "ik_input_buffer_cursor_down U b =
     with_text b (\<lambda>txt.
       let cursor_pos = cur_byte_offset (ib_cursor b);
           current_line_end = find_line_end txt cursor_pos
       in res_bind (find_line_start txt cursor_pos)
         (\<lambda>current_line_start.
            if current_line_end \<ge> length txt then Inr b
            else res_bind (count_graphemes (substring txt current_line_start
                                              (cursor_pos - current_line_start)))
              (\<lambda>column_graphemes.
                 let next_line_start = current_line_end + 1
                 in goto_column U b txt column_graphemes next_line_start
                      (find_line_end txt next_line_start))))"

definition ik_input_buffer_cursor_to_line_start ::
  "utf8proc \<Rightarrow> ik_input_buffer \<Rightarrow> ik_input_buffer res" where
  "ik_input_buffer_cursor_to_line_start U b =
     with_text b (\<lambda>txt.
       let cursor_pos = cur_byte_offset (ib_cursor b)
       in res_bind (find_line_start txt cursor_pos)
         (\<lambda>line_start.
            if cursor_pos = line_start then Inr b
            else res_bind (sync_cursor U (b\<lparr>ib_cursor_byte_offset := line_start\<rparr>))
              (\<lambda>b'. Inr (b'\<lparr>ib_target_column := 0\<rparr>))))"

definition ik_input_buffer_cursor_to_line_end ::
  "utf8proc \<Rightarrow> ik_input_buffer \<Rightarrow> ik_input_buffer res" where
  "ik_input_buffer_cursor_to_line_end U b =
     with_text b (\<lambda>txt.
       let cursor_pos = cur_byte_offset (ib_cursor b);
           line_end = find_line_end txt cursor_pos
       in if cursor_pos = line_end then Inr b
          else res_bind (sync_cursor U (b\<lparr>ib_cursor_byte_offset := line_end\<rparr>))
            (\<lambda>b'. Inr (b'\<lparr>ib_target_column := 0\<rparr>)))"

definition ik_input_buffer_kill_to_line_end ::
  "utf8proc \<Rightarrow> ik_input_buffer \<Rightarrow> ik_input_buffer res" where
  "ik_input_buffer_kill_to_line_end U b =
     with_text b (\<lambda>txt.
       let cursor_pos = cur_byte_offset (ib_cursor b);
           line_end = find_line_end txt cursor_pos
       in if cursor_pos \<ge> line_end then Inr b
          else res_bind (delete_n ik_byte_array_delete (ib_text b) cursor_pos (line_end - cursor_pos))
            (\<lambda>t. res_bind (sync_cursor U (b\<lparr>ib_text := t, ib_cursor_byte_offset := cursor_pos\<rparr>))
              (\<lambda>b'. Inr (ik_input_buffer_invalidate_layout (b'\<lparr>ib_target_column := 0\<rparr>)))))"

definition ik_input_buffer_kill_line :: "utf8proc \<Rightarrow> ik_input_buffer \<Rightarrow> ik_input_buffer res" where
  "ik_input_buffer_kill_line U b =
     with_text b (\<lambda>txt.
       let cursor_pos = cur_byte_offset (ib_cursor b);
           line_end = find_line_end txt cursor_pos;
           delete_end = (if line_end < length txt then line_end + 1 else line_end)
       in res_bind (find_line_start txt cursor_pos)
         (\<lambda>line_start.
            res_bind (delete_n ik_byte_array_delete (ib_text b) line_start (delete_end - line_start))
              (\<lambda>t. let text_len = ik_byte_array_size t;
                       new_cursor_pos = (if line_start \<le> text_len then line_start else text_len)
                   in res_bind (sync_cursor U (b\<lparr>ib_text := t, ib_cursor_byte_offset := new_cursor_pos\<rparr>))
                        (\<lambda>b'. Inr (ik_input_buffer_invalidate_layout (b'\<lparr>ib_target_column := 0\<rparr>))))))"

subsection \<open>layout.c\<close>

function display_width_loop :: "utf8proc \<Rightarrow> byte list \<Rightarrow> nat \<Rightarrow> nat \<Rightarrow> nat" where
  "display_width_loop U txt pos display_width =
     (if pos < length txt then
        (let skip = ik_ansi_skip_csi txt pos
         in if skip > 0 then display_width_loop U txt (pos + skip) display_width
            else (case iterate U (drop pos txt) of (bytes_read, codepoint) \<Rightarrow>
               if bytes_read \<le> 0 then display_width_loop U txt (pos + 1) (display_width + 1)
               else display_width_loop U txt (pos + nat bytes_read)
                      (if charwidth U codepoint \<ge> 0 then display_width + nat (charwidth U codepoint)
                       else display_width)))
      else display_width)"
  by pat_completeness auto
termination
  by (relation "measure (\<lambda>(U, txt, pos, w). length txt - pos)") auto

declare display_width_loop.simps [simp del]

definition calculate_display_width :: "utf8proc \<Rightarrow> byte list \<Rightarrow> nat" where
  "calculate_display_width U txt = (if length txt = 0 then 0 else display_width_loop U txt 0 0)"

definition line_rows :: "utf8proc \<Rightarrow> int \<Rightarrow> byte list \<Rightarrow> nat" where
  "line_rows U terminal_width line =
     (if length line = 0 then 1
      else (let display_width = calculate_display_width U line
            in if display_width = 0 then 1
               else if terminal_width > 0
                    then (display_width + nat terminal_width - 1) div nat terminal_width
               else 1))"

function layout_loop :: "utf8proc \<Rightarrow> int \<Rightarrow> byte list \<Rightarrow> nat \<Rightarrow> nat \<Rightarrow> nat \<Rightarrow> nat" where
  "layout_loop U terminal_width txt i line_start physical_lines =
     (if i \<le> length txt then
        (if i = length txt \<or> txt ! i = 10
         then layout_loop U terminal_width txt (i + 1) (i + 1)
                (physical_lines + line_rows U terminal_width (substring txt line_start (i - line_start)))
         else layout_loop U terminal_width txt (i + 1) line_start physical_lines)
      else physical_lines)"
  by pat_completeness auto
termination
  by (relation "measure (\<lambda>(U, w, txt, i, s, n). Suc (length txt) - i)") auto

declare layout_loop.simps [simp del]

definition ik_input_buffer_ensure_layout :: "utf8proc \<Rightarrow> ik_input_buffer \<Rightarrow> int \<Rightarrow> ik_input_buffer" where
  "ik_input_buffer_ensure_layout U b terminal_width =
     (if ib_layout_dirty b = 0 \<and> ib_cached_width b = terminal_width then b
      else b\<lparr>ib_physical_lines :=
               (case ik_input_buffer_get_text b of None \<Rightarrow> 0
                | Some txt \<Rightarrow> if length txt = 0 then 0 else layout_loop U terminal_width txt 0 0 0),
             ib_cached_width := terminal_width, ib_layout_dirty := 0\<rparr>)"

definition ik_input_buffer_get_physical_lines :: "ik_input_buffer \<Rightarrow> nat" where
  "ik_input_buffer_get_physical_lines b = ib_physical_lines b"

end
