(* ===== verification/Ik_Editor.thy ===== *)
theory Ik_Editor
  imports Ik_Input_Buffer
begin

text \<open>
  What the input buffer promises: an editor on code points.

  The abstract editor is the text before and after the cursor as two lists of code points, the
  column remembered for vertical movement and the cluster count of the cursor. Each operation of
  the buffer has an abstract counterpart below; \<open>ib_repr\<close> relates a buffer in memory with the
  editor it represents, including that a clean layout cache holds the rows of the present text. The
  lemmas named \<open>*_refines\<close> show that every operation, started in a buffer that represents an
  editor, returns (no assertion, no fault) with a buffer that represents the edited editor.
\<close>

record editor =
  ed_before :: "32 word list"
  ed_after :: "32 word list"
  ed_column :: nat
  ed_graphemes :: nat

subsection \<open>The abstract operations\<close>

definition ed_at :: "utf8proc \<Rightarrow> 32 word list \<Rightarrow> 32 word list \<Rightarrow> nat \<Rightarrow> editor" where
  "ed_at U l r col =
     \<lparr>ed_before = l, ed_after = r, ed_column = col, ed_graphemes = clusters U (- 1) l\<rparr>"

definition ed_empty :: editor where
  "ed_empty = \<lparr>ed_before = [], ed_after = [], ed_column = 0, ed_graphemes = 0\<rparr>"

definition ed_insert :: "utf8proc \<Rightarrow> 32 word \<Rightarrow> editor \<Rightarrow> editor" where
  "ed_insert U c s = ed_at U (ed_before s @ [c]) (ed_after s) 0"

definition ed_backspace :: "utf8proc \<Rightarrow> editor \<Rightarrow> editor" where
  "ed_backspace U s =
     (if ed_before s = [] then s else ed_at U (butlast (ed_before s)) (ed_after s) 0)"

definition ed_delete :: "utf8proc \<Rightarrow> editor \<Rightarrow> editor" where
  "ed_delete U s = (if ed_after s = [] then s else ed_at U (ed_before s) (tl (ed_after s)) 0)"

definition ed_left :: "utf8proc \<Rightarrow> editor \<Rightarrow> editor" where
  "ed_left U s =
     (if ed_before s = [] then s
      else let k = prev_cluster U (ed_before s)
           in ed_at U (take k (ed_before s)) (drop k (ed_before s) @ ed_after s) 0)"

definition ed_right :: "utf8proc \<Rightarrow> editor \<Rightarrow> editor" where
  "ed_right U s =
     (if ed_after s = [] then s
      else let k = next_cluster U (ed_after s)
           in \<lparr>ed_before = ed_before s @ take k (ed_after s), ed_after = drop k (ed_after s),
               ed_column = 0, ed_graphemes = ed_graphemes s + 1\<rparr>)"

definition strip_end :: "('a \<Rightarrow> bool) \<Rightarrow> 'a list \<Rightarrow> 'a list" where
  "strip_end P l = rev (dropWhile P (rev l))"

definition cp_class :: "32 word \<Rightarrow> char_class" where
  "cp_class c = (if unat c \<ge> 128 then CHAR_CLASS_WORD else get_char_class (ucast c))"

definition cut_word :: "32 word list \<Rightarrow> 32 word list" where
  "cut_word l =
     (let m = strip_end (\<lambda>c. cp_class c = CHAR_CLASS_WHITESPACE) l
      in if m = [] then [] else strip_end (\<lambda>c. cp_class c = cp_class (last m)) m)"

definition ed_delete_word :: "utf8proc \<Rightarrow> editor \<Rightarrow> editor" where
  "ed_delete_word U s =
     (if ed_before s = [] then s else ed_at U (cut_word (ed_before s)) (ed_after s) 0)"

definition line_head :: "32 word list \<Rightarrow> 32 word list" where
  "line_head l = rev (takeWhile (\<lambda>c. c \<noteq> 10) (rev l))"

definition lines_above :: "32 word list \<Rightarrow> 32 word list" where
  "lines_above l = strip_end (\<lambda>c. c \<noteq> 10) l"

definition line_tail :: "32 word list \<Rightarrow> 32 word list" where
  "line_tail r = takeWhile (\<lambda>c. c \<noteq> 10) r"

definition lines_below :: "32 word list \<Rightarrow> 32 word list" where
  "lines_below r = dropWhile (\<lambda>c. c \<noteq> 10) r"

definition ed_line_start :: "utf8proc \<Rightarrow> editor \<Rightarrow> editor" where
  "ed_line_start U s =
     (if line_head (ed_before s) = [] then s
      else ed_at U (lines_above (ed_before s)) (line_head (ed_before s) @ ed_after s) 0)"

definition ed_line_end :: "utf8proc \<Rightarrow> editor \<Rightarrow> editor" where
  "ed_line_end U s =
     (if line_tail (ed_after s) = [] then s
      else ed_at U (ed_before s @ line_tail (ed_after s)) (lines_below (ed_after s)) 0)"

definition ed_kill_to_line_end :: "utf8proc \<Rightarrow> editor \<Rightarrow> editor" where
  "ed_kill_to_line_end U s =
     (if line_tail (ed_after s) = [] then s
      else ed_at U (ed_before s) (lines_below (ed_after s)) 0)"

definition ed_kill_line :: "utf8proc \<Rightarrow> editor \<Rightarrow> editor" where
  "ed_kill_line U s =
     (if ed_before s = [] \<and> ed_after s = [] then s
      else ed_at U (lines_above (ed_before s)) (tl (lines_below (ed_after s))) 0)"

definition goal_column :: "editor \<Rightarrow> nat" where
  "goal_column s =
     (if ed_column s = 0 then length (line_head (ed_before s)) else ed_column s)"

definition ed_up :: "utf8proc \<Rightarrow> editor \<Rightarrow> editor" where
  "ed_up U s =
     (if lines_above (ed_before s) = [] then s
      else let above = butlast (lines_above (ed_before s)); prev_line = line_head above
           in ed_at U (lines_above above @ take (goal_column s) prev_line)
                (drop (goal_column s) prev_line @ 10 # line_head (ed_before s) @ ed_after s)
                (goal_column s))"

definition ed_down :: "utf8proc \<Rightarrow> editor \<Rightarrow> editor" where
  "ed_down U s =
     (if lines_below (ed_after s) = [] then s
      else let below = tl (lines_below (ed_after s)); next_line = line_tail below
           in ed_at U (ed_before s @ line_tail (ed_after s) @ 10 # take (goal_column s) next_line)
                (drop (goal_column s) next_line @ lines_below below) (goal_column s))"

subsection \<open>Rows of the text\<close>

fun split_nl :: "byte list \<Rightarrow> byte list list" where
  "split_nl [] = [[]]"
| "split_nl (b # bs) = (if b = 10 then [] # split_nl bs
                        else (b # hd (split_nl bs)) # tl (split_nl bs))"

definition text_rows :: "utf8proc \<Rightarrow> int \<Rightarrow> byte list \<Rightarrow> nat" where
  "text_rows U width txt =
     (if txt = [] then 0 else sum_list (map (line_rows U width) (split_nl txt)))"

definition layout_ok :: "utf8proc \<Rightarrow> ik_input_buffer \<Rightarrow> bool" where
  "layout_ok U b \<longleftrightarrow>
     (ib_layout_dirty b = 0 \<longrightarrow> ib_physical_lines b = text_rows U (ib_cached_width b) (elems (ib_text b)))"

subsection \<open>Representation\<close>

definition ib_repr :: "utf8proc \<Rightarrow> ik_input_buffer \<Rightarrow> editor \<Rightarrow> bool" where
  "ib_repr U b s \<longleftrightarrow>
     array_inv (ib_text b) \<and> elems (ib_text b) = utf8 (ed_before s) @ utf8 (ed_after s)
     \<and> scalars (ed_before s) \<and> scalars (ed_after s)
     \<and> ib_cursor b = \<lparr>cur_byte_offset = length (utf8 (ed_before s)), cur_grapheme_offset = ed_graphemes s\<rparr>
     \<and> ib_cursor_byte_offset b = length (utf8 (ed_before s))
     \<and> ib_target_column b = ed_column s
     \<and> layout_ok U b"

lemma ib_reprD:
  assumes "ib_repr U b s"
  shows "array_inv (ib_text b)" and "elems (ib_text b) = utf8 (ed_before s) @ utf8 (ed_after s)"
    and "scalars (ed_before s)" and "scalars (ed_after s)"
    and "ib_cursor b = \<lparr>cur_byte_offset = length (utf8 (ed_before s)), cur_grapheme_offset = ed_graphemes s\<rparr>"
    and "ib_cursor_byte_offset b = length (utf8 (ed_before s))"
    and "ib_target_column b = ed_column s" and "layout_ok U b"
  using assms by (simp_all add: ib_repr_def)

lemma elems_unallocated: "arr_data a = [] \<Longrightarrow> elems a = []"
  by (simp add: elems_def)

lemma sync_cursor_eq:
  assumes "utf8proc_ok U" and "elems (ib_text b) = utf8 l @ bs" and "arr_data (ib_text b) \<noteq> []"
    and "scalars l" and "ib_cursor_byte_offset b = length (utf8 l)"
  shows "sync_cursor U b
    = Inr (b\<lparr>ib_cursor := \<lparr>cur_byte_offset = length (utf8 l), cur_grapheme_offset = clusters U (- 1) l\<rparr>\<rparr>)"
  using assms
  by (simp add: sync_cursor_def ik_input_buffer_get_text_def cursor_set_position_utf8)

text \<open>Deleting keeps the block, so the text stays allocated.\<close>

lemma delete_block:
  "ik_array_delete a i = Inr a' \<Longrightarrow> length (arr_data a') = length (arr_data a)"
  by (auto simp: ik_array_delete_def check_assert_Inr_iff res_bind_Inr_iff move_cells_def
      split: if_splits)

interpretation live: editable_seq "\<lambda>a. array_inv a \<and> arr_data a \<noteq> []" elems ik_byte_array_append
  ik_byte_array_insert ik_byte_array_delete ik_byte_array_clear
proof unfold_locales
  fix s :: ik_byte_array and i x
  assume s: "array_inv s \<and> arr_data s \<noteq> []"
  then show "returns (ik_byte_array_append s x)
      (\<lambda>s'. (array_inv s' \<and> arr_data s' \<noteq> []) \<and> elems s' = elems s @ [x])"
    using bytes.append_law [of s x] by (auto elim!: returns_mono dest: elems_unallocated)
  show "i \<le> length (elems s) \<Longrightarrow> returns (ik_byte_array_insert s i x)
      (\<lambda>s'. (array_inv s' \<and> arr_data s' \<noteq> [])
            \<and> elems s' = take i (elems s) @ x # drop i (elems s))"
    using s bytes.ins_law [of s i x] by (auto elim!: returns_mono dest: elems_unallocated)
  show "i < length (elems s) \<Longrightarrow> returns (ik_byte_array_delete s i)
      (\<lambda>s'. (array_inv s' \<and> arr_data s' \<noteq> [])
            \<and> elems s' = take i (elems s) @ drop (Suc i) (elems s))"
    using s bytes.del_law [of s i] delete_block [of s i]
    by (fastforce simp: returns_iff ik_byte_array_delete_def)
  show "array_inv (ik_byte_array_clear s) \<and> arr_data (ik_byte_array_clear s) \<noteq> []"
    using s bytes.clear_inv by (simp add: ik_byte_array_clear_def ik_array_clear_def)
  show "elems (ik_byte_array_clear s) = []"
    using s bytes.clear_elems by simp
qed

lemma get_text_repr:
  assumes "ib_repr U b s"
  shows "ed_before s @ ed_after s \<noteq> [] \<Longrightarrow>
      ik_input_buffer_get_text b = Some (utf8 (ed_before s) @ utf8 (ed_after s))
      \<and> arr_data (ib_text b) \<noteq> []"
    and "ed_before s @ ed_after s = [] \<Longrightarrow>
      ik_input_buffer_get_text b = None \<or> ik_input_buffer_get_text b = Some []"
  using assms elems_unallocated [of "ib_text b"]
  by (auto simp: ib_repr_def ik_input_buffer_get_text_def)

lemma invalidate_sel [simp]:
  "ib_text (ik_input_buffer_invalidate_layout b) = ib_text b"
  "ib_cursor (ik_input_buffer_invalidate_layout b) = ib_cursor b"
  "ib_cursor_byte_offset (ik_input_buffer_invalidate_layout b) = ib_cursor_byte_offset b"
  "ib_target_column (ik_input_buffer_invalidate_layout b) = ib_target_column b"
  "layout_ok U (ik_input_buffer_invalidate_layout b)"
  "layout_ok U ((ik_input_buffer_invalidate_layout b)\<lparr>ib_cursor := c\<rparr>)"
  by (simp_all add: ik_input_buffer_invalidate_layout_def layout_ok_def)

text \<open>The end of every edit: with the new text and offset in place, synchronising the cursor yields
  a representation.\<close>

lemma sync_edit:
  assumes "utf8proc_ok U" and "array_inv (ib_text b) \<and> arr_data (ib_text b) \<noteq> []"
    and "elems (ib_text b) = utf8 l @ utf8 r"
    and "scalars l" and "scalars r" and "ib_cursor_byte_offset b = length (utf8 l)"
    and "ib_target_column b = col" and "layout_ok U (b\<lparr>ib_cursor := undefined\<rparr>)"
  shows "returns (sync_cursor U b) (\<lambda>b'. ib_repr U b' (ed_at U l r col))"
proof -
  have "sync_cursor U b
      = Inr (b\<lparr>ib_cursor := \<lparr>cur_byte_offset = length (utf8 l), cur_grapheme_offset = clusters U (- 1) l\<rparr>\<rparr>)"
    using assms by (intro sync_cursor_eq) simp_all
  then show ?thesis using assms by (simp add: ib_repr_def ed_at_def layout_ok_def)
qed

subsection \<open>Edits at the cursor\<close>

lemma create_refines: "returns ik_input_buffer_create (\<lambda>b. ib_repr U b ed_empty)"
proof -
  obtain t where t: "ik_byte_array_create 64 = Inr t" "array_inv t" "elems t = []"
    using array_create_inv [of 1 64] by (auto simp: ik_byte_array_create_def returns_iff)
  then show ?thesis
    by (simp add: ik_input_buffer_create_def ik_input_buffer_cursor_create_def ib_repr_def
        ed_empty_def layout_ok_def)
qed

lemma clear_refines: "ib_repr U b s \<Longrightarrow> ib_repr U (ik_input_buffer_clear b) ed_empty"
  using bytes.clear_inv [of "ib_text b"] bytes.clear_elems [of "ib_text b"]
  by (simp add: ib_repr_def ed_empty_def ik_input_buffer_clear_def Let_def)

lemma set_text_refines:
  assumes "ib_repr U b s" and "scalars r"
  shows "returns (ik_input_buffer_set_text b (Some (utf8 r)))
    (\<lambda>b'. ib_repr U b' \<lparr>ed_before = [], ed_after = r, ed_column = 0, ed_graphemes = 0\<rparr>)"
  using assms unfolding ik_input_buffer_set_text_def option.case
  by (intro returns_bindI [OF bytes.set_all_spec]) (simp_all add: ib_repr_def)

lemma insert_refines:
  assumes "utf8proc_ok U" and "ib_repr U b s" and "is_scalar c"
  shows "returns (ik_input_buffer_insert_codepoint U b c) (\<lambda>b'. ib_repr U b' (ed_insert U c s))"
proof -
  let ?l = "ed_before s" and ?r = "ed_after s"
  have ins: "returns (insert_all ik_byte_array_insert (ib_text b) (length (utf8 ?l)) (encode_utf8 c))
      (\<lambda>t. array_inv t \<and> elems t = utf8 ?l @ encode_utf8 c @ utf8 ?r)"
    using assms(2) bytes.insert_all_spec [of "ib_text b" "length (utf8 ?l)" "encode_utf8 c"]
    by (auto simp: ib_repr_def elim: returns_mono)
  show ?thesis
    using assms(1,3) ib_reprD [OF assms(2)] length_encode_pos [OF assms(3)]
    unfolding ik_input_buffer_insert_codepoint_def ed_insert_def Let_def
    by (simp, intro returns_bindI [OF ins] sync_edit)
       (auto dest!: elems_unallocated)
qed

lemma newline_refines:
  assumes "utf8proc_ok U" and "ib_repr U b s"
  shows "returns (ik_input_buffer_insert_newline U b) (\<lambda>b'. ib_repr U b' (ed_insert U 10 s))"
proof -
  have "encode_utf8 10 = [10]" and "is_scalar 10" by code_simp+
  moreover from this have "ik_input_buffer_insert_newline U b = ik_input_buffer_insert_codepoint U b 10"
    by (simp add: ik_input_buffer_insert_newline_def ik_input_buffer_insert_codepoint_def)
       (cases "ik_byte_array_insert (ib_text b) (ib_cursor_byte_offset b) 10"; simp)
  ultimately show ?thesis using insert_refines [OF assms, of 10] by simp
qed

text \<open>Cutting \<open>m\<close> out of \<open>l @ m @ r\<close>.\<close>

lemma cut_spec:
  assumes "array_inv t" and "arr_data t \<noteq> []" and "elems t = utf8 l @ utf8 m @ utf8 r"
  shows "returns (delete_n ik_byte_array_delete t (length (utf8 l)) (length (utf8 m)))
    (\<lambda>t'. (array_inv t' \<and> arr_data t' \<noteq> []) \<and> elems t' = utf8 l @ utf8 r)"
  using live.delete_n_spec [of t "length (utf8 l)" "length (utf8 m)"] assms
  by (auto simp: length_elems [symmetric] elim: returns_mono)

lemma backspace_refines:
  assumes "utf8proc_ok U" and "ib_repr U b s"
  shows "returns (ik_input_buffer_backspace U b) (\<lambda>b'. ib_repr U b' (ed_backspace U s))"
proof (cases "ed_before s = []")
  case True
  with assms show ?thesis by (simp add: ik_input_buffer_backspace_def ed_backspace_def ib_repr_def)
next
  case False
  then obtain l c where l: "ed_before s = l @ [c]" by (metis rev_exhaust)
  let ?r = "ed_after s"
  have r: "array_inv (ib_text b)" "elems (ib_text b) = utf8 l @ encode_utf8 c @ utf8 ?r"
    "scalars l" "is_scalar c" "scalars ?r"
    "ib_cursor_byte_offset b = length (utf8 l) + length (encode_utf8 c)"
    "arr_data (ib_text b) \<noteq> []"
    using assms(2) get_text_repr(1) [OF assms(2)] l by (simp_all add: ib_repr_def)
  have cut: "returns (delete_n ik_byte_array_delete (ib_text b) (length (utf8 l)) (length (encode_utf8 c)))
      (\<lambda>t. (array_inv t \<and> arr_data t \<noteq> []) \<and> elems t = utf8 l @ utf8 ?r)"
    using cut_spec [of "ib_text b" l "[c]" ?r] r by simp
  show ?thesis
    using r assms(1) l length_encode_pos [OF r(4)] find_prev_char_start_utf8 [OF is_scalar_le [OF r(4)]]
    unfolding ik_input_buffer_backspace_def ed_backspace_def
    by (simp, intro returns_bindI [OF cut] sync_edit) auto
qed

lemma delete_refines:
  assumes "utf8proc_ok U" and "ib_repr U b s"
  shows "returns (ik_input_buffer_delete U b) (\<lambda>b'. ib_repr U b' (ed_delete U s))"
proof (cases "ed_after s")
  case Nil
  with assms show ?thesis
    by (simp add: ik_input_buffer_delete_def ed_delete_def ib_repr_def ik_byte_array_size_def
        ik_array_size_def flip: length_elems)
next
  case (Cons c r)
  let ?l = "ed_before s"
  have r: "array_inv (ib_text b)" "elems (ib_text b) = utf8 ?l @ encode_utf8 c @ utf8 r"
    "scalars ?l" "is_scalar c" "scalars r" "ib_cursor_byte_offset b = length (utf8 ?l)"
    "arr_data (ib_text b) \<noteq> []"
    using assms(2) get_text_repr(1) [OF assms(2)] Cons by (simp_all add: ib_repr_def)
  have "ik_byte_array_size (ib_text b) = length (elems (ib_text b))"
    using r(1) by (simp add: ik_byte_array_size_def ik_array_size_def)
  then have lt: "\<not> ik_byte_array_size (ib_text b) \<le> length (utf8 ?l)"
    using length_encode_pos [OF r(4)] r(2) by simp
  have cut: "returns (delete_n ik_byte_array_delete (ib_text b) (length (utf8 ?l)) (length (encode_utf8 c)))
      (\<lambda>t. (array_inv t \<and> arr_data t \<noteq> []) \<and> elems t = utf8 ?l @ utf8 r)"
    using cut_spec [of "ib_text b" ?l "[c]" r] r by simp
  show ?thesis
    using r assms(1) Cons lt find_next_char_end_utf8 [OF is_scalar_le [OF r(4)], of "utf8 ?l" "utf8 r"]
    unfolding ik_input_buffer_delete_def ed_delete_def
    by (simp, intro returns_bindI [OF cut] sync_edit) auto
qed

subsection \<open>Horizontal movement\<close>

lemma utf8_take_drop [simp]:
  "utf8 (take k l) @ utf8 (drop k l) = utf8 l"
  "utf8 (take k l) @ utf8 (drop k l) @ bs = utf8 l @ bs"
  by (simp_all flip: utf8_simps(3) append_assoc)

lemma left_refines:
  assumes "utf8proc_ok U" and "ib_repr U b s"
  shows "returns (ik_input_buffer_cursor_left U b) (\<lambda>b'. ib_repr U b' (ed_left U s))"
proof (cases "ed_before s = []")
  case True
  with assms show ?thesis by (simp add: ik_input_buffer_cursor_left_def ed_left_def ib_repr_def)
next
  case False
  let ?l = "ed_before s" and ?k = "prev_cluster U (ed_before s)"
  show ?thesis
    using assms False get_text_repr(1) [OF assms(2)]
      cursor_move_left_utf8 [OF assms(1), of ?l "ed_after s" "ib_cursor b"]
    by (simp add: ik_input_buffer_cursor_left_def ed_left_def ed_at_def ib_repr_def Let_def
        list_all_take list_all_drop layout_ok_def)
qed

lemma right_refines:
  assumes "utf8proc_ok U" and "ib_repr U b s"
  shows "returns (ik_input_buffer_cursor_right U b) (\<lambda>b'. ib_repr U b' (ed_right U s))"
proof (cases "ed_after s = []")
  case True
  then have "ik_input_buffer_get_text b = None \<or>
      ik_input_buffer_get_text b = Some (utf8 (ed_before s))"
    using get_text_repr [OF assms(2)] by (cases "ed_before s = []") auto
  with True assms show ?thesis
    by (auto simp: ik_input_buffer_cursor_right_def ed_right_def ib_repr_def)
next
  case False
  let ?r = "ed_after s" and ?k = "next_cluster U (ed_after s)"
  show ?thesis
    using assms False get_text_repr(1) [OF assms(2)]
      cursor_move_right_utf8 [OF assms(1), of ?r "ib_cursor b" "ed_before s"]
    by (simp add: ik_input_buffer_cursor_right_def ed_right_def ib_repr_def Let_def
        list_all_take list_all_drop layout_ok_def)
qed

end
