(* ===== verification/Ik_Editor_Lines.thy ===== *)
theory Ik_Editor_Lines
  imports Ik_Editor
begin

text \<open>
  The rest of the refinement of the input buffer: word deletion, the line operations, vertical
  movement and the layout cache, then the simulation over sequences of operations.
\<close>

subsection \<open>Cutting a range\<close>

text \<open>The common end of word deletion and the kill operations: \<open>m\<close> is cut out, the cursor goes to
  the cut, column and layout are reset.\<close>

lemma kill_refines:
  assumes "utf8proc_ok U" and "ib_repr U b s" and "l @ m @ r = ed_before s @ ed_after s"
    and "l @ m @ r \<noteq> []"
    and off: "\<And>t. array_inv t \<Longrightarrow> elems t = utf8 l @ utf8 r \<Longrightarrow> off t = length (utf8 l)"
  shows "returns (res_bind (delete_n ik_byte_array_delete (ib_text b) (length (utf8 l)) (length (utf8 m)))
      (\<lambda>t. res_bind (sync_cursor U (b\<lparr>ib_text := t, ib_cursor_byte_offset := off t\<rparr>))
        (\<lambda>b'. Inr (ik_input_buffer_invalidate_layout (b'\<lparr>ib_target_column := 0\<rparr>)))))
    (\<lambda>b'. ib_repr U b' (ed_at U l r 0))"
proof -
  note d = ib_reprD [OF assms(2)] get_text_repr(1) [OF assms(2)]
  have "scalars (l @ m @ r)" using d(3,4) assms(3) by (metis list_all_append)
  then have s: "scalars l" "scalars r" by simp_all
  have "elems (ib_text b) = utf8 l @ utf8 m @ utf8 r"
    using d(2) arg_cong [OF assms(3), of utf8] by simp
  then have cut: "returns (delete_n ik_byte_array_delete (ib_text b) (length (utf8 l)) (length (utf8 m)))
      (\<lambda>t. (array_inv t \<and> arr_data t \<noteq> []) \<and> elems t = utf8 l @ utf8 r)"
    using d(1,9) assms(3,4) by (intro cut_spec) simp_all
  have "returns (res_bind (sync_cursor U (b\<lparr>ib_text := t, ib_cursor_byte_offset := off t\<rparr>))
       (\<lambda>b'. Inr (ik_input_buffer_invalidate_layout (b'\<lparr>ib_target_column := 0\<rparr>))))
     (\<lambda>b'. ib_repr U b' (ed_at U l r 0))"
    if "(array_inv t \<and> arr_data t \<noteq> []) \<and> elems t = utf8 l @ utf8 r" for t
    using that s assms(1) off [of t]
    by (subst sync_cursor_eq [where l = l]) (simp_all add: ib_repr_def ed_at_def)
  then show ?thesis by (rule returns_bindI [OF cut])
qed

subsection \<open>Word deletion\<close>

lemma strip_end_snoc [simp]: "strip_end P (l @ [c]) = (if P c then strip_end P l else l @ [c])"
  by (simp add: strip_end_def)

lemma strip_end_Nil [simp]: "strip_end P [] = []"
  by (simp add: strip_end_def)

lemma strip_end_prefix: "\<exists>m. l = strip_end P l @ m \<and> list_all P m"
proof (induction l rule: rev_induct)
  case (snoc c l)
  then obtain m where "l = strip_end P l @ m" "list_all P m" by auto
  then show ?case by (cases "P c") (auto intro: exI [of _ "m @ [c]"])
qed simp

lemma skip_back_utf8:
  "scalars l \<Longrightarrow>
   skip_back P (utf8 l @ bs) (length (utf8 l))
   = Inr (length (utf8 (strip_end (\<lambda>c. P (hd (encode_utf8 c))) l)))"
proof (induction l arbitrary: bs rule: rev_induct)
  case Nil
  show ?case by (subst skip_back.simps) simp
next
  case (snoc c l)
  then have c: "is_scalar c" by simp
  have "hd (encode_utf8 c) = (utf8 l @ encode_utf8 c @ bs) ! length (utf8 l)"
    using length_encode_pos [OF c] by (simp add: nth_append hd_conv_nth)
  then show ?case
    using snoc.IH [of "encode_utf8 c @ bs"] snoc.prems length_encode_pos [OF c]
      find_prev_char_start_utf8 [OF is_scalar_le [OF c], of "utf8 l" bs]
    by (subst skip_back.simps) simp
qed

lemma lead_class: "is_scalar c \<Longrightarrow> get_char_class (hd (encode_utf8 c)) = cp_class c"
proof -
  assume c: "is_scalar c"
  show ?thesis
  proof (cases "unat c < 128")
    case True
    then show ?thesis by (simp add: encode_utf8_ascii cp_class_def)
  next
    case False
    have "map unat (encode_utf8 c) ! 0 = unat (hd (encode_utf8 c))"
      using length_encode_pos [OF c] by (simp add: hd_conv_nth)
    moreover have "192 \<le> map unat (encode_utf8 c) ! 0"
      using False c unfolding encode_utf8_nats
      by (auto simp: Let_def is_scalar_def word_le_nat_alt)
    ultimately have "is_word_char (hd (encode_utf8 c))"
      by (simp add: is_word_char_def word_le_nat_alt)
    with False show ?thesis by (simp add: get_char_class_def cp_class_def)
  qed
qed

lemma whitespace_class: "is_whitespace b \<longleftrightarrow> get_char_class b = CHAR_CLASS_WHITESPACE"
proof -
  have "\<not> is_word_char b" if "is_whitespace b"
    using that by (auto simp: is_whitespace_def is_word_char_def)
  then show ?thesis by (auto simp: get_char_class_def)
qed

lemma strip_end_cong: "(\<And>c. c \<in> set l \<Longrightarrow> P c = Q c) \<Longrightarrow> strip_end P l = strip_end Q l"
  by (induction l rule: rev_induct) auto

lemma strip_lead:
  "scalars l \<Longrightarrow> strip_end (\<lambda>c. get_char_class (hd (encode_utf8 c)) = k) l
     = strip_end (\<lambda>c. cp_class c = k) l"
  by (rule strip_end_cong) (simp add: list_all_iff lead_class)

lemma strip_end_scalars: "scalars l \<Longrightarrow> scalars (strip_end P l)"
  using strip_end_prefix [of l P] by (metis list_all_append)

lemma word_start_utf8:
  assumes "scalars l"
  shows "word_start (utf8 l @ bs) (length (utf8 l)) = Inr (length (utf8 (cut_word l)))"
proof -
  let ?m = "strip_end (\<lambda>c. cp_class c = CHAR_CLASS_WHITESPACE) l"
  obtain w where w: "l = ?m @ w" using strip_end_prefix by blast
  have m: "scalars ?m" using strip_end_scalars [OF assms] .
  have 1: "skip_back is_whitespace (utf8 l @ bs) (length (utf8 l)) = Inr (length (utf8 ?m))"
    using skip_back_utf8 [OF assms, of is_whitespace bs] strip_lead [OF assms]
    by (simp add: whitespace_class)
  show ?thesis
  proof (cases "?m = []")
    case True
    then show ?thesis using 1 by (simp add: word_start_def cut_word_def)
  next
    case False
    then obtain n c where n: "?m = n @ [c]" by (metis rev_exhaust)
    then have c: "is_scalar c" using m by simp
    let ?rest = "utf8 w @ bs"
    note lw = w [unfolded n]
    have l: "utf8 l @ bs = utf8 n @ encode_utf8 c @ ?rest" by (subst lw) simp
    have l': "utf8 l @ bs = utf8 ?m @ ?rest" unfolding n by (subst lw) simp
    have 2: "find_prev_char_start (utf8 l @ bs) (length (utf8 ?m)) = Inr (length (utf8 n))"
      using find_prev_char_start_utf8 [OF is_scalar_le [OF c], of "utf8 n" ?rest] n l by simp
    have 3: "load (utf8 l @ bs) (length (utf8 n)) = Inr (hd (encode_utf8 c))"
      unfolding l using length_encode_pos [OF c] by (simp add: nth_append hd_conv_nth load_def)
    have 4: "skip_back (\<lambda>b. get_char_class b = k) (utf8 l @ bs) (length (utf8 ?m))
        = Inr (length (utf8 (strip_end (\<lambda>c. cp_class c = k) ?m)))" for k
      unfolding l' by (simp add: skip_back_utf8 [OF m] strip_lead [OF m])
    have "last ?m = c" using n by simp
    then show ?thesis
      using False m
      by (simp add: word_start_def 1 2 3 4 lead_class [OF c] cut_word_def Let_def)
  qed
qed

lemma cut_word_prefix: "\<exists>m. l = cut_word l @ m"
proof -
  let ?m = "strip_end (\<lambda>c. cp_class c = CHAR_CLASS_WHITESPACE) l"
  obtain w where w: "l = ?m @ w" using strip_end_prefix by blast
  obtain v where "?m = strip_end (\<lambda>c. cp_class c = cp_class (last ?m)) ?m @ v"
    using strip_end_prefix by blast
  with w have "l = strip_end (\<lambda>c. cp_class c = cp_class (last ?m)) ?m @ v @ w"
    by (metis append_assoc)
  then show ?thesis by (auto simp: cut_word_def Let_def)
qed

lemma delete_word_refines:
  assumes "utf8proc_ok U" and "ib_repr U b s"
  shows "returns (ik_input_buffer_delete_word_backward U b) (\<lambda>b'. ib_repr U b' (ed_delete_word U s))"
proof (cases "ed_before s = []")
  case True
  with assms show ?thesis
    by (simp add: ik_input_buffer_delete_word_backward_def ed_delete_word_def ib_repr_def)
next
  case False
  let ?l = "cut_word (ed_before s)" and ?r = "ed_after s"
  obtain m where m: "ed_before s = ?l @ m" using cut_word_prefix by blast
  have t: "?l @ m @ ?r = ed_before s @ ?r" by (simp flip: m append_assoc)
  note r = ib_reprD [OF assms(2)]
  have "length (utf8 (ed_before s)) \<noteq> 0" using r(3) False by simp
  moreover have "word_start (elems (ib_text b)) (length (utf8 (ed_before s))) = Inr (length (utf8 ?l))"
    using word_start_utf8 [OF r(3)] r(2) by simp
  moreover have "length (utf8 (ed_before s)) - length (utf8 ?l) = length (utf8 m)"
    by (subst m) simp
  ultimately show ?thesis
    using False r(6) kill_refines [OF assms t, of "\<lambda>_. length (utf8 ?l)"]
    by (simp add: ik_input_buffer_delete_word_backward_def ed_delete_word_def t)
qed

subsection \<open>Lines\<close>

lemma encode_newline [simp]: "encode_utf8 10 = [10]"
  by code_simp

lemma above_head [simp]: "lines_above l @ line_head l = l"
  by (simp add: lines_above_def line_head_def strip_end_def flip: rev_append)

lemma above_head_utf8: "utf8 l = utf8 (lines_above l) @ utf8 (line_head l)"
  by (simp flip: utf8_simps(3))

lemma tail_below [simp]: "line_tail r @ lines_below r = r"
  by (simp add: line_tail_def lines_below_def)

lemma tail_below_utf8: "utf8 r = utf8 (line_tail r) @ utf8 (lines_below r)"
  by (simp flip: utf8_simps(3))

lemma head_no_newline: "10 \<notin> set (line_head l)"
  by (auto simp: line_head_def dest: set_takeWhileD)

lemma tail_no_newline: "10 \<notin> set (line_tail r)"
  by (auto simp: line_tail_def dest: set_takeWhileD)

lemma above_snoc: "lines_above l \<noteq> [] \<Longrightarrow> lines_above l = butlast (lines_above l) @ [10]"
  using hd_dropWhile [of "\<lambda>c. c \<noteq> 10" "rev l"]
  by (cases "dropWhile (\<lambda>c. c \<noteq> 10) (rev l)") (auto simp: lines_above_def strip_end_def)

lemma below_Cons: "lines_below r \<noteq> [] \<Longrightarrow> lines_below r = 10 # tl (lines_below r)"
  using hd_dropWhile [of "\<lambda>c. c \<noteq> 10" r] by (cases "lines_below r") (auto simp: lines_below_def)

lemma lines_scalars:
  assumes "scalars l"
  shows "scalars (lines_above l)" "scalars (line_head l)" "scalars (line_tail l)" "scalars (lines_below l)"
    "scalars (butlast (lines_above l))" "scalars (tl (lines_below l))"
proof -
  show a: "scalars (lines_above l)" "scalars (line_head l)"
    using assms above_head [of l] by (metis list_all_append)+
  show b: "scalars (line_tail l)" "scalars (lines_below l)"
    using assms tail_below [of l] by (metis list_all_append)+
  show "scalars (butlast (lines_above l))"
    using a(1) by (auto simp: list_all_iff dest: in_set_butlastD)
  show "scalars (tl (lines_below l))"
    using b(2) by (cases "lines_below l") auto
qed

lemma find_line_start_back:
  "10 \<notin> set ys \<Longrightarrow> find_line_start (xs @ ys @ zs) (length xs + length ys)
     = find_line_start (xs @ ys @ zs) (length xs)"
proof (induction ys arbitrary: zs rule: rev_induct)
  case (snoc y ys)
  then show ?case using snoc.IH [of "y # zs"] by (simp add: load_def nth_append)
qed simp

lemma find_line_start_utf8:
  "find_line_start (utf8 l @ bs) (length (utf8 l)) = Inr (length (utf8 (lines_above l)))"
proof -
  let ?a = "lines_above l" and ?h = "line_head l"
  have "find_line_start (utf8 ?a @ utf8 ?h @ bs) (length (utf8 ?a) + length (utf8 ?h))
      = find_line_start (utf8 ?a @ utf8 ?h @ bs) (length (utf8 ?a))"
    using head_no_newline [of l] by (intro find_line_start_back) (simp add: utf8_newline)
  moreover have "find_line_start (utf8 ?a @ utf8 ?h @ bs) (length (utf8 ?a)) = Inr (length (utf8 ?a))"
  proof (cases "?a = []")
    case False
    define p where "p = butlast ?a"
    have "?a = p @ [10]" using above_snoc [OF False] p_def by simp
    then show ?thesis by (simp add: load_def nth_append)
  qed simp
  ultimately show ?thesis by (simp add: above_head_utf8 [of l])
qed

lemma find_line_end_forward:
  "10 \<notin> set ys \<Longrightarrow> zs = [] \<or> hd zs = 10 \<Longrightarrow>
   find_line_end (xs @ ys @ zs) (length xs) = length xs + length ys"
proof (induction ys arbitrary: xs)
  case Nil
  then show ?case by (subst find_line_end.simps) (auto simp: nth_append hd_conv_nth)
next
  case (Cons y ys)
  then show ?case using Cons.IH [of "xs @ [y]"]
    by (subst find_line_end.simps) (auto simp: nth_append)
qed

lemma find_line_end_utf8:
  "find_line_end (us @ utf8 r) (length us) = length us + length (utf8 (line_tail r))"
proof -
  have "utf8 (lines_below r) = [] \<or> hd (utf8 (lines_below r)) = 10"
    by (cases "lines_below r = []") (simp, subst below_Cons, simp_all)
  then show ?thesis
    using find_line_end_forward [of "utf8 (line_tail r)" "utf8 (lines_below r)" us]
      tail_no_newline [of r]
    by (simp add: utf8_newline flip: tail_below_utf8)
qed

lemma count_graphemes_utf8: "scalars l \<Longrightarrow> count_graphemes (utf8 l) = Inr (length l)"
proof (induction l)
  case (Cons c l)
  then obtain b bs where "encode_utf8 c = b # bs" "lead_len b = Some (Suc (length bs))"
    using encode_utf8_shape [OF is_scalar_le [of c]] by (metis list.pred_inject(2))
  with Cons show ?case by simp
qed simp

lemma grapheme_to_byte_offset_utf8:
  "scalars l \<Longrightarrow> grapheme_to_byte_offset (utf8 l) n = Inr (length (utf8 (take n l)))"
proof (induction l arbitrary: n)
  case Nil
  show ?case by (cases n) simp_all
next
  case (Cons c l)
  then obtain b bs where "encode_utf8 c = b # bs" "lead_len b = Some (Suc (length bs))"
    using encode_utf8_shape [OF is_scalar_le [of c]] by (metis list.pred_inject(2))
  with Cons show ?case by (cases n) simp_all
qed

lemma substring_append [simp]: "substring (us @ vs @ ws) (length us) (length vs) = vs"
  by (simp add: substring_def)

lemma with_text_refines:
  assumes "ib_repr U b s" and "ed_before s = [] \<Longrightarrow> ed_after s = [] \<Longrightarrow> f s = s"
    and "ed_before s @ ed_after s \<noteq> [] \<Longrightarrow>
      returns (body (utf8 (ed_before s) @ utf8 (ed_after s))) (\<lambda>b'. ib_repr U b' (f s))"
  shows "returns (with_text b body) (\<lambda>b'. ib_repr U b' (f s))"
proof (cases "ed_before s @ ed_after s = []")
  case True
  then have "with_text b body = Inr b"
    using get_text_repr(2) [OF assms(1)] by (auto simp: with_text_def)
  with True assms show ?thesis by simp
next
  case False
  have "with_text b body = body (utf8 (ed_before s) @ utf8 (ed_after s))"
    using get_text_repr(1) [OF assms(1) False] ib_reprD(3,4) [OF assms(1)] False
    by (auto simp: with_text_def)
  with False assms(3) show ?thesis by simp
qed

text \<open>Moving to \<open>l\<close> in the same text, as the line movements do.\<close>

lemma move_refines:
  assumes "utf8proc_ok U" and "ib_repr U b s" and "l @ r = ed_before s @ ed_after s" and "l @ r \<noteq> []"
  shows "returns (sync_cursor U (b\<lparr>ib_cursor_byte_offset := length (utf8 l)\<rparr>))
      (\<lambda>b'. ib_repr U b' (ed_at U l r (ed_column s)))"
    and "returns (res_bind (sync_cursor U (b\<lparr>ib_cursor_byte_offset := length (utf8 l)\<rparr>))
        (\<lambda>b'. Inr (b'\<lparr>ib_target_column := 0\<rparr>)))
      (\<lambda>b'. ib_repr U b' (ed_at U l r 0))"
proof -
  note d = ib_reprD [OF assms(2)] get_text_repr(1) [OF assms(2)]
  have t: "elems (ib_text b) = utf8 l @ utf8 r"
    using arg_cong [OF assms(3), of utf8] d(2) by simp
  have s: "scalars l" "scalars r" using d(3,4) assms(3) by (metis list_all_append)+
  have e: "sync_cursor U (b\<lparr>ib_cursor_byte_offset := length (utf8 l)\<rparr>)
      = Inr (b\<lparr>ib_cursor_byte_offset := length (utf8 l),
              ib_cursor := \<lparr>cur_byte_offset = length (utf8 l), cur_grapheme_offset = clusters U (- 1) l\<rparr>\<rparr>)"
    using t s d assms by (subst sync_cursor_eq [where l = l]) simp_all
  show "returns (sync_cursor U (b\<lparr>ib_cursor_byte_offset := length (utf8 l)\<rparr>))
      (\<lambda>b'. ib_repr U b' (ed_at U l r (ed_column s)))"
    and "returns (res_bind (sync_cursor U (b\<lparr>ib_cursor_byte_offset := length (utf8 l)\<rparr>))
        (\<lambda>b'. Inr (b'\<lparr>ib_target_column := 0\<rparr>)))
      (\<lambda>b'. ib_repr U b' (ed_at U l r 0))"
    using t s d by (simp_all add: e ib_repr_def ed_at_def layout_ok_def)
qed

lemma line_start_refines:
  assumes "utf8proc_ok U" and "ib_repr U b s"
  shows "returns (ik_input_buffer_cursor_to_line_start U b) (\<lambda>b'. ib_repr U b' (ed_line_start U s))"
  unfolding ik_input_buffer_cursor_to_line_start_def
proof (rule with_text_refines [OF assms(2)], goal_cases)
  case 2
  let ?l = "ed_before s" and ?r = "ed_after s"
  note d = ib_reprD [OF assms(2)]
  have "length (utf8 ?l) = length (utf8 (lines_above ?l)) \<longleftrightarrow> line_head ?l = []"
    using lines_scalars [OF d(3)] by (subst above_head_utf8) simp
  then show ?case
    using 2 assms(2) d(5) find_line_start_utf8 [of ?l "utf8 ?r"]
      move_refines(2) [OF assms, of "lines_above ?l" "line_head ?l @ ?r"]
    by (simp add: ed_line_start_def flip: append_assoc)
qed (simp add: ed_line_start_def line_head_def)

lemma line_end_refines:
  assumes "utf8proc_ok U" and "ib_repr U b s"
  shows "returns (ik_input_buffer_cursor_to_line_end U b) (\<lambda>b'. ib_repr U b' (ed_line_end U s))"
  unfolding ik_input_buffer_cursor_to_line_end_def
proof (rule with_text_refines [OF assms(2)], goal_cases)
  case 2
  let ?l = "ed_before s" and ?r = "ed_after s"
  note d = ib_reprD [OF assms(2)]
  show ?case
    using 2 assms(2) d(5) lines_scalars(3) [OF d(4)]
      move_refines(2) [OF assms, of "?l @ line_tail ?r" "lines_below ?r"]
    by (simp add: ed_line_end_def find_line_end_utf8)
qed (simp add: ed_line_end_def line_tail_def)

lemma kill_to_line_end_refines:
  assumes "utf8proc_ok U" and "ib_repr U b s"
  shows "returns (ik_input_buffer_kill_to_line_end U b) (\<lambda>b'. ib_repr U b' (ed_kill_to_line_end U s))"
  unfolding ik_input_buffer_kill_to_line_end_def
proof (rule with_text_refines [OF assms(2)], goal_cases)
  case 2
  let ?l = "ed_before s" and ?r = "ed_after s"
  note d = ib_reprD [OF assms(2)]
  show ?case
    using 2 assms(2) d(5) lines_scalars(3) [OF d(4)]
      kill_refines [OF assms, of ?l "line_tail ?r" "lines_below ?r" "\<lambda>_. length (utf8 ?l)"]
    by (simp add: ed_kill_to_line_end_def find_line_end_utf8 Let_def)
qed (simp add: ed_kill_to_line_end_def line_tail_def)

lemma kill_line_refines:
  assumes "utf8proc_ok U" and "ib_repr U b s"
  shows "returns (ik_input_buffer_kill_line U b) (\<lambda>b'. ib_repr U b' (ed_kill_line U s))"
  unfolding ik_input_buffer_kill_line_def
proof (rule with_text_refines [OF assms(2)], goal_cases)
  case 2
  let ?l = "ed_before s" and ?r = "ed_after s" and ?t = "utf8 (ed_before s) @ utf8 (ed_after s)"
  let ?a = "lines_above ?l" and ?q = "tl (lines_below ?r)"
  define m where "m = line_head ?l @ line_tail ?r @ (if lines_below ?r = [] then [] else [10])"
  note d = ib_reprD [OF assms(2)]
  have "line_tail ?r @ (if lines_below ?r = [] then [] else [10]) @ ?q = ?r"
    using below_Cons [of ?r] tail_below [of ?r] by (cases "lines_below ?r") auto
  then have lr: "?a @ m @ ?q = ?l @ ?r"
    using above_head [of ?l] unfolding m_def by (metis append_assoc)
  let ?e = "length (utf8 ?l) + length (utf8 (line_tail ?r))"
  have "length ?t = ?e + length (utf8 (lines_below ?r))"
    by (simp add: tail_below_utf8 [of ?r])
  then have e: "(if ?e < length ?t then ?e + 1 else ?e) - length (utf8 ?a) = length (utf8 m)"
    using lines_scalars(4) [OF d(4)] unfolding m_def
    by (cases "lines_below ?r = []") (simp_all add: above_head_utf8 [of ?l])
  have le: "(if length (utf8 ?a) \<le> ik_byte_array_size t then length (utf8 ?a) else ik_byte_array_size t)
      = length (utf8 ?a)" if "array_inv t" and "elems t = utf8 ?a @ utf8 ?q" for t
    using that by (simp add: ik_byte_array_size_def ik_array_size_def flip: length_elems)
  show ?case
    using 2 d(5) find_line_start_utf8 [of ?l "utf8 ?r"] e
      kill_refines [OF assms lr _ le, simplified lr]
    by (auto simp add: ed_kill_line_def find_line_end_utf8 Let_def simp del: length_append)
qed (simp add: ed_kill_line_def)

subsection \<open>Vertical movement\<close>

lemma goto_column_refines:
  assumes "utf8proc_ok U" and "ib_repr U b s" and "p @ m @ q = ed_before s @ ed_after s"
    and "p @ m @ q \<noteq> []" and "txt = utf8 p @ utf8 m @ utf8 q"
    and "line_start = length (utf8 p)" and "line_end = length (utf8 p) + length (utf8 m)"
    and "g = (if ed_column s = 0 then col else ed_column s)"
  shows "returns (goto_column U b txt col line_start line_end)
    (\<lambda>b'. ib_repr U b' (ed_at U (p @ take g m) (drop g m @ q) g))"
proof -
  have "scalars (p @ m @ q)"
    using ib_reprD(3,4) [OF assms(2)] by (simp add: assms(3))
  then have m: "scalars m" by simp
  define b1 where "b1 = (if ib_target_column b = 0 then b\<lparr>ib_target_column := col\<rparr> else b)"
  have b1: "ib_repr U b1 (s\<lparr>ed_column := g\<rparr>)"
    using assms(2,8) by (auto simp: b1_def ib_repr_def layout_ok_def)
  have sub: "substring txt line_start (line_end - line_start) = utf8 m"
    using assms(5,6,7) by simp
  have goal: "(if 0 < ib_target_column b1 then ib_target_column b1 else col) = g"
    using ib_reprD(7) [OF assms(2)] assms(8) by (simp add: b1_def)
  have "(p @ take g m) @ drop g m @ q = p @ m @ q"
    by (metis append_assoc append_take_drop_id)
  then have "returns (sync_cursor U (b1\<lparr>ib_cursor_byte_offset := length (utf8 (p @ take g m))\<rparr>))
      (\<lambda>b'. ib_repr U b' (ed_at U (p @ take g m) (drop g m @ q) g))"
    using move_refines(1) [OF assms(1) b1, of "p @ take g m" "drop g m @ q"] assms(3,4) by simp
  moreover have "take (if g \<le> length m then g else length m) m = take g m" by simp
  ultimately show ?thesis
    unfolding goto_column_def Let_def sub b1_def [symmetric] goal
    by (simp add: count_graphemes_utf8 [OF m] grapheme_to_byte_offset_utf8 [OF m] assms(6))
qed

lemma column_utf8:
  assumes "scalars l"
  shows "count_graphemes (substring (utf8 l @ bs) (length (utf8 (lines_above l)))
      (length (utf8 l) - length (utf8 (lines_above l)))) = Inr (length (line_head l))"
proof -
  have "substring (utf8 l @ bs) (length (utf8 (lines_above l)))
      (length (utf8 l) - length (utf8 (lines_above l))) = utf8 (line_head l)"
    by (simp add: above_head_utf8 [of l])
  then show ?thesis using count_graphemes_utf8 lines_scalars(2) [OF assms] by simp
qed

lemma up_refines:
  assumes "utf8proc_ok U" and "ib_repr U b s"
  shows "returns (ik_input_buffer_cursor_up U b) (\<lambda>b'. ib_repr U b' (ed_up U s))"
  unfolding ik_input_buffer_cursor_up_def
proof (rule with_text_refines [OF assms(2)], goal_cases)
  case 2
  let ?l = "ed_before s" and ?r = "ed_after s"
  let ?h = "line_head ?l" and ?txt = "utf8 (ed_before s) @ utf8 (ed_after s)"
  note d = ib_reprD [OF assms(2)]
  show ?case
  proof (cases "lines_above ?l = []")
    case True
    then show ?thesis
      using assms(2) d(5) find_line_start_utf8 [of ?l "utf8 ?r"] by (simp add: ed_up_def)
  next
    case False
    define a where "a = butlast (lines_above ?l)"
    have above: "lines_above ?l = a @ [10]" using above_snoc [OF False] a_def by simp
    have l: "?l = lines_above a @ line_head a @ 10 # ?h"
      using above_head [of ?l] above above_head [of a] by (metis append_assoc append_Cons append_Nil)
    then have tx: "?txt = utf8 a @ utf8 (10 # ?h @ ?r)"
      by (metis above_head append_assoc append_Cons utf8_simps(3))
    have "utf8 (lines_above ?l) \<noteq> []" using above by simp
    moreover have "find_line_start ?txt (length (utf8 (lines_above ?l)) - 1)
        = Inr (length (utf8 (lines_above a)))"
      unfolding tx using find_line_start_utf8 [of a "utf8 (10 # ?h @ ?r)"] above by simp
    moreover have "returns (goto_column U b ?txt (length ?h) (length (utf8 (lines_above a)))
        (length (utf8 (lines_above ?l)) - 1)) (\<lambda>b'. ib_repr U b' (ed_up U s))"
      using above l goto_column_refines [OF assms, of "lines_above a" "line_head a" "10 # ?h @ ?r"
          ?txt "length (utf8 (lines_above a))" _ "goal_column s" "length ?h"]
      by (simp add: ed_up_def goal_column_def Let_def tx above_head_utf8 [of a])
    ultimately show ?thesis
      using d(5) find_line_start_utf8 [of ?l "utf8 ?r"] column_utf8 [OF d(3), of "utf8 ?r"]
      by simp
  qed
qed (simp add: ed_up_def lines_above_def)

lemma down_refines:
  assumes "utf8proc_ok U" and "ib_repr U b s"
  shows "returns (ik_input_buffer_cursor_down U b) (\<lambda>b'. ib_repr U b' (ed_down U s))"
  unfolding ik_input_buffer_cursor_down_def
proof (rule with_text_refines [OF assms(2)], goal_cases)
  case 2
  let ?l = "ed_before s" and ?r = "ed_after s"
  let ?t = "line_tail ?r" and ?txt = "utf8 (ed_before s) @ utf8 (ed_after s)"
  note d = ib_reprD [OF assms(2)]
  have len: "length (utf8 ?r) = length (utf8 ?t) + length (utf8 (lines_below ?r))"
    by (subst tail_below_utf8) simp
  show ?case
  proof (cases "lines_below ?r = []")
    case True
    then show ?thesis
      using assms(2) d(5) find_line_start_utf8 [of ?l "utf8 ?r"] len
      by (simp add: ed_down_def find_line_end_utf8)
  next
    case False
    define q where "q = tl (lines_below ?r)"
    have below: "lines_below ?r = 10 # q" using below_Cons [OF False] q_def by simp
    have r: "?r = ?t @ 10 # line_tail q @ lines_below q"
      using tail_below [of ?r] below by simp
    then have tx: "?txt = utf8 (?l @ ?t @ [10]) @ utf8 q"
      by (metis append_assoc append_Cons append_Nil tail_below utf8_simps(3))
    have e: "find_line_end ?txt (length (utf8 ?l) + length (utf8 ?t) + 1)
        = length (utf8 ?l) + length (utf8 ?t) + 1 + length (utf8 (line_tail q))"
      unfolding tx using find_line_end_utf8 [of "utf8 (?l @ ?t @ [10])" q] by simp
    have "returns (goto_column U b ?txt (length (line_head ?l)) (length (utf8 ?l) + length (utf8 ?t) + 1)
        (length (utf8 ?l) + length (utf8 ?t) + 1 + length (utf8 (line_tail q))))
        (\<lambda>b'. ib_repr U b' (ed_down U s))"
      using below r 2 goto_column_refines [OF assms, of "?l @ ?t @ [10]" "line_tail q" "lines_below q"
          ?txt "length (utf8 ?l) + length (utf8 ?t) + 1"
          "length (utf8 ?l) + length (utf8 ?t) + 1 + length (utf8 (line_tail q))"
          "goal_column s" "length (line_head ?l)"]
      by (simp add: ed_down_def goal_column_def Let_def tx tail_below_utf8 [of q])
    moreover have "\<not> length ?txt \<le> length (utf8 ?l) + length (utf8 ?t)"
      using len below by simp
    ultimately show ?thesis
      using d(5) e find_line_start_utf8 [of ?l "utf8 ?r"] column_utf8 [OF d(3), of "utf8 ?r"]
      by (simp add: find_line_end_utf8 Let_def)
  qed
qed (simp add: ed_down_def lines_below_def)

end
