(* ===== verification/Ik_Editor_Runs.thy ===== *)
theory Ik_Editor_Runs
  imports Ik_Editor_Lines
begin

text \<open>
  The layout cache of the input buffer and runs of operations.

  \<open>run_op\<close> names one call of the buffer interface, \<open>ed_op\<close> its abstract counterpart, and \<open>run_ops\<close>
  a sequence of calls. The simulation theorem covers every sequence of calls with well-formed
  arguments from a fresh buffer. The other theorems read consequences off the abstract editor.
\<close>

subsection \<open>Layout\<close>

lemma split_nl_nonempty [simp]: "split_nl bs \<noteq> []"
  by (induction bs) auto

lemma layout_loop_eq:
  "layout_loop U w (pre @ cur @ rest) (length pre + length cur) (length pre) n
   = n + line_rows U w (cur @ hd (split_nl rest)) + sum_list (map (line_rows U w) (tl (split_nl rest)))"
proof (induction rest arbitrary: pre cur n)
  case Nil
  show ?case
    by (subst layout_loop.simps) (simp add: layout_loop.simps substring_def)
next
  case (Cons b rest)
  show ?case
  proof (cases "b = 10")
    case True
    have "substring (pre @ cur @ 10 # rest) (length pre) (length cur) = cur"
      by (simp add: substring_def)
    moreover obtain y ys where "split_nl rest = y # ys" by (cases "split_nl rest") simp_all
    ultimately show ?thesis
      using True Cons.IH [of "pre @ cur @ [10]" "[]"]
      by (subst layout_loop.simps) (simp add: nth_append)
  next
    case False
    then show ?thesis
      using Cons.IH [of pre "cur @ [b]"] by (subst layout_loop.simps) (simp add: nth_append)
  qed
qed

lemma layout_loop_rows: "txt \<noteq> [] \<Longrightarrow> layout_loop U w txt 0 0 0 = text_rows U w txt"
  using layout_loop_eq [of U w "[]" "[]" "txt" 0]
  by (cases "split_nl txt") (simp_all add: text_rows_def)

lemma ensure_layout_refines:
  assumes "ib_repr U b s"
  shows "ib_repr U (ik_input_buffer_ensure_layout U b w) s"
    and "ik_input_buffer_get_physical_lines (ik_input_buffer_ensure_layout U b w)
      = text_rows U w (utf8 (ed_before s) @ utf8 (ed_after s))"
proof -
  note d = ib_reprD [OF assms]
  let ?b = "ik_input_buffer_ensure_layout U b w" and ?t = "elems (ib_text b)"
  have "ib_physical_lines ?b = text_rows U w ?t"
  proof (cases "ib_layout_dirty b = 0 \<and> ib_cached_width b = w")
    case True
    then show ?thesis using d(8) by (simp add: ik_input_buffer_ensure_layout_def layout_ok_def)
  next
    case False
    have "?t = [] \<Longrightarrow> text_rows U w ?t = 0" by (simp add: text_rows_def)
    with False show ?thesis
      using elems_unallocated [of "ib_text b"] layout_loop_rows [of ?t U w]
      by (auto simp: ik_input_buffer_ensure_layout_def ik_input_buffer_get_text_def)
  qed
  then show "ik_input_buffer_get_physical_lines ?b
      = text_rows U w (utf8 (ed_before s) @ utf8 (ed_after s))"
    and "ib_repr U ?b s"
    using d by (auto simp: ib_repr_def layout_ok_def ik_input_buffer_ensure_layout_def
        ik_input_buffer_get_physical_lines_def)
qed

text \<open>Without escape characters the width of a line is the sum of the widths of its code points.\<close>

definition cp_width :: "utf8proc \<Rightarrow> 32 word \<Rightarrow> nat" where
  "cp_width U c = nat (charwidth U c)"

lemma display_width_loop_utf8:
  assumes "utf8proc_ok U"
  shows "scalars l \<Longrightarrow> 27 \<notin> set l \<Longrightarrow>
    display_width_loop U (utf8 ds @ utf8 l) (length (utf8 ds)) w
    = w + sum_list (map (cp_width U) l)"
proof (induction l arbitrary: ds w)
  case Nil
  show ?case by (subst display_width_loop.simps) simp
next
  case (Cons c l)
  then have c: "is_scalar c" "c \<noteq> 27" by simp_all
  have "(0x1B :: byte) \<notin> set (encode_utf8 c)"
    using ascii_in_encoding [of 27 c] c(2) by (auto simp: word_unat_eq_iff)
  then have "encode_utf8 c ! 0 \<noteq> 0x1B"
    using length_encode_pos [OF c(1)] nth_mem [of 0 "encode_utf8 c"] by metis
  then have "(utf8 ds @ encode_utf8 c @ utf8 l) ! length (utf8 ds) \<noteq> 0x1B"
    using length_encode_pos [OF c(1)] by (simp add: nth_append)
  then have "ik_ansi_skip_csi (utf8 ds @ encode_utf8 c @ utf8 l) (length (utf8 ds)) = 0"
    by (simp add: ik_ansi_skip_csi_def)
  moreover have "(if charwidth U c \<ge> 0 then w + nat (charwidth U c) else w) = w + cp_width U c"
    by (simp add: cp_width_def)
  ultimately show ?case
    using Cons.IH [of "ds @ [c]"] Cons.prems length_encode_pos [OF c(1)]
    by (subst display_width_loop.simps) (simp add: iterate_scalar [OF assms c(1)] Let_def)
qed

lemma display_width_utf8:
  assumes "utf8proc_ok U" and "scalars l" and "27 \<notin> set l"
  shows "calculate_display_width U (utf8 l) = sum_list (map (cp_width U) l)"
  using display_width_loop_utf8 [OF assms, of "[]" 0] assms(2)
  by (simp add: calculate_display_width_def)

subsection \<open>Runs\<close>

datatype ib_op =
    OpInsert "32 word" | OpNewline | OpBackspace | OpDelete | OpLeft | OpRight | OpUp | OpDown
  | OpLineStart | OpLineEnd | OpKillToLineEnd | OpKillLine | OpDeleteWord
  | OpSetText "32 word list" | OpClear | OpLayout int

fun run_op :: "utf8proc \<Rightarrow> ib_op \<Rightarrow> ik_input_buffer \<Rightarrow> ik_input_buffer res" where
  "run_op U (OpInsert c) b = ik_input_buffer_insert_codepoint U b c"
| "run_op U OpNewline b = ik_input_buffer_insert_newline U b"
| "run_op U OpBackspace b = ik_input_buffer_backspace U b"
| "run_op U OpDelete b = ik_input_buffer_delete U b"
| "run_op U OpLeft b = ik_input_buffer_cursor_left U b"
| "run_op U OpRight b = ik_input_buffer_cursor_right U b"
| "run_op U OpUp b = ik_input_buffer_cursor_up U b"
| "run_op U OpDown b = ik_input_buffer_cursor_down U b"
| "run_op U OpLineStart b = ik_input_buffer_cursor_to_line_start U b"
| "run_op U OpLineEnd b = ik_input_buffer_cursor_to_line_end U b"
| "run_op U OpKillToLineEnd b = ik_input_buffer_kill_to_line_end U b"
| "run_op U OpKillLine b = ik_input_buffer_kill_line U b"
| "run_op U OpDeleteWord b = ik_input_buffer_delete_word_backward U b"
| "run_op U (OpSetText cps) b = ik_input_buffer_set_text b (Some (utf8 cps))"
| "run_op U OpClear b = Inr (ik_input_buffer_clear b)"
| "run_op U (OpLayout w) b = Inr (ik_input_buffer_ensure_layout U b w)"

fun ed_op :: "utf8proc \<Rightarrow> ib_op \<Rightarrow> editor \<Rightarrow> editor" where
  "ed_op U (OpInsert c) s = ed_insert U c s"
| "ed_op U OpNewline s = ed_insert U 10 s"
| "ed_op U OpBackspace s = ed_backspace U s"
| "ed_op U OpDelete s = ed_delete U s"
| "ed_op U OpLeft s = ed_left U s"
| "ed_op U OpRight s = ed_right U s"
| "ed_op U OpUp s = ed_up U s"
| "ed_op U OpDown s = ed_down U s"
| "ed_op U OpLineStart s = ed_line_start U s"
| "ed_op U OpLineEnd s = ed_line_end U s"
| "ed_op U OpKillToLineEnd s = ed_kill_to_line_end U s"
| "ed_op U OpKillLine s = ed_kill_line U s"
| "ed_op U OpDeleteWord s = ed_delete_word U s"
| "ed_op U (OpSetText cps) s = \<lparr>ed_before = [], ed_after = cps, ed_column = 0, ed_graphemes = 0\<rparr>"
| "ed_op U OpClear s = ed_empty"
| "ed_op U (OpLayout w) s = s"

fun op_ok :: "ib_op \<Rightarrow> bool" where
  "op_ok (OpInsert c) = is_scalar c"
| "op_ok (OpSetText cps) = scalars cps"
| "op_ok _ = True"

fun run_ops :: "utf8proc \<Rightarrow> ib_op list \<Rightarrow> ik_input_buffer \<Rightarrow> ik_input_buffer res" where
  "run_ops U [] b = Inr b"
| "run_ops U (x # xs) b = res_bind (run_op U x b) (run_ops U xs)"

lemmas op_refines = insert_refines newline_refines backspace_refines delete_refines left_refines
  right_refines up_refines down_refines line_start_refines line_end_refines kill_to_line_end_refines
  kill_line_refines delete_word_refines set_text_refines clear_refines ensure_layout_refines(1)

lemma run_op_refines:
  "utf8proc_ok U \<Longrightarrow> ib_repr U b s \<Longrightarrow> op_ok x \<Longrightarrow> returns (run_op U x b) (\<lambda>b'. ib_repr U b' (ed_op U x s))"
  by (cases x) (simp_all add: op_refines)

lemma run_ops_refines:
  "utf8proc_ok U \<Longrightarrow> list_all op_ok xs \<Longrightarrow> ib_repr U b s \<Longrightarrow>
   returns (run_ops U xs b) (\<lambda>b'. ib_repr U b' (fold (ed_op U) xs s))"
proof (induction xs arbitrary: b s)
  case (Cons x xs)
  then show ?case
    using returns_bindI [OF run_op_refines [of U b s x] Cons.IH [of _ "ed_op U x s"]] by simp
qed simp

subsection \<open>Consequences for the abstract editor\<close>

text \<open>Going up and down again comes back to the same place.\<close>

lemma line_head_append: "10 \<notin> set m \<Longrightarrow> line_head (l @ m) = line_head l @ m"
  by (simp add: line_head_def takeWhile_append)

lemma line_head_above [simp]: "line_head (lines_above l) = []"
  by (cases "lines_above l = []") (simp_all add: line_head_def, subst above_snoc, simp_all)

lemma ed_down_up:
  assumes "lines_above (ed_before s) \<noteq> []" and "ed_column s = 0"
  shows "ed_down U (ed_up U s) = ed_at U (ed_before s) (ed_after s) (goal_column s)"
proof -
  let ?g = "goal_column s"
  define a where "a = butlast (lines_above (ed_before s))"
  define h where "h = line_head (ed_before s)"
  have above: "lines_above (ed_before s) = a @ [10]"
    using above_snoc [OF assms(1)] a_def by simp
  then have l: "ed_before s = a @ 10 # h"
    using above_head [of "ed_before s"] unfolding h_def by simp
  have "10 \<notin> set h" and g: "?g = length h"
    using head_no_newline h_def assms(2) by (simp_all add: goal_column_def)
  define p where "p = lines_above a @ take ?g (line_head a)"
  define q where "q = drop ?g (line_head a)"
  have nl: "10 \<notin> set q" "10 \<notin> set (take ?g (line_head a))"
    using head_no_newline [of a] in_set_dropD in_set_takeD unfolding q_def by fast+
  have pq: "p @ q = a" by (simp add: p_def q_def)
  have up: "ed_up U s = ed_at U p (q @ 10 # h @ ed_after s) ?g"
    using assms(1) by (simp add: ed_up_def Let_def p_def q_def flip: a_def h_def)
  have "line_head p = take ?g (line_head a)"
    using nl(2) by (simp add: p_def line_head_append)
  then have g': "goal_column (ed_up U s) = ?g"
    using g by (simp add: up ed_at_def goal_column_def)
  have "line_tail (q @ 10 # h @ ed_after s) = q"
    and "lines_below (q @ 10 # h @ ed_after s) = 10 # h @ ed_after s"
    using nl(1) by (simp_all add: line_tail_def lines_below_def takeWhile_append dropWhile_append)
  moreover have "take ?g (line_tail (h @ ed_after s)) = h"
    and "drop ?g (line_tail (h @ ed_after s)) @ lines_below (h @ ed_after s) = ed_after s"
    using \<open>10 \<notin> set h\<close> g
    by (simp_all add: line_tail_def lines_below_def takeWhile_append dropWhile_append)
  ultimately show ?thesis
    using g' l by (simp add: ed_down_def Let_def) (simp add: up ed_at_def flip: pq)
qed

text \<open>The cluster count is exact after every operation but a step to the right that does not start
  on a cluster boundary.\<close>

definition graphemes_exact :: "utf8proc \<Rightarrow> editor \<Rightarrow> bool" where
  "graphemes_exact U s \<longleftrightarrow> ed_graphemes s = clusters U (- 1) (ed_before s)"

lemma exact_at [simp]: "graphemes_exact U (ed_at U l r col)"
  by (simp add: graphemes_exact_def ed_at_def)

lemma ed_op_exact:
  assumes "graphemes_exact U s" and "scalars (ed_after s)"
    and "x = OpRight \<Longrightarrow> at_boundary U (ed_before s) (ed_after s)"
  shows "graphemes_exact U (ed_op U x s)"
proof (cases x)
  case OpRight
  then show ?thesis
    using assms next_cluster_clusters [OF assms(3)]
    by (simp add: ed_right_def graphemes_exact_def Let_def)
qed (use assms(1) in \<open>simp_all add: ed_insert_def ed_backspace_def ed_delete_def ed_left_def ed_up_def
    ed_down_def ed_line_start_def ed_line_end_def ed_kill_to_line_end_def ed_kill_line_def
    ed_delete_word_def Let_def, simp_all add: graphemes_exact_def ed_empty_def\<close>)

subsection \<open>Sample buffers\<close>

definition fresh_buffer :: ik_input_buffer where
  "fresh_buffer =
     \<lparr>ib_text = \<lparr>arr_data = [], arr_element_size = 1, arr_size = 0, arr_capacity = 0, arr_increment = 64\<rparr>,
      ib_cursor = \<lparr>cur_byte_offset = 0, cur_grapheme_offset = 0\<rparr>, ib_cursor_byte_offset = 0,
      ib_target_column = 0, ib_physical_lines = 0, ib_cached_width = 0, ib_layout_dirty = 1\<rparr>"

text \<open>The text \<open>ab\<close>, newline, \<open>c\<close>, with the cursor at the end.\<close>

definition sample_buffer :: ik_input_buffer where
  "sample_buffer =
     \<lparr>ib_text = \<lparr>arr_data = [Some 97, Some 98, Some 10, Some 99], arr_element_size = 1, arr_size = 4,
                 arr_capacity = 4, arr_increment = 4\<rparr>,
      ib_cursor = \<lparr>cur_byte_offset = 4, cur_grapheme_offset = 4\<rparr>, ib_cursor_byte_offset = 4,
      ib_target_column = 0, ib_physical_lines = 0, ib_cached_width = 0, ib_layout_dirty = 1\<rparr>"

lemma fresh_buffer_repr: "ib_repr U fresh_buffer ed_empty"
  using create_refines [of U]
  by (simp add: fresh_buffer_def ik_input_buffer_create_def ik_byte_array_create_def
      ik_array_create_def ik_input_buffer_cursor_create_def)

lemma sample_buffer_repr: "ib_repr ref_utf8proc sample_buffer (ed_at ref_utf8proc [97, 98, 10, 99] [] 0)"
proof -
  have "clusters ref_utf8proc (- 1) [97, 98, 10, 99] = 4" "scalars [97, 98, 10, 99]"
    "utf8 [97, 98, 10, 99] = [97, 98, 10, 99]"
    by code_simp+
  then show ?thesis
    by (auto simp: ib_repr_def sample_buffer_def ed_at_def layout_ok_def array_inv_def elems_def
        cap_shape_def intro: exI [of _ 0])
qed

subsection \<open>Theorems\<close>

text \<open>C1. Started on a fresh buffer, every sequence of input buffer calls with well-formed arguments
  returns (no assertion fails, no panic, no access outside of the text) and leaves a buffer that
  represents exactly the text, cursor and column that the abstract editor reaches with the same
  calls, with a layout cache that is dirty or right. The editor does what the code does, which in two
  places is not what core.h says: backspace deletes one code point where the header promises a
  grapheme cluster, and deleting a word passes over newlines as over other white space.\<close>

theorem input_buffer_simulation:
  assumes "utf8proc_ok U" and "list_all op_ok ops"
  shows "returns (res_bind ik_input_buffer_create (run_ops U ops))
    (\<lambda>b. ib_repr U b (fold (ed_op U) ops ed_empty))"
  by (rule returns_bindI [OF create_refines run_ops_refines [OF assms]])

theorem input_buffer_simulation_witness:
  "returns (res_bind ik_input_buffer_create
      (run_ops ref_utf8proc [OpInsert 0x61, OpNewline, OpInsert 0xE9, OpUp, OpKillLine]))
    (\<lambda>b. ib_repr ref_utf8proc b
      (fold (ed_op ref_utf8proc) [OpInsert 0x61, OpNewline, OpInsert 0xE9, OpUp, OpKillLine] ed_empty))"
proof -
  have "list_all op_ok [OpInsert 0x61, OpNewline, OpInsert 0xE9, OpUp, OpKillLine]"
    by (simp add: is_scalar_def)
  then show ?thesis by (rule input_buffer_simulation [OF ref_utf8proc_ok])
qed

text \<open>Backspace undoes the insertion of any code point: text and cursor are as before.\<close>

theorem insert_backspace_roundtrip:
  assumes "utf8proc_ok U" and "ib_repr U b s" and "is_scalar c"
  shows "returns (res_bind (ik_input_buffer_insert_codepoint U b c) (ik_input_buffer_backspace U))
    (\<lambda>b'. elems (ib_text b') = elems (ib_text b)
        \<and> ib_cursor_byte_offset b' = ib_cursor_byte_offset b
        \<and> ik_input_buffer_get_cursor_position b'
            = (ib_cursor_byte_offset b, clusters U (- 1) (ed_before s)))"
proof -
  have "returns (res_bind (ik_input_buffer_insert_codepoint U b c) (ik_input_buffer_backspace U))
      (\<lambda>b'. ib_repr U b' (ed_backspace U (ed_insert U c s)))"
    by (rule returns_bindI [OF insert_refines [OF assms] backspace_refines [OF assms(1)]])
  moreover have "ed_backspace U (ed_insert U c s) = ed_at U (ed_before s) (ed_after s) 0"
    by (simp add: ed_backspace_def ed_insert_def ed_at_def)
  ultimately show ?thesis
    using ib_reprD [OF assms(2)]
    by (auto elim!: returns_mono simp: ib_repr_def ed_at_def ik_input_buffer_get_cursor_position_def
        ik_input_buffer_cursor_get_position_def)
qed

theorem insert_backspace_roundtrip_witness:
  "returns (res_bind (ik_input_buffer_insert_codepoint ref_utf8proc fresh_buffer 0x20AC)
      (ik_input_buffer_backspace ref_utf8proc))
    (\<lambda>b'. elems (ib_text b') = elems (ib_text fresh_buffer)
        \<and> ib_cursor_byte_offset b' = ib_cursor_byte_offset fresh_buffer
        \<and> ik_input_buffer_get_cursor_position b'
            = (ib_cursor_byte_offset fresh_buffer, clusters ref_utf8proc (- 1) (ed_before ed_empty)))"
proof -
  have "is_scalar 0x20AC" by (simp add: is_scalar_def)
  then show ?thesis by (rule insert_backspace_roundtrip [OF ref_utf8proc_ok fresh_buffer_repr])
qed

lemma set_position_loop_prefix:
  assumes "utf8proc_ok U"
  shows "scalars l \<Longrightarrow> length (utf8 ds) + length (utf8 l) \<le> off \<Longrightarrow>
    \<exists>prev' n'. set_position_loop U (utf8 ds @ utf8 l @ bs) off (length (utf8 ds)) prev n
      = set_position_loop U (utf8 ds @ utf8 l @ bs) off (length (utf8 ds) + length (utf8 l)) prev' n'"
proof (induction l arbitrary: ds prev n)
  case (Cons c l)
  then have c: "is_scalar c" by simp
  have "length (utf8 ds) < off" using Cons.prems length_encode_pos [OF c]
    by (simp del: length_greater_0_conv)
  then show ?case
    using Cons.IH [of "ds @ [c]" c] Cons.prems length_encode_pos [OF c]
    by (subst set_position_loop.simps) (simp add: iterate_scalar [OF assms c] add.assoc)
qed auto

text \<open>A surrogate is encoded and inserted, and then the decoder of the cursor rejects the bytes.\<close>

lemma insert_surrogate:
  assumes "utf8proc_ok U" and "utf8proc_strict U" and "ib_repr U b s"
    and "0xD800 \<le> c" and "c \<le> 0xDFFF"
  shows "ik_input_buffer_insert_codepoint U b c = Inl AssertFail"
proof -
  let ?l = "ed_before s" and ?e = "encode_utf8 c"
  note d = ib_reprD [OF assms(3)]
  have "c \<le> 0x10FFFF" using assms(5) by (simp add: word_le_nat_alt)
  then have e: "0 < length ?e" using length_encode_utf8 by blast
  obtain t where t: "insert_all ik_byte_array_insert (ib_text b) (length (utf8 ?l)) ?e = Inr t"
    "elems t = utf8 ?l @ ?e @ utf8 (ed_after s)"
    using d bytes.insert_all_spec [of "ib_text b" "length (utf8 ?l)" ?e] by (auto simp: returns_iff)
  let ?txt = "utf8 ?l @ ?e @ utf8 (ed_after s)" and ?n = "length (utf8 ?l) + length ?e"
  obtain prev n where "set_position_loop U ?txt ?n 0 (- 1) 0
      = set_position_loop U ?txt ?n (length (utf8 ?l)) prev n"
    using set_position_loop_prefix [OF assms(1) d(3), of "[]" ?n "?e @ utf8 (ed_after s)" "- 1" 0] by auto
  moreover have "set_position_loop U ?txt ?n (length (utf8 ?l)) prev n = Inl AssertFail"
  proof -
    have "fst (iterate U (?e @ utf8 (ed_after s))) \<le> 0"
      using assms(2,4,5) by (simp add: utf8proc_strict_def)
    then show ?thesis
      using e by (subst set_position_loop.simps) (auto split: prod.splits)
  qed
  moreover have "arr_data t \<noteq> []" using elems_unallocated [of t] t(2) e by auto
  ultimately show ?thesis
    using e t d(6)
    by (simp add: ik_input_buffer_insert_codepoint_def Let_def sync_cursor_def
        ik_input_buffer_get_text_def ik_input_buffer_cursor_set_position_def)
qed

text \<open>C38. Inserting any 32 bit value has one of three outcomes: a scalar value is inserted before the
  cursor; a value beyond U+10FFFF is refused with \<^verbatim>\<open>INVALID_ARG\<close>; a surrogate is not refused, it
  ends in the failed assertion of the cursor.\<close>

theorem insert_codepoint_outcomes:
  assumes "utf8proc_ok U" and "utf8proc_strict U" and "ib_repr U b s"
  shows "(is_scalar c \<longrightarrow>
      returns (ik_input_buffer_insert_codepoint U b c)
        (\<lambda>b'. elems (ib_text b') = utf8 (ed_before s) @ encode_utf8 c @ utf8 (ed_after s)
            \<and> ib_cursor_byte_offset b' = length (utf8 (ed_before s)) + length (encode_utf8 c)))
    \<and> (c > 0x10FFFF \<longrightarrow> ik_input_buffer_insert_codepoint U b c = Inl (Err INVALID_ARG))
    \<and> (0xD800 \<le> c \<and> c \<le> 0xDFFF \<longrightarrow> ik_input_buffer_insert_codepoint U b c = Inl AssertFail)"
proof (intro conjI impI)
  assume "is_scalar c"
  from insert_refines [OF assms(1,3) this]
  show "returns (ik_input_buffer_insert_codepoint U b c)
        (\<lambda>b'. elems (ib_text b') = utf8 (ed_before s) @ encode_utf8 c @ utf8 (ed_after s)
            \<and> ib_cursor_byte_offset b' = length (utf8 (ed_before s)) + length (encode_utf8 c))"
    by (auto elim!: returns_mono simp: ib_repr_def ed_insert_def ed_at_def)
next
  assume "c > 0x10FFFF"
  then have "encode_utf8 c = []" by (simp add: encode_utf8_def word_le_nat_alt word_less_nat_alt)
  then show "ik_input_buffer_insert_codepoint U b c = Inl (Err INVALID_ARG)"
    by (simp add: ik_input_buffer_insert_codepoint_def)
next
  assume "0xD800 \<le> c \<and> c \<le> 0xDFFF"
  then show "ik_input_buffer_insert_codepoint U b c = Inl AssertFail"
    using insert_surrogate [OF assms] by simp
qed

theorem insert_codepoint_outcomes_witness:
  "ik_input_buffer_insert_codepoint ref_utf8proc fresh_buffer 0xD812 = Inl AssertFail
   \<and> ik_input_buffer_insert_codepoint ref_utf8proc fresh_buffer 0x110000 = Inl (Err INVALID_ARG)
   \<and> returns (ik_input_buffer_insert_codepoint ref_utf8proc sample_buffer 0xE9)
        (\<lambda>b'. elems (ib_text b') = [97, 98, 10, 99, 0xC3, 0xA9])"
proof -
  note f = insert_codepoint_outcomes [OF ref_utf8proc_ok ref_utf8proc_strict fresh_buffer_repr]
  note g = insert_codepoint_outcomes [OF ref_utf8proc_ok ref_utf8proc_strict sample_buffer_repr, where c = "0xE9"]
  have "utf8 [97, 98, 10, 99] @ encode_utf8 0xE9 @ utf8 [] = [97, 98, 10, 99, 0xC3, 0xA9]"
    and "is_scalar 0xE9"
    by code_simp+
  then show ?thesis
    using f [where c = "0xD812"] f [where c = "0x110000"] g by (auto simp: ed_at_def elim!: returns_mono)
qed

text \<open>Moving up from a line and down again comes back to the byte the cursor was on, whatever the
  length of the line above.\<close>

theorem up_down_return:
  assumes "utf8proc_ok U" and "ib_repr U b s" and "ib_target_column b = 0"
    and "10 \<in> set (ed_before s)"
  shows "returns (res_bind (ik_input_buffer_cursor_up U b) (ik_input_buffer_cursor_down U))
    (\<lambda>b'. ib_cursor_byte_offset b' = ib_cursor_byte_offset b \<and> elems (ib_text b') = elems (ib_text b))"
proof -
  have "returns (res_bind (ik_input_buffer_cursor_up U b) (ik_input_buffer_cursor_down U))
      (\<lambda>b'. ib_repr U b' (ed_down U (ed_up U s)))"
    by (rule returns_bindI [OF up_refines [OF assms(1,2)] down_refines [OF assms(1)]])
  moreover have "ed_down U (ed_up U s) = ed_at U (ed_before s) (ed_after s) (goal_column s)"
    using assms(3,4) ib_reprD(7) [OF assms(2)]
    by (intro ed_down_up) (simp_all add: lines_above_def strip_end_def)
  ultimately show ?thesis
    using ib_reprD [OF assms(2)] by (auto elim!: returns_mono simp: ib_repr_def ed_at_def)
qed

theorem up_down_return_witness:
  "returns (res_bind (ik_input_buffer_cursor_up ref_utf8proc sample_buffer)
      (ik_input_buffer_cursor_down ref_utf8proc))
    (\<lambda>b'. ib_cursor_byte_offset b' = ib_cursor_byte_offset sample_buffer
        \<and> elems (ib_text b') = elems (ib_text sample_buffer))"
  by (rule up_down_return [OF ref_utf8proc_ok sample_buffer_repr])
     (simp_all add: sample_buffer_def ed_at_def)

text \<open>The grapheme offset of the cursor stays the number of clusters before the cursor under every
  operation, a step to the right included when it starts on a cluster boundary.\<close>

theorem grapheme_offset_exact:
  assumes "utf8proc_ok U" and "ib_repr U b s" and "op_ok x"
    and "cur_grapheme_offset (ib_cursor b) = clusters U (- 1) (ed_before s)"
    and "x = OpRight \<Longrightarrow> at_boundary U (ed_before s) (ed_after s)"
  shows "returns (run_op U x b)
    (\<lambda>b'. \<exists>s'. ib_repr U b' s' \<and> cur_grapheme_offset (ib_cursor b') = clusters U (- 1) (ed_before s'))"
proof -
  note d = ib_reprD [OF assms(2)]
  have "graphemes_exact U (ed_op U x s)"
    using assms(4) d(4,5) by (intro ed_op_exact [OF _ _ assms(5)]) (auto simp: graphemes_exact_def)
  then show ?thesis
    using run_op_refines [OF assms(1-3)]
    by (auto elim!: returns_mono simp: ib_repr_def graphemes_exact_def)
qed

theorem grapheme_offset_exact_witness:
  "returns (run_op ref_utf8proc OpLeft sample_buffer)
    (\<lambda>b'. \<exists>s'. ib_repr ref_utf8proc b' s'
        \<and> cur_grapheme_offset (ib_cursor b') = clusters ref_utf8proc (- 1) (ed_before s'))"
proof -
  have "clusters ref_utf8proc (- 1) [97, 98, 10, 99] = 4" by code_simp
  then show ?thesis
    by (intro grapheme_offset_exact [OF ref_utf8proc_ok sample_buffer_repr])
       (simp_all add: sample_buffer_def ed_at_def)
qed

text \<open>Without that condition it does not: vertical movement counts code points, so it can stop
  inside of a cluster (here between a letter and its combining accent), and the step to the right that
  follows makes the grapheme offset one too large.\<close>

theorem grapheme_offset_drift:
  "\<exists>b. res_bind ik_input_buffer_create
        (run_ops ref_utf8proc [OpInsert 0x61, OpInsert 0x301, OpNewline, OpInsert 0x62, OpUp, OpRight])
      = Inr b
    \<and> elems (ib_text b) = utf8 [0x61, 0x301, 10, 0x62]
    \<and> ik_input_buffer_get_cursor_position b = (length (utf8 [0x61, 0x301]), 2)
    \<and> clusters ref_utf8proc (- 1) [0x61, 0x301] = 1"
proof -
  let ?ops = "[OpInsert 0x61, OpInsert 0x301, OpNewline, OpInsert 0x62, OpUp, OpRight]"
  have "list_all op_ok ?ops" by (simp add: is_scalar_def)
  then have "returns (res_bind ik_input_buffer_create (run_ops ref_utf8proc ?ops))
      (\<lambda>b. ib_repr ref_utf8proc b (fold (ed_op ref_utf8proc) ?ops ed_empty))"
    by (intro returns_bindI [OF create_refines run_ops_refines [OF ref_utf8proc_ok]])
  then obtain b where b: "res_bind ik_input_buffer_create (run_ops ref_utf8proc ?ops) = Inr b"
    "ib_repr ref_utf8proc b (fold (ed_op ref_utf8proc) ?ops ed_empty)"
    by (rule returnsE)
  have "fold (ed_op ref_utf8proc) ?ops ed_empty
      = \<lparr>ed_before = [0x61, 0x301], ed_after = [10, 0x62], ed_column = 0, ed_graphemes = 2\<rparr>"
    and "clusters ref_utf8proc (- 1) [0x61, 0x301] = 1"
    by code_simp+
  with b show ?thesis
    by (auto simp: ib_repr_def ik_input_buffer_get_cursor_position_def
        ik_input_buffer_cursor_get_position_def)
qed

text \<open>After the layout has been ensured for a width, the number of physical lines is the sum over
  the lines of the text of the rows each takes, whether the cache was dirty, valid, or for another
  width; a line without escape characters takes its display width, rounded up to whole rows.\<close>

theorem layout_rows:
  assumes "utf8proc_ok U" and "ib_repr U b s"
  shows "ik_input_buffer_get_physical_lines (ik_input_buffer_ensure_layout U b width)
      = text_rows U width (elems (ib_text b))
    \<and> (10 \<notin> set (ed_before s @ ed_after s) \<and> 27 \<notin> set (ed_before s @ ed_after s) \<and> width > 0
       \<and> sum_list (map (cp_width U) (ed_before s @ ed_after s)) > 0 \<longrightarrow>
       text_rows U width (elems (ib_text b))
       = (sum_list (map (cp_width U) (ed_before s @ ed_after s)) + nat width - 1) div nat width)"
proof (intro conjI impI)
  show "ik_input_buffer_get_physical_lines (ik_input_buffer_ensure_layout U b width)
      = text_rows U width (elems (ib_text b))"
    using ensure_layout_refines(2) [OF assms(2)] ib_reprD(2) [OF assms(2)] by simp
next
  let ?line = "ed_before s @ ed_after s"
  assume a: "10 \<notin> set ?line \<and> 27 \<notin> set ?line \<and> width > 0 \<and> sum_list (map (cp_width U) ?line) > 0"
  note d = ib_reprD [OF assms(2)]
  have sc: "scalars ?line" using d(3,4) by simp
  have t: "elems (ib_text b) = utf8 ?line" using d(2) by simp
  have "split_nl bs = [bs]" if "10 \<notin> set bs" for bs using that by (induction bs) auto
  then have "split_nl (utf8 ?line) = [utf8 ?line]" using a by (simp add: utf8_newline del: utf8_simps)
  moreover have "utf8 ?line \<noteq> []" using a sc by (auto simp del: utf8_simps)
  ultimately show "text_rows U width (elems (ib_text b))
       = (sum_list (map (cp_width U) ?line) + nat width - 1) div nat width"
    using a display_width_utf8 [OF assms(1) sc]
    by (simp add: t text_rows_def line_rows_def Let_def
        del: utf8_simps sum_list_eq_0_iff map_append sum_list_append set_append)
qed

theorem layout_rows_witness:
  "ik_input_buffer_get_physical_lines (ik_input_buffer_ensure_layout ref_utf8proc sample_buffer 2)
   = text_rows ref_utf8proc 2 (elems (ib_text sample_buffer))
   \<and> text_rows ref_utf8proc 2 (elems (ib_text sample_buffer)) = 2"
proof -
  have "text_rows ref_utf8proc 2 (elems (ib_text sample_buffer)) = 2" by code_simp
  then show ?thesis
    using layout_rows [OF ref_utf8proc_ok sample_buffer_repr, where width = 2] by blast
qed

end
