(* ===== verification/Ik_Input_Parser.thy ===== *)
theory Ik_Input_Parser
  imports Ik_Utf8 Ik_Ansi
begin

text \<open>
  From bytes of the terminal to input actions: apps/ikigai/input.c, input_escape.c and input_xkb.c.

  The parser is a state machine with three modes: idle, inside of an UTF-8 sequence, inside of an
  escape sequence. Its two fixed buffers (16 and 4 bytes) are lists of that length and writes to them
  are bounds checked. The functions of input_escape.c that return \<^verbatim>\<open>bool\<close> leave parser and action
  unchanged when they return false; this is \<open>None\<close>. They read the sequence collected so far, \<open>es\<close>,
  the first \<open>esc_len\<close> bytes of the buffer (the bytes after ESC). Numbers in a sequence are \<^verbatim>\<open>int32_t\<close>
  in the code: exceeding that range is the fault \<open>IntOverflow\<close>.

  libxkbcommon is a parameter, the record \<open>xkb\<close>: whether its objects can be created, the index of the
  Shift modifier, the symbol of a key under a modifier mask, and the code point of a symbol.
\<close>

datatype ik_input_action_type =
    IK_INPUT_CHAR | IK_INPUT_NEWLINE | IK_INPUT_INSERT_NEWLINE | IK_INPUT_BACKSPACE | IK_INPUT_DELETE
  | IK_INPUT_ARROW_LEFT | IK_INPUT_ARROW_RIGHT | IK_INPUT_ARROW_UP | IK_INPUT_ARROW_DOWN
  | IK_INPUT_PAGE_UP | IK_INPUT_PAGE_DOWN | IK_INPUT_SCROLL_UP | IK_INPUT_SCROLL_DOWN
  | IK_INPUT_CTRL_A | IK_INPUT_CTRL_C | IK_INPUT_CTRL_E | IK_INPUT_CTRL_K | IK_INPUT_CTRL_N
  | IK_INPUT_CTRL_P | IK_INPUT_CTRL_U | IK_INPUT_CTRL_W | IK_INPUT_TAB | IK_INPUT_ESCAPE
  | IK_INPUT_NAV_PREV_SIBLING | IK_INPUT_NAV_NEXT_SIBLING | IK_INPUT_NAV_PARENT | IK_INPUT_NAV_CHILD
  | IK_INPUT_UNKNOWN

record ik_input_action =
  act_type :: ik_input_action_type
  act_codepoint :: "32 word"

record xkb =
  xkb_available :: bool
  xkb_shift_index :: nat
  key_get_one_sym :: "32 word \<Rightarrow> nat \<Rightarrow> 32 word"
  keysym_to_utf32 :: "32 word \<Rightarrow> 32 word"

record ik_input_parser =
  esc_buf :: "byte list"
  esc_len :: nat
  in_escape :: bool
  utf8_buf :: "byte list"
  utf8_len :: nat
  utf8_expected :: nat
  in_utf8 :: bool
  reverse_map :: "nat list"
  shift_mask :: "32 word"
  xkb_initialized :: bool

subsection \<open>input_xkb.c\<close>

fun build_reverse_map_loop :: "xkb \<Rightarrow> nat list \<Rightarrow> nat list \<Rightarrow> nat list" where
  "build_reverse_map_loop X [] keycodes = keycodes"
| "build_reverse_map_loop X (kc # kcs) keycodes =
     (let sym = key_get_one_sym X 0 kc
      in if sym = 0 then build_reverse_map_loop X kcs keycodes
         else (let utf32 = keysym_to_utf32 X sym
               in if utf32 \<ge> 32 \<and> utf32 < 128 \<and> keycodes ! unat utf32 = 0
                  then build_reverse_map_loop X kcs (keycodes[unat utf32 := kc])
                  else build_reverse_map_loop X kcs keycodes))"

definition ik_input_xkb_build_reverse_map :: "xkb \<Rightarrow> nat list" where
  "ik_input_xkb_build_reverse_map X = build_reverse_map_loop X [9..<101] (replicate 128 0)"

definition ik_input_xkb_init_state :: "xkb \<Rightarrow> ik_input_parser \<Rightarrow> ik_input_parser" where
  "ik_input_xkb_init_state X p =
     (if \<not> xkb_available X then p
      else p\<lparr>shift_mask := push_bit (xkb_shift_index X) 1,
             reverse_map := ik_input_xkb_build_reverse_map X, xkb_initialized := True\<rparr>)"

definition ik_input_xkb_translate_shifted_key :: "xkb \<Rightarrow> ik_input_parser \<Rightarrow> 32 word \<Rightarrow> 32 word" where
  "ik_input_xkb_translate_shifted_key X p codepoint =
     (if \<not> xkb_initialized p \<or> codepoint < 32 \<or> codepoint \<ge> 128 then codepoint
      else (let kc = reverse_map p ! unat codepoint
            in if kc = 0 then codepoint
               else (let result = keysym_to_utf32 X (key_get_one_sym X (shift_mask p) kc)
                     in if result \<noteq> 0 then result else codepoint)))"

subsection \<open>input_escape.c\<close>

definition reset_escape_state :: "ik_input_parser \<Rightarrow> ik_input_parser" where
  "reset_escape_state p = p\<lparr>in_escape := False, esc_len := 0\<rparr>"

definition is_discardable_csi_terminal :: "byte list \<Rightarrow> byte \<Rightarrow> bool" where
  "is_discardable_csi_terminal es b =
     (if b = 0x6D \<and> length es \<ge> 1 then True else if length es = 3 \<and> b = 0x7E then True else False)"

type_synonym parsed = "(ik_input_parser \<times> ik_input_action) option"

definition act :: "ik_input_parser \<Rightarrow> ik_input_action \<Rightarrow> ik_input_action_type \<Rightarrow> parsed" where
  "act p a t = Some (reset_escape_state p, a\<lparr>act_type := t\<rparr>)"

definition parse_first_escape_byte :: "ik_input_parser \<Rightarrow> byte \<Rightarrow> ik_input_action \<Rightarrow> parsed" where
  "parse_first_escape_byte p b a =
     (if b = 0x5B then None
      else if b = 0x1B then
        Some ((reset_escape_state p)\<lparr>in_escape := True, esc_len := 0\<rparr>, a\<lparr>act_type := IK_INPUT_ESCAPE\<rparr>)
      else act p a IK_INPUT_UNKNOWN)"

definition is_digit :: "byte \<Rightarrow> bool" where
  "is_digit c \<longleftrightarrow> c \<ge> 0x30 \<and> c \<le> 0x39"

text \<open>One step \<open>n = n * 10 + (c - '0')\<close> in \<^verbatim>\<open>int32_t\<close>.\<close>

definition digit_step :: "int \<Rightarrow> byte \<Rightarrow> int res" where
  "digit_step n c =
     (let v = n * 10 + (uint c - 48) in if v > 2147483647 then Inl IntOverflow else Inr v)"

text \<open>A number made of all bytes (\<open>None\<close>: a byte that is no digit was met).\<close>

fun parse_number :: "int \<Rightarrow> byte list \<Rightarrow> int option res" where
  "parse_number n [] = Inr (Some n)"
| "parse_number n (c # cs) =
     (if is_digit c then res_bind (digit_step n c) (\<lambda>v. parse_number v cs) else Inr None)"

text \<open>A number made of the leading digits.\<close>

fun leading_number :: "int \<Rightarrow> byte list \<Rightarrow> int res" where
  "leading_number n [] = Inr n"
| "leading_number n (c # cs) =
     (if is_digit c then res_bind (digit_step n c) (\<lambda>v. leading_number v cs) else Inr n)"

definition mask_numlock :: "int \<Rightarrow> int" where
  "mask_numlock m = m AND NOT 128"

definition parse_arrow_keys :: "ik_input_parser \<Rightarrow> byte list \<Rightarrow> byte \<Rightarrow> ik_input_action \<Rightarrow> parsed res" where
  "parse_arrow_keys p es b a =
     (if b \<noteq> 0x41 \<and> b \<noteq> 0x42 \<and> b \<noteq> 0x43 \<and> b \<noteq> 0x44 then Inr None
      else if length es = 2 then
        Inr (act p a (if b = 0x41 then IK_INPUT_ARROW_UP else if b = 0x42 then IK_INPUT_ARROW_DOWN
                      else if b = 0x43 then IK_INPUT_ARROW_RIGHT else IK_INPUT_ARROW_LEFT))
      else if length es \<ge> 5 \<and> es ! 1 = 0x31 \<and> es ! 2 = 0x3B then
        res_bind (parse_number 0 (butlast (drop 3 es)))
          (\<lambda>n. case n of None \<Rightarrow> Inr None
           | Some m \<Rightarrow>
               (let mod_keys = mask_numlock m
                in if mod_keys = 1 then
                     Inr (act p a (if b = 0x41 then IK_INPUT_ARROW_UP
                                   else if b = 0x42 then IK_INPUT_ARROW_DOWN
                                   else if b = 0x43 then IK_INPUT_ARROW_RIGHT else IK_INPUT_ARROW_LEFT))
                   else if mod_keys = 5 then
                     Inr (act p a (if b = 0x41 then IK_INPUT_NAV_PARENT
                                   else if b = 0x42 then IK_INPUT_NAV_CHILD
                                   else if b = 0x43 then IK_INPUT_NAV_NEXT_SIBLING
                                   else IK_INPUT_NAV_PREV_SIBLING))
                   else Inr None))
      else Inr None)"

definition parse_mouse_sgr :: "ik_input_parser \<Rightarrow> byte list \<Rightarrow> byte \<Rightarrow> ik_input_action \<Rightarrow> parsed" where
  "parse_mouse_sgr p es b a =
     (if length es < 2 \<or> es ! 1 \<noteq> 0x3C then None
      else if b \<noteq> 0x4D \<and> b \<noteq> 0x6D then None
      else (let btn_end = 2 + length (takeWhile (\<lambda>c. c \<noteq> 0x3B) (drop 2 es))
            in if btn_end \<ge> length es then None
               else if btn_end - 2 = 2 \<and> es ! 2 = 0x36 \<and> es ! 3 = 0x34 then act p a IK_INPUT_SCROLL_UP
               else if btn_end - 2 = 2 \<and> es ! 2 = 0x36 \<and> es ! 3 = 0x35 then act p a IK_INPUT_SCROLL_DOWN
               else act p a IK_INPUT_UNKNOWN))"

text \<open>The decision of \<^verbatim>\<open>parse_csi_u_sequence\<close> once keycode and modifiers are known; the second
  component is the code point, when one is set.\<close>

definition csi_u_action ::
  "xkb \<Rightarrow> ik_input_parser \<Rightarrow> int \<Rightarrow> int \<Rightarrow> ik_input_action \<Rightarrow> ik_input_action" where
  "csi_u_action X p keycode modifiers a =
     (if keycode > 50000 then a\<lparr>act_type := IK_INPUT_UNKNOWN\<rparr>
      else if keycode = 13 then
        a\<lparr>act_type := (if modifiers = 1 then IK_INPUT_NEWLINE else IK_INPUT_INSERT_NEWLINE)\<rparr>
      else if modifiers = 5 \<and> keycode = 99 then a\<lparr>act_type := IK_INPUT_CTRL_C\<rparr>
      else if modifiers = 5 \<and> keycode = 97 then a\<lparr>act_type := IK_INPUT_CTRL_A\<rparr>
      else if modifiers = 5 \<and> keycode = 101 then a\<lparr>act_type := IK_INPUT_CTRL_E\<rparr>
      else if modifiers = 5 \<and> keycode = 107 then a\<lparr>act_type := IK_INPUT_CTRL_K\<rparr>
      else if modifiers = 5 \<and> keycode = 110 then a\<lparr>act_type := IK_INPUT_CTRL_N\<rparr>
      else if modifiers = 5 \<and> keycode = 112 then a\<lparr>act_type := IK_INPUT_CTRL_P\<rparr>
      else if modifiers = 5 \<and> keycode = 117 then a\<lparr>act_type := IK_INPUT_CTRL_U\<rparr>
      else if modifiers = 5 \<and> keycode = 119 then a\<lparr>act_type := IK_INPUT_CTRL_W\<rparr>
      else if modifiers = 1 \<and> keycode = 9 then a\<lparr>act_type := IK_INPUT_TAB\<rparr>
      else if modifiers = 1 \<and> keycode = 127 then a\<lparr>act_type := IK_INPUT_BACKSPACE\<rparr>
      else if modifiers = 1 \<and> keycode = 27 then a\<lparr>act_type := IK_INPUT_ESCAPE\<rparr>
      else if modifiers = 1 \<and> keycode \<ge> 32 \<and> keycode \<le> 126 then
        a\<lparr>act_type := IK_INPUT_CHAR, act_codepoint := word_of_int keycode\<rparr>
      else if modifiers = 1 \<and> keycode > 126 \<and> keycode \<le> 0x10FFFF then
        a\<lparr>act_type := IK_INPUT_CHAR, act_codepoint := word_of_int keycode\<rparr>
      else if keycode \<ge> 32 \<and> keycode \<le> 126 \<and> modifiers = 2 then
        a\<lparr>act_type := IK_INPUT_CHAR,
          act_codepoint := ik_input_xkb_translate_shifted_key X p (word_of_int keycode)\<rparr>
      else a\<lparr>act_type := IK_INPUT_UNKNOWN\<rparr>)"

definition parse_csi_u_sequence ::
  "xkb \<Rightarrow> ik_input_parser \<Rightarrow> byte list \<Rightarrow> ik_input_action \<Rightarrow> ik_input_action option res" where
  "parse_csi_u_sequence X p es a =
     (if length es < 3 then Inr None
      else if last es \<noteq> 0x75 then Inr None
      else res_bind (leading_number 0 (drop 1 es))
        (\<lambda>keycode.
           let rest = dropWhile is_digit (drop 1 es)
           in res_bind (if rest \<noteq> [] \<and> hd rest = 0x3B then leading_number 0 (tl rest) else Inr 1)
                (\<lambda>modifiers. Inr (Some (csi_u_action X p keycode (mask_numlock modifiers) a)))))"

definition tilde_key :: "int \<Rightarrow> ik_input_action_type" where
  "tilde_key key =
     (if key = 1 then IK_INPUT_CTRL_A else if key = 3 then IK_INPUT_DELETE
      else if key = 4 then IK_INPUT_CTRL_E else if key = 5 then IK_INPUT_PAGE_UP
      else if key = 6 then IK_INPUT_PAGE_DOWN else IK_INPUT_UNKNOWN)"

definition parse_tilde_sequences ::
  "ik_input_parser \<Rightarrow> byte list \<Rightarrow> byte \<Rightarrow> ik_input_action \<Rightarrow> parsed res" where
  "parse_tilde_sequences p es b a =
     (if length es = 2 \<and> (b = 0x48 \<or> b = 0x46) then
        Inr (act p a (if b = 0x48 then IK_INPUT_CTRL_A else IK_INPUT_CTRL_E))
      else if (b = 0x48 \<or> b = 0x46) \<and> length es \<ge> 5 \<and> es ! 1 = 0x31 \<and> es ! 2 = 0x3B
              \<and> list_all is_digit (butlast (drop 3 es)) then
        Inr (act p a (if b = 0x48 then IK_INPUT_CTRL_A else IK_INPUT_CTRL_E))
      else if b \<noteq> 0x7E then Inr None
      else res_bind (parse_number 0 (takeWhile (\<lambda>c. c \<noteq> 0x3B) (butlast (drop 1 es))))
        (\<lambda>n. case n of None \<Rightarrow> Inr None
         | Some key \<Rightarrow> if key = 0 then Inr None else Inr (act p a (tilde_key key))))"

text \<open>The first of a list of alternatives that applies, with a last resort.\<close>

definition or_else :: "parsed res \<Rightarrow> (ik_input_parser \<times> ik_input_action) res
    \<Rightarrow> (ik_input_parser \<times> ik_input_action) res" where
  "or_else r k = res_bind r (\<lambda>x. case x of Some y \<Rightarrow> Inr y | None \<Rightarrow> k)"

text \<open>The chain of tests once the byte is in the buffer.\<close>

definition escape_dispatch ::
  "xkb \<Rightarrow> ik_input_parser \<Rightarrow> byte \<Rightarrow> ik_input_action \<Rightarrow> (ik_input_parser \<times> ik_input_action) res" where
  "escape_dispatch X p b a =
     (let es = take (esc_len p) (esc_buf p); unknown = a\<lparr>act_type := IK_INPUT_UNKNOWN\<rparr>
      in or_else (Inr (if esc_len p = 1 then parse_first_escape_byte p b a else None))
           (or_else (parse_arrow_keys p es b a)
             (or_else (Inr (parse_mouse_sgr p es b a))
               (or_else (parse_tilde_sequences p es b a)
                 (if b = 0x75 then
                    res_bind (parse_csi_u_sequence X p es a)
                      (\<lambda>r. case r of Some a' \<Rightarrow> Inr (reset_escape_state p, a')
                           | None \<Rightarrow> Inr (reset_escape_state p, unknown))
                  else if is_discardable_csi_terminal es b then Inr (reset_escape_state p, unknown)
                  else if esc_len p = 2 \<and> b \<ge> 0x41 \<and> b \<le> 0x5A then Inr (reset_escape_state p, unknown)
                  else Inr (p, unknown))))))"

definition ik_input_parse_escape_sequence ::
  "xkb \<Rightarrow> ik_input_parser \<Rightarrow> byte \<Rightarrow> ik_input_action \<Rightarrow> (ik_input_parser \<times> ik_input_action) res" where
  "ik_input_parse_escape_sequence X p b a =
     res_bind (store (esc_buf p) (esc_len p) b) (\<lambda>buf1.
     res_bind (store buf1 (esc_len p + 1) 0) (\<lambda>buf2.
       let p' = p\<lparr>esc_buf := buf2, esc_len := esc_len p + 1\<rparr>
       in if esc_len p' \<ge> 16 - 1 then Inr (reset_escape_state p', a\<lparr>act_type := IK_INPUT_UNKNOWN\<rparr>)
          else escape_dispatch X p' b a))"

subsection \<open>input.c\<close>

definition ik_input_parser_create :: "xkb \<Rightarrow> ik_input_parser" where
  "ik_input_parser_create X =
     ik_input_xkb_init_state X
       \<lparr>esc_buf = replicate 16 0, esc_len = 0, in_escape = False, utf8_buf = replicate 4 0,
        utf8_len = 0, utf8_expected = 0, in_utf8 = False, reverse_map = replicate 128 0,
        shift_mask = 0, xkb_initialized = False\<rparr>"

definition reset_utf8_state :: "ik_input_parser \<Rightarrow> ik_input_parser" where
  "reset_utf8_state p = p\<lparr>in_utf8 := False, utf8_len := 0, utf8_expected := 0\<rparr>"

definition parse_utf8_continuation ::
  "ik_input_parser \<Rightarrow> byte \<Rightarrow> ik_input_action \<Rightarrow> (ik_input_parser \<times> ik_input_action) res" where
  "parse_utf8_continuation p b a =
     (if b AND 0xC0 \<noteq> 0x80 then Inr (reset_utf8_state p, a\<lparr>act_type := IK_INPUT_UNKNOWN\<rparr>)
      else res_bind (store (utf8_buf p) (utf8_len p) b) (\<lambda>buf.
        let p1 = p\<lparr>utf8_buf := buf, utf8_len := utf8_len p + 1\<rparr>
        in if utf8_len p1 = utf8_expected p1 then
             res_bind (decode_utf8_sequence (take (utf8_len p1) (utf8_buf p1)))
               (\<lambda>codepoint. Inr (reset_utf8_state p1,
                  a\<lparr>act_type := IK_INPUT_CHAR, act_codepoint := codepoint\<rparr>))
           else Inr (p1, a\<lparr>act_type := IK_INPUT_UNKNOWN\<rparr>)))"

definition start_utf8 ::
  "ik_input_parser \<Rightarrow> byte \<Rightarrow> nat \<Rightarrow> ik_input_action \<Rightarrow> (ik_input_parser \<times> ik_input_action) res" where
  "start_utf8 p b expected a =
     res_bind (store (utf8_buf p) 0 b)
       (\<lambda>buf. Inr (p\<lparr>in_utf8 := True, utf8_buf := buf, utf8_len := 1, utf8_expected := expected\<rparr>,
                   a\<lparr>act_type := IK_INPUT_UNKNOWN\<rparr>))"

definition ik_input_parse_byte ::
  "xkb \<Rightarrow> ik_input_parser \<Rightarrow> byte \<Rightarrow> ik_input_action \<Rightarrow> (ik_input_parser \<times> ik_input_action) res" where
  "ik_input_parse_byte X p b a =
     (if in_utf8 p then parse_utf8_continuation p b a
      else if in_escape p then ik_input_parse_escape_sequence X p b a
      else if b = 0x1B then
        Inr (p\<lparr>in_escape := True, esc_len := 0\<rparr>, a\<lparr>act_type := IK_INPUT_UNKNOWN\<rparr>)
      else if b = 0x09 then Inr (p, a\<lparr>act_type := IK_INPUT_TAB, act_codepoint := 0\<rparr>)
      else if b = 0x0D then Inr (p, a\<lparr>act_type := IK_INPUT_NEWLINE\<rparr>)
      else if b = 0x0A then Inr (p, a\<lparr>act_type := IK_INPUT_INSERT_NEWLINE\<rparr>)
      else if b = 0x01 then Inr (p, a\<lparr>act_type := IK_INPUT_CTRL_A\<rparr>)
      else if b = 0x03 then Inr (p, a\<lparr>act_type := IK_INPUT_CTRL_C\<rparr>)
      else if b = 0x05 then Inr (p, a\<lparr>act_type := IK_INPUT_CTRL_E\<rparr>)
      else if b = 0x0B then Inr (p, a\<lparr>act_type := IK_INPUT_CTRL_K\<rparr>)
      else if b = 0x0E then Inr (p, a\<lparr>act_type := IK_INPUT_CTRL_N\<rparr>)
      else if b = 0x10 then Inr (p, a\<lparr>act_type := IK_INPUT_CTRL_P\<rparr>)
      else if b = 0x15 then Inr (p, a\<lparr>act_type := IK_INPUT_CTRL_U\<rparr>)
      else if b = 0x17 then Inr (p, a\<lparr>act_type := IK_INPUT_CTRL_W\<rparr>)
      else if b \<ge> 0x20 \<and> b \<le> 0x7F then
        (if b = 0x7F then Inr (p, a\<lparr>act_type := IK_INPUT_BACKSPACE\<rparr>)
         else Inr (p, a\<lparr>act_type := IK_INPUT_CHAR, act_codepoint := ucast b\<rparr>))
      else if b AND 0xE0 = 0xC0 then start_utf8 p b 2 a
      else if b AND 0xF0 = 0xE0 then start_utf8 p b 3 a
      else if b AND 0xF8 = 0xF0 then start_utf8 p b 4 a
      else Inr (p, a\<lparr>act_type := IK_INPUT_UNKNOWN\<rparr>))"

text \<open>The loop of the reader: the bytes one after the other, collecting the actions.\<close>

fun parse_bytes ::
  "xkb \<Rightarrow> ik_input_parser \<Rightarrow> byte list \<Rightarrow> (ik_input_parser \<times> ik_input_action list) res" where
  "parse_bytes X p [] = Inr (p, [])"
| "parse_bytes X p (b # bs) =
     res_bind (ik_input_parse_byte X p b \<lparr>act_type = IK_INPUT_UNKNOWN, act_codepoint = 0\<rparr>)
       (\<lambda>(p', a). res_bind (parse_bytes X p' bs) (\<lambda>(q, as). Inr (q, a # as)))"

subsection \<open>Safety\<close>

definition xkb_ok :: "xkb \<Rightarrow> bool" where
  "xkb_ok X \<longleftrightarrow> (\<forall>sym. is_scalar (keysym_to_utf32 X sym))"

definition parser_inv :: "ik_input_parser \<Rightarrow> bool" where
  "parser_inv p \<longleftrightarrow>
     length (esc_buf p) = 16 \<and> length (utf8_buf p) = 4
     \<and> (in_escape p \<longrightarrow> esc_len p < 15)
     \<and> (in_utf8 p \<longrightarrow> 0 < utf8_len p \<and> utf8_len p < utf8_expected p \<and> utf8_expected p \<le> 4)
     \<and> \<not> (in_utf8 p \<and> in_escape p)"

text \<open>What one byte guarantees: the invariant, and a character action only with a scalar value.\<close>

definition step_ok :: "ik_input_parser \<times> ik_input_action \<Rightarrow> bool" where
  "step_ok r \<longleftrightarrow> parser_inv (fst r)
     \<and> (act_type (snd r) = IK_INPUT_CHAR \<longrightarrow> is_scalar (act_codepoint (snd r)))"

lemma digit_step_safe: "n \<ge> 0 \<Longrightarrow> is_digit c \<Longrightarrow> safe (digit_step n c) (\<lambda>v. 0 \<le> v)"
proof -
  assume "n \<ge> 0" and "is_digit c"
  moreover from this have "uint c \<ge> 48" by (simp add: is_digit_def word_le_def)
  ultimately show ?thesis by (simp add: digit_step_def Let_def)
qed

lemma parse_number_safe:
  "n \<ge> 0 \<Longrightarrow> safe (parse_number n cs) (\<lambda>r. case r of None \<Rightarrow> True | Some v \<Rightarrow> 0 \<le> v)"
proof (induction cs arbitrary: n)
  case (Cons c cs)
  then show ?case by (auto intro: safe_bind [OF digit_step_safe])
qed simp

lemma leading_number_safe: "n \<ge> 0 \<Longrightarrow> safe (leading_number n cs) (\<lambda>v. 0 \<le> v)"
proof (induction cs arbitrary: n)
  case (Cons c cs)
  then show ?case by (auto intro: safe_bind [OF digit_step_safe])
qed simp

text \<open>An alternative that applies resets the escape state and is no character.\<close>

definition alt_ok :: "ik_input_parser \<Rightarrow> parsed \<Rightarrow> bool" where
  "alt_ok p r \<longleftrightarrow> (\<forall>p' a'. r = Some (p', a') \<longrightarrow>
     p' = reset_escape_state p \<and> act_type a' \<noteq> IK_INPUT_CHAR)"

lemma alt_ok_None [simp]: "alt_ok p None"
  by (simp add: alt_ok_def)

lemma alt_ok_act [simp]: "alt_ok p (act p a t) \<longleftrightarrow> t \<noteq> IK_INPUT_CHAR"
  by (auto simp: alt_ok_def act_def)

lemma arrow_keys_safe: "safe (parse_arrow_keys p es b a) (alt_ok p)"
proof -
  have "safe (res_bind (parse_number 0 cs) f) (alt_ok p)"
    if "\<And>r. safe (f r) (alt_ok p)" for cs f
    using that by (intro safe_bind [OF parse_number_safe]) simp_all
  then show ?thesis
    unfolding parse_arrow_keys_def by (auto simp: Let_def split: option.splits)
qed

lemma tilde_sequences_safe: "safe (parse_tilde_sequences p es b a) (alt_ok p)"
proof -
  have "safe (res_bind (parse_number 0 cs) f) (alt_ok p)"
    if "\<And>r. safe (f r) (alt_ok p)" for cs f
    using that by (intro safe_bind [OF parse_number_safe]) simp_all
  then show ?thesis
    unfolding parse_tilde_sequences_def by (auto simp: tilde_key_def split: option.splits)
qed

lemma mouse_sgr_ok: "alt_ok p (parse_mouse_sgr p es b a)"
  by (simp add: parse_mouse_sgr_def Let_def)

text \<open>The key codes a CSI u sequence passes on as characters are below the surrogates.\<close>

lemma keycode_scalar:
  assumes "0 \<le> k" and "k \<le> 50000"
  shows "is_scalar (word_of_int k)"
proof -
  obtain n where n: "k = int n" "n \<le> 50000" using assms by (metis nat_0_le nat_le_iff of_nat_numeral)
  then have "unat (word_of_int k :: 32 word) = n" by (simp add: unat_of_nat)
  with n(2) show ?thesis by (simp add: is_scalar_def word_le_nat_alt)
qed

lemma translate_scalar:
  "xkb_ok X \<Longrightarrow> is_scalar c \<Longrightarrow> is_scalar (ik_input_xkb_translate_shifted_key X p c)"
  by (simp add: ik_input_xkb_translate_shifted_key_def xkb_ok_def Let_def)

lemma csi_u_action_ok:
  assumes "xkb_ok X" and "0 \<le> keycode"
  shows "act_type (csi_u_action X p keycode m a) = IK_INPUT_CHAR \<Longrightarrow>
    is_scalar (act_codepoint (csi_u_action X p keycode m a))"
proof (cases "keycode \<le> 50000")
  case True
  note k = keycode_scalar [OF assms(2) True]
  then show "act_type (csi_u_action X p keycode m a) = IK_INPUT_CHAR \<Longrightarrow>
    is_scalar (act_codepoint (csi_u_action X p keycode m a))"
    by (simp add: csi_u_action_def translate_scalar [OF assms(1)] split: if_splits)
qed (simp add: csi_u_action_def)

lemma csi_u_safe:
  assumes "xkb_ok X"
  shows "safe (parse_csi_u_sequence X p es a)
    (\<lambda>r. \<forall>a'. r = Some a' \<longrightarrow> act_type a' = IK_INPUT_CHAR \<longrightarrow> is_scalar (act_codepoint a'))"
proof -
  have m: "safe (if b then leading_number 0 cs else Inr 1) (\<lambda>_. True)" for b cs
    using leading_number_safe [of 0 cs] by (auto elim: safe_mono)
  show ?thesis
    unfolding parse_csi_u_sequence_def Let_def
    by (auto intro!: safe_bind [OF leading_number_safe] safe_bind [OF m] csi_u_action_ok [OF assms])
qed

lemma or_else_safe:
  "safe r (\<lambda>x. case x of None \<Rightarrow> True | Some y \<Rightarrow> P y) \<Longrightarrow> safe k P \<Longrightarrow> safe (or_else r k) P"
  unfolding or_else_def by (rule safe_bind) (auto split: option.splits)

lemma alt_step_ok:
  "length (esc_buf p) = 16 \<Longrightarrow> length (utf8_buf p) = 4 \<Longrightarrow> \<not> in_utf8 p \<Longrightarrow> alt_ok p r \<Longrightarrow>
   (case r of None \<Rightarrow> True | Some y \<Rightarrow> step_ok y)"
  by (auto simp: alt_ok_def step_ok_def parser_inv_def reset_escape_state_def split: option.splits)

lemma first_byte_ok:
  assumes "length (esc_buf p) = 16" and "length (utf8_buf p) = 4" and "\<not> in_utf8 p"
  shows "case parse_first_escape_byte p b a of None \<Rightarrow> True | Some y \<Rightarrow> step_ok y"
  using assms by (simp add: parse_first_escape_byte_def act_def step_ok_def parser_inv_def
      reset_escape_state_def)

lemma escape_dispatch_safe:
  assumes "xkb_ok X" and q: "length (esc_buf q) = 16" "length (utf8_buf q) = 4" "\<not> in_utf8 q"
    and "esc_len q < 15"
  shows "safe (escape_dispatch X q b a) step_ok"
proof -
  have reset: "step_ok (reset_escape_state q, a')"
    if "act_type a' = IK_INPUT_CHAR \<longrightarrow> is_scalar (act_codepoint a')" for a'
    using that q by (simp add: step_ok_def parser_inv_def reset_escape_state_def)
  have stay: "step_ok (q, a\<lparr>act_type := IK_INPUT_UNKNOWN\<rparr>)"
    using assms(5) q by (simp add: step_ok_def parser_inv_def)
  have csi: "safe (res_bind (parse_csi_u_sequence X q es a)
      (\<lambda>r. case r of Some a' \<Rightarrow> Inr (reset_escape_state q, a')
           | None \<Rightarrow> Inr (reset_escape_state q, a\<lparr>act_type := IK_INPUT_UNKNOWN\<rparr>))) step_ok" for es
    by (rule safe_bind [OF csi_u_safe [OF assms(1)]]) (auto intro: reset split: option.splits)
  show ?thesis
    unfolding escape_dispatch_def Let_def
    using first_byte_ok [OF q] alt_step_ok [OF q mouse_sgr_ok] reset stay csi
    by (intro or_else_safe safe_mono [OF arrow_keys_safe alt_step_ok [OF q]]
        safe_mono [OF tilde_sequences_safe alt_step_ok [OF q]]) auto
qed

lemma escape_sequence_safe:
  assumes "xkb_ok X" and "parser_inv p" and "in_escape p"
  shows "safe (ik_input_parse_escape_sequence X p b a) step_ok"
  using assms
  by (auto simp: ik_input_parse_escape_sequence_def parser_inv_def Let_def step_ok_def
      reset_escape_state_def intro!: escape_dispatch_safe)

lemma parse_byte_safe:
  assumes "xkb_ok X" and "parser_inv p"
  shows "safe (ik_input_parse_byte X p b a) step_ok"
proof -
  have start: "safe (start_utf8 p b n a) step_ok" if "\<not> in_escape p" "2 \<le> n" "n \<le> 4" for n
    using that assms(2) by (simp add: start_utf8_def parser_inv_def step_ok_def)
  have cont: "safe (parse_utf8_continuation p b a) step_ok" if u: "in_utf8 p"
  proof -
    let ?n = "utf8_len p + 1"
    have "\<exists>cp. decode_utf8_sequence (take ?n ((utf8_buf p)[utf8_len p := b])) = Inr cp \<and> is_scalar cp"
      if "?n = utf8_expected p"
      using that u assms(2) decode_utf8_total [of "take ?n ((utf8_buf p)[utf8_len p := b])"]
        decode_utf8_scalar by (fastforce simp: parser_inv_def)
    then show ?thesis
      using u assms(2)
      by (auto simp: parse_utf8_continuation_def reset_utf8_state_def parser_inv_def step_ok_def Let_def)
  qed
  have ascii: "is_scalar (ucast b)" if "b \<le> 0x7F"
    using that by (simp add: is_scalar_def word_le_nat_alt unat_of_byte)
  have idle: "step_ok (p, a\<lparr>act_type := t\<rparr>)" if "t \<noteq> IK_INPUT_CHAR" for t
    using that assms(2) by (simp add: step_ok_def)
  show ?thesis
    using start cont escape_sequence_safe [OF assms] ascii idle assms(2)
    by (auto simp: ik_input_parse_byte_def) (simp_all add: step_ok_def parser_inv_def)
qed

subsection \<open>Text\<close>

definition idle :: "ik_input_parser \<Rightarrow> bool" where
  "idle p \<longleftrightarrow> parser_inv p \<and> \<not> in_utf8 p \<and> \<not> in_escape p"

text \<open>The code points of the character actions.\<close>

definition chars_of :: "ik_input_action list \<Rightarrow> 32 word list" where
  "chars_of as = map act_codepoint (filter (\<lambda>a. act_type a = IK_INPUT_CHAR) as)"

lemma chars_of_simps [simp]:
  "chars_of [] = []"
  "chars_of (a # as) = (if act_type a = IK_INPUT_CHAR then act_codepoint a # chars_of as else chars_of as)"
  "chars_of (as @ bs) = chars_of as @ chars_of bs"
  by (simp_all add: chars_of_def)

lemma parse_bytes_append:
  "parse_bytes X p bs = Inr (q, as) \<Longrightarrow> parse_bytes X q cs = Inr (r, as') \<Longrightarrow>
   parse_bytes X p (bs @ cs) = Inr (r, as @ as')"
  by (induction bs arbitrary: p as) (auto simp: res_bind_Inr_iff)

lemma continuation_bytes:
  assumes "list_all is_cont cs" and "cs \<noteq> []"
    and "length (esc_buf p) = 16" "length (utf8_buf p) = 4" "\<not> in_escape p" "in_utf8 p"
    and "utf8_len p + length cs = utf8_expected p" "utf8_expected p \<le> 4"
    and "decode_utf8_sequence (take (utf8_len p) (utf8_buf p) @ cs) = Inr c"
  shows "returns (parse_bytes X p cs) (\<lambda>(q, as). idle q \<and> chars_of as = [c])"
  using assms
proof (induction cs arbitrary: p)
  case (Cons b cs)
  let ?a = "\<lparr>act_type = IK_INPUT_UNKNOWN, act_codepoint = 0\<rparr>"
  let ?buf = "(utf8_buf p)[utf8_len p := b]"
  let ?p = "p\<lparr>utf8_buf := ?buf, utf8_len := utf8_len p + 1\<rparr>"
  have lt: "utf8_len p < 4" using Cons.prems(7,8) by simp
  have tk: "take (Suc (utf8_len p)) ?buf = take (utf8_len p) (utf8_buf p) @ [b]"
    using lt Cons.prems(4) by (simp add: take_Suc_conv_app_nth)
  have b: "b AND 0xC0 = 0x80" using Cons.prems(1) by (simp add: is_cont_def)
  show ?case
  proof (cases "cs = []")
    case True
    then have "utf8_expected p = Suc (utf8_len p)" using Cons.prems(7) by simp
    then show ?thesis
      using True Cons.prems tk b lt
      by (simp add: ik_input_parse_byte_def parse_utf8_continuation_def Let_def idle_def
          parser_inv_def reset_utf8_state_def)
  next
    case False
    then have "utf8_expected p \<noteq> Suc (utf8_len p)" using Cons.prems(7) by (cases cs) auto
    then have "ik_input_parse_byte X p b ?a = Inr (?p, ?a)"
      using Cons.prems b lt
      by (simp add: ik_input_parse_byte_def parse_utf8_continuation_def Let_def)
    moreover have "returns (parse_bytes X ?p cs) (\<lambda>(q, as). idle q \<and> chars_of as = [c])"
      using Cons.prems tk False by (intro Cons.IH) simp_all
    ultimately show ?thesis by (auto elim!: returnsE)
  qed
qed simp

definition printable :: "32 word \<Rightarrow> bool" where
  "printable c \<longleftrightarrow> is_scalar c \<and> unat c \<ge> 32 \<and> unat c \<noteq> 127"

lemma parse_encoded:
  assumes "idle p" and "printable c"
  shows "returns (parse_bytes X p (encode_utf8 c)) (\<lambda>(q, as). idle q \<and> chars_of as = [c])"
proof (cases "unat c < 128")
  case True
  let ?b = "ucast c :: byte"
  have "encode_utf8 c = [?b]" and u: "unat ?b = unat c"
    using True encode_utf8_ascii by (simp_all add: unat_to_byte)
  moreover have "ucast ?b = c"
    using True by (simp add: word_unat_eq_iff unat_of_byte unat_to_byte)
  moreover have "?b \<noteq> 0x1B \<and> ?b \<noteq> 0x09 \<and> ?b \<noteq> 0x0D \<and> ?b \<noteq> 0x0A \<and> ?b \<noteq> 0x01 \<and> ?b \<noteq> 0x03 \<and> ?b \<noteq> 0x05
      \<and> ?b \<noteq> 0x0B \<and> ?b \<noteq> 0x0E \<and> ?b \<noteq> 0x10 \<and> ?b \<noteq> 0x15 \<and> ?b \<noteq> 0x17 \<and> ?b \<noteq> 0x7F \<and> ?b \<ge> 0x20 \<and> ?b \<le> 0x7F"
    using assms(2) True u by (auto simp: printable_def word_unat_eq_iff word_le_nat_alt)
  ultimately show ?thesis
    using assms(1) by (simp add: ik_input_parse_byte_def idle_def)
next
  case False
  have c: "is_scalar c" using assms(2) by (simp add: printable_def)
  obtain l cs where e: "encode_utf8 c = l # cs" "list_all is_cont cs" "lead_len l = Some (Suc (length cs))"
    using encode_utf8_shape [OF is_scalar_le [OF c]] by metis
  have "unat l \<ge> 128" using ascii_in_encoding [of l c] e(1) False by (cases "unat l < 128") auto
  then have l: "\<not> l \<le> 0x7F" "l \<noteq> 0x1B" "l \<noteq> 0x09" "l \<noteq> 0x0D" "l \<noteq> 0x0A" "l \<noteq> 0x01" "l \<noteq> 0x03" "l \<noteq> 0x05"
    "l \<noteq> 0x0B" "l \<noteq> 0x0E" "l \<noteq> 0x10" "l \<noteq> 0x15" "l \<noteq> 0x17"
    by (auto simp: word_le_nat_alt)
  have l80: "l AND 0x80 \<noteq> 0" using \<open>unat l \<ge> 128\<close> by (simp add: byte_classes)
  have len: "length (encode_utf8 c) \<le> 4" using length_encode_utf8 [OF is_scalar_le [OF c]] by simp
  have ne: "cs \<noteq> []" using e(3) l80 by (auto simp: lead_len_def split: if_splits)
  let ?a = "\<lparr>act_type = IK_INPUT_UNKNOWN, act_codepoint = 0\<rparr>"
  let ?p = "p\<lparr>in_utf8 := True, utf8_buf := (utf8_buf p)[0 := l], utf8_len := 1,
      utf8_expected := Suc (length cs)\<rparr>"
  have "ik_input_parse_byte X p l ?a = Inr (?p, ?a)"
  proof -
    have "start_utf8 p l n ?a = Inr (?p\<lparr>utf8_expected := n\<rparr>, ?a)" for n
      using assms(1) by (simp add: start_utf8_def idle_def parser_inv_def)
    moreover have "(l AND 0xE0 = 0xC0 \<and> length cs = 1)
        \<or> (l AND 0xE0 \<noteq> 0xC0 \<and> l AND 0xF0 = 0xE0 \<and> length cs = 2)
        \<or> (l AND 0xE0 \<noteq> 0xC0 \<and> l AND 0xF0 \<noteq> 0xE0 \<and> l AND 0xF8 = 0xF0 \<and> length cs = 3)"
      using e(3) l80 by (auto simp: lead_len_def split: if_splits)
    ultimately show ?thesis
      using assms(1) l unfolding ik_input_parse_byte_def idle_def by (elim disjE conjE) simp_all
  qed
  moreover have "returns (parse_bytes X ?p cs) (\<lambda>(q, as). idle q \<and> chars_of as = [c])"
  proof (intro continuation_bytes ne e(2))
    have "take 1 ((utf8_buf p)[0 := l]) = [l]"
      using assms(1) by (cases "utf8_buf p") (auto simp: idle_def parser_inv_def)
    then show "decode_utf8_sequence (take (utf8_len ?p) (utf8_buf ?p) @ cs) = Inr c"
      using decode_encode_utf8 [OF c] False e(1) by simp
  qed (use assms(1) e(1) len in \<open>simp_all add: idle_def parser_inv_def\<close>)
  ultimately show ?thesis by (auto simp: e(1) elim!: returnsE)
qed

lemma parse_text:
  "list_all printable l \<Longrightarrow> idle p \<Longrightarrow>
   returns (parse_bytes X p (utf8 l)) (\<lambda>(q, as). idle q \<and> chars_of as = l)"
proof (induction l arbitrary: p)
  case (Cons c l)
  then obtain q as where q: "parse_bytes X p (encode_utf8 c) = Inr (q, as)" "idle q" "chars_of as = [c]"
    using parse_encoded [of p c X] by (auto elim!: returnsE)
  with Cons obtain r as' where "parse_bytes X q (utf8 l) = Inr (r, as')" "idle r" "chars_of as' = l"
    by (fastforce elim!: returnsE)
  with q show ?case using parse_bytes_append [of X p _ q as] by simp
qed simp

lemma create_idle: "idle (ik_input_parser_create X)"
  by (simp add: idle_def parser_inv_def ik_input_parser_create_def ik_input_xkb_init_state_def)

subsection \<open>Key sequences\<close>

text \<open>The parser has collected the bytes \<open>es\<close> after an escape character; \<open>p0\<close> is the parser before.\<close>

definition collecting :: "ik_input_parser \<Rightarrow> ik_input_parser \<Rightarrow> byte list \<Rightarrow> bool" where
  "collecting p0 p es \<longleftrightarrow>
     parser_inv p \<and> in_escape p \<and> esc_len p = length es \<and> take (length es) (esc_buf p) = es
     \<and> reverse_map p = reverse_map p0 \<and> shift_mask p = shift_mask p0 \<and> xkb_initialized p = xkb_initialized p0"

text \<open>Bytes from \<open>0\<close> to \<open>;\<close> inside of a sequence are only collected.\<close>

lemma collect_buffer:
  assumes "collecting p0 p es" and "length es < 14"
  obtains p' where "collecting p0 p' (es @ [b])" and "esc_len p' = length es + 1" and "\<not> in_utf8 p'"
    and "\<And>a. ik_input_parse_byte X p b a = escape_dispatch X p' b a"
proof -
  let ?buf = "((esc_buf p)[length es := b])[length es + 1 := 0]"
  let ?p = "p\<lparr>esc_buf := ?buf, esc_len := length es + 1\<rparr>"
  have "length (esc_buf p) = 16" and nu: "\<not> in_utf8 p"
    using assms(1) by (auto simp: collecting_def parser_inv_def)
  then have "take (length es + 1) ?buf = es @ [b]"
    using assms by (simp add: take_Suc_conv_app_nth collecting_def)
  then have "collecting p0 ?p (es @ [b])"
    using assms nu by (simp add: collecting_def parser_inv_def)
  moreover have "ik_input_parse_byte X p b a = escape_dispatch X ?p b a" for a
    using assms nu by (simp add: ik_input_parse_byte_def ik_input_parse_escape_sequence_def collecting_def
        parser_inv_def Let_def)
  moreover have "\<not> in_utf8 ?p" using nu by simp
  ultimately show ?thesis using that [of ?p] by simp
qed

definition is_key_param :: "byte \<Rightarrow> bool" where
  "is_key_param b \<longleftrightarrow> 48 \<le> unat b \<and> unat b \<le> 59"

lemma collect_step:
  assumes "collecting p0 p es" and "length es < 14" and "es \<noteq> []" and "is_key_param b"
  shows "\<exists>p'. ik_input_parse_byte X p b a = Inr (p', a\<lparr>act_type := IK_INPUT_UNKNOWN\<rparr>)
    \<and> collecting p0 p' (es @ [b])"
proof -
  obtain p' where p': "collecting p0 p' (es @ [b])" "esc_len p' = length es + 1"
    "\<And>a. ik_input_parse_byte X p b a = escape_dispatch X p' b a"
    using collect_buffer [OF assms(1,2)] by metis
  have b: "b \<noteq> 0x41" "b \<noteq> 0x42" "b \<noteq> 0x43" "b \<noteq> 0x44" "b \<noteq> 0x4D" "b \<noteq> 0x6D" "b \<noteq> 0x48" "b \<noteq> 0x46"
    "b \<noteq> 0x7E" "b \<noteq> 0x75" "\<not> 0x41 \<le> b"
    using assms(4) by (auto simp: is_key_param_def word_le_nat_alt)
  have "escape_dispatch X p' b a = Inr (p', a\<lparr>act_type := IK_INPUT_UNKNOWN\<rparr>)"
    using b assms(3) p'(2)
    by (simp add: escape_dispatch_def or_else_def Let_def parse_arrow_keys_def parse_mouse_sgr_def
        parse_tilde_sequences_def is_discardable_csi_terminal_def)
  with p' show ?thesis by auto
qed

lemma collect_bytes:
  "collecting p0 p es \<Longrightarrow> es \<noteq> [] \<Longrightarrow> list_all is_key_param bs \<Longrightarrow> length es + length bs < 15 \<Longrightarrow>
   \<exists>q as. parse_bytes X p bs = Inr (q, as) \<and> collecting p0 q (es @ bs) \<and> chars_of as = []"
proof (induction bs arbitrary: p es)
  case (Cons b bs)
  obtain p' where p': "ik_input_parse_byte X p b \<lparr>act_type = IK_INPUT_UNKNOWN, act_codepoint = 0\<rparr>
      = Inr (p', \<lparr>act_type = IK_INPUT_UNKNOWN, act_codepoint = 0\<rparr>)" "collecting p0 p' (es @ [b])"
    using collect_step [OF Cons.prems(1) _ Cons.prems(2), of b X
        "\<lparr>act_type = IK_INPUT_UNKNOWN, act_codepoint = 0\<rparr>"] Cons.prems by auto
  then show ?case using Cons.IH [of p' "es @ [b]"] Cons.prems by fastforce
qed simp

lemma csi_start:
  assumes "idle p"
  shows "\<exists>q as. parse_bytes X p [0x1B, 0x5B] = Inr (q, as) \<and> collecting p q [0x5B] \<and> chars_of as = []"
proof -
  let ?a = "\<lparr>act_type = IK_INPUT_UNKNOWN, act_codepoint = 0\<rparr>"
  let ?p = "p\<lparr>in_escape := True, esc_len := 0\<rparr>"
  have 1: "ik_input_parse_byte X p 0x1B ?a = Inr (?p, ?a)"
    using assms by (simp add: ik_input_parse_byte_def idle_def)
  have "collecting p ?p []"
    using assms by (simp add: collecting_def idle_def parser_inv_def)
  then obtain q where q: "collecting p q [0x5B]" "esc_len q = 1"
    "ik_input_parse_byte X ?p 0x5B ?a = escape_dispatch X q 0x5B ?a"
    using collect_buffer [of p ?p "[]" "0x5B" X] by auto
  then have "escape_dispatch X q 0x5B ?a = Inr (q, ?a)"
    by (simp add: escape_dispatch_def or_else_def Let_def parse_first_escape_byte_def
        parse_arrow_keys_def parse_mouse_sgr_def parse_tilde_sequences_def is_discardable_csi_terminal_def)
  with 1 q show ?thesis by simp
qed

text \<open>Decimal numbers are read back.\<close>

lemma digit_of_nat:
  assumes "d < 10"
  shows "is_digit (word_of_nat (48 + d))" and "is_key_param (word_of_nat (48 + d))"
    and "uint (word_of_nat (48 + d) :: byte) = 48 + int d"
proof -
  have u: "unat (word_of_nat (48 + d) :: byte) = 48 + d"
    using assms by (simp add: unat_of_nat del: of_nat_add)
  then show "is_digit (word_of_nat (48 + d))" and "is_key_param (word_of_nat (48 + d))"
    using assms by (simp_all add: is_digit_def is_key_param_def word_le_nat_alt del: of_nat_add)
  show "uint (word_of_nat (48 + d) :: byte) = 48 + int d"
    using u by (metis of_nat_add of_nat_numeral uint_nat)
qed

lemma dec_u8_digits:
  obtains ds where "dec_u8 k = map (\<lambda>d. word_of_nat (48 + d)) ds" and "list_all (\<lambda>d. d < 10) ds"
    and "length ds \<le> 3" and "foldl (\<lambda>n d. n * 10 + d) 0 ds = unat k"
proof -
  let ?n = "unat k"
  define ds where "ds = (if ?n < 10 then [?n] else if ?n < 100 then [?n div 10, ?n mod 10]
      else [?n div 100, ?n div 10 mod 10, ?n mod 10])"
  have "?n div 100 < 10" and "?n div 10 mod 10 < 10"
    using unat_byte_less [of k] by linarith+
  moreover have "?n div 10 < 10" if "?n < 100" using that by linarith
  ultimately have "list_all (\<lambda>d. d < 10) ds" by (simp add: ds_def)
  moreover have "dec_u8 k = map (\<lambda>d. word_of_nat (48 + d)) ds"
    by (simp add: dec_u8_def ds_def Let_def)
  moreover have "foldl (\<lambda>n d. n * 10 + d) 0 ds = ?n"
  proof -
    have "(?n div 100 * 10 + ?n div 10 mod 10) * 10 + ?n mod 10 = ?n"
      using div_mult2_eq [of ?n 10 10] by (simp add: mult.commute)
    then show ?thesis by (simp add: ds_def)
  qed
  moreover have "length ds \<le> 3" by (simp add: ds_def)
  ultimately show ?thesis using that by blast
qed

lemma leading_number_digits:
  "list_all (\<lambda>d. d < 10) ds \<Longrightarrow> n * 10 ^ length ds + 10 ^ length ds \<le> 2147483647 \<Longrightarrow>
   rest = [] \<or> \<not> is_digit (hd rest) \<Longrightarrow>
   leading_number (int n) (map (\<lambda>d. word_of_nat (48 + d)) ds @ rest)
   = Inr (int (foldl (\<lambda>n d. n * 10 + d) n ds))"
proof (induction ds arbitrary: n)
  case Nil
  then show ?case by (cases rest) auto
next
  case (Cons d ds)
  have d: "d < 10" using Cons.prems(1) by simp
  have "n * 10 ^ Suc (length ds) + 10 ^ Suc (length ds) = (n * 10 + 10) * 10 ^ length ds"
    by (simp add: algebra_simps)
  moreover have "(n * 10 + d + 1) * 10 ^ length ds \<le> (n * 10 + 10) * 10 ^ length ds"
    using d by (intro mult_right_mono) simp_all
  moreover have "(n * 10 + d + 1) * 10 ^ length ds = (n * 10 + d) * 10 ^ length ds + 10 ^ length ds"
    by (simp add: algebra_simps)
  ultimately have b: "(n * 10 + d) * 10 ^ length ds + 10 ^ length ds \<le> 2147483647"
    using Cons.prems(2) unfolding length_Cons by linarith
  have "n * 10 + d \<le> (n * 10 + d) * 10 ^ length ds" by simp
  then have "n * 10 + d \<le> 2147483647" using b by (meson add_leD1 le_trans)
  then have "digit_step (int n) (word_of_nat (48 + d)) = Inr (int (n * 10 + d))"
    using digit_of_nat(3) [OF d] by (simp add: digit_step_def Let_def del: of_nat_add)
  then show ?case
    using Cons.IH [of "n * 10 + d"] Cons.prems b digit_of_nat(1) [OF d]
    by (simp del: of_nat_add)
qed

lemma dec_u8_number:
  assumes "\<not> is_digit c"
  shows "leading_number 0 (dec_u8 k @ c # rest) = Inr (uint k)"
    and "dropWhile is_digit (dec_u8 k @ c # rest) = c # rest"
    and "list_all is_key_param (dec_u8 k)" and "length (dec_u8 k) \<le> 3"
proof -
  obtain ds where ds: "dec_u8 k = map (\<lambda>d. word_of_nat (48 + d)) ds" "list_all (\<lambda>d. d < 10) ds"
    "length ds \<le> 3" "foldl (\<lambda>n d. n * 10 + d) 0 ds = unat k"
    using dec_u8_digits .
  have "(10 :: nat) ^ length ds \<le> 10 ^ 3" using ds(3) by (intro power_increasing) simp_all
  then have "leading_number (int 0) (dec_u8 k @ c # rest) = Inr (int (unat k))"
    unfolding ds(1) ds(4) [symmetric] using assms
    by (intro leading_number_digits [OF ds(2)]) simp_all
  then show "leading_number 0 (dec_u8 k @ c # rest) = Inr (uint k)"
    by simp
  show "list_all is_key_param (dec_u8 k)" "length (dec_u8 k) \<le> 3"
    using ds digit_of_nat(2) by (auto simp: list_all_iff simp del: of_nat_add)
  have "list_all is_digit (dec_u8 k)"
    using ds digit_of_nat(1) by (auto simp: list_all_iff simp del: of_nat_add)
  then show "dropWhile is_digit (dec_u8 k @ c # rest) = c # rest"
    using assms by (subst dropWhile_append2) (auto simp: list_all_iff)
qed

lemma csi_u_action_collecting:
  "collecting p0 p es \<Longrightarrow> csi_u_action X p k m a = csi_u_action X p0 k m a"
proof -
  assume "collecting p0 p es"
  then have "ik_input_xkb_translate_shifted_key X p = ik_input_xkb_translate_shifted_key X p0"
    by (intro ext) (simp add: ik_input_xkb_translate_shifted_key_def collecting_def Let_def)
  then show ?thesis by (simp only: csi_u_action_def)
qed

text \<open>The end of a CSI u sequence.\<close>

lemma csi_u_end:
  assumes "collecting p0 p es" and "es = 0x5B # dec_u8 k @ 0x3B # dec_u8 m"
  shows "\<exists>q. ik_input_parse_byte X p 0x75 a
      = Inr (q, csi_u_action X p0 (uint k) (mask_numlock (uint m)) a) \<and> idle q"
proof -
  have nd: "\<not> is_digit 0x3B" "\<not> is_digit 0x75" by code_simp+
  note k = dec_u8_number(1,2) [OF nd(1), of k] and m = dec_u8_number(1) [OF nd(2), of m "[]"]
  note kl = dec_u8_number(4) [OF nd(1)]
  have len: "length es < 14" using assms(2) kl [of k] kl [of m] by simp
  obtain p' where p': "collecting p0 p' (es @ [0x75])" "esc_len p' = length es + 1" "\<not> in_utf8 p'"
    "\<And>a. ik_input_parse_byte X p 0x75 a = escape_dispatch X p' 0x75 a"
    using collect_buffer [OF assms(1) len, of "0x75" X] by metis
  have es: "take (esc_len p') (esc_buf p') = es @ [0x75]" using p'(1) by (simp add: collecting_def)
  have "parse_csi_u_sequence X p' (es @ [0x75]) a
      = Inr (Some (csi_u_action X p' (uint k) (mask_numlock (uint m)) a))"
    using k m by (simp add: parse_csi_u_sequence_def assms(2) Let_def)
  then have "escape_dispatch X p' 0x75 a
      = Inr (reset_escape_state p', csi_u_action X p' (uint k) (mask_numlock (uint m)) a)"
    using assms(2) p'(2) unfolding escape_dispatch_def es Let_def
    by (simp add: or_else_def parse_arrow_keys_def parse_mouse_sgr_def parse_tilde_sequences_def)
  moreover have "idle (reset_escape_state p')"
    using p'(1,3) by (simp add: idle_def collecting_def parser_inv_def reset_escape_state_def)
  ultimately show ?thesis using p'(4) csi_u_action_collecting [OF p'(1)] by auto
qed

subsection \<open>Theorems\<close>

lemma parse_bytes_safe:
  "xkb_ok X \<Longrightarrow> parser_inv p \<Longrightarrow>
   safe (parse_bytes X p bs) (\<lambda>(q, as). parser_inv q \<and> list_all is_scalar (chars_of as))"
proof (induction bs arbitrary: p)
  case (Cons b bs)
  show ?case
    unfolding parse_bytes.simps
    by (rule safe_bind [OF parse_byte_safe [OF Cons.prems]])
       (auto simp: step_ok_def intro!: safe_bind [OF Cons.IH [OF Cons.prems(1)]])
qed simp

text \<open>A concrete keyboard: no shifted symbols.\<close>

definition no_xkb :: xkb where
  "no_xkb = \<lparr>xkb_available = False, xkb_shift_index = 0, key_get_one_sym = (\<lambda>m kc. 0),
             keysym_to_utf32 = (\<lambda>sym. 0)\<rparr>"

lemma no_xkb_ok: "xkb_ok no_xkb"
  by (simp add: xkb_ok_def no_xkb_def is_scalar_def)

text \<open>C2. Whatever bytes arrive on the terminal, the parser never writes outside of its two buffers,
  never reaches the panic of the decoder, keeps its invariant, and every character action it emits
  carries a Unicode scalar value. The one fault that remains is the overflow of a number inside of an
  escape sequence.\<close>

theorem parser_safety:
  assumes "xkb_ok X"
  shows "(\<exists>q as. parse_bytes X (ik_input_parser_create X) bs = Inr (q, as) \<and> parser_inv q
        \<and> list_all is_scalar (chars_of as))
    \<or> parse_bytes X (ik_input_parser_create X) bs = Inl IntOverflow"
proof -
  have "parser_inv (ik_input_parser_create X)" using create_idle [of X] by (simp add: idle_def)
  from parse_bytes_safe [OF assms this, of bs] show ?thesis
    by (cases "parse_bytes X (ik_input_parser_create X) bs") auto
qed

theorem parser_safety_witness:
  "(\<exists>q as. parse_bytes no_xkb (ik_input_parser_create no_xkb) [0xF8, 0xE2, 0x82, 0x1B, 0x5B, 0x41]
        = Inr (q, as) \<and> parser_inv q \<and> list_all is_scalar (chars_of as))
   \<or> parse_bytes no_xkb (ik_input_parser_create no_xkb) [0xF8, 0xE2, 0x82, 0x1B, 0x5B, 0x41]
        = Inl IntOverflow"
  by (rule parser_safety [OF no_xkb_ok])

text \<open>The overflow does happen: ten digits in a key sequence are enough, and an escape sequence
  may hold twelve.\<close>

theorem parser_overflow:
  "parse_bytes X (ik_input_parser_create no_xkb)
     [0x1B, 0x5B, 0x39, 0x39, 0x39, 0x39, 0x39, 0x39, 0x39, 0x39, 0x39, 0x39, 0x75]
   = Inl IntOverflow"
  by code_simp

text \<open>C30. Text typed as UTF-8 arrives as it was typed: for every list of printable code points, the
  character actions the parser emits for its encoding are exactly those code points, and the parser is
  idle again.\<close>

theorem typed_text_roundtrip:
  assumes "list_all printable l" and "idle p"
  shows "\<exists>q as. parse_bytes X p (utf8 l) = Inr (q, as) \<and> idle q \<and> chars_of as = l"
  using parse_text [OF assms, of X] by (auto elim!: returnsE)

theorem typed_text_roundtrip_witness:
  "\<exists>q as. parse_bytes no_xkb (ik_input_parser_create no_xkb) (utf8 [0x61, 0xE9, 0x20AC, 0x1F600])
     = Inr (q, as) \<and> idle q \<and> chars_of as = [0x61, 0xE9, 0x20AC, 0x1F600]"
  by (rule typed_text_roundtrip [OF _ create_idle]) (simp add: printable_def is_scalar_def)

text \<open>A CSI u key report \<open>ESC [ k ; m u\<close> with a key code and a modifier below 256 yields, for the
  last byte and no earlier, the action of that key with that modifier (Num Lock ignored), and the
  parser is idle again.\<close>

theorem csi_u_report:
  assumes "idle p"
  shows "\<exists>q as. parse_bytes X p ([0x1B, 0x5B] @ dec_u8 k @ [0x3B] @ dec_u8 m @ [0x75]) = Inr (q, as)
    \<and> idle q \<and> chars_of (butlast as) = []
    \<and> last as = csi_u_action X p (uint k) (mask_numlock (uint m))
        \<lparr>act_type = IK_INPUT_UNKNOWN, act_codepoint = 0\<rparr>"
proof -
  have nd: "\<not> is_digit 0x75" by code_simp
  note d = dec_u8_number(3,4) [OF nd]
  obtain q1 as1 where 1: "parse_bytes X p [0x1B, 0x5B] = Inr (q1, as1)" "collecting p q1 [0x5B]"
    "chars_of as1 = []"
    using csi_start [OF assms] by blast
  have "list_all is_key_param (dec_u8 k @ [0x3B] @ dec_u8 m)" using d by (simp add: is_key_param_def)
  moreover have "length [0x5B :: byte] + length (dec_u8 k @ [0x3B] @ dec_u8 m) < 15"
    using d(2) [of k] d(2) [of m] by simp
  ultimately obtain q2 as2 where 2: "parse_bytes X q1 (dec_u8 k @ [0x3B] @ dec_u8 m) = Inr (q2, as2)"
    "collecting p q2 ([0x5B] @ dec_u8 k @ [0x3B] @ dec_u8 m)" "chars_of as2 = []"
    using collect_bytes [OF 1(2), of "dec_u8 k @ [0x3B] @ dec_u8 m" X] by auto
  obtain q3 where 3: "idle q3" "parse_bytes X q2 [0x75] = Inr (q3,
      [csi_u_action X p (uint k) (mask_numlock (uint m)) \<lparr>act_type = IK_INPUT_UNKNOWN, act_codepoint = 0\<rparr>])"
    using csi_u_end [OF 2(2), of k m X "\<lparr>act_type = IK_INPUT_UNKNOWN, act_codepoint = 0\<rparr>"] by auto
  from parse_bytes_append [OF 1(1) parse_bytes_append [OF 2(1) 3(2)]] 1(3) 2(3) 3(1)
  show ?thesis by (simp add: butlast_append)
qed

theorem csi_u_report_witness:
  "\<exists>q as. parse_bytes no_xkb (ik_input_parser_create no_xkb)
      ([0x1B, 0x5B] @ dec_u8 99 @ [0x3B] @ dec_u8 133 @ [0x75]) = Inr (q, as)
    \<and> last as = \<lparr>act_type = IK_INPUT_CTRL_C, act_codepoint = 0\<rparr>"
proof -
  have "csi_u_action no_xkb (ik_input_parser_create no_xkb) (uint (99 :: byte)) (mask_numlock (uint (133 :: byte)))
      \<lparr>act_type = IK_INPUT_UNKNOWN, act_codepoint = 0\<rparr> = \<lparr>act_type = IK_INPUT_CTRL_C, act_codepoint = 0\<rparr>"
    by code_simp
  then show ?thesis using csi_u_report [OF create_idle, of no_xkb no_xkb 99 133] by auto
qed

lemma escape_dispatch_len:
  assumes "escape_dispatch X p b a = Inr (q, a')" and "in_escape q"
  shows "esc_len q = esc_len p \<or> (b = 0x1B \<and> esc_len p = 1 \<and> esc_len q = 0)"
proof -
  have alt: "\<not> in_escape q'" if "alt_ok p (Some (q', a''))" for q' a''
    using that by (simp add: alt_ok_def reset_escape_state_def)
  have "alt_ok p x" if "parse_arrow_keys p es b a = Inr x \<or> parse_tilde_sequences p es b a = Inr x" for x es
    using that arrow_keys_safe [of p es b a] tilde_sequences_safe [of p es b a] by auto
  with alt mouse_sgr_ok [of p] assms show ?thesis
    unfolding escape_dispatch_def or_else_def Let_def
    by (auto simp: res_bind_Inr_iff parse_first_escape_byte_def act_def reset_escape_state_def
        split: if_splits option.splits) metis+
qed

text \<open>C37. An escape sequence cannot hold the parser: while it stays in escape mode the number of
  collected bytes grows with every byte, up to 14, unless a second escape character restarts it.\<close>

theorem escape_progress:
  assumes "parser_inv p" and "in_escape p" and "ik_input_parse_byte X p b a = Inr (q, a')" and "in_escape q"
  shows "(esc_len q = esc_len p + 1 \<and> esc_len q \<le> 14) \<or> (b = 0x1B \<and> esc_len p = 0 \<and> esc_len q = 0)"
proof -
  have "\<not> in_utf8 p" using assms(1,2) by (simp add: parser_inv_def)
  then have e: "ik_input_parse_escape_sequence X p b a = Inr (q, a')"
    using assms(2,3) by (simp add: ik_input_parse_byte_def)
  let ?p = "p\<lparr>esc_buf := ((esc_buf p)[esc_len p := b])[esc_len p + 1 := 0], esc_len := esc_len p + 1\<rparr>"
  have "escape_dispatch X ?p b a = Inr (q, a')" and "esc_len p + 1 < 15"
    using e assms(1,2,4)
    by (auto simp: ik_input_parse_escape_sequence_def parser_inv_def Let_def reset_escape_state_def
        split: if_splits)
  with escape_dispatch_len [OF _ assms(4)] show ?thesis by fastforce
qed

theorem escape_progress_witness:
  "\<exists>p q a'. ik_input_parse_byte no_xkb p 0x5B \<lparr>act_type = IK_INPUT_UNKNOWN, act_codepoint = 0\<rparr> = Inr (q, a')
    \<and> in_escape q \<and> ((esc_len q = esc_len p + 1 \<and> esc_len q \<le> 14)
        \<or> ((0x5B :: byte) = 0x1B \<and> esc_len p = 0 \<and> esc_len q = 0))"
proof -
  let ?a = "\<lparr>act_type = IK_INPUT_UNKNOWN, act_codepoint = 0\<rparr>"
  let ?p = "(ik_input_parser_create no_xkb)\<lparr>in_escape := True\<rparr>"
  let ?q = "?p\<lparr>esc_buf := 0x5B # replicate 15 0, esc_len := 1\<rparr>"
  have i: "parser_inv ?p" "in_escape ?p" by code_simp+
  have s: "ik_input_parse_byte no_xkb ?p 0x5B ?a = Inr (?q, ?a)" and q: "in_escape ?q"
    by code_simp+
  from escape_progress [OF i s q] s q show ?thesis by blast
qed

end
