(* ===== verification/Ik_Scroll_Detector.thy ===== *)
theory Ik_Scroll_Detector
  imports Ik_Input_Parser
begin

text \<open>
  The scroll detector, apps/ikigai/scroll_detector.c: a state machine that tells the arrow keys of the
  keyboard from the bursts of arrow sequences that a mouse wheel produces, by the time between them.

  The four operations are functions on the record \<open>ik_scroll_detector\<close>; times are milliseconds of a
  monotonic clock, whose differences stay far from the bounds of \<^verbatim>\<open>int64_t\<close>. \<open>sd_step\<close> is the step
  relation of the machine over its events and \<open>sd_run\<close> its runs.
\<close>

datatype ik_scroll_state = IK_SCROLL_STATE_IDLE | IK_SCROLL_STATE_WAITING | IK_SCROLL_STATE_ABSORBING

datatype ik_scroll_result =
    IK_SCROLL_RESULT_NONE | IK_SCROLL_RESULT_ABSORBED
  | IK_SCROLL_RESULT_SCROLL_UP | IK_SCROLL_RESULT_SCROLL_DOWN
  | IK_SCROLL_RESULT_ARROW_UP | IK_SCROLL_RESULT_ARROW_DOWN

record ik_scroll_detector =
  sd_state :: ik_scroll_state
  sd_pending_dir :: ik_input_action_type
  sd_timer_start_ms :: int
  sd_burst_threshold_ms :: int

subsection \<open>The code\<close>

definition ik_scroll_detector_create :: ik_scroll_detector where
  "ik_scroll_detector_create =
     \<lparr>sd_state = IK_SCROLL_STATE_IDLE, sd_pending_dir = IK_INPUT_ARROW_UP, sd_timer_start_ms = 0,
      sd_burst_threshold_ms = 5\<rparr>"

definition scroll_result :: "ik_input_action_type \<Rightarrow> ik_scroll_result" where
  "scroll_result d = (if d = IK_INPUT_ARROW_UP then IK_SCROLL_RESULT_SCROLL_UP
                      else IK_SCROLL_RESULT_SCROLL_DOWN)"

definition arrow_result :: "ik_input_action_type \<Rightarrow> ik_scroll_result" where
  "arrow_result d = (if d = IK_INPUT_ARROW_UP then IK_SCROLL_RESULT_ARROW_UP
                     else IK_SCROLL_RESULT_ARROW_DOWN)"

definition ik_scroll_detector_process_arrow ::
  "ik_scroll_detector \<Rightarrow> ik_input_action_type \<Rightarrow> int \<Rightarrow> (ik_scroll_detector \<times> ik_scroll_result) res" where
  "ik_scroll_detector_process_arrow det arrow_type timestamp_ms =
     check_assert (arrow_type = IK_INPUT_ARROW_UP \<or> arrow_type = IK_INPUT_ARROW_DOWN)
       (let elapsed = timestamp_ms - sd_timer_start_ms det
        in case sd_state det of
             IK_SCROLL_STATE_IDLE \<Rightarrow>
               Inr (det\<lparr>sd_state := IK_SCROLL_STATE_WAITING, sd_pending_dir := arrow_type,
                        sd_timer_start_ms := timestamp_ms\<rparr>, IK_SCROLL_RESULT_NONE)
           | IK_SCROLL_STATE_WAITING \<Rightarrow>
               if elapsed \<le> sd_burst_threshold_ms det
               then Inr (det\<lparr>sd_state := IK_SCROLL_STATE_ABSORBING, sd_timer_start_ms := timestamp_ms\<rparr>,
                         scroll_result (sd_pending_dir det))
               else Inr (det\<lparr>sd_pending_dir := arrow_type, sd_timer_start_ms := timestamp_ms\<rparr>,
                         arrow_result (sd_pending_dir det))
           | IK_SCROLL_STATE_ABSORBING \<Rightarrow>
               if elapsed \<le> sd_burst_threshold_ms det
               then Inr (det\<lparr>sd_timer_start_ms := timestamp_ms\<rparr>, IK_SCROLL_RESULT_ABSORBED)
               else Inr (det\<lparr>sd_state := IK_SCROLL_STATE_WAITING, sd_pending_dir := arrow_type,
                             sd_timer_start_ms := timestamp_ms\<rparr>, IK_SCROLL_RESULT_NONE))"

definition ik_scroll_detector_check_timeout ::
  "ik_scroll_detector \<Rightarrow> int \<Rightarrow> ik_scroll_detector \<times> ik_scroll_result" where
  "ik_scroll_detector_check_timeout det timestamp_ms =
     (if sd_state det = IK_SCROLL_STATE_IDLE then (det, IK_SCROLL_RESULT_NONE)
      else (let elapsed = timestamp_ms - sd_timer_start_ms det
            in if elapsed \<le> sd_burst_threshold_ms det then (det, IK_SCROLL_RESULT_NONE)
               else if sd_state det = IK_SCROLL_STATE_WAITING
                    then (det\<lparr>sd_state := IK_SCROLL_STATE_IDLE\<rparr>, arrow_result (sd_pending_dir det))
               else (det\<lparr>sd_state := IK_SCROLL_STATE_IDLE\<rparr>, IK_SCROLL_RESULT_NONE)))"

definition ik_scroll_detector_get_timeout_ms :: "ik_scroll_detector \<Rightarrow> int \<Rightarrow> int" where
  "ik_scroll_detector_get_timeout_ms det timestamp_ms =
     (if sd_state det = IK_SCROLL_STATE_IDLE then - 1
      else (let elapsed = timestamp_ms - sd_timer_start_ms det;
                remaining = sd_burst_threshold_ms det - elapsed
            in if remaining < 0 then 0 else remaining))"

definition ik_scroll_detector_flush :: "ik_scroll_detector \<Rightarrow> ik_scroll_detector \<times> ik_scroll_result" where
  "ik_scroll_detector_flush det =
     (if sd_state det = IK_SCROLL_STATE_WAITING
      then (det\<lparr>sd_state := IK_SCROLL_STATE_IDLE\<rparr>, arrow_result (sd_pending_dir det))
      else (det\<lparr>sd_state := IK_SCROLL_STATE_IDLE\<rparr>, IK_SCROLL_RESULT_NONE))"

subsection \<open>Runs\<close>

datatype sd_event = Arrow ik_input_action_type int | Timeout int | Flush

inductive sd_step ::
  "ik_scroll_detector \<Rightarrow> sd_event \<Rightarrow> ik_scroll_result \<Rightarrow> ik_scroll_detector \<Rightarrow> bool" where
  arrow: "ik_scroll_detector_process_arrow det d t = Inr (det', r) \<Longrightarrow> sd_step det (Arrow d t) r det'"
| timeout: "ik_scroll_detector_check_timeout det t = (det', r) \<Longrightarrow> sd_step det (Timeout t) r det'"
| flush: "ik_scroll_detector_flush det = (det', r) \<Longrightarrow> sd_step det Flush r det'"

inductive_cases sd_stepE: "sd_step det e r det'"

inductive sd_run ::
  "ik_scroll_detector \<Rightarrow> (sd_event \<times> ik_scroll_result) list \<Rightarrow> ik_scroll_detector \<Rightarrow> bool" where
  start: "sd_run det [] det"
| step: "sd_run det tr det' \<Longrightarrow> sd_step det' e r det'' \<Longrightarrow> sd_run det (tr @ [(e, r)]) det''"

text \<open>How many arrows of the input a result stands for.\<close>

fun arrows_of_result :: "ik_scroll_result \<Rightarrow> nat" where
  "arrows_of_result IK_SCROLL_RESULT_NONE = 0"
| "arrows_of_result IK_SCROLL_RESULT_ABSORBED = 1"
| "arrows_of_result IK_SCROLL_RESULT_SCROLL_UP = 2"
| "arrows_of_result IK_SCROLL_RESULT_SCROLL_DOWN = 2"
| "arrows_of_result IK_SCROLL_RESULT_ARROW_UP = 1"
| "arrows_of_result IK_SCROLL_RESULT_ARROW_DOWN = 1"

fun arrows_of_event :: "sd_event \<Rightarrow> nat" where
  "arrows_of_event (Arrow d t) = 1"
| "arrows_of_event (Timeout t) = 0"
| "arrows_of_event Flush = 0"

definition pending_arrows :: "ik_scroll_detector \<Rightarrow> nat" where
  "pending_arrows det = (if sd_state det = IK_SCROLL_STATE_WAITING then 1 else 0)"

lemma arrows_results [simp]:
  "arrows_of_result (scroll_result d) = 2" "arrows_of_result (arrow_result d) = 1"
  by (simp_all add: scroll_result_def arrow_result_def)

lemma sd_step_balance:
  "sd_step det e r det' \<Longrightarrow>
   pending_arrows det + arrows_of_event e = arrows_of_result r + pending_arrows det'
   \<and> sd_burst_threshold_ms det' = sd_burst_threshold_ms det"
  by (erule sd_stepE)
     (auto simp: ik_scroll_detector_process_arrow_def check_assert_Inr_iff pending_arrows_def
        ik_scroll_detector_check_timeout_def ik_scroll_detector_flush_def Let_def
        split: ik_scroll_state.splits if_splits)

text \<open>The direction that a result reports, and the direction of the last arrow before each report.\<close>

fun result_dir :: "ik_scroll_result \<Rightarrow> ik_input_action_type option" where
  "result_dir IK_SCROLL_RESULT_SCROLL_UP = Some IK_INPUT_ARROW_UP"
| "result_dir IK_SCROLL_RESULT_ARROW_UP = Some IK_INPUT_ARROW_UP"
| "result_dir IK_SCROLL_RESULT_SCROLL_DOWN = Some IK_INPUT_ARROW_DOWN"
| "result_dir IK_SCROLL_RESULT_ARROW_DOWN = Some IK_INPUT_ARROW_DOWN"
| "result_dir _ = None"

fun after_event :: "sd_event \<Rightarrow> ik_input_action_type option \<Rightarrow> ik_input_action_type option" where
  "after_event (Arrow d t) l = Some d"
| "after_event _ l = l"

fun directed :: "ik_input_action_type option \<Rightarrow> (sd_event \<times> ik_scroll_result) list \<Rightarrow> bool" where
  "directed l [] = True"
| "directed l ((e, r) # tr) = ((result_dir r = None \<or> result_dir r = l) \<and> directed (after_event e l) tr)"

lemma directed_append:
  "directed l (tr @ tr') \<longleftrightarrow> directed l tr \<and> directed (fold (after_event \<circ> fst) tr l) tr'"
proof (induction tr arbitrary: l)
  case (Cons x tr)
  then show ?case by (cases x) simp
qed simp

definition is_arrow :: "ik_input_action_type \<Rightarrow> bool" where
  "is_arrow d \<longleftrightarrow> d = IK_INPUT_ARROW_UP \<or> d = IK_INPUT_ARROW_DOWN"

definition pending_known :: "ik_input_action_type option \<Rightarrow> ik_scroll_detector \<Rightarrow> bool" where
  "pending_known l det \<longleftrightarrow> sd_state det = IK_SCROLL_STATE_WAITING \<longrightarrow>
     l = Some (sd_pending_dir det) \<and> is_arrow (sd_pending_dir det)"

lemma result_dirs:
  "is_arrow d \<Longrightarrow> result_dir (scroll_result d) = Some d" "is_arrow d \<Longrightarrow> result_dir (arrow_result d) = Some d"
  by (auto simp: is_arrow_def scroll_result_def arrow_result_def)

lemma process_arrow_directed:
  assumes "ik_scroll_detector_process_arrow det d t = Inr (det', r)" and "pending_known l det"
  shows "(result_dir r = None \<or> result_dir r = l) \<and> pending_known (Some d) det'"
proof -
  have d: "is_arrow d" using assms(1) by (simp add: ik_scroll_detector_process_arrow_def check_assert_Inr_iff is_arrow_def)
  show ?thesis
  proof (cases "sd_state det")
    case IK_SCROLL_STATE_WAITING
    then have l: "l = Some (sd_pending_dir det)" "is_arrow (sd_pending_dir det)" using assms(2) by (simp_all add: pending_known_def)
    show ?thesis
      using assms(1) d IK_SCROLL_STATE_WAITING result_dirs [OF l(2)]
      by (cases "t - sd_timer_start_ms det \<le> sd_burst_threshold_ms det")
        (auto simp: ik_scroll_detector_process_arrow_def check_assert_Inr_iff pending_known_def l(1) Let_def)
  qed (use assms(1) d in \<open>auto simp: ik_scroll_detector_process_arrow_def check_assert_Inr_iff pending_known_def Let_def split: if_splits\<close>)
qed

lemma sd_step_directed:
  assumes "sd_step det e r det'" and l: "pending_known l det"
  shows "(result_dir r = None \<or> result_dir r = l) \<and> pending_known (after_event e l) det'"
  using assms(1)
proof cases
  case (arrow d t)
  then show ?thesis using process_arrow_directed l by simp
next
  case (timeout t)
  then show ?thesis
    using l result_dirs by (cases "sd_state det") (auto simp: ik_scroll_detector_check_timeout_def pending_known_def Let_def split: if_splits)
next
  case flush
  then show ?thesis
    using l result_dirs by (cases "sd_state det") (auto simp: ik_scroll_detector_flush_def pending_known_def split: if_splits)
qed

lemma sd_run_accounts:
  assumes "sd_run ik_scroll_detector_create tr det"
  shows "sum_list (map (arrows_of_event \<circ> fst) tr)
      = sum_list (map (arrows_of_result \<circ> snd) tr) + pending_arrows det
    \<and> directed None tr \<and> pending_known (fold (after_event \<circ> fst) tr None) det"
  using assms
proof (induction ik_scroll_detector_create tr det rule: sd_run.induct)
  case start
  show ?case by (simp add: pending_arrows_def pending_known_def ik_scroll_detector_create_def)
next
  case (step tr det' e r det'')
  then show ?case
    using sd_step_balance [OF step.hyps(3)] sd_step_directed [OF step.hyps(3)] by (simp add: directed_append)
qed

text \<open>A machine in some state accepts every event.\<close>

lemma sd_step_total:
  "d = IK_INPUT_ARROW_UP \<or> d = IK_INPUT_ARROW_DOWN \<Longrightarrow>
   \<exists>r det'. ik_scroll_detector_process_arrow det d t = Inr (det', r)"
  by (cases "sd_state det") (auto simp: ik_scroll_detector_process_arrow_def Let_def)

text \<open>A burst of arrows, each close to the one before.\<close>

fun close_times :: "int \<Rightarrow> int \<Rightarrow> int list \<Rightarrow> bool" where
  "close_times th t [] = True"
| "close_times th t (u # us) = (u - t \<le> th \<and> close_times th u us)"

fun process_arrows ::
  "ik_scroll_detector \<Rightarrow> (ik_input_action_type \<times> int) list \<Rightarrow> (ik_scroll_detector \<times> ik_scroll_result list) res" where
  "process_arrows det [] = Inr (det, [])"
| "process_arrows det ((d, t) # as) =
     res_bind (ik_scroll_detector_process_arrow det d t)
       (\<lambda>(det', r). res_bind (process_arrows det' as) (\<lambda>(det'', rs). Inr (det'', r # rs)))"

lemma absorb_burst:
  "list_all (\<lambda>d. d = IK_INPUT_ARROW_UP \<or> d = IK_INPUT_ARROW_DOWN) (map fst as) \<Longrightarrow>
   sd_state det = IK_SCROLL_STATE_ABSORBING \<Longrightarrow>
   close_times (sd_burst_threshold_ms det) (sd_timer_start_ms det) (map snd as) \<Longrightarrow>
   \<exists>det'. process_arrows det as = Inr (det', replicate (length as) IK_SCROLL_RESULT_ABSORBED)
     \<and> sd_state det' = IK_SCROLL_STATE_ABSORBING"
proof (induction as arbitrary: det)
  case (Cons x as)
  obtain d t where x: "x = (d, t)" by fastforce
  let ?det = "det\<lparr>sd_timer_start_ms := t\<rparr>"
  have "ik_scroll_detector_process_arrow det d t = Inr (?det, IK_SCROLL_RESULT_ABSORBED)"
    using Cons.prems x by (auto simp: ik_scroll_detector_process_arrow_def)
  with Cons.IH [of ?det] Cons.prems x show ?case by fastforce
qed simp

subsection \<open>Theorems\<close>

text \<open>C35. No arrow is lost, invented or turned round: in every run of the detector the number of arrows that came in
  is the number accounted for by the results (one for a keyboard arrow or an absorbed arrow, two for a
  scroll) plus the one that may be pending, and every arrow or scroll that is reported goes in the direction of the last arrow
  that came in before.\<close>

theorem scroll_detector_accounting:
  assumes "sd_run ik_scroll_detector_create tr det"
  shows "sum_list (map (arrows_of_event \<circ> fst) tr)
      = sum_list (map (arrows_of_result \<circ> snd) tr) + pending_arrows det
    \<and> directed None tr"
  using sd_run_accounts [OF assms] by blast

theorem scroll_detector_accounting_witness:
  "\<exists>det. sd_run ik_scroll_detector_create
      [(Arrow IK_INPUT_ARROW_DOWN 100, IK_SCROLL_RESULT_NONE), (Arrow IK_INPUT_ARROW_UP 103, IK_SCROLL_RESULT_SCROLL_DOWN),
       (Timeout 200, IK_SCROLL_RESULT_NONE), (Arrow IK_INPUT_ARROW_UP 300, IK_SCROLL_RESULT_NONE)] det
    \<and> sum_list (map (arrows_of_event \<circ> fst)
      [(Arrow IK_INPUT_ARROW_DOWN 100, IK_SCROLL_RESULT_NONE), (Arrow IK_INPUT_ARROW_UP 103, IK_SCROLL_RESULT_SCROLL_DOWN),
       (Timeout 200, IK_SCROLL_RESULT_NONE), (Arrow IK_INPUT_ARROW_UP 300, IK_SCROLL_RESULT_NONE)]) = 2 + pending_arrows det
    \<and> directed None
      [(Arrow IK_INPUT_ARROW_DOWN 100, IK_SCROLL_RESULT_NONE), (Arrow IK_INPUT_ARROW_UP 103, IK_SCROLL_RESULT_SCROLL_DOWN),
       (Timeout 200, IK_SCROLL_RESULT_NONE), (Arrow IK_INPUT_ARROW_UP 300, IK_SCROLL_RESULT_NONE)]"
proof -
  let ?d1 = "ik_scroll_detector_create\<lparr>sd_state := IK_SCROLL_STATE_WAITING, sd_pending_dir := IK_INPUT_ARROW_DOWN,
    sd_timer_start_ms := 100\<rparr>"
  let ?d2 = "?d1\<lparr>sd_state := IK_SCROLL_STATE_ABSORBING, sd_timer_start_ms := 103\<rparr>"
  let ?d3 = "?d2\<lparr>sd_state := IK_SCROLL_STATE_IDLE\<rparr>"
  let ?d4 = "?d3\<lparr>sd_state := IK_SCROLL_STATE_WAITING, sd_pending_dir := IK_INPUT_ARROW_UP, sd_timer_start_ms := 300\<rparr>"
  have s: "sd_step ik_scroll_detector_create (Arrow IK_INPUT_ARROW_DOWN 100) IK_SCROLL_RESULT_NONE ?d1"
    "sd_step ?d1 (Arrow IK_INPUT_ARROW_UP 103) IK_SCROLL_RESULT_SCROLL_DOWN ?d2"
    "sd_step ?d2 (Timeout 200) IK_SCROLL_RESULT_NONE ?d3"
    "sd_step ?d3 (Arrow IK_INPUT_ARROW_UP 300) IK_SCROLL_RESULT_NONE ?d4"
    by (auto intro!: sd_step.intros simp: ik_scroll_detector_process_arrow_def ik_scroll_detector_check_timeout_def
        ik_scroll_detector_create_def scroll_result_def)
  note run = sd_run.step [OF sd_run.step [OF sd_run.step [OF sd_run.step [OF sd_run.start s(1)] s(2)] s(3)] s(4)]
  show ?thesis using run scroll_detector_accounting [OF run] by (intro exI [of _ ?d4]) simp
qed

text \<open>A wheel burst, that is two or more arrows each at most the threshold after the one before,
  yields exactly one scroll, in the direction of its first arrow; the rest is absorbed.\<close>

theorem wheel_burst_is_one_scroll:
  assumes "sd_state det = IK_SCROLL_STATE_IDLE"
    and "list_all (\<lambda>d. d = IK_INPUT_ARROW_UP \<or> d = IK_INPUT_ARROW_DOWN) (d # d' # map fst as)"
    and "close_times (sd_burst_threshold_ms det) t (t' # map snd as)"
  shows "\<exists>det'. process_arrows det ((d, t) # (d', t') # as)
      = Inr (det', IK_SCROLL_RESULT_NONE # scroll_result d # replicate (length as) IK_SCROLL_RESULT_ABSORBED)
    \<and> sd_state det' = IK_SCROLL_STATE_ABSORBING"
proof -
  let ?d1 = "det\<lparr>sd_state := IK_SCROLL_STATE_WAITING, sd_pending_dir := d, sd_timer_start_ms := t\<rparr>"
  let ?d2 = "?d1\<lparr>sd_state := IK_SCROLL_STATE_ABSORBING, sd_timer_start_ms := t'\<rparr>"
  have "ik_scroll_detector_process_arrow det d t = Inr (?d1, IK_SCROLL_RESULT_NONE)"
    and "ik_scroll_detector_process_arrow ?d1 d' t' = Inr (?d2, scroll_result d)"
    using assms by (auto simp: ik_scroll_detector_process_arrow_def)
  then show ?thesis using absorb_burst [of as ?d2] assms by auto
qed

theorem wheel_burst_is_one_scroll_witness:
  "\<exists>det'. process_arrows ik_scroll_detector_create
      ((IK_INPUT_ARROW_DOWN, 10) # (IK_INPUT_ARROW_DOWN, 12) # [(IK_INPUT_ARROW_DOWN, 17)])
      = Inr (det', IK_SCROLL_RESULT_NONE # scroll_result IK_INPUT_ARROW_DOWN
          # replicate (length [(IK_INPUT_ARROW_DOWN, 17 :: int)]) IK_SCROLL_RESULT_ABSORBED)
    \<and> sd_state det' = IK_SCROLL_STATE_ABSORBING"
  by (rule wheel_burst_is_one_scroll) (simp_all add: ik_scroll_detector_create_def)

text \<open>The timeout the detector asks for is one millisecond short: a check exactly that long after
  the query changes nothing, a check one millisecond later flushes the pending arrow as a keyboard
  arrow and leaves the detector idle.\<close>

theorem timeout_flush:
  assumes "sd_state det = IK_SCROLL_STATE_WAITING" and "t - sd_timer_start_ms det \<le> sd_burst_threshold_ms det"
  shows "ik_scroll_detector_check_timeout det (t + ik_scroll_detector_get_timeout_ms det t)
      = (det, IK_SCROLL_RESULT_NONE)
    \<and> ik_scroll_detector_check_timeout det (t + ik_scroll_detector_get_timeout_ms det t + 1)
      = (det\<lparr>sd_state := IK_SCROLL_STATE_IDLE\<rparr>, arrow_result (sd_pending_dir det))"
  using assms by (auto simp: ik_scroll_detector_check_timeout_def ik_scroll_detector_get_timeout_ms_def Let_def)

theorem timeout_flush_witness:
  "ik_scroll_detector_check_timeout (ik_scroll_detector_create\<lparr>sd_state := IK_SCROLL_STATE_WAITING\<rparr>) 5
     = (ik_scroll_detector_create\<lparr>sd_state := IK_SCROLL_STATE_WAITING\<rparr>, IK_SCROLL_RESULT_NONE)"
proof -
  let ?d = "ik_scroll_detector_create\<lparr>sd_state := IK_SCROLL_STATE_WAITING\<rparr>"
  have "ik_scroll_detector_get_timeout_ms ?d 2 = 3" by code_simp
  then show ?thesis
    using timeout_flush [of ?d 2] by (simp add: ik_scroll_detector_create_def)
qed

end
