(* ===== verification/Ik_SSE.thy ===== *)
theory Ik_SSE
  imports Ik_Prelude
begin

text \<open>
  The parser of server-sent event streams, apps/ikigai/providers/common/sse_parser.c.

  The buffer is the allocated block of \<open>sp_cap\<close> bytes, of which the first \<open>sp_len\<close> are data and the
  next one is the terminator; feeding and consuming write to it with bounds checks. The number of
  elements of a reallocation is an \<^verbatim>\<open>unsigned int\<close> in the code and wraps at \<open>2^32\<close>. Searching for a
  delimiter uses \<^verbatim>\<open>strstr\<close> and sees the bytes before the first zero byte only. The text of one event
  and its accumulated data are byte lists.
\<close>

record ik_sse_parser =
  sp_buffer :: "byte list"
  sp_len :: nat
  sp_cap :: nat

record ik_sse_event =
  ev_event :: "byte list option"
  ev_data :: "byte list option"

subsection \<open>The code\<close>

definition ik_sse_parser_create :: ik_sse_parser where
  "ik_sse_parser_create = \<lparr>sp_buffer = replicate 4096 0, sp_len = 0, sp_cap = 4096\<rparr>"

text \<open>The doubling loop; it does not end for capacity 0, which never occurs.\<close>

function grow_cap :: "nat \<Rightarrow> nat \<Rightarrow> nat" where
  "grow_cap new_cap need = (if new_cap < need \<and> new_cap > 0 then grow_cap (new_cap * 2) need else new_cap)"
  by pat_completeness auto
termination
  by (relation "measure (\<lambda>(c, n). n - c)") auto

declare grow_cap.simps [simp del]

definition grow_buffer :: "ik_sse_parser \<Rightarrow> nat \<Rightarrow> ik_sse_parser" where
  "grow_buffer p len =
     (if sp_len p + len \<ge> sp_cap p
      then (let new_cap = grow_cap (sp_cap p) (sp_len p + len + 1)
            in p\<lparr>sp_buffer := realloc 0 (sp_buffer p) (new_cap mod 2 ^ 32), sp_cap := new_cap\<rparr>)
      else p)"

definition ik_sse_parser_feed :: "ik_sse_parser \<Rightarrow> byte list \<Rightarrow> ik_sse_parser res" where
  "ik_sse_parser_feed p data =
     (if length data = 0 then Inr p
      else (let q = grow_buffer p (length data);
                n = sp_len p + length data
            in res_bind (copy_in (sp_buffer q) (sp_len p) data)
                 (\<lambda>buf. res_bind (store buf n 0)
                   (\<lambda>buf'. Inr (q\<lparr>sp_buffer := buf', sp_len := n\<rparr>)))))"

text \<open>\<^verbatim>\<open>strstr\<close>: the first position at which the pattern occurs.\<close>

fun find_sub :: "byte list \<Rightarrow> byte list \<Rightarrow> nat option" where
  "find_sub pat [] = (if pat = [] then Some 0 else None)"
| "find_sub pat (b # bs) =
     (if take (length pat) (b # bs) = pat then Some 0 else map_option Suc (find_sub pat bs))"

text \<open>Position and length of the first delimiter.\<close>

definition find_event_delimiter :: "byte list \<Rightarrow> (nat \<times> nat) option" where
  "find_event_delimiter buffer =
     (let delimiter = find_sub [0x0A, 0x0A] (c_string buffer);
          crlf_delimiter = find_sub [0x0D, 0x0A, 0x0D, 0x0A] (c_string buffer)
      in case crlf_delimiter of
           None \<Rightarrow> map_option (\<lambda>d. (d, 2)) delimiter
         | Some c \<Rightarrow> (case delimiter of None \<Rightarrow> Some (c, 4)
                      | Some d \<Rightarrow> if c < d then Some (c, 4) else Some (d, 2)))"

definition skip_space :: "byte list \<Rightarrow> byte list" where
  "skip_space bs = (case bs of b # r \<Rightarrow> if b = 0x20 then r else bs | [] \<Rightarrow> [])"

definition process_event_line :: "ik_sse_event \<Rightarrow> byte list \<Rightarrow> ik_sse_event" where
  "process_event_line e line = e\<lparr>ev_event := Some (skip_space (drop 6 line))\<rparr>"

definition process_data_line :: "byte list option \<Rightarrow> byte list \<Rightarrow> byte list option" where
  "process_data_line data_accum line =
     (let content = skip_space (drop 5 line)
      in case data_accum of None \<Rightarrow> Some content | Some d \<Rightarrow> Some (d @ [0x0A] @ content))"

definition event_prefix :: "byte list" where
  "event_prefix = [0x65, 0x76, 0x65, 0x6E, 0x74, 0x3A]"

definition data_prefix :: "byte list" where
  "data_prefix = [0x64, 0x61, 0x74, 0x61, 0x3A]"

definition process_line :: "ik_sse_event \<Rightarrow> byte list \<Rightarrow> ik_sse_event" where
  "process_line e line =
     (if length line \<ge> 6 \<and> take 6 line = event_prefix then process_event_line e line
      else if length line \<ge> 5 \<and> take 5 line = data_prefix
           then e\<lparr>ev_data := process_data_line (ev_data e) line\<rparr>
      else e)"

text \<open>The loop over the lines of the text of an event.\<close>

function parse_lines :: "ik_sse_event \<Rightarrow> byte list \<Rightarrow> ik_sse_event" where
  "parse_lines e bs =
     (if bs = [] then e
      else (let line = takeWhile (\<lambda>b. b \<noteq> 0x0A) bs; rest = dropWhile (\<lambda>b. b \<noteq> 0x0A) bs;
                e' = process_line e line
            in case rest of [] \<Rightarrow> e' | nl # following \<Rightarrow> parse_lines e' following))"
  by pat_completeness auto
termination
  by (relation "measure (\<lambda>(e, bs). length bs)")
     (auto, metis length_Cons length_dropWhile_le less_eq_Suc_le)

declare parse_lines.simps [simp del]

definition ik_sse_parser_next :: "ik_sse_parser \<Rightarrow> (ik_sse_event \<times> ik_sse_parser) option res" where
  "ik_sse_parser_next p =
     (case find_event_delimiter (sp_buffer p) of None \<Rightarrow> Inr None
      | Some (event_len, delimiter_len) \<Rightarrow>
          (let event_text = take event_len (sp_buffer p);
               consumed = event_len + delimiter_len;
               remaining = sp_len p - consumed
           in res_bind (if remaining > 0 then move_cells (sp_buffer p) 0 consumed remaining
                        else Inr (sp_buffer p))
                (\<lambda>buf. res_bind (store buf remaining 0)
                  (\<lambda>buf'. Inr (Some (parse_lines \<lparr>ev_event = None, ev_data = None\<rparr> event_text,
                                    p\<lparr>sp_buffer := buf', sp_len := remaining\<rparr>))))))"

definition ik_sse_event_is_done :: "ik_sse_event \<Rightarrow> bool" where
  "ik_sse_event_is_done e =
     (case ev_data e of None \<Rightarrow> False
      | Some d \<Rightarrow> d = [0x5B, 0x44, 0x4F, 0x4E, 0x45, 0x5D])"

subsection \<open>Delimiters\<close>

definition occurs :: "byte list \<Rightarrow> byte list \<Rightarrow> nat \<Rightarrow> bool" where
  "occurs pat s i \<longleftrightarrow> take (length pat) (drop i s) = pat"

lemma occurs_nth:
  "occurs pat s i \<longleftrightarrow> (pat = [] \<or> i + length pat \<le> length s) \<and> (\<forall>k<length pat. s ! (i + k) = pat ! k)"
  (is "?l = ?r")
proof
  assume ?l
  then have e: "take (length pat) (drop i s) = pat" by (simp add: occurs_def)
  from arg_cong [OF e, of length] have "pat = [] \<or> i + length pat \<le> length s" 
    by (cases pat) (auto simp: min_def split: if_splits)
  moreover have "s ! (i + k) = pat ! k" if "k < length pat" for k
  proof -
    have "take (length pat) (drop i s) ! k = drop i s ! k" using that by simp
    moreover have "i \<le> length s" using that calculation \<open>pat = [] \<or> i + length pat \<le> length s\<close> by auto
    ultimately show ?thesis using e by simp
  qed
  ultimately show ?r by blast
next
  assume ?r
  then show ?l unfolding occurs_def by (intro nth_equalityI) auto
qed

lemma occurs_2: "occurs [a, b] s i \<longleftrightarrow> i + 2 \<le> length s \<and> s ! i = a \<and> s ! (i + 1) = b"
  by (auto simp: occurs_nth All_less_Suc)

lemma occurs_4:
  "occurs [a, b, c, d] s i \<longleftrightarrow>
   i + 4 \<le> length s \<and> s ! i = a \<and> s ! (i + 1) = b \<and> s ! (i + 2) = c \<and> s ! (i + 3) = d"
  by (auto simp: occurs_nth All_less_Suc numeral_2_eq_2 numeral_3_eq_3)

lemma find_sub_iff:
  "pat \<noteq> [] \<Longrightarrow> find_sub pat s = Some i \<longleftrightarrow> occurs pat s i \<and> (\<forall>j<i. \<not> occurs pat s j)"
proof (induction s arbitrary: i)
  case Nil
  then show ?case by (auto simp: occurs_def)
next
  case (Cons b s)
  show ?case
  proof (cases i)
    case 0
    then show ?thesis by (simp add: occurs_def)
  next
    case (Suc n)
    have "(\<forall>j<Suc n. \<not> occurs pat (b # s) j) \<longleftrightarrow>
        \<not> occurs pat (b # s) 0 \<and> (\<forall>j<n. \<not> occurs pat s j)"
      by (auto simp: occurs_def less_Suc_eq_0_disj)
    then show ?thesis using Suc Cons by (auto simp: occurs_def)
  qed
qed

lemma find_sub_None: "pat \<noteq> [] \<Longrightarrow> find_sub pat s = None \<longleftrightarrow> (\<forall>j. \<not> occurs pat s j)"
  by (metis find_sub_iff not_None_eq exists_least_iff)

text \<open>A delimiter of length \<open>n\<close> at position \<open>i\<close>.\<close>

definition is_delim :: "byte list \<Rightarrow> nat \<Rightarrow> nat \<Rightarrow> bool" where
  "is_delim s i n \<longleftrightarrow> (n = 2 \<and> occurs [0x0A, 0x0A] s i) \<or> (n = 4 \<and> occurs [0x0D, 0x0A, 0x0D, 0x0A] s i)"

lemma is_delim_nth:
  "is_delim s i n \<longleftrightarrow>
     (n = 2 \<and> i + 2 \<le> length s \<and> s ! i = 0x0A \<and> s ! (i + 1) = 0x0A)
   \<or> (n = 4 \<and> i + 4 \<le> length s \<and> s ! i = 0x0D \<and> s ! (i + 1) = 0x0A \<and> s ! (i + 2) = 0x0D \<and> s ! (i + 3) = 0x0A)"
  by (auto simp: is_delim_def occurs_2 occurs_4)

definition first_delim :: "byte list \<Rightarrow> nat \<Rightarrow> nat \<Rightarrow> bool" where
  "first_delim s i n \<longleftrightarrow> is_delim s i n \<and> (\<forall>j<i. \<forall>m. \<not> is_delim s j m)"

lemma earlier_of_two:
  fixes c d :: nat
  assumes "A d" "\<forall>j<d. \<not> A j" "B c" "\<forall>j<c. \<not> B j" "\<forall>j. \<not> (A j \<and> B j)"
  shows "(if c < d then (c, 4 :: nat) else (d, 2)) = (i, n) \<longleftrightarrow>
    ((n = 2 \<and> A i) \<or> (n = 4 \<and> B i)) \<and> (\<forall>j<i. \<not> A j \<and> \<not> B j)"
proof (cases "c < d")
  case True
  then have no: "\<not> A j" if "j < c" for j using assms(2) that by simp
  have u: "i = c \<and> n = 4" if "(n = 2 \<and> A i) \<or> (n = 4 \<and> B i)" "\<forall>j<i. \<not> A j \<and> \<not> B j"
    using assms(3,4,5) no that by (metis linorder_neqE_nat)
  have "B c" and "\<forall>j<c. \<not> A j \<and> \<not> B j" using assms(3,4) no by blast+
  then have "(n = 2 \<and> A i) \<or> (n = 4 \<and> B i)" "\<forall>j<i. \<not> A j \<and> \<not> B j" if "i = c" "n = 4"
    using that by simp_all
  with u True show ?thesis by (metis prod.inject)
next
  case False
  then have no: "\<not> B j" if "j < d" for j using assms(4) that by simp
  have u: "i = d \<and> n = 2" if "(n = 2 \<and> A i) \<or> (n = 4 \<and> B i)" "\<forall>j<i. \<not> A j \<and> \<not> B j"
    using assms(1,2,5) no that by (metis linorder_neqE_nat)
  have "A d" and "\<forall>j<d. \<not> A j \<and> \<not> B j" using assms(1,2) no by blast+
  then have "(n = 2 \<and> A i) \<or> (n = 4 \<and> B i)" "\<forall>j<i. \<not> A j \<and> \<not> B j" if "i = d" "n = 2"
    using that by simp_all
  with u False show ?thesis by (metis prod.inject)
qed

lemma find_event_delimiter_iff:
  "find_event_delimiter bs = Some (i, n) \<longleftrightarrow> first_delim (c_string bs) i n"
proof -
  let ?s = "c_string bs" and ?l = "[0x0A, 0x0A :: byte]" and ?c = "[0x0D, 0x0A, 0x0D, 0x0A :: byte]"
  have ex: "\<forall>j. \<not> (occurs ?l ?s j \<and> occurs ?c ?s j)"
    by (auto simp: occurs_2 occurs_4)
  have fd: "first_delim ?s i n \<longleftrightarrow> ((n = 2 \<and> occurs ?l ?s i) \<or> (n = 4 \<and> occurs ?c ?s i))
      \<and> (\<forall>j<i. \<not> occurs ?l ?s j \<and> \<not> occurs ?c ?s j)"
    by (auto simp: first_delim_def is_delim_def)
  note f = find_sub_iff [of ?l ?s] find_sub_iff [of ?c ?s]
    find_sub_None [of ?l ?s] find_sub_None [of ?c ?s]
  show ?thesis
  proof (cases "find_sub ?l ?s"; cases "find_sub ?c ?s")
    fix d c
    assume "find_sub ?l ?s = Some d" and "find_sub ?c ?s = Some c"
    moreover from this have "find_event_delimiter bs = Some (if c < d then (c, 4) else (d, 2))"
      by (simp add: find_event_delimiter_def Let_def)
    ultimately show ?thesis
      using f(1) [of d] f(2) [of c] ex earlier_of_two [of "occurs ?l ?s" d "occurs ?c ?s" c i n]
      unfolding fd by (simp only: option.inject) blast
  next
    fix d
    assume d: "find_sub ?l ?s = Some d" and "find_sub ?c ?s = None"
    with f(1) [of i] f(4) fd show ?thesis by (auto simp: find_event_delimiter_def Let_def)
  next
    fix c
    assume d: "find_sub ?l ?s = None" and "find_sub ?c ?s = Some c"
    with f(2) [of i] f(3) fd show ?thesis by (auto simp: find_event_delimiter_def Let_def)
  next
    assume "find_sub ?l ?s = None" and "find_sub ?c ?s = None"
    with f(3,4) fd show ?thesis by (auto simp: find_event_delimiter_def Let_def)
  qed
qed

lemma find_event_delimiter_None:
  "find_event_delimiter bs = None \<longleftrightarrow> (\<forall>i n. \<not> is_delim (c_string bs) i n)"
proof -
  let ?s = "c_string bs" and ?l = "[0x0A, 0x0A :: byte]" and ?c = "[0x0D, 0x0A, 0x0D, 0x0A :: byte]"
  show ?thesis
    using find_sub_None [of ?l ?s] find_sub_None [of ?c ?s]
    unfolding find_event_delimiter_def is_delim_def Let_def
    by (cases "find_sub ?l ?s"; cases "find_sub ?c ?s") auto
qed

text \<open>More data behind does not change the first delimiter.\<close>

lemma first_delim_append:
  assumes "first_delim s i n"
  shows "first_delim (s @ t) i n"
proof -
  have d: "is_delim s i n" and no: "\<And>j m. j < i \<Longrightarrow> \<not> is_delim s j m"
    using assms by (auto simp: first_delim_def)
  have "is_delim (s @ t) i n" using d by (auto simp: is_delim_nth nth_append)
  moreover have "\<not> is_delim (s @ t) j m" if j: "j < i" for j m
  proof
    assume m: "is_delim (s @ t) j m"
    have "j + m \<le> length s"
    proof (rule ccontr)
      assume "\<not> j + m \<le> length s"
      then have "n = 2" "m = 4" "j + 1 = i"
        using d m j by (auto simp: is_delim_nth)
      then show False using d m by (auto simp: is_delim_nth nth_append)
    qed
    then have "is_delim s j m" using m by (auto simp: is_delim_nth nth_append)
    with no j show False by blast
  qed
  ultimately show ?thesis by (simp add: first_delim_def)
qed

lemma c_string_append: "\<exists>t'. c_string (s @ t) = c_string s @ t'"
  by (induction s) (auto simp: c_string_def)

lemma delimiter_append:
  "find_event_delimiter s = Some x \<Longrightarrow> find_event_delimiter (s @ t) = Some x"
  using c_string_append [of s t] first_delim_append
  by (cases x) (auto simp: find_event_delimiter_iff)

lemma delimiter_bound:
  assumes "find_event_delimiter s = Some (i, n)"
  shows "i + n \<le> length s" and "0 < n"
proof -
  have "length (c_string s) \<le> length s" by (simp add: c_string_def length_takeWhile_le)
  then show "i + n \<le> length s" and "0 < n"
    using assms by (auto simp: find_event_delimiter_iff first_delim_def is_delim_nth)
qed

subsection \<open>The stream of events\<close>

text \<open>The specification: the events of a byte string and what is left over.\<close>

definition next_event :: "byte list \<Rightarrow> (ik_sse_event \<times> byte list) option" where
  "next_event bs =
     (case find_event_delimiter bs of None \<Rightarrow> None
      | Some (i, n) \<Rightarrow> Some (parse_lines \<lparr>ev_event = None, ev_data = None\<rparr> (take i bs), drop (i + n) bs))"

lemma next_event_shorter: "next_event bs = Some (e, r) \<Longrightarrow> length r < length bs"
  using delimiter_bound [of bs] by (fastforce simp: next_event_def split: option.splits)

function drain_events :: "byte list \<Rightarrow> ik_sse_event list \<times> byte list" where
  "drain_events bs =
     (case next_event bs of None \<Rightarrow> ([], bs)
      | Some (e, r) \<Rightarrow> (case drain_events r of (es, rest) \<Rightarrow> (e # es, rest)))"
  by pat_completeness auto
termination
  by (relation "measure length") (auto dest: next_event_shorter)

declare drain_events.simps [simp del]

lemma next_event_append:
  "next_event s = Some (e, r) \<Longrightarrow> next_event (s @ t) = Some (e, r @ t)"
  using delimiter_bound(1) [of s] delimiter_append [of s _ t]
  by (auto simp: next_event_def split: option.splits)

lemma drain_append:
  "drain_events (s @ t) =
     (case drain_events s of (es, r) \<Rightarrow> case drain_events (r @ t) of (es', r') \<Rightarrow> (es @ es', r'))"
proof (induction s rule: drain_events.induct)
  case (1 s)
  show ?case
  proof (cases "next_event s")
    case None
    then show ?thesis by (simp add: drain_events.simps [of s] split: prod.splits)
  next
    case (Some x)
    obtain e r where x: "x = (e, r)" by fastforce
    show ?thesis
      using 1 [OF Some x [symmetric]] Some next_event_append [of s e r t] x
      by (simp add: drain_events.simps [of s] drain_events.simps [of "s @ t"] split: prod.splits)
  qed
qed

subsection \<open>Representation\<close>

definition sse_repr :: "ik_sse_parser \<Rightarrow> byte list \<Rightarrow> bool" where
  "sse_repr p bs \<longleftrightarrow>
     (\<exists>rest. sp_buffer p = bs @ 0 # rest) \<and> sp_len p = length bs
     \<and> length (sp_buffer p) = sp_cap p \<and> sp_cap p < 2 ^ 32"

lemma c_string_repr: "sse_repr p bs \<Longrightarrow> c_string (sp_buffer p) = c_string bs"
  by (auto simp: sse_repr_def c_string_def takeWhile_append
      intro: takeWhile_eq_all_conv [THEN iffD2, symmetric])

lemma delimiter_repr: "sse_repr p bs \<Longrightarrow> find_event_delimiter (sp_buffer p) = find_event_delimiter bs"
  by (simp add: find_event_delimiter_def c_string_repr)

lemma create_repr: "sse_repr ik_sse_parser_create []"
proof -
  have "(4096 :: nat) = Suc 4095" by simp
  then have "replicate 4096 (0 :: byte) = 0 # replicate 4095 0" by (metis replicate_Suc)
  then show ?thesis by (auto simp: sse_repr_def ik_sse_parser_create_def)
qed

lemma grow_cap_bounds:
  "0 < c \<Longrightarrow> c < 2 * need \<Longrightarrow> need \<le> grow_cap c need \<and> grow_cap c need < 2 * need"
proof (induction c need rule: grow_cap.induct)
  case (1 c need)
  then show ?case by (subst (1 2) grow_cap.simps) auto
qed

lemma feed_repr:
  assumes "sse_repr p bs" and "length bs + length data < 2 ^ 31"
  shows "returns (ik_sse_parser_feed p data) (\<lambda>q. sse_repr q (bs @ data))"
proof (cases "data = []")
  case True
  with assms show ?thesis by (simp add: ik_sse_parser_feed_def)
next
  case False
  obtain rest where b: "sp_buffer p = bs @ 0 # rest" "sp_len p = length bs"
    "sp_cap p = length bs + length rest + 1" "sp_cap p < 2 ^ 32"
    using assms(1) by (auto simp: sse_repr_def)
  let ?n = "length bs + length data"
  define q where "q = grow_buffer p (length data)"
  have "\<exists>rest'. sp_buffer q = bs @ rest' \<and> length (sp_buffer q) = sp_cap q
      \<and> ?n < sp_cap q \<and> sp_cap q < 2 ^ 32"
  proof (cases "?n \<ge> sp_cap p")
    case True
    then have g: "?n + 1 \<le> grow_cap (sp_cap p) (?n + 1)" "grow_cap (sp_cap p) (?n + 1) < 2 ^ 32"
      using grow_cap_bounds [of "sp_cap p" "?n + 1"] b(3) assms(2) by auto
    then have "grow_cap (sp_cap p) (?n + 1) mod 2 ^ 32 = grow_cap (sp_cap p) (?n + 1)" by simp
    with g True b show ?thesis
      by (simp add: q_def grow_buffer_def realloc_def Let_def)
  next
    case False
    with b show ?thesis by (simp add: q_def grow_buffer_def)
  qed
  then obtain rest' where q: "sp_buffer q = bs @ rest'" "length (sp_buffer q) = sp_cap q"
    "?n < sp_cap q" "sp_cap q < 2 ^ 32" by blast
  have "drop (length data) rest' \<noteq> []" using q by auto
  then obtain c rest'' where d: "drop (length data) rest' = c # rest''"
    by (cases "drop (length data) rest'") auto
  have 1: "copy_in (sp_buffer q) (length bs) data = Inr (bs @ data @ c # rest'')"
    using q d by (simp add: copy_in_def)
  have 2: "store (bs @ data @ c # rest'') ?n 0 = Inr (bs @ data @ 0 # rest'')"
    using store_mid [of "bs @ data" c rest'' 0] by simp
  have "length rest' = length data + Suc (length rest'')"
    using arg_cong [OF d, of length] q(1-3) by simp
  then have "sse_repr (q\<lparr>sp_buffer := bs @ data @ 0 # rest'', sp_len := ?n\<rparr>) (bs @ data)"
    using q by (auto simp: sse_repr_def)
  with False 1 2 b(2) show ?thesis
    unfolding ik_sse_parser_feed_def Let_def q_def [symmetric] by (simp del: store_in_range)
qed

lemma next_repr:
  assumes "sse_repr p bs"
  shows "returns (ik_sse_parser_next p)
    (\<lambda>r. case next_event bs of None \<Rightarrow> r = None
         | Some (e, rest) \<Rightarrow> \<exists>q. r = Some (e, q) \<and> sse_repr q rest)"
proof (cases "find_event_delimiter bs")
  case None
  with assms show ?thesis by (simp add: ik_sse_parser_next_def delimiter_repr next_event_def)
next
  case (Some x)
  obtain i n where x: "x = (i, n)" by fastforce
  obtain tl where b: "sp_buffer p = bs @ 0 # tl" "sp_len p = length bs"
    using assms by (auto simp: sse_repr_def)
  have le: "i + n \<le> length bs" using delimiter_bound Some x by simp
  let ?k = "length bs - (i + n)"
  define buf where "buf = (if ?k > 0 then drop (i + n) bs @ drop ?k (sp_buffer p) else sp_buffer p)"
  have kb: "?k \<le> length (sp_buffer p)" "length bs \<le> length (sp_buffer p)" using b(1) by simp_all
  have m: "(if ?k > 0 then move_cells (sp_buffer p) 0 (i + n) ?k else Inr (sp_buffer p)) = Inr buf"
    using b le kb by (simp add: buf_def move_cells_def del: length_append)
  have len: "length buf = length (sp_buffer p)" using le kb by (simp add: buf_def)
  have "take ?k buf = drop (i + n) bs" using le by (simp add: buf_def)
  moreover have k: "?k < length buf" using len b(1) by simp
  ultimately have "buf[?k := 0] = drop (i + n) bs @ 0 # drop (Suc ?k) buf"
    by (simp add: upd_conv_take_nth_drop)
  then have "sse_repr (p\<lparr>sp_buffer := buf[?k := 0], sp_len := ?k\<rparr>) (drop (i + n) bs)"
    using assms len k by (auto simp: sse_repr_def)
  moreover have "take i (sp_buffer p) = take i bs" using b(1) le by simp
  ultimately show ?thesis
    using Some x m k b(2)
    by (simp add: ik_sse_parser_next_def delimiter_repr [OF assms] next_event_def Let_def)
qed

text \<open>The loop of a stream reader: all events that are complete, with enough fuel for the buffer.\<close>

fun sse_drain :: "nat \<Rightarrow> ik_sse_parser \<Rightarrow> (ik_sse_parser \<times> ik_sse_event list) res" where
  "sse_drain 0 p = Inr (p, [])"
| "sse_drain (Suc n) p =
     res_bind (ik_sse_parser_next p)
       (\<lambda>r. case r of None \<Rightarrow> Inr (p, [])
            | Some (e, q) \<Rightarrow> res_bind (sse_drain n q) (\<lambda>(q', es). Inr (q', e # es)))"

fun sse_stream :: "ik_sse_parser \<Rightarrow> byte list list \<Rightarrow> (ik_sse_parser \<times> ik_sse_event list) res" where
  "sse_stream p [] = Inr (p, [])"
| "sse_stream p (c # cs) =
     res_bind (ik_sse_parser_feed p c)
       (\<lambda>q. res_bind (sse_drain (sp_len q + 1) q)
         (\<lambda>(q', es). res_bind (sse_stream q' cs) (\<lambda>(q'', es'). Inr (q'', es @ es'))))"

lemma drain_repr:
  "sse_repr p bs \<Longrightarrow> length bs < n \<Longrightarrow>
   \<exists>q. sse_drain n p = Inr (q, fst (drain_events bs)) \<and> sse_repr q (snd (drain_events bs))"
proof (induction n arbitrary: p bs)
  case (Suc n)
  show ?case
  proof (cases "next_event bs")
    case None
    then have "ik_sse_parser_next p = Inr None"
      using next_repr [OF Suc.prems(1)] by (auto simp: returns_iff)
    with None Suc.prems show ?thesis by (simp add: drain_events.simps [of bs])
  next
    case (Some x)
    obtain e r where x: "x = (e, r)" by fastforce
    then obtain q where q: "ik_sse_parser_next p = Inr (Some (e, q))" "sse_repr q r"
      using next_repr [OF Suc.prems(1)] Some by (auto simp: returns_iff)
    have "length r < n" using next_event_shorter Some x Suc.prems(2) by fastforce
    from Suc.IH [OF q(2) this] q Some x show ?thesis
      by (auto simp: drain_events.simps [of bs] split: prod.splits)
  qed
qed simp

lemma drain_events_length: "length (snd (drain_events bs)) \<le> length bs"
proof (induction bs rule: drain_events.induct)
  case (1 bs)
  then show ?case
    using next_event_shorter [of bs]
    by (subst drain_events.simps) (fastforce split: option.splits prod.splits)
qed

lemma drain_complete: "next_event (snd (drain_events bs)) = None"
proof (induction bs rule: drain_events.induct)
  case (1 bs)
  show ?case
  proof (cases "next_event bs")
    case None
    then show ?thesis by (simp add: drain_events.simps [of bs])
  next
    case (Some x)
    obtain e r where x: "x = (e, r)" by fastforce
    show ?thesis
      using 1 [OF Some x [symmetric]] Some x
      by (auto simp: drain_events.simps [of bs] split: prod.splits)
  qed
qed

lemma stream_repr:
  "sse_repr p r \<Longrightarrow> next_event r = None \<Longrightarrow> length r + sum_list (map length chunks) < 2 ^ 31 \<Longrightarrow>
   returns (sse_stream p chunks) (\<lambda>(q, es). fst (drain_events (r @ concat chunks)) = es
     \<and> sse_repr q (snd (drain_events (r @ concat chunks))))"
proof (induction chunks arbitrary: p r)
  case Nil
  then show ?case by (simp add: drain_events.simps [of r])
next
  case (Cons c cs)
  let ?d = "drain_events (r @ c)"
  obtain q where q: "ik_sse_parser_feed p c = Inr q" "sse_repr q (r @ c)"
    using feed_repr [OF Cons.prems(1), of c] Cons.prems(3) by (auto simp: returns_iff)
  have "sp_len q = length (r @ c)" using q(2) by (simp add: sse_repr_def)
  then obtain q' where q': "sse_drain (sp_len q + 1) q = Inr (q', fst ?d)" "sse_repr q' (snd ?d)"
    using drain_repr [OF q(2), of "sp_len q + 1"] by (auto simp del: sse_drain.simps)
  have "next_event (snd ?d) = None" by (rule drain_complete)
  moreover have "length (snd ?d) + sum_list (map length cs) < 2 ^ 31"
    using drain_events_length [of "r @ c"] Cons.prems(3) by simp
  ultimately obtain q'' where "sse_stream q' cs = Inr (q'', fst (drain_events (snd ?d @ concat cs)))"
    "sse_repr q'' (snd (drain_events (snd ?d @ concat cs)))"
    using Cons.IH [OF q'(2)] by (auto simp: returns_iff)
  with q q' show ?case
    using drain_append [of "r @ c" "concat cs"] by (simp split: prod.splits)
qed

subsection \<open>Theorems\<close>

text \<open>C3. The events of a stream do not depend on how the network cuts it into chunks: reading the
  chunks one by one, and taking out all complete events after each, returns exactly the events of the
  whole byte string in order and leaves the incomplete rest in the buffer. No write leaves the buffer.\<close>

theorem sse_chunking:
  assumes "sum_list (map length chunks) < 2 ^ 31"
  shows "\<exists>p. sse_stream ik_sse_parser_create chunks = Inr (p, fst (drain_events (concat chunks)))
    \<and> sse_repr p (snd (drain_events (concat chunks)))"
proof -
  have "next_event [] = None" by (simp add: next_event_def find_event_delimiter_def c_string_def)
  from stream_repr [OF create_repr this] assms show ?thesis
    by (auto simp: returns_iff)
qed

theorem sse_chunking_witness:
  "\<exists>p. sse_stream ik_sse_parser_create [[0x64, 0x61, 0x74, 0x61, 0x3A, 0x78, 0x0A], [0x0A, 0x64]]
      = Inr (p, [\<lparr>ev_event = None, ev_data = Some [0x78]\<rparr>])"
proof -
  let ?c = "[[0x64, 0x61, 0x74, 0x61, 0x3A, 0x78, 0x0A], [0x0A, 0x64]] :: byte list list"
  have "fst (drain_events (concat ?c)) = [\<lparr>ev_event = None, ev_data = Some [0x78]\<rparr>]" by code_simp
  then show ?thesis using sse_chunking [of ?c] by auto
qed

text \<open>An event as a server writes it.\<close>

definition sse_format :: "byte list \<Rightarrow> byte list list \<Rightarrow> byte list" where
  "sse_format name datas =
     event_prefix @ [0x20] @ name @ [0x0A]
     @ concat (map (\<lambda>d. data_prefix @ [0x20] @ d @ [0x0A]) datas) @ [0x0A]"

definition join_nl :: "byte list list \<Rightarrow> byte list" where
  "join_nl ds = concat (map (\<lambda>d. d @ [0x0A]) (butlast ds)) @ last ds"

lemma first_delim_line:
  assumes "0x0A \<notin> set x" and "c \<noteq> 0x0A" and "c \<noteq> 0x0D" and "first_delim (c # y) i n"
  shows "first_delim (x @ 0x0A # c # y) (length x + 1 + i) n"
proof -
  let ?s = "x @ 0x0A # c # y"
  have shift: "is_delim ?s (length x + 1 + k) m = is_delim (c # y) k m" for k m
    by (auto simp: is_delim_nth nth_append)
  have "\<not> is_delim ?s j m" if "j < length x + 1" for j m
  proof
    assume d: "is_delim ?s j m"
    have nx: "?s ! k \<noteq> 0x0A" if "k < length x" for k
      using that assms(1) by (metis nth_append nth_mem)
    have s: "?s ! length x = 0x0A" "?s ! (length x + 1) = c" by (simp_all add: nth_append)
    have eq: "k = length x" if "?s ! k = 0x0A" "k \<le> length x" for k
      using nx [of k] that by (cases "k < length x") auto
    consider "?s ! j = 0x0A" "?s ! (j + 1) = 0x0A"
      | "?s ! j = 0x0D" "?s ! (j + 1) = 0x0A" "?s ! (j + 2) = 0x0D"
      using d by (auto simp: is_delim_nth)
    then show False
    proof cases
      case 1
      then have "j = length x" using eq that by simp
      with 1(2) s(2) assms(2) show False by simp
    next
      case 2
      then have "j \<noteq> length x" using s(1) by auto
      then have "j + 1 = length x" using eq 2(2) that by simp
      then have "?s ! (j + 2) = c" using s(2) by (metis add.assoc one_add_one)
      with 2(3) assms(3) show False by simp
    qed
  qed
  moreover have "\<not> is_delim ?s j m" if "length x + 1 \<le> j" "j < length x + 1 + i" for j m
  proof -
    define k where "k = j - (length x + 1)"
    have k: "j = length x + 1 + k" "k < i" using that by (simp_all add: k_def)
    then have "\<not> is_delim (c # y) k m" using assms(4) unfolding first_delim_def by blast
    then show ?thesis unfolding k(1) shift .
  qed
  moreover have "is_delim ?s (length x + 1 + i) n"
    unfolding shift using assms(4) by (simp add: first_delim_def)
  ultimately show ?thesis unfolding first_delim_def by (meson not_le)
qed

lemma join_nl_simps: "join_nl [d] = d" "ds \<noteq> [] \<Longrightarrow> join_nl (d # ds) = d @ 0x0A # join_nl ds"
  by (simp_all add: join_nl_def)

definition good_line :: "byte list \<Rightarrow> bool" where
  "good_line l \<longleftrightarrow> l \<noteq> [] \<and> hd l \<noteq> 0x0A \<and> hd l \<noteq> 0x0D \<and> 0x0A \<notin> set l"

lemma first_delim_join:
  "ls \<noteq> [] \<Longrightarrow> list_all good_line ls \<Longrightarrow>
   first_delim (join_nl ls @ 0x0A # 0x0A # t) (length (join_nl ls)) 2"
proof (induction ls)
  case (Cons l ls)
  show ?case
  proof (cases "ls = []")
    case True
    let ?s = "l @ 0x0A # 0x0A # t"
    have nx: "?s ! k \<noteq> 0x0A" if "k < length l" for k
      using that Cons.prems by (metis good_line_def list.pred_inject(2) nth_append nth_mem)
    have s: "?s ! length l = 0x0A" "?s ! (length l + 1) = 0x0A" by (simp_all add: nth_append)
    have "\<not> is_delim ?s j m" if "j < length l" for j m
      using that nx s
      by (auto simp: is_delim_nth)
         (metis Suc_eq_plus1 Suc_lessI add_2_eq_Suc' numeral_eq_iff nx s)+
    moreover have "is_delim ?s (length l) 2" using s by (simp add: is_delim_nth)
    ultimately show ?thesis using True by (simp add: first_delim_def join_nl_simps)
  next
    case False
    then obtain l' ls' where ls: "ls = l' # ls'" by (cases ls) auto
    then have "good_line l'" using Cons.prems by simp
    then obtain c w where c: "l' = c # w" "c \<noteq> 0x0A" "c \<noteq> 0x0D" by (cases l') (auto simp: good_line_def)
    have "\<exists>y. join_nl ls = c # y"
      using c(1) ls by (cases ls') (simp_all add: join_nl_simps)
    then obtain y where y: "join_nl ls = c # y" by blast
    have "first_delim (c # y @ 0x0A # 0x0A # t) (length (join_nl ls)) 2"
      using Cons.IH False Cons.prems y by simp
    moreover have "0x0A \<notin> set l" using Cons.prems by (simp add: good_line_def)
    ultimately show ?thesis
      using first_delim_line [of l c "y @ 0x0A # 0x0A # t" "length (join_nl ls)" 2] c y False
      by (simp add: join_nl_simps)
  qed
qed simp

lemma parse_lines_join:
  "ls \<noteq> [] \<Longrightarrow> list_all good_line ls \<Longrightarrow> parse_lines e (join_nl ls) = foldl process_line e ls"
proof (induction ls arbitrary: e)
  case (Cons l ls)
  have l: "l \<noteq> []" "takeWhile (\<lambda>b. b \<noteq> 0x0A) l = l" "dropWhile (\<lambda>b. b \<noteq> 0x0A) l = []"
    using Cons.prems by (auto simp: good_line_def)
  have nl: "0x0A \<notin> set l" using Cons.prems by (simp add: good_line_def)
  show ?case
  proof (cases "ls = []")
    case True
    then show ?thesis by (subst parse_lines.simps) (simp add: join_nl_simps l)
  next
    case False
    have "takeWhile (\<lambda>b. b \<noteq> 0x0A) (l @ 0x0A # join_nl ls) = l"
      and "dropWhile (\<lambda>b. b \<noteq> 0x0A) (l @ 0x0A # join_nl ls) = 0x0A # join_nl ls"
      using nl by (simp_all add: takeWhile_append dropWhile_append)
    then show ?thesis
      using False Cons.IH Cons.prems l(1)
      by (subst parse_lines.simps) (simp add: join_nl_simps)
  qed
qed simp

lemma c_string_nonzero: "0 \<notin> set x \<Longrightarrow> c_string (x @ t) = x @ c_string t"
  by (induction x) (auto simp: c_string_def)

lemma next_event_lines:
  assumes "ls \<noteq> []" and "list_all good_line ls" and "0 \<notin> set (join_nl ls)"
  shows "next_event (join_nl ls @ 0x0A # 0x0A # t)
    = Some (foldl process_line \<lparr>ev_event = None, ev_data = None\<rparr> ls, t)"
proof -
  have "c_string (join_nl ls @ 0x0A # 0x0A # t) = join_nl ls @ 0x0A # 0x0A # c_string t"
    using c_string_nonzero [of "join_nl ls @ [0x0A, 0x0A]" t] assms(3) by simp
  then have "find_event_delimiter (join_nl ls @ 0x0A # 0x0A # t) = Some (length (join_nl ls), 2)"
    using first_delim_join [OF assms(1,2)] by (simp add: find_event_delimiter_iff)
  then show ?thesis
    using parse_lines_join [OF assms(1,2)] by (simp add: next_event_def)
qed

definition format_lines :: "byte list \<Rightarrow> byte list list \<Rightarrow> byte list list" where
  "format_lines name datas =
     (event_prefix @ [0x20] @ name) # map (\<lambda>d. data_prefix @ [0x20] @ d) datas"

lemma join_unlines: "ls \<noteq> [] \<Longrightarrow> join_nl ls @ [0x0A] = concat (map (\<lambda>l. l @ [0x0A]) ls)"
  by (induction ls rule: induct_list012) (simp_all add: join_nl_simps)

lemma process_event_format:
  "process_line e (event_prefix @ [0x20] @ name) = e\<lparr>ev_event := Some name\<rparr>"
  by (simp add: process_line_def event_prefix_def process_event_line_def skip_space_def)

lemma process_data_format:
  "process_line e (data_prefix @ [0x20] @ d) =
     e\<lparr>ev_data := Some (case ev_data e of None \<Rightarrow> d | Some a \<Rightarrow> a @ 0x0A # d)\<rparr>"
  by (simp add: process_line_def data_prefix_def event_prefix_def process_data_line_def skip_space_def
      split: option.splits)

lemma fold_datas:
  "ds \<noteq> [] \<Longrightarrow>
   ev_data (foldl process_line e (map (\<lambda>d. data_prefix @ [0x20] @ d) ds))
     = Some (case ev_data e of None \<Rightarrow> join_nl ds | Some a \<Rightarrow> a @ 0x0A # join_nl ds)
   \<and> ev_event (foldl process_line e (map (\<lambda>d. data_prefix @ [0x20] @ d) ds)) = ev_event e"
proof (induction ds arbitrary: e)
  case (Cons d ds)
  let ?e = "process_line e (data_prefix @ [0x20] @ d)"
  show ?case
  proof (cases "ds = []")
    case True
    then show ?thesis using process_data_format [of e d] by (simp add: join_nl_simps split: option.splits)
  next
    case False
    then show ?thesis
      using Cons.IH [of ?e] process_data_format [of e d]
      by (simp add: join_nl_simps split: option.splits)
  qed
qed simp

lemma next_event_format:
  assumes "datas \<noteq> []" and "list_all (\<lambda>l. 0x0A \<notin> set l \<and> 0 \<notin> set l) (name # datas)"
  shows "next_event (sse_format name datas @ rest)
    = Some (\<lparr>ev_event = Some name, ev_data = Some (join_nl datas)\<rparr>, rest)"
proof -
  let ?ls = "format_lines name datas" and ?e = "\<lparr>ev_event = None, ev_data = None\<rparr>"
  have ls: "?ls \<noteq> []" "list_all good_line ?ls" "list_all (\<lambda>l. 0 \<notin> set l) ?ls"
    using assms(2)
    by (auto simp: format_lines_def good_line_def event_prefix_def data_prefix_def list_all_iff)
  have u: "join_nl ?ls @ [0x0A] = concat (map (\<lambda>l. l @ [0x0A]) ?ls)"
    using join_unlines [OF ls(1)] .
  then have f: "sse_format name datas = join_nl ?ls @ [0x0A, 0x0A]"
    by (simp add: sse_format_def format_lines_def comp_def)
  have "set (join_nl ?ls) \<subseteq> set (concat (map (\<lambda>l. l @ [0x0A]) ?ls))"
    unfolding u [symmetric] by auto
  moreover have "0 \<notin> set (concat (map (\<lambda>l. l @ [0x0A]) ?ls))"
    using ls(3) unfolding list_all_iff by simp
  ultimately have "0 \<notin> set (join_nl ?ls)" by blast
  then have n: "next_event (sse_format name datas @ rest) = Some (foldl process_line ?e ?ls, rest)"
    using next_event_lines [OF ls(1,2), of rest] f by simp
  have "foldl process_line ?e ?ls = \<lparr>ev_event = Some name, ev_data = Some (join_nl datas)\<rparr>"
    using fold_datas [OF assms(1), of "?e\<lparr>ev_event := Some name\<rparr>"] process_event_format [of ?e name]
    by (intro ik_sse_event.equality) (simp_all add: format_lines_def)
  then show ?thesis using n by simp
qed

text \<open>C36. An event written by a server in the standard form, a name and any number of data lines
  without newlines and zero bytes, is read back exactly: the name, the data lines joined by newlines,
  and everything behind the event left untouched.\<close>

theorem sse_event_roundtrip:
  assumes "sse_repr p (sse_format name datas @ rest)" and "datas \<noteq> []"
    and "list_all (\<lambda>l. 0x0A \<notin> set l \<and> 0 \<notin> set l) (name # datas)"
  shows "\<exists>q. ik_sse_parser_next p
      = Inr (Some (\<lparr>ev_event = Some name, ev_data = Some (join_nl datas)\<rparr>, q)) \<and> sse_repr q rest"
  using next_repr [OF assms(1)] next_event_format [OF assms(2,3)] by (auto simp: returns_iff)

theorem sse_event_roundtrip_witness:
  "\<exists>p q. sse_repr p (sse_format [0x61] [[0x62], []] @ [0x64])
    \<and> ik_sse_parser_next p
      = Inr (Some (\<lparr>ev_event = Some [0x61], ev_data = Some (join_nl [[0x62], []])\<rparr>, q)) \<and> sse_repr q [0x64]"
proof -
  let ?t = "sse_format [0x61] [[0x62], []] @ [0x64]"
  have "length ?t < 2 ^ 31" by (simp add: sse_format_def event_prefix_def data_prefix_def)
  then obtain p where "sse_repr p ?t"
    using feed_repr [OF create_repr, of ?t] by (auto simp: returns_iff)
  with sse_event_roundtrip [OF this] show ?thesis by auto
qed

text \<open>With CRLF line ends the delimiter is recognised but the line ends inside of the event are not:
  the carriage return stays in the event name and in every data line but the last.\<close>

theorem sse_crlf_keeps_cr:
  "fst (drain_events [0x65, 0x76, 0x65, 0x6E, 0x74, 0x3A, 0x61, 0x0D, 0x0A,
                      0x64, 0x61, 0x74, 0x61, 0x3A, 0x62, 0x0D, 0x0A, 0x0D, 0x0A])
   = [\<lparr>ev_event = Some [0x61, 0x0D], ev_data = Some [0x62]\<rparr>]"
  by code_simp

end
