(* ===== verification/Ik_History.thy ===== *)
theory Ik_History
  imports Ik_Prelude
begin

text \<open>
  The command history, apps/ikigai/history.c.

  The array of entries is a block of pointers, \<open>None\<close> being \<^verbatim>\<open>NULL\<close>; reads and writes of it are bounds
  checked and a string function applied to \<^verbatim>\<open>NULL\<close> is a fault. Its allocated size is the capacity cut
  to an \<^verbatim>\<open>unsigned int\<close>. The order of frees is not modelled.
  \<open>hist_inv\<close> is the representation invariant and \<open>hist_list\<close> the abstraction to the list of entries,
  oldest first.
\<close>

record ik_history =
  h_entries :: "cstr option list"
  h_count :: nat
  h_capacity :: nat
  h_index :: nat
  h_pending :: "cstr option"

subsection \<open>The code\<close>

definition ik_history_create :: "nat \<Rightarrow> ik_history res" where
  "ik_history_create capacity =
     check_assert (capacity > 0)
       (Inr \<lparr>h_entries = replicate (capacity mod 2 ^ 32) None, h_count = 0, h_capacity = capacity,
             h_index = 0, h_pending = None\<rparr>)"

text \<open>Reading the string an entry points to.\<close>

definition entry_at :: "ik_history \<Rightarrow> nat \<Rightarrow> cstr res" where
  "entry_at h i =
     res_bind (load (h_entries h) i) (\<lambda>p. case p of None \<Rightarrow> Inl MemFault | Some s \<Rightarrow> Inr s)"

text \<open>The search for an equal entry, from \<open>i\<close> on.\<close>

function find_entry :: "ik_history \<Rightarrow> cstr \<Rightarrow> nat \<Rightarrow> nat option res" where
  "find_entry h entry i =
     (if i < h_count h then
        (case entry_at h i of Inl e \<Rightarrow> Inl e
         | Inr s \<Rightarrow> if s = entry then Inr (Some i) else find_entry h entry (i + 1))
      else Inr None)"
  by pat_completeness auto
termination
  by (relation "measure (\<lambda>(h, e, i). h_count h - i)") auto

text \<open>The loop \<^verbatim>\<open>entries[i] = entries[i + 1]\<close> for \<open>i\<close> up to \<open>n\<close>.\<close>

function shift_entries :: "cstr option list \<Rightarrow> nat \<Rightarrow> nat \<Rightarrow> cstr option list res" where
  "shift_entries es i n =
     (if i < n then
        (case load es (i + 1) of Inl e \<Rightarrow> Inl e
         | Inr p \<Rightarrow> (case store es i p of Inl e \<Rightarrow> Inl e | Inr es' \<Rightarrow> shift_entries es' (i + 1) n))
      else Inr es)"
  by pat_completeness auto
termination
  by (relation "measure (\<lambda>(es, i, n). n - i)") auto

declare find_entry.simps [simp del] shift_entries.simps [simp del]

definition remove_entry :: "ik_history \<Rightarrow> nat \<Rightarrow> ik_history res" where
  "remove_entry h i =
     res_bind (shift_entries (h_entries h) i (h_count h - 1))
       (\<lambda>es. Inr (h\<lparr>h_entries := es, h_count := h_count h - 1\<rparr>))"

definition push_entry :: "ik_history \<Rightarrow> cstr \<Rightarrow> ik_history res" where
  "push_entry h entry =
     res_bind (store (h_entries h) (h_count h) (Some entry))
       (\<lambda>es. Inr (h\<lparr>h_entries := es, h_count := h_count h + 1, h_index := h_count h + 1,
                    h_pending := None\<rparr>))"

text \<open>The code casts the index of a duplicate to \<^verbatim>\<open>int\<close>; a history has fewer than \<open>2 ^ 31\<close> entries.\<close>

definition ik_history_add :: "ik_history \<Rightarrow> cstr \<Rightarrow> ik_history res" where
  "ik_history_add h entry =
     (if entry = [] then Inr h
      else res_bind (if h_count h > 0 then map_sum id Some (entry_at h (h_count h - 1)) else Inr None)
        (\<lambda>latest.
           if latest = Some entry then Inr (h\<lparr>h_index := h_count h, h_pending := None\<rparr>)
           else res_bind (find_entry h entry 0)
             (\<lambda>existing_index.
                res_bind (case existing_index of
                            Some i \<Rightarrow> remove_entry h i
                          | None \<Rightarrow> if h_count h = h_capacity h then remove_entry h 0 else Inr h)
                  (\<lambda>h'. push_entry h' entry))))"

definition ik_history_start_browsing :: "ik_history \<Rightarrow> cstr \<Rightarrow> ik_history" where
  "ik_history_start_browsing h pending_input =
     (if h_count h = 0 then h\<lparr>h_pending := Some pending_input, h_index := 0\<rparr>
      else h\<lparr>h_pending := Some pending_input, h_index := h_count h - 1\<rparr>)"

definition ik_history_is_browsing :: "ik_history \<Rightarrow> bool" where
  "ik_history_is_browsing h \<longleftrightarrow> h_index h < h_count h"

definition ik_history_prev :: "ik_history \<Rightarrow> (ik_history \<times> cstr option) res" where
  "ik_history_prev h =
     (if \<not> ik_history_is_browsing h \<or> h_index h = 0 then Inr (h, None)
      else res_bind (load (h_entries h) (h_index h - 1))
        (\<lambda>p. Inr (h\<lparr>h_index := h_index h - 1\<rparr>, p)))"

definition ik_history_next :: "ik_history \<Rightarrow> (ik_history \<times> cstr option) res" where
  "ik_history_next h =
     (if h_index h > h_count h then Inr (h, None)
      else if h_index h = h_count h then Inr (h\<lparr>h_index := h_index h + 1\<rparr>, None)
      else if h_index h + 1 < h_count h then
        res_bind (load (h_entries h) (h_index h + 1)) (\<lambda>p. Inr (h\<lparr>h_index := h_index h + 1\<rparr>, p))
      else Inr (h\<lparr>h_index := h_index h + 1\<rparr>, h_pending h))"

definition ik_history_stop_browsing :: "ik_history \<Rightarrow> ik_history" where
  "ik_history_stop_browsing h = h\<lparr>h_index := h_count h, h_pending := None\<rparr>"

definition ik_history_get_current :: "ik_history \<Rightarrow> cstr option res" where
  "ik_history_get_current h =
     (if h_index h \<ge> h_count h then Inr (h_pending h) else load (h_entries h) (h_index h))"

subsection \<open>Representation\<close>

definition hist_list :: "ik_history \<Rightarrow> cstr list" where
  "hist_list h = map the (take (h_count h) (h_entries h))"

definition hist_inv :: "ik_history \<Rightarrow> bool" where
  "hist_inv h \<longleftrightarrow>
     h_capacity h > 0 \<and> length (h_entries h) = h_capacity h \<and> h_count h \<le> h_capacity h
     \<and> list_all (\<lambda>p. p \<noteq> None) (take (h_count h) (h_entries h))
     \<and> distinct (hist_list h) \<and> [] \<notin> set (hist_list h) \<and> h_index h \<le> h_count h + 1"

text \<open>The invariant as an equation for the block.\<close>

definition hist_repr :: "ik_history \<Rightarrow> cstr list \<Rightarrow> bool" where
  "hist_repr h xs \<longleftrightarrow>
     (\<exists>rest. h_entries h = map Some xs @ rest \<and> length xs + length rest = h_capacity h)
     \<and> h_count h = length xs \<and> h_capacity h > 0"

lemma hist_repr_list: "hist_repr h xs \<Longrightarrow> hist_list h = xs"
  by (auto simp: hist_repr_def hist_list_def comp_def)

lemma hist_inv_iff:
  "hist_inv h \<longleftrightarrow> (\<exists>xs. hist_repr h xs \<and> distinct xs \<and> [] \<notin> set xs \<and> h_index h \<le> length xs + 1)"
  (is "?l = ?r")
proof
  assume l: ?l
  have "map Some (hist_list h) = take (h_count h) (h_entries h)"
    using l by (auto simp: hist_inv_def hist_list_def list_all_iff intro!: map_idI)
  then have "h_entries h = map Some (hist_list h) @ drop (h_count h) (h_entries h)" by simp
  moreover have "length (hist_list h) = h_count h" using l by (simp add: hist_inv_def hist_list_def)
  ultimately have "hist_repr h (hist_list h)"
    using l unfolding hist_repr_def hist_inv_def
    by (metis length_append length_map)
  with l show ?r using hist_repr_list by (auto simp: hist_inv_def hist_repr_def)
next
  assume ?r
  then obtain xs where r: "hist_repr h xs" "distinct xs" "[] \<notin> set xs" "h_index h \<le> length xs + 1"
    by blast
  then show ?l using hist_repr_list [OF r(1)]
    by (auto simp: hist_inv_def hist_repr_def list_all_iff)
qed

lemma entry_at_repr: "hist_repr h xs \<Longrightarrow> i < length xs \<Longrightarrow> entry_at h i = Inr (xs ! i)"
  by (auto simp: entry_at_def hist_repr_def load_def nth_append)

lemma find_entry_repr:
  assumes "hist_repr h xs"
  shows "find_entry h e i = Inr (if e \<in> set (drop i xs)
      then Some (i + length (takeWhile (\<lambda>x. x \<noteq> e) (drop i xs))) else None)"
proof (induction "length xs - i" arbitrary: i)
  case 0
  then show ?case using assms by (subst find_entry.simps) (auto simp: hist_repr_def)
next
  case (Suc n)
  then have i: "i < length xs" by simp
  have "h_count h = length xs" using assms by (simp add: hist_repr_def)
  then show ?case
    using i Suc.hyps(1) [of "i + 1"] Suc.hyps(2) entry_at_repr [OF assms i]
    by (subst find_entry.simps) (auto simp: Cons_nth_drop_Suc [OF i, symmetric])
qed

lemma shift_entries_eq:
  "shift_entries (us @ c # vs @ ws) (length us) (length us + length vs)
   = Inr (us @ vs @ (if vs = [] then c else last vs) # ws)"
proof (induction vs arbitrary: us c)
  case Nil
  show ?case by (subst shift_entries.simps) simp
next
  case (Cons v vs)
  have "store (us @ c # v # vs @ ws) (length us) v = Inr (us @ v # v # vs @ ws)"
    by (rule store_mid)
  moreover have "load (us @ c # v # vs @ ws) (length us + 1) = Inr v"
    by (simp add: load_def nth_append)
  ultimately show ?case
    using Cons.IH [of "us @ [v]" v]
    by (subst shift_entries.simps) simp
qed

lemma remove_entry_repr:
  assumes "hist_repr h xs" and "i < length xs"
  shows "\<exists>h'. remove_entry h i = Inr h' \<and> hist_repr h' (take i xs @ drop (Suc i) xs)
    \<and> h_capacity h' = h_capacity h"
proof -
  obtain rest where r: "h_entries h = map Some xs @ rest" "length xs + length rest = h_capacity h"
    "h_count h = length xs" "h_capacity h > 0"
    using assms(1) by (auto simp: hist_repr_def)
  let ?u = "map Some (take i xs)" and ?v = "map Some (drop (Suc i) xs)"
  have e: "h_entries h = ?u @ Some (xs ! i) # ?v @ rest"
    using r(1) assms(2) by (metis append_Cons append_assoc id_take_nth_drop list.simps(9) map_append)
  have "length ?u + length ?v = length xs - 1" and "length ?u = i" using assms(2) by simp_all
  then have "shift_entries (h_entries h) i (h_count h - 1)
      = Inr (?u @ ?v @ (if ?v = [] then Some (xs ! i) else last ?v) # rest)"
    using shift_entries_eq [of ?u "Some (xs ! i)" ?v rest] r(3) e by simp
  then show ?thesis
    using r assms(2) by (auto simp: remove_entry_def hist_repr_def)
qed

lemma push_entry_repr:
  assumes "hist_repr h xs" and "length xs < h_capacity h"
  shows "\<exists>h'. push_entry h e = Inr h' \<and> hist_repr h' (xs @ [e]) \<and> h_capacity h' = h_capacity h
    \<and> h_index h' = length xs + 1 \<and> h_pending h' = None"
proof -
  obtain rest where r: "h_entries h = map Some xs @ rest" "length xs + length rest = h_capacity h"
    "h_count h = length xs"
    using assms(1) by (auto simp: hist_repr_def)
  obtain c rest' where "rest = c # rest'" using r(2) assms(2) by (cases rest) auto
  then show ?thesis
    using r store_mid [of "map Some xs" c rest' "Some e"] by (simp add: push_entry_def hist_repr_def)
qed

subsection \<open>Adding\<close>

text \<open>What adding means: an equal entry moves to the end, otherwise the oldest entry makes room.\<close>

definition add_spec :: "nat \<Rightarrow> cstr \<Rightarrow> cstr list \<Rightarrow> cstr list" where
  "add_spec cap e xs =
     (if e = [] then xs
      else (if e \<in> set xs then remove1 e xs else if length xs = cap then tl xs else xs) @ [e])"

lemma remove1_index:
  "e \<in> set xs \<Longrightarrow> remove1 e xs
     = take (length (takeWhile (\<lambda>x. x \<noteq> e) xs)) xs @ drop (Suc (length (takeWhile (\<lambda>x. x \<noteq> e) xs))) xs"
  by (induction xs) auto

lemma index_less: "e \<in> set xs \<Longrightarrow> length (takeWhile (\<lambda>x. x \<noteq> e) xs) < length xs"
  by (induction xs) auto

lemma remove1_last: "distinct xs \<Longrightarrow> xs \<noteq> [] \<Longrightarrow> remove1 (last xs) xs @ [last xs] = xs"
  by (metis append_butlast_last_id distinct_butlast not_distinct_conv_prefix
      remove1_append remove1.simps(2) remove1_idem append_Nil2)

lemma latest_repr:
  assumes "hist_repr h xs"
  shows "(if h_count h > 0 then map_sum id Some (entry_at h (h_count h - 1)) else Inr None)
    = Inr (if xs = [] then None else Some (last xs))"
proof -
  have "h_count h = length xs" using assms by (simp add: hist_repr_def)
  then show ?thesis using entry_at_repr [OF assms, of "length xs - 1"] by (simp add: last_conv_nth)
qed

lemma add_repr:
  assumes "hist_repr h xs" and "distinct xs" and "e \<noteq> []"
  shows "\<exists>h'. ik_history_add h e = Inr h' \<and> hist_repr h' (add_spec (h_capacity h) e xs)
    \<and> h_capacity h' = h_capacity h \<and> h_index h' = h_count h' \<and> h_pending h' = None"
proof (cases "xs \<noteq> [] \<and> last xs = e")
  case True
  then have "add_spec (h_capacity h) e xs = xs"
    using assms(2,3) remove1_last [of xs] by (auto simp: add_spec_def)
  with True assms latest_repr [OF assms(1)] show ?thesis
    by (auto simp: ik_history_add_def hist_repr_def)
next
  case False
  let ?i = "length (takeWhile (\<lambda>x. x \<noteq> e) xs)" and ?cap = "h_capacity h"
  let ?ys = "if e \<in> set xs then remove1 e xs else if length xs = ?cap then tl xs else xs"
  have cap: "length xs \<le> ?cap" "0 < ?cap" "h_count h = length xs"
    using assms(1) by (auto simp: hist_repr_def)
  have ne: "xs \<noteq> []" if "length xs = ?cap" using cap(2) that by auto
  have find: "find_entry h e 0 = Inr (if e \<in> set xs then Some ?i else None)"
    using find_entry_repr [OF assms(1), of e 0] by simp
  have "\<exists>h'. (case (if e \<in> set xs then Some ?i else None) of
        Some i \<Rightarrow> remove_entry h i | None \<Rightarrow> if h_count h = ?cap then remove_entry h 0 else Inr h) = Inr h'
      \<and> hist_repr h' ?ys \<and> h_capacity h' = ?cap"
    using remove_entry_repr [OF assms(1) index_less, of e] remove_entry_repr [OF assms(1), of 0]
      remove1_index [of e xs] cap ne assms(1)
    by (auto simp: drop_Suc)
  then obtain h' where h': "hist_repr h' ?ys" "h_capacity h' = ?cap"
    "(case (if e \<in> set xs then Some ?i else None) of
        Some i \<Rightarrow> remove_entry h i | None \<Rightarrow> if h_count h = ?cap then remove_entry h 0 else Inr h) = Inr h'"
    by blast
  have "length ?ys < ?cap" using cap by (auto simp: length_remove1 length_pos_if_in_set)
  then obtain h'' where h'': "push_entry h' e = Inr h''" "hist_repr h'' (?ys @ [e])" "h_capacity h'' = ?cap"
    "h_index h'' = length ?ys + 1" "h_pending h'' = None"
    using push_entry_repr [OF h'(1), of e] h'(2) by auto
  have "ik_history_add h e = Inr h''"
    using latest_repr [OF assms(1)] False assms(3) find h'(3) h''(1)
    by (auto simp: ik_history_add_def)
  moreover have "h_index h'' = h_count h''" using h''(2,4) by (simp add: hist_repr_def)
  ultimately show ?thesis using h'' assms(3) by (simp add: add_spec_def)
qed

lemma add_spec_distinct:
  assumes "distinct xs" and "[] \<notin> set xs"
  shows "distinct (add_spec cap e xs)" and "[] \<notin> set (add_spec cap e xs)"
proof -
  have "set (tl xs) \<subseteq> set xs" by (cases xs) auto
  with assms show "distinct (add_spec cap e xs)" and "[] \<notin> set (add_spec cap e xs)"
    by (auto simp: add_spec_def distinct_tl)
qed

subsection \<open>Theorems\<close>

text \<open>C29. Adding a command to the history succeeds, keeps the invariant (at most \<open>capacity\<close> entries, no
  duplicates, no empty entry), and makes the command the newest entry: an earlier equal entry is moved,
  and only a full history without an equal entry loses its oldest one. Browsing is over afterwards.\<close>

theorem history_add:
  assumes "hist_inv h"
  shows "\<exists>h'. ik_history_add h e = Inr h' \<and> hist_inv h'
    \<and> hist_list h' = add_spec (h_capacity h) e (hist_list h)
    \<and> (e \<noteq> [] \<longrightarrow> last (hist_list h') = e \<and> \<not> ik_history_is_browsing h' \<and> h_pending h' = None)"
proof (cases "e = []")
  case True
  with assms show ?thesis by (simp add: ik_history_add_def add_spec_def)
next
  case False
  obtain xs where xs: "hist_repr h xs" "distinct xs" "[] \<notin> set xs"
    using assms by (auto simp: hist_inv_iff)
  obtain h' where h': "ik_history_add h e = Inr h'" "hist_repr h' (add_spec (h_capacity h) e xs)"
    "h_index h' = h_count h'" "h_pending h' = None"
    using add_repr [OF xs(1,2) False] by blast
  have "h_count h' = length (add_spec (h_capacity h) e xs)" using h'(2) by (simp add: hist_repr_def)
  then have "hist_inv h'"
    unfolding hist_inv_iff using h'(2,3) add_spec_distinct [OF xs(2,3)] by auto
  moreover have "last (add_spec (h_capacity h) e xs) = e" using False by (simp add: add_spec_def)
  ultimately show ?thesis
    using h' hist_repr_list [OF h'(2)] hist_repr_list [OF xs(1)]
    by (simp add: ik_history_is_browsing_def)
qed

definition sample_history :: ik_history where
  "sample_history = \<lparr>h_entries = [Some [97], Some [98]], h_count = 2, h_capacity = 2, h_index = 2,
                     h_pending = None\<rparr>"

lemma sample_history_inv: "hist_inv sample_history"
  by (simp add: hist_inv_def sample_history_def hist_list_def)

theorem history_add_witness:
  "\<exists>h'. ik_history_add sample_history [99] = Inr h' \<and> hist_list h' = [[98], [99]]"
proof -
  have "add_spec (h_capacity sample_history) [99] (hist_list sample_history) = [[98], [99]]" by code_simp
  then show ?thesis using history_add [OF sample_history_inv, of "[99]"] by auto
qed

text \<open>Repeated steps back and forth.\<close>

fun prev_n :: "nat \<Rightarrow> ik_history \<Rightarrow> ik_history res" where
  "prev_n 0 h = Inr h"
| "prev_n (Suc n) h = res_bind (ik_history_prev h) (\<lambda>(h', _). prev_n n h')"

fun next_n :: "nat \<Rightarrow> ik_history \<Rightarrow> ik_history res" where
  "next_n 0 h = Inr h"
| "next_n (Suc n) h = res_bind (ik_history_next h) (\<lambda>(h', _). next_n n h')"

lemma prev_n_index:
  "hist_repr h xs \<Longrightarrow> h_index h < length xs \<Longrightarrow> k \<le> h_index h \<Longrightarrow>
   prev_n k h = Inr (h\<lparr>h_index := h_index h - k\<rparr>)"
proof (induction k arbitrary: h)
  case (Suc k)
  have "ik_history_prev h = Inr (h\<lparr>h_index := h_index h - 1\<rparr>, Some (xs ! (h_index h - 1)))"
    using Suc.prems
    by (auto simp: ik_history_prev_def ik_history_is_browsing_def hist_repr_def load_def nth_append)
  moreover have "hist_repr (h\<lparr>h_index := h_index h - 1\<rparr>) xs" using Suc.prems(1) by (simp add: hist_repr_def)
  ultimately show ?case using Suc.IH [of "h\<lparr>h_index := h_index h - 1\<rparr>"] Suc.prems by simp
qed simp

lemma next_n_index:
  "hist_repr h xs \<Longrightarrow> h_index h + k < length xs \<Longrightarrow> next_n k h = Inr (h\<lparr>h_index := h_index h + k\<rparr>)"
proof (induction k arbitrary: h)
  case (Suc k)
  have "ik_history_next h = Inr (h\<lparr>h_index := h_index h + 1\<rparr>, Some (xs ! (h_index h + 1)))"
    using Suc.prems by (auto simp: ik_history_next_def hist_repr_def load_def nth_append)
  moreover have "hist_repr (h\<lparr>h_index := h_index h + 1\<rparr>) xs" using Suc.prems(1) by (simp add: hist_repr_def)
  ultimately show ?case using Suc.IH [of "h\<lparr>h_index := h_index h + 1\<rparr>"] Suc.prems by simp
qed simp

text \<open>Browsing is reversible and loses nothing: after browsing is started with the current input,
  going back \<open>k\<close> entries shows the entry \<open>k\<close> before the newest, and going forward again past the newest
  entry gives back the input that was being typed.\<close>

theorem history_browse_roundtrip:
  assumes "hist_inv h" and "k < length (hist_list h)"
  shows "\<exists>h1 h2 h3. prev_n k (ik_history_start_browsing h input) = Inr h1
    \<and> ik_history_get_current h1 = Inr (Some (hist_list h ! (length (hist_list h) - 1 - k)))
    \<and> next_n k h1 = Inr h2 \<and> ik_history_next h2 = Inr (h3, Some input)
    \<and> hist_list h3 = hist_list h \<and> \<not> ik_history_is_browsing h3"
proof -
  obtain xs where xs: "hist_repr h xs" using assms(1) by (auto simp: hist_inv_iff)
  have l: "hist_list h = xs" using hist_repr_list [OF xs] .
  let ?n = "length xs"
  let ?h = "h\<lparr>h_pending := Some input, h_index := ?n - 1\<rparr>"
  have c: "h_count h = ?n" "k < ?n" using xs assms(2) l by (simp_all add: hist_repr_def)
  then have s: "ik_history_start_browsing h input = ?h" by (simp add: ik_history_start_browsing_def)
  have r: "hist_repr ?h xs" using xs by (simp add: hist_repr_def)
  let ?h1 = "?h\<lparr>h_index := ?n - 1 - k\<rparr>"
  have 1: "prev_n k ?h = Inr ?h1" using prev_n_index [OF r] c by simp
  have r1: "hist_repr ?h1 xs" using xs by (simp add: hist_repr_def)
  have 2: "ik_history_get_current ?h1 = Inr (Some (xs ! (?n - 1 - k)))"
    using xs c by (auto simp: ik_history_get_current_def hist_repr_def load_def nth_append)
  have 3: "next_n k ?h1 = Inr ?h" using next_n_index [OF r1, of k] c by simp
  have 4: "ik_history_next ?h = Inr (?h\<lparr>h_index := ?n\<rparr>, Some input)"
    using c by (auto simp: ik_history_next_def)
  have "hist_list (?h\<lparr>h_index := ?n\<rparr>) = hist_list h" by (simp add: hist_list_def)
  with 1 2 3 4 s l c show ?thesis by (auto simp: ik_history_is_browsing_def)
qed

theorem history_browse_roundtrip_witness:
  "\<exists>h1 h2 h3. prev_n 1 (ik_history_start_browsing sample_history [120]) = Inr h1
    \<and> ik_history_get_current h1 = Inr (Some [97])
    \<and> next_n 1 h1 = Inr h2 \<and> ik_history_next h2 = Inr (h3, Some [120])"
proof -
  have "hist_list sample_history = [[97], [98]]" by (simp add: hist_list_def sample_history_def)
  then show ?thesis
    using history_browse_roundtrip [OF sample_history_inv, of 1 "[120]"] by auto
qed

end
