(* ===== verification/Ik_Request.thy ===== *)
theory Ik_Request
  imports Ik_Prelude
begin

text \<open>
  The internal request format of apps/ikigai/providers/provider.h and the builder functions of
  apps/ikigai/providers/request.c.

  A \<^verbatim>\<open>char *\<close> that may be \<^verbatim>\<open>NULL\<close> is a \<open>text_ptr\<close>; the arrays of blocks, messages and tools are lists,
  so that the counts are their lengths. The builders copy their arguments; ownership of memory is not
  modelled.
\<close>

type_synonym text_ptr = "byte list option"

datatype ik_thinking_level = IK_THINKING_MIN | IK_THINKING_LOW | IK_THINKING_MED | IK_THINKING_HIGH

datatype ik_role = IK_ROLE_USER | IK_ROLE_ASSISTANT | IK_ROLE_TOOL

datatype ik_content_block =
    CONTENT_TEXT text_ptr
  | CONTENT_TOOL_CALL text_ptr text_ptr text_ptr text_ptr
  | CONTENT_TOOL_RESULT text_ptr text_ptr bool
  | CONTENT_THINKING text_ptr text_ptr
  | CONTENT_REDACTED_THINKING text_ptr

record ik_message =
  msg_role :: ik_role
  msg_blocks :: "ik_content_block list"
  msg_metadata :: text_ptr
  msg_interrupted :: bool

record ik_tool_def =
  td_name :: "byte list"
  td_description :: "byte list"
  td_parameters :: "byte list"
  td_strict :: bool

record ik_request =
  req_system_prompt :: text_ptr
  req_messages :: "ik_message list"
  req_model :: "byte list"
  req_thinking :: ik_thinking_level
  req_include_summary :: bool
  req_tools :: "ik_tool_def list"
  req_max_output_tokens :: int
  req_tool_choice_mode :: int
  req_tool_choice_name :: text_ptr

definition ik_content_block_text :: "byte list \<Rightarrow> ik_content_block" where
  "ik_content_block_text t = CONTENT_TEXT (Some t)"

definition ik_content_block_tool_call ::
  "byte list \<Rightarrow> byte list \<Rightarrow> byte list \<Rightarrow> ik_content_block" where
  "ik_content_block_tool_call i name arguments = CONTENT_TOOL_CALL (Some i) (Some name) (Some arguments) None"

definition ik_content_block_tool_result :: "byte list \<Rightarrow> byte list \<Rightarrow> bool \<Rightarrow> ik_content_block" where
  "ik_content_block_tool_result tool_call_id content is_error =
     CONTENT_TOOL_RESULT (Some tool_call_id) (Some content) is_error"

definition ik_request_create :: "byte list \<Rightarrow> ik_request" where
  "ik_request_create model =
     \<lparr>req_system_prompt = None, req_messages = [], req_model = model, req_thinking = IK_THINKING_MIN,
      req_include_summary = False, req_tools = [], req_max_output_tokens = - 1,
      req_tool_choice_mode = 0, req_tool_choice_name = None\<rparr>"

definition ik_request_set_system :: "ik_request \<Rightarrow> byte list \<Rightarrow> ik_request" where
  "ik_request_set_system req t = req\<lparr>req_system_prompt := Some t\<rparr>"

text \<open>A zeroed message with its role and blocks set.\<close>

definition blocks_message :: "ik_role \<Rightarrow> ik_content_block list \<Rightarrow> ik_message" where
  "blocks_message role blocks =
     \<lparr>msg_role = role, msg_blocks = blocks, msg_metadata = None, msg_interrupted = False\<rparr>"

definition ik_request_add_message :: "ik_request \<Rightarrow> ik_role \<Rightarrow> byte list \<Rightarrow> ik_request" where
  "ik_request_add_message req role t =
     req\<lparr>req_messages := req_messages req @ [blocks_message role [ik_content_block_text t]]\<rparr>"

definition ik_request_add_message_blocks ::
  "ik_request \<Rightarrow> ik_role \<Rightarrow> ik_content_block list \<Rightarrow> ik_request res" where
  "ik_request_add_message_blocks req role blocks =
     check_assert (length blocks > 0)
       (Inr (req\<lparr>req_messages := req_messages req @ [blocks_message role blocks]\<rparr>))"

definition ik_request_set_thinking :: "ik_request \<Rightarrow> ik_thinking_level \<Rightarrow> bool \<Rightarrow> ik_request" where
  "ik_request_set_thinking req level include_summary =
     req\<lparr>req_thinking := level, req_include_summary := include_summary\<rparr>"

definition ik_request_add_tool ::
  "ik_request \<Rightarrow> byte list \<Rightarrow> byte list \<Rightarrow> byte list \<Rightarrow> bool \<Rightarrow> ik_request" where
  "ik_request_add_tool req name description parameters strict =
     req\<lparr>req_tools := req_tools req
       @ [\<lparr>td_name = name, td_description = description, td_parameters = parameters, td_strict = strict\<rparr>]\<rparr>"

end
