(* ===== verification/Ik_Token_Cache.thy ===== *)
theory Ik_Token_Cache
  imports Ik_Request
begin

text \<open>
  The token count cache of the sliding context window, apps/ikigai/token_cache.c, and the estimate of
  token_count.c it uses.

  The agent is passed to the operations as the pointer is in the code. Of the agent the cache reads
  the messages, the model, the effective system prompt and the provider. The provider is a parameter:
  \<open>ag_count_tokens\<close> is \<open>None\<close> when there is no provider or it cannot count, and otherwise the answer
  (or failure) of its \<^verbatim>\<open>count_tokens\<close> for a request. \<open>- 1\<close> is \<^verbatim>\<open>TOKEN_UNCACHED\<close>. Sums of counts are
  \<^verbatim>\<open>int32_t\<close> and their overflow is the fault \<open>IntOverflow\<close>. The array of turns is its allocated block;
  sizes are natural numbers.
\<close>

record ik_agent =
  ag_messages :: "ik_message list"
  ag_model :: text_ptr
  ag_effective_prompt :: text_ptr
  ag_count_tokens :: "(ik_request \<Rightarrow> int option) option"

record ik_token_cache =
  tc_context_start_index :: nat
  tc_system_tokens :: int
  tc_tool_tokens :: int
  tc_turn_tokens :: "int list"
  tc_turn_count :: nat
  tc_turn_capacity :: nat
  tc_total_tokens :: int
  tc_budget :: int
  tc_pruned_turn_count :: nat

subsection \<open>token_count.c\<close>

definition ik_token_count_from_bytes :: "nat \<Rightarrow> int" where
  "ik_token_count_from_bytes byte_count = sint (word_of_nat (byte_count div 4) :: 32 word)"

subsection \<open>token_cache.c: helpers\<close>

definition alloc_cache :: "nat \<Rightarrow> ik_token_cache" where
  "alloc_cache turn_capacity =
     \<lparr>tc_context_start_index = 0, tc_system_tokens = - 1, tc_tool_tokens = - 1,
      tc_turn_tokens = replicate turn_capacity 0, tc_turn_count = 0, tc_turn_capacity = turn_capacity,
      tc_total_tokens = - 1, tc_budget = 100000, tc_pruned_turn_count = 0\<rparr>"

definition text_len :: "text_ptr \<Rightarrow> nat" where
  "text_len t = (case t of None \<Rightarrow> 0 | Some s \<Rightarrow> length s)"

fun block_bytes :: "ik_content_block \<Rightarrow> nat" where
  "block_bytes (CONTENT_TEXT t) = text_len t"
| "block_bytes (CONTENT_TOOL_CALL i n arguments g) = text_len arguments"
| "block_bytes (CONTENT_TOOL_RESULT i content e) = text_len content"
| "block_bytes (CONTENT_THINKING t g) = text_len t"
| "block_bytes (CONTENT_REDACTED_THINKING d) = 0"

definition estimate_turn_bytes :: "ik_agent \<Rightarrow> nat \<Rightarrow> nat \<Rightarrow> nat" where
  "estimate_turn_bytes A start stop =
     sum_list (map (\<lambda>m. sum_list (map block_bytes (msg_blocks m))) (take (stop - start) (drop start (ag_messages A))))"

text \<open>The loop of \<^verbatim>\<open>find_turn_bounds\<close>; \<open>found\<close> holds the start once it is known.\<close>

function bounds_loop ::
  "ik_message list \<Rightarrow> nat \<Rightarrow> nat \<Rightarrow> nat \<Rightarrow> nat option \<Rightarrow> (nat \<times> nat) option" where
  "bounds_loop msgs turn_index i user_count found =
     (if i < length msgs then
        (if msg_role (msgs ! i) = IK_ROLE_USER then
           (if user_count = turn_index then bounds_loop msgs turn_index (i + 1) (user_count + 1) (Some i)
            else if user_count = turn_index + 1 \<and> found \<noteq> None then Some (the found, i)
            else bounds_loop msgs turn_index (i + 1) (user_count + 1) found)
         else bounds_loop msgs turn_index (i + 1) user_count found)
      else map_option (\<lambda>s. (s, length msgs)) found)"
  by pat_completeness auto
termination
  by (relation "measure (\<lambda>(msgs, k, i, u, f). length msgs - i)") auto

declare bounds_loop.simps [simp del]

definition find_turn_bounds :: "ik_agent \<Rightarrow> ik_token_cache \<Rightarrow> nat \<Rightarrow> (nat \<times> nat) option" where
  "find_turn_bounds A c turn_index =
     bounds_loop (ag_messages A) turn_index (tc_context_start_index c) 0 None"

definition provider_count :: "ik_agent \<Rightarrow> ik_request \<Rightarrow> int" where
  "provider_count A req =
     (case ag_count_tokens A of None \<Rightarrow> - 1
      | Some count_tokens \<Rightarrow> (case count_tokens req of None \<Rightarrow> - 1 | Some count \<Rightarrow> count))"

definition request_model :: "ik_agent \<Rightarrow> byte list" where
  "request_model A =
     (case ag_model A of Some m \<Rightarrow> m | None \<Rightarrow> [0x64, 0x65, 0x66, 0x61, 0x75, 0x6C, 0x74])"

fun add_messages :: "ik_request \<Rightarrow> ik_message list \<Rightarrow> ik_request res" where
  "add_messages req [] = Inr req"
| "add_messages req (m # ms) =
     res_bind (ik_request_add_message_blocks req (msg_role m) (msg_blocks m)) (\<lambda>req'. add_messages req' ms)"

definition count_turn_via_provider :: "ik_agent \<Rightarrow> nat \<Rightarrow> nat \<Rightarrow> int res" where
  "count_turn_via_provider A msg_start msg_end =
     res_bind (add_messages (ik_request_create (request_model A))
                 (take (msg_end - msg_start) (drop msg_start (ag_messages A))))
       (\<lambda>req. Inr (provider_count A req))"

subsection \<open>token_cache.c: operations\<close>

definition ik_token_cache_create :: ik_token_cache where
  "ik_token_cache_create = alloc_cache 8"

definition ik_token_cache_clone :: "ik_token_cache \<Rightarrow> ik_token_cache" where
  "ik_token_cache_clone src =
     (let cap = (if tc_turn_capacity src > 0 then tc_turn_capacity src else 8);
          c = alloc_cache cap
      in c\<lparr>tc_context_start_index := tc_context_start_index src,
           tc_system_tokens := tc_system_tokens src, tc_tool_tokens := tc_tool_tokens src,
           tc_total_tokens := tc_total_tokens src, tc_turn_count := tc_turn_count src,
           tc_budget := tc_budget src, tc_pruned_turn_count := tc_pruned_turn_count src,
           tc_turn_tokens := take (tc_turn_count src) (tc_turn_tokens src)
                             @ drop (tc_turn_count src) (tc_turn_tokens c)\<rparr>)"

definition ik_token_cache_get_system_tokens ::
  "ik_agent \<Rightarrow> ik_token_cache \<Rightarrow> ik_token_cache \<times> int" where
  "ik_token_cache_get_system_tokens A c =
     (if tc_system_tokens c \<noteq> - 1 then (c, tc_system_tokens c)
      else (let req = (case ag_effective_prompt A of
                         None \<Rightarrow> ik_request_create (request_model A)
                       | Some prompt \<Rightarrow> ik_request_set_system (ik_request_create (request_model A)) prompt);
                count = provider_count A req
            in if count \<noteq> - 1 then (c\<lparr>tc_system_tokens := count, tc_total_tokens := - 1\<rparr>, count)
               else (c, ik_token_count_from_bytes (text_len (ag_effective_prompt A)))))"

definition ik_token_cache_get_tool_tokens ::
  "ik_agent \<Rightarrow> ik_token_cache \<Rightarrow> ik_token_cache \<times> int" where
  "ik_token_cache_get_tool_tokens A c =
     (if tc_tool_tokens c \<noteq> - 1 then (c, tc_tool_tokens c)
      else (let count = provider_count A (ik_request_create (request_model A))
            in if count \<noteq> - 1 then (c\<lparr>tc_tool_tokens := count, tc_total_tokens := - 1\<rparr>, count)
               else (c, 0)))"

definition ik_token_cache_get_turn_tokens ::
  "ik_agent \<Rightarrow> ik_token_cache \<Rightarrow> nat \<Rightarrow> (ik_token_cache \<times> int) res" where
  "ik_token_cache_get_turn_tokens A c turn_index =
     (if turn_index \<ge> tc_turn_count c then Inl Panic
      else res_bind (load (tc_turn_tokens c) turn_index)
        (\<lambda>cached.
           if cached \<noteq> - 1 then Inr (c, cached)
           else (case find_turn_bounds A c turn_index of
                   Some (msg_start, msg_end) \<Rightarrow>
                     res_bind (count_turn_via_provider A msg_start msg_end)
                       (\<lambda>count.
                          if count \<noteq> - 1 then
                            res_bind (store (tc_turn_tokens c) turn_index count)
                              (\<lambda>ts. Inr (c\<lparr>tc_turn_tokens := ts, tc_total_tokens := - 1\<rparr>, count))
                          else Inr (c, ik_token_count_from_bytes (estimate_turn_bytes A msg_start msg_end)))
                 | None \<Rightarrow> Inr (c, 0))))"

fun total_loop :: "ik_agent \<Rightarrow> ik_token_cache \<Rightarrow> int \<Rightarrow> nat list \<Rightarrow> (ik_token_cache \<times> int) res" where
  "total_loop A c sum_now [] = Inr (c, sum_now)"
| "total_loop A c sum_now (i # is) =
     res_bind (ik_token_cache_get_turn_tokens A c i)
       (\<lambda>(c', n). res_bind (add32 sum_now n) (\<lambda>sum_next. total_loop A c' sum_next is))"

definition ik_token_cache_get_total :: "ik_agent \<Rightarrow> ik_token_cache \<Rightarrow> (ik_token_cache \<times> int) res" where
  "ik_token_cache_get_total A c =
     (if tc_total_tokens c \<noteq> - 1 then Inr (c, tc_total_tokens c)
      else (case ik_token_cache_get_system_tokens A c of (c1, n1) \<Rightarrow>
        res_bind (add32 0 n1) (\<lambda>t1.
          case ik_token_cache_get_tool_tokens A c1 of (c2, n2) \<Rightarrow>
            res_bind (add32 t1 n2) (\<lambda>t2.
              res_bind (total_loop A c2 t2 [0..<tc_turn_count c2])
                (\<lambda>(c3, sum_now). Inr (c3\<lparr>tc_total_tokens := sum_now\<rparr>, sum_now))))))"

definition ik_token_cache_record_turn ::
  "ik_token_cache \<Rightarrow> nat \<Rightarrow> int \<Rightarrow> ik_token_cache res" where
  "ik_token_cache_record_turn c turn_index tokens =
     (if turn_index \<ge> tc_turn_count c then Inl Panic
      else res_bind (store (tc_turn_tokens c) turn_index tokens)
        (\<lambda>ts. Inr (c\<lparr>tc_turn_tokens := ts, tc_total_tokens := - 1\<rparr>)))"

definition ik_token_cache_invalidate_all :: "ik_token_cache \<Rightarrow> ik_token_cache" where
  "ik_token_cache_invalidate_all c =
     c\<lparr>tc_system_tokens := - 1, tc_tool_tokens := - 1, tc_total_tokens := - 1,
       tc_turn_tokens := replicate (tc_turn_count c) (- 1) @ drop (tc_turn_count c) (tc_turn_tokens c)\<rparr>"

definition ik_token_cache_reset :: "ik_token_cache \<Rightarrow> ik_token_cache" where
  "ik_token_cache_reset c =
     c\<lparr>tc_system_tokens := - 1, tc_tool_tokens := - 1, tc_total_tokens := - 1, tc_turn_count := 0,
       tc_context_start_index := 0, tc_pruned_turn_count := 0\<rparr>"

definition ik_token_cache_invalidate_system :: "ik_token_cache \<Rightarrow> ik_token_cache" where
  "ik_token_cache_invalidate_system c = c\<lparr>tc_system_tokens := - 1, tc_total_tokens := - 1\<rparr>"

definition ik_token_cache_invalidate_tools :: "ik_token_cache \<Rightarrow> ik_token_cache" where
  "ik_token_cache_invalidate_tools c = c\<lparr>tc_tool_tokens := - 1, tc_total_tokens := - 1\<rparr>"

text \<open>The search for the second user message, from \<open>i\<close> on.\<close>

function second_user :: "ik_message list \<Rightarrow> nat \<Rightarrow> nat \<Rightarrow> nat" where
  "second_user msgs i user_count =
     (if i < length msgs then
        (if msg_role (msgs ! i) = IK_ROLE_USER then
           (if user_count + 1 = 2 then i else second_user msgs (i + 1) (user_count + 1))
         else second_user msgs (i + 1) user_count)
      else length msgs)"
  by pat_completeness auto
termination
  by (relation "measure (\<lambda>(msgs, i, u). length msgs - i)") auto

declare second_user.simps [simp del]

definition ik_token_cache_prune_oldest_turn :: "ik_agent \<Rightarrow> ik_token_cache \<Rightarrow> ik_token_cache res" where
  "ik_token_cache_prune_oldest_turn A c =
     (if tc_turn_count c = 0 then Inr c
      else res_bind (load (tc_turn_tokens c) 0) (\<lambda>oldest.
        res_bind (if tc_total_tokens c \<noteq> - 1 \<and> oldest \<noteq> - 1
                  then map_sum id (\<lambda>v. if v < 0 then - 1 else v) (sub32 (tc_total_tokens c) oldest)
                  else Inr (- 1)) (\<lambda>sum_now.
        res_bind (if tc_turn_count c - 1 > 0
                  then move_cells (tc_turn_tokens c) 0 1 (tc_turn_count c - 1)
                  else Inr (tc_turn_tokens c)) (\<lambda>ts.
        Inr (c\<lparr>tc_total_tokens := sum_now,
               tc_context_start_index := second_user (ag_messages A) (tc_context_start_index c) 0,
               tc_pruned_turn_count := tc_pruned_turn_count c + 1,
               tc_turn_count := tc_turn_count c - 1, tc_turn_tokens := ts\<rparr>)))))"

definition ik_token_cache_add_turn :: "ik_token_cache \<Rightarrow> ik_token_cache res" where
  "ik_token_cache_add_turn c0 =
     (let c = (if tc_turn_count c0 \<ge> tc_turn_capacity c0
               then (let new_cap = (if tc_turn_capacity c0 > 0 then tc_turn_capacity c0 * 2 else 8)
                     in c0\<lparr>tc_turn_tokens := take new_cap (tc_turn_tokens c0)
                              @ replicate (new_cap - length (tc_turn_tokens c0)) 0,
                           tc_turn_capacity := new_cap\<rparr>)
               else c0)
      in res_bind (store (tc_turn_tokens c) (tc_turn_count c) (- 1))
           (\<lambda>ts. Inr (c\<lparr>tc_turn_tokens := ts, tc_turn_count := tc_turn_count c + 1,
                        tc_total_tokens := - 1\<rparr>)))"

text \<open>The loop over the removed turns, on the total.\<close>

fun subtract_turns :: "int \<Rightarrow> int list \<Rightarrow> int res" where
  "subtract_turns sum_now [] = Inr sum_now"
| "subtract_turns sum_now (t # ts) =
     (if t = - 1 then Inr (- 1)
      else if sum_now \<noteq> - 1 then
        res_bind (sub32 sum_now t) (\<lambda>v. subtract_turns (if v < 0 then - 1 else v) ts)
      else subtract_turns sum_now ts)"

definition ik_token_cache_remove_turns_from :: "ik_token_cache \<Rightarrow> nat \<Rightarrow> ik_token_cache res" where
  "ik_token_cache_remove_turns_from c turn_index =
     (if turn_index > tc_turn_count c then Inl Panic
      else if turn_index = tc_turn_count c then Inr c
      else res_bind (subtract_turns (tc_total_tokens c)
                       (take (tc_turn_count c - turn_index) (drop turn_index (tc_turn_tokens c))))
        (\<lambda>sum_now.
           let c1 = c\<lparr>tc_total_tokens := sum_now, tc_turn_count := turn_index\<rparr>
           in if turn_index = 0 \<and> tc_context_start_index c1 > 0
              then Inr (c1\<lparr>tc_context_start_index := 0, tc_pruned_turn_count := 0\<rparr>)
              else Inr c1))"

definition ik_token_cache_set_budget :: "ik_token_cache \<Rightarrow> int \<Rightarrow> ik_token_cache" where
  "ik_token_cache_set_budget c budget = c\<lparr>tc_budget := budget\<rparr>"

definition ik_token_cache_peek_total :: "ik_token_cache \<Rightarrow> int" where
  "ik_token_cache_peek_total c = (if tc_total_tokens c = - 1 then 0 else tc_total_tokens c)"

definition ik_token_cache_peek_turn_tokens :: "ik_token_cache \<Rightarrow> nat \<Rightarrow> int res" where
  "ik_token_cache_peek_turn_tokens c turn_index =
     (if turn_index \<ge> tc_turn_count c then Inl Panic
      else res_bind (load (tc_turn_tokens c) turn_index) (\<lambda>v. Inr (if v = - 1 then 0 else v)))"

subsection \<open>Turns and messages\<close>

definition users :: "ik_message list \<Rightarrow> nat \<Rightarrow> nat list" where
  "users msgs i = filter (\<lambda>j. msg_role (msgs ! j) = IK_ROLE_USER) [i..<length msgs]"

lemma users_step:
  "users msgs i = (if i < length msgs
     then (if msg_role (msgs ! i) = IK_ROLE_USER then i # users msgs (i + 1) else users msgs (i + 1)) else [])"
  by (simp add: users_def upt_rec [of i])

lemma users_Cons: "users msgs i = x # xs \<Longrightarrow> users msgs x = x # xs \<and> users msgs (x + 1) = xs"
proof (induction "length msgs - i" arbitrary: i)
  case 0
  then show ?case by (simp add: users_def)
next
  case (Suc n)
  then have i: "i < length msgs" by simp
  show ?case
  proof (cases "msg_role (msgs ! i) = IK_ROLE_USER")
    case True
    then have "users msgs i = i # users msgs (i + 1)" using i users_step [of msgs i] by simp
    then have "i = x \<and> users msgs (i + 1) = xs" using Suc.prems by (metis list.inject)
    then show ?thesis using Suc.prems by metis
  next
    case False
    then have "users msgs (i + 1) = x # xs" using Suc.prems i users_step [of msgs i] by simp
    then show ?thesis using Suc.hyps(1) [of "i + 1"] Suc.hyps(2) by simp
  qed
qed

text \<open>The bounds of turn \<open>k\<close>: from its user message to the next one or the end.\<close>

definition turn_bounds :: "nat list \<Rightarrow> nat \<Rightarrow> nat \<Rightarrow> (nat \<times> nat) option" where
  "turn_bounds ps k n =
     (if k < length ps then Some (ps ! k, if k + 1 < length ps then ps ! (k + 1) else n) else None)"

lemma bounds_loop_found:
  "bounds_loop msgs k i (k + 1) (Some s)
   = Some (s, case users msgs i of [] \<Rightarrow> length msgs | p # _ \<Rightarrow> p)"
proof (induction "length msgs - i" arbitrary: i)
  case 0
  then show ?case by (subst bounds_loop.simps) (simp add: users_def)
next
  case (Suc n)
  then have "i < length msgs" by simp
  then show ?case
    using Suc.hyps(1) [of "i + 1"] Suc.hyps(2) users_step [of msgs i]
    by (subst bounds_loop.simps) auto
qed

lemma bounds_loop_users:
  "u \<le> k \<Longrightarrow> bounds_loop msgs k i u None = turn_bounds (users msgs i) (k - u) (length msgs)"
proof (induction "length msgs - i" arbitrary: i u)
  case 0
  then show ?case by (subst bounds_loop.simps) (simp add: users_def turn_bounds_def)
next
  case (Suc n)
  then have i: "i < length msgs" by simp
  note ih = Suc.hyps(1) [of "i + 1"] and st = users_step [of msgs i]
  consider "msg_role (msgs ! i) \<noteq> IK_ROLE_USER" | "msg_role (msgs ! i) = IK_ROLE_USER" "u = k"
    | "msg_role (msgs ! i) = IK_ROLE_USER" "u < k"
    using Suc.prems by fastforce
  then show ?case
  proof cases
    case 1
    then show ?thesis using ih [of u] st i Suc by (subst bounds_loop.simps) simp
  next
    case 2
    then show ?thesis
      using bounds_loop_found [of msgs k "i + 1" i] st i
      by (subst bounds_loop.simps) (auto simp: turn_bounds_def split: list.splits)
  next
    case 3
    then have "k - u = Suc (k - Suc u)" by simp
    then show ?thesis
      using 3 ih [of "u + 1"] st i Suc by (subst bounds_loop.simps) (simp add: turn_bounds_def)
  qed
qed

lemma second_user_one:
  "second_user msgs i 1 = (case users msgs i of [] \<Rightarrow> length msgs | p # _ \<Rightarrow> p)"
proof (induction "length msgs - i" arbitrary: i)
  case 0
  then show ?case by (subst second_user.simps) (simp add: users_def)
next
  case (Suc n)
  then have "i < length msgs" by simp
  then show ?case
    using Suc.hyps(1) [of "i + 1"] Suc.hyps(2) users_step [of msgs i]
    by (subst second_user.simps) auto
qed

text \<open>Advancing past the oldest turn drops its user message from the list.\<close>

lemma second_user_users: "users msgs (second_user msgs i 0) = tl (users msgs i)"
proof (induction "length msgs - i" arbitrary: i)
  case 0
  then show ?case by (subst second_user.simps) (simp add: users_def)
next
  case (Suc n)
  then have i: "i < length msgs" by simp
  note st = users_step [of msgs i]
  show ?case
  proof (cases "msg_role (msgs ! i) = IK_ROLE_USER")
    case True
    then have "second_user msgs i 0 = second_user msgs (i + 1) 1"
      using i by (subst second_user.simps) simp
    moreover have "users msgs (second_user msgs (i + 1) 1) = users msgs (i + 1)"
    proof (cases "users msgs (i + 1)")
      case Nil
      then show ?thesis unfolding second_user_one Nil by (simp add: users_def)
    next
      case (Cons p ps)
      then show ?thesis unfolding second_user_one Cons using users_Cons [OF Cons] by simp
    qed
    moreover have "users msgs i = i # users msgs (i + 1)" using st i True by simp
    ultimately show ?thesis by simp
  next
    case False
    then have "second_user msgs i 0 = second_user msgs (i + 1) 0" "users msgs i = users msgs (i + 1)"
      using i st by (subst second_user.simps, simp_all)
    then show ?thesis using Suc.hyps(1) [of "i + 1"] Suc.hyps(2) by simp
  qed
qed

lemma turn_bounds_tl: "turn_bounds (tl ps) k n = turn_bounds ps (k + 1) n"
  by (cases ps) (auto simp: turn_bounds_def)

lemma prune_bounds:
  "bounds_loop msgs k (second_user msgs i 0) 0 None = bounds_loop msgs (k + 1) i 0 None"
  by (simp add: bounds_loop_users second_user_users turn_bounds_tl)

subsection \<open>Values\<close>

definition agent_ok :: "ik_agent \<Rightarrow> bool" where
  "agent_ok A \<longleftrightarrow> (\<forall>m\<in>set (ag_messages A). msg_blocks m \<noteq> [])"

definition cache_wf :: "ik_token_cache \<Rightarrow> bool" where
  "cache_wf c \<longleftrightarrow> tc_turn_count c \<le> tc_turn_capacity c \<and> length (tc_turn_tokens c) = tc_turn_capacity c"

definition turn_request :: "ik_agent \<Rightarrow> nat \<Rightarrow> nat \<Rightarrow> ik_request" where
  "turn_request A s e =
     (ik_request_create (request_model A))
       \<lparr>req_messages := map (\<lambda>m. blocks_message (msg_role m) (msg_blocks m))
                             (take (e - s) (drop s (ag_messages A)))\<rparr>"

text \<open>The value of the system prompt, of the tools and of turn \<open>k\<close>, given what is cached.\<close>

definition system_value :: "ik_agent \<Rightarrow> int \<Rightarrow> int" where
  "system_value A t =
     (if t \<noteq> - 1 then t
      else (let n = provider_count A ((ik_request_create (request_model A))
                      \<lparr>req_system_prompt := ag_effective_prompt A\<rparr>)
            in if n \<noteq> - 1 then n else ik_token_count_from_bytes (text_len (ag_effective_prompt A))))"

definition tool_value :: "ik_agent \<Rightarrow> int \<Rightarrow> int" where
  "tool_value A t =
     (if t \<noteq> - 1 then t
      else (let n = provider_count A (ik_request_create (request_model A)) in if n \<noteq> - 1 then n else 0))"

definition turn_value :: "ik_agent \<Rightarrow> nat \<Rightarrow> nat \<Rightarrow> int \<Rightarrow> int" where
  "turn_value A start k t =
     (if t \<noteq> - 1 then t
      else (case turn_bounds (users (ag_messages A) start) k (length (ag_messages A)) of
              None \<Rightarrow> 0
            | Some (s, e) \<Rightarrow>
                (let n = provider_count A (turn_request A s e)
                 in if n \<noteq> - 1 then n else ik_token_count_from_bytes (estimate_turn_bytes A s e))))"

definition turn_values :: "ik_agent \<Rightarrow> ik_token_cache \<Rightarrow> int list" where
  "turn_values A c =
     map (\<lambda>k. turn_value A (tc_context_start_index c) k (tc_turn_tokens c ! k)) [0..<tc_turn_count c]"

definition total_value :: "ik_agent \<Rightarrow> ik_token_cache \<Rightarrow> int" where
  "total_value A c =
     system_value A (tc_system_tokens c) + tool_value A (tc_tool_tokens c) + sum_list (turn_values A c)"

text \<open>A cached total is the total of the values.\<close>

definition coherent :: "ik_agent \<Rightarrow> ik_token_cache \<Rightarrow> bool" where
  "coherent A c \<longleftrightarrow> (tc_total_tokens c \<noteq> - 1 \<longrightarrow> tc_total_tokens c = total_value A c)"

lemma add_messages_ok:
  "\<forall>m\<in>set ms. msg_blocks m \<noteq> [] \<Longrightarrow>
   add_messages req ms = Inr (req\<lparr>req_messages := req_messages req
     @ map (\<lambda>m. blocks_message (msg_role m) (msg_blocks m)) ms\<rparr>)"
  by (induction ms arbitrary: req) (simp_all add: ik_request_add_message_blocks_def)

lemma count_turn_ok:
  assumes "agent_ok A"
  shows "count_turn_via_provider A s e = Inr (provider_count A (turn_request A s e))"
proof -
  have "\<forall>m\<in>set (take (e - s) (drop s (ag_messages A))). msg_blocks m \<noteq> []"
    using assms by (auto simp: agent_ok_def dest: in_set_takeD in_set_dropD)
  from add_messages_ok [OF this] show ?thesis
    by (simp add: count_turn_via_provider_def turn_request_def ik_request_create_def)
qed

text \<open>Reading counts does not change any value: \<open>same_values\<close>.\<close>

definition same_values :: "ik_agent \<Rightarrow> ik_token_cache \<Rightarrow> ik_token_cache \<Rightarrow> bool" where
  "same_values A c c' \<longleftrightarrow>
     cache_wf c' \<and> tc_turn_count c' = tc_turn_count c
     \<and> system_value A (tc_system_tokens c') = system_value A (tc_system_tokens c)
     \<and> tool_value A (tc_tool_tokens c') = tool_value A (tc_tool_tokens c)
     \<and> turn_values A c' = turn_values A c"

lemma turn_values_total: "turn_values A (c\<lparr>tc_total_tokens := t\<rparr>) = turn_values A c"
  by (simp add: turn_values_def)

lemma same_values_refl: "cache_wf c \<Longrightarrow> same_values A c c"
  by (simp add: same_values_def)

lemma same_values_trans: "same_values A c c' \<Longrightarrow> same_values A c' c'' \<Longrightarrow> same_values A c c''"
  by (simp add: same_values_def)

lemma same_values_total: "same_values A c c' \<Longrightarrow> total_value A c' = total_value A c"
  by (simp add: same_values_def total_value_def)

lemma get_system_same:
  assumes "cache_wf c"
  shows "same_values A c (fst (ik_token_cache_get_system_tokens A c))
    \<and> snd (ik_token_cache_get_system_tokens A c) = system_value A (tc_system_tokens c)"
proof -
  have "(case ag_effective_prompt A of None \<Rightarrow> ik_request_create (request_model A)
        | Some prompt \<Rightarrow> ik_request_set_system (ik_request_create (request_model A)) prompt)
      = (ik_request_create (request_model A))\<lparr>req_system_prompt := ag_effective_prompt A\<rparr>"
    by (simp add: ik_request_create_def ik_request_set_system_def split: option.splits)
  then show ?thesis
    using assms
    by (simp add: ik_token_cache_get_system_tokens_def system_value_def same_values_def cache_wf_def
        turn_values_def Let_def)
qed

lemma get_tool_same:
  "cache_wf c \<Longrightarrow> same_values A c (fst (ik_token_cache_get_tool_tokens A c))
    \<and> snd (ik_token_cache_get_tool_tokens A c) = tool_value A (tc_tool_tokens c)"
  by (simp add: ik_token_cache_get_tool_tokens_def tool_value_def same_values_def cache_wf_def
      turn_values_def Let_def)

lemma turn_values_update:
  assumes "cache_wf c" and "i < tc_turn_count c"
    and "v \<noteq> - 1" and "turn_value A (tc_context_start_index c) i (tc_turn_tokens c ! i) = v"
  shows "turn_values A (c\<lparr>tc_turn_tokens := (tc_turn_tokens c)[i := v], tc_total_tokens := t\<rparr>) = turn_values A c"
proof -
  have "length (tc_turn_tokens c) > i" using assms(1,2) by (simp add: cache_wf_def)
  then show ?thesis
    using assms(3,4) by (auto simp: turn_values_def nth_list_update turn_value_def)
qed

lemma get_turn_same:
  assumes "agent_ok A" and "cache_wf c" and "i < tc_turn_count c"
  shows "\<exists>c'. ik_token_cache_get_turn_tokens A c i = Inr (c', turn_values A c ! i) \<and> same_values A c c'"
proof -
  let ?t = "tc_turn_tokens c ! i" and ?s = "tc_context_start_index c"
  have i: "i < length (tc_turn_tokens c)" using assms(2,3) by (simp add: cache_wf_def)
  have v: "turn_values A c ! i = turn_value A ?s i ?t" using assms(3) by (simp add: turn_values_def)
  note b = bounds_loop_users [of 0 i "ag_messages A" ?s, simplified]
  show ?thesis
  proof (cases "?t \<noteq> - 1")
    case True
    then show ?thesis
      using i v assms(2,3) same_values_refl
      by (simp add: ik_token_cache_get_turn_tokens_def turn_value_def)
  next
    case False
    show ?thesis
    proof (cases "turn_bounds (users (ag_messages A) ?s) i (length (ag_messages A))")
      case None
      then show ?thesis
        using False i v b assms(2,3) same_values_refl
        by (simp add: ik_token_cache_get_turn_tokens_def turn_value_def find_turn_bounds_def)
    next
      case (Some x)
      obtain st e where x: "x = (st, e)" by fastforce
      let ?n = "provider_count A (turn_request A st e)"
      let ?c = "c\<lparr>tc_turn_tokens := (tc_turn_tokens c)[i := ?n], tc_total_tokens := - 1\<rparr>"
      have "turn_value A ?s i ?t = ?n" if "?n \<noteq> - 1"
        using that False Some x by (simp add: turn_value_def)
      then have "same_values A c ?c" if "?n \<noteq> - 1"
        using that turn_values_update [OF assms(2,3) that] assms(2)
        by (simp add: same_values_def cache_wf_def)
      then show ?thesis
        using False Some x i v b assms(2,3) same_values_refl count_turn_ok [OF assms(1)]
        by (auto simp: ik_token_cache_get_turn_tokens_def turn_value_def find_turn_bounds_def Let_def)
    qed
  qed
qed

lemma total_loop_same:
  "agent_ok A \<Longrightarrow> cache_wf c \<Longrightarrow> \<forall>i\<in>set is. i < tc_turn_count c \<Longrightarrow>
   safe (total_loop A c t is)
     (\<lambda>(c', v). same_values A c c' \<and> v = t + sum_list (map ((!) (turn_values A c)) is))"
proof (induction "is" arbitrary: c t)
  case Nil
  then show ?case by (simp add: same_values_refl)
next
  case (Cons i "is")
  obtain c' where c': "ik_token_cache_get_turn_tokens A c i = Inr (c', turn_values A c ! i)"
    "same_values A c c'"
    using get_turn_same [OF Cons.prems(1,2)] Cons.prems(3) by auto
  have w: "cache_wf c'" "\<forall>i\<in>set is. i < tc_turn_count c'" "turn_values A c' = turn_values A c"
    using c'(2) Cons.prems(3) by (simp_all add: same_values_def)
  have "safe (total_loop A c' (t + turn_values A c ! i) is)
      (\<lambda>(c'', v). same_values A c c'' \<and> v = t + sum_list (map ((!) (turn_values A c)) (i # is)))"
    using Cons.IH [OF Cons.prems(1) w(1,2), of "t + turn_values A c ! i"] w(3) same_values_trans [OF c'(2)]
    by (auto elim!: safe_mono)
  then show ?case using c'(1) by (auto intro: safe_bind [OF safe_add32])
qed

lemma get_total_same:
  assumes "agent_ok A" and "cache_wf c" and "coherent A c"
  shows "safe (ik_token_cache_get_total A c)
    (\<lambda>(c', v). same_values A c c' \<and> v = total_value A c \<and> tc_total_tokens c' = v)"
proof (cases "tc_total_tokens c = - 1")
  case False
  then show ?thesis
    using assms(2,3) same_values_refl by (simp add: ik_token_cache_get_total_def coherent_def)
next
  case True
  obtain c1 n1 where 1: "ik_token_cache_get_system_tokens A c = (c1, n1)" by fastforce
  obtain c2 n2 where 2: "ik_token_cache_get_tool_tokens A c1 = (c2, n2)" by fastforce
  have s1: "same_values A c c1" "n1 = system_value A (tc_system_tokens c)"
    using get_system_same [OF assms(2), of A] 1 by simp_all
  have s2: "same_values A c1 c2" "n2 = tool_value A (tc_tool_tokens c1)"
    using get_tool_same [of c1 A] s1(1) 2 by (simp_all add: same_values_def)
  have s: "same_values A c c2" using same_values_trans [OF s1(1) s2(1)] .
  have "map ((!) (turn_values A c2)) [0..<tc_turn_count c2] = turn_values A c2"
    using map_nth [of "turn_values A c2"] by (simp add: turn_values_def)
  then have "safe (total_loop A c2 (n1 + n2) [0..<tc_turn_count c2])
      (\<lambda>(c', v). same_values A c2 c' \<and> v = total_value A c)"
    using total_loop_same [OF assms(1), of c2 "[0..<tc_turn_count c2]" "n1 + n2"] s s1 s2
    by (auto elim!: safe_mono simp: same_values_def total_value_def)
  from this have "safe (res_bind (total_loop A c2 (n1 + n2) [0..<tc_turn_count c2])
        (\<lambda>(c3, v). Inr (c3\<lparr>tc_total_tokens := v\<rparr>, v)))
      (\<lambda>(c', v). same_values A c c' \<and> v = total_value A c \<and> tc_total_tokens c' = v)"
  proof (rule safe_bind, clarsimp)
    fix c3 assume "same_values A c2 c3"
    then have "same_values A c c3" by (rule same_values_trans [OF s])
    then show "same_values A c (c3\<lparr>tc_total_tokens := total_value A c\<rparr>)"
      by (simp add: same_values_def cache_wf_def turn_values_total)
  qed
  then show ?thesis
    using True 1 2
    by (auto simp: ik_token_cache_get_total_def intro!: safe_bind [OF safe_add32])
qed

subsection \<open>The other operations\<close>

lemma turn_values_nth:
  "k < tc_turn_count c \<Longrightarrow>
   turn_values A c ! k = turn_value A (tc_context_start_index c) k (tc_turn_tokens c ! k)"
  by (simp add: turn_values_def)

lemma length_turn_values [simp]: "length (turn_values A c) = tc_turn_count c"
  by (simp add: turn_values_def)

lemma turn_value_shift:
  "turn_value A (second_user (ag_messages A) i 0) k t = turn_value A i (k + 1) t"
  by (simp add: turn_value_def second_user_users turn_bounds_tl)

text \<open>Pruning drops the first of the values and nothing else.\<close>

lemma prune_ok:
  assumes wf: "cache_wf c" and coh: "coherent A c" and n: "tc_turn_count c > 0"
  shows "safe (ik_token_cache_prune_oldest_turn A c)
    (\<lambda>c'. cache_wf c' \<and> coherent A c' \<and> turn_values A c' = tl (turn_values A c)
       \<and> tc_system_tokens c' = tc_system_tokens c \<and> tc_tool_tokens c' = tc_tool_tokens c
       \<and> tc_pruned_turn_count c' = tc_pruned_turn_count c + 1)"
proof -
  let ?ts = "tc_turn_tokens c" and ?m = "tc_turn_count c - 1"
  define ts where "ts = take ?m (drop 1 ?ts) @ drop ?m ?ts"
  have len: "tc_turn_count c \<le> length ?ts" using wf by (simp add: cache_wf_def)
  have mv: "(if ?m > 0 then move_cells ?ts 0 1 ?m else Inr ?ts) = Inr ts"
    using len n by (auto simp: move_cells_def ts_def)
  have nth: "ts ! k = ?ts ! (k + 1)" if "k < ?m" for k
    using that len by (simp add: ts_def nth_append)
  have lts: "length ts = length ?ts" using len by (simp add: ts_def)
  define c' where "c' = (\<lambda>t. c\<lparr>tc_total_tokens := t,
      tc_context_start_index := second_user (ag_messages A) (tc_context_start_index c) 0,
      tc_pruned_turn_count := tc_pruned_turn_count c + 1, tc_turn_count := ?m, tc_turn_tokens := ts\<rparr>)"
  have tv: "turn_values A (c' t) = tl (turn_values A c)" for t
    by (rule nth_equalityI) (simp_all add: turn_values_nth nth_tl c'_def nth turn_value_shift)
  have hd: "turn_values A c = ?ts ! 0 # tl (turn_values A c)" if "?ts ! 0 \<noteq> - 1"
    using n that turn_values_nth [of 0 c A]
    by (cases "turn_values A c") (auto simp: turn_value_def simp flip: length_turn_values [of A c])
  have tot: "total_value A (c' t) = total_value A c - ?ts ! 0" if "?ts ! 0 \<noteq> - 1" for t
    unfolding total_value_def tv by (subst (2) hd [OF that]) (simp add: c'_def)
  have ld: "load ?ts 0 = Inr (?ts ! 0)" using len n by (intro load_in_range) linarith
  have c'w: "cache_wf (c' t)" for t using wf lts by (auto simp: cache_wf_def c'_def)
  have fin: "safe (Inr (c' t)) (\<lambda>c'. cache_wf c' \<and> coherent A c' \<and> turn_values A c' = tl (turn_values A c)
       \<and> tc_system_tokens c' = tc_system_tokens c \<and> tc_tool_tokens c' = tc_tool_tokens c
       \<and> tc_pruned_turn_count c' = tc_pruned_turn_count c + 1)"
    if "t \<noteq> - 1 \<longrightarrow> t = total_value A (c' t)" for t
    using that c'w tv by (simp add: coherent_def) (simp add: c'_def)
  have sub: "safe (if tc_total_tokens c \<noteq> - 1 \<and> ?ts ! 0 \<noteq> - 1
      then map_sum id (\<lambda>v. if v < 0 then - 1 else v) (sub32 (tc_total_tokens c) (?ts ! 0)) else Inr (- 1))
      (\<lambda>t. t \<noteq> - 1 \<longrightarrow> t = total_value A (c' t))"
    using coh tot by (auto simp: sub32_def coherent_def)
  have "ik_token_cache_prune_oldest_turn A c
      = res_bind (if tc_total_tokens c \<noteq> - 1 \<and> ?ts ! 0 \<noteq> - 1
          then map_sum id (\<lambda>v. if v < 0 then - 1 else v) (sub32 (tc_total_tokens c) (?ts ! 0)) else Inr (- 1))
        (\<lambda>t. Inr (c' t))"
    unfolding ik_token_cache_prune_oldest_turn_def ld mv using n by (simp add: c'_def)
  with safe_bind [OF sub fin] show ?thesis by (simp only:)
qed

lemma subtract_turns_ok:
  "safe (subtract_turns t ts) (\<lambda>r. r \<noteq> - 1 \<longrightarrow> t \<noteq> - 1 \<and> - 1 \<notin> set ts \<and> r = t - sum_list ts)"
proof (induction ts arbitrary: t)
  case Nil
  then show ?case by simp
next
  case (Cons a ts)
  have "safe (subtract_turns (if t - a < 0 then - 1 else t - a) ts)
      (\<lambda>r. r \<noteq> - 1 \<longrightarrow> - 1 \<notin> set ts \<and> r = t - (a + sum_list ts))"
    by (rule safe_mono [OF Cons.IH]) (auto split: if_splits)
  then have "safe (res_bind (sub32 t a) (\<lambda>v. subtract_turns (if v < 0 then - 1 else v) ts))
      (\<lambda>r. r \<noteq> - 1 \<longrightarrow> - 1 \<notin> set ts \<and> r = t - (a + sum_list ts))"
    by (intro safe_bind [OF safe_sub32]) (simp split: if_splits)
  then have "safe (res_bind (sub32 t a) (\<lambda>v. subtract_turns (if v < 0 then - 1 else v) ts))
      (\<lambda>r. r \<noteq> - 1 \<longrightarrow> t \<noteq> - 1 \<and> - 1 \<notin> set (a # ts) \<and> r = t - sum_list (a # ts))" if "t \<noteq> - 1" "a \<noteq> - 1"
    by (rule safe_mono) (use that in simp)
  moreover have "safe (subtract_turns (- 1) ts) (\<lambda>r. r \<noteq> - 1 \<longrightarrow> False)"
    using Cons.IH [of "- 1"] by simp
  ultimately show ?case by (cases "t = - 1"; cases "a = - 1") simp_all
qed

text \<open>Rewinding keeps the values of the turns that stay.\<close>

lemma remove_turns_ok:
  assumes wf: "cache_wf c" and coh: "coherent A c" and k: "k \<le> tc_turn_count c"
  shows "safe (ik_token_cache_remove_turns_from c k)
    (\<lambda>c'. cache_wf c' \<and> coherent A c' \<and> turn_values A c' = take k (turn_values A c)
       \<and> tc_system_tokens c' = tc_system_tokens c \<and> tc_tool_tokens c' = tc_tool_tokens c)"
proof (cases "k = tc_turn_count c")
  case True
  then show ?thesis using wf coh by (simp add: ik_token_cache_remove_turns_from_def)
next
  case False
  with k have k: "k < tc_turn_count c" by simp
  let ?rest = "take (tc_turn_count c - k) (drop k (tc_turn_tokens c))"
  define c' where "c' = (\<lambda>t. let c1 = c\<lparr>tc_total_tokens := t, tc_turn_count := k\<rparr>
      in if k = 0 \<and> tc_context_start_index c1 > 0
         then c1\<lparr>tc_context_start_index := 0, tc_pruned_turn_count := 0\<rparr> else c1)"
  have len: "tc_turn_count c \<le> length (tc_turn_tokens c)" using wf by (simp add: cache_wf_def)
  have tv: "turn_values A (c' t) = take k (turn_values A c)" for t
    using k by (intro nth_equalityI) (auto simp: c'_def Let_def turn_values_nth)
  have rest: "drop k (turn_values A c) = ?rest" if "- 1 \<notin> set ?rest"
  proof (rule nth_equalityI)
    show "length (drop k (turn_values A c)) = length ?rest" using len by simp
    fix i assume i: "i < length (drop k (turn_values A c))"
    then have "?rest ! i \<in> set ?rest" using len by (intro nth_mem) simp
    then have "?rest ! i \<noteq> - 1" using that by metis
    then show "drop k (turn_values A c) ! i = ?rest ! i"
      using i len k by (simp add: turn_values_nth turn_value_def)
  qed
  have tot: "total_value A (c' t) = total_value A c - sum_list ?rest" if "- 1 \<notin> set ?rest" for t
  proof -
    have "sum_list (turn_values A c) = sum_list (take k (turn_values A c)) + sum_list ?rest"
      unfolding rest [OF that, symmetric] by (simp flip: sum_list_append)
    then show ?thesis unfolding total_value_def tv by (simp add: c'_def Let_def)
  qed
  have fin: "safe (Inr (c' t)) (\<lambda>c'. cache_wf c' \<and> coherent A c' \<and> turn_values A c' = take k (turn_values A c)
       \<and> tc_system_tokens c' = tc_system_tokens c \<and> tc_tool_tokens c' = tc_tool_tokens c)"
    if "t \<noteq> - 1 \<longrightarrow> tc_total_tokens c \<noteq> - 1 \<and> - 1 \<notin> set ?rest \<and> t = tc_total_tokens c - sum_list ?rest" for t
  proof -
    have "coherent A (c' t)" using that coh tot [of t] by (auto simp: coherent_def c'_def Let_def)
    moreover have "cache_wf (c' t)" using wf k by (auto simp: c'_def cache_wf_def Let_def)
    ultimately show ?thesis using tv by (simp add: c'_def Let_def)
  qed
  have "ik_token_cache_remove_turns_from c k
      = res_bind (subtract_turns (tc_total_tokens c) ?rest) (\<lambda>t. Inr (c' t))"
    using k by (cases "k = 0"; cases "tc_context_start_index c > 0")
      (simp_all add: ik_token_cache_remove_turns_from_def c'_def Let_def)
  with safe_bind [OF subtract_turns_ok fin] show ?thesis by (simp only:)
qed

lemma add_turn_ok:
  assumes "cache_wf c"
  shows "\<exists>c'. ik_token_cache_add_turn c = Inr c' \<and> cache_wf c' \<and> coherent A c'
    \<and> tc_turn_count c' = tc_turn_count c + 1"
proof -
  define c1 where "c1 = (if tc_turn_count c \<ge> tc_turn_capacity c
      then (let new_cap = (if tc_turn_capacity c > 0 then tc_turn_capacity c * 2 else 8)
            in c\<lparr>tc_turn_tokens := take new_cap (tc_turn_tokens c)
                     @ replicate (new_cap - length (tc_turn_tokens c)) 0, tc_turn_capacity := new_cap\<rparr>)
      else c)"
  have "tc_turn_count c1 < tc_turn_capacity c1" "length (tc_turn_tokens c1) = tc_turn_capacity c1"
    "tc_turn_count c1 = tc_turn_count c"
    using assms by (auto simp: c1_def cache_wf_def Let_def)
  then show ?thesis
    unfolding ik_token_cache_add_turn_def c1_def [symmetric] by (simp add: cache_wf_def coherent_def)
qed

lemma clone_same:
  assumes "cache_wf c" and "coherent A c"
  shows "cache_wf (ik_token_cache_clone c) \<and> coherent A (ik_token_cache_clone c)
    \<and> turn_values A (ik_token_cache_clone c) = turn_values A c"
proof -
  have tv: "turn_values A (ik_token_cache_clone c) = turn_values A c"
    using assms(1)
    by (intro nth_equalityI)
       (auto simp: turn_values_nth ik_token_cache_clone_def cache_wf_def Let_def nth_append)
  moreover have "coherent A (ik_token_cache_clone c)"
    using assms(2) tv by (simp add: coherent_def total_value_def) (simp add: ik_token_cache_clone_def Let_def)
  moreover have "cache_wf (ik_token_cache_clone c)"
    using assms(1) by (auto simp: cache_wf_def ik_token_cache_clone_def alloc_cache_def Let_def)
  ultimately show ?thesis by simp
qed

subsection \<open>Sequences of operations\<close>

datatype tc_op =
    Get_System | Get_Tools | Get_Turn nat | Get_Total | Record_Turn nat int | Invalidate_All
  | Invalidate_System | Invalidate_Tools | Reset | Prune_Oldest | Add_Turn | Remove_From nat
  | Set_Budget int | Clone

fun tc_apply :: "ik_agent \<Rightarrow> tc_op \<Rightarrow> ik_token_cache \<Rightarrow> ik_token_cache res" where
  "tc_apply A Get_System c = Inr (fst (ik_token_cache_get_system_tokens A c))"
| "tc_apply A Get_Tools c = Inr (fst (ik_token_cache_get_tool_tokens A c))"
| "tc_apply A (Get_Turn k) c = map_sum id fst (ik_token_cache_get_turn_tokens A c k)"
| "tc_apply A Get_Total c = map_sum id fst (ik_token_cache_get_total A c)"
| "tc_apply A (Record_Turn k n) c = ik_token_cache_record_turn c k n"
| "tc_apply A Invalidate_All c = Inr (ik_token_cache_invalidate_all c)"
| "tc_apply A Invalidate_System c = Inr (ik_token_cache_invalidate_system c)"
| "tc_apply A Invalidate_Tools c = Inr (ik_token_cache_invalidate_tools c)"
| "tc_apply A Reset c = Inr (ik_token_cache_reset c)"
| "tc_apply A Prune_Oldest c = ik_token_cache_prune_oldest_turn A c"
| "tc_apply A Add_Turn c = ik_token_cache_add_turn c"
| "tc_apply A (Remove_From k) c = ik_token_cache_remove_turns_from c k"
| "tc_apply A (Set_Budget b) c = Inr (ik_token_cache_set_budget c b)"
| "tc_apply A Clone c = Inr (ik_token_cache_clone c)"

fun tc_run :: "ik_agent \<Rightarrow> tc_op list \<Rightarrow> ik_token_cache \<Rightarrow> ik_token_cache res" where
  "tc_run A [] c = Inr c"
| "tc_run A (p # ps) c = res_bind (tc_apply A p c) (tc_run A ps)"

text \<open>
  A sound outcome: a cache that is well formed and coherent, the panic the code raises for an index
  out of range, or the overflow of a sum; never a bad access or a failed assertion.
\<close>

definition tc_sound :: "ik_agent \<Rightarrow> ik_token_cache res \<Rightarrow> bool" where
  "tc_sound A r = (case r of Inr c \<Rightarrow> cache_wf c \<and> coherent A c | Inl e \<Rightarrow> e = Panic \<or> e = IntOverflow)"

lemma tc_soundI: "safe r P \<Longrightarrow> (\<And>c. P c \<Longrightarrow> cache_wf c \<and> coherent A c) \<Longrightarrow> tc_sound A r"
  by (cases r) (auto simp: tc_sound_def)

lemma same_values_coherent: "same_values A c c' \<Longrightarrow>
   tc_total_tokens c' = tc_total_tokens c \<or> tc_total_tokens c' = - 1 \<Longrightarrow> coherent A c \<Longrightarrow> cache_wf c' \<and> coherent A c'"
  using same_values_total [of A c c'] by (auto simp: coherent_def same_values_def)

lemma get_turn_total:
  "ik_token_cache_get_turn_tokens A c k = Inr (c', n) \<Longrightarrow>
   tc_total_tokens c' = tc_total_tokens c \<or> tc_total_tokens c' = - 1"
  by (auto simp: ik_token_cache_get_turn_tokens_def load_def store_def res_bind_Inr_iff
      split: if_splits option.splits)

lemma tc_apply_sound:
  assumes ag: "agent_ok A" and wf: "cache_wf c" and coh: "coherent A c"
  shows "tc_sound A (tc_apply A p c)"
proof (cases p)
  case Get_System
  have "tc_total_tokens (fst (ik_token_cache_get_system_tokens A c)) \<in> {tc_total_tokens c, - 1}"
    by (simp add: ik_token_cache_get_system_tokens_def Let_def)
  then show ?thesis
    using Get_System same_values_coherent [OF _ _ coh] get_system_same [OF wf, of A]
    by (simp add: tc_sound_def)
next
  case Get_Tools
  have "tc_total_tokens (fst (ik_token_cache_get_tool_tokens A c)) \<in> {tc_total_tokens c, - 1}"
    by (simp add: ik_token_cache_get_tool_tokens_def Let_def)
  then show ?thesis
    using Get_Tools same_values_coherent [OF _ _ coh] get_tool_same [OF wf, of A]
    by (simp add: tc_sound_def)
next
  case (Get_Turn k)
  show ?thesis
  proof (cases "k < tc_turn_count c")
    case True
    then obtain c' where c': "ik_token_cache_get_turn_tokens A c k = Inr (c', turn_values A c ! k)"
      "same_values A c c'" using get_turn_same [OF ag wf] by blast
    from same_values_coherent [OF c'(2) get_turn_total [OF c'(1)] coh] c'(1) Get_Turn
    show ?thesis by (simp add: tc_sound_def)
  qed (use Get_Turn in \<open>simp add: ik_token_cache_get_turn_tokens_def tc_sound_def\<close>)
next
  case Get_Total
  have "safe (map_sum id fst (ik_token_cache_get_total A c)) (\<lambda>c'. cache_wf c' \<and> coherent A c')"
    using get_total_same [OF ag wf coh]
    by (cases "ik_token_cache_get_total A c") (auto simp: same_values_def coherent_def total_value_def)
  then show ?thesis using Get_Total by (auto intro: tc_soundI)
next
  case (Record_Turn k n)
  then show ?thesis
    using wf by (auto simp: ik_token_cache_record_turn_def tc_sound_def cache_wf_def coherent_def)
next
  case Prune_Oldest
  then show ?thesis
    using tc_soundI [OF prune_ok [OF wf coh]] wf coh
    by (cases "tc_turn_count c = 0") (simp_all add: tc_sound_def ik_token_cache_prune_oldest_turn_def)
next
  case Add_Turn
  then show ?thesis using add_turn_ok [OF wf, of A] by (auto simp: tc_sound_def)
next
  case (Remove_From k)
  then show ?thesis
    using tc_soundI [OF remove_turns_ok [OF wf coh]]
    by (cases "k \<le> tc_turn_count c") (simp_all add: tc_sound_def ik_token_cache_remove_turns_from_def)
next
  case Clone
  then show ?thesis using clone_same [OF wf coh] by (simp add: tc_sound_def)
next
  case (Set_Budget b)
  then show ?thesis
    using wf coh
    by (simp add: tc_sound_def ik_token_cache_set_budget_def cache_wf_def coherent_def total_value_def turn_values_def)
qed (use wf in \<open>auto simp: tc_sound_def cache_wf_def coherent_def ik_token_cache_invalidate_all_def
      ik_token_cache_invalidate_system_def ik_token_cache_invalidate_tools_def ik_token_cache_reset_def\<close>)

lemma tc_run_sound:
  "agent_ok A \<Longrightarrow> cache_wf c \<Longrightarrow> coherent A c \<Longrightarrow> tc_sound A (tc_run A ps c)"
proof (induction ps arbitrary: c)
  case Nil
  then show ?case by (simp add: tc_sound_def)
next
  case (Cons p ps)
  then show ?case
    using tc_apply_sound [OF Cons.prems, of p]
    by (cases "tc_apply A p c") (auto simp: tc_sound_def)
qed

lemma create_ok: "cache_wf ik_token_cache_create \<and> coherent A ik_token_cache_create"
  by (simp add: ik_token_cache_create_def alloc_cache_def cache_wf_def coherent_def)

subsection \<open>Properties\<close>

definition sample_agent :: ik_agent where
  "sample_agent =
     \<lparr>ag_messages =
        [blocks_message IK_ROLE_USER [CONTENT_TEXT (Some (replicate 8 0x61))],
         blocks_message IK_ROLE_ASSISTANT [CONTENT_TEXT (Some (replicate 12 0x62))],
         blocks_message IK_ROLE_USER [CONTENT_TEXT (Some (replicate 16 0x63))]],
      ag_model = None, ag_effective_prompt = Some (replicate 20 0x64), ag_count_tokens = None\<rparr>"

text \<open>C4. From a new cache, any sequence of the cache's operations ends in a cache whose blocks are in
  bounds and whose cached total, when there is one, is the sum of the values of the system prompt, of
  the tools and of the turns; or it ends in the panic for a turn index out of range, or in the overflow
  of a 32 bit sum. No operation reads or writes outside the array of turns.\<close>

theorem token_cache_sound:
  assumes "agent_ok A"
  shows "tc_sound A (tc_run A ps ik_token_cache_create)"
  using tc_run_sound [OF assms, of ik_token_cache_create ps] create_ok by blast

theorem token_cache_sound_witness:
  "tc_sound sample_agent (tc_run sample_agent [Add_Turn, Add_Turn, Get_Total, Prune_Oldest, Remove_From 0]
     ik_token_cache_create)"
  by (rule token_cache_sound) (simp add: agent_ok_def sample_agent_def blocks_message_def)

text \<open>\<^verbatim>\<open>ik_token_cache_get_total\<close> returns the sum of the values (cached counts, else the provider's,
  else the estimate of one token for four bytes), caches it, and changes no value; the only other
  outcome is the overflow of the 32 bit sum.\<close>

theorem token_cache_total:
  assumes "agent_ok A" and "cache_wf c" and "coherent A c"
  shows "safe (ik_token_cache_get_total A c)
    (\<lambda>(c', v). v = total_value A c \<and> tc_total_tokens c' = v \<and> total_value A c' = v
       \<and> turn_values A c' = turn_values A c \<and> cache_wf c')"
  using get_total_same [OF assms]
  by (rule safe_mono) (auto simp: same_values_def same_values_total)

definition sample_cache :: ik_token_cache where
  "sample_cache = \<lparr>tc_context_start_index = 0, tc_system_tokens = - 1, tc_tool_tokens = 7,
      tc_turn_tokens = [- 1, 9, 0, 0], tc_turn_count = 2, tc_turn_capacity = 4,
      tc_total_tokens = - 1, tc_budget = 100, tc_pruned_turn_count = 0\<rparr>"

theorem token_cache_total_witness:
  "safe (ik_token_cache_get_total sample_agent sample_cache)
     (\<lambda>(c', v). v = total_value sample_agent sample_cache \<and> tc_total_tokens c' = v
        \<and> total_value sample_agent c' = v
        \<and> turn_values sample_agent c' = turn_values sample_agent sample_cache \<and> cache_wf c')"
  by (rule token_cache_total)
     (simp_all add: agent_ok_def sample_agent_def blocks_message_def cache_wf_def coherent_def sample_cache_def)

text \<open>Pruning the oldest turn removes exactly the value of that turn: the values of the other turns,
  of the system prompt and of the tools stay, although the message index and the cached counts are
  shifted, and a cached total stays the sum of what is left.\<close>

theorem prune_oldest_turn:
  assumes "cache_wf c" and "coherent A c" and "tc_turn_count c > 0"
  shows "safe (ik_token_cache_prune_oldest_turn A c)
    (\<lambda>c'. coherent A c' \<and> turn_values A c' = tl (turn_values A c)
       \<and> total_value A c' = total_value A c - turn_values A c ! 0
       \<and> tc_pruned_turn_count c' = tc_pruned_turn_count c + 1)"
proof (rule safe_mono [OF prune_ok [OF assms]], clarsimp)
  fix c'
  assume *: "turn_values A c' = tl (turn_values A c)" "tc_system_tokens c' = tc_system_tokens c"
    "tc_tool_tokens c' = tc_tool_tokens c"
  have "turn_values A c \<noteq> []" using assms(3) length_turn_values [of A c] by (metis length_greater_0_conv)
  with * show "total_value A c' = total_value A c - turn_values A c ! 0"
    by (cases "turn_values A c") (simp_all add: total_value_def)
qed

theorem prune_oldest_turn_witness:
  "safe (ik_token_cache_prune_oldest_turn sample_agent sample_cache)
    (\<lambda>c'. coherent sample_agent c' \<and> turn_values sample_agent c' = tl (turn_values sample_agent sample_cache)
       \<and> total_value sample_agent c' = total_value sample_agent sample_cache - turn_values sample_agent sample_cache ! 0
       \<and> tc_pruned_turn_count c' = tc_pruned_turn_count sample_cache + 1)"
  by (rule prune_oldest_turn) (simp_all add: cache_wf_def coherent_def sample_cache_def)

text \<open>The tool token count does not depend on the tools: an uncached count asks the provider about
  a request with no tools and no prompt, and it is 0 when the provider fails.\<close>

theorem tool_tokens_ignore_tools:
  assumes "tc_tool_tokens c = - 1"
  shows "snd (ik_token_cache_get_tool_tokens A c)
    = (case ag_count_tokens A of None \<Rightarrow> 0
       | Some count_tokens \<Rightarrow>
           (case count_tokens \<lparr>req_system_prompt = None, req_messages = [], req_model = request_model A,
                   req_thinking = IK_THINKING_MIN, req_include_summary = False, req_tools = [],
                   req_max_output_tokens = - 1, req_tool_choice_mode = 0, req_tool_choice_name = None\<rparr> of
              None \<Rightarrow> 0 | Some n \<Rightarrow> if n = - 1 then 0 else n))"
  using assms
  by (simp add: ik_token_cache_get_tool_tokens_def provider_count_def ik_request_create_def Let_def
      split: option.splits)

theorem tool_tokens_ignore_tools_witness:
  "snd (ik_token_cache_get_tool_tokens
      (sample_agent\<lparr>ag_count_tokens := Some (\<lambda>req. Some (int (length (req_tools req)) + 2))\<rparr>)
      ik_token_cache_create) = 2"
  by (subst tool_tokens_ignore_tools) (simp_all add: ik_token_cache_create_def alloc_cache_def)

end
