(* ===== verification/Ik_Message.thy ===== *)
theory Ik_Message
  imports Ik_Request Ik_Json
begin

text \<open>
  The messages of a conversation and their form in the database: apps/ikigai/message.c,
  agent_messages.c, tool_call.c, msg.c and repl_tool_json.c.

  Strings are C strings. The reader of JSON is the argument \<open>J\<close> and the writer the argument \<open>W\<close>, \<open>None\<close>
  where it fails; what is assumed of the two is \<open>json_io\<close>. The array of messages of an agent is a list,
  so that its growth is not visible.
\<close>

type_synonym yyjson_writer = "json \<Rightarrow> cstr option"

text \<open>What the writer writes is read back as the same document.\<close>

definition json_io :: "yyjson \<Rightarrow> yyjson_writer \<Rightarrow> bool" where
  "json_io J W \<longleftrightarrow> (\<forall>d s. W d = Some s \<longrightarrow> J s = Some d)"

record ik_tool_call =
  call_id :: cstr
  call_name :: cstr
  call_arguments :: cstr

record ik_msg =
  db_kind :: string
  db_content :: "cstr option"
  db_data_json :: "cstr option"

subsection \<open>msg.c\<close>

definition ik_msg_is_conversation_kind :: "string option \<Rightarrow> bool" where
  "ik_msg_is_conversation_kind kind =
     (case kind of None \<Rightarrow> False
      | Some k \<Rightarrow> k = ''system'' \<or> k = ''user'' \<or> k = ''assistant'' \<or> k = ''tool_call'' \<or> k = ''tool_result''
                  \<or> k = ''tool'')"

subsection \<open>tool_call.c\<close>

definition ik_tool_call_create :: "cstr option \<Rightarrow> cstr option \<Rightarrow> cstr option \<Rightarrow> ik_tool_call res" where
  "ik_tool_call_create i name arguments =
     (case (i, name, arguments) of
        (Some i', Some n', Some a') \<Rightarrow> Inr \<lparr>call_id = i', call_name = n', call_arguments = a'\<rparr>
      | _ \<Rightarrow> Inl AssertFail)"

subsection \<open>message.c: construction\<close>

definition ik_message_create_text :: "ik_role \<Rightarrow> cstr \<Rightarrow> ik_message" where
  "ik_message_create_text role t = blocks_message role [ik_content_block_text t]"

definition ik_message_create_tool_call :: "cstr \<Rightarrow> cstr \<Rightarrow> cstr \<Rightarrow> ik_message" where
  "ik_message_create_tool_call i name arguments =
     blocks_message IK_ROLE_ASSISTANT [ik_content_block_tool_call i name arguments]"

definition ik_message_create_tool_call_with_thinking ::
  "cstr option \<Rightarrow> cstr option \<Rightarrow> cstr option \<Rightarrow> cstr \<Rightarrow> cstr \<Rightarrow> cstr \<Rightarrow> cstr option \<Rightarrow> ik_message" where
  "ik_message_create_tool_call_with_thinking thinking_text thinking_sig redacted_data tool_id tool_name tool_args
     tool_thought_sig =
     blocks_message IK_ROLE_ASSISTANT
       ((case thinking_text of None \<Rightarrow> [] | Some t \<Rightarrow> [CONTENT_THINKING (Some t) thinking_sig])
        @ (case redacted_data of None \<Rightarrow> [] | Some d \<Rightarrow> [CONTENT_REDACTED_THINKING (Some d)])
        @ [CONTENT_TOOL_CALL (Some tool_id) (Some tool_name) (Some tool_args) tool_thought_sig])"

definition ik_message_create_tool_result :: "cstr \<Rightarrow> cstr \<Rightarrow> bool \<Rightarrow> ik_message" where
  "ik_message_create_tool_result tool_call_id content is_error =
     blocks_message IK_ROLE_TOOL [ik_content_block_tool_result tool_call_id content is_error]"

subsection \<open>repl_tool_json.c\<close>

definition str_member :: "string \<Rightarrow> cstr \<Rightarrow> byte list \<times> json" where
  "str_member key v = (bytes_of key, JStr v)"

text \<open>The text of a document; \<^verbatim>\<open>talloc_strdup\<close> of a failed write is \<^verbatim>\<open>NULL\<close>, which stops the program.\<close>

definition write_doc :: "yyjson_writer \<Rightarrow> json \<Rightarrow> cstr res" where
  "write_doc W d = (case W d of None \<Rightarrow> Inl Panic | Some s \<Rightarrow> Inr s)"

definition tool_call_doc :: "ik_tool_call \<Rightarrow> cstr option \<Rightarrow> cstr option \<Rightarrow> cstr option \<Rightarrow> json" where
  "tool_call_doc tc thinking_text thinking_signature redacted_data =
     JObj ([str_member ''tool_call_id'' (call_id tc), str_member ''tool_name'' (call_name tc),
            str_member ''tool_args'' (call_arguments tc)]
       @ (case thinking_text of None \<Rightarrow> []
          | Some t \<Rightarrow> [(bytes_of ''thinking'', JObj (str_member ''text'' t
              # (case thinking_signature of None \<Rightarrow> [] | Some s \<Rightarrow> [str_member ''signature'' s])))])
       @ (case redacted_data of None \<Rightarrow> []
          | Some d \<Rightarrow> [(bytes_of ''redacted_thinking'', JObj [str_member ''data'' d])]))"

definition ik_build_tool_call_data_json ::
  "yyjson_writer \<Rightarrow> ik_tool_call \<Rightarrow> cstr option \<Rightarrow> cstr option \<Rightarrow> cstr option \<Rightarrow> cstr res" where
  "ik_build_tool_call_data_json W tc thinking_text thinking_signature redacted_data =
     write_doc W (tool_call_doc tc thinking_text thinking_signature redacted_data)"

text \<open>\<^verbatim>\<open>yyjson_get_bool\<close> of a value that is not a boolean is false.\<close>

fun bool_of :: "json option \<Rightarrow> bool" where
  "bool_of (Some (JBool b)) = b"
| "bool_of _ = False"

definition tool_success :: "yyjson \<Rightarrow> cstr \<Rightarrow> bool" where
  "tool_success J result_json =
     (case J result_json of None \<Rightarrow> False | Some top_val \<Rightarrow> bool_of (obj_get top_val ''tool_success''))"

definition ik_build_tool_result_data_json ::
  "yyjson \<Rightarrow> yyjson_writer \<Rightarrow> cstr \<Rightarrow> cstr \<Rightarrow> cstr \<Rightarrow> cstr res" where
  "ik_build_tool_result_data_json J W tool_call_id tool_name result_json =
     write_doc W (JObj [str_member ''tool_call_id'' tool_call_id, str_member ''name'' tool_name,
       str_member ''output'' result_json, (bytes_of ''success'', JBool (tool_success J result_json))])"

subsection \<open>message.c: restoring from the database\<close>

definition sub_obj :: "json \<Rightarrow> string \<Rightarrow> json option" where
  "sub_obj top_val key = (case obj_get top_val key of Some v \<Rightarrow> (if is_obj v then Some v else None) | None \<Rightarrow> None)"

definition sub_str :: "json option \<Rightarrow> string \<Rightarrow> cstr option" where
  "sub_str v key = (case v of None \<Rightarrow> None | Some d \<Rightarrow> str_of (obj_get d key))"

definition tool_call_from_json :: "json \<Rightarrow> ik_message res" where
  "tool_call_from_json top_val =
     (if obj_get top_val ''tool_call_id'' = None \<or> obj_get top_val ''tool_name'' = None
         \<or> obj_get top_val ''tool_args'' = None then Inl (Err PARSE)
      else (case (str_of (obj_get top_val ''tool_call_id''), str_of (obj_get top_val ''tool_name''),
                  str_of (obj_get top_val ''tool_args'')) of
          (Some i, Some name, Some arguments) \<Rightarrow>
            (let thinking_obj = sub_obj top_val ''thinking''; redacted_obj = sub_obj top_val ''redacted_thinking'';
                 thinking_text = sub_str thinking_obj ''text''; thinking_sig = sub_str thinking_obj ''signature'';
                 redacted_data = sub_str redacted_obj ''data''
             in if thinking_text \<noteq> None \<or> redacted_data \<noteq> None
                then Inr (ik_message_create_tool_call_with_thinking thinking_text thinking_sig redacted_data i name
                            arguments None)
                else Inr (ik_message_create_tool_call i name arguments))
        | _ \<Rightarrow> Inl (Err PARSE)))"

definition tool_result_from_json :: "json \<Rightarrow> ik_message res" where
  "tool_result_from_json top_val =
     (if obj_get top_val ''tool_call_id'' = None \<or> obj_get top_val ''output'' = None then Inl (Err PARSE)
      else (case (str_of (obj_get top_val ''tool_call_id''), str_of (obj_get top_val ''output'')) of
          (Some tool_call_id, Some output) \<Rightarrow>
            (let is_error = (case obj_get top_val ''success'' of None \<Rightarrow> False | Some v \<Rightarrow> \<not> bool_of (Some v))
             in Inr (ik_message_create_tool_result tool_call_id output is_error))
        | _ \<Rightarrow> Inl (Err PARSE)))"

definition ik_message_from_db_msg :: "yyjson \<Rightarrow> ik_msg \<Rightarrow> ik_message option res" where
  "ik_message_from_db_msg J m =
     (if db_kind m = ''system'' then Inr None
      else if db_kind m = ''user'' then
        (case db_content m of None \<Rightarrow> Inl (Err PARSE) | Some t \<Rightarrow> Inr (Some (ik_message_create_text IK_ROLE_USER t)))
      else if db_kind m = ''assistant'' then
        (case db_content m of None \<Rightarrow> Inl (Err PARSE) | Some t \<Rightarrow> Inr (Some (ik_message_create_text IK_ROLE_ASSISTANT t)))
      else if db_kind m = ''tool_call'' then
        (case db_data_json m of None \<Rightarrow> Inl (Err PARSE)
         | Some d \<Rightarrow> (case J d of None \<Rightarrow> Inl (Err PARSE)
            | Some top_val \<Rightarrow> res_bind (tool_call_from_json top_val) (\<lambda>x. Inr (Some x))))
      else if db_kind m = ''tool_result'' \<or> db_kind m = ''tool'' then
        (case db_data_json m of None \<Rightarrow> Inl (Err PARSE)
         | Some d \<Rightarrow> (case J d of None \<Rightarrow> Inl (Err PARSE)
            | Some top_val \<Rightarrow> res_bind (tool_result_from_json top_val) (\<lambda>x. Inr (Some x))))
      else Inl (Err PARSE))"

subsection \<open>agent_messages.c\<close>

definition dup :: "cstr option \<Rightarrow> cstr option res" where
  "dup s = (case s of None \<Rightarrow> Inl Panic | Some t \<Rightarrow> Inr (Some t))"

fun clone_content_block :: "ik_content_block \<Rightarrow> ik_content_block res" where
  "clone_content_block (CONTENT_TEXT t) = res_bind (dup t) (\<lambda>t'. Inr (CONTENT_TEXT t'))"
| "clone_content_block (CONTENT_TOOL_CALL i n a g) =
     res_bind (dup i) (\<lambda>i'. res_bind (dup n) (\<lambda>n'. res_bind (dup a) (\<lambda>a'. Inr (CONTENT_TOOL_CALL i' n' a' None))))"
| "clone_content_block (CONTENT_TOOL_RESULT i c e) =
     res_bind (dup i) (\<lambda>i'. res_bind (dup c) (\<lambda>c'. Inr (CONTENT_TOOL_RESULT i' c' e)))"
| "clone_content_block (CONTENT_THINKING t s) = res_bind (dup t) (\<lambda>t'. Inr (CONTENT_THINKING t' s))"
| "clone_content_block (CONTENT_REDACTED_THINKING d) = res_bind (dup d) (\<lambda>d'. Inr (CONTENT_REDACTED_THINKING d'))"

fun clone_blocks :: "ik_content_block list \<Rightarrow> ik_content_block list res" where
  "clone_blocks [] = Inr []"
| "clone_blocks (b # bs) =
     res_bind (clone_content_block b) (\<lambda>b'. res_bind (clone_blocks bs) (\<lambda>bs'. Inr (b' # bs')))"

definition clone_message :: "ik_message \<Rightarrow> ik_message res" where
  "clone_message m =
     res_bind (clone_blocks (msg_blocks m))
       (\<lambda>bs. Inr \<lparr>msg_role = msg_role m, msg_blocks = bs, msg_metadata = msg_metadata m, msg_interrupted = False\<rparr>)"

fun ik_agent_clone_messages :: "ik_message list \<Rightarrow> ik_message list res" where
  "ik_agent_clone_messages [] = Inr []"
| "ik_agent_clone_messages (m # ms) =
     res_bind (clone_message m) (\<lambda>m'. res_bind (ik_agent_clone_messages ms) (\<lambda>ms'. Inr (m' # ms')))"

subsection \<open>Persisting and restoring\<close>

definition nul_free :: "cstr \<Rightarrow> bool" where
  "nul_free s \<longleftrightarrow> 0 \<notin> set s"

lemma c_string_id [simp]: "nul_free s \<Longrightarrow> c_string s = s"
  by (auto simp: nul_free_def c_string_def takeWhile_eq_all_conv)

lemma write_doc_read: "json_io J W \<Longrightarrow> write_doc W d = Inr s \<Longrightarrow> J s = Some d"
  by (simp add: write_doc_def json_io_def split: option.splits)

definition call_nul_free :: "ik_tool_call \<Rightarrow> bool" where
  "call_nul_free tc \<longleftrightarrow> nul_free (call_id tc) \<and> nul_free (call_name tc) \<and> nul_free (call_arguments tc)"

definition opt_nul_free :: "cstr option \<Rightarrow> bool" where
  "opt_nul_free s = (case s of None \<Rightarrow> True | Some t \<Rightarrow> nul_free t)"

lemma tool_call_restored:
  assumes "call_nul_free tc" "opt_nul_free th" "opt_nul_free sg" "opt_nul_free rd"
  shows "tool_call_from_json (tool_call_doc tc th sg rd)
    = Inr (ik_message_create_tool_call_with_thinking th sg rd (call_id tc) (call_name tc) (call_arguments tc) None)"
  using assms
  by (cases th; cases sg; cases rd)
     (simp_all add: tool_call_from_json_def tool_call_doc_def str_member_def bytes_of_def sub_obj_def sub_str_def
       call_nul_free_def opt_nul_free_def ik_message_create_tool_call_def ik_content_block_tool_call_def
       ik_message_create_tool_call_with_thinking_def)

subsection \<open>Theorems\<close>

text \<open>C13. A tool call survives a restart: the message restored from the document that is stored for a tool call
  is the message the running conversation holds, with its thinking and redacted thinking, except that the
  thought signature is lost. The restored result of the tool carries the failure flag of the stored
  result, while the running conversation holds the message with the flag off.\<close>

theorem tool_call_restart:
  assumes "json_io J W" and "call_nul_free tc" and "nul_free result"
    and "opt_nul_free th" and "opt_nul_free sg" and "opt_nul_free rd"
    and "ik_build_tool_call_data_json W tc th sg rd = Inr dc"
    and "ik_build_tool_result_data_json J W (call_id tc) (call_name tc) result = Inr dr"
  shows "ik_message_from_db_msg J \<lparr>db_kind = ''tool_call'', db_content = c1, db_data_json = Some dc\<rparr>
      = Inr (Some (ik_message_create_tool_call_with_thinking th sg rd (call_id tc) (call_name tc) (call_arguments tc) None))
    \<and> ik_message_from_db_msg J \<lparr>db_kind = ''tool_result'', db_content = c2, db_data_json = Some dr\<rparr>
      = Inr (Some (ik_message_create_tool_result (call_id tc) result (\<not> tool_success J result)))"
proof -
  have dc: "J dc = Some (tool_call_doc tc th sg rd)"
    using write_doc_read assms(1,7) by (simp add: ik_build_tool_call_data_json_def)
  have dr: "J dr = Some (JObj [str_member ''tool_call_id'' (call_id tc), str_member ''name'' (call_name tc),
       str_member ''output'' result, (bytes_of ''success'', JBool (tool_success J result))])"
    using write_doc_read assms(1,8) by (simp add: ik_build_tool_result_data_json_def)
  show ?thesis
    using assms(2,3) by (simp add: ik_message_from_db_msg_def dc dr tool_call_restored [OF assms(2,4-6)])
      (simp add: tool_result_from_json_def str_member_def bytes_of_def call_nul_free_def)
qed

definition sample_call :: ik_tool_call where
  "sample_call = \<lparr>call_id = [0x31], call_name = [0x6C, 0x73], call_arguments = [0x7B, 0x7D]\<rparr>"

definition sample_result_doc :: json where
  "sample_result_doc = JObj [str_member ''tool_call_id'' [0x31], str_member ''name'' [0x6C, 0x73],
     str_member ''output'' [0x6F, 0x6B], (bytes_of ''success'', JBool False)]"

definition sample_docs :: "(cstr \<times> json) list" where
  "sample_docs = [([0x61], tool_call_doc sample_call (Some [0x74]) None None), ([0x62], sample_result_doc)]"

definition sample_write :: yyjson_writer where
  "sample_write d = map_of (map (\<lambda>(s, e). (e, s)) sample_docs) d"

lemma sample_json_io: "json_io (map_of sample_docs) sample_write"
  by (auto simp: json_io_def sample_write_def sample_docs_def split: if_splits)

theorem tool_call_restart_witness:
  "ik_message_from_db_msg (map_of sample_docs) \<lparr>db_kind = ''tool_call'', db_content = None, db_data_json = Some [0x61]\<rparr>
      = Inr (Some (ik_message_create_tool_call_with_thinking (Some [0x74]) None None [0x31] [0x6C, 0x73] [0x7B, 0x7D] None))
   \<and> ik_message_from_db_msg (map_of sample_docs) \<lparr>db_kind = ''tool_result'', db_content = None, db_data_json = Some [0x62]\<rparr>
      = Inr (Some (ik_message_create_tool_result [0x31] [0x6F, 0x6B] True))"
proof -
  have r: "tool_success (map_of sample_docs) [0x6F, 0x6B] = False"
    by (simp add: tool_success_def sample_docs_def)
  have 1: "ik_build_tool_call_data_json sample_write sample_call (Some [0x74]) None None = Inr [0x61]"
    by (simp add: ik_build_tool_call_data_json_def write_doc_def sample_write_def sample_docs_def)
  have ne: "tool_call_doc sample_call (Some [0x74]) None None \<noteq> sample_result_doc"
    by (simp add: tool_call_doc_def sample_result_doc_def)
  have 2: "ik_build_tool_result_data_json (map_of sample_docs) sample_write (call_id sample_call) (call_name sample_call)
      [0x6F, 0x6B] = Inr [0x62]"
    by (simp add: ik_build_tool_result_data_json_def write_doc_def sample_write_def r sample_call_def)
       (use ne in \<open>simp add: sample_docs_def sample_result_doc_def [symmetric]\<close>)
  show ?thesis
    using tool_call_restart [OF sample_json_io _ _ _ _ _ 1 2, of None None]
    by (simp add: r call_nul_free_def opt_nul_free_def nul_free_def sample_call_def)
qed

end
