(* ===== verification/Ik_Agent.thy ===== *)
theory Ik_Agent
  imports Ik_Layer_Scrollback Ik_Event_Render Ik_Input_Buffer Ik_Completion Ik_Token_Cache Ik_Message
begin

text \<open>
  The context of an agent and its state machine: apps/ikigai/agent.h, agent_state.c and the conversation of
  agent_messages.c.

  The record \<open>ik_agent_ctx\<close> holds the fields of \<^verbatim>\<open>ik_agent_ctx_t\<close> that the interactive part of the program
  uses. The group of fields of the interaction with the model is \<open>ik_agent_llm\<close>, that of the execution of
  tools \<open>ik_agent_tool\<close>. What an operation does outside of the process, on the database, on the provider
  and on child processes, is recorded in \<open>ac_effects\<close>, oldest first.

  The record \<open>ik_env\<close> holds what the operations use and never change: the libraries, the configuration,
  and as functions the parts of the program that are not modelled: the formatters, the hooks of the tools,
  the assembly of the system prompt, and of the providers whether an instance can be created, a request
  built and a stream started (the message of the error where it cannot). The mutex around the state is not modelled: the operations run on the
  main thread, and the only other thread writes the result of a tool, which is an event of its own.
\<close>

datatype ik_agent_state =
    IK_AGENT_STATE_IDLE | IK_AGENT_STATE_WAITING_FOR_LLM | IK_AGENT_STATE_EXECUTING_TOOL

datatype ik_effect =
    Cancel_Provider
  | Kill_Group int nat
  | Db_Message string "cstr option" "cstr option"
  | Db_Set_Idle bool
  | Db_Notify_Idle
  | Start_Stream

record ik_agent_llm =
  al_messages :: "ik_message list"
  al_curl_still_running :: int
  al_assistant_response :: "cstr option"
  al_streaming_line_buffer :: "cstr option"
  al_streaming_first_line :: bool
  al_http_error_message :: "cstr option"
  al_response_model :: "cstr option"
  al_response_finish_reason :: "string option"
  al_response_input_tokens :: int
  al_response_output_tokens :: int
  al_response_thinking_tokens :: int
  al_prev_response_input_tokens :: int
  al_token_cache :: "ik_token_cache option"

record ik_agent_tool =
  at_pending_thinking_text :: "cstr option"
  at_pending_thinking_signature :: "cstr option"
  at_pending_redacted_data :: "cstr option"
  at_pending_tool_call :: "ik_tool_call option"
  at_pending_tool_thought_signature :: "cstr option"
  at_tool_thread_running :: bool
  at_tool_thread_complete :: bool
  at_tool_thread_result :: "cstr option"
  at_tool_iteration_count :: int
  at_tool_child_pid :: int
  at_pending_prompt :: "cstr option"
  at_pending_on_complete :: "cstr option"

record ik_agent_ctx =
  ac_uuid :: cstr
  ac_parent_uuid :: "cstr option"
  ac_created_at :: int
  ac_provider :: "cstr option"
  ac_model :: "cstr option"
  ac_thinking_level :: int
  ac_provider_instance :: "bool option"
  ac_scrollback :: ik_scrollback
  ac_nav_ctx :: ik_separator_nav_context
  ac_viewport_offset :: nat
  ac_spinner_state :: ik_spinner_state
  ac_input_buffer :: ik_input_buffer
  ac_completion :: "ik_completion option"
  ac_marks :: "cstr option list"
  ac_state :: ik_agent_state
  ac_banner_visible :: bool
  ac_separator_visible :: bool
  ac_input_buffer_visible :: bool
  ac_status_visible :: bool
  ac_dead :: bool
  ac_interrupt_requested :: bool
  ac_llm :: ik_agent_llm
  ac_tool :: ik_agent_tool
  ac_effects :: "ik_effect list"

text \<open>
  The field \<open>ac_provider_instance\<close> is the cached instance of the provider, with whether it can cancel a
  request. \<open>at_pending_on_complete\<close> is the name of the tool whose hook is pending.
\<close>

record ik_env =
  en_utf8proc :: utf8proc
  en_json :: yyjson
  en_writer :: yyjson_writer
  en_colors :: bool
  en_cols :: int
  en_event_format_call :: formatter
  en_event_format_result :: formatter
  en_format_tool_call :: "ik_tool_call \<Rightarrow> cstr"
  en_format_tool_result :: "cstr \<Rightarrow> cstr \<Rightarrow> cstr"
  en_max_tool_turns :: "int option"
  en_db :: bool
  en_session_id :: int
  en_user_data :: cstr
  en_effective_prompt :: "cstr option"
  en_count_tokens :: "(ik_request \<Rightarrow> int option) option"
  en_on_complete :: "cstr \<Rightarrow> (ik_agent_ctx \<Rightarrow> ik_agent_ctx) option"
  en_provider_create :: "cstr \<Rightarrow> cstr + bool"
  en_build_error :: "ik_agent_ctx \<Rightarrow> cstr option"
  en_start_error :: "ik_agent_ctx \<Rightarrow> cstr option"

definition emit :: "ik_effect \<Rightarrow> ik_agent_ctx \<Rightarrow> ik_agent_ctx" where
  "emit e a = a\<lparr>ac_effects := ac_effects a @ [e]\<rparr>"

definition on_llm :: "(ik_agent_llm \<Rightarrow> ik_agent_llm) \<Rightarrow> ik_agent_ctx \<Rightarrow> ik_agent_ctx" where
  "on_llm f a = a\<lparr>ac_llm := f (ac_llm a)\<rparr>"

definition on_tool :: "(ik_agent_tool \<Rightarrow> ik_agent_tool) \<Rightarrow> ik_agent_ctx \<Rightarrow> ik_agent_ctx" where
  "on_tool f a = a\<lparr>ac_tool := f (ac_tool a)\<rparr>"

definition on_scrollback :: "(ik_scrollback \<Rightarrow> ik_scrollback res) \<Rightarrow> ik_agent_ctx \<Rightarrow> ik_agent_ctx res" where
  "on_scrollback f a = res_bind (f (ac_scrollback a)) (\<lambda>sb. Inr (a\<lparr>ac_scrollback := sb\<rparr>))"

definition append_line :: "ik_env \<Rightarrow> cstr \<Rightarrow> ik_agent_ctx \<Rightarrow> ik_agent_ctx res" where
  "append_line E t a = on_scrollback (\<lambda>sb. ik_scrollback_append_line (en_utf8proc E) sb t) a"

definition render_event ::
  "ik_env \<Rightarrow> string \<Rightarrow> cstr option \<Rightarrow> cstr option \<Rightarrow> bool \<Rightarrow> ik_scrollback \<Rightarrow> ik_scrollback res" where
  "render_event E kind content data_json interrupted sb =
     ik_event_render (en_utf8proc E) (en_json E) (en_colors E) (en_event_format_call E) (en_event_format_result E)
       sb kind content data_json interrupted"

definition persists :: "ik_env \<Rightarrow> bool" where
  "persists E \<longleftrightarrow> en_db E \<and> en_session_id E > 0"

subsection \<open>agent_messages.c\<close>

definition ik_agent_add_message :: "ik_message \<Rightarrow> ik_agent_ctx \<Rightarrow> ik_agent_ctx" where
  "ik_agent_add_message m = on_llm (\<lambda>l. l\<lparr>al_messages := al_messages l @ [m]\<rparr>)"

definition ik_agent_clear_messages :: "ik_agent_ctx \<Rightarrow> ik_agent_ctx" where
  "ik_agent_clear_messages = on_llm (\<lambda>l. l\<lparr>al_messages := []\<rparr>)"

subsection \<open>agent_provider.c\<close>

text \<open>The instance of the provider is created on the first use; the second component is the error.\<close>

definition ik_agent_get_provider :: "ik_env \<Rightarrow> ik_agent_ctx \<Rightarrow> ik_agent_ctx \<times> cstr option" where
  "ik_agent_get_provider E a =
     (case ac_provider_instance a of Some p \<Rightarrow> (a, None)
      | None \<Rightarrow>
         (case ac_provider a of None \<Rightarrow> (a, Some (bytes_of ''No provider configured''))
          | Some name \<Rightarrow>
             (if name = [] then (a, Some (bytes_of ''No provider configured''))
              else (case en_provider_create E name of
                 Inl msg \<Rightarrow> (a, Some (bytes_of ''Failed to create provider '' @ [0x27] @ name @ [0x27] @ bytes_of '': '' @ msg))
               | Inr p \<Rightarrow> (a\<lparr>ac_provider_instance := Some p\<rparr>, None)))))"

definition ik_agent_invalidate_provider :: "ik_agent_ctx \<Rightarrow> ik_agent_ctx" where
  "ik_agent_invalidate_provider a = a\<lparr>ac_provider_instance := None\<rparr>"

subsection \<open>agent_state.c: transitions\<close>

definition ik_agent_has_running_tools :: "ik_agent_ctx \<Rightarrow> bool" where
  "ik_agent_has_running_tools a = at_tool_thread_running (ac_tool a)"

definition ik_agent_transition_to_waiting_for_llm :: "int \<Rightarrow> ik_agent_ctx \<Rightarrow> ik_agent_ctx res" where
  "ik_agent_transition_to_waiting_for_llm now_ms a =
     check_assert (ac_state a = IK_AGENT_STATE_IDLE)
       (Inr (a\<lparr>ac_state := IK_AGENT_STATE_WAITING_FOR_LLM,
               ac_spinner_state := (ac_spinner_state a)\<lparr>sp_visible := True, sp_last_advance_ms := now_ms\<rparr>,
               ac_input_buffer_visible := False\<rparr>))"

definition ik_agent_transition_to_idle :: "ik_agent_ctx \<Rightarrow> ik_agent_ctx res" where
  "ik_agent_transition_to_idle a =
     check_assert (ac_state a = IK_AGENT_STATE_WAITING_FOR_LLM)
       (Inr (a\<lparr>ac_state := IK_AGENT_STATE_IDLE,
               ac_spinner_state := (ac_spinner_state a)\<lparr>sp_visible := False\<rparr>,
               ac_input_buffer_visible := True\<rparr>))"

definition ik_agent_transition_to_executing_tool :: "ik_agent_ctx \<Rightarrow> ik_agent_ctx res" where
  "ik_agent_transition_to_executing_tool a =
     check_assert (ac_state a = IK_AGENT_STATE_WAITING_FOR_LLM)
       (Inr (a\<lparr>ac_state := IK_AGENT_STATE_EXECUTING_TOOL\<rparr>))"

definition ik_agent_transition_from_executing_tool :: "ik_agent_ctx \<Rightarrow> ik_agent_ctx res" where
  "ik_agent_transition_from_executing_tool a =
     check_assert (ac_state a = IK_AGENT_STATE_EXECUTING_TOOL)
       (Inr (a\<lparr>ac_state := IK_AGENT_STATE_WAITING_FOR_LLM\<rparr>))"

subsection \<open>agent_state.c: the context window\<close>

text \<open>The kind and the text with which a message is shown again: those of its first block.\<close>

fun message_event :: "ik_role \<Rightarrow> ik_content_block list \<Rightarrow> (string \<times> cstr) option" where
  "message_event IK_ROLE_USER (CONTENT_TEXT t # bs) = map_option (\<lambda>c. (''user'', c)) t"
| "message_event IK_ROLE_ASSISTANT (CONTENT_TEXT t # bs) = map_option (\<lambda>c. (''assistant'', c)) t"
| "message_event IK_ROLE_TOOL (CONTENT_TOOL_RESULT i t e # bs) = map_option (\<lambda>c. (''tool_result'', c)) t"
| "message_event _ _ = None"

definition render_message :: "ik_env \<Rightarrow> ik_message \<Rightarrow> ik_scrollback \<Rightarrow> ik_scrollback res" where
  "render_message E m sb =
     (case message_event (msg_role m) (msg_blocks m) of None \<Rightarrow> Inr sb
      | Some (kind, content) \<Rightarrow> render_event E kind (Some content) (Some [0x7B, 0x7D]) (msg_interrupted m) sb)"

definition context_hr :: "ik_env \<Rightarrow> cstr" where
  "context_hr E =
     (let label = bytes_of '' context ''; remaining = max 0 (en_cols E - int (length label));
          left = nat (remaining div 2); right = nat (remaining - remaining div 2);
          hr = concat (replicate left BOX_LIGHT_HORIZONTAL) @ label @ concat (replicate right BOX_LIGHT_HORIZONTAL)
      in if en_colors E then fg 153 @ hr @ ansi_reset else hr)"

definition append_context_hr :: "ik_env \<Rightarrow> ik_scrollback \<Rightarrow> ik_scrollback res" where
  "append_context_hr E sb =
     res_bind (ik_scrollback_append_line (en_utf8proc E) sb []) (\<lambda>sb1.
     res_bind (ik_scrollback_append_line (en_utf8proc E) sb1 (context_hr E)) (\<lambda>sb2.
       ik_scrollback_append_line (en_utf8proc E) sb2 []))"

fun refresh_loop :: "ik_env \<Rightarrow> nat \<Rightarrow> nat \<Rightarrow> ik_message list \<Rightarrow> ik_scrollback \<Rightarrow> ik_scrollback res" where
  "refresh_loop E ctx_idx i [] sb = Inr sb"
| "refresh_loop E ctx_idx i (m # ms) sb =
     res_bind (if i = ctx_idx then append_context_hr E sb else Inr sb) (\<lambda>sb1.
     res_bind (render_message E m sb1) (\<lambda>sb2. refresh_loop E ctx_idx (i + 1) ms sb2))"

definition refresh_scrollback_with_hr :: "ik_env \<Rightarrow> ik_agent_ctx \<Rightarrow> ik_agent_ctx res" where
  "refresh_scrollback_with_hr E a =
     (case al_token_cache (ac_llm a) of None \<Rightarrow> Inr a
      | Some c \<Rightarrow>
         (if tc_context_start_index c = 0 then Inr a
          else on_scrollback (\<lambda>sb. refresh_loop E (tc_context_start_index c) 0 (al_messages (ac_llm a))
                 (ik_scrollback_clear sb)) a))"

text \<open>The agent as the token cache sees it.\<close>

definition cache_view :: "ik_env \<Rightarrow> ik_agent_ctx \<Rightarrow> ik_agent" where
  "cache_view E a = \<lparr>ag_messages = al_messages (ac_llm a), ag_model = ac_model a,
     ag_effective_prompt = en_effective_prompt E, ag_count_tokens = en_count_tokens E\<rparr>"

lemma get_turn_count:
  "ik_token_cache_get_turn_tokens A c i = Inr (c', n) \<Longrightarrow> tc_turn_count c' = tc_turn_count c"
  by (auto simp: ik_token_cache_get_turn_tokens_def res_bind_Inr_iff split: if_splits option.splits)

lemma total_loop_count: "total_loop A c s is = Inr (c', n) \<Longrightarrow> tc_turn_count c' = tc_turn_count c"
  by (induction A c s "is" rule: total_loop.induct) (auto simp: res_bind_Inr_iff dest!: get_turn_count)

lemma get_total_count:
  assumes "ik_token_cache_get_total A c = Inr (c', n)"
  shows "tc_turn_count c' = tc_turn_count c"
proof (cases "tc_total_tokens c = - 1")
  case True
  obtain c1 n1 where 1: "ik_token_cache_get_system_tokens A c = (c1, n1)" by fastforce
  obtain c2 n2 where 2: "ik_token_cache_get_tool_tokens A c1 = (c2, n2)" by fastforce
  have "tc_turn_count c1 = tc_turn_count c" using 1
    by (auto simp: ik_token_cache_get_system_tokens_def Let_def split: if_splits)
  moreover have "tc_turn_count c2 = tc_turn_count c1" using 2
    by (auto simp: ik_token_cache_get_tool_tokens_def Let_def split: if_splits)
  ultimately show ?thesis
    using assms True by (auto simp: ik_token_cache_get_total_def 1 2 res_bind_Inr_iff dest!: total_loop_count)
qed (use assms in \<open>simp add: ik_token_cache_get_total_def\<close>)

lemma prune_count:
  "ik_token_cache_prune_oldest_turn A c = Inr c' \<Longrightarrow> tc_turn_count c' = tc_turn_count c - 1"
  by (auto simp: ik_token_cache_prune_oldest_turn_def res_bind_Inr_iff split: if_splits)

function prune_loop :: "ik_agent \<Rightarrow> int \<Rightarrow> ik_token_cache \<Rightarrow> ik_token_cache res" where
  "prune_loop A budget c =
     (case ik_token_cache_get_total A c of Inl e \<Rightarrow> Inl e
      | Inr (c1, sum_now) \<Rightarrow>
         (if sum_now > budget \<and> tc_turn_count c1 > 1
          then (case ik_token_cache_prune_oldest_turn A c1 of Inl e \<Rightarrow> Inl e | Inr c2 \<Rightarrow> prune_loop A budget c2)
          else Inr c1))"
  by pat_completeness auto
termination
  by (relation "measure (\<lambda>(A, b, c). tc_turn_count c)") (auto dest!: get_total_count prune_count)

declare prune_loop.simps [simp del]

definition ik_agent_prune_token_cache :: "ik_env \<Rightarrow> ik_agent_ctx \<Rightarrow> ik_agent_ctx res" where
  "ik_agent_prune_token_cache E a =
     (case al_token_cache (ac_llm a) of None \<Rightarrow> Inr a
      | Some c \<Rightarrow> res_bind (prune_loop (cache_view E a) (tc_budget c) c)
          (\<lambda>c'. refresh_scrollback_with_hr E (on_llm (\<lambda>l. l\<lparr>al_token_cache := Some c'\<rparr>) a)))"

text \<open>The cost of the last turn: the growth of the input of the requests, or an estimate.\<close>

definition record_last_turn :: "ik_env \<Rightarrow> ik_agent_ctx \<Rightarrow> ik_token_cache \<Rightarrow> ik_token_cache res" where
  "record_last_turn E a c =
     (if tc_turn_count c > 0 then
        (let last_turn = tc_turn_count c - 1
         in res_bind (sub32 (al_response_input_tokens (ac_llm a)) (al_prev_response_input_tokens (ac_llm a)))
              (\<lambda>delta. if delta > 0 then ik_token_cache_record_turn c last_turn delta
                 else res_bind (ik_token_cache_get_turn_tokens (cache_view E a) c last_turn)
                        (\<lambda>(c', est). if est > 0 then ik_token_cache_record_turn c' last_turn est else Inr c')))
      else Inr c)"

definition ik_agent_record_and_prune_token_cache :: "ik_env \<Rightarrow> bool \<Rightarrow> ik_agent_ctx \<Rightarrow> ik_agent_ctx res" where
  "ik_agent_record_and_prune_token_cache E was_success a =
     (case al_token_cache (ac_llm a) of None \<Rightarrow> Inr a
      | Some c \<Rightarrow>
         (if \<not> was_success then Inr a
          else res_bind (record_last_turn E a c)
            (\<lambda>c'. ik_agent_prune_token_cache E
               (on_llm (\<lambda>l. l\<lparr>al_token_cache := Some c', al_prev_response_input_tokens := al_response_input_tokens l\<rparr>) a))))"

subsection \<open>agent.c and agent_provider.c: creation and restoring\<close>

text \<open>The state of a new agent: a zeroed context with an empty scrollback and input. The cache of documents is
  not modelled; of the connection to the database and the mutex only the error \<open>setup_error\<close> is.\<close>

definition fresh_llm :: "int \<Rightarrow> ik_agent_llm" where
  "fresh_llm budget =
     \<lparr>al_messages = [], al_curl_still_running = 0, al_assistant_response = None, al_streaming_line_buffer = None,
      al_streaming_first_line = False, al_http_error_message = None, al_response_model = None,
      al_response_finish_reason = None, al_response_input_tokens = 0, al_response_output_tokens = 0,
      al_response_thinking_tokens = 0, al_prev_response_input_tokens = 0,
      al_token_cache = Some (ik_token_cache_set_budget ik_token_cache_create budget)\<rparr>"

definition fresh_tool :: ik_agent_tool where
  "fresh_tool =
     \<lparr>at_pending_thinking_text = None, at_pending_thinking_signature = None, at_pending_redacted_data = None,
      at_pending_tool_call = None, at_pending_tool_thought_signature = None, at_tool_thread_running = False,
      at_tool_thread_complete = False, at_tool_thread_result = None, at_tool_iteration_count = 0,
      at_tool_child_pid = 0, at_pending_prompt = None, at_pending_on_complete = None\<rparr>"

definition ik_agent_create :: "err_code option \<Rightarrow> cstr \<Rightarrow> cstr option \<Rightarrow> int \<Rightarrow> int \<Rightarrow> int \<Rightarrow> ik_agent_ctx res" where
  "ik_agent_create setup_error uuid parent_uuid created_at term_cols budget =
     res_bind (ik_scrollback_create term_cols) (\<lambda>sb.
     res_bind ik_input_buffer_create (\<lambda>ib.
     case setup_error of Some e \<Rightarrow> Inl (Err e)
     | None \<Rightarrow> Inr \<lparr>ac_uuid = uuid, ac_parent_uuid = parent_uuid, ac_created_at = created_at, ac_provider = None,
            ac_model = None, ac_thinking_level = 0, ac_provider_instance = None, ac_scrollback = sb,
            ac_nav_ctx = \<lparr>nav_parent_uuid = None, nav_prev_sibling_uuid = None, nav_current_uuid = None,
                          nav_next_sibling_uuid = None, nav_child_count = 0\<rparr>,
            ac_viewport_offset = 0,
            ac_spinner_state = \<lparr>sp_frame_index = 0, sp_visible = False, sp_last_advance_ms = 0\<rparr>,
            ac_input_buffer = ib, ac_completion = None, ac_marks = [], ac_state = IK_AGENT_STATE_IDLE,
            ac_banner_visible = True, ac_separator_visible = True, ac_input_buffer_visible = True,
            ac_status_visible = True, ac_dead = False, ac_interrupt_requested = False,
            ac_llm = fresh_llm budget, ac_tool = fresh_tool, ac_effects = []\<rparr>))"

record ik_db_agent_row =
  row_uuid :: cstr
  row_parent_uuid :: "cstr option"
  row_created_at :: int
  row_provider :: "cstr option"
  row_model :: "cstr option"
  row_thinking_level :: "cstr option"

definition ik_agent_restore :: "err_code option \<Rightarrow> ik_db_agent_row \<Rightarrow> int \<Rightarrow> int \<Rightarrow> ik_agent_ctx res" where
  "ik_agent_restore setup_error row term_cols budget =
     ik_agent_create setup_error (row_uuid row) (row_parent_uuid row) (row_created_at row) term_cols budget"

definition parse_thinking_level :: "cstr \<Rightarrow> int" where
  "parse_thinking_level s =
     (if s = bytes_of ''min'' \<or> s = bytes_of ''none'' then 0
      else if s = bytes_of ''low'' then 1
      else if s = bytes_of ''med'' \<or> s = bytes_of ''medium'' then 2
      else if s = bytes_of ''high'' then 3
      else 0)"

definition ik_agent_restore_from_row :: "ik_agent_ctx \<Rightarrow> ik_db_agent_row option \<Rightarrow> ik_agent_ctx res" where
  "ik_agent_restore_from_row a row =
     (case row of None \<Rightarrow> Inl (Err INVALID_ARG)
      | Some r \<Rightarrow>
         Inr (a\<lparr>ac_provider := (case row_provider r of None \<Rightarrow> ac_provider a | Some p \<Rightarrow> Some p),
                ac_model := (case row_model r of None \<Rightarrow> ac_model a | Some m \<Rightarrow> Some m),
                ac_thinking_level := (case row_thinking_level r of None \<Rightarrow> ac_thinking_level a
                   | Some l \<Rightarrow> parse_thinking_level l),
                ac_provider_instance := None\<rparr>))"

end
