(* ===== verification/Ik_Provider.thy ===== *)
theory Ik_Provider
  imports Ik_Request Ik_Json
begin

text \<open>
  What a provider delivers, apps/ikigai/providers/provider.h, provider_stream.h, provider_vtable.h and
  response.c: responses, usage, the events of a stream and the completion of a request.

  The index of a content block is the first argument of the events that carry one; it is 0 in the others.
  Text that a provider sends is a C string.
\<close>

datatype ik_finish_reason =
    IK_FINISH_STOP | IK_FINISH_LENGTH | IK_FINISH_TOOL_USE | IK_FINISH_CONTENT_FILTER | IK_FINISH_ERROR
  | IK_FINISH_UNKNOWN

datatype ik_content_type =
    IK_CONTENT_TEXT | IK_CONTENT_TOOL_CALL | IK_CONTENT_TOOL_RESULT | IK_CONTENT_THINKING
  | IK_CONTENT_REDACTED_THINKING

datatype ik_error_category =
    IK_ERR_CAT_AUTH | IK_ERR_CAT_RATE_LIMIT | IK_ERR_CAT_INVALID_ARG | IK_ERR_CAT_NOT_FOUND | IK_ERR_CAT_SERVER
  | IK_ERR_CAT_TIMEOUT | IK_ERR_CAT_CONTENT_FILTER | IK_ERR_CAT_NETWORK | IK_ERR_CAT_UNKNOWN

record ik_usage =
  us_input_tokens :: int
  us_output_tokens :: int
  us_thinking_tokens :: int
  us_cached_tokens :: int
  us_total_tokens :: int

record ik_response =
  rs_content_blocks :: "ik_content_block list"
  rs_finish_reason :: ik_finish_reason
  rs_usage :: ik_usage
  rs_model :: "cstr option"
  rs_provider_data :: "cstr option"

datatype ik_stream_event =
    IK_STREAM_START "cstr option"
  | IK_STREAM_TEXT_DELTA int "cstr option"
  | IK_STREAM_THINKING_DELTA int "cstr option"
  | IK_STREAM_TOOL_CALL_START int "cstr option" "cstr option"
  | IK_STREAM_TOOL_CALL_DELTA int "cstr option"
  | IK_STREAM_TOOL_CALL_DONE int
  | IK_STREAM_DONE ik_finish_reason ik_usage
  | IK_STREAM_ERROR ik_error_category "cstr option"

record ik_provider_completion =
  co_success :: bool
  co_http_status :: int
  co_response :: "ik_response option"
  co_error_category :: ik_error_category
  co_error_message :: "cstr option"
  co_retry_after_ms :: int

definition no_usage :: ik_usage where
  "no_usage = \<lparr>us_input_tokens = 0, us_output_tokens = 0, us_thinking_tokens = 0, us_cached_tokens = 0,
     us_total_tokens = 0\<rparr>"

subsection \<open>response.c\<close>

definition ik_response_create :: ik_response where
  "ik_response_create = \<lparr>rs_content_blocks = [], rs_finish_reason = IK_FINISH_STOP, rs_usage = no_usage,
     rs_model = None, rs_provider_data = None\<rparr>"

definition ik_response_add_content :: "ik_response \<Rightarrow> ik_content_block \<Rightarrow> ik_response" where
  "ik_response_add_content r block = r\<lparr>rs_content_blocks := rs_content_blocks r @ [block]\<rparr>"

subsection \<open>Members of JSON objects\<close>

text \<open>Reading a member of an object that may be missing, as the stream parsers do: the string of the member
  (\<open>str_member_of\<close>), its value as \<^verbatim>\<open>int32_t\<close> (\<open>int32_member_of\<close>), the member if it is an object
  (\<open>obj_member_of\<close>) or an array (\<open>arr_member_of\<close>).\<close>

definition str_member_of :: "json \<Rightarrow> string \<Rightarrow> cstr option" where
  "str_member_of v key = str_of (obj_get v key)"

definition int32_member_of :: "json \<Rightarrow> string \<Rightarrow> int option" where
  "int32_member_of v key = map_option to_int32 (int_of (obj_get v key))"

definition obj_member_of :: "json \<Rightarrow> string \<Rightarrow> json option" where
  "obj_member_of v key = (case obj_get v key of Some m \<Rightarrow> if is_obj m then Some m else None | None \<Rightarrow> None)"

fun elems_of :: "json option \<Rightarrow> json list option" where
  "elems_of (Some (JArr xs)) = Some xs"
| "elems_of _ = None"

definition arr_member_of :: "json \<Rightarrow> string \<Rightarrow> json list option" where
  "arr_member_of v key = elems_of (obj_get v key)"

lemmas member_defs = str_member_of_def int32_member_of_def obj_member_of_def arr_member_of_def

definition default :: "'a \<Rightarrow> 'a option \<Rightarrow> 'a" where
  "default x m = (case m of None \<Rightarrow> x | Some y \<Rightarrow> y)"

lemma default_simps [simp]: "default x None = x" "default x (Some y) = y"
  by (simp_all add: default_def)

text \<open>An assignment that is made where a value is there.\<close>

definition set_if :: "('a \<Rightarrow> 's \<Rightarrow> 's) \<Rightarrow> 'a option \<Rightarrow> 's \<Rightarrow> 's" where
  "set_if f m s = (case m of None \<Rightarrow> s | Some x \<Rightarrow> f x s)"

lemma set_if_simps [simp]: "set_if f None s = s" "set_if f (Some x) s = f x s"
  by (simp_all add: set_if_def)

text \<open>Appending a piece to a text that may be missing.\<close>

definition append_to :: "cstr option \<Rightarrow> cstr \<Rightarrow> cstr option" where
  "append_to old piece = Some (default [] old @ piece)"

end
