(* ===== verification/Ik_Turn.thy ===== *)
theory Ik_Turn
  imports Ik_Agent Ik_Provider
begin

text \<open>
  A turn of the conversation: the message of the user is sent to the model, its answer is streamed into the
  scrollback, a tool it asks for is executed in a thread, and the result goes back to the model until the
  turn ends. The code is in apps/ikigai/repl_actions_llm.c, repl_callbacks.c, repl_response_helpers.c,
  repl_tool.c, repl_tool_completion.c and repl_event_handlers.c.

  Every operation takes the environment \<open>E\<close> and the agent. What the network does in one round of the
  event loop is \<open>ik_perform\<close>: the callbacks in their order, the number of transfers that still run and
  the error of the transfer. The result of a tool comes from its thread (\<open>tool_thread_worker\<close>). Drawing the
  screen after an operation on the current agent is a part of the loop.
  Creating a thread always succeeds; the code stops where it fails.
\<close>

subsection \<open>repl_response_helpers.c\<close>

text \<open>The prefix of the first line of an answer and the space after it.\<close>

definition line_prefix :: "ik_agent_ctx \<Rightarrow> cstr" where
  "line_prefix a =
     (case ik_output_prefix IK_OUTPUT_MODEL_TEXT of
        Some p \<Rightarrow> (if al_streaming_first_line (ac_llm a) then p @ [0x20] else []) | None \<Rightarrow> [])"

definition not_first :: "ik_agent_ctx \<Rightarrow> ik_agent_ctx" where
  "not_first = on_llm (\<lambda>l. l\<lparr>al_streaming_first_line := False\<rparr>)"

definition ik_repl_flush_line_to_scrollback :: "ik_env \<Rightarrow> cstr \<Rightarrow> ik_agent_ctx \<Rightarrow> ik_agent_ctx res" where
  "ik_repl_flush_line_to_scrollback E seg a =
     (case al_streaming_line_buffer (ac_llm a) of
        Some buf \<Rightarrow>
          res_bind (append_line E (line_prefix a @ buf @ seg) a)
            (\<lambda>a'. Inr (not_first (on_llm (\<lambda>l. l\<lparr>al_streaming_line_buffer := None\<rparr>) a')))
      | None \<Rightarrow>
          (if seg \<noteq> [] then res_bind (append_line E (line_prefix a @ seg) a) (\<lambda>a'. Inr (not_first a'))
           else if line_prefix a \<noteq> [] then Inr a
           else res_bind (append_line E [] a) (\<lambda>a'. Inr (not_first a'))))"

definition buffer_text :: "cstr \<Rightarrow> ik_agent_ctx \<Rightarrow> ik_agent_ctx" where
  "buffer_text seg = on_llm (\<lambda>l. l\<lparr>al_streaming_line_buffer :=
     Some (case al_streaming_line_buffer l of None \<Rightarrow> seg | Some buf \<Rightarrow> buf @ seg)\<rparr>)"

text \<open>The loop over a chunk; \<open>seg\<close> are the bytes since the last newline.\<close>

fun delta_loop :: "ik_env \<Rightarrow> cstr \<Rightarrow> cstr \<Rightarrow> ik_agent_ctx \<Rightarrow> ik_agent_ctx res" where
  "delta_loop E seg [] a = Inr (if seg \<noteq> [] then buffer_text seg a else a)"
| "delta_loop E seg (c # cs) a =
     (if c = 10 then res_bind (ik_repl_flush_line_to_scrollback E seg a) (delta_loop E [] cs)
      else delta_loop E (seg @ [c]) cs a)"

definition ik_repl_handle_text_delta :: "ik_env \<Rightarrow> cstr \<Rightarrow> ik_agent_ctx \<Rightarrow> ik_agent_ctx res" where
  "ik_repl_handle_text_delta E chunk a =
     (if chunk = [] then Inr a
      else delta_loop E [] chunk
        (on_llm (\<lambda>l. l\<lparr>al_assistant_response :=
           Some (case al_assistant_response l of None \<Rightarrow> chunk | Some r \<Rightarrow> r @ chunk)\<rparr>) a))"

definition quoted :: "string \<Rightarrow> cstr" where
  "quoted s = [0x22] @ bytes_of s @ [0x22]"

definition usage_json :: "ik_agent_ctx \<Rightarrow> cstr" where
  "usage_json a =
     [0x7B] @ quoted ''input_tokens'' @ bytes_of '':'' @ dec_int (al_response_input_tokens (ac_llm a)) @ bytes_of '',''
     @ quoted ''output_tokens'' @ bytes_of '':'' @ dec_int (al_response_output_tokens (ac_llm a)) @ bytes_of '',''
     @ quoted ''thinking_tokens'' @ bytes_of '':'' @ dec_int (al_response_thinking_tokens (ac_llm a)) @ [0x7D]"

definition response_total :: "ik_agent_ctx \<Rightarrow> int res" where
  "response_total a =
     res_bind (add32 (al_response_input_tokens (ac_llm a)) (al_response_output_tokens (ac_llm a)))
       (\<lambda>n. add32 n (al_response_thinking_tokens (ac_llm a)))"

definition ik_repl_render_usage_event :: "ik_env \<Rightarrow> ik_agent_ctx \<Rightarrow> ik_agent_ctx res" where
  "ik_repl_render_usage_event E a =
     res_bind (response_total a) (\<lambda>total_tok.
       if total_tok > 0 then on_scrollback (render_event E ''usage'' None (Some (take 255 (usage_json a))) False) a
       else append_line E [] a)"

fun finish_reason_str :: "ik_finish_reason \<Rightarrow> string" where
  "finish_reason_str IK_FINISH_STOP = ''stop''"
| "finish_reason_str IK_FINISH_LENGTH = ''length''"
| "finish_reason_str IK_FINISH_TOOL_USE = ''tool_use''"
| "finish_reason_str IK_FINISH_CONTENT_FILTER = ''content_filter''"
| "finish_reason_str IK_FINISH_ERROR = ''error''"
| "finish_reason_str IK_FINISH_UNKNOWN = ''unknown''"

definition ik_repl_store_response_metadata :: "ik_response \<Rightarrow> ik_agent_ctx \<Rightarrow> ik_agent_ctx" where
  "ik_repl_store_response_metadata r =
     on_llm (\<lambda>l. l\<lparr>al_response_model := rs_model r,
       al_response_finish_reason := Some (finish_reason_str (rs_finish_reason r)),
       al_response_input_tokens := us_input_tokens (rs_usage r),
       al_response_output_tokens := us_output_tokens (rs_usage r),
       al_response_thinking_tokens := us_thinking_tokens (rs_usage r)\<rparr>)"

definition clear_pending_data :: "ik_agent_ctx \<Rightarrow> ik_agent_ctx" where
  "clear_pending_data =
     on_tool (\<lambda>t. t\<lparr>at_pending_thinking_text := None, at_pending_thinking_signature := None,
       at_pending_redacted_data := None, at_pending_tool_call := None, at_pending_tool_thought_signature := None\<rparr>)"

definition overwrite :: "'a option \<Rightarrow> 'a option \<Rightarrow> 'a option" where
  "overwrite x y = (case x of None \<Rightarrow> y | Some v \<Rightarrow> Some v)"

fun extract_loop :: "ik_content_block list \<Rightarrow> ik_agent_tool \<Rightarrow> ik_agent_tool res" where
  "extract_loop [] t = Inr t"
| "extract_loop (CONTENT_THINKING th sg # bs) t =
     extract_loop bs (t\<lparr>at_pending_thinking_text := overwrite th (at_pending_thinking_text t),
                        at_pending_thinking_signature := overwrite sg (at_pending_thinking_signature t)\<rparr>)"
| "extract_loop (CONTENT_REDACTED_THINKING d # bs) t =
     extract_loop bs (t\<lparr>at_pending_redacted_data := overwrite d (at_pending_redacted_data t)\<rparr>)"
| "extract_loop (CONTENT_TOOL_CALL i n a g # bs) t =
     res_bind (ik_tool_call_create i n a)
       (\<lambda>c. Inr (t\<lparr>at_pending_tool_call := Some c,
                   at_pending_tool_thought_signature := overwrite g (at_pending_tool_thought_signature t)\<rparr>))"
| "extract_loop (b # bs) t = extract_loop bs t"

definition ik_repl_extract_tool_calls :: "ik_response \<Rightarrow> ik_agent_ctx \<Rightarrow> ik_agent_ctx res" where
  "ik_repl_extract_tool_calls r a =
     (let a' = clear_pending_data a
      in res_bind (extract_loop (rs_content_blocks r) (ac_tool a')) (\<lambda>t. Inr (a'\<lparr>ac_tool := t\<rparr>)))"

subsection \<open>repl_callbacks.c\<close>

fun ik_repl_stream_callback :: "ik_env \<Rightarrow> ik_stream_event \<Rightarrow> ik_agent_ctx \<Rightarrow> ik_agent_ctx res" where
  "ik_repl_stream_callback E (IK_STREAM_START m) a =
     Inr (on_llm (\<lambda>l. l\<lparr>al_assistant_response := None, al_streaming_first_line := True\<rparr>) a)"
| "ik_repl_stream_callback E (IK_STREAM_TEXT_DELTA i t) a =
     (case t of None \<Rightarrow> Inr a | Some chunk \<Rightarrow> ik_repl_handle_text_delta E chunk a)"
| "ik_repl_stream_callback E (IK_STREAM_DONE f u) a =
     Inr (on_llm (\<lambda>l. l\<lparr>al_response_input_tokens := us_input_tokens u,
       al_response_output_tokens := us_output_tokens u, al_response_thinking_tokens := us_thinking_tokens u\<rparr>) a)"
| "ik_repl_stream_callback E (IK_STREAM_ERROR cat m) a =
     (case m of None \<Rightarrow> Inr a | Some t \<Rightarrow> Inr (on_llm (\<lambda>l. l\<lparr>al_http_error_message := Some t\<rparr>) a))"
| "ik_repl_stream_callback E _ a = Inr a"

definition had_response_content :: "ik_agent_ctx \<Rightarrow> bool" where
  "had_response_content a =
     (case al_assistant_response (ac_llm a) of None \<Rightarrow> False
      | Some r \<Rightarrow> list_ex (\<lambda>c. c \<noteq> 0x20 \<and> c \<noteq> 9 \<and> c \<noteq> 10 \<and> c \<noteq> 13) r)"

definition flush_buffer :: "ik_env \<Rightarrow> ik_agent_ctx \<Rightarrow> ik_agent_ctx res" where
  "flush_buffer E a =
     (case al_streaming_line_buffer (ac_llm a) of None \<Rightarrow> Inr a
      | Some buf \<Rightarrow> res_bind (append_line E (line_prefix a @ buf) a)
          (\<lambda>a'. Inr (on_llm (\<lambda>l. l\<lparr>al_streaming_line_buffer := None, al_streaming_first_line := False\<rparr>) a')))"

definition ik_repl_completion_callback :: "ik_env \<Rightarrow> ik_provider_completion \<Rightarrow> ik_agent_ctx \<Rightarrow> ik_agent_ctx res" where
  "ik_repl_completion_callback E co a =
     res_bind (flush_buffer E a) (\<lambda>a1.
     res_bind (if had_response_content a then append_line E [] a1 else Inr a1) (\<lambda>a2.
       let a3 = on_llm (\<lambda>l. l\<lparr>al_http_error_message := (if co_success co then None else co_error_message co)\<rparr>) a2
       in if co_success co then
            (case co_response co of None \<Rightarrow> Inr a3
             | Some r \<Rightarrow> res_bind (ik_repl_render_usage_event E (ik_repl_store_response_metadata r a3))
                           (ik_repl_extract_tool_calls r))
          else Inr a3))"

subsection \<open>repl.c: the tool loop\<close>

definition ik_agent_should_continue_tool_loop :: "ik_env \<Rightarrow> ik_agent_ctx \<Rightarrow> bool" where
  "ik_agent_should_continue_tool_loop E a =
     (case al_response_finish_reason (ac_llm a) of None \<Rightarrow> False
      | Some r \<Rightarrow> r = ''tool_use''
          \<and> (case en_max_tool_turns E of None \<Rightarrow> True | Some n \<Rightarrow> \<not> at_tool_iteration_count (ac_tool a) \<ge> n))"

subsection \<open>Starting a request: repl_tool_completion.c and repl_actions_llm.c\<close>

definition request_failed :: "ik_env \<Rightarrow> cstr \<Rightarrow> ik_agent_ctx \<Rightarrow> ik_agent_ctx res" where
  "request_failed E err_msg a = res_bind (append_line E err_msg a) ik_agent_transition_to_idle"

definition ik_repl_submit_tool_loop_continuation :: "ik_env \<Rightarrow> ik_agent_ctx \<Rightarrow> ik_agent_ctx res" where
  "ik_repl_submit_tool_loop_continuation E a =
     (case ik_agent_get_provider E a of
        (a1, Some err_msg) \<Rightarrow> request_failed E err_msg a1
      | (a1, None) \<Rightarrow>
         (case en_build_error E a1 of Some err_msg \<Rightarrow> request_failed E err_msg a1
          | None \<Rightarrow>
             (case en_start_error E a1 of Some err_msg \<Rightarrow> request_failed E err_msg a1
              | None \<Rightarrow> Inr (emit Start_Stream (on_llm (\<lambda>l. l\<lparr>al_curl_still_running := 1\<rparr>) a1)))))"

definition add_turn :: "ik_agent_ctx \<Rightarrow> ik_agent_ctx res" where
  "add_turn a =
     (case al_token_cache (ac_llm a) of None \<Rightarrow> Inr a
      | Some c \<Rightarrow> res_bind (ik_token_cache_add_turn c) (\<lambda>c'. Inr (on_llm (\<lambda>l. l\<lparr>al_token_cache := Some c'\<rparr>) a)))"

text \<open>The end of the function, from the provider on, is that of the continuation of the tool loop.\<close>

definition send_to_llm_for_agent :: "ik_env \<Rightarrow> int \<Rightarrow> cstr \<Rightarrow> ik_agent_ctx \<Rightarrow> ik_agent_ctx res" where
  "send_to_llm_for_agent E now_ms message_text a =
     (if ac_model a = None \<or> ac_model a = Some [] then append_line E (bytes_of ''Error: No model configured'') a
      else
        res_bind (add_turn (ik_agent_add_message (ik_message_create_text IK_ROLE_USER message_text) a)) (\<lambda>a1.
        let a2 = (if persists E then emit (Db_Message ''user'' (Some message_text) (Some (en_user_data E))) a1 else a1);
            a3 = on_llm (\<lambda>l. l\<lparr>al_assistant_response := None, al_streaming_line_buffer := None\<rparr>) a2;
            a4 = on_tool (\<lambda>t. t\<lparr>at_tool_iteration_count := 0\<rparr>) a3;
            a5 = (if en_db E then emit (Db_Set_Idle False) a4 else a4)
        in res_bind (ik_agent_transition_to_waiting_for_llm now_ms a5) (ik_repl_submit_tool_loop_continuation E)))"

subsection \<open>repl_tool.c\<close>

definition ik_agent_start_tool_execution :: "ik_env \<Rightarrow> ik_agent_ctx \<Rightarrow> ik_agent_ctx res" where
  "ik_agent_start_tool_execution E a =
     (case at_pending_tool_call (ac_tool a) of None \<Rightarrow> Inl AssertFail
      | Some tc \<Rightarrow>
         check_assert (\<not> at_tool_thread_running (ac_tool a))
           (ik_agent_transition_to_executing_tool
             (on_tool (\<lambda>t. t\<lparr>at_pending_on_complete :=
                               (case en_on_complete E (call_name tc) of None \<Rightarrow> None | Some h \<Rightarrow> Some (call_name tc)),
                             at_tool_thread_complete := False, at_tool_thread_running := True\<rparr>) a)))"

text \<open>The thread of a tool: it stores the result and signals completion. The process of an external tool is
  recorded as soon as it runs.\<close>

definition tool_child_started :: "int \<Rightarrow> ik_agent_ctx \<Rightarrow> ik_agent_ctx" where
  "tool_child_started pid = on_tool (\<lambda>t. t\<lparr>at_tool_child_pid := pid\<rparr>)"

definition tool_thread_worker :: "cstr \<Rightarrow> ik_agent_ctx \<Rightarrow> ik_agent_ctx" where
  "tool_thread_worker result_json =
     on_tool (\<lambda>t. t\<lparr>at_tool_thread_result := Some result_json, at_tool_thread_complete := True\<rparr>)"

definition tool_thread_reset :: "ik_agent_ctx \<Rightarrow> ik_agent_ctx" where
  "tool_thread_reset =
     on_tool (\<lambda>t. t\<lparr>at_tool_thread_running := False, at_tool_thread_complete := False,
       at_tool_thread_result := None, at_tool_child_pid := 0\<rparr>)"

definition persist_tool :: "ik_env \<Rightarrow> ik_tool_call \<Rightarrow> cstr \<Rightarrow> ik_agent_ctx \<Rightarrow> ik_agent_ctx res" where
  "persist_tool E tc result_json a =
     (if persists E then
        res_bind (ik_build_tool_call_data_json (en_writer E) tc (at_pending_thinking_text (ac_tool a))
                    (at_pending_thinking_signature (ac_tool a)) (at_pending_redacted_data (ac_tool a))) (\<lambda>call_data.
        res_bind (ik_build_tool_result_data_json (en_json E) (en_writer E) (call_id tc) (call_name tc) result_json)
          (\<lambda>result_data.
             Inr (emit (Db_Message ''tool_result'' (Some (en_format_tool_result E (call_name tc) result_json)) (Some result_data))
                   (emit (Db_Message ''tool_call'' (Some (en_format_tool_call E tc)) (Some call_data)) a))))
      else Inr a)"

definition ik_agent_complete_tool_execution :: "ik_env \<Rightarrow> ik_agent_ctx \<Rightarrow> ik_agent_ctx res" where
  "ik_agent_complete_tool_execution E a =
     check_assert (at_tool_thread_running (ac_tool a)) (check_assert (at_tool_thread_complete (ac_tool a))
       (case (at_pending_tool_call (ac_tool a), at_tool_thread_result (ac_tool a)) of
          (Some tc, Some result_json) \<Rightarrow>
            (let t = ac_tool a;
                 tc_msg = ik_message_create_tool_call_with_thinking (at_pending_thinking_text t)
                   (at_pending_thinking_signature t) (at_pending_redacted_data t) (call_id tc) (call_name tc)
                   (call_arguments tc) (at_pending_tool_thought_signature t);
                 result_msg = ik_message_create_tool_result (call_id tc) result_json False
             in res_bind (persist_tool E tc result_json a) (\<lambda>a1.
                let a2 = on_tool (\<lambda>t. t\<lparr>at_pending_thinking_text := None, at_pending_thinking_signature := None,
                           at_pending_redacted_data := None\<rparr>) a1;
                    a3 = ik_agent_add_message result_msg (ik_agent_add_message tc_msg a2)
                in res_bind (on_scrollback (render_event E ''tool_call'' (Some (en_format_tool_call E tc)) (Some [0x7B, 0x7D]) False) a3)
                  (\<lambda>a4. res_bind (on_scrollback (render_event E ''tool_result'' (Some (en_format_tool_result E (call_name tc) result_json))
                                    (Some [0x7B, 0x7D]) False) a4)
                  (\<lambda>a5. ik_agent_transition_from_executing_tool
                          (tool_thread_reset (on_tool (\<lambda>t. t\<lparr>at_pending_tool_call := None\<rparr>) a5))))))
        | (None, _) \<Rightarrow> Inl MemFault
        | (_, None) \<Rightarrow> Inl AssertFail))"

subsection \<open>repl_actions.c: interrupting\<close>

definition SIGTERM :: nat where "SIGTERM = 15"

definition SIGKILL :: nat where "SIGKILL = 9"

text \<open>The wait for the end of the process group: \<open>polls k\<close> is the answer of the \<open>k\<close>-th \<^verbatim>\<open>waitpid\<close>.\<close>

function wait_loop :: "int \<Rightarrow> (nat \<Rightarrow> int) \<Rightarrow> nat \<Rightarrow> bool" where
  "wait_loop child_pid polls elapsed_ms =
     (if elapsed_ms < 2000
      then (let result = polls (elapsed_ms div 100)
            in if result = child_pid \<or> result = - 1 then True else wait_loop child_pid polls (elapsed_ms + 100))
      else False)"
  by pat_completeness auto
termination
  by (relation "measure (\<lambda>(c, p, e). 2000 - e)") auto

declare wait_loop.simps [simp del]

definition ik_repl_handle_interrupt_request :: "(nat \<Rightarrow> int) \<Rightarrow> ik_agent_ctx \<Rightarrow> ik_agent_ctx" where
  "ik_repl_handle_interrupt_request polls a =
     (if ac_state a = IK_AGENT_STATE_IDLE then a
      else (let a1 = a\<lparr>ac_interrupt_requested := True\<rparr>
            in if ac_state a = IK_AGENT_STATE_WAITING_FOR_LLM
               then (if ac_provider_instance a = Some True then emit Cancel_Provider a1 else a1)
               else (let child_pid = at_tool_child_pid (ac_tool a)
                     in if child_pid > 0
                        then (let a2 = emit (Kill_Group child_pid SIGTERM) a1
                              in if wait_loop child_pid polls 0 then a2 else emit (Kill_Group child_pid SIGKILL) a2)
                        else a1)))"

subsection \<open>Interrupted turns: repl_tool_completion.c and repl_event_handlers.c\<close>

fun find_turn_start :: "ik_message list \<Rightarrow> nat \<Rightarrow> nat option" where
  "find_turn_start msgs 0 = None"
| "find_turn_start msgs (Suc i) =
     (if msg_role (msgs ! i) = IK_ROLE_USER then Some i else find_turn_start msgs i)"

definition mark_interrupted :: "ik_message list \<Rightarrow> ik_message list" where
  "mark_interrupted msgs =
     (case find_turn_start msgs (length msgs) of None \<Rightarrow> msgs
      | Some turn_start \<Rightarrow> take turn_start msgs @ map (\<lambda>m. m\<lparr>msg_interrupted := True\<rparr>) (drop turn_start msgs))"

fun render_messages :: "ik_env \<Rightarrow> ik_message list \<Rightarrow> ik_scrollback \<Rightarrow> ik_scrollback res" where
  "render_messages E [] sb = Inr sb"
| "render_messages E (m # ms) sb = res_bind (render_message E m sb) (render_messages E ms)"

text \<open>Both handlers mark the messages of the turn and show the conversation again.\<close>

definition interrupt_turn :: "ik_env \<Rightarrow> ik_agent_ctx \<Rightarrow> ik_agent_ctx res" where
  "interrupt_turn E a =
     (let msgs = mark_interrupted (al_messages (ac_llm a));
          a1 = on_llm (\<lambda>l. l\<lparr>al_messages := msgs\<rparr>) a
      in res_bind (on_scrollback (\<lambda>sb. render_messages E msgs (ik_scrollback_clear sb)) a1)
           (\<lambda>a2. ik_agent_transition_to_idle (if persists E then emit (Db_Message ''interrupted'' None None) a2 else a2)))"

definition run_on_complete :: "ik_env \<Rightarrow> ik_agent_ctx \<Rightarrow> ik_agent_ctx" where
  "run_on_complete E a =
     (case at_pending_on_complete (ac_tool a) of None \<Rightarrow> a
      | Some name \<Rightarrow> (case en_on_complete E name of None \<Rightarrow> a
         | Some hook \<Rightarrow> on_tool (\<lambda>t. t\<lparr>at_pending_on_complete := None\<rparr>) (hook a)))"

definition ik_repl_handle_interrupted_tool_completion :: "ik_env \<Rightarrow> ik_agent_ctx \<Rightarrow> ik_agent_ctx res" where
  "ik_repl_handle_interrupted_tool_completion E a =
     (let a1 = a\<lparr>ac_interrupt_requested := False\<rparr>
      in if at_pending_tool_call (ac_tool a1) = None then
           res_bind (ik_agent_transition_from_executing_tool (tool_thread_reset a1))
             (\<lambda>a2. ik_agent_transition_to_idle (run_on_complete E a2))
         else
           res_bind (ik_agent_transition_from_executing_tool
                       (tool_thread_reset (on_tool (\<lambda>t. t\<lparr>at_pending_tool_call := None\<rparr>) a1)))
             (interrupt_turn E))"

definition ik_repl_handle_agent_tool_completion :: "ik_env \<Rightarrow> ik_agent_ctx \<Rightarrow> ik_agent_ctx res" where
  "ik_repl_handle_agent_tool_completion E a =
     res_bind (if at_pending_tool_call (ac_tool a) \<noteq> None then ik_agent_complete_tool_execution E a
               else ik_agent_transition_from_executing_tool (tool_thread_reset a))
       (\<lambda>a1. let a2 = run_on_complete E a1
             in if ik_agent_should_continue_tool_loop E a2
                then ik_repl_submit_tool_loop_continuation E
                       (on_tool (\<lambda>t. t\<lparr>at_tool_iteration_count := at_tool_iteration_count t + 1\<rparr>) a2)
                else ik_agent_transition_to_idle a2)"

definition poll_tool_completion :: "ik_env \<Rightarrow> ik_agent_ctx \<Rightarrow> ik_agent_ctx res" where
  "poll_tool_completion E a =
     (if ac_state a = IK_AGENT_STATE_EXECUTING_TOOL \<and> at_tool_thread_complete (ac_tool a) then
        (if ac_interrupt_requested a then ik_repl_handle_interrupted_tool_completion E a
         else ik_repl_handle_agent_tool_completion E a)
      else Inr a)"

subsection \<open>repl_event_handlers.c: the end of a request\<close>

definition mark_idle_and_notify :: "ik_env \<Rightarrow> ik_agent_ctx \<Rightarrow> ik_agent_ctx" where
  "mark_idle_and_notify E a = (if en_db E then emit Db_Notify_Idle (emit (Db_Set_Idle True) a) else a)"

text \<open>A member of the hand written JSON object, after a comma unless it is the first.\<close>

definition json_text_member :: "string \<Rightarrow> cstr \<Rightarrow> cstr \<Rightarrow> cstr" where
  "json_text_member key v acc =
     acc @ (if acc = [0x7B] then [] else [0x2C]) @ quoted key @ [0x3A, 0x22] @ v @ [0x22]"

definition thinking_level_str :: "int \<Rightarrow> string" where
  "thinking_level_str level =
     (if level \<le> 3 then [''unknown'', ''low'', ''med'', ''high''] ! nat level else ''unknown'')"

definition assistant_data :: "ik_agent_ctx \<Rightarrow> cstr" where
  "assistant_data a =
     (let add = (\<lambda>key v acc. case v of None \<Rightarrow> acc | Some s \<Rightarrow> json_text_member key s acc);
          j1 = add ''provider'' (ac_provider a) [0x7B];
          j2 = add ''model'' (al_response_model (ac_llm a)) j1;
          j3 = (if ac_thinking_level a > 0
                then json_text_member ''thinking_level'' (bytes_of (thinking_level_str (ac_thinking_level a))) j2 else j2);
          j4 = add ''finish_reason'' (map_option bytes_of (al_response_finish_reason (ac_llm a))) j3
      in j4 @ [0x7D])"

definition persist_assistant_msg :: "ik_env \<Rightarrow> ik_agent_ctx \<Rightarrow> ik_agent_ctx res" where
  "persist_assistant_msg E a =
     (if \<not> persists E then Inr a
      else (let a1 = emit (Db_Message ''assistant'' (al_assistant_response (ac_llm a)) (Some (assistant_data a))) a
            in res_bind (response_total a1) (\<lambda>total_tok.
                 Inr (if total_tok > 0 then emit (Db_Message ''usage'' None (Some (usage_json a1))) a1 else a1))))"

definition clear_response :: "ik_agent_ctx \<Rightarrow> ik_agent_ctx" where
  "clear_response = on_llm (\<lambda>l. l\<lparr>al_assistant_response := None\<rparr>)"

definition handle_agent_request_error :: "ik_env \<Rightarrow> ik_agent_ctx \<Rightarrow> ik_agent_ctx res" where
  "handle_agent_request_error E a =
     (case al_http_error_message (ac_llm a) of None \<Rightarrow> Inl MemFault
      | Some m \<Rightarrow> res_bind (append_line E (bytes_of ''Error: '' @ m) a)
          (\<lambda>a1. Inr (clear_response (on_llm (\<lambda>l. l\<lparr>al_http_error_message := None\<rparr>) a1))))"

definition ik_repl_handle_agent_request_success :: "ik_env \<Rightarrow> ik_agent_ctx \<Rightarrow> ik_agent_ctx res" where
  "ik_repl_handle_agent_request_success E a =
     res_bind (case al_assistant_response (ac_llm a) of None \<Rightarrow> Inr a
               | Some r \<Rightarrow> if r \<noteq> [] then persist_assistant_msg E (ik_agent_add_message (ik_message_create_text IK_ROLE_ASSISTANT r) a)
                           else Inr a)
       (\<lambda>a1. let a2 = clear_response a1
             in if at_pending_tool_call (ac_tool a2) \<noteq> None then ik_agent_start_tool_execution E a2
                else if ik_agent_should_continue_tool_loop E a2
                then ik_repl_submit_tool_loop_continuation E
                       (on_tool (\<lambda>t. t\<lparr>at_tool_iteration_count := at_tool_iteration_count t + 1\<rparr>) a2)
                else Inr a2)"

definition ik_repl_handle_interrupted_llm_completion :: "ik_env \<Rightarrow> ik_agent_ctx \<Rightarrow> ik_agent_ctx res" where
  "ik_repl_handle_interrupted_llm_completion E a =
     res_bind (interrupt_turn E
       (clear_response (on_llm (\<lambda>l. l\<lparr>al_http_error_message := None\<rparr>) (a\<lparr>ac_interrupt_requested := False\<rparr>))))
       (\<lambda>a1. Inr (mark_idle_and_notify E a1))"

datatype provider_event = Stream_Event ik_stream_event | Completion_Event ik_provider_completion

fun run_callbacks :: "ik_env \<Rightarrow> provider_event list \<Rightarrow> ik_agent_ctx \<Rightarrow> ik_agent_ctx res" where
  "run_callbacks E [] a = Inr a"
| "run_callbacks E (Stream_Event ev # evs) a = res_bind (ik_repl_stream_callback E ev a) (run_callbacks E evs)"
| "run_callbacks E (Completion_Event co # evs) a = res_bind (ik_repl_completion_callback E co a) (run_callbacks E evs)"

record ik_perform =
  pf_callbacks :: "provider_event list"
  pf_still_running :: int
  pf_error :: "err_code option"

text \<open>The part after the last transfer has ended, for a waiting agent.\<close>

definition request_finished :: "ik_env \<Rightarrow> ik_agent_ctx \<Rightarrow> ik_agent_ctx res" where
  "request_finished E a =
     (if ac_interrupt_requested a then ik_repl_handle_interrupted_llm_completion E a
      else (let was_success = (al_http_error_message (ac_llm a) = None)
            in res_bind (if \<not> was_success then handle_agent_request_error E a
                         else ik_repl_handle_agent_request_success E a)
                 (\<lambda>a2. if ac_state a2 = IK_AGENT_STATE_WAITING_FOR_LLM
                       then res_bind (ik_agent_record_and_prune_token_cache E was_success a2)
                              (\<lambda>a3. res_bind (ik_agent_transition_to_idle a3) (\<lambda>a4. Inr (mark_idle_and_notify E a4)))
                       else Inr a2)))"

definition process_agent_curl_events :: "ik_env \<Rightarrow> ik_perform \<Rightarrow> ik_agent_ctx \<Rightarrow> ik_agent_ctx res" where
  "process_agent_curl_events E P a =
     (if al_curl_still_running (ac_llm a) = 0 \<or> ac_provider_instance a = None then Inr a
      else res_bind (case pf_error P of Some e \<Rightarrow> Inl (Err e) | None \<Rightarrow> run_callbacks E (pf_callbacks P) a) (\<lambda>a0.
        let a1 = on_llm (\<lambda>l. l\<lparr>al_curl_still_running := pf_still_running P\<rparr>) a0
        in if pf_still_running P \<noteq> 0 \<or> ac_state a1 \<noteq> IK_AGENT_STATE_WAITING_FOR_LLM then Inr a1
           else request_finished E a1))"

end
