(* ===== verification/Ik_Turn_Safety.thy ===== *)
theory Ik_Turn_Safety
  imports Ik_Turn
begin

text \<open>
  The turn as a state machine. \<open>turn_step\<close> is what happens to an agent in one event: the user sends a text or
  interrupts, the network delivers, the thread of a tool starts a process or ends, the loop polls for the
  end of a tool. \<open>turn_reachable\<close> are the states that sequences of such events lead to, in an environment
  that may be another one at every step. The invariant \<open>turn_inv\<close> says that the scrollback, the
  conversation and the token cache are well formed, that a tool thread runs exactly in the state in which
  a tool is executed, and that a waiting agent has a request in flight.
\<close>

subsection \<open>Events\<close>

datatype turn_event =
    Send int cstr
  | Interrupt "nat \<Rightarrow> int"
  | Network ik_perform
  | Tool_Child int
  | Tool_Done cstr
  | Poll

fun turn_step :: "ik_env \<Rightarrow> turn_event \<Rightarrow> ik_agent_ctx \<Rightarrow> ik_agent_ctx res" where
  "turn_step E (Send now_ms t) a = send_to_llm_for_agent E now_ms t a"
| "turn_step E (Interrupt polls) a = Inr (ik_repl_handle_interrupt_request polls a)"
| "turn_step E (Network P) a = process_agent_curl_events E P a"
| "turn_step E (Tool_Child pid) a = Inr (tool_child_started pid a)"
| "turn_step E (Tool_Done r) a = Inr (tool_thread_worker r a)"
| "turn_step E Poll a = poll_tool_completion E a"

text \<open>A tool call of a response has its three strings.\<close>

fun block_ok :: "ik_content_block \<Rightarrow> bool" where
  "block_ok (CONTENT_TOOL_CALL i n a g) \<longleftrightarrow> i \<noteq> None \<and> n \<noteq> None \<and> a \<noteq> None"
| "block_ok _ \<longleftrightarrow> True"

fun provider_event_ok :: "provider_event \<Rightarrow> bool" where
  "provider_event_ok (Stream_Event ev) \<longleftrightarrow> True"
| "provider_event_ok (Completion_Event co) \<longleftrightarrow>
     (case co_response co of None \<Rightarrow> True | Some r \<Rightarrow> list_all block_ok (rs_content_blocks r))"

text \<open>When an event can happen: a text is sent while the agent is idle (or has no model), the network makes no
  error of its own, and a thread ends where one is running.\<close>

fun enabled :: "turn_event \<Rightarrow> ik_agent_ctx \<Rightarrow> bool" where
  "enabled (Send now_ms t) a \<longleftrightarrow> ac_state a = IK_AGENT_STATE_IDLE \<or> ac_model a = None \<or> ac_model a = Some []"
| "enabled (Network P) a \<longleftrightarrow> pf_error P = None \<and> list_all provider_event_ok (pf_callbacks P)"
| "enabled (Tool_Done r) a \<longleftrightarrow> at_tool_thread_running (ac_tool a)"
| "enabled _ a \<longleftrightarrow> True"

subsection \<open>Invariant\<close>

definition sb_ok :: "utf8proc \<Rightarrow> ik_agent_ctx \<Rightarrow> bool" where
  "sb_ok U a \<longleftrightarrow> (\<exists>lines. sb_repr U (ac_scrollback a) lines)"

definition talk_ok :: "ik_agent_llm \<Rightarrow> bool" where
  "talk_ok l \<longleftrightarrow> (\<forall>m\<in>set (al_messages l). msg_blocks m \<noteq> [])
     \<and> (case al_token_cache l of None \<Rightarrow> True | Some c \<Rightarrow> cache_wf c)"

definition thread_ok :: "ik_agent_state \<Rightarrow> ik_agent_tool \<Rightarrow> bool" where
  "thread_ok st t \<longleftrightarrow> (at_tool_thread_running t \<longleftrightarrow> st = IK_AGENT_STATE_EXECUTING_TOOL)
     \<and> (at_tool_thread_complete t \<longrightarrow> at_tool_thread_running t \<and> at_tool_thread_result t \<noteq> None)"

definition base_inv :: "utf8proc \<Rightarrow> ik_agent_ctx \<Rightarrow> bool" where
  "base_inv U a \<longleftrightarrow> sb_ok U a \<and> talk_ok (ac_llm a) \<and> thread_ok (ac_state a) (ac_tool a)"

definition turn_inv :: "utf8proc \<Rightarrow> ik_agent_ctx \<Rightarrow> bool" where
  "turn_inv U a \<longleftrightarrow> base_inv U a
     \<and> (ac_state a = IK_AGENT_STATE_WAITING_FOR_LLM \<longrightarrow>
          al_curl_still_running (ac_llm a) \<noteq> 0 \<and> ac_provider_instance a \<noteq> None)"

text \<open>What the environment is assumed to do: where messages are stored, the writer of JSON succeeds, and the
  hook of a tool keeps the agent well formed and its state.\<close>

definition env_ok :: "utf8proc \<Rightarrow> ik_env \<Rightarrow> bool" where
  "env_ok U E \<longleftrightarrow> en_utf8proc E = U \<and> (persists E \<longrightarrow> (\<forall>d. en_writer E d \<noteq> None))
     \<and> (\<forall>name hook a. en_on_complete E name = Some hook \<longrightarrow> base_inv U a \<longrightarrow>
          base_inv U (hook a) \<and> ac_state (hook a) = ac_state a)"

lemmas turn_simps = on_llm_def on_tool_def emit_def base_inv_def sb_ok_def

lemma env_utf8proc: "env_ok U E \<Longrightarrow> en_utf8proc E = U"
  by (simp add: env_ok_def)

subsection \<open>The scrollback\<close>

text \<open>An operation that changes nothing but the scrollback, and keeps it well formed.\<close>

definition redraws :: "utf8proc \<Rightarrow> ik_agent_ctx \<Rightarrow> ik_agent_ctx \<Rightarrow> bool" where
  "redraws U a a' \<longleftrightarrow> (\<exists>sb lines. a' = a\<lparr>ac_scrollback := sb\<rparr> \<and> sb_repr U sb lines)"

definition sb_safe :: "utf8proc \<Rightarrow> (ik_scrollback \<Rightarrow> ik_scrollback res) \<Rightarrow> bool" where
  "sb_safe U f \<longleftrightarrow> (\<forall>sb lines. sb_repr U sb lines \<longrightarrow> safe (f sb) (\<lambda>sb'. \<exists>lines'. sb_repr U sb' lines'))"

lemma sb_safeD: "sb_safe U f \<Longrightarrow> sb_repr U sb lines \<Longrightarrow> safe (f sb) (\<lambda>sb'. \<exists>lines'. sb_repr U sb' lines')"
  by (auto simp: sb_safe_def)

lemma sb_safe_Inr: "sb_safe U Inr"
  by (auto simp: sb_safe_def)

lemma sb_safe_bind: "sb_safe U f \<Longrightarrow> sb_safe U g \<Longrightarrow> sb_safe U (\<lambda>sb. res_bind (f sb) g)"
  unfolding sb_safe_def by (intro allI impI, rule safe_bind [where Q = "\<lambda>sb. \<exists>lines. sb_repr U sb lines"]) auto

lemma sb_safe_if: "sb_safe U f \<Longrightarrow> sb_safe U g \<Longrightarrow> sb_safe U (\<lambda>sb. if b then f sb else g sb)"
  by (cases b) simp_all

lemma sb_safe_append: "sb_safe U (\<lambda>sb. ik_scrollback_append_line U sb t)"
  unfolding sb_safe_def
proof (intro allI impI)
  fix sb lines
  assume "sb_repr U sb lines"
  from append_line_repr [OF this, of t]
  show "safe (ik_scrollback_append_line U sb t) (\<lambda>sb'. \<exists>lines'. sb_repr U sb' lines')"
    by (auto elim!: returnsE)
qed

lemma sb_safe_clear: "sb_safe U f \<Longrightarrow> sb_safe U (\<lambda>sb. f (ik_scrollback_clear sb))"
  using clear_repr by (fastforce simp: sb_safe_def)

lemma on_scrollback_safe:
  assumes "sb_safe U f" and "sb_ok U a"
  shows "safe (on_scrollback f a) (redraws U a)"
proof -
  obtain lines where "sb_repr U (ac_scrollback a) lines" using assms(2) by (auto simp: sb_ok_def)
  from sb_safeD [OF assms(1) this] show ?thesis
    by (cases "f (ac_scrollback a)") (auto simp: on_scrollback_def redraws_def)
qed

lemma sb_safe_spaced: "sb_safe U (\<lambda>sb. append_spaced U sb t)"
  using sb_safe_bind [OF sb_safe_append [of U t] sb_safe_append [of U "[]"]] by (simp add: append_spaced_def [abs_def])

lemma sb_safe_content: "sb_safe U (\<lambda>sb. render_content_event U colors sb content color prefix)"
  by (cases content) (simp_all add: render_content_event_def [abs_def] Let_def sb_safe_Inr sb_safe_if sb_safe_spaced)

lemma sb_safe_safe: "safe m P \<Longrightarrow> (\<And>x. sb_safe U (g x)) \<Longrightarrow> sb_safe U (\<lambda>sb. res_bind m (\<lambda>x. g x sb))"
  by (cases m) (simp_all add: sb_safe_def)

lemma safe_token_line: "safe (token_line i j k n) (\<lambda>_. True)"
  by (auto simp: token_line_def intro: safe_bind [OF safe_add32])

lemma sb_safe_usage: "sb_safe U (\<lambda>sb. render_token_usage U J colors sb data_json)"
proof (cases "data_json")
  case (Some d)
  show ?thesis
  proof (cases "J d")
    case (Some v)
    show ?thesis
      unfolding render_token_usage_def \<open>data_json = Some d\<close> option.case Some Let_def
      by (intro sb_safe_safe [OF safe_add32] sb_safe_if sb_safe_Inr sb_safe_safe [OF safe_token_line] sb_safe_append)
  qed (use Some sb_safe_Inr in \<open>simp add: render_token_usage_def [abs_def]\<close>)
qed (use sb_safe_Inr in \<open>simp add: render_token_usage_def [abs_def]\<close>)

lemma render_event_safe:
  assumes "env_ok U E" and "kind \<in> {''user'', ''assistant'', ''tool_call'', ''tool_result'', ''usage''}"
  shows "sb_safe U (render_event E kind content data_json i)"
proof -
  have u: "sb_safe U (\<lambda>sb. res_bind (render_token_usage U J colors sb d) (\<lambda>sb'. ik_scrollback_append_line U sb' []))"
    for J colors d by (rule sb_safe_bind [OF sb_safe_usage sb_safe_append])
  show ?thesis
    using assms(2) u sb_safe_content [of U]
    by (cases "event_style kind i") (auto simp: render_event_def [abs_def] ik_event_render_def env_utf8proc [OF assms(1)])
qed

lemma append_line_safe: "env_ok U E \<Longrightarrow> sb_ok U a \<Longrightarrow> safe (append_line E t a) (redraws U a)"
  unfolding append_line_def by (rule on_scrollback_safe) (simp_all add: env_utf8proc sb_safe_append)

lemma message_event_kind: "message_event r bs = Some (kind, c) \<Longrightarrow> kind \<in> {''user'', ''assistant'', ''tool_result''}"
  by (cases "(r, bs)" rule: message_event.cases) auto

lemma render_message_safe: "env_ok U E \<Longrightarrow> sb_safe U (render_message E m)"
proof (cases "message_event (msg_role m) (msg_blocks m)")
  case (Some p)
  then show "env_ok U E \<Longrightarrow> sb_safe U (render_message E m)"
    using message_event_kind [of "msg_role m" "msg_blocks m" "fst p" "snd p"]
      render_event_safe [of U E "fst p"]
    by (cases p) (auto simp: render_message_def [abs_def])
qed (simp add: render_message_def [abs_def] sb_safe_Inr)

lemma render_messages_safe: "env_ok U E \<Longrightarrow> sb_safe U (render_messages E ms)"
  by (induction ms) (simp_all add: sb_safe_def sb_safe_bind [unfolded sb_safe_def] render_message_safe [unfolded sb_safe_def])

lemma context_hr_safe: "env_ok U E \<Longrightarrow> sb_safe U (append_context_hr E)"
  unfolding append_context_hr_def [abs_def]
  by (simp add: env_utf8proc) (intro sb_safe_bind sb_safe_append)

lemma refresh_loop_safe: "env_ok U E \<Longrightarrow> sb_safe U (refresh_loop E n i ms)"
proof (induction ms arbitrary: i)
  case (Cons m ms)
  have "sb_safe U (\<lambda>sb. res_bind (if i = n then append_context_hr E sb else Inr sb)
      (\<lambda>sb1. res_bind (render_message E m sb1) (refresh_loop E n (i + 1) ms)))"
    using Cons context_hr_safe [of U E] sb_safe_Inr [of U]
    by (intro sb_safe_bind [OF _ sb_safe_bind] sb_safe_if sb_safe_Inr render_message_safe) auto
  then show ?case by (simp add: sb_safe_def)
qed (auto simp: sb_safe_def)

subsection \<open>The callbacks\<close>

text \<open>The fields that steer the machine, and an operation that leaves them as they are.\<close>

definition ctl :: "ik_agent_ctx \<Rightarrow> ik_agent_state \<times> bool option \<times> bool \<times> bool \<times> bool \<times> cstr option \<times> int" where
  "ctl a = (ac_state a, ac_provider_instance a, ac_interrupt_requested a, at_tool_thread_running (ac_tool a),
     at_tool_thread_complete (ac_tool a), at_tool_thread_result (ac_tool a), al_curl_still_running (ac_llm a))"

definition calm :: "utf8proc \<Rightarrow> ik_agent_ctx \<Rightarrow> ik_agent_ctx \<Rightarrow> bool" where
  "calm U a0 a \<longleftrightarrow> base_inv U a \<and> ctl a = ctl a0"

lemma calmI: "calm U a0 a \<Longrightarrow> ctl a' = ctl a \<Longrightarrow> (base_inv U a \<Longrightarrow> base_inv U a') \<Longrightarrow> calm U a0 a'"
  by (simp add: calm_def)

lemma calm_llm:
  assumes "calm U a0 a" and "\<And>l. al_messages (f l) = al_messages l" and "\<And>l. al_token_cache (f l) = al_token_cache l"
    and "\<And>l. al_curl_still_running (f l) = al_curl_still_running l"
  shows "calm U a0 (on_llm f a)"
  using assms(1) by (rule calmI) (simp_all add: assms ctl_def turn_simps talk_ok_def)

lemma calm_tool:
  assumes "calm U a0 a" and "at_tool_thread_running (f (ac_tool a)) = at_tool_thread_running (ac_tool a)"
    and "at_tool_thread_complete (f (ac_tool a)) = at_tool_thread_complete (ac_tool a)"
    and "at_tool_thread_result (f (ac_tool a)) = at_tool_thread_result (ac_tool a)"
  shows "calm U a0 (on_tool f a)"
proof -
  have "thread_ok (ac_state a) (f (ac_tool a)) = thread_ok (ac_state a) (ac_tool a)"
    by (simp add: thread_ok_def assms(2-4))
  with assms(1) show ?thesis by (elim calmI) (simp_all add: assms(2-4) ctl_def turn_simps)
qed

lemma calm_emit: "calm U a0 a \<Longrightarrow> calm U a0 (emit e a)"
  by (erule calmI) (simp_all add: ctl_def turn_simps)

lemma redraws_calm: "redraws U a a' \<Longrightarrow> calm U a0 a \<Longrightarrow> calm U a0 a'"
  unfolding redraws_def by (elim exE conjE, erule calmI) (simp_all add: ctl_def turn_simps, blast)

lemma calm_sb_ok: "calm U a0 a \<Longrightarrow> sb_ok U a"
  by (simp add: calm_def base_inv_def)

lemma calm_append_line: "env_ok U E \<Longrightarrow> calm U a0 a \<Longrightarrow> safe (append_line E t a) (calm U a0)"
  by (rule safe_mono [OF append_line_safe]) (auto intro: redraws_calm calm_sb_ok)

lemma calm_on_scrollback: "sb_safe U f \<Longrightarrow> calm U a0 a \<Longrightarrow> safe (on_scrollback f a) (calm U a0)"
  by (rule safe_mono [OF on_scrollback_safe]) (auto intro: redraws_calm calm_sb_ok)

lemma calm_not_first: "calm U a0 a \<Longrightarrow> calm U a0 (not_first a)"
  unfolding not_first_def by (rule calm_llm) simp_all

lemma calm_clear_buffer: "calm U a0 a \<Longrightarrow> calm U a0 (on_llm (\<lambda>l. l\<lparr>al_streaming_line_buffer := b l\<rparr>) a)"
  by (rule calm_llm) simp_all

lemma calm_flush:
  assumes "env_ok U E" and "calm U a0 a"
  shows "safe (ik_repl_flush_line_to_scrollback E seg a) (calm U a0)"
proof -
  note ap = safe_bind [OF calm_append_line [OF assms]]
  show ?thesis
    using assms(2) unfolding ik_repl_flush_line_to_scrollback_def
    by (cases "al_streaming_line_buffer (ac_llm a)") (auto intro!: ap calm_not_first calm_clear_buffer)
qed

lemma calm_delta_loop: "env_ok U E \<Longrightarrow> calm U a0 a \<Longrightarrow> safe (delta_loop E seg cs a) (calm U a0)"
proof (induction cs arbitrary: seg a)
  case Nil
  then show ?case by (simp add: buffer_text_def calm_clear_buffer)
next
  case (Cons c cs)
  then show ?case by (simp add: safe_bind [OF calm_flush])
qed

lemma calm_response: "calm U a0 a \<Longrightarrow> calm U a0 (on_llm (\<lambda>l. l\<lparr>al_assistant_response := r l\<rparr>) a)"
  by (rule calm_llm) simp_all

lemma calm_error: "calm U a0 a \<Longrightarrow> calm U a0 (on_llm (\<lambda>l. l\<lparr>al_http_error_message := r l\<rparr>) a)"
  by (rule calm_llm) simp_all

lemma calm_stream_callback:
  assumes "env_ok U E" and "calm U a0 a"
  shows "safe (ik_repl_stream_callback E ev a) (calm U a0)"
proof (cases ev)
  case (IK_STREAM_TEXT_DELTA i t)
  then show ?thesis
    using assms by (cases t) (simp_all add: ik_repl_handle_text_delta_def calm_delta_loop calm_response)
next
  case (IK_STREAM_ERROR cat m)
  then show ?thesis using assms(2) by (cases m) (simp_all add: calm_error)
qed (simp_all add: assms(2) calm_llm)

lemma extract_loop_ok:
  "list_all block_ok bs \<Longrightarrow> returns (extract_loop bs t) (\<lambda>t'. at_tool_thread_running t' = at_tool_thread_running t
     \<and> at_tool_thread_complete t' = at_tool_thread_complete t \<and> at_tool_thread_result t' = at_tool_thread_result t)"
  by (induction bs t rule: extract_loop.induct) (auto simp: ik_tool_call_create_def)

lemma safe_response_total: "safe (response_total a) (\<lambda>_. True)"
  unfolding response_total_def by (rule safe_bind [OF safe_add32]) (simp add: safe_mono [OF safe_add32])

lemma calm_extract:
  assumes c: "calm U a0 a" and ok: "list_all block_ok (rs_content_blocks r)"
  shows "safe (ik_repl_extract_tool_calls r a) (calm U a0)"
proof -
  have c': "calm U a0 (clear_pending_data a)"
    unfolding clear_pending_data_def using c by (rule calm_tool) simp_all
  obtain t where t: "extract_loop (rs_content_blocks r) (ac_tool (clear_pending_data a)) = Inr t"
    "at_tool_thread_running t = at_tool_thread_running (ac_tool (clear_pending_data a))"
    "at_tool_thread_complete t = at_tool_thread_complete (ac_tool (clear_pending_data a))"
    "at_tool_thread_result t = at_tool_thread_result (ac_tool (clear_pending_data a))"
    using extract_loop_ok [OF ok, of "ac_tool (clear_pending_data a)"] by (auto elim!: returnsE)
  have "calm U a0 (on_tool (\<lambda>_. t) (clear_pending_data a))"
    using c' t(2-4) by (rule calm_tool)
  then show ?thesis by (simp add: ik_repl_extract_tool_calls_def Let_def t(1) on_tool_def)
qed

lemma calm_usage: "env_ok U E \<Longrightarrow> calm U a0 a \<Longrightarrow> safe (ik_repl_render_usage_event E a) (calm U a0)"
  unfolding ik_repl_render_usage_event_def
  by (rule safe_bind [OF safe_response_total])
     (simp add: calm_append_line calm_on_scrollback [OF render_event_safe])

lemma calm_metadata: "calm U a0 a \<Longrightarrow> calm U a0 (ik_repl_store_response_metadata r a)"
  unfolding ik_repl_store_response_metadata_def by (rule calm_llm) simp_all

lemma calm_flush_buffer:
  assumes "env_ok U E" and "calm U a0 a"
  shows "safe (flush_buffer E a) (calm U a0)"
proof (cases "al_streaming_line_buffer (ac_llm a)")
  case (Some buf)
  have "calm U a0 (on_llm (\<lambda>l. l\<lparr>al_streaming_line_buffer := None, al_streaming_first_line := False\<rparr>) a')"
    if "calm U a0 a'" for a'
    using that by (rule calm_llm) simp_all
  then show ?thesis
    using Some by (simp add: flush_buffer_def safe_bind [OF calm_append_line [OF assms]])
qed (simp add: flush_buffer_def assms(2))

lemma calm_completion_callback:
  assumes E: "env_ok U E" and c: "calm U a0 a" and ok: "provider_event_ok (Completion_Event co)"
  shows "safe (ik_repl_completion_callback E co a) (calm U a0)"
  unfolding ik_repl_completion_callback_def Let_def
proof (rule safe_bind [OF calm_flush_buffer [OF E c]], rule safe_bind [where Q = "calm U a0"])
  fix a1 assume "calm U a0 a1"
  then show "safe (if had_response_content a then append_line E [] a1 else Inr a1) (calm U a0)"
    using calm_append_line [OF E] by simp
next
  fix a2 assume "calm U a0 a2"
  then have c3: "calm U a0 (on_llm (\<lambda>l. l\<lparr>al_http_error_message := e\<rparr>) a2)" for e by (rule calm_error)
  show "safe (if co_success co
      then case co_response co of None \<Rightarrow> Inr (on_llm (\<lambda>l. l\<lparr>al_http_error_message := if co_success co then None else co_error_message co\<rparr>) a2)
        | Some r \<Rightarrow> res_bind (ik_repl_render_usage_event E (ik_repl_store_response_metadata r
             (on_llm (\<lambda>l. l\<lparr>al_http_error_message := if co_success co then None else co_error_message co\<rparr>) a2)))
             (ik_repl_extract_tool_calls r)
      else Inr (on_llm (\<lambda>l. l\<lparr>al_http_error_message := if co_success co then None else co_error_message co\<rparr>) a2))
     (calm U a0)"
    using ok c3 by (cases "co_response co")
      (simp_all add: safe_bind [OF calm_usage [OF E calm_metadata [OF c3]]] calm_extract)
qed

lemma calm_callbacks:
  "env_ok U E \<Longrightarrow> calm U a0 a \<Longrightarrow> list_all provider_event_ok evs \<Longrightarrow> safe (run_callbacks E evs a) (calm U a0)"
proof (induction evs arbitrary: a)
  case (Cons ev evs)
  then show ?case
    by (cases ev) (simp_all add: safe_bind [OF calm_stream_callback] safe_bind [OF calm_completion_callback]
      del: provider_event_ok.simps)
qed simp

subsection \<open>The context window\<close>

lemma get_total_wf:
  assumes "agent_ok A" and "cache_wf c"
  shows "safe (ik_token_cache_get_total A c) (\<lambda>(c', v). cache_wf c')"
proof (cases "tc_total_tokens c = - 1")
  case True
  then have "coherent A c" by (simp add: coherent_def)
  from get_total_same [OF assms this] show ?thesis
    by (rule safe_mono) (auto simp: same_values_def)
qed (use assms(2) in \<open>simp add: ik_token_cache_get_total_def\<close>)

lemma prune_wf:
  assumes "cache_wf c" and "tc_turn_count c > 1"
  shows "safe (ik_token_cache_prune_oldest_turn A c) cache_wf"
proof -
  have len: "0 < length (tc_turn_tokens c)" "tc_turn_count c \<le> length (tc_turn_tokens c)"
    using assms by (auto simp: cache_wf_def)
  have s: "safe (map_sum id f (sub32 x y)) (\<lambda>_. True)" for f :: "int \<Rightarrow> int" and x y
    by (simp add: sub32_def)
  show ?thesis
    unfolding ik_token_cache_prune_oldest_turn_def
    using assms len by (auto intro!: safe_bind [OF s] simp: cache_wf_def)
qed

lemma prune_loop_wf: "agent_ok A \<Longrightarrow> cache_wf c \<Longrightarrow> safe (prune_loop A budget c) cache_wf"
proof (induction A budget c rule: prune_loop.induct)
  case (1 A budget c)
  show ?case
  proof (cases "ik_token_cache_get_total A c")
    case (Inl e)
    then show ?thesis using get_total_wf [OF "1.prems"] by (subst prune_loop.simps) simp
  next
    case (Inr p)
    obtain c1 n where p: "p = (c1, n)" by fastforce
    have wf: "cache_wf c1" using get_total_wf [OF "1.prems"] by (simp add: Inr p)
    show ?thesis
    proof (cases "n > budget \<and> tc_turn_count c1 > 1")
      case True
      show ?thesis
      proof (cases "ik_token_cache_prune_oldest_turn A c1")
        case (Inl e)
        then show ?thesis
          using Inr p True prune_wf [OF wf, of A] by (subst prune_loop.simps) simp
      next
        case (Inr c2)
        have "cache_wf c2" using prune_wf [OF wf, of A] True by (simp add: Inr)
        then show ?thesis
          using "1.IH" [OF \<open>ik_token_cache_get_total A c = Inr p\<close> p [symmetric] True Inr "1.prems"(1)]
            \<open>ik_token_cache_get_total A c = Inr p\<close> p True Inr by (subst prune_loop.simps) simp
      qed
    next
      case False
      then show ?thesis using Inr p wf by (subst prune_loop.simps) auto
    qed
  qed
qed

lemma calm_cache:
  assumes "calm U a0 a" and "cache_wf c"
    and "\<And>l. al_messages (f l) = al_messages l" and "\<And>l. al_token_cache (f l) = Some c"
    and "\<And>l. al_curl_still_running (f l) = al_curl_still_running l"
  shows "calm U a0 (on_llm f a)"
  using assms(1) by (rule calmI) (simp_all add: assms(2-5) ctl_def turn_simps talk_ok_def)

lemma calm_view: "calm U a0 a \<Longrightarrow> agent_ok (cache_view E a)"
  by (simp add: calm_def base_inv_def talk_ok_def agent_ok_def cache_view_def)

lemma calm_cache_wf: "calm U a0 a \<Longrightarrow> al_token_cache (ac_llm a) = Some c \<Longrightarrow> cache_wf c"
  by (simp add: calm_def base_inv_def talk_ok_def)

lemma calm_refresh: "env_ok U E \<Longrightarrow> calm U a0 a \<Longrightarrow> safe (refresh_scrollback_with_hr E a) (calm U a0)"
  using calm_on_scrollback [OF sb_safe_clear [OF refresh_loop_safe]]
  by (auto simp: refresh_scrollback_with_hr_def split: option.splits)

lemma calm_prune:
  assumes "env_ok U E" and "calm U a0 a"
  shows "safe (ik_agent_prune_token_cache E a) (calm U a0)"
proof (cases "al_token_cache (ac_llm a)")
  case (Some c)
  have "calm U a0 (on_llm (\<lambda>l. l\<lparr>al_token_cache := Some c'\<rparr>) a)" if "cache_wf c'" for c'
    using assms(2) that by (rule calm_cache) simp_all
  then show ?thesis
    using Some prune_loop_wf [OF calm_view [OF assms(2)] calm_cache_wf [OF assms(2) Some]]
    by (auto simp: ik_agent_prune_token_cache_def intro!: safe_bind calm_refresh [OF assms(1)])
qed (simp add: ik_agent_prune_token_cache_def assms(2))

lemma record_turn_wf:
  assumes "cache_wf c" and "i < tc_turn_count c"
  shows "safe (ik_token_cache_record_turn c i n) cache_wf"
  using assms by (auto simp: ik_token_cache_record_turn_def cache_wf_def)

lemma record_last_wf:
  assumes "calm U a0 a" and "cache_wf c"
  shows "safe (record_last_turn E a c) cache_wf"
proof (cases "tc_turn_count c > 0")
  case True
  let ?i = "tc_turn_count c - 1"
  have i: "?i < tc_turn_count c" using True by simp
  obtain c' where c': "ik_token_cache_get_turn_tokens (cache_view E a) c ?i = Inr (c', turn_values (cache_view E a) c ! ?i)"
    "same_values (cache_view E a) c c'"
    using get_turn_same [OF calm_view [OF assms(1)] assms(2) i] by blast
  show ?thesis
    using True record_turn_wf [OF assms(2) i] record_turn_wf [of c' ?i] c'(2) i
    by (auto simp: record_last_turn_def Let_def c'(1) [simplified] same_values_def intro!: safe_bind [OF safe_sub32])
qed (simp add: record_last_turn_def assms(2))

lemma calm_record_and_prune:
  assumes "env_ok U E" and "calm U a0 a"
  shows "safe (ik_agent_record_and_prune_token_cache E ok a) (calm U a0)"
proof (cases "al_token_cache (ac_llm a)")
  case (Some c)
  have "calm U a0 (on_llm (\<lambda>l. l\<lparr>al_token_cache := Some c', al_prev_response_input_tokens := al_response_input_tokens l\<rparr>) a)"
    if "cache_wf c'" for c'
    using assms(2) that by (rule calm_cache) simp_all
  then show ?thesis
    using Some assms(2)
    by (auto simp: ik_agent_record_and_prune_token_cache_def
          intro!: safe_bind [OF record_last_wf [OF assms(2) calm_cache_wf [OF assms(2) Some]]] calm_prune [OF assms(1)])
qed (simp add: ik_agent_record_and_prune_token_cache_def assms(2))

subsection \<open>The steps of the machine\<close>

lemma calm_refl: "base_inv U a \<Longrightarrow> calm U a a"
  by (simp add: calm_def)

lemma calm_base: "calm U a0 a \<Longrightarrow> base_inv U a \<and> ac_state a = ac_state a0"
  by (simp add: calm_def ctl_def)

lemma calm_turn_inv: "turn_inv U a \<Longrightarrow> calm U a a' \<Longrightarrow> turn_inv U a'"
  by (auto simp: turn_inv_def calm_def ctl_def)

text \<open>Transitions between the states in which no tool runs.\<close>

lemma base_inv_state:
  assumes "base_inv U a" and "ac_state a \<noteq> IK_AGENT_STATE_EXECUTING_TOOL" and "st \<noteq> IK_AGENT_STATE_EXECUTING_TOOL"
  shows "base_inv U (a\<lparr>ac_state := st, ac_spinner_state := sp, ac_input_buffer_visible := v\<rparr>)"
  using assms by (auto simp: base_inv_def sb_ok_def thread_ok_def)

lemma to_idle:
  assumes "base_inv U a" and "ac_state a = IK_AGENT_STATE_WAITING_FOR_LLM"
  shows "safe (ik_agent_transition_to_idle a) (\<lambda>a'. turn_inv U a' \<and> ac_state a' = IK_AGENT_STATE_IDLE)"
  using assms by (simp add: ik_agent_transition_to_idle_def turn_inv_def base_inv_state)

lemma base_inv_message: "base_inv U a \<Longrightarrow> msg_blocks m \<noteq> [] \<Longrightarrow> base_inv U (ik_agent_add_message m a)"
  by (auto simp: ik_agent_add_message_def turn_simps talk_ok_def)

lemma calm_message: "calm U a0 a \<Longrightarrow> msg_blocks m \<noteq> [] \<Longrightarrow> calm U a0 (ik_agent_add_message m a)"
  by (erule calmI) (simp_all add: base_inv_message, simp add: ik_agent_add_message_def ctl_def on_llm_def)

lemma message_blocks [simp]:
  "msg_blocks (ik_message_create_text r t) \<noteq> []" "msg_blocks (ik_message_create_tool_result i c e) \<noteq> []"
  "msg_blocks (ik_message_create_tool_call_with_thinking th sg rd ci cn ca g) \<noteq> []"
  by (simp_all add: ik_message_create_text_def ik_message_create_tool_result_def blocks_message_def
      ik_message_create_tool_call_with_thinking_def)

lemma get_provider_calm:
  assumes "base_inv U a" and "ik_agent_get_provider E a = (a1, e)"
  shows "base_inv U a1 \<and> ac_state a1 = ac_state a \<and> (e = None \<longrightarrow> ac_provider_instance a1 \<noteq> None)"
  using assms by (auto simp: ik_agent_get_provider_def base_inv_def sb_ok_def split: option.splits if_splits sum.splits)

text \<open>A request from the waiting state is either in flight or has failed and the agent is idle.\<close>

definition settled :: "utf8proc \<Rightarrow> ik_agent_ctx \<Rightarrow> bool" where
  "settled U a \<longleftrightarrow> turn_inv U a \<and>
     (ac_state a = IK_AGENT_STATE_IDLE \<or> ac_state a = IK_AGENT_STATE_WAITING_FOR_LLM)"

lemma settled_request_failed:
  assumes "env_ok U E" and "base_inv U a" and "ac_state a = IK_AGENT_STATE_WAITING_FOR_LLM"
  shows "safe (request_failed E m a) (settled U)"
  unfolding request_failed_def
  by (rule safe_bind [OF calm_append_line [OF assms(1) calm_refl [OF assms(2)]]])
     (rule safe_mono [OF to_idle], use assms(3) in \<open>auto dest!: calm_base simp: settled_def\<close>)

lemma settled_continuation:
  assumes E: "env_ok U E" and a: "base_inv U a" "ac_state a = IK_AGENT_STATE_WAITING_FOR_LLM"
  shows "safe (ik_repl_submit_tool_loop_continuation E a) (settled U)"
proof -
  obtain a1 e where p: "ik_agent_get_provider E a = (a1, e)" by fastforce
  have a1: "base_inv U a1" "ac_state a1 = IK_AGENT_STATE_WAITING_FOR_LLM" "e = None \<longrightarrow> ac_provider_instance a1 \<noteq> None"
    using get_provider_calm [OF a(1) p] a(2) by simp_all
  note f = settled_request_failed [OF E a1(1,2)]
  have "settled U (emit Start_Stream (on_llm (\<lambda>l. l\<lparr>al_curl_still_running := 1\<rparr>) a1))" if "e = None"
    using a1 that by (simp add: settled_def turn_inv_def turn_simps talk_ok_def)
  then show ?thesis
    using f by (auto simp: ik_repl_submit_tool_loop_continuation_def p split: option.splits)
qed

lemma base_inv_tool:
  assumes "base_inv U a" and "thread_ok (ac_state a) (f (ac_tool a))"
  shows "base_inv U (on_tool f a)"
  using assms by (simp add: turn_simps)

text \<open>A hook runs in the waiting state, after the thread has ended.\<close>

lemma run_on_complete_base:
  assumes "env_ok U E" and "base_inv U a"
  shows "base_inv U (run_on_complete E a) \<and> ac_state (run_on_complete E a) = ac_state a"
proof (cases "at_pending_on_complete (ac_tool a)")
  case (Some name)
  show ?thesis
  proof (cases "en_on_complete E name")
    case (Some hook)
    have h: "base_inv U (hook a)" "ac_state (hook a) = ac_state a"
      using assms Some by (auto simp: env_ok_def)
    have "thread_ok (ac_state (hook a)) ((ac_tool (hook a))\<lparr>at_pending_on_complete := None\<rparr>)"
      using h(1) by (auto simp: base_inv_def thread_ok_def)
    then show ?thesis
      using h \<open>at_pending_on_complete (ac_tool a) = Some name\<close> Some base_inv_tool [OF h(1)]
      by (simp add: run_on_complete_def) (simp add: on_tool_def)
  qed (use assms(2) Some in \<open>simp add: run_on_complete_def\<close>)
qed (use assms(2) in \<open>simp add: run_on_complete_def\<close>)

text \<open>The end of a tool: the thread is forgotten and the agent waits again.\<close>

lemma tool_ended:
  assumes "base_inv U a" and "ac_state a = IK_AGENT_STATE_EXECUTING_TOOL"
  shows "safe (ik_agent_transition_from_executing_tool (tool_thread_reset a))
    (\<lambda>a'. base_inv U a' \<and> ac_state a' = IK_AGENT_STATE_WAITING_FOR_LLM)"
  using assms by (simp add: ik_agent_transition_from_executing_tool_def tool_thread_reset_def turn_simps thread_ok_def)

lemma calm_pending:
  "calm U a0 a \<Longrightarrow> calm U a0 (on_tool (\<lambda>t. t\<lparr>at_pending_tool_call := c\<rparr>) a)"
  "calm U a0 a \<Longrightarrow> calm U a0 (on_tool (\<lambda>t. t\<lparr>at_pending_thinking_text := x, at_pending_thinking_signature := y,
     at_pending_redacted_data := z\<rparr>) a)"
  "calm U a0 a \<Longrightarrow> calm U a0 (on_tool (\<lambda>t. t\<lparr>at_tool_iteration_count := n t\<rparr>) a)"
  by (rule calm_tool; simp)+

lemma tool_ended_pending:
  assumes "calm U a0 a" and "ac_state a0 = IK_AGENT_STATE_EXECUTING_TOOL"
  shows "safe (ik_agent_transition_from_executing_tool (tool_thread_reset (on_tool (\<lambda>t. t\<lparr>at_pending_tool_call := c\<rparr>) a)))
    (\<lambda>a'. base_inv U a' \<and> ac_state a' = IK_AGENT_STATE_WAITING_FOR_LLM)"
  using calm_base [OF calm_pending(1) [OF assms(1)]] assms(2) by (simp add: tool_ended)

lemma calm_persist_tool:
  assumes "env_ok U E" and "calm U a0 a"
  shows "safe (persist_tool E tc r a) (calm U a0)"
proof (cases "persists E")
  case True
  then obtain w where w: "en_writer E = (\<lambda>d. Some (w d))"
    using assms(1) by (auto simp: env_ok_def) metis
  show ?thesis
    using assms(2) by (simp add: persist_tool_def True ik_build_tool_call_data_json_def
      ik_build_tool_result_data_json_def write_doc_def w calm_emit)
qed (simp add: persist_tool_def assms(2))

lemma complete_tool:
  assumes E: "env_ok U E" and a: "base_inv U a" "ac_state a = IK_AGENT_STATE_EXECUTING_TOOL"
    and c: "at_tool_thread_complete (ac_tool a)" "at_pending_tool_call (ac_tool a) \<noteq> None"
  shows "safe (ik_agent_complete_tool_execution E a)
    (\<lambda>a'. base_inv U a' \<and> ac_state a' = IK_AGENT_STATE_WAITING_FOR_LLM)"
proof -
  obtain tc r where tc: "at_pending_tool_call (ac_tool a) = Some tc" "at_tool_thread_result (ac_tool a) = Some r"
    using a(1) c by (auto simp: base_inv_def thread_ok_def)
  have run: "at_tool_thread_running (ac_tool a)" using a by (simp add: base_inv_def thread_ok_def)
  show ?thesis
    unfolding ik_agent_complete_tool_execution_def Let_def tc prod.case option.case
    by (simp add: run c(1))
       (intro safe_bind [OF calm_persist_tool [OF E calm_refl [OF a(1)]]] safe_bind [OF calm_on_scrollback [OF render_event_safe [OF E]]]
          calm_message calm_pending(2) tool_ended_pending [OF _ a(2)], simp_all)
qed

subsection \<open>The handlers\<close>

lemma mark_interrupted_blocks: "\<forall>m\<in>set msgs. msg_blocks m \<noteq> [] \<Longrightarrow> \<forall>m\<in>set (mark_interrupted msgs). msg_blocks m \<noteq> []"
  by (auto simp: mark_interrupted_def split: option.splits dest: in_set_takeD in_set_dropD)

lemma settled_interrupt_turn:
  assumes E: "env_ok U E" and a: "base_inv U a" "ac_state a = IK_AGENT_STATE_WAITING_FOR_LLM"
  shows "safe (interrupt_turn E a) (\<lambda>a'. turn_inv U a' \<and> ac_state a' = IK_AGENT_STATE_IDLE)"
proof -
  let ?a = "on_llm (\<lambda>l. l\<lparr>al_messages := mark_interrupted (al_messages (ac_llm a))\<rparr>) a"
  have b: "base_inv U ?a"
    using a(1) mark_interrupted_blocks by (auto simp: turn_simps talk_ok_def)
  have st: "ac_state ?a = IK_AGENT_STATE_WAITING_FOR_LLM" using a(2) by (simp add: on_llm_def)
  have "safe (ik_agent_transition_to_idle (if persists E then emit e a2 else a2))
      (\<lambda>a'. turn_inv U a' \<and> ac_state a' = IK_AGENT_STATE_IDLE)" if "calm U ?a a2" for a2 e
    using calm_base [OF that] calm_base [OF calm_emit [OF that, of e]] st by (simp add: to_idle)
  then show ?thesis
    unfolding interrupt_turn_def Let_def
    by (intro safe_bind [OF calm_on_scrollback [OF sb_safe_clear [OF render_messages_safe [OF E]] calm_refl [OF b]]])
qed

lemma base_inv_interrupt: "base_inv U (a\<lparr>ac_interrupt_requested := b\<rparr>) = base_inv U a"
  by (simp add: base_inv_def sb_ok_def)

lemma interrupted_tool:
  assumes E: "env_ok U E" and a: "base_inv U a" "ac_state a = IK_AGENT_STATE_EXECUTING_TOOL"
  shows "safe (ik_repl_handle_interrupted_tool_completion E a)
    (\<lambda>a'. turn_inv U a' \<and> ac_state a' = IK_AGENT_STATE_IDLE)"
proof -
  let ?a = "a\<lparr>ac_interrupt_requested := False\<rparr>"
  have b: "base_inv U ?a" "ac_state ?a = IK_AGENT_STATE_EXECUTING_TOOL"
    using a by (simp_all add: base_inv_interrupt)
  have "safe (ik_agent_transition_to_idle (run_on_complete E a2)) (\<lambda>a'. turn_inv U a' \<and> ac_state a' = IK_AGENT_STATE_IDLE)"
    if "base_inv U a2 \<and> ac_state a2 = IK_AGENT_STATE_WAITING_FOR_LLM" for a2
    using run_on_complete_base [OF E, of a2] that by (simp add: to_idle)
  then show ?thesis
    unfolding ik_repl_handle_interrupted_tool_completion_def Let_def
    by (auto intro!: safe_bind [OF tool_ended [OF b]] safe_bind [OF tool_ended_pending [OF calm_refl [OF b(1)] b(2)]]
          settled_interrupt_turn [OF E])
qed

lemma tool_completion:
  assumes E: "env_ok U E" and a: "base_inv U a" "ac_state a = IK_AGENT_STATE_EXECUTING_TOOL"
    and c: "at_tool_thread_complete (ac_tool a)"
  shows "safe (ik_repl_handle_agent_tool_completion E a) (settled U)"
proof -
  have "safe (if at_pending_tool_call (ac_tool a) \<noteq> None then ik_agent_complete_tool_execution E a
      else ik_agent_transition_from_executing_tool (tool_thread_reset a))
     (\<lambda>a'. base_inv U a' \<and> ac_state a' = IK_AGENT_STATE_WAITING_FOR_LLM)"
    using complete_tool [OF E a c] tool_ended [OF a] by simp
  moreover have "safe (let a2 = run_on_complete E a1
     in if ik_agent_should_continue_tool_loop E a2
        then ik_repl_submit_tool_loop_continuation E
               (on_tool (\<lambda>t. t\<lparr>at_tool_iteration_count := at_tool_iteration_count t + 1\<rparr>) a2)
        else ik_agent_transition_to_idle a2) (settled U)"
    if "base_inv U a1 \<and> ac_state a1 = IK_AGENT_STATE_WAITING_FOR_LLM" for a1
  proof -
    let ?a2 = "run_on_complete E a1"
    have b: "base_inv U ?a2" "ac_state ?a2 = IK_AGENT_STATE_WAITING_FOR_LLM"
      using run_on_complete_base [OF E, of a1] that by simp_all
    note n = calm_base [OF calm_pending(3) [OF calm_refl [OF b(1)]]]
    show ?thesis
      using settled_continuation [OF E, of "on_tool (\<lambda>t. t\<lparr>at_tool_iteration_count := at_tool_iteration_count t + 1\<rparr>) ?a2"]
        n b(2) safe_mono [OF to_idle [OF b], of "settled U"] by (auto simp: Let_def settled_def)
  qed
  ultimately show ?thesis
    unfolding ik_repl_handle_agent_tool_completion_def by (rule safe_bind)
qed

lemma start_tool:
  assumes "base_inv U a" and "ac_state a = IK_AGENT_STATE_WAITING_FOR_LLM" and "at_pending_tool_call (ac_tool a) \<noteq> None"
  shows "safe (ik_agent_start_tool_execution E a)
    (\<lambda>a'. turn_inv U a' \<and> ac_state a' = IK_AGENT_STATE_EXECUTING_TOOL)"
  using assms by (auto simp: ik_agent_start_tool_execution_def ik_agent_transition_to_executing_tool_def turn_inv_def
      turn_simps thread_ok_def)

lemma calm_persist_assistant: "calm U a0 a \<Longrightarrow> safe (persist_assistant_msg E a) (calm U a0)"
  by (auto simp: persist_assistant_msg_def Let_def calm_emit intro!: safe_bind [OF safe_response_total])

lemma calm_clear_response: "calm U a0 a \<Longrightarrow> calm U a0 (clear_response a)"
  unfolding clear_response_def by (rule calm_llm) simp_all

text \<open>After a successful request a tool runs, or another request is in flight, or the agent still waits
  with nothing left to do and is made idle by the caller.\<close>

lemma request_success:
  assumes E: "env_ok U E" and a: "base_inv U a" "ac_state a = IK_AGENT_STATE_WAITING_FOR_LLM"
  shows "safe (ik_repl_handle_agent_request_success E a)
    (\<lambda>a'. base_inv U a' \<and> (ac_state a' = IK_AGENT_STATE_WAITING_FOR_LLM \<or> turn_inv U a'))"
proof -
  note r = calm_refl [OF a(1)]
  have "safe (case al_assistant_response (ac_llm a) of None \<Rightarrow> Inr a
      | Some r \<Rightarrow> if r \<noteq> [] then persist_assistant_msg E (ik_agent_add_message (ik_message_create_text IK_ROLE_ASSISTANT r) a)
                  else Inr a) (calm U a)"
    using calm_persist_assistant [OF calm_message [OF r]] r by (auto split: option.splits)
  then show ?thesis
    unfolding ik_repl_handle_agent_request_success_def
  proof (rule safe_bind)
    fix a1 assume c: "calm U a a1"
    let ?a2 = "clear_response a1"
    let ?a3 = "on_tool (\<lambda>t. t\<lparr>at_tool_iteration_count := at_tool_iteration_count t + 1\<rparr>) ?a2"
    have b: "base_inv U ?a2" "ac_state ?a2 = IK_AGENT_STATE_WAITING_FOR_LLM"
      using calm_base [OF calm_clear_response [OF c]] a(2) by simp_all
    have b3: "base_inv U ?a3" "ac_state ?a3 = IK_AGENT_STATE_WAITING_FOR_LLM"
      using calm_base [OF calm_pending(3) [OF calm_clear_response [OF c]]] a(2) by simp_all
    show "safe (let a2 = clear_response a1
       in if at_pending_tool_call (ac_tool a2) \<noteq> None then ik_agent_start_tool_execution E a2
          else if ik_agent_should_continue_tool_loop E a2
          then ik_repl_submit_tool_loop_continuation E
                 (on_tool (\<lambda>t. t\<lparr>at_tool_iteration_count := at_tool_iteration_count t + 1\<rparr>) a2)
          else Inr a2) (\<lambda>a'. base_inv U a' \<and> (ac_state a' = IK_AGENT_STATE_WAITING_FOR_LLM \<or> turn_inv U a'))"
      unfolding Let_def
      using b safe_mono [OF start_tool [OF b, of E]] safe_mono [OF settled_continuation [OF E b3]]
      by (auto simp: settled_def turn_inv_def)
  qed
qed

lemma turn_inv_effects: "turn_inv U (emit e a) = turn_inv U a" "ac_state (emit e a) = ac_state a"
  by (simp_all add: turn_inv_def turn_simps)

lemma turn_inv_notify: "turn_inv U (mark_idle_and_notify E a) = turn_inv U a"
  "ac_state (mark_idle_and_notify E a) = ac_state a"
  by (simp_all add: mark_idle_and_notify_def turn_inv_effects)

lemma base_inv_curl: "base_inv U (on_llm (\<lambda>l. l\<lparr>al_curl_still_running := n\<rparr>) a) = base_inv U a"
  by (simp add: turn_simps talk_ok_def)

lemma request_error:
  assumes E: "env_ok U E" and c: "calm U a0 a" and "al_http_error_message (ac_llm a) \<noteq> None"
  shows "safe (handle_agent_request_error E a) (calm U a0)"
  using assms(3) unfolding handle_agent_request_error_def
  by (auto intro!: safe_bind [OF calm_append_line [OF E c]] calm_clear_response calm_error)

text \<open>The end of a request takes the agent out of the waiting state.\<close>

definition finished :: "utf8proc \<Rightarrow> ik_agent_ctx \<Rightarrow> bool" where
  "finished U a \<longleftrightarrow> turn_inv U a \<and> ac_state a \<noteq> IK_AGENT_STATE_WAITING_FOR_LLM"

lemma idle_after_request:
  assumes E: "env_ok U E" and a: "base_inv U a2 \<and> (ac_state a2 = IK_AGENT_STATE_WAITING_FOR_LLM \<or> turn_inv U a2)"
  shows "safe (if ac_state a2 = IK_AGENT_STATE_WAITING_FOR_LLM
      then res_bind (ik_agent_record_and_prune_token_cache E ok a2)
             (\<lambda>a3. res_bind (ik_agent_transition_to_idle a3) (\<lambda>a4. Inr (mark_idle_and_notify E a4)))
      else Inr a2) (finished U)"
proof (cases "ac_state a2 = IK_AGENT_STATE_WAITING_FOR_LLM")
  case True
  have "safe (res_bind (ik_agent_transition_to_idle a3) (\<lambda>a4. Inr (mark_idle_and_notify E a4))) (finished U)"
    if "calm U a2 a3" for a3
    using calm_base [OF that] True
    by (intro safe_bind [OF to_idle [of U]]) (simp_all add: finished_def turn_inv_notify)
  then show ?thesis
    using a by (simp add: True safe_bind [OF calm_record_and_prune [OF E calm_refl]])
qed (use a in \<open>simp add: finished_def\<close>)

lemma request_end:
  assumes E: "env_ok U E" and a: "base_inv U a" "ac_state a = IK_AGENT_STATE_WAITING_FOR_LLM"
  shows "safe (request_finished E a) (finished U)"
proof (cases "ac_interrupt_requested a")
  case True
  let ?b = "clear_response (on_llm (\<lambda>l. l\<lparr>al_http_error_message := None\<rparr>) (a\<lparr>ac_interrupt_requested := False\<rparr>))"
  have "calm U (a\<lparr>ac_interrupt_requested := False\<rparr>) ?b"
    by (intro calm_clear_response calm_error calm_refl) (simp add: base_inv_interrupt a(1))
  then have "base_inv U ?b" "ac_state ?b = IK_AGENT_STATE_WAITING_FOR_LLM"
    using calm_base a(2) by auto
  then show ?thesis
    using True unfolding request_finished_def ik_repl_handle_interrupted_llm_completion_def
    by (simp add: safe_bind [OF settled_interrupt_turn [OF E]] finished_def turn_inv_notify)
next
  case False
  have "safe (if al_http_error_message (ac_llm a) \<noteq> None then handle_agent_request_error E a
      else ik_repl_handle_agent_request_success E a)
     (\<lambda>a'. base_inv U a' \<and> (ac_state a' = IK_AGENT_STATE_WAITING_FOR_LLM \<or> turn_inv U a'))"
    using request_success [OF E a] safe_mono [OF request_error [OF E calm_refl [OF a(1)]]] calm_base a(2) by auto
  then show ?thesis
    using False idle_after_request [OF E] by (simp add: request_finished_def Let_def safe_bind)
qed

lemma network_safe:
  assumes E: "env_ok U E" and a: "turn_inv U a" and ev: "enabled (Network P) a"
  shows "safe (process_agent_curl_events E P a) (\<lambda>a'. turn_inv U a'
    \<and> (al_curl_still_running (ac_llm a) \<noteq> 0 \<longrightarrow> ac_provider_instance a \<noteq> None \<longrightarrow> pf_still_running P = 0 \<longrightarrow>
         ac_state a' \<noteq> IK_AGENT_STATE_WAITING_FOR_LLM))"
proof (cases "al_curl_still_running (ac_llm a) = 0 \<or> ac_provider_instance a = None")
  case False
  have b: "base_inv U a" using a by (simp add: turn_inv_def)
  have cb: "safe (run_callbacks E (pf_callbacks P) a) (calm U a)"
    using calm_callbacks [OF E calm_refl [OF b]] ev by simp
  show ?thesis
  proof (cases "run_callbacks E (pf_callbacks P) a")
    case (Inl e)
    then show ?thesis using cb False ev by (auto simp: process_agent_curl_events_def)
  next
    case (Inr a0)
    let ?a1 = "on_llm (\<lambda>l. l\<lparr>al_curl_still_running := pf_still_running P\<rparr>) a0"
    have c: "calm U a a0" using cb by (simp add: Inr)
    have b1: "base_inv U ?a1" "ac_state ?a1 = ac_state a" "ac_provider_instance ?a1 = ac_provider_instance a"
      "al_curl_still_running (ac_llm ?a1) = pf_still_running P"
      using c by (simp_all add: base_inv_curl calm_def) (simp_all add: ctl_def on_llm_def)
    show ?thesis
    proof (cases "pf_still_running P \<noteq> 0 \<or> ac_state ?a1 \<noteq> IK_AGENT_STATE_WAITING_FOR_LLM")
      case True
      then have "turn_inv U ?a1 \<and> (pf_still_running P = 0 \<longrightarrow> ac_state ?a1 \<noteq> IK_AGENT_STATE_WAITING_FOR_LLM)"
        using b1 False by (auto simp: turn_inv_def)
      then show ?thesis using True False ev Inr by (auto simp: process_agent_curl_events_def Let_def)
    next
      case stop: False
      have "safe (process_agent_curl_events E P a) (finished U)"
        using request_end [OF E b1(1)] stop False ev Inr by (auto simp: process_agent_curl_events_def Let_def)
      then show ?thesis by (rule safe_mono) (simp add: finished_def)
    qed
  qed
qed (use a in \<open>auto simp: process_agent_curl_events_def\<close>)

lemma calm_emit_if: "calm U a0 a \<Longrightarrow> calm U a0 (if b then emit e a else a)"
  by (simp add: calm_emit)

lemma calm_add_turn:
  assumes "calm U a0 a"
  shows "safe (add_turn a) (calm U a0)"
proof (cases "al_token_cache (ac_llm a)")
  case (Some c)
  obtain c' where c': "ik_token_cache_add_turn c = Inr c'" "cache_wf c'"
    using add_turn_ok [OF calm_cache_wf [OF assms Some]] by blast
  have "calm U a0 (on_llm (\<lambda>l. l\<lparr>al_token_cache := Some c'\<rparr>) a)"
    using assms c'(2) by (rule calm_cache) simp_all
  then show ?thesis by (simp add: add_turn_def Some c'(1))
qed (simp add: add_turn_def assms)

lemma send_safe:
  assumes E: "env_ok U E" and a: "turn_inv U a" and ev: "enabled (Send now_ms t) a"
  shows "safe (send_to_llm_for_agent E now_ms t a) (turn_inv U)"
proof (cases "ac_model a = None \<or> ac_model a = Some []")
  case True
  have "base_inv U a" using a by (simp add: turn_inv_def)
  then show ?thesis
    using True calm_turn_inv [OF a] safe_mono [OF calm_append_line [OF E calm_refl]]
    by (simp add: send_to_llm_for_agent_def)
next
  case False
  have b: "base_inv U a" using a by (simp add: turn_inv_def)
  have wait: "safe (res_bind (ik_agent_transition_to_waiting_for_llm now_ms a') (ik_repl_submit_tool_loop_continuation E)) (turn_inv U)"
    if "calm U a a'" for a'
  proof -
    have "base_inv U a' \<and> ac_state a' = IK_AGENT_STATE_IDLE" using calm_base [OF that] ev False by simp
    then show ?thesis
      by (simp add: ik_agent_transition_to_waiting_for_llm_def)
         (rule safe_mono [OF settled_continuation [OF E]], simp_all add: base_inv_state settled_def)
  qed
  have resp: "calm U a (on_llm (\<lambda>l. l\<lparr>al_assistant_response := None, al_streaming_line_buffer := None\<rparr>) a')"
    if "calm U a a'" for a'
    using that by (rule calm_llm) simp_all
  show ?thesis
    unfolding send_to_llm_for_agent_def Let_def
    using False
    by (simp only: if_False)
       (intro safe_bind [OF calm_add_turn [OF calm_message [OF calm_refl [OF b]]]] wait calm_emit_if calm_pending(3) resp,
        simp_all)
qed

lemma interrupt_turn_inv: "turn_inv U a \<Longrightarrow> turn_inv U (ik_repl_handle_interrupt_request polls a)"
  by (simp add: ik_repl_handle_interrupt_request_def Let_def turn_inv_effects)
     (simp add: turn_inv_def base_inv_interrupt)

lemma worker_turn_inv:
  "turn_inv U a \<Longrightarrow> at_tool_thread_running (ac_tool a) \<Longrightarrow> turn_inv U (tool_thread_worker r a)"
  "turn_inv U a \<Longrightarrow> turn_inv U (tool_child_started pid a)"
  by (auto simp: tool_thread_worker_def tool_child_started_def turn_inv_def turn_simps thread_ok_def)

lemma poll_safe:
  assumes "env_ok U E" and "turn_inv U a"
  shows "safe (poll_tool_completion E a) (\<lambda>a'. turn_inv U a' \<and>
    (ac_state a = IK_AGENT_STATE_EXECUTING_TOOL \<and> at_tool_thread_complete (ac_tool a) \<longrightarrow>
       ac_state a' \<noteq> IK_AGENT_STATE_EXECUTING_TOOL))"
proof -
  have b: "base_inv U a" using assms(2) by (simp add: turn_inv_def)
  show ?thesis
    using assms(2)
    by (auto simp: poll_tool_completion_def settled_def intro!: safe_mono [OF interrupted_tool [OF assms(1) b]]
          safe_mono [OF tool_completion [OF assms(1) b]])
qed

lemma turn_step_safe:
  assumes "env_ok U E" and "turn_inv U a" and "enabled ev a"
  shows "safe (turn_step E ev a) (turn_inv U)"
proof (cases ev)
  case (Network P)
  then show ?thesis using safe_mono [OF network_safe [OF assms(1,2)]] assms(3) by simp
next
  case (Send n t)
  then show ?thesis using send_safe [OF assms(1,2)] assms(3) by simp
next
  case Poll
  then show ?thesis using safe_mono [OF poll_safe [OF assms(1,2)]] by simp
qed (use assms in \<open>simp_all add: interrupt_turn_inv worker_turn_inv\<close>)

subsection \<open>Reachable states\<close>

inductive turn_reachable :: "utf8proc \<Rightarrow> ik_agent_ctx \<Rightarrow> ik_agent_ctx \<Rightarrow> bool" for U a0 where
  turn_start: "turn_reachable U a0 a0"
| turn_next: "turn_reachable U a0 a \<Longrightarrow> env_ok U E \<Longrightarrow> enabled ev a \<Longrightarrow> turn_step E ev a = Inr a' \<Longrightarrow>
    turn_reachable U a0 a'"

lemma reachable_inv: "turn_reachable U a0 a \<Longrightarrow> turn_inv U a0 \<Longrightarrow> turn_inv U a"
proof (induction rule: turn_reachable.induct)
  case (turn_next a E ev a')
  then show ?case using turn_step_safe [of U E a ev] by simp
qed

subsection \<open>A created agent\<close>

lemma create_token_cache_wf: "cache_wf (ik_token_cache_set_budget ik_token_cache_create budget)"
  using create_ok by (simp add: ik_token_cache_set_budget_def cache_wf_def)

lemma created_agent:
  assumes "cols > 0"
  shows "returns (ik_agent_create None uuid parent now cols budget)
    (\<lambda>a. turn_inv U a \<and> ac_state a = IK_AGENT_STATE_IDLE \<and> ac_llm a = fresh_llm budget \<and> ac_tool a = fresh_tool
       \<and> sb_repr U (ac_scrollback a) [] \<and> \<not> ac_interrupt_requested a)"
proof -
  obtain sb where sb: "ik_scrollback_create cols = Inr sb" "sb_repr U sb []"
    using scrollback_create_repr [OF assms, of U] by (auto elim!: returnsE)
  obtain ib where ib: "ik_input_buffer_create = Inr ib"
    by (simp add: ik_input_buffer_create_def ik_byte_array_create_def ik_array_create_def)
  show ?thesis
    unfolding ik_agent_create_def sb(1) ib res_bind.simps option.case returns.simps
    using sb(2) create_token_cache_wf [of budget]
    by (simp add: turn_inv_def base_inv_def sb_ok_def talk_ok_def fresh_llm_def thread_ok_def fresh_tool_def) blast
qed

text \<open>An agent with a model and a provider, and an environment that stores nothing and starts every request.\<close>

definition sample_env :: ik_env where
  "sample_env = \<lparr>en_utf8proc = ref_utf8proc, en_json = (\<lambda>_. None), en_writer = (\<lambda>_. None), en_colors = False,
     en_cols = 80, en_event_format_call = (\<lambda>c d. c), en_event_format_result = (\<lambda>c d. c),
     en_format_tool_call = call_name, en_format_tool_result = (\<lambda>n r. r), en_max_tool_turns = Some 10,
     en_db = False, en_session_id = 0, en_user_data = [], en_effective_prompt = None, en_count_tokens = None,
     en_on_complete = (\<lambda>_. None), en_provider_create = (\<lambda>_. Inr True), en_build_error = (\<lambda>_. None),
     en_start_error = (\<lambda>_. None)\<rparr>"

lemma sample_env_ok: "env_ok ref_utf8proc sample_env"
  by (simp add: env_ok_def sample_env_def persists_def)

definition sample_ctx :: ik_agent_ctx where
  "sample_ctx = (projr (ik_agent_create None [0x61] None 0 80 100000))
     \<lparr>ac_provider := Some [0x70], ac_model := Some [0x6D], ac_provider_instance := Some True\<rparr>"

lemma sample_ctx:
  "turn_inv ref_utf8proc sample_ctx" "ac_state sample_ctx = IK_AGENT_STATE_IDLE" "ac_model sample_ctx = Some [0x6D]"
  "ac_provider_instance sample_ctx = Some True" "ac_llm sample_ctx = fresh_llm 100000"
  "ac_tool sample_ctx = fresh_tool" "sb_repr ref_utf8proc (ac_scrollback sample_ctx) []"
  "\<not> ac_interrupt_requested sample_ctx"
proof -
  obtain a where a: "ik_agent_create None [0x61] None 0 80 100000 = Inr a" "turn_inv ref_utf8proc a"
    "ac_state a = IK_AGENT_STATE_IDLE" "ac_llm a = fresh_llm 100000" "ac_tool a = fresh_tool"
    "sb_repr ref_utf8proc (ac_scrollback a) []" "\<not> ac_interrupt_requested a"
    using created_agent [of 80 "[0x61]" None 0 100000 ref_utf8proc] by (auto elim!: returnsE)
  then show "turn_inv ref_utf8proc sample_ctx" "ac_state sample_ctx = IK_AGENT_STATE_IDLE"
    "ac_model sample_ctx = Some [0x6D]" "ac_provider_instance sample_ctx = Some True"
    "ac_llm sample_ctx = fresh_llm 100000" "ac_tool sample_ctx = fresh_tool"
    "sb_repr ref_utf8proc (ac_scrollback sample_ctx) []" "\<not> ac_interrupt_requested sample_ctx"
    by (simp_all add: sample_ctx_def turn_inv_def base_inv_def sb_ok_def)
qed

text \<open>The same agent while it waits for the answer.\<close>

definition sample_waiting :: ik_agent_ctx where
  "sample_waiting = on_llm (\<lambda>l. l\<lparr>al_curl_still_running := 1\<rparr>)
     (sample_ctx\<lparr>ac_state := IK_AGENT_STATE_WAITING_FOR_LLM\<rparr>)"

lemma sample_waiting:
  "turn_inv ref_utf8proc sample_waiting" "ac_state sample_waiting = IK_AGENT_STATE_WAITING_FOR_LLM"
  using sample_ctx by (auto simp: sample_waiting_def turn_inv_def turn_simps talk_ok_def thread_ok_def)

definition sample_end :: ik_perform where
  "sample_end = \<lparr>pf_callbacks = [], pf_still_running = 0, pf_error = None\<rparr>"

subsection \<open>Theorems\<close>

text \<open>C6. A turn never goes wrong: in every state that any sequence of events leads to (texts sent while the
  agent is idle, interrupts, answers of the model, ends of tools, polls), the invariant holds, so that a tool
  thread runs exactly while a tool is executed and a waiting agent has a request in flight, and every
  event that can happen next is handled with no failed assertion, no panic and no invalid access, except for
  the overflow of a token count.\<close>

theorem turn_safety:
  assumes "turn_reachable U a0 a" and "turn_inv U a0"
  shows "turn_inv U a \<and> (\<forall>E ev. env_ok U E \<longrightarrow> enabled ev a \<longrightarrow> safe (turn_step E ev a) (turn_inv U))"
  using reachable_inv [OF assms] turn_step_safe by blast

text \<open>C31. No turn gets stuck: when the request of a waiting agent ends, whatever the answer, the agent is idle or
  executes a tool; and when the tool has ended, the next poll makes the agent idle or waiting with a new
  request in flight.\<close>

theorem turn_progress:
  assumes "env_ok U E" and "turn_inv U a"
  shows "(ac_state a = IK_AGENT_STATE_WAITING_FOR_LLM \<and> enabled (Network P) a \<and> pf_still_running P = 0 \<longrightarrow>
      safe (turn_step E (Network P) a) (\<lambda>a'. ac_state a' = IK_AGENT_STATE_IDLE
        \<or> ac_state a' = IK_AGENT_STATE_EXECUTING_TOOL \<and> at_tool_thread_running (ac_tool a')))
    \<and> (ac_state a = IK_AGENT_STATE_EXECUTING_TOOL \<and> at_tool_thread_complete (ac_tool a) \<longrightarrow>
      safe (turn_step E Poll a) (\<lambda>a'. ac_state a' = IK_AGENT_STATE_IDLE
        \<or> ac_state a' = IK_AGENT_STATE_WAITING_FOR_LLM \<and> al_curl_still_running (ac_llm a') \<noteq> 0))"
proof (intro conjI impI)
  assume w: "ac_state a = IK_AGENT_STATE_WAITING_FOR_LLM \<and> enabled (Network P) a \<and> pf_still_running P = 0"
  then have "al_curl_still_running (ac_llm a) \<noteq> 0" "ac_provider_instance a \<noteq> None"
    using assms(2) by (simp_all add: turn_inv_def)
  then show "safe (turn_step E (Network P) a) (\<lambda>a'. ac_state a' = IK_AGENT_STATE_IDLE
        \<or> ac_state a' = IK_AGENT_STATE_EXECUTING_TOOL \<and> at_tool_thread_running (ac_tool a'))"
    using w unfolding turn_step.simps
    by (intro safe_mono [OF network_safe [OF assms]]; cases rule: ik_agent_state.exhaust)
       (auto simp: turn_inv_def base_inv_def thread_ok_def intro: ik_agent_state.exhaust)
next
  assume "ac_state a = IK_AGENT_STATE_EXECUTING_TOOL \<and> at_tool_thread_complete (ac_tool a)"
  then show "safe (turn_step E Poll a) (\<lambda>a'. ac_state a' = IK_AGENT_STATE_IDLE
        \<or> ac_state a' = IK_AGENT_STATE_WAITING_FOR_LLM \<and> al_curl_still_running (ac_llm a') \<noteq> 0)"
    unfolding turn_step.simps
    by (intro safe_mono [OF poll_safe [OF assms]]) (auto simp: turn_inv_def intro: ik_agent_state.exhaust)
qed

theorem turn_safety_witness:
  "turn_inv ref_utf8proc sample_ctx
   \<and> safe (turn_step sample_env (Send 0 [0x68]) sample_ctx) (turn_inv ref_utf8proc)"
proof -
  have "enabled (Send 0 [0x68]) sample_ctx" by (simp add: sample_ctx(2))
  then show ?thesis using turn_safety [OF turn_start sample_ctx(1)] sample_env_ok by blast
qed

theorem turn_progress_witness:
  "safe (turn_step sample_env (Network sample_end) sample_waiting)
     (\<lambda>a'. ac_state a' = IK_AGENT_STATE_IDLE
        \<or> ac_state a' = IK_AGENT_STATE_EXECUTING_TOOL \<and> at_tool_thread_running (ac_tool a'))"
  using turn_progress [OF sample_env_ok sample_waiting(1), of sample_end] sample_waiting(2)
  by (simp add: sample_end_def)

text \<open>A text that is sent while the agent waits or executes a tool fails the assertion of the transition, after
  the message has been added to the conversation.\<close>

theorem busy_send_asserts:
  assumes "turn_inv U a" and "ac_model a = Some (c # m)" and "ac_state a \<noteq> IK_AGENT_STATE_IDLE"
  shows "send_to_llm_for_agent E now_ms t a = Inl AssertFail"
proof -
  have c: "calm U a (ik_agent_add_message (ik_message_create_text IK_ROLE_USER t) a)"
    using assms(1) by (intro calm_message calm_refl) (simp_all add: turn_inv_def)
  obtain a1 where a1: "add_turn (ik_agent_add_message (ik_message_create_text IK_ROLE_USER t) a) = Inr a1"
    "ac_state a1 = ac_state a"
  proof (cases "al_token_cache (ac_llm (ik_agent_add_message (ik_message_create_text IK_ROLE_USER t) a))")
    case None
    then show ?thesis using that calm_base [OF c] by (simp add: add_turn_def)
  next
    case (Some k)
    obtain k' where "ik_token_cache_add_turn k = Inr k'"
      using add_turn_ok [OF calm_cache_wf [OF c Some], of "cache_view E a"] by blast
    then show ?thesis using Some that calm_base [OF c] by (simp add: add_turn_def on_llm_def)
  qed
  show ?thesis
    using assms(2,3)
    by (simp add: send_to_llm_for_agent_def a1 Let_def ik_agent_transition_to_waiting_for_llm_def check_assert_def
        on_llm_def on_tool_def emit_def)
qed

theorem busy_send_asserts_witness:
  "send_to_llm_for_agent sample_env 0 [0x68] sample_waiting = Inl AssertFail"
proof (rule busy_send_asserts [OF sample_waiting(1)])
  show "ac_model sample_waiting = Some [0x6D]" using sample_ctx(3) by (simp add: sample_waiting_def on_llm_def)
qed (simp add: sample_waiting(2))

text \<open>An answer that ends with the reason of a tool call but holds none starts the next request and then makes
  the agent idle while that request is in flight.\<close>

theorem tool_use_without_call:
  assumes "ac_state a = IK_AGENT_STATE_WAITING_FOR_LLM" and "al_curl_still_running (ac_llm a) \<noteq> 0"
    and "ac_provider_instance a \<noteq> None" and "\<not> ac_interrupt_requested a"
    and "al_http_error_message (ac_llm a) = None" and "al_assistant_response (ac_llm a) = None"
    and "al_response_finish_reason (ac_llm a) = Some ''tool_use''" and "at_pending_tool_call (ac_tool a) = None"
    and "en_max_tool_turns E = None" and "al_token_cache (ac_llm a) = None"
    and "\<And>a'. en_build_error E a' = None" and "\<And>a'. en_start_error E a' = None"
  shows "returns (process_agent_curl_events E sample_end a)
    (\<lambda>a'. ac_state a' = IK_AGENT_STATE_IDLE \<and> al_curl_still_running (ac_llm a') = 1)"
  using assms
  by (auto simp: process_agent_curl_events_def sample_end_def request_finished_def Let_def on_llm_def on_tool_def
      ik_repl_handle_agent_request_success_def clear_response_def ik_agent_should_continue_tool_loop_def
      ik_repl_submit_tool_loop_continuation_def ik_agent_get_provider_def emit_def mark_idle_and_notify_def
      ik_agent_record_and_prune_token_cache_def ik_agent_transition_to_idle_def)

theorem tool_use_without_call_witness:
  "returns (process_agent_curl_events (sample_env\<lparr>en_max_tool_turns := None\<rparr>) sample_end
      (on_llm (\<lambda>l. l\<lparr>al_response_finish_reason := Some ''tool_use'', al_token_cache := None\<rparr>) sample_waiting))
    (\<lambda>a'. ac_state a' = IK_AGENT_STATE_IDLE \<and> al_curl_still_running (ac_llm a') = 1)"
  using sample_ctx
  by (intro tool_use_without_call) (simp_all add: sample_waiting_def on_llm_def fresh_llm_def fresh_tool_def sample_env_def)

end
