(* ===== verification/Ik_Stream_Text.thy ===== *)
theory Ik_Stream_Text
  imports Ik_Turn_Safety
begin

text \<open>
  What the streamed answer of the model looks like in the scrollback, whatever the chunks it arrives in.
  The loop of \<open>ik_repl_handle_text_delta\<close> is shown to be compositional in the text (\<open>delta_append\<close>), so that a
  stream of chunks is one chunk, and one chunk is shown line by line (\<open>answer_lines\<close>).
\<close>

subsection \<open>The chunks of a stream\<close>

fun stream_deltas :: "ik_env \<Rightarrow> cstr list \<Rightarrow> ik_agent_ctx \<Rightarrow> ik_agent_ctx res" where
  "stream_deltas E [] a = Inr a"
| "stream_deltas E (d # ds) a = res_bind (ik_repl_stream_callback E (IK_STREAM_TEXT_DELTA 0 (Some d)) a) (stream_deltas E ds)"

text \<open>The lines of a text without their newlines; the last one is what follows the last newline.\<close>

fun text_lines :: "cstr \<Rightarrow> cstr \<Rightarrow> cstr list" where
  "text_lines seg [] = [seg]"
| "text_lines seg (c # cs) = (if c = 10 then seg # text_lines [] cs else text_lines (seg @ [c]) cs)"

text \<open>Empty lines before the first text are not shown, the first line with text has the prefix.\<close>

definition model_prefix :: cstr where
  "model_prefix = [0xE2, 0x97, 0x8F, 0x20]"

fun shown :: "bool \<Rightarrow> cstr list \<Rightarrow> cstr list" where
  "shown first [] = []"
| "shown first (l # ls) =
     (if first then (if l = [] then shown True ls else (model_prefix @ l) # shown False ls) else l # shown False ls)"

definition answer_lines :: "cstr \<Rightarrow> cstr list" where
  "answer_lines t =
     (let ls = text_lines [] t in shown True (if last ls = [] then butlast ls else ls))"

subsection \<open>Chunks compose\<close>

definition set_response :: "cstr option \<Rightarrow> ik_agent_ctx \<Rightarrow> ik_agent_ctx" where
  "set_response r = on_llm (\<lambda>l. l\<lparr>al_assistant_response := r\<rparr>)"

lemma set_response_simps [simp]:
  "line_prefix (set_response r a) = line_prefix a"
  "al_streaming_line_buffer (ac_llm (set_response r a)) = al_streaming_line_buffer (ac_llm a)"
  "set_response r (set_response q a) = set_response r a"
  "set_response r (not_first a) = not_first (set_response r a)"
  "set_response r (buffer_text s a) = buffer_text s (set_response r a)"
  by (simp_all add: set_response_def line_prefix_def not_first_def buffer_text_def on_llm_def)

lemma map_bind: "map_sum id f (res_bind m g) = res_bind m (\<lambda>x. map_sum id f (g x))"
  by (cases m) simp_all

lemma bind_map: "res_bind (map_sum id f m) g = res_bind m (\<lambda>x. g (f x))"
  by (cases m) simp_all

lemma append_line_response: "append_line E t (set_response r a) = map_sum id (set_response r) (append_line E t a)"
  by (cases "ik_scrollback_append_line (en_utf8proc E) (ac_scrollback a) t")
     (simp_all add: append_line_def on_scrollback_def set_response_def on_llm_def)

lemma flush_response:
  "ik_repl_flush_line_to_scrollback E s (set_response r a)
   = map_sum id (set_response r) (ik_repl_flush_line_to_scrollback E s a)"
proof -
  have "set_response r (on_llm (\<lambda>l. l\<lparr>al_streaming_line_buffer := None\<rparr>) b)
      = on_llm (\<lambda>l. l\<lparr>al_streaming_line_buffer := None\<rparr>) (set_response r b)" for b
    by (simp add: set_response_def on_llm_def)
  then show ?thesis
    by (cases "al_streaming_line_buffer (ac_llm a)")
       (simp_all add: ik_repl_flush_line_to_scrollback_def append_line_response bind_map map_bind)
qed

lemma delta_loop_response:
  "delta_loop E s cs (set_response r a) = map_sum id (set_response r) (delta_loop E s cs a)"
proof (induction cs arbitrary: s a)
  case (Cons c cs)
  then show ?case
    by (cases "ik_repl_flush_line_to_scrollback E s a") (simp_all add: flush_response)
qed simp

text \<open>Text that waits in the buffer of the line and text that is still in the chunk are the same.\<close>

lemma buffer_append: "buffer_text t (buffer_text s a) = buffer_text (s @ t) a"
  by (cases "al_streaming_line_buffer (ac_llm a)") (simp_all add: buffer_text_def on_llm_def)

lemma line_prefix_buffer [simp]: "line_prefix (buffer_text s a) = line_prefix a"
  by (simp add: line_prefix_def buffer_text_def on_llm_def)

lemma append_line_buffer: "append_line E t (buffer_text s a) = map_sum id (buffer_text s) (append_line E t a)"
  by (cases "ik_scrollback_append_line (en_utf8proc E) (ac_scrollback a) t")
     (simp_all add: append_line_def on_scrollback_def buffer_text_def on_llm_def)

lemma unbuffer:
  "al_streaming_line_buffer (ac_llm a) = None \<Longrightarrow>
   on_llm (\<lambda>l. l\<lparr>al_streaming_line_buffer := None\<rparr>) (buffer_text s a) = a"
  "on_llm (\<lambda>l. l\<lparr>al_streaming_line_buffer := None\<rparr>) (buffer_text s a)
   = on_llm (\<lambda>l. l\<lparr>al_streaming_line_buffer := None\<rparr>) a"
  by (simp_all add: buffer_text_def on_llm_def)

lemma buffer_of_buffer_text:
  "al_streaming_line_buffer (ac_llm (buffer_text s a))
   = Some (case al_streaming_line_buffer (ac_llm a) of None \<Rightarrow> s | Some b \<Rightarrow> b @ s)"
  by (simp add: buffer_text_def on_llm_def)

lemma flush_buffered:
  assumes "s \<noteq> []"
  shows "ik_repl_flush_line_to_scrollback E t (buffer_text s a) = ik_repl_flush_line_to_scrollback E (s @ t) a"
proof (cases "al_streaming_line_buffer (ac_llm a)")
  case None
  have "al_streaming_line_buffer (ac_llm b) = None" if "append_line E u a = Inr b" for u b
    using that None by (auto simp: append_line_def on_scrollback_def res_bind_Inr_iff)
  then show ?thesis
    using assms None
    by (cases "append_line E (line_prefix a @ s @ t) a")
       (simp_all add: ik_repl_flush_line_to_scrollback_def buffer_of_buffer_text append_line_buffer unbuffer(1))
next
  case (Some b)
  then show ?thesis
    by (cases "append_line E (line_prefix a @ b @ s @ t) a")
       (simp_all add: ik_repl_flush_line_to_scrollback_def buffer_of_buffer_text append_line_buffer unbuffer(2))
qed

lemma delta_loop_buffered: "s \<noteq> [] \<Longrightarrow> delta_loop E (s @ t) cs a = delta_loop E t cs (buffer_text s a)"
proof (induction cs arbitrary: t)
  case (Cons c cs)
  then show ?case using Cons.IH [of "t @ [c]"] by (simp add: flush_buffered)
qed (simp add: buffer_append)

lemma delta_loop_append: "delta_loop E s (xs @ ys) a = res_bind (delta_loop E s xs a) (delta_loop E [] ys)"
proof (induction xs arbitrary: s a)
  case Nil
  then show ?case using delta_loop_buffered [of s E "[]" ys a] by simp
next
  case (Cons c xs)
  then show ?case by (cases "ik_repl_flush_line_to_scrollback E s a") simp_all
qed

definition longer :: "cstr option \<Rightarrow> cstr \<Rightarrow> cstr option" where
  "longer r t = (if t = [] then r else Some (case r of None \<Rightarrow> t | Some s \<Rightarrow> s @ t))"

lemma text_delta_alt:
  "ik_repl_handle_text_delta E t a
   = delta_loop E [] t (set_response (longer (al_assistant_response (ac_llm a)) t) a)"
  by (cases "al_assistant_response (ac_llm a)")
     (simp_all add: ik_repl_handle_text_delta_def set_response_def longer_def on_llm_def)

lemma longer_longer: "longer (longer r s) t = longer r (s @ t)"
  by (simp add: longer_def split: option.splits)

lemma delta_loop_keeps_response:
  "delta_loop E s cs a = Inr b \<Longrightarrow> al_assistant_response (ac_llm b) = al_assistant_response (ac_llm a)"
proof (induction cs arbitrary: s a)
  case (Cons c cs)
  have "al_assistant_response (ac_llm a') = al_assistant_response (ac_llm a)"
    if "ik_repl_flush_line_to_scrollback E s a = Inr a'" for a'
    using that by (auto simp: ik_repl_flush_line_to_scrollback_def append_line_def on_scrollback_def res_bind_Inr_iff
        not_first_def on_llm_def split: option.splits if_splits)
  then show ?case using Cons by (auto simp: res_bind_Inr_iff split: if_splits)
qed (auto simp: buffer_text_def on_llm_def split: if_splits)

lemma delta_append:
  "res_bind (ik_repl_handle_text_delta E s a) (ik_repl_handle_text_delta E t) = ik_repl_handle_text_delta E (s @ t) a"
proof -
  let ?r = "al_assistant_response (ac_llm a)"
  have "al_assistant_response (ac_llm b) = ?r" if "delta_loop E [] s a = Inr b" for b
    using delta_loop_keeps_response [OF that] .
  then show ?thesis
    by (cases "delta_loop E [] s a")
       (simp_all add: text_delta_alt delta_loop_response delta_loop_append longer_longer [symmetric],
        simp_all add: set_response_def on_llm_def longer_longer)
qed

lemma stream_deltas_concat: "stream_deltas E ds a = ik_repl_handle_text_delta E (concat ds) a"
proof (induction ds arbitrary: a)
  case (Cons d ds)
  then show ?case by (cases "ik_repl_handle_text_delta E d a") (simp_all add: delta_append [symmetric])
qed (simp add: ik_repl_handle_text_delta_def)

subsection \<open>One chunk line by line\<close>

definition kept :: "cstr list \<Rightarrow> cstr list" where
  "kept ls = (if last ls = [] then butlast ls else ls)"

lemma text_lines_nonempty [simp]: "text_lines s cs \<noteq> []"
  by (induction cs arbitrary: s) simp_all

lemma kept_Cons: "ls \<noteq> [] \<Longrightarrow> kept (l # ls) = l # kept ls"
  by (simp add: kept_def)

lemma append_line_shows:
  assumes "sb_repr (en_utf8proc E) (ac_scrollback a) lines"
  shows "\<exists>sb. append_line E t a = Inr (a\<lparr>ac_scrollback := sb\<rparr>) \<and> sb_repr (en_utf8proc E) sb (lines @ [t])"
  using append_line_repr [OF assms, of t] by (auto simp: append_line_def on_scrollback_def elim!: returnsE)

lemma delta_loop_shows:
  assumes "sb_repr (en_utf8proc E) (ac_scrollback a) lines" and "al_streaming_line_buffer (ac_llm a) = None"
  shows "returns (res_bind (delta_loop E s cs a) (flush_buffer E))
    (\<lambda>a'. sb_repr (en_utf8proc E) (ac_scrollback a')
       (lines @ shown (al_streaming_first_line (ac_llm a)) (kept (text_lines s cs))))"
  using assms
proof (induction cs arbitrary: s a lines)
  case Nil
  obtain sb where sb: "append_line E (line_prefix a @ s) (buffer_text s a) = Inr ((buffer_text s a)\<lparr>ac_scrollback := sb\<rparr>)"
    "sb_repr (en_utf8proc E) sb (lines @ [line_prefix a @ s])"
    using append_line_shows [of E "buffer_text s a" lines "line_prefix a @ s"] Nil.prems(1)
    by (auto simp: buffer_text_def on_llm_def)
  have "line_prefix a = (if al_streaming_first_line (ac_llm a) then model_prefix else [])"
    by (simp add: line_prefix_def model_prefix_def)
  then show ?case
    using Nil.prems sb by (auto simp: kept_def flush_buffer_def buffer_of_buffer_text on_llm_def)
next
  case (Cons c cs)
  show ?case
  proof (cases "c = 10")
    case newline: True
    let ?first = "al_streaming_first_line (ac_llm a)"
    show ?thesis
    proof (cases "s = [] \<and> ?first")
      case True
      then have "line_prefix a \<noteq> []" by (simp add: line_prefix_def)
      then show ?thesis
        using True newline Cons.prems Cons.IH [OF Cons.prems, of "[]"]
        by (simp add: ik_repl_flush_line_to_scrollback_def kept_Cons)
    next
      case False
      obtain sb where sb: "append_line E (line_prefix a @ s) a = Inr (a\<lparr>ac_scrollback := sb\<rparr>)"
        "sb_repr (en_utf8proc E) sb (lines @ [line_prefix a @ s])"
        using append_line_shows [OF Cons.prems(1)] by blast
      have p: "line_prefix a = (if ?first then model_prefix else [])"
        by (simp add: line_prefix_def model_prefix_def)
      have "ik_repl_flush_line_to_scrollback E s a = Inr (not_first (a\<lparr>ac_scrollback := sb\<rparr>))"
        using sb(1) Cons.prems(2) False p by (auto simp: ik_repl_flush_line_to_scrollback_def)
      then show ?thesis
        using newline False p sb(2) Cons.prems(2)
          Cons.IH [of "not_first (a\<lparr>ac_scrollback := sb\<rparr>)" "lines @ [line_prefix a @ s]" "[]"]
        by (auto simp: kept_Cons not_first_def on_llm_def)
    qed
  qed (use Cons in simp)
qed

lemma delta_shown:
  assumes "sb_repr (en_utf8proc E) (ac_scrollback a) lines" and "al_streaming_line_buffer (ac_llm a) = None"
    and "al_streaming_first_line (ac_llm a)" and "al_assistant_response (ac_llm a) = None"
  shows "returns (ik_repl_handle_text_delta E t a) (\<lambda>b. al_assistant_response (ac_llm b) = (if t = [] then None else Some t)
         \<and> returns (flush_buffer E b) (\<lambda>a'. sb_repr (en_utf8proc E) (ac_scrollback a') (lines @ answer_lines t)))"
proof -
  let ?a = "set_response (longer None t) a"
  have d: "ik_repl_handle_text_delta E t a = delta_loop E [] t ?a"
    by (simp add: text_delta_alt assms(4))
  have "returns (res_bind (delta_loop E [] t ?a) (flush_buffer E))
      (\<lambda>a'. sb_repr (en_utf8proc E) (ac_scrollback a') (lines @ shown True (kept (text_lines [] t))))"
    using delta_loop_shows [of E ?a lines "[]" t] assms(1-3) by (simp add: set_response_def on_llm_def)
  then obtain b where b: "delta_loop E [] t ?a = Inr b"
    "returns (flush_buffer E b) (\<lambda>a'. sb_repr (en_utf8proc E) (ac_scrollback a') (lines @ answer_lines t))"
    by (cases "delta_loop E [] t ?a") (simp_all add: answer_lines_def kept_def Let_def)
  have "al_assistant_response (ac_llm b) = longer None t"
    using delta_loop_keeps_response [OF b(1)] by (simp add: set_response_def on_llm_def)
  then have "al_assistant_response (ac_llm b) = (if t = [] then None else Some t)"
    by (simp only: longer_def option.case)
  then show ?thesis unfolding d b(1) returns.simps using b(2) by blast
qed

subsection \<open>Theorems\<close>

text \<open>C8. The streamed answer is shown the same in whatever chunks it arrives: after the chunks and the end of
  the stream, the scrollback has grown by exactly the lines of the whole text, without the empty lines
  before the first text and with the prefix on the first line, and the recorded answer is the whole text.\<close>

theorem streamed_answer:
  assumes "sb_repr (en_utf8proc E) (ac_scrollback a) lines" and "al_streaming_line_buffer (ac_llm a) = None"
    and "al_streaming_first_line (ac_llm a)" and "al_assistant_response (ac_llm a) = None"
  shows "stream_deltas E ds a = stream_deltas E [concat ds] a
    \<and> returns (stream_deltas E ds a) (\<lambda>b. al_assistant_response (ac_llm b) = (if concat ds = [] then None else Some (concat ds))
         \<and> returns (flush_buffer E b) (\<lambda>a'. sb_repr (en_utf8proc E) (ac_scrollback a') (lines @ answer_lines (concat ds))))"
  using delta_shown [OF assms, of "concat ds"] by (simp only: stream_deltas_concat) simp

definition streaming_ctx :: ik_agent_ctx where
  "streaming_ctx = on_llm (\<lambda>l. l\<lparr>al_streaming_first_line := True\<rparr>) sample_ctx"

theorem streamed_answer_witness:
  "stream_deltas sample_env [[0x61], [10, 0x62]] streaming_ctx = stream_deltas sample_env [[0x61, 10, 0x62]] streaming_ctx
   \<and> returns (stream_deltas sample_env [[0x61], [10, 0x62]] streaming_ctx)
       (\<lambda>b. al_assistant_response (ac_llm b) = Some [0x61, 10, 0x62]
         \<and> returns (flush_buffer sample_env b)
             (\<lambda>a'. sb_repr ref_utf8proc (ac_scrollback a') [model_prefix @ [0x61], [0x62]]))"
proof -
  have "sb_repr (en_utf8proc sample_env) (ac_scrollback streaming_ctx) []"
    "al_streaming_line_buffer (ac_llm streaming_ctx) = None" "al_streaming_first_line (ac_llm streaming_ctx)"
    "al_assistant_response (ac_llm streaming_ctx) = None"
    using sample_ctx by (simp_all add: streaming_ctx_def on_llm_def fresh_llm_def sample_env_def)
  note st = streamed_answer [OF this, of "[[0x61], [10, 0x62]]"]
  have c: "concat [[0x61], [10, 0x62]] = [0x61, 10, 0x62 :: byte]" by simp
  have l: "answer_lines [0x61, 10, 0x62] = [model_prefix @ [0x61], [0x62]]" by (simp add: answer_lines_def)
  have u: "en_utf8proc sample_env = ref_utf8proc" by (simp add: sample_env_def)
  have n: "(if [0x61, 10, 0x62 :: byte] = [] then None else Some [0x61, 10, 0x62 :: byte]) = Some [0x61, 10, 0x62]" by simp
  show ?thesis using st unfolding c l u n append_Nil .
qed

end
