(* ===== verification/Ik_Context_Window.thy ===== *)
theory Ik_Context_Window
  imports Ik_Agent
begin

text \<open>
  The sliding context window: the loop of \<open>ik_agent_prune_token_cache\<close> removes the oldest turns while the total
  exceeds the budget, and keeps at least one. Its specification on the list of the values of the turns is
  \<open>trim_turns\<close>.
\<close>

fun trim_turns :: "int \<Rightarrow> int \<Rightarrow> int list \<Rightarrow> int list" where
  "trim_turns budget base (v # w # vs) =
     (if base + sum_list (v # w # vs) > budget then trim_turns budget base (w # vs) else v # w # vs)"
| "trim_turns budget base vs = vs"

definition base_value :: "ik_agent \<Rightarrow> ik_token_cache \<Rightarrow> int" where
  "base_value A c = system_value A (tc_system_tokens c) + tool_value A (tc_tool_tokens c)"

lemma total_base: "total_value A c = base_value A c + sum_list (turn_values A c)"
  by (simp add: total_value_def base_value_def)

lemma trim_step:
  assumes "length vs > 1" and "base + sum_list vs > budget"
  shows "trim_turns budget base vs = trim_turns budget base (tl vs)"
  using assms by (cases "(budget, base, vs)" rule: trim_turns.cases) auto

lemma trim_stop: "\<not> (base + sum_list vs > budget \<and> length vs > 1) \<Longrightarrow> trim_turns budget base vs = vs"
  by (cases "(budget, base, vs)" rule: trim_turns.cases) auto

lemma prune_loop_trims:
  assumes "agent_ok A" and "cache_wf c" and "coherent A c"
  shows "safe (prune_loop A budget c) (\<lambda>c'. cache_wf c' \<and> coherent A c' \<and> base_value A c' = base_value A c
    \<and> turn_values A c' = trim_turns budget (base_value A c) (turn_values A c)
    \<and> (total_value A c' \<le> budget \<or> tc_turn_count c' \<le> 1))"
  using assms
proof (induction A budget c rule: prune_loop.induct)
  case (1 A budget c)
  note g = get_total_same [OF "1.prems"]
  show ?case
  proof (cases "ik_token_cache_get_total A c")
    case (Inl e)
    then show ?thesis using g by (subst prune_loop.simps) simp
  next
    case (Inr p)
    obtain c1 n where p: "p = (c1, n)" by fastforce
    have c1: "same_values A c c1" "n = total_value A c" "tc_total_tokens c1 = n" using g by (simp_all add: Inr p)
    then have wf: "cache_wf c1" "coherent A c1" "base_value A c1 = base_value A c" "turn_values A c1 = turn_values A c"
      "total_value A c1 = total_value A c"
      using same_values_total [OF c1(1)] by (simp_all add: same_values_def coherent_def base_value_def)
    have len: "length (turn_values A c1) = tc_turn_count c1" by simp
    show ?thesis
    proof (cases "n > budget \<and> tc_turn_count c1 > 1")
      case True
      have pr: "safe (ik_token_cache_prune_oldest_turn A c1)
        (\<lambda>c2. cache_wf c2 \<and> coherent A c2 \<and> turn_values A c2 = tl (turn_values A c1)
           \<and> tc_system_tokens c2 = tc_system_tokens c1 \<and> tc_tool_tokens c2 = tc_tool_tokens c1
           \<and> tc_pruned_turn_count c2 = tc_pruned_turn_count c1 + 1)"
        using True by (intro prune_ok [OF wf(1,2)]) simp
      show ?thesis
      proof (cases "ik_token_cache_prune_oldest_turn A c1")
        case (Inl e)
        then show ?thesis using Inr p True pr \<open>ik_token_cache_get_total A c = Inr p\<close> by (subst prune_loop.simps) simp
      next
        case prune: (Inr c2)
        have c2: "cache_wf c2" "coherent A c2" "turn_values A c2 = tl (turn_values A c1)" "base_value A c2 = base_value A c1"
          using pr by (simp_all add: prune base_value_def)
        have "trim_turns budget (base_value A c) (turn_values A c) = trim_turns budget (base_value A c2) (turn_values A c2)"
          using trim_step [of "turn_values A c1" budget "base_value A c1"] True len c1(2) wf c2(3,4)
          by (simp add: total_base)
        moreover have "prune_loop A budget c = prune_loop A budget c2"
          using Inr p True prune by (subst prune_loop.simps) simp
        ultimately show ?thesis
          using "1.IH" [OF Inr p [symmetric] True prune "1.prems"(1) c2(1,2)] c2(4) wf(3) by simp
      qed
    next
      case False
      have "prune_loop A budget c = Inr c1"
        using Inr p False by (subst prune_loop.simps) auto
      then show ?thesis
        using False wf c1(2) trim_stop [of budget "base_value A c1" "turn_values A c1"] len
        by (auto simp: total_base)
    qed
  qed
qed

subsection \<open>Theorems\<close>

text \<open>C7. The context window: pruning removes exactly the oldest turns that are needed, one by one until the total of
  the system prompt, the tools and the remaining turns is within the budget or one turn is left, and the cached
  total stays right. The loop ends.\<close>

theorem context_window:
  assumes "agent_ok A" and "cache_wf c" and "coherent A c"
  shows "safe (prune_loop A budget c) (\<lambda>c'. coherent A c'
    \<and> turn_values A c' = trim_turns budget (base_value A c) (turn_values A c)
    \<and> (total_value A c' \<le> budget \<or> tc_turn_count c' \<le> 1))"
  by (rule safe_mono [OF prune_loop_trims [OF assms]]) simp

definition two_turns :: ik_token_cache where
  "two_turns = \<lparr>tc_context_start_index = 0, tc_system_tokens = 10, tc_tool_tokens = 0, tc_turn_tokens = [60, 50],
     tc_turn_count = 2, tc_turn_capacity = 2, tc_total_tokens = - 1, tc_budget = 100, tc_pruned_turn_count = 0\<rparr>"

definition silent_agent :: ik_agent where
  "silent_agent = \<lparr>ag_messages = [], ag_model = None, ag_effective_prompt = None, ag_count_tokens = None\<rparr>"

theorem context_window_witness:
  "safe (prune_loop silent_agent 100 two_turns) (\<lambda>c'. coherent silent_agent c' \<and> turn_values silent_agent c' = [50]
     \<and> (total_value silent_agent c' \<le> 100 \<or> tc_turn_count c' \<le> 1))"
proof -
  have v: "turn_values silent_agent two_turns = [60, 50]" "base_value silent_agent two_turns = 10"
    by (simp_all add: turn_values_def two_turns_def turn_value_def base_value_def system_value_def tool_value_def upt_rec)
  have "agent_ok silent_agent" "cache_wf two_turns" "coherent silent_agent two_turns"
    by (simp_all add: agent_ok_def silent_agent_def cache_wf_def two_turns_def coherent_def)
  from context_window [OF this, of 100] show ?thesis by (simp add: v)
qed

end
