(* ===== verification/Ik_Key_Inject.thy ===== *)
theory Ik_Key_Inject
  imports Ik_Prelude
begin

text \<open>
  The buffer of injected keys, apps/ikigai/key_inject.c: bytes that the control socket queues and the event
  loop reads one at a time, and the unescaping of what the socket receives.

  The buffer is its allocated block; a reallocation passes the new size as a 32 bit number. The locale
  \<open>byte_queue\<close> is what the event loop relies on.
\<close>

subsection \<open>The code\<close>

record ik_key_inject_buf =
  ki_data :: "byte list"
  ki_len :: nat
  ki_capacity :: nat
  ki_read_pos :: nat

definition INITIAL_CAPACITY :: nat where
  "INITIAL_CAPACITY = 256"

definition ik_key_inject_init :: ik_key_inject_buf where
  "ik_key_inject_init =
     \<lparr>ki_data = replicate INITIAL_CAPACITY 0, ki_len = 0, ki_capacity = INITIAL_CAPACITY, ki_read_pos = 0\<rparr>"

text \<open>The loop that doubles the block until the bytes fit.\<close>

function inject_grow :: "nat \<Rightarrow> ik_key_inject_buf \<Rightarrow> ik_key_inject_buf" where
  "inject_grow n buf =
     (if ki_len buf + n > ki_capacity buf \<and> ki_capacity buf > 0
      then inject_grow n (buf\<lparr>ki_data := realloc 0 (ki_data buf) (ki_capacity buf * 2 mod 2 ^ 32),
                               ki_capacity := ki_capacity buf * 2\<rparr>)
      else buf)"
  by pat_completeness auto
termination
  by (relation "measure (\<lambda>(n, b). ki_len b + n - ki_capacity b)") auto

declare inject_grow.simps [simp del]

definition ik_key_inject_append :: "ik_key_inject_buf \<Rightarrow> byte list option \<Rightarrow> ik_key_inject_buf res" where
  "ik_key_inject_append buf raw_bytes =
     (case raw_bytes of None \<Rightarrow> Inl (Err INVALID_ARG)
      | Some bs \<Rightarrow>
         (let buf1 = inject_grow (length bs) buf
          in res_bind (copy_in (ki_data buf1) (ki_len buf1) bs)
               (\<lambda>d. Inr (buf1\<lparr>ki_data := d, ki_len := ki_len buf1 + length bs\<rparr>))))"

definition ik_key_inject_drain :: "ik_key_inject_buf \<Rightarrow> (ik_key_inject_buf \<times> byte option) res" where
  "ik_key_inject_drain buf =
     (if ki_read_pos buf \<ge> ki_len buf then Inr (buf, None)
      else res_bind (load (ki_data buf) (ki_read_pos buf)) (\<lambda>b.
        let buf1 = buf\<lparr>ki_read_pos := ki_read_pos buf + 1\<rparr>
        in Inr (if ki_read_pos buf1 = ki_len buf1 then buf1\<lparr>ki_read_pos := 0, ki_len := 0\<rparr> else buf1, Some b)))"

definition ik_key_inject_pending :: "ik_key_inject_buf \<Rightarrow> nat" where
  "ik_key_inject_pending buf = ki_len buf - ki_read_pos buf"

text \<open>\<^verbatim>\<open>strtol\<close> to the base 16 on two characters: the number when both are read. A space or a sign may come
  first.\<close>

definition hex_digit :: "byte \<Rightarrow> int option" where
  "hex_digit c =
     (if 0x30 \<le> c \<and> c \<le> 0x39 then Some (uint c - 0x30)
      else if 0x41 \<le> c \<and> c \<le> 0x46 then Some (uint c - 0x41 + 10)
      else if 0x61 \<le> c \<and> c \<le> 0x66 then Some (uint c - 0x61 + 10)
      else None)"

definition strtol_2 :: "byte \<Rightarrow> byte \<Rightarrow> int option" where
  "strtol_2 c d =
     (case hex_digit d of None \<Rightarrow> None
      | Some y \<Rightarrow> (case hex_digit c of Some x \<Rightarrow> Some (x * 16 + y)
          | None \<Rightarrow> if c = 0x20 \<or> (9 \<le> c \<and> c \<le> 13) \<or> c = 0x2B then Some y
                    else if c = 0x2D then Some (- y) else None))"

text \<open>One step of the loop at a non-empty rest of the input: the byte it writes and the bytes it consumes.\<close>

fun unescape_step :: "byte list \<Rightarrow> byte \<times> nat" where
  "unescape_step (c # rest) =
     (if c \<noteq> 0x5C \<or> rest = [] then (c, 1)
      else (let next_c = hd rest
            in if next_c = 0x72 then (13, 2)
               else if next_c = 0x6E then (10, 2)
               else if next_c = 0x74 then (9, 2)
               else if next_c = 0x5C then (0x5C, 2)
               else if next_c = 0x78 \<and> length rest \<ge> 3
               then (case strtol_2 (rest ! 1) (rest ! 2) of Some v \<Rightarrow> (word_of_int v, 4) | None \<Rightarrow> (c, 1))
               else (c, 1)))"
| "unescape_step [] = (0, 1)"

lemma unescape_step_pos: "snd (unescape_step t) \<ge> 1"
  by (cases t) (auto simp: Let_def split: option.split)

text \<open>The loop; \<open>cap\<close> bytes are allocated for the result.\<close>

function unescape_loop :: "nat \<Rightarrow> byte list \<Rightarrow> byte list \<Rightarrow> byte list res" where
  "unescape_loop cap t out =
     (if t = [] then Inr out
      else if length out \<ge> cap then Inl MemFault
      else unescape_loop cap (drop (snd (unescape_step t)) t) (out @ [fst (unescape_step t)]))"
  by pat_completeness auto
termination
  by (relation "measure (\<lambda>(c, t, out). length t)")
    (auto simp: length_greater_0_conv intro!: diff_less less_le_trans [OF _ unescape_step_pos])

declare unescape_loop.simps [simp del]

definition ik_key_inject_unescape :: "byte list option \<Rightarrow> byte list res" where
  "ik_key_inject_unescape inp =
     (case inp of None \<Rightarrow> Inl (Err INVALID_ARG)
      | Some t \<Rightarrow> unescape_loop (length t mod 2 ^ 32) t [])"

subsection \<open>A queue of bytes\<close>

text \<open>Reading until the queue is empty, at most \<open>n\<close> times.\<close>

fun drain_all :: "('s \<Rightarrow> ('s \<times> byte option) res) \<Rightarrow> nat \<Rightarrow> 's \<Rightarrow> ('s \<times> byte list) res" where
  "drain_all deq 0 s = Inr (s, [])"
| "drain_all deq (Suc n) s =
     res_bind (deq s) (\<lambda>(s', b). case b of None \<Rightarrow> Inr (s', [])
       | Some c \<Rightarrow> res_bind (drain_all deq n s') (\<lambda>(s'', cs). Inr (s'', c # cs)))"

locale byte_queue =
  fixes inv :: "'s \<Rightarrow> bool"
    and queued :: "'s \<Rightarrow> byte list"
    and room :: "'s \<Rightarrow> nat \<Rightarrow> bool"
    and enq :: "'s \<Rightarrow> byte list \<Rightarrow> 's res"
    and deq :: "'s \<Rightarrow> ('s \<times> byte option) res"
  assumes enq_law: "inv s \<Longrightarrow> room s (length bs) \<Longrightarrow> returns (enq s bs) (\<lambda>s'. inv s' \<and> queued s' = queued s @ bs)"
    and deq_law: "inv s \<Longrightarrow> returns (deq s) (\<lambda>(s', b). inv s' \<and>
      (case queued s of [] \<Rightarrow> b = None \<and> queued s' = [] | c # cs \<Rightarrow> b = Some c \<and> queued s' = cs))"
begin

lemma drain_all_spec:
  "inv s \<Longrightarrow> length (queued s) \<le> n \<Longrightarrow> returns (drain_all deq n s) (\<lambda>(s', bs). inv s' \<and> queued s' = [] \<and> bs = queued s)"
proof (induction n arbitrary: s)
  case (Suc n)
  obtain s' b where d: "deq s = Inr (s', b)" "inv s'"
    "case queued s of [] \<Rightarrow> b = None \<and> queued s' = [] | c # cs \<Rightarrow> b = Some c \<and> queued s' = cs"
    using deq_law [OF Suc.prems(1)] by (auto elim!: returnsE)
  show ?case
  proof (cases "queued s")
    case (Cons c cs)
    then have "returns (drain_all deq n s') (\<lambda>(s'', bs). inv s'' \<and> queued s'' = [] \<and> bs = cs)"
      using Suc.IH [OF d(2)] Suc.prems(2) d(3) by simp
    then show ?thesis using d Cons by (auto elim!: returnsE)
  qed (use d in simp)
qed simp

end

definition inject_inv :: "ik_key_inject_buf \<Rightarrow> bool" where
  "inject_inv b \<longleftrightarrow> length (ki_data b) = ki_capacity b \<and> 0 < ki_capacity b \<and> ki_capacity b < 2 ^ 32
     \<and> ki_len b \<le> ki_capacity b \<and> ki_read_pos b \<le> ki_len b"

definition inject_queued :: "ik_key_inject_buf \<Rightarrow> byte list" where
  "inject_queued b = drop (ki_read_pos b) (take (ki_len b) (ki_data b))"

definition inject_room :: "ik_key_inject_buf \<Rightarrow> nat \<Rightarrow> bool" where
  "inject_room b n \<longleftrightarrow> ki_len b + n < 2 ^ 31"

lemma inject_grow_spec:
  assumes "inject_inv b" and "inject_room b n"
  shows "inject_inv (inject_grow n b) \<and> ki_len (inject_grow n b) = ki_len b
    \<and> ki_read_pos (inject_grow n b) = ki_read_pos b
    \<and> take (ki_len b) (ki_data (inject_grow n b)) = take (ki_len b) (ki_data b)
    \<and> ki_len b + n \<le> ki_capacity (inject_grow n b)"
  using assms
proof (induction n b rule: inject_grow.induct)
  case (1 n b)
  show ?case
  proof (cases "ki_len b + n > ki_capacity b")
    case True
    let ?b = "b\<lparr>ki_data := realloc 0 (ki_data b) (ki_capacity b * 2 mod 2 ^ 32), ki_capacity := ki_capacity b * 2\<rparr>"
    have c: "ki_capacity b * 2 < 2 ^ 32" using True "1.prems"(2) by (simp add: inject_room_def)
    then have m: "ki_capacity b * 2 mod 2 ^ 32 = ki_capacity b * 2" by (rule mod_less)
    have "inject_inv ?b" "inject_room ?b n"
      using "1.prems" c m by (simp_all add: inject_inv_def inject_room_def)
    moreover have "take (ki_len b) (ki_data ?b) = take (ki_len b) (ki_data b)"
      using "1.prems"(1) unfolding m by (simp add: inject_inv_def take_realloc)
    moreover have "inject_grow n b = inject_grow n ?b"
      using True "1.prems"(1) by (subst inject_grow.simps) (simp add: inject_inv_def)
    moreover have "ki_len b + n > ki_capacity b \<and> ki_capacity b > 0" using True "1.prems"(1) by (simp add: inject_inv_def)
    ultimately show ?thesis using "1.IH" by simp
  next
    case False
    then show ?thesis using "1.prems" by (subst (1 2 3 4 5) inject_grow.simps) simp
  qed
qed

interpretation inject: byte_queue inject_inv inject_queued inject_room
  "\<lambda>b bs. ik_key_inject_append b (Some bs)" ik_key_inject_drain
proof
  fix b :: ik_key_inject_buf and bs :: "byte list"
  assume "inject_inv b" "inject_room b (length bs)"
  note g = inject_grow_spec [OF this]
  have l: "length (take (ki_len b) (ki_data b)) = ki_len b" using \<open>inject_inv b\<close> by (simp add: inject_inv_def)
  let ?b = "inject_grow (length bs) b"
  have "copy_in (ki_data ?b) (ki_len ?b) bs
      = Inr (take (ki_len b) (ki_data b) @ bs @ drop (ki_len b + length bs) (ki_data ?b))"
    using g by (simp add: inject_inv_def copy_in_def)
  then show "returns (ik_key_inject_append b (Some bs))
      (\<lambda>b'. inject_inv b' \<and> inject_queued b' = inject_queued b @ bs)"
    using g l \<open>inject_inv b\<close>
    by (simp add: ik_key_inject_append_def inject_inv_def inject_queued_def Let_def del: length_take)
next
  fix b assume i: "inject_inv b"
  show "returns (ik_key_inject_drain b) (\<lambda>(b', c). inject_inv b' \<and>
      (case inject_queued b of [] \<Rightarrow> c = None \<and> inject_queued b' = [] | x # xs \<Rightarrow> c = Some x \<and> inject_queued b' = xs))"
  proof (cases "ki_read_pos b < ki_len b")
    case True
    then have "inject_queued b = ki_data b ! ki_read_pos b # drop (Suc (ki_read_pos b)) (take (ki_len b) (ki_data b))"
      using i by (simp add: inject_queued_def inject_inv_def Cons_nth_drop_Suc [symmetric])
    then show ?thesis
      using True i by (auto simp: ik_key_inject_drain_def inject_inv_def Let_def) (auto simp: inject_queued_def)
  next
    case False
    then show ?thesis using i by (simp add: ik_key_inject_drain_def inject_queued_def inject_inv_def)
  qed
qed

subsection \<open>Properties\<close>

text \<open>The result is never longer than the input, so that the loop stays in the block.\<close>

lemma unescape_loop_fits:
  "length out + length t \<le> cap \<Longrightarrow> returns (unescape_loop cap t out) (\<lambda>bs. length bs \<le> length out + length t)"
proof (induction cap t out rule: unescape_loop.induct)
  case (1 cap t out)
  show ?case
  proof (cases "t = []")
    case False
    let ?n = "snd (unescape_step t)"
    have n: "1 \<le> ?n" by (rule unescape_step_pos)
    have len: "length t > 0" using False by simp
    have "returns (unescape_loop cap (drop ?n t) (out @ [fst (unescape_step t)]))
        (\<lambda>bs. length bs \<le> length (out @ [fst (unescape_step t)]) + length (drop ?n t))"
    proof (rule "1.IH" [OF False])
      show "\<not> cap \<le> length out" using "1.prems" len by linarith
      show "length (out @ [fst (unescape_step t)]) + length (drop ?n t) \<le> cap"
        using "1.prems" n len by (simp only: length_append length_drop list.size)
    qed
    moreover have "length (out @ [fst (unescape_step t)]) + length (drop ?n t) \<le> length out + length t"
      using n len by (simp only: length_append length_drop list.size)
    moreover have "unescape_loop cap t out = unescape_loop cap (drop ?n t) (out @ [fst (unescape_step t)])"
    proof -
      have "\<not> length out \<ge> cap" using "1.prems" len by linarith
      then show ?thesis using False by (subst unescape_loop.simps) simp
    qed
    ultimately show ?thesis by (auto elim!: returns_mono intro: le_trans)
  qed (subst unescape_loop.simps, simp)
qed

text \<open>Bytes written as hexadecimal escapes.\<close>

definition hex_char :: "nat \<Rightarrow> byte" where
  "hex_char d = (if d < 10 then word_of_nat (0x30 + d) else word_of_nat (0x61 + d - 10))"

definition escape_bytes :: "byte list \<Rightarrow> byte list" where
  "escape_bytes bs = concat (map (\<lambda>b. [0x5C, 0x78, hex_char (unat b div 16), hex_char (unat b mod 16)]) bs)"

lemma hex_pair:
  fixes b :: byte
  shows "strtol_2 (hex_char (unat b div 16)) (hex_char (unat b mod 16)) = Some (uint b)"
proof -
  have d: "hex_digit (hex_char d) = Some (int d)" if "d < 16" for d
  proof -
    have "\<forall>d<16. hex_digit (hex_char d) = Some (int d)" by code_simp
    then show ?thesis using that by blast
  qed
  have "unat b div 16 < 16" using unat_byte_less [of b] by simp
  then have "strtol_2 (hex_char (unat b div 16)) (hex_char (unat b mod 16)) = Some (int (unat b div 16) * 16 + int (unat b mod 16))"
    using d [of "unat b div 16"] d [of "unat b mod 16"] by (simp add: strtol_2_def)
  moreover have "unat b div 16 * 16 + unat b mod 16 = unat b" by (rule div_mult_mod_eq)
  then have "int (unat b div 16) * 16 + int (unat b mod 16) = uint b"
    unfolding uint_nat by (metis of_nat_add of_nat_mult of_nat_numeral)
  ultimately show ?thesis by (simp only:)
qed

lemma unescape_escape_loop:
  "length out + length bs \<le> cap \<Longrightarrow> unescape_loop cap (escape_bytes bs) out = Inr (out @ bs)"
proof (induction bs arbitrary: out)
  case Nil
  then show ?case by (subst unescape_loop.simps) (simp add: escape_bytes_def)
next
  case (Cons b bs)
  have "unescape_step (escape_bytes (b # bs)) = (b, 4)"
    by (simp add: escape_bytes_def hex_pair)
  then show ?case
    using Cons.IH [of "out @ [b]"] Cons.prems by (subst unescape_loop.simps) (simp add: escape_bytes_def)
qed

text \<open>C34. Keys sent over the control socket arrive as they were sent: any bytes, written as hexadecimal
  escapes, unescaped and appended to the buffer, are what the event loop reads behind the keys that were
  still queued, and the buffer is empty then.\<close>

theorem injected_keys:
  assumes "inject_inv buf" and "inject_room buf (length bs)" and "length bs < 2 ^ 30"
    and "n \<ge> length (inject_queued buf) + length bs"
  shows "returns (res_bind (ik_key_inject_unescape (Some (escape_bytes bs))) (\<lambda>raw.
       res_bind (ik_key_inject_append buf (Some raw)) (drain_all ik_key_inject_drain n)))
     (\<lambda>(buf', keys). keys = inject_queued buf @ bs \<and> inject_queued buf' = [] \<and> inject_inv buf')"
proof -
  have "length (escape_bytes bs) = 4 * length bs" by (induction bs) (simp_all add: escape_bytes_def)
  then have "ik_key_inject_unescape (Some (escape_bytes bs)) = Inr bs"
    using unescape_escape_loop [of "[]" bs "length (escape_bytes bs)"] assms(3)
    by (simp add: ik_key_inject_unescape_def)
  moreover have "returns (ik_key_inject_append buf (Some bs)) (\<lambda>b. inject_inv b \<and> inject_queued b = inject_queued buf @ bs)"
    by (rule inject.enq_law [OF assms(1,2)])
  then have "returns (res_bind (ik_key_inject_append buf (Some bs)) (drain_all ik_key_inject_drain n))
      (\<lambda>(buf', keys). keys = inject_queued buf @ bs \<and> inject_queued buf' = [] \<and> inject_inv buf')"
  proof (rule returns_bindI)
    fix b assume "inject_inv b \<and> inject_queued b = inject_queued buf @ bs"
    then show "returns (drain_all ik_key_inject_drain n b)
        (\<lambda>(buf', keys). keys = inject_queued buf @ bs \<and> inject_queued buf' = [] \<and> inject_inv buf')"
      using inject.drain_all_spec [of b n] assms(4) by (auto elim!: returns_mono)
  qed
  ultimately show ?thesis by simp
qed

theorem injected_keys_witness:
  "returns (res_bind (ik_key_inject_unescape (Some (escape_bytes [27, 91, 65]))) (\<lambda>raw.
       res_bind (ik_key_inject_append ik_key_inject_init (Some raw)) (drain_all ik_key_inject_drain 5)))
     (\<lambda>(buf', keys). keys = [27, 91, 65])"
proof -
  have "inject_inv ik_key_inject_init" "inject_queued ik_key_inject_init = []"
    by (simp_all add: inject_inv_def ik_key_inject_init_def INITIAL_CAPACITY_def inject_queued_def)
  moreover have "inject_room ik_key_inject_init (length [27 :: byte, 91, 65])"
    by (simp add: inject_room_def ik_key_inject_init_def)
  ultimately show ?thesis
    using injected_keys [of ik_key_inject_init "[27, 91, 65]" 5] by (auto elim!: returns_mono)
qed

end
