(* ===== verification/Ik_Repl.thy ===== *)
theory Ik_Repl
  imports Ik_Agent Ik_Editor_Runs Ik_History Ik_Scroll_Detector Ik_Input_Parser Ik_Key_Inject
begin

text \<open>
  The state of the REPL and the actions on one agent: apps/ikigai/repl.h, repl_actions_viewport.c,
  repl_actions_completion.c, repl_actions_history.c and the height of the document of repl_viewport.c.

  The agents are a list and the pointer to the current one is its index, \<open>None\<close> after the current agent has
  been removed. An action on the current agent takes the agent and yields the changed one; the size of the
  terminal, \<open>rows\<close> and \<open>cols\<close>, is an argument.
\<close>

record ik_repl_ctx =
  rp_agents :: "ik_agent_ctx list"
  rp_current :: "nat option"
  rp_history :: "ik_history option"
  rp_has_cfg :: bool
  rp_input_parser :: ik_input_parser
  rp_quit :: bool
  rp_scroll_det :: "ik_scroll_detector option"
  rp_key_inject_buf :: "ik_key_inject_buf option"
  rp_framebuffer :: "byte list"
  rp_cursor_row :: int
  rp_cursor_col :: int

definition current_agent :: "ik_repl_ctx \<Rightarrow> ik_agent_ctx res" where
  "current_agent r = (case rp_current r of None \<Rightarrow> Inl MemFault | Some i \<Rightarrow> load (rp_agents r) i)"

definition set_current :: "ik_repl_ctx \<Rightarrow> ik_agent_ctx \<Rightarrow> ik_repl_ctx res" where
  "set_current r a =
     (case rp_current r of None \<Rightarrow> Inl MemFault
      | Some i \<Rightarrow> res_bind (store (rp_agents r) i a) (\<lambda>as. Inr (r\<lparr>rp_agents := as\<rparr>)))"

definition on_current :: "(ik_agent_ctx \<Rightarrow> ik_agent_ctx res) \<Rightarrow> ik_repl_ctx \<Rightarrow> ik_repl_ctx res" where
  "on_current f r = res_bind (current_agent r) (\<lambda>a. res_bind (f a) (set_current r))"

definition on_input :: "(ik_input_buffer \<Rightarrow> ik_input_buffer res) \<Rightarrow> ik_agent_ctx \<Rightarrow> ik_agent_ctx res" where
  "on_input f a = res_bind (f (ac_input_buffer a)) (\<lambda>b. Inr (a\<lparr>ac_input_buffer := b\<rparr>))"

subsection \<open>repl_viewport.c: the height of the document\<close>

definition ik_repl_calculate_document_height :: "ik_agent_ctx \<Rightarrow> nat" where
  "ik_repl_calculate_document_height a =
     (let banner_rows = (if ac_banner_visible a then 6 else 0);
          scrollback_rows = ik_scrollback_get_total_physical_lines (ac_scrollback a);
          spinner_rows = (if sp_visible (ac_spinner_state a) then 1 else 0);
          separator_rows = 1;
          input_buffer_rows = ik_input_buffer_get_physical_lines (ac_input_buffer a);
          input_rows = (if ac_input_buffer_visible a then (if input_buffer_rows = 0 then 1 else input_buffer_rows) else 0);
          completion_rows = (case ac_completion a of Some c \<Rightarrow> length (cp_candidates c) | None \<Rightarrow> 0);
          status_rows = (if ac_status_visible a then 2 else 0)
      in banner_rows + scrollback_rows + spinner_rows + separator_rows + input_rows + completion_rows + status_rows)"

subsection \<open>repl_actions_viewport.c\<close>

definition MOUSE_SCROLL_LINES :: nat where
  "MOUSE_SCROLL_LINES = 3"

definition ensure_layouts :: "utf8proc \<Rightarrow> int \<Rightarrow> ik_agent_ctx \<Rightarrow> ik_agent_ctx res" where
  "ensure_layouts U cols a =
     res_bind (ik_scrollback_ensure_layout (ac_scrollback a) cols)
       (\<lambda>sb. Inr (a\<lparr>ac_scrollback := sb,
                     ac_input_buffer := ik_input_buffer_ensure_layout U (ac_input_buffer a) cols\<rparr>))"

definition ik_repl_calculate_max_viewport_offset ::
  "utf8proc \<Rightarrow> nat \<Rightarrow> int \<Rightarrow> ik_agent_ctx \<Rightarrow> (ik_agent_ctx \<times> nat) res" where
  "ik_repl_calculate_max_viewport_offset U rows cols a =
     res_bind (ensure_layouts U cols a)
       (\<lambda>a'. let document_height = ik_repl_calculate_document_height a'
             in Inr (a', if document_height > rows then document_height - rows else 0))"

text \<open>Scrolling up by \<open>n\<close> rows and down by \<open>n\<close> rows, with the clamping of both.\<close>

definition scroll_up_by :: "utf8proc \<Rightarrow> nat \<Rightarrow> int \<Rightarrow> nat \<Rightarrow> ik_agent_ctx \<Rightarrow> ik_agent_ctx res" where
  "scroll_up_by U rows cols n a =
     res_bind (ik_repl_calculate_max_viewport_offset U rows cols a)
       (\<lambda>(a', max_offset). let new_offset = ac_viewport_offset a' + n
          in Inr (a'\<lparr>ac_viewport_offset := (if new_offset > max_offset then max_offset else new_offset)\<rparr>))"

definition scroll_down_by :: "nat \<Rightarrow> ik_agent_ctx \<Rightarrow> ik_agent_ctx res" where
  "scroll_down_by n a =
     Inr (a\<lparr>ac_viewport_offset := (if ac_viewport_offset a \<ge> n then ac_viewport_offset a - n else 0)\<rparr>)"

definition ik_repl_handle_page_up_action :: "utf8proc \<Rightarrow> nat \<Rightarrow> int \<Rightarrow> ik_agent_ctx \<Rightarrow> ik_agent_ctx res" where
  "ik_repl_handle_page_up_action U rows cols a = scroll_up_by U rows cols rows a"

definition ik_repl_handle_page_down_action :: "nat \<Rightarrow> ik_agent_ctx \<Rightarrow> ik_agent_ctx res" where
  "ik_repl_handle_page_down_action rows a = scroll_down_by rows a"

definition ik_repl_handle_scroll_up_action :: "utf8proc \<Rightarrow> nat \<Rightarrow> int \<Rightarrow> ik_agent_ctx \<Rightarrow> ik_agent_ctx res" where
  "ik_repl_handle_scroll_up_action U rows cols a = scroll_up_by U rows cols MOUSE_SCROLL_LINES a"

definition ik_repl_handle_scroll_down_action :: "ik_agent_ctx \<Rightarrow> ik_agent_ctx res" where
  "ik_repl_handle_scroll_down_action a = scroll_down_by MOUSE_SCROLL_LINES a"

subsection \<open>repl_actions_history.c\<close>

definition ik_repl_handle_arrow_up_action :: "utf8proc \<Rightarrow> nat \<Rightarrow> int \<Rightarrow> ik_agent_ctx \<Rightarrow> ik_agent_ctx res" where
  "ik_repl_handle_arrow_up_action U rows cols a =
     (if ac_viewport_offset a > 0 then ik_repl_handle_scroll_up_action U rows cols a
      else (case ac_completion a of
              Some c \<Rightarrow> res_bind (ik_completion_prev c) (\<lambda>c'. Inr (a\<lparr>ac_completion := Some c'\<rparr>))
            | None \<Rightarrow> on_input (ik_input_buffer_cursor_up U) a))"

definition ik_repl_handle_arrow_down_action :: "utf8proc \<Rightarrow> ik_agent_ctx \<Rightarrow> ik_agent_ctx res" where
  "ik_repl_handle_arrow_down_action U a =
     (if ac_viewport_offset a > 0 then ik_repl_handle_scroll_down_action a
      else (case ac_completion a of
              Some c \<Rightarrow> res_bind (ik_completion_next c) (\<lambda>c'. Inr (a\<lparr>ac_completion := Some c'\<rparr>))
            | None \<Rightarrow> on_input (ik_input_buffer_cursor_down U) a))"

subsection \<open>repl_actions_completion.c\<close>

definition ik_repl_dismiss_completion :: "ik_agent_ctx \<Rightarrow> ik_agent_ctx" where
  "ik_repl_dismiss_completion a = a\<lparr>ac_completion := None\<rparr>"

text \<open>The text of the input buffer; \<^verbatim>\<open>NULL\<close> comes with the length 0.\<close>

definition input_bytes :: "ik_agent_ctx \<Rightarrow> byte list" where
  "input_bytes a = (case ik_input_buffer_get_text (ac_input_buffer a) of None \<Rightarrow> [] | Some t \<Rightarrow> t)"

definition ik_repl_update_completion_after_char :: "fzy \<Rightarrow> ik_agent_ctx \<Rightarrow> ik_agent_ctx res" where
  "ik_repl_update_completion_after_char F a =
     (let txt = input_bytes a
      in if length txt > 0 \<and> txt ! 0 = 0x2F then
           (let original_input = (case ac_completion a of None \<Rightarrow> None | Some c \<Rightarrow> cp_original_input c)
            in res_bind (ik_completion_create_for_commands F (c_string txt))
                 (\<lambda>new_comp. Inr (a\<lparr>ac_completion :=
                    (case (new_comp, original_input) of
                       (Some c, Some t) \<Rightarrow> Some (c\<lparr>cp_original_input := Some t\<rparr>)
                     | _ \<Rightarrow> new_comp)\<rparr>)))
         else Inr (ik_repl_dismiss_completion a))"

definition build_completion_buffer_text :: "ik_completion \<Rightarrow> cstr \<Rightarrow> cstr option res" where
  "build_completion_buffer_text c suffix =
     res_bind (ik_completion_get_current c)
       (\<lambda>s. case s of None \<Rightarrow> Inr None
        | Some selected \<Rightarrow>
            (let original = (case cp_original_input c of Some t \<Rightarrow> t | None \<Rightarrow> cp_prefix c)
             in case strchr original 0x20 of
                  Some space_pos \<Rightarrow> Inr (Some (take (space_pos + 1) original @ selected @ suffix))
                | None \<Rightarrow> Inr (Some ([0x2F] @ selected @ suffix))))"

text \<open>Replacing the input by a text and moving the cursor to the end of the line.\<close>

definition replace_input :: "utf8proc \<Rightarrow> cstr \<Rightarrow> ik_agent_ctx \<Rightarrow> ik_agent_ctx res" where
  "replace_input U t a =
     on_input (\<lambda>b. res_bind (ik_input_buffer_set_text b (Some t)) (ik_input_buffer_cursor_to_line_end U)) a"

definition update_input_with_completion_selection :: "utf8proc \<Rightarrow> ik_completion \<Rightarrow> ik_agent_ctx \<Rightarrow> ik_agent_ctx res" where
  "update_input_with_completion_selection U c a =
     res_bind (build_completion_buffer_text c [])
       (\<lambda>t. case t of None \<Rightarrow> Inr a | Some replacement \<Rightarrow> replace_input U replacement a)"

definition ik_repl_handle_completion_space_commit :: "utf8proc \<Rightarrow> ik_agent_ctx \<Rightarrow> ik_agent_ctx res" where
  "ik_repl_handle_completion_space_commit U a =
     (case ac_completion a of None \<Rightarrow> Inr a
      | Some c \<Rightarrow>
          res_bind (build_completion_buffer_text c [0x20])
            (\<lambda>t. let a' = ik_repl_dismiss_completion a
                 in case t of None \<Rightarrow> Inr a' | Some replacement \<Rightarrow> replace_input U replacement a'))"

definition ik_repl_handle_tab_action :: "utf8proc \<Rightarrow> fzy \<Rightarrow> ik_agent_ctx \<Rightarrow> ik_agent_ctx res" where
  "ik_repl_handle_tab_action U F a =
     (case ac_completion a of
        Some c0 \<Rightarrow>
          (let c1 = (case cp_original_input c0 of
                       None \<Rightarrow> c0\<lparr>cp_original_input := Some (c_string (input_bytes a))\<rparr> | Some t \<Rightarrow> c0)
           in res_bind (ik_completion_next c1)
                (\<lambda>c. res_bind (update_input_with_completion_selection U c a)
                       (\<lambda>a'. Inr (ik_repl_dismiss_completion a'))))
      | None \<Rightarrow>
          (let txt = input_bytes a
           in if length txt = 0 \<or> txt ! 0 \<noteq> 0x2F then Inr a
              else (let prefix = c_string txt
                    in res_bind (case strchr prefix 0x20 of
                                   Some sp \<Rightarrow> ik_completion_create_for_arguments F (ac_marks a) prefix
                                 | None \<Rightarrow> ik_completion_create_for_commands F prefix)
                         (\<lambda>m. case m of None \<Rightarrow> Inr a
                          | Some c \<Rightarrow>
                              res_bind (update_input_with_completion_selection U
                                          (c\<lparr>cp_original_input := Some prefix\<rparr>) a)
                                (\<lambda>a'. Inr (ik_repl_dismiss_completion a'))))))"

end
