(* ===== verification/Ik_Repl_Nav.thy ===== *)
theory Ik_Repl_Nav
  imports Ik_Repl
begin

text \<open>
  The agents of the REPL and the navigation between them: apps/ikigai/repl_agent_mgmt.c and repl_navigation.c.

  An agent is known by its index in the array, in the place of the pointer; the pointers of the array are
  distinct. The local array of 64 siblings is a block of 64 cells.
\<close>

subsection \<open>repl_agent_mgmt.c\<close>

definition ik_repl_add_agent :: "ik_agent_ctx \<Rightarrow> ik_repl_ctx \<Rightarrow> ik_repl_ctx" where
  "ik_repl_add_agent a r = r\<lparr>rp_agents := rp_agents r @ [a]\<rparr>"

fun find_uuid :: "ik_agent_ctx list \<Rightarrow> cstr \<Rightarrow> nat \<Rightarrow> nat option" where
  "find_uuid [] uuid i = None"
| "find_uuid (a # as) uuid i = (if ac_uuid a = uuid then Some i else find_uuid as uuid (i + 1))"

text \<open>The agents behind the removed one move down; the pointer to the current agent stays on its agent.\<close>

definition ik_repl_remove_agent :: "cstr \<Rightarrow> ik_repl_ctx \<Rightarrow> ik_repl_ctx res" where
  "ik_repl_remove_agent uuid r =
     (case find_uuid (rp_agents r) uuid 0 of None \<Rightarrow> Inl (Err AGENT_NOT_FOUND)
      | Some index \<Rightarrow>
         Inr (r\<lparr>rp_agents := take index (rp_agents r) @ drop (index + 1) (rp_agents r),
                rp_current := (case rp_current r of None \<Rightarrow> None
                   | Some k \<Rightarrow> if k = index then None else if k > index then Some (k - 1) else Some k)\<rparr>))"

text \<open>The indices of the agents whose identifier has the given prefix.\<close>

definition prefix_matches :: "cstr \<Rightarrow> ik_repl_ctx \<Rightarrow> nat list" where
  "prefix_matches p r = filter (\<lambda>i. take (length p) (ac_uuid (rp_agents r ! i)) = p) [0..<length (rp_agents r)]"

definition ik_repl_find_agent :: "cstr \<Rightarrow> ik_repl_ctx \<Rightarrow> nat option" where
  "ik_repl_find_agent uuid_prefix r =
     (if length uuid_prefix < 4 then None
      else (case find_uuid (rp_agents r) uuid_prefix 0 of Some i \<Rightarrow> Some i
            | None \<Rightarrow> (case prefix_matches uuid_prefix r of [i] \<Rightarrow> Some i | _ \<Rightarrow> None)))"

definition ik_repl_uuid_ambiguous :: "cstr \<Rightarrow> ik_repl_ctx \<Rightarrow> bool" where
  "ik_repl_uuid_ambiguous uuid_prefix r =
     (if length uuid_prefix < 4 then False else length (prefix_matches uuid_prefix r) > 1)"

subsection \<open>repl_navigation.c: the context of the separator\<close>

text \<open>Every agent has a separator layer, so that the early return without one is not modelled.\<close>

definition same_parent :: "cstr option \<Rightarrow> cstr option \<Rightarrow> bool" where
  "same_parent p q = (case (p, q) of (None, None) \<Rightarrow> True | (Some s, Some t) \<Rightarrow> s = t | _ \<Rightarrow> False)"

definition find_agent_by_uuid :: "ik_repl_ctx \<Rightarrow> cstr \<Rightarrow> ik_agent_ctx option" where
  "find_agent_by_uuid r uuid = find (\<lambda>a. ac_uuid a = uuid) (rp_agents r)"

text \<open>One agent of the scan: the children are counted, the nearest older and the nearest other sibling kept.\<close>

definition nav_step ::
  "ik_repl_ctx \<Rightarrow> ik_agent_ctx \<Rightarrow> ik_agent_ctx \<Rightarrow> ik_separator_nav_context \<Rightarrow> ik_separator_nav_context" where
  "nav_step r cur a ctx =
     (let c1 = (if ac_parent_uuid a = Some (ac_uuid cur) then ctx\<lparr>nav_child_count := nav_child_count ctx + 1\<rparr> else ctx)
      in if \<not> same_parent (ac_parent_uuid cur) (ac_parent_uuid a) then c1
         else if ac_created_at a < ac_created_at cur then
           (case nav_prev_sibling_uuid c1 of None \<Rightarrow> c1\<lparr>nav_prev_sibling_uuid := Some (ac_uuid a)\<rparr>
            | Some p \<Rightarrow> (case find_agent_by_uuid r p of None \<Rightarrow> c1
                | Some q \<Rightarrow> if ac_created_at a > ac_created_at q then c1\<lparr>nav_prev_sibling_uuid := Some (ac_uuid a)\<rparr> else c1))
         else
           (case nav_next_sibling_uuid c1 of None \<Rightarrow> c1\<lparr>nav_next_sibling_uuid := Some (ac_uuid a)\<rparr>
            | Some p \<Rightarrow> (case find_agent_by_uuid r p of None \<Rightarrow> c1
                | Some q \<Rightarrow> if ac_created_at a < ac_created_at q then c1\<lparr>nav_next_sibling_uuid := Some (ac_uuid a)\<rparr> else c1)))"

definition ik_repl_update_nav_context :: "ik_repl_ctx \<Rightarrow> ik_repl_ctx res" where
  "ik_repl_update_nav_context r =
     (case rp_current r of None \<Rightarrow> Inr r
      | Some k \<Rightarrow>
         res_bind (load (rp_agents r) k) (\<lambda>cur.
           let ctx0 = \<lparr>nav_parent_uuid = ac_parent_uuid cur, nav_prev_sibling_uuid = None,
                       nav_current_uuid = Some (ac_uuid cur), nav_next_sibling_uuid = None, nav_child_count = 0\<rparr>;
               ctx = fold (\<lambda>i. if i = k then id else nav_step r cur (rp_agents r ! i)) [0..<length (rp_agents r)] ctx0
           in set_current r (cur\<lparr>ac_nav_ctx := ctx\<rparr>)))"

subsection \<open>repl_navigation.c: switching\<close>

definition ik_repl_switch_agent :: "nat option \<Rightarrow> ik_repl_ctx \<Rightarrow> ik_repl_ctx res" where
  "ik_repl_switch_agent new_agent r =
     (case new_agent of None \<Rightarrow> Inl (Err INVALID_ARG)
      | Some k \<Rightarrow> if rp_current r = Some k then Inr r else ik_repl_update_nav_context (r\<lparr>rp_current := Some k\<rparr>))"

text \<open>The loop that collects the siblings: \<open>n\<close> of them are in the block.\<close>

fun sibling_loop :: "ik_agent_ctx list \<Rightarrow> cstr option \<Rightarrow> nat \<Rightarrow> nat list \<Rightarrow> nat \<Rightarrow> (nat list \<times> nat) res" where
  "sibling_loop [] parent i siblings n = Inr (siblings, n)"
| "sibling_loop (a # as) parent i siblings n =
     (if same_parent parent (ac_parent_uuid a)
      then res_bind (store siblings n i) (\<lambda>siblings'. sibling_loop as parent (i + 1) siblings' (n + 1))
      else sibling_loop as parent (i + 1) siblings n)"

text \<open>The first index of a value in the first \<open>n\<close> cells, 0 when it is not there.\<close>

definition current_index :: "nat list \<Rightarrow> nat \<Rightarrow> nat \<Rightarrow> nat" where
  "current_index siblings n k = (case find (\<lambda>i. siblings ! i = k) [0..<n] of Some i \<Rightarrow> i | None \<Rightarrow> 0)"

definition nav_sibling :: "(nat \<Rightarrow> nat \<Rightarrow> nat) \<Rightarrow> ik_repl_ctx \<Rightarrow> ik_repl_ctx res" where
  "nav_sibling pick r =
     (case rp_current r of None \<Rightarrow> Inl AssertFail
      | Some k \<Rightarrow>
         res_bind (load (rp_agents r) k) (\<lambda>cur.
         res_bind (sibling_loop (rp_agents r) (ac_parent_uuid cur) 0 (replicate 64 0) 0) (\<lambda>(siblings, sibling_count).
           if sibling_count \<le> 1 then Inr r
           else res_bind (load siblings (pick (current_index siblings sibling_count k) sibling_count))
                  (\<lambda>s. ik_repl_switch_agent (Some s) r))))"

definition ik_repl_nav_prev_sibling :: "ik_repl_ctx \<Rightarrow> ik_repl_ctx res" where
  "ik_repl_nav_prev_sibling = nav_sibling (\<lambda>current_idx n. if current_idx = 0 then n - 1 else current_idx - 1)"

definition ik_repl_nav_next_sibling :: "ik_repl_ctx \<Rightarrow> ik_repl_ctx res" where
  "ik_repl_nav_next_sibling = nav_sibling (\<lambda>current_idx n. (current_idx + 1) mod n)"

definition ik_repl_nav_parent :: "ik_repl_ctx \<Rightarrow> ik_repl_ctx res" where
  "ik_repl_nav_parent r =
     (case rp_current r of None \<Rightarrow> Inl AssertFail
      | Some k \<Rightarrow>
         res_bind (load (rp_agents r) k) (\<lambda>cur.
           case ac_parent_uuid cur of None \<Rightarrow> Inr r
           | Some p \<Rightarrow> (case ik_repl_find_agent p r of None \<Rightarrow> Inr r | Some i \<Rightarrow> ik_repl_switch_agent (Some i) r)))"

text \<open>The newest child: the first of those with the latest time of creation.\<close>

fun newest_child :: "ik_agent_ctx list \<Rightarrow> cstr \<Rightarrow> nat \<Rightarrow> (nat \<times> int) option \<Rightarrow> (nat \<times> int) option" where
  "newest_child [] uuid i best = best"
| "newest_child (a # as) uuid i best =
     newest_child as uuid (i + 1)
       (if ac_parent_uuid a = Some uuid
        then (case best of None \<Rightarrow> Some (i, ac_created_at a)
              | Some (j, t) \<Rightarrow> if ac_created_at a > t then Some (i, ac_created_at a) else Some (j, t))
        else best)"

definition ik_repl_nav_child :: "ik_repl_ctx \<Rightarrow> ik_repl_ctx res" where
  "ik_repl_nav_child r =
     (case rp_current r of None \<Rightarrow> Inl AssertFail
      | Some k \<Rightarrow>
         res_bind (load (rp_agents r) k) (\<lambda>cur.
           case newest_child (rp_agents r) (ac_uuid cur) 0 None of None \<Rightarrow> Inr r
           | Some (i, t) \<Rightarrow> ik_repl_switch_agent (Some i) r))"

subsection \<open>The siblings\<close>

text \<open>The indices of the siblings of the agent \<open>k\<close>, itself included.\<close>

definition siblings_of :: "ik_repl_ctx \<Rightarrow> nat \<Rightarrow> nat list" where
  "siblings_of r k =
     filter (\<lambda>i. ac_parent_uuid (rp_agents r ! i) = ac_parent_uuid (rp_agents r ! k)) [0..<length (rp_agents r)]"

lemma same_parent_eq [simp]: "same_parent p q \<longleftrightarrow> p = q"
  by (auto simp: same_parent_def split: option.splits)

lemma sibling_loop_spec:
  assumes "length sib = 64" and "n + length (filter (\<lambda>a. ac_parent_uuid a = p) as) \<le> 64"
  shows "sibling_loop as p i sib n
    = Inr (take n sib @ map (\<lambda>j. i + j) (filter (\<lambda>j. ac_parent_uuid (as ! j) = p) [0..<length as])
           @ drop (n + length (filter (\<lambda>a. ac_parent_uuid a = p) as)) sib,
        n + length (filter (\<lambda>a. ac_parent_uuid a = p) as))"
  using assms
proof (induction as arbitrary: i sib n)
  case (Cons a as)
  have u: "[0..<length (a # as)] = 0 # map Suc [0..<length as]" by (simp add: map_Suc_upt upt_conv_Cons del: upt_Suc)
  have f: "filter (\<lambda>j. ac_parent_uuid ((a # as) ! j) = p) [0..<length (a # as)]
      = (if ac_parent_uuid a = p then [0] else []) @ map Suc (filter (\<lambda>j. ac_parent_uuid (as ! j) = p) [0..<length as])"
    unfolding u by (simp add: filter_map comp_def)
  show ?case
  proof (cases "ac_parent_uuid a = p")
    case True
    have "take (Suc n) (sib[n := i]) = take n sib @ [i]"
      using Cons.prems True by (simp add: take_Suc_conv_app_nth)
    then show ?thesis
      using Cons.IH [of "sib[n := i]" "n + 1" "i + 1"] Cons.prems True unfolding f
      by (simp add: comp_def)
  next
    case False
    then show ?thesis using Cons.IH [of sib n "i + 1"] Cons.prems unfolding f by (simp add: comp_def)
  qed
qed simp

lemma sibling_loop_overrun:
  assumes "length sib = 64" and "n \<le> 64" and "n + length (filter (\<lambda>a. ac_parent_uuid a = p) as) > 64"
  shows "sibling_loop as p i sib n = Inl MemFault"
  using assms
proof (induction as arbitrary: i sib n)
  case (Cons a as)
  then show ?case by (cases "n = 64") (auto simp: store_def)
qed simp

lemma length_filter_index: "length (filter (\<lambda>i. Q (xs ! i)) [0..<length xs]) = length (filter Q xs)"
  by (simp add: length_filter_conv_card cong: conj_cong)

lemma length_siblings:
  "length (filter (\<lambda>a. ac_parent_uuid a = ac_parent_uuid (rp_agents r ! k)) (rp_agents r)) = length (siblings_of r k)"
  unfolding siblings_of_def by (rule length_filter_index [symmetric])

lemma siblings_member: "k < length (rp_agents r) \<Longrightarrow> k \<in> set (siblings_of r k)"
  by (simp add: siblings_of_def)

lemma siblings_distinct: "distinct (siblings_of r k)"
  by (simp add: siblings_of_def)

lemma siblings_range: "i \<in> set (siblings_of r k) \<Longrightarrow> i < length (rp_agents r)"
  by (simp add: siblings_of_def)

text \<open>Switching changes the current agent and its view of the neighbours, nothing that decides who is a sibling.\<close>

definition same_family :: "ik_repl_ctx \<Rightarrow> ik_repl_ctx \<Rightarrow> bool" where
  "same_family r r' \<longleftrightarrow> map ac_parent_uuid (rp_agents r') = map ac_parent_uuid (rp_agents r)"

lemma same_family_siblings:
  assumes "same_family r r'" and "k \<in> set (siblings_of r j)"
  shows "siblings_of r' k = siblings_of r j"
proof -
  have len: "length (rp_agents r') = length (rp_agents r)" using assms(1) unfolding same_family_def by (metis length_map)
  have p: "ac_parent_uuid (rp_agents r' ! i) = ac_parent_uuid (rp_agents r ! i)" if "i < length (rp_agents r)" for i
    using assms(1) that len unfolding same_family_def by (metis nth_map)
  have k: "k < length (rp_agents r)" "ac_parent_uuid (rp_agents r ! k) = ac_parent_uuid (rp_agents r ! j)"
    using assms(2) by (auto simp: siblings_of_def)
  show ?thesis
    unfolding siblings_of_def len using k by (intro filter_cong) (auto simp: p)
qed

lemma switch_agent_spec:
  assumes "k < length (rp_agents r)"
  shows "returns (ik_repl_switch_agent (Some k) r) (\<lambda>r'. rp_current r' = Some k \<and> same_family r r')"
proof -
  have "map ac_parent_uuid ((rp_agents r)[k := (rp_agents r ! k)\<lparr>ac_nav_ctx := c\<rparr>]) = map ac_parent_uuid (rp_agents r)" for c
    by (rule nth_equalityI) (simp_all add: nth_list_update assms)
  then show ?thesis
    using assms
    by (simp add: ik_repl_switch_agent_def ik_repl_update_nav_context_def set_current_def Let_def same_family_def)
qed

lemma current_index_spec:
  assumes "distinct xs" and "i < length xs"
  shows "current_index (xs @ ys) (length xs) (xs ! i) = i"
proof -
  have "find (\<lambda>j. (xs @ ys) ! j = xs ! i) [0..<length xs] = Some i"
    unfolding find_Some_iff
  proof (intro exI [of _ i] conjI allI impI)
    fix j assume "j < i"
    then show "(xs @ ys) ! ([0..<length xs] ! j) \<noteq> xs ! i"
      using assms by (simp add: nth_append nth_eq_iff_index_eq)
  qed (use assms in \<open>simp_all add: nth_append\<close>)
  then show ?thesis by (simp add: current_index_def)
qed

lemma nav_sibling_spec:
  assumes k: "rp_current r = Some k" "k < length (rp_agents r)" and n: "length (siblings_of r k) \<le> 64"
    and i: "i < length (siblings_of r k)" "siblings_of r k ! i = k"
    and pick: "length (siblings_of r k) > 1 \<Longrightarrow> pick i (length (siblings_of r k)) < length (siblings_of r k)"
      "length (siblings_of r k) = 1 \<Longrightarrow> pick i 1 = 0"
  shows "returns (nav_sibling pick r)
    (\<lambda>r'. rp_current r' = Some (siblings_of r k ! pick i (length (siblings_of r k))) \<and> same_family r r')"
proof -
  let ?S = "siblings_of r k"
  have loop: "sibling_loop (rp_agents r) (ac_parent_uuid (rp_agents r ! k)) 0 (replicate 64 0) 0
      = Inr (?S @ replicate (64 - length ?S) 0, length ?S)"
    using sibling_loop_spec [of "replicate 64 0" 0 "ac_parent_uuid (rp_agents r ! k)" "rp_agents r" 0] n
    by (simp add: length_siblings) (simp add: siblings_of_def)
  show ?thesis
  proof (cases "length ?S > 1")
    case True
    have m: "pick i (length ?S) < length ?S" using pick True by simp
    have "load (?S @ replicate (64 - length ?S) 0) (pick i (length ?S)) = Inr (?S ! pick i (length ?S))"
      using m n by (simp add: nth_append)
    moreover have "?S ! pick i (length ?S) < length (rp_agents r)"
      using siblings_range nth_mem [OF m] by blast
    moreover have "current_index (?S @ replicate (64 - length ?S) 0) (length ?S) k = i"
      using current_index_spec [OF siblings_distinct i(1)] i(2) by simp
    ultimately show ?thesis
      using k True loop switch_agent_spec by (simp add: nav_sibling_def)
  next
    case False
    then have "length ?S = 1" "i = 0" using i(1) by auto
    then show ?thesis
      using k loop i(2) pick(2) by (simp add: nav_sibling_def same_family_def)
  qed
qed

subsection \<open>Theorems\<close>

lemma index_pos: "(i :: nat) < n \<Longrightarrow> 0 < n"
  by simp

lemma next_sibling_spec:
  assumes k: "rp_current r = Some k" "k < length (rp_agents r)" and n: "length (siblings_of r k) \<le> 64"
    and i: "i < length (siblings_of r k)" "siblings_of r k ! i = k"
  shows "returns (ik_repl_nav_next_sibling r)
    (\<lambda>r'. rp_current r' = Some (siblings_of r k ! ((i + 1) mod length (siblings_of r k))) \<and> same_family r r')"
  unfolding ik_repl_nav_next_sibling_def by (rule nav_sibling_spec [OF assms]) (use i(1) in \<open>simp_all add: mod_less_divisor [OF index_pos]\<close>)

fun next_times :: "nat \<Rightarrow> ik_repl_ctx \<Rightarrow> ik_repl_ctx res" where
  "next_times 0 r = Inr r"
| "next_times (Suc n) r = res_bind (next_times n r) ik_repl_nav_next_sibling"

lemma next_times_spec:
  assumes k: "rp_current r = Some k" "k < length (rp_agents r)" and n: "length (siblings_of r k) \<le> 64"
    and i: "i < length (siblings_of r k)" "siblings_of r k ! i = k"
  shows "returns (next_times m r)
    (\<lambda>r'. rp_current r' = Some (siblings_of r k ! ((i + m) mod length (siblings_of r k))) \<and> same_family r r')"
proof (induction m)
  case 0
  show ?case using k i by (simp add: same_family_def)
next
  case (Suc m)
  let ?S = "siblings_of r k" and ?j = "(i + m) mod length (siblings_of r k)"
  show ?case unfolding next_times.simps
  proof (rule returns_bindI [OF Suc.IH])
    fix r' assume r': "rp_current r' = Some (?S ! ?j) \<and> same_family r r'"
    have j: "?j < length ?S" by (rule mod_less_divisor [OF index_pos [OF i(1)]])
    have s: "siblings_of r' (?S ! ?j) = ?S" using same_family_siblings [of r r'] r' nth_mem [OF j] by blast
    have len: "length (rp_agents r') = length (rp_agents r)" using r' unfolding same_family_def by (metis length_map)
    have "?S ! ?j < length (rp_agents r')" using siblings_range [OF nth_mem [OF j]] len by simp
    from next_sibling_spec [OF conjunct1 [OF r'] this, of ?j] s n j r'
    show "returns (ik_repl_nav_next_sibling r')
        (\<lambda>r'. rp_current r' = Some (?S ! ((i + Suc m) mod length ?S)) \<and> same_family r r')"
      by (auto elim!: returns_mono simp: same_family_def mod_Suc_eq)
  qed
qed

text \<open>C32. Among at most 64 siblings the key for the next sibling visits them in the order of the agents, around to
  the first after the last, and the key for the previous sibling returns to the agent before.\<close>

theorem sibling_navigation:
  assumes "rp_current r = Some k" and "k < length (rp_agents r)" and "length (siblings_of r k) \<le> 64"
    and "i < length (siblings_of r k)" and "siblings_of r k ! i = k"
  shows "returns (next_times m r)
      (\<lambda>r'. rp_current r' = Some (siblings_of r k ! ((i + m) mod length (siblings_of r k))))
    \<and> returns (res_bind (ik_repl_nav_next_sibling r) ik_repl_nav_prev_sibling) (\<lambda>r'. rp_current r' = Some k)"
proof
  show "returns (next_times m r)
      (\<lambda>r'. rp_current r' = Some (siblings_of r k ! ((i + m) mod length (siblings_of r k))))"
    using next_times_spec [OF assms, of m] by (rule returns_mono) simp
next
  let ?S = "siblings_of r k" and ?j = "(i + 1) mod length (siblings_of r k)"
  show "returns (res_bind (ik_repl_nav_next_sibling r) ik_repl_nav_prev_sibling) (\<lambda>r'. rp_current r' = Some k)"
  proof (rule returns_bindI [OF next_sibling_spec [OF assms]])
    fix r' assume r': "rp_current r' = Some (?S ! ?j) \<and> same_family r r'"
    have j: "?j < length ?S" by (rule mod_less_divisor [OF index_pos [OF assms(4)]])
    have s: "siblings_of r' (?S ! ?j) = ?S" using same_family_siblings [of r r'] r' nth_mem [OF j] by blast
    have len: "length (rp_agents r') = length (rp_agents r)" using r' unfolding same_family_def by (metis length_map)
    have lt: "?S ! ?j < length (rp_agents r')" using siblings_range [OF nth_mem [OF j]] len by simp
    have ret: "(if ?j = 0 then length ?S - 1 else ?j - 1) = i"
      using assms(4) by (cases "i + 1 = length ?S") auto
    have "returns (nav_sibling (\<lambda>c n. if c = 0 then n - 1 else c - 1) r')
      (\<lambda>r''. rp_current r'' = Some (?S ! (if ?j = 0 then length ?S - 1 else ?j - 1)) \<and> same_family r' r'')"
      using nav_sibling_spec [OF conjunct1 [OF r'] lt, of ?j "\<lambda>c n. if c = 0 then n - 1 else c - 1"] s assms(3) j
      by auto
    then show "returns (ik_repl_nav_prev_sibling r') (\<lambda>r'. rp_current r' = Some k)"
      unfolding ik_repl_nav_prev_sibling_def ret using assms(5) by (auto elim!: returns_mono)
  qed
qed

text \<open>With more than 64 agents under one parent both keys write behind the array of siblings.\<close>

theorem sibling_overrun:
  assumes "rp_current r = Some k" and "k < length (rp_agents r)" and "length (siblings_of r k) > 64"
  shows "ik_repl_nav_next_sibling r = Inl MemFault \<and> ik_repl_nav_prev_sibling r = Inl MemFault"
  using sibling_loop_overrun [of "replicate 64 0" 0 "ac_parent_uuid (rp_agents r ! k)" "rp_agents r" 0] assms
  by (simp add: ik_repl_nav_next_sibling_def ik_repl_nav_prev_sibling_def nav_sibling_def length_siblings)

definition family :: "nat \<Rightarrow> ik_repl_ctx" where
  "family n = \<lparr>rp_agents = replicate n (projr (ik_agent_create None [0x61] None 0 80 100000)), rp_current = Some 0,
     rp_history = None, rp_has_cfg = True, rp_input_parser = ik_input_parser_create no_xkb, rp_quit = False,
     rp_scroll_det = None, rp_key_inject_buf = None, rp_framebuffer = [], rp_cursor_row = 0, rp_cursor_col = 0\<rparr>"

lemma family_siblings: "siblings_of (family (Suc n)) 0 = [0..<Suc n]"
proof -
  have "filter (\<lambda>i. ac_parent_uuid (replicate (Suc n) a ! i) = ac_parent_uuid (replicate (Suc n) a ! 0)) [0..<Suc n] = [0..<Suc n]"
    for a by (rule filter_True) (simp add: nth_replicate del: replicate_Suc upt_Suc)
  then show ?thesis by (simp add: siblings_of_def family_def del: replicate_Suc upt_Suc)
qed

theorem sibling_navigation_witness:
  "returns (next_times 4 (family 3)) (\<lambda>r'. rp_current r' = Some 1)
   \<and> returns (res_bind (ik_repl_nav_next_sibling (family 3)) ik_repl_nav_prev_sibling) (\<lambda>r'. rp_current r' = Some 0)"
proof -
  have s: "siblings_of (family 3) 0 = [0, 1, 2]" using family_siblings [of 2] by (simp add: upt_rec)
  have "rp_current (family 3) = Some 0" "0 < length (rp_agents (family 3))" by (simp_all add: family_def)
  from sibling_navigation [OF this, of 0 4] show ?thesis by (simp add: s)
qed

theorem sibling_overrun_witness:
  "ik_repl_nav_next_sibling (family 65) = Inl MemFault \<and> ik_repl_nav_prev_sibling (family 65) = Inl MemFault"
proof (rule sibling_overrun)
  show "length (siblings_of (family 65) 0) > 64" using family_siblings [of 64] by simp
qed (simp_all add: family_def)

end
