(* ===== verification/Ik_Frame.thy ===== *)
theory Ik_Frame
  imports Ik_Repl
begin

text \<open>
  Drawing the screen: apps/ikigai/render_cursor.c, repl_viewport.c and the layers of agent.c.

  The document of an agent is its layers from the banner to the status lines; the terminal shows a window of
  it. The layers refer to fields of the agent, so that the cake is built here from the agent as it is when
  the frame is drawn. The terminal is the record \<open>ik_term\<close>: its size, the file descriptor and what
  \<^verbatim>\<open>write\<close> returns for the bytes of a frame. The fields for debugging and the time of drawing are
  not modelled; the debug text of the separator, which no code sets, is empty.
\<close>

subsection \<open>render_cursor.c\<close>

record cursor_screen_pos =
  screen_row :: int
  screen_col :: int

text \<open>The loop over the text; reading behind its end is a fault.\<close>

function cursor_loop :: "utf8proc \<Rightarrow> byte list \<Rightarrow> nat \<Rightarrow> int \<Rightarrow> nat \<Rightarrow> int \<Rightarrow> int \<Rightarrow> (int \<times> int) res" where
  "cursor_loop U txt cursor_byte_offset terminal_width pos row col =
     (if pos < cursor_byte_offset then
        (if pos \<ge> length txt then Inl MemFault
         else if txt ! pos = 10 then
           (case add32 row 1 of Inl e \<Rightarrow> Inl e
            | Inr row1 \<Rightarrow> cursor_loop U txt cursor_byte_offset terminal_width (pos + 1) row1 0)
         else if ik_ansi_skip_csi txt pos > 0 then
           cursor_loop U txt cursor_byte_offset terminal_width (pos + ik_ansi_skip_csi txt pos) row col
         else (case iterate U (drop pos txt) of (n_bytes, cp) \<Rightarrow>
           (if n_bytes \<le> 0 then Inl (Err INVALID_ARG)
            else (case add32 col (charwidth U cp) of Inl e \<Rightarrow> Inl e
              | Inr sum_col \<Rightarrow>
                 (if sum_col > terminal_width then
                    (case add32 row 1 of Inl e \<Rightarrow> Inl e
                     | Inr row1 \<Rightarrow> cursor_loop U txt cursor_byte_offset terminal_width (pos + nat n_bytes) row1 (charwidth U cp))
                  else cursor_loop U txt cursor_byte_offset terminal_width (pos + nat n_bytes) row sum_col)))))
      else Inr (row, col))"
  by pat_completeness auto
termination
  by (relation "measure (\<lambda>(U, t, off, w, pos, r, c). off - pos)") auto

declare cursor_loop.simps [simp del]

definition calculate_cursor_screen_position ::
  "utf8proc \<Rightarrow> byte list \<Rightarrow> nat \<Rightarrow> int \<Rightarrow> cursor_screen_pos res" where
  "calculate_cursor_screen_position U txt cursor_byte_offset terminal_width =
     res_bind (cursor_loop U txt cursor_byte_offset terminal_width 0 0 0) (\<lambda>(row, col).
       if col = terminal_width then res_bind (add32 row 1) (\<lambda>row1. Inr \<lparr>screen_row = row1, screen_col = 0\<rparr>)
       else Inr \<lparr>screen_row = row, screen_col = col\<rparr>)"

subsection \<open>repl_viewport.c: the viewport\<close>

record ik_viewport =
  vp_scrollback_start_line :: nat
  vp_scrollback_lines_count :: nat
  vp_input_buffer_start_row :: nat
  vp_separator_visible :: bool

text \<open>The first and the last row of the document on the screen.\<close>

definition visible_range :: "nat \<Rightarrow> nat \<Rightarrow> nat \<Rightarrow> nat \<times> nat" where
  "visible_range document_height terminal_rows viewport_offset =
     (if document_height \<le> terminal_rows then (0, if document_height > 0 then document_height - 1 else 0)
      else (let max_offset = document_height - terminal_rows;
                offset = (if viewport_offset > max_offset then max_offset else viewport_offset);
                last_visible_row = document_height - 1 - offset
            in (last_visible_row + 1 - terminal_rows, last_visible_row)))"

text \<open>The loop that counts the lines: the layouts from the first visible line on.\<close>

fun count_lines :: "ik_line_layout list \<Rightarrow> nat \<Rightarrow> nat \<Rightarrow> nat \<Rightarrow> nat \<Rightarrow> nat" where
  "count_lines [] sep_row last_visible_row current_doc_row lines_count = lines_count"
| "count_lines (l # ls) sep_row last_visible_row current_doc_row lines_count =
     (if current_doc_row < sep_row then
        (let current_doc_row' = current_doc_row + ll_physical_lines l
         in if current_doc_row' > last_visible_row then lines_count + 1
            else count_lines ls sep_row last_visible_row current_doc_row' (lines_count + 1))
      else lines_count)"

text \<open>The lines of the scrollback in the window: the first one and their number.\<close>

definition visible_lines :: "ik_scrollback \<Rightarrow> nat \<Rightarrow> nat \<Rightarrow> nat \<Rightarrow> nat \<Rightarrow> (nat \<times> nat) res" where
  "visible_lines sb banner_rows sep_row first_visible_row last_visible_row =
     (let scrollback_rows = ik_scrollback_get_total_physical_lines sb
      in if first_visible_row \<ge> sep_row \<or> scrollback_rows = 0 then Inr (0, 0)
         else (let scrollback_first_row = (if first_visible_row > banner_rows then first_visible_row - banner_rows else 0)
               in res_bind (if scrollback_first_row < scrollback_rows
                            then (case ik_scrollback_find_logical_line_at_physical_row sb scrollback_first_row of
                                    Inl e \<Rightarrow> Inl Panic | Inr (l, r) \<Rightarrow> Inr l)
                            else Inr 0)
                    (\<lambda>start_line. Inr (start_line,
                       count_lines (drop start_line (take (ik_scrollback_get_line_count sb) (sb_layouts sb)))
                         sep_row last_visible_row (banner_rows + scrollback_first_row) 0))))"

definition ik_repl_calculate_viewport :: "utf8proc \<Rightarrow> nat \<Rightarrow> int \<Rightarrow> ik_agent_ctx \<Rightarrow> (ik_agent_ctx \<times> ik_viewport) res" where
  "ik_repl_calculate_viewport U rows cols a0 =
     res_bind (ensure_layouts U cols a0) (\<lambda>a.
       let banner_rows = (if ac_banner_visible a then 6 else 0);
           scrollback_rows = ik_scrollback_get_total_physical_lines (ac_scrollback a);
           spinner_rows = (if sp_visible (ac_spinner_state a) then 1 else 0);
           sep_row = banner_rows + scrollback_rows + spinner_rows;
           input_buffer_start_doc_row = sep_row + 1
       in case visible_range (ik_repl_calculate_document_height a) rows (ac_viewport_offset a) of
            (first_visible_row, last_visible_row) \<Rightarrow>
              res_bind (visible_lines (ac_scrollback a) banner_rows sep_row first_visible_row last_visible_row)
                (\<lambda>(start_line, lines_count).
                   Inr (a, \<lparr>vp_scrollback_start_line = start_line, vp_scrollback_lines_count = lines_count,
                     vp_input_buffer_start_row =
                       (if input_buffer_start_doc_row \<le> last_visible_row
                        then (if input_buffer_start_doc_row \<ge> first_visible_row
                              then input_buffer_start_doc_row - first_visible_row else 0)
                        else rows),
                     vp_separator_visible = (sep_row \<ge> first_visible_row \<and> sep_row \<le> last_visible_row)\<rparr>)))"

subsection \<open>agent.c: the layers\<close>

fun add_layers :: "ik_layer_cake \<Rightarrow> ik_layer list \<Rightarrow> ik_layer_cake res" where
  "add_layers cake [] = Inr cake"
| "add_layers cake (l # ls) = res_bind (ik_layer_cake_add_layer cake l) (\<lambda>cake'. add_layers cake' ls)"

definition agent_init_layers :: "utf8proc \<Rightarrow> ik_agent_ctx \<Rightarrow> ik_layer_cake \<Rightarrow> ik_layer_cake res" where
  "agent_init_layers U a cake =
     add_layers cake
       [ik_banner_layer_create ''banner'' (ac_banner_visible a),
        ik_scrollback_layer_create U ''scrollback'' (ac_scrollback a),
        ik_spinner_layer_create ''spinner'' (ac_spinner_state a),
        ik_separator_layer_create U ''separator'' (ac_separator_visible a) (ac_nav_ctx a) [],
        ik_input_layer_create ''input'' (ac_input_buffer_visible a) (input_bytes a),
        ik_completion_layer_create ''completion'' (ac_completion a),
        ik_status_layer_create ''status'' (ac_status_visible a) (ac_model a) (ac_thinking_level a)]"

subsection \<open>repl_viewport.c: the frame\<close>

record ik_term =
  tm_rows :: nat
  tm_cols :: int
  tm_tty_fd :: int
  tm_write :: "byte list \<Rightarrow> int"

text \<open>What is shown depends on the state of the agent. The result is whether the input is shown.\<close>

definition apply_visibility :: "ik_viewport \<Rightarrow> nat \<Rightarrow> ik_agent_ctx \<Rightarrow> ik_agent_ctx \<times> bool" where
  "apply_visibility v rows a0 =
     (let a = a0\<lparr>ac_separator_visible := vp_separator_visible v\<rparr>;
          in_view = vp_input_buffer_start_row v < rows
      in if ac_dead a then
           (a\<lparr>ac_spinner_state := (ac_spinner_state a)\<lparr>sp_visible := False\<rparr>, ac_input_buffer_visible := False\<rparr>, False)
         else if ac_state a = IK_AGENT_STATE_WAITING_FOR_LLM \<or> ac_state a = IK_AGENT_STATE_EXECUTING_TOOL then
           (a\<lparr>ac_spinner_state := (ac_spinner_state a)\<lparr>sp_visible := True\<rparr>, ac_input_buffer_visible := False\<rparr>, False)
         else
           (a\<lparr>ac_spinner_state := (ac_spinner_state a)\<lparr>sp_visible := False\<rparr>, ac_input_buffer_visible := in_view\<rparr>, in_view))"

text \<open>The content of the frame. A line end at the end of a full screen would scroll the terminal.\<close>

definition trim_last_eol :: "bool \<Rightarrow> byte list \<Rightarrow> byte list" where
  "trim_last_eol full out =
     (if full \<and> length out \<ge> 2 \<and> out ! (length out - 2) = 13 \<and> out ! (length out - 1) = 10
      then take (length out - 2) out else out)"

definition render_document :: "utf8proc \<Rightarrow> nat \<Rightarrow> int \<Rightarrow> ik_agent_ctx \<Rightarrow> byte list res" where
  "render_document U rows cols a =
     (let document_height = ik_repl_calculate_document_height a
      in case visible_range document_height rows (ac_viewport_offset a) of (first_visible_row, _) \<Rightarrow>
           res_bind (agent_init_layers U a (ik_layer_cake_create rows)) (\<lambda>cake.
           res_bind (ik_output_buffer_create 4096) (\<lambda>output.
           res_bind (ik_layer_cake_render (cake\<lparr>lc_viewport_row := first_visible_row, lc_viewport_height := rows\<rparr>)
                       output (nat cols))
             (\<lambda>out. Inr (trim_last_eol (document_height \<ge> rows) (take (ob_size out) (ob_data out)))))))"

text \<open>The position of the cursor on the screen; the code asserts that the text is valid.\<close>

definition frame_cursor :: "utf8proc \<Rightarrow> int \<Rightarrow> ik_viewport \<Rightarrow> bool \<Rightarrow> ik_agent_ctx \<Rightarrow> (int \<times> int) res" where
  "frame_cursor U cols v input_visible a =
     (let txt = input_bytes a; start_row = int (vp_input_buffer_start_row v)
      in if input_visible \<and> length txt > 0 then
           (case calculate_cursor_screen_position U txt (fst (ik_input_buffer_get_cursor_position (ac_input_buffer a))) cols of
              Inr p \<Rightarrow> res_bind (add32 start_row (screen_row p)) (\<lambda>row. Inr (row, screen_col p))
            | Inl (Err e) \<Rightarrow> Inl AssertFail
            | Inl e \<Rightarrow> Inl e)
         else if input_visible then Inr (start_row, 0)
         else Inr (0, 0))"

text \<open>Writing bytes into the frame buffer, of which \<open>cap\<close> bytes are allocated.\<close>

definition put_bytes :: "nat \<Rightarrow> byte list \<Rightarrow> byte list \<Rightarrow> byte list res" where
  "put_bytes cap fb bs = (if length fb + length bs \<le> cap then Inr (fb @ bs) else Inl MemFault)"

fun put_all :: "nat \<Rightarrow> byte list \<Rightarrow> byte list list \<Rightarrow> byte list res" where
  "put_all cap fb [] = Inr fb"
| "put_all cap fb (b # bs) = res_bind (put_bytes cap fb b) (\<lambda>fb'. put_all cap fb' bs)"

definition csi :: "string \<Rightarrow> byte list" where
  "csi s = [0x1B, 0x5B] @ bytes_of s"

definition cursor_escape :: "int \<Rightarrow> int \<Rightarrow> byte list" where
  "cursor_escape row col = csi [] @ dec_int row @ [0x3B] @ dec_int col @ [0x48]"

definition build_framebuffer :: "byte list \<Rightarrow> bool \<Rightarrow> int \<Rightarrow> int \<Rightarrow> byte list res" where
  "build_framebuffer output input_visible row col =
     res_bind (if input_visible
               then res_bind (add32 row 1) (\<lambda>r. res_bind (add32 col 1) (\<lambda>c. Inr [cursor_escape r c]))
               else Inr [])
       (\<lambda>escape. put_all (6 + 3 + length output + 3 + 6 + 20) []
          ([csi ''?25l'', csi ''H'', output, csi ''J'', csi (if input_visible then ''?25h'' else ''?25l'')] @ escape))"

definition ik_repl_render_frame :: "utf8proc \<Rightarrow> ik_term \<Rightarrow> ik_repl_ctx \<Rightarrow> ik_repl_ctx res" where
  "ik_repl_render_frame U T r =
     res_bind (current_agent r) (\<lambda>a0.
     res_bind (ik_repl_calculate_viewport U (tm_rows T) (tm_cols T) a0) (\<lambda>(a1, v).
       case apply_visibility v (tm_rows T) a1 of (a2, input_visible) \<Rightarrow>
         res_bind (render_document U (tm_rows T) (tm_cols T) a2) (\<lambda>output.
         res_bind (frame_cursor U (tm_cols T) v input_visible a2) (\<lambda>(row, col).
         res_bind (build_framebuffer output input_visible row col) (\<lambda>fb.
           if tm_write T fb < 0 \<and> tm_tty_fd T \<ge> 0 then Inl (Err IO)
           else res_bind (set_current r a2) (\<lambda>r'.
                  Inr (r'\<lparr>rp_framebuffer := fb, rp_cursor_row := row, rp_cursor_col := col\<rparr>)))))))"

subsection \<open>Drawing a cake\<close>

text \<open>What the frame needs of a layer: whatever range of its rows is asked for, drawing returns. A layer that
  draws exactly its rows does.\<close>

locale drawable =
  fixes layer :: ik_layer and width :: nat
  assumes draws: "ob_inv out \<Longrightarrow> 0 < n \<or> ly_get_height layer width = 0 \<Longrightarrow> s + n \<le> ly_get_height layer width \<Longrightarrow>
    returns (ly_render layer out width s n) ob_inv"
begin

lemma draws_clipped:
  assumes "ob_inv out" and "vrow < vend"
  shows "returns (if cur + ly_get_height layer width > vrow \<and> cur < vend
      then (let start_row = (if cur < vrow then vrow - cur else 0);
                row_count = ly_get_height layer width - start_row
                  - (if cur + ly_get_height layer width > vend then cur + ly_get_height layer width - vend else 0)
            in ly_render layer out width start_row row_count)
      else Inr out) ob_inv"
proof (cases "cur + ly_get_height layer width > vrow \<and> cur < vend")
  case True
  let ?h = "ly_get_height layer width"
  let ?s = "if cur < vrow then vrow - cur else 0"
  let ?n = "?h - ?s - (if cur + ?h > vend then cur + ?h - vend else 0)"
  have "0 < ?n \<or> ?h = 0" "?s + ?n \<le> ?h" using True assms(2) by auto
  then show ?thesis using draws [OF assms(1)] True by (simp add: Let_def)
next
  case False
  then show ?thesis using assms(1) by (simp only: if_False returns.simps)
qed

end

sublocale row_layer \<subseteq> drawable layer width
proof
  fix out n s
  assume "ob_inv out" "0 < n \<or> ly_get_height layer width = 0" "s + n \<le> ly_get_height layer width"
  then show "returns (ly_render layer out width s n) ob_inv"
    using render_rows [of out n s] by (auto simp: height emits_def elim!: returns_mono)
qed

lemma emits_returns: "emits m out bs \<Longrightarrow> returns m ob_inv"
  by (auto simp: emits_def elim!: returns_mono)

interpretation input: drawable "ik_input_layer_create name vis t" width
proof
  fix out n s
  assume out: "ob_inv out"
  show "returns (ly_render (ik_input_layer_create name vis t) out width s n) ob_inv"
  proof (cases "t = []")
    case True
    then show ?thesis using emits_returns [OF append_emits [OF out]]
      by (simp add: ik_input_layer_create_def ik_layer_create_def input_render_def)
  next
    case False
    have "returns (output_all out (map newline_to_eol t)) ob_inv" by (rule emits_returns [OF output_all_emits [OF out]])
    then show ?thesis using False emits_returns [OF append_emits]
      by (auto simp: ik_input_layer_create_def ik_layer_create_def input_render_def intro!: returns_bindI)
  qed
qed

interpretation completion: drawable "ik_completion_layer_create name cm" width
proof
  fix out n s
  assume "ob_inv out"
  then show "returns (ly_render (ik_completion_layer_create name cm) out width s n) ob_inv"
    using emits_returns [OF output_all_emits]
    by (auto simp: ik_completion_layer_create_def ik_layer_create_def completion_render_def Let_def split: option.split)
qed

interpretation status: drawable "ik_status_layer_create name vis model level" width
proof
  fix out n s
  assume "ob_inv out"
  then show "returns (ly_render (ik_status_layer_create name vis model level) out width s n) ob_inv"
    using emits_returns [OF output_all_emits]
    by (simp add: ik_status_layer_create_def ik_layer_create_def status_render_def)
qed

lemma cake_loop_draws:
  assumes "vrow < vend"
  shows "list_all (\<lambda>l. drawable l width) ls \<Longrightarrow> ob_inv out \<Longrightarrow> returns (cake_loop ls out width vrow vend cur) ob_inv"
proof (induction ls arbitrary: out cur)
  case (Cons l ls)
  then have l: "drawable l width" and rest: "list_all (\<lambda>l. drawable l width) ls" by simp_all
  show ?case
  proof (cases "ly_is_visible l")
    case True
    let ?h = "ly_get_height l width"
    have tail: "returns (if cur + ?h \<ge> vend then Inr out' else cake_loop ls out' width vrow vend (cur + ?h)) ob_inv"
      if "ob_inv out'" for out'
      using Cons.IH [OF rest that] that by simp
    show ?thesis
      unfolding cake_loop.simps Let_def eqTrueI [OF True] not_True_eq_False if_False
      by (rule returns_bindI [OF drawable.draws_clipped [OF l Cons.prems(2) assms, of cur, unfolded Let_def] tail])
  qed (use Cons.IH [OF rest Cons.prems(2)] in simp)
qed simp

end
