(* ===== verification/Ik_Cursor_Position.thy ===== *)
theory Ik_Cursor_Position
  imports Ik_Frame
begin

text \<open>
  The position of the cursor on the screen: it lies on the screen for every text, and for a text of narrow
  characters it is where the layout of the input buffer puts it.
\<close>

text \<open>What the documentation of utf8proc says of the width of a character.\<close>

definition widths_ok :: "utf8proc \<Rightarrow> bool" where
  "widths_ok U \<longleftrightarrow> (\<forall>c. 0 \<le> charwidth U c \<and> charwidth U c \<le> 2)"

lemma newline_lead:
  assumes "is_scalar c"
  shows "encode_utf8 c ! 0 = 10 \<longleftrightarrow> c = 10"
proof
  assume "encode_utf8 c ! 0 = 10"
  then have "(10 :: byte) \<in> set (encode_utf8 c)"
    using length_encode_pos [OF assms] nth_mem [of 0 "encode_utf8 c"] by metis
  then show "c = 10" using ascii_in_encoding [of 10 c] by (auto simp: word_unat_eq_iff)
qed (simp add: encode_newline)

text \<open>The steps of the loop at the code point after the text \<open>us\<close>.\<close>

lemma cursor_newline:
  assumes "length us < off" and "in_int32 (row + 1)"
  shows "cursor_loop U (us @ 10 # vs) off w (length us) row col
    = cursor_loop U (us @ 10 # vs) off w (length us + 1) (row + 1) 0"
  using assms by (subst cursor_loop.simps) (simp add: add32_def)

lemma cursor_escape_step:
  assumes "length us < off" and "scalars l" and "l \<noteq> []" and "hd l \<noteq> 10" and "ik_ansi_skip_csi (utf8 l) 0 > 0"
  obtains e l' where "l = e @ l'" "e \<noteq> []"
    "cursor_loop U (us @ utf8 l) off w (length us) row col
     = cursor_loop U (us @ utf8 l) off w (length us + length (utf8 e)) row col"
proof -
  let ?n = "ik_ansi_skip_csi (utf8 l) 0"
  have n: "?n \<le> length (utf8 l)" using skip_csi_bound [OF assms(5)] by simp
  obtain e l' where e: "l = e @ l'" "utf8 e = take ?n (utf8 l)"
    using ascii_prefix [OF assms(2) n] skip_csi_ascii by blast
  have len: "length (utf8 e) = ?n" using e(2) n by simp
  obtain c cs where c: "l = c # cs" using assms(3) by (cases l) auto
  then have "is_scalar c" "c \<noteq> 10" using assms(2,4) by simp_all
  then have "(us @ utf8 l) ! length us \<noteq> 10" "length us < length (us @ utf8 l)"
    using newline_lead [of c] length_encode_pos [of c] c by (simp_all add: nth_append)
  then have "cursor_loop U (us @ utf8 l) off w (length us) row col
      = cursor_loop U (us @ utf8 l) off w (length us + ?n) row col"
    using assms(1,5) skip_csi_shift [of us "utf8 l" 0] by (subst cursor_loop.simps) simp
  moreover have "e \<noteq> []" using len assms(5) by auto
  ultimately show ?thesis using that e(1) len by simp
qed

lemma cursor_glyph:
  assumes "utf8proc_ok U" and "length us < off" and c: "is_scalar c" "c \<noteq> 10"
    and "ik_ansi_skip_csi (encode_utf8 c @ vs) 0 = 0"
    and "in_int32 (col + charwidth U c)" and "in_int32 (row + 1)"
  shows "cursor_loop U (us @ encode_utf8 c @ vs) off w (length us) row col
    = (if col + charwidth U c > w
       then cursor_loop U (us @ encode_utf8 c @ vs) off w (length us + length (encode_utf8 c)) (row + 1) (charwidth U c)
       else cursor_loop U (us @ encode_utf8 c @ vs) off w (length us + length (encode_utf8 c)) row (col + charwidth U c))"
proof -
  have "(us @ encode_utf8 c @ vs) ! length us \<noteq> 10"
    using newline_lead [OF c(1)] c(2) length_encode_pos [OF c(1)] by (simp add: nth_append)
  moreover have "ik_ansi_skip_csi (us @ encode_utf8 c @ vs) (length us) = 0"
    using skip_csi_shift [of us "encode_utf8 c @ vs" 0] assms(5) by simp
  ultimately show ?thesis
    using assms(2,6,7) length_encode_pos [OF c(1)]
    by (subst cursor_loop.simps) (simp add: iterate_scalar [OF assms(1) c(1)] add32_def)
qed

text \<open>Whatever the text, the cursor stays inside the width and the rows do not exceed the bytes.\<close>

lemma cursor_loop_bounds:
  assumes U: "utf8proc_ok U" "widths_ok U" and w: "2 \<le> w" "w < 2147483640"
    and off: "off < 2147483640"
  shows "scalars l \<Longrightarrow> off \<le> length (us @ utf8 l) \<Longrightarrow> 0 \<le> row \<Longrightarrow> row \<le> int (length us) \<Longrightarrow>
      0 \<le> col \<Longrightarrow> col \<le> w \<Longrightarrow>
    returns (cursor_loop U (us @ utf8 l) off w (length us) row col)
      (\<lambda>(r, c). 0 \<le> r \<and> r \<le> (int (length us + length (utf8 l))) \<and> 0 \<le> c \<and> c \<le> w)"
proof (induction "length l" arbitrary: l us row col rule: less_induct)
  case less
  show ?case
  proof (cases "length us < off")
    case False
    then show ?thesis using less.prems by (subst cursor_loop.simps) simp
  next
    case True
    then obtain c cs where l: "l = c # cs" using less.prems(2) by (cases l) auto
    have c: "is_scalar c" using less.prems(1) l by simp
    have wd: "0 \<le> charwidth U c" "charwidth U c \<le> 2" using U(2) by (simp_all add: widths_ok_def)
    have i: "in_int32 (row + 1)" "in_int32 (col + charwidth U c)"
      using less.prems(3-6) True off w(2) wd by (simp_all add: in_int32_def)
    consider "c = 10" | "c \<noteq> 10" "ik_ansi_skip_csi (utf8 l) 0 > 0" | "c \<noteq> 10" "ik_ansi_skip_csi (utf8 l) 0 = 0"
      by blast
    then show ?thesis
    proof cases
      case 1
      then have "us @ utf8 l = us @ 10 # utf8 cs" using l by simp
      moreover have "returns (cursor_loop U ((us @ [10]) @ utf8 cs) off w (length (us @ [10])) (row + 1) 0)
          (\<lambda>(r, c). 0 \<le> r \<and> r \<le> (int (length (us @ [10]) + length (utf8 cs)))
             \<and> 0 \<le> c \<and> c \<le> w)"
        using less.prems l w(1) 1 by (intro less.hyps) simp_all
      ultimately show ?thesis
        using cursor_newline [OF True i(1), of U "utf8 cs" w col] by (auto elim!: returns_mono)
    next
      case 2
      obtain e l' where e: "l = e @ l'" "e \<noteq> []" "cursor_loop U (us @ utf8 l) off w (length us) row col
          = cursor_loop U (us @ utf8 l) off w (length us + length (utf8 e)) row col"
        using cursor_escape_step [OF True less.prems(1), of U w row col] 2 l by auto
      have "returns (cursor_loop U ((us @ utf8 e) @ utf8 l') off w (length (us @ utf8 e)) row col)
          (\<lambda>(r, c). 0 \<le> r \<and> r \<le> (int (length (us @ utf8 e) + length (utf8 l')))
             \<and> 0 \<le> c \<and> c \<le> w)"
        using less.prems e(1,2) by (intro less.hyps) simp_all
      then show ?thesis using e(1,3) by (auto elim!: returns_mono)
    next
      case 3
      have t: "us @ utf8 l = us @ encode_utf8 c @ utf8 cs" using l by simp
      have IH: "returns (cursor_loop U ((us @ encode_utf8 c) @ utf8 cs) off w (length (us @ encode_utf8 c)) row' col')
          (\<lambda>(r, x). 0 \<le> r \<and> r \<le> (int (length (us @ encode_utf8 c) + length (utf8 cs)))
             \<and> 0 \<le> x \<and> x \<le> w)"
        if "0 \<le> row'" "row' \<le> row + 1" "0 \<le> col'" "col' \<le> w" for row' col'
      proof -
        have "1 \<le> int (length (encode_utf8 c))" using length_encode_pos [OF c] by linarith
        then show ?thesis using less.prems l that by (intro less.hyps) simp_all
      qed
      show ?thesis
        using cursor_glyph [OF U(1) True c 3(1) _ i(2,1), of "utf8 cs" w] 3(2) t l
          IH [of "row + 1" "charwidth U c"] IH [of row "col + charwidth U c"] less.prems(3,5) wd w(1)
        by (auto elim!: returns_mono)
    qed
  qed
qed

lemma cursor_on_screen:
  assumes "utf8proc_ok U" "widths_ok U" and "2 \<le> w" "w < 2147483640"
    and "scalars (l @ r)" and "length (utf8 (l @ r)) < 2147483640"
  shows "returns (calculate_cursor_screen_position U (utf8 (l @ r)) (length (utf8 l)) w)
    (\<lambda>p. 0 \<le> screen_row p \<and> screen_row p \<le> int (length (utf8 (l @ r))) + 1 \<and> 0 \<le> screen_col p \<and> screen_col p < w)"
proof -
  have "returns (cursor_loop U ([] @ utf8 (l @ r)) (length (utf8 l)) w (length ([] :: byte list)) 0 0)
      (\<lambda>(x, c). 0 \<le> x \<and> x \<le> int (length ([] :: byte list) + length (utf8 (l @ r)))
         \<and> 0 \<le> c \<and> c \<le> w)"
    using assms by (intro cursor_loop_bounds) simp_all
  then obtain x c where l: "cursor_loop U (utf8 (l @ r)) (length (utf8 l)) w 0 0 0 = Inr (x, c)"
    and b: "0 \<le> x" "x \<le> int (length (utf8 (l @ r)))" "0 \<le> c" "c \<le> w"
    by (auto elim!: returnsE)
  moreover have "add32 x 1 = Inr (x + 1)" using b assms(6) by (simp add: add32_def in_int32_def)
  ultimately show ?thesis
    unfolding calculate_cursor_screen_position_def l using assms(3) by simp
qed

subsection \<open>Narrow text\<close>

text \<open>The row and the column after \<open>n\<close> columns of a line have been written; a full row is left only when
  something follows.\<close>

definition row_after :: "nat \<Rightarrow> int \<Rightarrow> int" where
  "row_after n w = int ((n - 1) div nat w)"

definition col_after :: "nat \<Rightarrow> int \<Rightarrow> int" where
  "col_after n w = (if n = 0 then 0 else int ((n - 1) mod nat w) + 1)"

text \<open>The position after the text \<open>l\<close>: the rows of the finished lines, and the last line.\<close>

definition rows_above :: "utf8proc \<Rightarrow> int \<Rightarrow> 32 word list \<Rightarrow> nat" where
  "rows_above U w l = sum_list (map (line_rows U w) (butlast (split_nl (utf8 l))))"

definition last_width :: "utf8proc \<Rightarrow> 32 word list \<Rightarrow> nat" where
  "last_width U l = sum_list (map (cp_width U) (line_head l))"

definition narrow :: "utf8proc \<Rightarrow> 32 word list \<Rightarrow> bool" where
  "narrow U l \<longleftrightarrow> (\<forall>c\<in>set l. charwidth U c = 0 \<or> charwidth U c = 1)"

lemma split_nl_line: "10 \<notin> set ys \<Longrightarrow> split_nl (xs @ ys) = butlast (split_nl xs) @ [last (split_nl xs) @ ys]"
proof (induction xs)
  case Nil
  then show ?case by (induction ys) auto
next
  case (Cons x xs)
  then show ?case using split_nl_nonempty [of xs] by (cases "split_nl xs") auto
qed

lemma split_nl_end: "split_nl (xs @ [10]) = split_nl xs @ [[]]"
  by (induction xs) (auto simp: hd_append tl_append split: list.split)

lemma last_split_nl: "last (split_nl (utf8 l)) = utf8 (line_head l)"
proof (induction l rule: rev_induct)
  case (snoc c l)
  show ?case
  proof (cases "c = 10")
    case True
    then show ?thesis by (simp add: split_nl_end line_head_def)
  next
    case False
    then have "10 \<notin> set (encode_utf8 c)"
      using ascii_in_encoding [of 10 c] by (auto simp: word_unat_eq_iff)
    then show ?thesis using snoc False by (simp add: split_nl_line line_head_def)
  qed
qed (simp add: line_head_def)

lemma after_0: "row_after 0 w = 0" "col_after 0 w = 0"
  by (simp_all add: row_after_def col_after_def)

lemma after_Suc:
  assumes "1 \<le> w"
  shows "col_after n w + 1 > w \<Longrightarrow> row_after (Suc n) w = row_after n w + 1 \<and> col_after (Suc n) w = 1"
    and "\<not> col_after n w + 1 > w \<Longrightarrow> row_after (Suc n) w = row_after n w \<and> col_after (Suc n) w = col_after n w + 1"
proof -
  have "\<exists>k. w = int k \<and> k > 0" using assms by (intro exI [of _ "nat w"]) auto
  then obtain k where k: "w = int k" "k > 0" by blast
  have m: "m mod k < k" for m using k(2) by simp
  show "col_after n w + 1 > w \<Longrightarrow> row_after (Suc n) w = row_after n w + 1 \<and> col_after (Suc n) w = 1"
    using k m [of "n - 1"] by (cases n) (auto simp: row_after_def col_after_def div_Suc mod_Suc)
  show "\<not> col_after n w + 1 > w \<Longrightarrow> row_after (Suc n) w = row_after n w \<and> col_after (Suc n) w = col_after n w + 1"
    using k by (cases n) (auto simp: row_after_def col_after_def div_Suc mod_Suc)
qed

lemma after_bounds: "1 \<le> w \<Longrightarrow> 0 \<le> col_after n w \<and> col_after n w \<le> w"
proof -
  assume "1 \<le> w"
  then have "(n - 1) mod nat w < nat w" by (intro mod_less_divisor) simp
  then have "int ((n - 1) mod nat w) < w" by linarith
  then show ?thesis using \<open>1 \<le> w\<close> by (simp add: col_after_def)
qed

lemma after_wrap:
  assumes "1 \<le> w"
  shows "col_after n w = w \<Longrightarrow> row_after n w + 1 = int (n div nat w) \<and> n mod nat w = 0"
    and "col_after n w \<noteq> w \<Longrightarrow> row_after n w = int (n div nat w) \<and> col_after n w = int (n mod nat w)"
proof -
  have "\<exists>k. w = int k \<and> k > 0" using assms by (intro exI [of _ "nat w"]) auto
  then obtain k where k: "w = int k" "k > 0" by blast
  show "col_after n w = w \<Longrightarrow> row_after n w + 1 = int (n div nat w) \<and> n mod nat w = 0"
    using k by (cases n) (auto simp: row_after_def col_after_def div_Suc mod_Suc)
  show "col_after n w \<noteq> w \<Longrightarrow> row_after n w = int (n div nat w) \<and> col_after n w = int (n mod nat w)"
    using k by (cases n) (auto simp: row_after_def col_after_def div_Suc mod_Suc)
qed

text \<open>A finished line has as many rows as the layout counts for it.\<close>

lemma finished_line:
  assumes "utf8proc_ok U" and "scalars l" and "27 \<notin> set l" and "1 \<le> w"
  shows "int (rows_above U w (l @ [10])) = int (rows_above U w l) + row_after (last_width U l) w + 1"
proof -
  let ?h = "line_head l" and ?n = "last_width U l"
  have h: "scalars ?h" "27 \<notin> set ?h"
    using assms(2,3) by (auto simp: line_head_def list_all_iff dest: set_takeWhileD)
  have "calculate_display_width U (utf8 ?h) = ?n"
    using display_width_utf8 [OF assms(1) h] by (simp add: last_width_def)
  moreover have "utf8 ?h = [] \<longleftrightarrow> ?h = []" using h(1) by simp
  moreover have "?h = [] \<Longrightarrow> ?n = 0" by (simp add: last_width_def)
  moreover have "(?n + nat w - 1) div nat w = (?n - 1) div nat w + 1" if "?n > 0"
  proof -
    have "?n + nat w - 1 = (?n - 1) + nat w" using that by simp
    moreover have "(?n - 1 + nat w) div nat w = (?n - 1) div nat w + 1" using assms(4) by (intro div_add_self2) simp
    ultimately show ?thesis by (simp only:)
  qed
  ultimately have "line_rows U w (utf8 ?h) = nat (row_after ?n w + 1)"
    using assms(4) by (auto simp: line_rows_def row_after_def Let_def nat_add_distrib)
  then have "int (line_rows U w (utf8 ?h)) = row_after ?n w + 1" by (simp add: row_after_def)
  moreover have "butlast (split_nl (utf8 (l @ [10]))) = butlast (split_nl (utf8 l)) @ [utf8 ?h]"
    using append_butlast_last_id [OF split_nl_nonempty, of "utf8 l"] last_split_nl [of l]
    by (simp add: split_nl_end butlast_append)
  ultimately show ?thesis by (simp add: rows_above_def)
qed

lemma rows_above_char:
  "is_scalar c \<Longrightarrow> c \<noteq> 10 \<Longrightarrow> rows_above U w (l @ [c]) = rows_above U w l"
  "c \<noteq> 10 \<Longrightarrow> last_width U (l @ [c]) = last_width U l + cp_width U c"
  "last_width U (l @ [10]) = 0"
proof -
  assume c: "is_scalar c" "c \<noteq> 10"
  then have "10 \<notin> set (encode_utf8 c)"
    using ascii_in_encoding [of 10 c] by (auto simp: word_unat_eq_iff)
  then show "rows_above U w (l @ [c]) = rows_above U w l" by (simp add: rows_above_def split_nl_line)
qed (simp_all add: last_width_def line_head_def)

lemma cursor_narrow:
  assumes U: "utf8proc_ok U" and w: "1 \<le> w" "w < 2147483640"
  shows "scalars l \<Longrightarrow> 27 \<notin> set l \<Longrightarrow> narrow U l \<Longrightarrow> length (utf8 l) \<le> off \<Longrightarrow> length (utf8 l) < 2147483640 \<Longrightarrow>
    cursor_loop U (utf8 l @ vs) off w 0 0 0
      = cursor_loop U (utf8 l @ vs) off w (length (utf8 l))
          (int (rows_above U w l) + row_after (last_width U l) w) (col_after (last_width U l) w)
    \<and> int (rows_above U w l) + row_after (last_width U l) w \<le> int (length (utf8 l))"
proof (induction l arbitrary: vs rule: rev_induct)
  case Nil
  then show ?case by (simp add: rows_above_def last_width_def line_head_def after_0)
next
  case (snoc c l)
  let ?row = "int (rows_above U w l) + row_after (last_width U l) w" and ?col = "col_after (last_width U l) w"
  have c: "is_scalar c" "c \<noteq> 27" "charwidth U c = 0 \<or> charwidth U c = 1" using snoc.prems by (auto simp: narrow_def)
  have p: "0 < length (encode_utf8 c)" by (rule length_encode_pos [OF c(1)])
  have IH: "cursor_loop U (utf8 l @ encode_utf8 c @ vs) off w 0 0 0
      = cursor_loop U (utf8 l @ encode_utf8 c @ vs) off w (length (utf8 l)) ?row ?col" "?row \<le> int (length (utf8 l))"
    using snoc.IH [of "encode_utf8 c @ vs"] snoc.prems by (simp_all add: narrow_def)
  have off: "length (utf8 l) < off" using snoc.prems(4) p by (simp only: utf8_simps length_append)
  have i: "in_int32 (?row + 1)" "in_int32 (?col + charwidth U c)"
    using IH(2) snoc.prems(5) after_bounds [OF w(1), of "last_width U l"] w(2) c(3)
    by (auto simp: in_int32_def row_after_def)
  show ?case
  proof (cases "c = 10")
    case True
    then show ?thesis
      using IH cursor_newline [OF off i(1), of U vs w ?col] finished_line [OF U, of l w] snoc.prems w(1)
      by (simp add: rows_above_char(3) after_0)
  next
    case False
    have "(0x1B :: byte) \<notin> set (encode_utf8 c)"
      using ascii_in_encoding [of 27 c] c(2) by (auto simp: word_unat_eq_iff)
    then have "encode_utf8 c ! 0 \<noteq> 0x1B" using nth_mem [OF p] by metis
    then have "ik_ansi_skip_csi (encode_utf8 c @ vs) 0 = 0" using p by (simp add: ik_ansi_skip_csi_def nth_append)
    note step = cursor_glyph [OF U off c(1) False this i(2,1), of w]
    consider "charwidth U c = 0" | "charwidth U c = 1" using c(3) by blast
    then show ?thesis
    proof cases
      case 1
      then show ?thesis
        using IH step False c(1) after_bounds [OF w(1), of "last_width U l"]
        by (simp add: rows_above_char cp_width_def)
    next
      case 2
      have "1 \<le> int (length (encode_utf8 c))" using p by linarith
      then show ?thesis
        using 2 IH step False c(1) after_Suc [OF w(1), of "last_width U l"]
        by (cases "?col + 1 > w") (simp_all add: rows_above_char cp_width_def add.assoc)
    qed
  qed
qed

subsection \<open>Properties\<close>

text \<open>C33. The cursor is drawn where the layout of the input buffer puts it: with \<open>l\<close> the text before the
  cursor and \<open>r\<close> the text after it, of characters at most one column wide and no escape character, its
  row is the number of rows the layout counts for the finished lines, plus the full rows of the columns
  before the cursor in its line, and its column is the rest.\<close>

theorem cursor_follows_layout:
  assumes "utf8proc_ok U" and "1 \<le> w" and "w < 2147483640" and "scalars l" and "27 \<notin> set l" and "narrow U l"
    and "length (utf8 l) < 2147483640"
  defines "n \<equiv> calculate_display_width U (last (split_nl (utf8 l)))"
  shows "returns (calculate_cursor_screen_position U (utf8 l @ utf8 r) (length (utf8 l)) w)
    (\<lambda>p. screen_row p = int (sum_list (map (line_rows U w) (butlast (split_nl (utf8 l)))) + n div nat w)
         \<and> screen_col p = int (n mod nat w))"
proof -
  have "scalars (line_head l)" "27 \<notin> set (line_head l)"
    using assms(4,5) by (auto simp: line_head_def list_all_iff dest: set_takeWhileD)
  then have n: "n = last_width U l"
    using display_width_utf8 [OF assms(1)] by (simp add: n_def last_split_nl last_width_def)
  let ?row = "int (rows_above U w l) + row_after n w"
  have "cursor_loop U (utf8 l @ utf8 r) (length (utf8 l)) w 0 0 0 = Inr (?row, col_after n w)"
    and b: "?row \<le> int (length (utf8 l))"
    using cursor_narrow [OF assms(1-6) order_refl assms(7), of "utf8 r"]
    by (simp_all add: n) (subst cursor_loop.simps, simp)
  moreover have "add32 ?row 1 = Inr (?row + 1)"
    using b assms(7) by (simp add: add32_def in_int32_def row_after_def)
  ultimately show ?thesis
    using after_wrap [OF assms(2), of n] unfolding calculate_cursor_screen_position_def rows_above_def
    by (cases "col_after n w = w") simp_all
qed

text \<open>Typing a line that fills the width of the terminal exactly.\<close>

theorem cursor_follows_layout_witness:
  "returns (calculate_cursor_screen_position ref_utf8proc (utf8 [97, 10, 98, 99, 100] @ utf8 [101]) 5 3)
     (\<lambda>p. screen_row p = 2 \<and> screen_col p = 0)"
proof -
  have five: "length (utf8 [97, 10, 98, 99, 100]) = 5" by code_simp
  have "utf8 [97, 10, 98, 99, 100] = [97, 10, 98, 99, 100]" by code_simp
  moreover have "narrow ref_utf8proc [97, 10, 98, 99, 100]" by (simp add: narrow_def ref_utf8proc_def)
  moreover have "scalars [97, 10, 98, 99, 100]" by code_simp
  moreover have "line_rows ref_utf8proc 3 [97] = 1" "calculate_display_width ref_utf8proc [98, 99, 100] = 3"
    by code_simp+
  ultimately show ?thesis
    using cursor_follows_layout [OF ref_utf8proc_ok, of 3 "[97, 10, 98, 99, 100]" "[101]", unfolded five]
    by simp
qed

end
