(* ===== verification/Ik_Frame_Safety.thy ===== *)
theory Ik_Frame_Safety
  imports Ik_Cursor_Position
begin

text \<open>
  Drawing a frame: for an agent whose scrollback and input buffer are well formed it returns, writes no byte
  behind the frame buffer, leaves the cursor on the screen and changes nothing of the text and the input.
\<close>

subsection \<open>The layers\<close>

lemma render_lines_returns:
  "ob_inv out \<Longrightarrow> returns (render_lines U sb width sl so el eo is out) ob_inv"
proof (induction "is" arbitrary: out)
  case (Cons i "is")
  let ?ls = "if i = sl then so else 0"
  let ?lc = "if i = el then eo - ?ls + 1 else ll_physical_lines (sb_layouts sb ! i) - ?ls"
  obtain rs re fin where rng: "ik_scrollback_calc_byte_range_for_rows U sb i width ?ls ?lc = (rs, re, fin)"
    by (rule prod_cases3)
  have app: "returns (if b then ik_output_buffer_append out1 eol else Inr out1) ob_inv" if "ob_inv out1" for b out1
    using emits_returns [OF append_emits [OF that]] that by simp
  show ?case
    unfolding render_lines.simps Let_def rng prod.case
    by (intro returns_bindI [OF emits_returns [OF output_all_emits [OF Cons.prems]]] returns_bindI [OF app Cons.IH])
qed simp

lemma scrollback_drawable:
  assumes r: "sb_repr U sb0 lines" and width: "width > 0"
  shows "drawable (ik_scrollback_layer_create U name sb0) width"
proof
  fix out n s
  define sb where "sb = laid_out sb0 width"
  have rs: "sb_repr U sb lines" using laid_out_repr [OF r width] by (simp add: sb_def)
  have h: "ly_get_height (ik_scrollback_layer_create U name sb0) width = rows_before sb (length lines)"
    using total_rows(1) [OF rs]
    by (simp add: ik_scrollback_layer_create_def ik_layer_create_def scrollback_get_height_def
        ik_scrollback_get_total_physical_lines_def sb_def)
  assume out: "ob_inv out" and sn: "s + n \<le> ly_get_height (ik_scrollback_layer_create U name sb0) width"
  have "returns (scrollback_render U sb0 out width s n) ob_inv"
  proof (cases "n = 0")
    case True
    then show ?thesis using out by (simp add: scrollback_render_def Let_def)
  next
    case False
    then have "s < rows_before sb (length lines)" "s + n - 1 < rows_before sb (length lines)"
      using sn h by linarith+
    then obtain sl so el eo where
      "ik_scrollback_find_logical_line_at_physical_row sb s = Inr (sl, so)"
      "ik_scrollback_find_logical_line_at_physical_row sb (s + n - 1) = Inr (el, eo)" "el < length lines"
      using find_row_rows [OF rs] by metis
    moreover have "ik_scrollback_get_line_count sb = length lines"
      using sb_reprD(2) [OF rs] by (simp add: ik_scrollback_get_line_count_def)
    ultimately show ?thesis
      using render_lines_returns [OF out] out False
      by (auto simp: scrollback_render_def sb_def [symmetric] Let_def simp del: upt_Suc)
  qed
  then show "returns (ly_render (ik_scrollback_layer_create U name sb0) out width s n) ob_inv"
    by (simp add: ik_scrollback_layer_create_def ik_layer_create_def)
qed

lemma render_document_returns:
  assumes "sb_repr U (ac_scrollback a) lines" and "cols > 0" and "rows > 0"
  shows "returns (render_document U rows cols a) (\<lambda>out. True)"
proof -
  let ?ls = "[ik_banner_layer_create ''banner'' (ac_banner_visible a),
        ik_scrollback_layer_create U ''scrollback'' (ac_scrollback a),
        ik_spinner_layer_create ''spinner'' (ac_spinner_state a),
        ik_separator_layer_create U ''separator'' (ac_separator_visible a) (ac_nav_ctx a) [],
        ik_input_layer_create ''input'' (ac_input_buffer_visible a) (input_bytes a),
        ik_completion_layer_create ''completion'' (ac_completion a),
        ik_status_layer_create ''status'' (ac_status_visible a) (ac_model a) (ac_thinking_level a)]"
  have init: "returns (agent_init_layers U a (ik_layer_cake_create rows)) (\<lambda>cake. lc_layers cake = ?ls)"
    by (simp add: agent_init_layers_def ik_layer_cake_create_def ik_layer_cake_add_layer_def Let_def)
  have drawn: "list_all (\<lambda>l. drawable l (nat cols)) ?ls"
    using scrollback_drawable [OF assms(1), of "nat cols" "''scrollback''"] assms(2)
      banner.drawable_axioms spinner.drawable_axioms separator.drawable_axioms
      input.drawable_axioms completion.drawable_axioms status.drawable_axioms
    by simp
  have out: "returns (ik_output_buffer_create 4096) ob_inv"
    by (simp add: ik_output_buffer_create_def ob_inv_def)
  have draw: "returns (ik_layer_cake_render (cake\<lparr>lc_viewport_row := v, lc_viewport_height := rows\<rparr>) ob (nat cols)) ob_inv"
    if "lc_layers cake = ?ls" "ob_inv ob" for cake ob v
    using cake_loop_draws [OF _ drawn that(2), of v "v + rows" 0] assms(2,3) that(1)
    by (simp add: ik_layer_cake_render_def)
  obtain first lst where v: "visible_range (ik_repl_calculate_document_height a) rows (ac_viewport_offset a) = (first, lst)"
    by fastforce
  show ?thesis
    unfolding render_document_def Let_def v prod.case
    by (intro returns_bindI [OF init] returns_bindI [OF out] returns_bindI [OF draw]) simp_all
qed

subsection \<open>The viewport\<close>

definition agent_view :: "utf8proc \<Rightarrow> ik_agent_ctx \<Rightarrow> byte list list \<Rightarrow> editor \<Rightarrow> bool" where
  "agent_view U a lines s \<longleftrightarrow> sb_repr U (ac_scrollback a) lines \<and> ib_repr U (ac_input_buffer a) s"

text \<open>Nothing but the cached layouts changes.\<close>

definition relaid :: "ik_agent_ctx \<Rightarrow> ik_agent_ctx \<Rightarrow> bool" where
  "relaid a a' \<longleftrightarrow> (\<exists>sb b. a' = a\<lparr>ac_scrollback := sb, ac_input_buffer := b\<rparr>)"

lemma ensure_layouts_view:
  assumes "agent_view U a lines s" and "cols > 0"
  shows "returns (ensure_layouts U cols a) (\<lambda>a'. agent_view U a' lines s \<and> relaid a a')"
proof -
  have i: "ib_repr U (ik_input_buffer_ensure_layout U (ac_input_buffer a) cols) s"
    using ensure_layout_refines(1) assms(1) by (simp add: agent_view_def)
  have "returns (ik_scrollback_ensure_layout (ac_scrollback a) cols) (\<lambda>sb. sb_repr U sb lines)"
    using ensure_layout_repr [of U "ac_scrollback a" lines cols] assms
    by (auto simp: agent_view_def elim: returns_mono)
  then show ?thesis
    unfolding ensure_layouts_def
    by (rule returns_bindI) (use i in \<open>auto simp: agent_view_def relaid_def\<close>)
qed

lemma visible_lines_returns:
  assumes r: "sb_repr U sb lines"
  shows "returns (visible_lines sb banner_rows sep_row first lst) (\<lambda>p. True)"
proof -
  have "\<exists>i off. ik_scrollback_find_logical_line_at_physical_row sb row = Inr (i, off)"
    if "row < ik_scrollback_get_total_physical_lines sb" for row
    using find_row_rows [OF r, of row] total_rows(1) [OF r] that
    by (metis ik_scrollback_get_total_physical_lines_def)
  then show ?thesis by (fastforce simp: visible_lines_def Let_def)
qed

lemma visible_range_bounds:
  assumes "visible_range doc rows off = (first, lst)" and "rows > 0"
  shows "lst - first < rows"
  using assms by (auto simp: visible_range_def Let_def split: if_splits)

lemma viewport_view:
  assumes "agent_view U a lines s" and "cols > 0" and "rows > 0"
  shows "returns (ik_repl_calculate_viewport U rows cols a)
    (\<lambda>(a', v). agent_view U a' lines s \<and> relaid a a' \<and> vp_input_buffer_start_row v \<le> rows)"
  unfolding ik_repl_calculate_viewport_def
proof (rule returns_bindI [OF ensure_layouts_view [OF assms(1,2)]])
  fix a'
  assume a: "agent_view U a' lines s \<and> relaid a a'"
  obtain first lst where v: "visible_range (ik_repl_calculate_document_height a') rows (ac_viewport_offset a') = (first, lst)"
    by fastforce
  have "returns (visible_lines (ac_scrollback a') b sep first lst) (\<lambda>p. True)" for b sep
    using visible_lines_returns [of U "ac_scrollback a'" lines] a by (simp add: agent_view_def)
  then show "returns (let banner_rows = (if ac_banner_visible a' then 6 else 0);
           scrollback_rows = ik_scrollback_get_total_physical_lines (ac_scrollback a');
           spinner_rows = (if sp_visible (ac_spinner_state a') then 1 else 0);
           sep_row = banner_rows + scrollback_rows + spinner_rows;
           input_buffer_start_doc_row = sep_row + 1
       in case visible_range (ik_repl_calculate_document_height a') rows (ac_viewport_offset a') of
            (first_visible_row, last_visible_row) \<Rightarrow>
              res_bind (visible_lines (ac_scrollback a') banner_rows sep_row first_visible_row last_visible_row)
                (\<lambda>(start_line, lines_count).
                   Inr (a', \<lparr>vp_scrollback_start_line = start_line, vp_scrollback_lines_count = lines_count,
                     vp_input_buffer_start_row =
                       (if input_buffer_start_doc_row \<le> last_visible_row
                        then (if input_buffer_start_doc_row \<ge> first_visible_row
                              then input_buffer_start_doc_row - first_visible_row else 0)
                        else rows),
                     vp_separator_visible = (sep_row \<ge> first_visible_row \<and> sep_row \<le> last_visible_row)\<rparr>)))
     (\<lambda>(a', v). agent_view U a' lines s \<and> relaid a a' \<and> vp_input_buffer_start_row v \<le> rows)"
    unfolding Let_def v prod.case
    by (rule returns_bindI) (use a visible_range_bounds [OF v assms(3)] in \<open>auto split: prod.split\<close>)
qed

subsection \<open>The frame buffer\<close>

lemma length_dec_digits: "k > 0 \<Longrightarrow> n < 10 ^ k \<Longrightarrow> length (dec_digits n) \<le> k"
proof (induction k arbitrary: n)
  case (Suc k)
  show ?case
  proof (cases "n < 10")
    case False
    then have "k > 0" using Suc.prems(2) by (cases k) auto
    moreover have "n div 10 < 10 ^ k" using Suc.prems(2) by (simp add: less_mult_imp_div_less mult.commute)
    ultimately show ?thesis using Suc.IH [of "n div 10"] False by (subst dec_digits.simps) simp
  qed (subst dec_digits.simps, simp)
qed simp

lemma length_dec_int: "0 \<le> i \<Longrightarrow> i < 10 ^ k \<Longrightarrow> k > 0 \<Longrightarrow> length (dec_int i) \<le> k"
proof -
  assume "0 \<le> i" "i < 10 ^ k" "k > 0"
  moreover have "nat i < 10 ^ k" using \<open>i < 10 ^ k\<close> \<open>0 \<le> i\<close> by (simp add: nat_less_iff)
  ultimately show ?thesis using length_dec_digits [of k "nat i"] by (simp add: dec_int_def)
qed

lemma put_all_fits: "length fb + sum_list (map length bs) \<le> cap \<Longrightarrow> put_all cap fb bs = Inr (fb @ concat bs)"
  by (induction bs arbitrary: fb) (simp_all add: put_bytes_def)

lemma length_csi [simp]: "length (csi t) = length t + 2"
  by (simp add: csi_def)

text \<open>A frame: what it draws, between hiding the cursor and placing it.\<close>

definition frame_bytes :: "byte list \<Rightarrow> bool \<Rightarrow> int \<Rightarrow> int \<Rightarrow> byte list" where
  "frame_bytes content vis row col =
     csi ''?25l'' @ csi ''H'' @ content @ csi ''J''
     @ (if vis then csi ''?25h'' @ cursor_escape (row + 1) (col + 1) else csi ''?25l'')"

lemma build_framebuffer_fits:
  assumes "0 \<le> row" "row < 2147483647" "0 \<le> col" "col < 999999"
  shows "build_framebuffer content vis row col = Inr (frame_bytes content vis row col)"
proof -
  have "length (dec_int (row + 1)) \<le> 10" "length (dec_int (col + 1)) \<le> 6"
    using length_dec_int [of "row + 1" 10] length_dec_int [of "col + 1" 6] assms by simp_all
  then have "length (cursor_escape (row + 1) (col + 1)) \<le> 20" by (simp add: cursor_escape_def)
  moreover have "add32 row 1 = Inr (row + 1)" "add32 col 1 = Inr (col + 1)"
    using assms by (simp_all add: add32_def in_int32_def)
  ultimately show ?thesis
    unfolding build_framebuffer_def frame_bytes_def
    by (cases vis) (simp_all add: put_all_fits del: put_all.simps)
qed

subsection \<open>The frame\<close>

text \<open>What drawing changes of an agent: the cached layouts and what is visible. The spinner is shown while a
  living agent works, the input at most while it is idle.\<close>

definition drawn :: "ik_agent_ctx \<Rightarrow> bool \<Rightarrow> ik_agent_ctx \<Rightarrow> bool" where
  "drawn a vis a' \<longleftrightarrow>
     (\<exists>sb b sep. a' = a\<lparr>ac_scrollback := sb, ac_input_buffer := b, ac_separator_visible := sep,
        ac_spinner_state := (ac_spinner_state a)\<lparr>sp_visible := (\<not> ac_dead a \<and> ac_state a \<noteq> IK_AGENT_STATE_IDLE)\<rparr>,
        ac_input_buffer_visible := vis\<rparr>)
     \<and> (vis \<longrightarrow> \<not> ac_dead a \<and> ac_state a = IK_AGENT_STATE_IDLE)"

lemma apply_visibility_drawn:
  assumes "relaid a a1" and "apply_visibility v rows a1 = (a2, vis)"
  shows "drawn a vis a2" and "ac_scrollback a2 = ac_scrollback a1" and "ac_input_buffer a2 = ac_input_buffer a1"
    and "vis \<Longrightarrow> vp_input_buffer_start_row v < rows"
proof -
  obtain sb b where a1: "a1 = a\<lparr>ac_scrollback := sb, ac_input_buffer := b\<rparr>" using assms(1) by (auto simp: relaid_def)
  show "drawn a vis a2"
    using assms(2) unfolding a1 drawn_def apply_visibility_def Let_def
    by (cases "ac_state a"; cases "ac_dead a") auto
  show "ac_scrollback a2 = ac_scrollback a1" "ac_input_buffer a2 = ac_input_buffer a1"
    and "vis \<Longrightarrow> vp_input_buffer_start_row v < rows"
    using assms(2) by (auto simp: apply_visibility_def Let_def split: if_splits)
qed

lemma input_bytes_view:
  assumes "ib_repr U (ac_input_buffer a) s"
  shows "input_bytes a = utf8 (ed_before s @ ed_after s)"
    and "fst (ik_input_buffer_get_cursor_position (ac_input_buffer a)) = length (utf8 (ed_before s))"
proof -
  show "input_bytes a = utf8 (ed_before s @ ed_after s)"
    using get_text_repr [OF assms] by (cases "ed_before s @ ed_after s = []") (auto simp: input_bytes_def)
  show "fst (ik_input_buffer_get_cursor_position (ac_input_buffer a)) = length (utf8 (ed_before s))"
    using ib_reprD(5,6) [OF assms] by (simp add: ik_input_buffer_get_cursor_position_def ik_input_buffer_cursor_get_position_def)
qed

lemma frame_cursor_bounds:
  assumes U: "utf8proc_ok U" "widths_ok U" and cols: "2 \<le> cols" "cols < 999999"
    and i: "ib_repr U (ac_input_buffer a) s"
    and small: "rows + length (utf8 (ed_before s @ ed_after s)) < 2147483630"
    and v: "vp_input_buffer_start_row v \<le> rows"
  shows "returns (frame_cursor U cols v vis a) (\<lambda>(row, col). 0 \<le> row \<and> row < 2147483647 \<and> 0 \<le> col \<and> col < cols)"
proof (cases "vis \<and> input_bytes a \<noteq> []")
  case False
  then show ?thesis using v small cols by (auto simp: frame_cursor_def Let_def)
next
  case True
  note t = input_bytes_view [OF i]
  have "scalars (ed_before s @ ed_after s)" using ib_reprD(3,4) [OF i] by simp
  then obtain p where p: "calculate_cursor_screen_position U (input_bytes a)
        (fst (ik_input_buffer_get_cursor_position (ac_input_buffer a))) cols = Inr p"
    and b: "0 \<le> screen_row p" "screen_row p \<le> int (length (utf8 (ed_before s @ ed_after s))) + 1"
      "0 \<le> screen_col p" "screen_col p < cols"
    using cursor_on_screen [OF U, of cols "ed_before s" "ed_after s"] cols small
    unfolding t by (auto elim!: returnsE)
  moreover have "add32 (int (vp_input_buffer_start_row v)) (screen_row p)
      = Inr (int (vp_input_buffer_start_row v) + screen_row p)"
    using b(1,2) v small by (simp add: add32_def in_int32_def)
  ultimately show ?thesis using True v small by (simp add: frame_cursor_def Let_def)
qed

text \<open>C12. Drawing a frame: for a terminal of at least two columns and a current agent whose scrollback and
  input buffer are well formed, it returns; the frame buffer is filled with the rows of the document
  between the control sequences, never behind its end; the cursor is in a column of the screen; the text of
  the scrollback, the input and the other agents are unchanged, the input is shown only while the agent is
  idle and alive, and the spinner only while it works.\<close>

theorem frame_drawn:
  assumes U: "utf8proc_ok U" "widths_ok U" and size: "2 \<le> tm_cols T" "tm_cols T < 999999" "0 < tm_rows T"
    and wr: "tm_tty_fd T < 0 \<or> (\<forall>fb. 0 \<le> tm_write T fb)"
    and cur: "rp_current r = Some k" "k < length (rp_agents r)" and view: "agent_view U (rp_agents r ! k) lines s"
    and small: "tm_rows T + length (utf8 (ed_before s @ ed_after s)) < 2147483630"
  shows "returns (ik_repl_render_frame U T r) (\<lambda>r'. \<exists>a' content vis row col.
     r' = r\<lparr>rp_agents := (rp_agents r)[k := a'], rp_framebuffer := frame_bytes content vis row col,
            rp_cursor_row := row, rp_cursor_col := col\<rparr>
     \<and> drawn (rp_agents r ! k) vis a' \<and> agent_view U a' lines s
     \<and> render_document U (tm_rows T) (tm_cols T) a' = Inr content
     \<and> 0 \<le> row \<and> 0 \<le> col \<and> col < tm_cols T)"
proof -
  let ?a = "rp_agents r ! k"
  have pos: "tm_cols T > 0" using size(1) by simp
  obtain a1 v where 1: "ik_repl_calculate_viewport U (tm_rows T) (tm_cols T) ?a = Inr (a1, v)"
    and v: "agent_view U a1 lines s" "relaid ?a a1" "vp_input_buffer_start_row v \<le> tm_rows T"
    using viewport_view [OF view pos size(3)] by (auto elim!: returnsE)
  obtain a2 vis where 2: "apply_visibility v (tm_rows T) a1 = (a2, vis)" by fastforce
  note d = apply_visibility_drawn [OF v(2) 2]
  have view2: "agent_view U a2 lines s" using v(1) d(2,3) by (simp add: agent_view_def)
  then have "sb_repr U (ac_scrollback a2) lines" by (simp add: agent_view_def)
  then have "returns (render_document U (tm_rows T) (tm_cols T) a2) (\<lambda>out. True)"
    by (rule render_document_returns [OF _ pos size(3)])
  then obtain content where 3: "render_document U (tm_rows T) (tm_cols T) a2 = Inr content"
    by (auto elim!: returnsE)
  obtain row col where 4: "frame_cursor U (tm_cols T) v vis a2 = Inr (row, col)"
    "0 \<le> row" "row < 2147483647" "0 \<le> col" "col < tm_cols T"
    using frame_cursor_bounds [OF U size(1,2) _ small v(3), of a2 vis] view2
    by (auto simp: agent_view_def elim!: returnsE)
  have 5: "build_framebuffer content vis row col = Inr (frame_bytes content vis row col)"
    using 4(2-5) size(2) by (intro build_framebuffer_fits) linarith+
  have "\<not> (tm_write T (frame_bytes content vis row col) < 0 \<and> tm_tty_fd T \<ge> 0)" using wr by (auto simp: not_less)
  then have "ik_repl_render_frame U T r
      = Inr (r\<lparr>rp_agents := (rp_agents r)[k := a2], rp_framebuffer := frame_bytes content vis row col,
              rp_cursor_row := row, rp_cursor_col := col\<rparr>)"
    by (simp add: ik_repl_render_frame_def current_agent_def set_current_def cur 1 2 3 4(1) 5)
  then show ?thesis
    using d(1) view2 3 4(2,4,5)
    by (simp only: returns.simps)
      (rule exI [of _ a2], rule exI [of _ content], rule exI [of _ vis], rule exI [of _ row], rule exI [of _ col], simp)
qed

text \<open>A new agent on a terminal of 24 rows and 80 columns.\<close>

lemma created_view:
  assumes "cols > 0"
  shows "returns (ik_agent_create None uuid parent now cols budget) (\<lambda>a. agent_view U a [] ed_empty \<and> ac_state a = IK_AGENT_STATE_IDLE)"
proof -
  obtain sb where sb: "ik_scrollback_create cols = Inr sb" "sb_repr U sb []"
    using scrollback_create_repr [OF assms, of U] by (auto elim!: returnsE)
  obtain b where b: "ik_input_buffer_create = Inr b" "ib_repr U b ed_empty"
    using create_refines by (auto elim!: returnsE)
  show ?thesis by (simp add: ik_agent_create_def sb b agent_view_def)
qed

definition new_agent :: ik_agent_ctx where
  "new_agent = projr (ik_agent_create None [0x61] None 0 80 100000)"

lemma new_agent_view: "agent_view U new_agent [] ed_empty" "ac_state new_agent = IK_AGENT_STATE_IDLE"
  using created_view [of 80 "[0x61]" None 0 100000 U] by (auto simp: new_agent_def elim!: returnsE)

definition new_repl :: ik_repl_ctx where
  "new_repl = \<lparr>rp_agents = [new_agent], rp_current = Some 0, rp_history = None, rp_has_cfg = True,
     rp_input_parser = ik_input_parser_create no_xkb, rp_quit = False, rp_scroll_det = None, rp_key_inject_buf = None, rp_framebuffer = [],
     rp_cursor_row = 0, rp_cursor_col = 0\<rparr>"

definition new_term :: ik_term where
  "new_term = \<lparr>tm_rows = 24, tm_cols = 80, tm_tty_fd = 1, tm_write = (\<lambda>fb. int (length fb))\<rparr>"

lemma ref_widths: "widths_ok ref_utf8proc"
  by (simp add: widths_ok_def ref_utf8proc_def)

theorem frame_drawn_witness:
  "returns (ik_repl_render_frame ref_utf8proc new_term new_repl)
     (\<lambda>r'. length (rp_agents r') = 1 \<and> agent_view ref_utf8proc (rp_agents r' ! 0) [] ed_empty
        \<and> 0 \<le> rp_cursor_col r' \<and> rp_cursor_col r' < 80)"
proof -
  have "agent_view ref_utf8proc (rp_agents new_repl ! 0) [] ed_empty" by (simp add: new_repl_def new_agent_view)
  from frame_drawn [OF ref_utf8proc_ok ref_widths _ _ _ _ _ _ this, where T = new_term]
  show ?thesis
    by (rule returns_mono) (auto simp: new_term_def new_repl_def ed_empty_def)
qed

end
