(* ===== verification/Ik_Repl_Actions.thy ===== *)
theory Ik_Repl_Actions
  imports Ik_Repl_Nav Ik_Frame Ik_Turn
begin

text \<open>
  What a key does: apps/ikigai/repl_actions.c, the submission of a line of repl.c and repl_actions_llm.c, and
  the dispatch of slash commands of commands.c.

  The record \<open>ik_io\<close> holds what the actions use beside the state of the REPL: the environment of the agents,
  the matcher of the completion, the terminal, the time, the answers of \<^verbatim>\<open>waitpid\<close>, and as functions the
  parts of the program that are not modelled: the handlers of the commands and the pretty printer of the
  input buffer. A handler yields the changed state and its error. The file of the command history is not
  modelled.
\<close>

record ik_io =
  io_env :: ik_env
  io_fzy :: fzy
  io_xkb :: xkb
  io_term :: ik_term
  io_now_ms :: int
  io_polls :: "nat \<Rightarrow> int"
  io_pp :: "ik_input_buffer \<Rightarrow> cstr"
  io_handlers :: "string \<Rightarrow> cstr option \<Rightarrow> ik_repl_ctx \<Rightarrow> ik_repl_ctx \<times> err_code option"

definition io_utf8proc :: "ik_io \<Rightarrow> utf8proc" where
  "io_utf8proc io = en_utf8proc (io_env io)"

subsection \<open>repl_actions.c: output of several lines\<close>

fun multiline_loop :: "utf8proc \<Rightarrow> byte list \<Rightarrow> byte list \<Rightarrow> ik_scrollback \<Rightarrow> ik_scrollback res" where
  "multiline_loop U line [] sb = (if line \<noteq> [] then ik_scrollback_append_line U sb line else Inr sb)"
| "multiline_loop U line (c # cs) sb =
     (if c = 10 then res_bind (ik_scrollback_append_line U sb line) (multiline_loop U [] cs)
      else multiline_loop U (line @ [c]) cs sb)"

definition ik_repl_append_multiline_to_scrollback :: "utf8proc \<Rightarrow> byte list \<Rightarrow> ik_scrollback \<Rightarrow> ik_scrollback res" where
  "ik_repl_append_multiline_to_scrollback U out sb = (if length out = 0 then Inr sb else multiline_loop U [] out sb)"

subsection \<open>commands.c: the dispatcher\<close>

definition is_space :: "byte \<Rightarrow> bool" where
  "is_space c \<longleftrightarrow> c = 0x20 \<or> (9 \<le> c \<and> c \<le> 13)"

text \<open>The name of a command and its arguments, \<open>None\<close> where there are none.\<close>

definition split_command :: "cstr \<Rightarrow> cstr \<times> cstr option" where
  "split_command inp =
     (let cmd_start = dropWhile is_space (drop 1 inp);
          cmd_name = takeWhile (\<lambda>c. \<not> is_space c) cmd_start;
          args_start = dropWhile is_space (dropWhile (\<lambda>c. \<not> is_space c) cmd_start)
      in (cmd_name, if args_start = [] then None else Some args_start))"

definition command_echo :: "bool \<Rightarrow> cstr \<Rightarrow> cstr" where
  "command_echo colors inp =
     (if colors \<and> ik_output_color IK_OUTPUT_SLASH_CMD \<ge> 0
      then fg (word_of_int (ik_output_color IK_OUTPUT_SLASH_CMD)) @ inp @ ansi_reset else inp)"

text \<open>The lines a command has written, each followed by a newline; they are read as C strings.\<close>

fun output_lines :: "ik_scrollback \<Rightarrow> nat list \<Rightarrow> cstr res" where
  "output_lines sb [] = Inr []"
| "output_lines sb (i # is) =
     (case ik_scrollback_get_line_text sb i of Inl e \<Rightarrow> Inl AssertFail
      | Inr t \<Rightarrow> res_bind (output_lines sb is) (\<lambda>rest. Inr (c_string t @ [10] @ rest)))"

definition ik_cmd_persist_to_db ::
  "ik_env \<Rightarrow> cstr \<Rightarrow> cstr \<Rightarrow> cstr option \<Rightarrow> nat \<Rightarrow> ik_agent_ctx \<Rightarrow> ik_agent_ctx res" where
  "ik_cmd_persist_to_db E inp cmd_name args lines_before a =
     (if \<not> persists E then Inr a
      else (let lines_after = ik_scrollback_get_line_count (ac_scrollback a)
            in res_bind (if lines_after > lines_before
                         then res_bind (output_lines (ac_scrollback a) [lines_before..<lines_after]) (\<lambda>t. Inr (Some t))
                         else Inr None)
                 (\<lambda>content. Inr (emit (Db_Message ''command'' content
                    (Some ([0x7B] @ quoted ''command'' @ [0x3A, 0x22] @ cmd_name @ [0x22, 0x2C] @ quoted ''args'' @ [0x3A]
                       @ (case args of None \<Rightarrow> bytes_of ''null'' | Some t \<Rightarrow> [0x22] @ t @ [0x22])
                       @ [0x2C] @ quoted ''echo'' @ [0x3A, 0x22] @ inp @ [0x22, 0x7D]))) a))))"

definition line_count :: "ik_repl_ctx \<Rightarrow> nat res" where
  "line_count r = res_bind (current_agent r) (\<lambda>a. Inr (ik_scrollback_get_line_count (ac_scrollback a)))"

definition append_current :: "ik_io \<Rightarrow> cstr \<Rightarrow> ik_repl_ctx \<Rightarrow> ik_repl_ctx res" where
  "append_current io t = on_current (append_line (io_env io) t)"

text \<open>Running the handler of a known command; the error is returned beside the state.\<close>

definition run_command ::
  "ik_io \<Rightarrow> cstr \<Rightarrow> string \<Rightarrow> cstr option \<Rightarrow> nat \<Rightarrow> ik_repl_ctx \<Rightarrow> (ik_repl_ctx \<times> err_code option) res" where
  "run_command io inp name args lines_before r =
     (case io_handlers io name args r of
        (r1, Some e) \<Rightarrow> Inr (r1, Some e)
      | (r1, None) \<Rightarrow>
          res_bind (line_count r1) (\<lambda>lines_after.
          res_bind (if lines_after > lines_before then append_current io [] r1 else Inr r1) (\<lambda>r2.
          res_bind (on_current (ik_cmd_persist_to_db (io_env io) inp (bytes_of name) args lines_before) r2)
            (\<lambda>r3. Inr (r3, None)))))"

definition ik_cmd_dispatch :: "ik_io \<Rightarrow> cstr \<Rightarrow> ik_repl_ctx \<Rightarrow> (ik_repl_ctx \<times> err_code option) res" where
  "ik_cmd_dispatch io inp r =
     check_assert (inp \<noteq> [] \<and> inp ! 0 = 0x2F)
       (case split_command inp of (cmd_name, args) \<Rightarrow>
          if cmd_name = [] then
            res_bind (append_current io (ik_scrollback_format_warning (en_colors (io_env io)) (bytes_of ''Empty command'')) r)
              (\<lambda>r1. Inr (r1, Some INVALID_ARG))
          else
            res_bind (append_current io (command_echo (en_colors (io_env io)) inp) r) (\<lambda>r1.
            res_bind (append_current io [] r1) (\<lambda>r2.
            res_bind (line_count r2) (\<lambda>lines_before.
              case find (\<lambda>(name, d). bytes_of name = cmd_name) commands of
                Some (name, d) \<Rightarrow> run_command io inp name args lines_before r2
              | None \<Rightarrow>
                  res_bind (append_current io (ik_scrollback_format_warning (en_colors (io_env io))
                              (bytes_of ''Unknown command '' @ [0x27] @ cmd_name @ [0x27])) r2)
                    (\<lambda>r3. Inr (r3, Some INVALID_ARG))))))"

subsection \<open>repl_actions_llm.c: slash commands\<close>

definition ik_repl_handle_slash_command :: "ik_io \<Rightarrow> cstr \<Rightarrow> ik_repl_ctx \<Rightarrow> ik_repl_ctx res" where
  "ik_repl_handle_slash_command io command r =
     check_assert (take 2 command = bytes_of ''pp'')
       (on_current (\<lambda>a. on_scrollback
          (ik_repl_append_multiline_to_scrollback (io_utf8proc io) (io_pp io (ac_input_buffer a))) a) r)"

definition handle_slash_cmd :: "ik_io \<Rightarrow> cstr \<Rightarrow> ik_repl_ctx \<Rightarrow> ik_repl_ctx res" where
  "handle_slash_cmd io command_text r =
     (if take 2 (drop 1 command_text) = bytes_of ''pp'' then ik_repl_handle_slash_command io (drop 1 command_text) r
      else res_bind (ik_cmd_dispatch io command_text r) (\<lambda>(r1, e). Inr r1))"

subsection \<open>repl.c: submitting a line\<close>

definition remember_line :: "cstr \<Rightarrow> ik_repl_ctx \<Rightarrow> ik_repl_ctx res" where
  "remember_line t r =
     (case rp_history r of None \<Rightarrow> Inr r
      | Some h \<Rightarrow> res_bind (ik_history_add h t) (\<lambda>h1.
          Inr (r\<lparr>rp_history := Some (if ik_history_is_browsing h1 then ik_history_stop_browsing h1 else h1)\<rparr>)))"

definition clear_input :: "ik_agent_ctx \<Rightarrow> ik_agent_ctx" where
  "clear_input a = a\<lparr>ac_input_buffer := ik_input_buffer_clear (ac_input_buffer a), ac_viewport_offset := 0\<rparr>"

text \<open>The bytes of the input buffer, read without the check for \<^verbatim>\<open>NULL\<close>.\<close>

definition input_text :: "ik_agent_ctx \<Rightarrow> byte list" where
  "input_text a = elems (ib_text (ac_input_buffer a))"

definition ik_repl_submit_line :: "ik_io \<Rightarrow> ik_repl_ctx \<Rightarrow> ik_repl_ctx res" where
  "ik_repl_submit_line io r =
     res_bind (current_agent r) (\<lambda>a.
       if ac_dead a then Inr r
       else (let t = c_string (input_text a)
             in res_bind (if length (input_text a) > 0 then remember_line t r else Inr r) (\<lambda>r1.
                res_bind (if length (input_text a) > 0
                          then on_current (on_scrollback (render_event (io_env io) ''user'' (Some t) (Some [0x7B, 0x7D]) False)) r1
                          else Inr r1)
                  (on_current (\<lambda>a. Inr (clear_input a))))))"

text \<open>Enter. The result of the submission is not looked at; it is never an error. The message is read from
  the block of the input buffer after that has been cleared, which keeps the bytes.\<close>

definition ik_repl_handle_newline_action :: "ik_io \<Rightarrow> ik_repl_ctx \<Rightarrow> ik_repl_ctx res" where
  "ik_repl_handle_newline_action io r =
     res_bind (current_agent r) (\<lambda>a.
       let t = input_text a; is_slash_command = (length t > 0 \<and> t ! 0 = 0x2F)
       in res_bind (on_current (\<lambda>a. Inr (ik_repl_dismiss_completion a)) r) (\<lambda>r1.
          if is_slash_command then
            res_bind (on_current (\<lambda>a. Inr (clear_input a)) r1) (handle_slash_cmd io (c_string t))
          else
            res_bind (ik_repl_submit_line io r1) (\<lambda>r2.
              if length t > 0 \<and> rp_has_cfg r2
              then on_current (send_to_llm_for_agent (io_env io) (io_now_ms io) (c_string t)) r2
              else Inr r2)))"

definition ik_repl_handle_resize :: "ik_io \<Rightarrow> (nat \<times> int) option \<Rightarrow> ik_repl_ctx \<Rightarrow> ik_repl_ctx res" where
  "ik_repl_handle_resize io term_size r =
     (case term_size of None \<Rightarrow> Inl (Err IO)
      | Some (rows, cols) \<Rightarrow>
         res_bind (on_current (ensure_layouts (io_utf8proc io) cols) r)
           (ik_repl_render_frame (io_utf8proc io) ((io_term io)\<lparr>tm_rows := rows, tm_cols := cols\<rparr>)))"

subsection \<open>repl_actions_history.c: browsing\<close>

text \<open>The two actions are kept for a reverse search and no key reaches them.\<close>

definition load_history_entry :: "cstr option \<Rightarrow> ik_repl_ctx \<Rightarrow> ik_repl_ctx res" where
  "load_history_entry entry r =
     (case entry of None \<Rightarrow> Inr r
      | Some t \<Rightarrow> on_current (on_input (\<lambda>b. ik_input_buffer_set_text b (Some t))) r)"

definition ik_repl_handle_history_prev_action :: "ik_repl_ctx \<Rightarrow> ik_repl_ctx res" where
  "ik_repl_handle_history_prev_action r =
     (case rp_history r of None \<Rightarrow> Inr r
      | Some h \<Rightarrow>
         res_bind (current_agent r) (\<lambda>a.
         res_bind (if \<not> ik_history_is_browsing h
                   then (let h1 = ik_history_start_browsing h (c_string (input_bytes a))
                         in res_bind (ik_history_get_current h1) (\<lambda>entry. Inr (h1, entry)))
                   else ik_history_prev h) (\<lambda>(h1, entry).
           load_history_entry entry (r\<lparr>rp_history := Some h1\<rparr>))))"

definition ik_repl_handle_history_next_action :: "ik_repl_ctx \<Rightarrow> ik_repl_ctx res" where
  "ik_repl_handle_history_next_action r =
     (case rp_history r of None \<Rightarrow> Inr r
      | Some h \<Rightarrow>
         (if \<not> ik_history_is_browsing h then Inr r
          else res_bind (ik_history_next h) (\<lambda>(h1, entry). load_history_entry entry (r\<lparr>rp_history := Some h1\<rparr>))))"

subsection \<open>repl_actions.c\<close>

definition arrow_up :: "ik_io \<Rightarrow> ik_repl_ctx \<Rightarrow> ik_repl_ctx res" where
  "arrow_up io = on_current (ik_repl_handle_arrow_up_action (io_utf8proc io) (tm_rows (io_term io)) (tm_cols (io_term io)))"

definition arrow_down :: "ik_io \<Rightarrow> ik_repl_ctx \<Rightarrow> ik_repl_ctx res" where
  "arrow_down io = on_current (ik_repl_handle_arrow_down_action (io_utf8proc io))"

definition scroll_up :: "ik_io \<Rightarrow> ik_repl_ctx \<Rightarrow> ik_repl_ctx res" where
  "scroll_up io = on_current (ik_repl_handle_scroll_up_action (io_utf8proc io) (tm_rows (io_term io)) (tm_cols (io_term io)))"

definition scroll_down :: "ik_repl_ctx \<Rightarrow> ik_repl_ctx res" where
  "scroll_down = on_current ik_repl_handle_scroll_down_action"

text \<open>The result is whether the caller has nothing left to do; after a scroll it is false like after an arrow.\<close>

definition ik_repl_process_scroll_detection ::
  "ik_io \<Rightarrow> ik_input_action_type \<Rightarrow> ik_repl_ctx \<Rightarrow> (ik_repl_ctx \<times> bool) res" where
  "ik_repl_process_scroll_detection io dir r =
     (case rp_scroll_det r of None \<Rightarrow> Inr (r, False)
      | Some det \<Rightarrow>
         res_bind (ik_scroll_detector_process_arrow det dir (io_now_ms io)) (\<lambda>(det1, result).
           let r1 = r\<lparr>rp_scroll_det := Some det1\<rparr>
           in case result of
                IK_SCROLL_RESULT_SCROLL_UP \<Rightarrow> res_bind (scroll_up io r1) (\<lambda>r2. Inr (r2, False))
              | IK_SCROLL_RESULT_SCROLL_DOWN \<Rightarrow> res_bind (scroll_down r1) (\<lambda>r2. Inr (r2, False))
              | IK_SCROLL_RESULT_ARROW_UP \<Rightarrow> Inr (r1, False)
              | IK_SCROLL_RESULT_ARROW_DOWN \<Rightarrow> Inr (r1, False)
              | IK_SCROLL_RESULT_NONE \<Rightarrow> Inr (r1, True)
              | IK_SCROLL_RESULT_ABSORBED \<Rightarrow> Inr (r1, True)))"

definition ik_repl_flush_pending_scroll_arrow :: "ik_io \<Rightarrow> ik_repl_ctx \<Rightarrow> ik_repl_ctx res" where
  "ik_repl_flush_pending_scroll_arrow io r =
     (case rp_scroll_det r of None \<Rightarrow> Inr r
      | Some det \<Rightarrow>
         (case ik_scroll_detector_flush det of (det1, result) \<Rightarrow>
            let r1 = r\<lparr>rp_scroll_det := Some det1\<rparr>
            in if result = IK_SCROLL_RESULT_ARROW_UP then arrow_up io r1
               else if result = IK_SCROLL_RESULT_ARROW_DOWN then arrow_down io r1
               else Inr r1))"

definition ik_repl_handle_escape_action :: "ik_io \<Rightarrow> ik_agent_ctx \<Rightarrow> ik_agent_ctx res" where
  "ik_repl_handle_escape_action io a =
     (if ac_state a = IK_AGENT_STATE_WAITING_FOR_LLM \<or> ac_state a = IK_AGENT_STATE_EXECUTING_TOOL
      then Inr (ik_repl_handle_interrupt_request (io_polls io) a)
      else res_bind (case ac_completion a of
                       Some c \<Rightarrow> (case cp_original_input c of
                          Some original \<Rightarrow> on_input (\<lambda>b. ik_input_buffer_set_text b (Some original)) a
                        | None \<Rightarrow> Inr a)
                     | None \<Rightarrow> Inr a)
             (\<lambda>a1. Inr (ik_repl_dismiss_completion a1)))"

text \<open>An edit of the input buffer of the current agent, which also scrolls to the bottom.\<close>

definition edit :: "(ik_input_buffer \<Rightarrow> ik_input_buffer res) \<Rightarrow> ik_agent_ctx \<Rightarrow> ik_agent_ctx res" where
  "edit f a = on_input f (a\<lparr>ac_viewport_offset := 0\<rparr>)"

definition stop_browsing :: "ik_repl_ctx \<Rightarrow> ik_repl_ctx" where
  "stop_browsing r =
     (case rp_history r of None \<Rightarrow> r
      | Some h \<Rightarrow> if ik_history_is_browsing h then r\<lparr>rp_history := Some (ik_history_stop_browsing h)\<rparr> else r)"

definition char_action :: "ik_io \<Rightarrow> 32 word \<Rightarrow> ik_repl_ctx \<Rightarrow> ik_repl_ctx res" where
  "char_action io codepoint r =
     res_bind (current_agent r) (\<lambda>a.
       if codepoint = 0x20 \<and> ac_completion a \<noteq> None
       then on_current (ik_repl_handle_completion_space_commit (io_utf8proc io)) r
       else on_current (\<lambda>a. res_bind (edit (\<lambda>b. ik_input_buffer_insert_codepoint (io_utf8proc io) b codepoint) a)
              (ik_repl_update_completion_after_char (io_fzy io))) (stop_browsing r))"

text \<open>The action of a key, without the handling of arrows that come from the wheel.\<close>

fun key_action :: "ik_io \<Rightarrow> ik_input_action_type \<Rightarrow> 32 word \<Rightarrow> ik_repl_ctx \<Rightarrow> ik_repl_ctx res" where
  "key_action io IK_INPUT_CHAR cp r = char_action io cp r"
| "key_action io IK_INPUT_INSERT_NEWLINE cp r = on_current (edit (ik_input_buffer_insert_newline (io_utf8proc io))) r"
| "key_action io IK_INPUT_NEWLINE cp r = ik_repl_handle_newline_action io r"
| "key_action io IK_INPUT_BACKSPACE cp r =
     on_current (\<lambda>a. res_bind (edit (ik_input_buffer_backspace (io_utf8proc io)) a)
       (ik_repl_update_completion_after_char (io_fzy io))) r"
| "key_action io IK_INPUT_DELETE cp r = on_current (edit (ik_input_buffer_delete (io_utf8proc io))) r"
| "key_action io IK_INPUT_ARROW_LEFT cp r =
     on_current (\<lambda>a. edit (ik_input_buffer_cursor_left (io_utf8proc io)) (ik_repl_dismiss_completion a)) r"
| "key_action io IK_INPUT_ARROW_RIGHT cp r =
     on_current (\<lambda>a. edit (ik_input_buffer_cursor_right (io_utf8proc io)) (ik_repl_dismiss_completion a)) r"
| "key_action io IK_INPUT_ARROW_UP cp r = arrow_up io r"
| "key_action io IK_INPUT_ARROW_DOWN cp r = arrow_down io r"
| "key_action io IK_INPUT_PAGE_UP cp r =
     on_current (ik_repl_handle_page_up_action (io_utf8proc io) (tm_rows (io_term io)) (tm_cols (io_term io))) r"
| "key_action io IK_INPUT_PAGE_DOWN cp r = on_current (ik_repl_handle_page_down_action (tm_rows (io_term io))) r"
| "key_action io IK_INPUT_SCROLL_UP cp r = scroll_up io r"
| "key_action io IK_INPUT_SCROLL_DOWN cp r = scroll_down r"
| "key_action io IK_INPUT_CTRL_A cp r = on_current (edit (ik_input_buffer_cursor_to_line_start (io_utf8proc io))) r"
| "key_action io IK_INPUT_CTRL_E cp r = on_current (edit (ik_input_buffer_cursor_to_line_end (io_utf8proc io))) r"
| "key_action io IK_INPUT_CTRL_K cp r = on_current (edit (ik_input_buffer_kill_to_line_end (io_utf8proc io))) r"
| "key_action io IK_INPUT_CTRL_N cp r = Inr r"
| "key_action io IK_INPUT_CTRL_P cp r = Inr r"
| "key_action io IK_INPUT_CTRL_U cp r = on_current (edit (ik_input_buffer_kill_line (io_utf8proc io))) r"
| "key_action io IK_INPUT_CTRL_W cp r = on_current (edit (ik_input_buffer_delete_word_backward (io_utf8proc io))) r"
| "key_action io IK_INPUT_CTRL_C cp r =
     res_bind (on_current (\<lambda>a. Inr (ik_repl_handle_interrupt_request (io_polls io) a)) r) (\<lambda>r1. Inr (r1\<lparr>rp_quit := True\<rparr>))"
| "key_action io IK_INPUT_TAB cp r = on_current (ik_repl_handle_tab_action (io_utf8proc io) (io_fzy io)) r"
| "key_action io IK_INPUT_ESCAPE cp r = on_current (ik_repl_handle_escape_action io) r"
| "key_action io IK_INPUT_NAV_PREV_SIBLING cp r = ik_repl_nav_prev_sibling r"
| "key_action io IK_INPUT_NAV_NEXT_SIBLING cp r = ik_repl_nav_next_sibling r"
| "key_action io IK_INPUT_NAV_PARENT cp r = ik_repl_nav_parent r"
| "key_action io IK_INPUT_NAV_CHILD cp r = ik_repl_nav_child r"
| "key_action io IK_INPUT_UNKNOWN cp r = Inr r"

definition ik_repl_process_action :: "ik_io \<Rightarrow> ik_input_action \<Rightarrow> ik_repl_ctx \<Rightarrow> ik_repl_ctx res" where
  "ik_repl_process_action io action r =
     (let k = act_type action
      in res_bind (if k = IK_INPUT_ARROW_UP \<or> k = IK_INPUT_ARROW_DOWN then ik_repl_process_scroll_detection io k r
                   else if k \<noteq> IK_INPUT_UNKNOWN
                   then res_bind (ik_repl_flush_pending_scroll_arrow io r) (\<lambda>r1. Inr (r1, False))
                   else Inr (r, False))
           (\<lambda>(r1, handled). if handled then Inr r1 else key_action io k (act_codepoint action) r1))"

end
