(* ===== verification/Ik_Repl_Loop.thy ===== *)
theory Ik_Repl_Loop
  imports Ik_Repl_Actions
begin

text \<open>
  The event loop: apps/ikigai/repl_event_handlers.c, the polling of repl_tool_completion.c and the loop of
  repl.c.

  What happens outside in one round of the loop is the record \<open>ik_round\<close>: whether \<^verbatim>\<open>select\<close> timed out, what
  the terminal delivers, and for every agent what its transfers do. The control socket, the signals and the
  sets of file descriptors are not modelled. The local variable in which the parser leaves the action is
  uninitialised; its content is \<open>rd_stack\<close>.
\<close>

datatype tty_read = Read_Byte byte | Read_Eof | Read_Interrupted | Read_Failed

record ik_round =
  rd_io :: ik_io
  rd_stack :: ik_input_action
  rd_timeout :: bool
  rd_tty :: "tty_read option"
  rd_performs :: "nat \<Rightarrow> ik_perform"

definition render :: "ik_io \<Rightarrow> ik_repl_ctx \<Rightarrow> ik_repl_ctx res" where
  "render io = ik_repl_render_frame (io_utf8proc io) (io_term io)"

text \<open>Where the code stops because drawing fails.\<close>

definition render_or_panic :: "ik_io \<Rightarrow> ik_repl_ctx \<Rightarrow> ik_repl_ctx res" where
  "render_or_panic io r = (case render io r of Inl (Err e) \<Rightarrow> Inl Panic | m \<Rightarrow> m)"

subsection \<open>Input\<close>

definition input_byte :: "ik_io \<Rightarrow> ik_input_action \<Rightarrow> byte \<Rightarrow> ik_repl_ctx \<Rightarrow> ik_repl_ctx res" where
  "input_byte io stack b r =
     res_bind (ik_input_parse_byte (io_xkb io) (rp_input_parser r) b stack) (\<lambda>(p, action).
     res_bind (ik_repl_process_action io action (r\<lparr>rp_input_parser := p\<rparr>)) (\<lambda>r1.
       if act_type action \<noteq> IK_INPUT_UNKNOWN then render io r1 else Inr r1))"

definition ik_repl_handle_terminal_input :: "ik_io \<Rightarrow> ik_input_action \<Rightarrow> tty_read \<Rightarrow> ik_repl_ctx \<Rightarrow> (ik_repl_ctx \<times> bool) res" where
  "ik_repl_handle_terminal_input io stack rd r =
     (case rd of
        Read_Interrupted \<Rightarrow> Inr (r, False)
      | Read_Failed \<Rightarrow> Inr (r, True)
      | Read_Eof \<Rightarrow> Inr (r, True)
      | Read_Byte b \<Rightarrow> res_bind (input_byte io stack b r) (\<lambda>r1. Inr (r1, False)))"

definition ik_repl_handle_key_injection :: "ik_io \<Rightarrow> ik_input_action \<Rightarrow> ik_repl_ctx \<Rightarrow> (ik_repl_ctx \<times> bool) res" where
  "ik_repl_handle_key_injection io stack r =
     (case rp_key_inject_buf r of None \<Rightarrow> Inr (r, False)
      | Some buf \<Rightarrow>
         (if ik_key_inject_pending buf = 0 then Inr (r, False)
          else res_bind (ik_key_inject_drain buf) (\<lambda>(buf1, got).
            case got of None \<Rightarrow> Inr (r, False)
            | Some b \<Rightarrow> res_bind (input_byte io stack b (r\<lparr>rp_key_inject_buf := Some buf1\<rparr>)) (\<lambda>r1. Inr (r1, True)))))"

subsection \<open>Timeouts\<close>

definition ik_repl_handle_select_timeout :: "ik_io \<Rightarrow> ik_repl_ctx \<Rightarrow> ik_repl_ctx res" where
  "ik_repl_handle_select_timeout io r =
     (case rp_scroll_det r of None \<Rightarrow> Inr r
      | Some det \<Rightarrow>
         (case ik_scroll_detector_check_timeout det (io_now_ms io) of (det1, timeout_result) \<Rightarrow>
            let r1 = r\<lparr>rp_scroll_det := Some det1\<rparr>
            in if timeout_result = IK_SCROLL_RESULT_ARROW_UP then res_bind (arrow_up io r1) (render io)
               else if timeout_result = IK_SCROLL_RESULT_ARROW_DOWN then res_bind (arrow_down io r1) (render io)
               else Inr r1))"

fun min_timeout :: "int \<Rightarrow> int list \<Rightarrow> int" where
  "min_timeout m [] = m"
| "min_timeout m (t # ts) = min_timeout (if t \<ge> 0 \<and> (m < 0 \<or> t < m) then t else m) ts"

definition ik_repl_calculate_select_timeout_ms :: "ik_io \<Rightarrow> int \<Rightarrow> ik_repl_ctx \<Rightarrow> int res" where
  "ik_repl_calculate_select_timeout_ms io curl_timeout_ms r =
     res_bind (current_agent r) (\<lambda>a.
       let spinner_timeout_ms = (if sp_visible (ac_spinner_state a) then 80 else - 1);
           tool_poll_timeout_ms = (if list_ex (\<lambda>x. ac_state x = IK_AGENT_STATE_EXECUTING_TOOL) (rp_agents r) then 50 else - 1);
           scroll_timeout_ms = (case rp_scroll_det r of None \<Rightarrow> - 1
              | Some det \<Rightarrow> ik_scroll_detector_get_timeout_ms det (io_now_ms io));
           m = min_timeout (- 1) [spinner_timeout_ms, curl_timeout_ms, tool_poll_timeout_ms, scroll_timeout_ms]
       in Inr (if m \<ge> 0 then m else 1000))"

text \<open>The timeouts of the providers of the agents that have one; an error of a provider ends the loop.\<close>

fun curl_timeouts :: "(ik_agent_ctx \<Rightarrow> int res) \<Rightarrow> ik_agent_ctx list \<Rightarrow> int list res" where
  "curl_timeouts timeout [] = Inr []"
| "curl_timeouts timeout (a # as) =
     (if ac_provider_instance a = None then curl_timeouts timeout as
      else res_bind (timeout a) (\<lambda>t. res_bind (curl_timeouts timeout as) (\<lambda>ts. Inr (t # ts))))"

definition ik_repl_calculate_curl_min_timeout :: "(ik_agent_ctx \<Rightarrow> int res) \<Rightarrow> ik_repl_ctx \<Rightarrow> int res" where
  "ik_repl_calculate_curl_min_timeout timeout r =
     res_bind (curl_timeouts timeout (rp_agents r)) (\<lambda>ts. Inr (min_timeout (- 1) ts))"

subsection \<open>All agents\<close>

definition on_agent :: "nat \<Rightarrow> (ik_agent_ctx \<Rightarrow> ik_agent_ctx res) \<Rightarrow> ik_repl_ctx \<Rightarrow> ik_repl_ctx res" where
  "on_agent i f r =
     res_bind (load (rp_agents r) i) (\<lambda>a. res_bind (f a) (\<lambda>a1.
       res_bind (store (rp_agents r) i a1) (\<lambda>as. Inr (r\<lparr>rp_agents := as\<rparr>))))"

fun for_agents :: "(nat \<Rightarrow> ik_repl_ctx \<Rightarrow> ik_repl_ctx res) \<Rightarrow> nat list \<Rightarrow> ik_repl_ctx \<Rightarrow> ik_repl_ctx res" where
  "for_agents f [] r = Inr r"
| "for_agents f (i # is) r = res_bind (f i r) (for_agents f is)"

text \<open>The part of the handler behind the check of the transfers is reached; then the screen is drawn if the
  agent is the current one. The callbacks do not change the state of the agent.\<close>

definition request_ended :: "ik_perform \<Rightarrow> ik_agent_ctx \<Rightarrow> bool" where
  "request_ended P a \<longleftrightarrow> al_curl_still_running (ac_llm a) \<noteq> 0 \<and> ac_provider_instance a \<noteq> None
     \<and> pf_still_running P = 0 \<and> ac_state a = IK_AGENT_STATE_WAITING_FOR_LLM"

definition curl_agent :: "ik_io \<Rightarrow> (nat \<Rightarrow> ik_perform) \<Rightarrow> nat \<Rightarrow> ik_repl_ctx \<Rightarrow> ik_repl_ctx res" where
  "curl_agent io performs i r =
     res_bind (load (rp_agents r) i) (\<lambda>a.
     res_bind (on_agent i (process_agent_curl_events (io_env io) (performs i)) r) (\<lambda>r1.
       if request_ended (performs i) a \<and> rp_current r1 = Some i then render io r1 else Inr r1))"

definition ik_repl_handle_curl_events :: "ik_io \<Rightarrow> (nat \<Rightarrow> ik_perform) \<Rightarrow> ik_repl_ctx \<Rightarrow> ik_repl_ctx res" where
  "ik_repl_handle_curl_events io performs r = for_agents (curl_agent io performs) [0..<length (rp_agents r)] r"

definition poll_agent :: "ik_io \<Rightarrow> nat \<Rightarrow> ik_repl_ctx \<Rightarrow> ik_repl_ctx res" where
  "poll_agent io i r =
     res_bind (load (rp_agents r) i) (\<lambda>a.
     res_bind (on_agent i (poll_tool_completion (io_env io)) r) (\<lambda>r1.
       if ac_state a = IK_AGENT_STATE_EXECUTING_TOOL \<and> at_tool_thread_complete (ac_tool a) \<and> rp_current r1 = Some i
       then render_or_panic io r1 else Inr r1))"

definition ik_repl_poll_tool_completions :: "ik_io \<Rightarrow> ik_repl_ctx \<Rightarrow> ik_repl_ctx res" where
  "ik_repl_poll_tool_completions io r = for_agents (poll_agent io) [0..<length (rp_agents r)] r"

definition send_pending_prompt :: "ik_io \<Rightarrow> ik_agent_ctx \<Rightarrow> ik_agent_ctx res" where
  "send_pending_prompt io a =
     (case at_pending_prompt (ac_tool a) of None \<Rightarrow> Inr a
      | Some prompt \<Rightarrow>
         res_bind (on_scrollback (render_event (io_env io) ''user'' (Some prompt) (Some [0x7B, 0x7D]) False)
                     (on_tool (\<lambda>t. t\<lparr>at_pending_prompt := None\<rparr>) a))
           (send_to_llm_for_agent (io_env io) (io_now_ms io) prompt))"

definition send_pending_prompts :: "ik_io \<Rightarrow> ik_repl_ctx \<Rightarrow> ik_repl_ctx res" where
  "send_pending_prompts io r = for_agents (\<lambda>i. on_agent i (send_pending_prompt io)) [0..<length (rp_agents r)] r"

definition advance_spinner :: "ik_io \<Rightarrow> ik_repl_ctx \<Rightarrow> ik_repl_ctx res" where
  "advance_spinner io r =
     res_bind (current_agent r) (\<lambda>a.
       if sp_visible (ac_spinner_state a) then
         (case ik_spinner_maybe_advance (ac_spinner_state a) (io_now_ms io) of (st, moved) \<Rightarrow>
            res_bind (set_current r (a\<lparr>ac_spinner_state := st\<rparr>)) (\<lambda>r1. if moved then render io r1 else Inr r1))
       else Inr r)"

subsection \<open>repl.c: the loop\<close>

text \<open>One round, from the return of \<^verbatim>\<open>select\<close> on. The result is whether the loop ends.\<close>

definition loop_round :: "ik_round \<Rightarrow> ik_repl_ctx \<Rightarrow> (ik_repl_ctx \<times> bool) res" where
  "loop_round rd r =
     (let io = rd_io rd
      in res_bind (if rd_timeout rd then ik_repl_handle_select_timeout io r else Inr r) (\<lambda>r1.
         res_bind (case rd_tty rd of None \<Rightarrow> Inr (r1, False)
                   | Some t \<Rightarrow> ik_repl_handle_terminal_input io (rd_stack rd) t r1) (\<lambda>(r2, should_exit).
           if should_exit then Inr (r2, True)
           else res_bind (ik_repl_handle_curl_events io (rd_performs rd) r2) (\<lambda>r3.
                res_bind (advance_spinner io r3) (\<lambda>r4.
                res_bind (ik_repl_poll_tool_completions io r4) (\<lambda>r5.
                res_bind (send_pending_prompts io r5) (\<lambda>r6. Inr (r6, False))))))))"

text \<open>The loop over the rounds that happen; injected keys are read before the terminal.\<close>

fun run_loop :: "ik_round list \<Rightarrow> ik_repl_ctx \<Rightarrow> ik_repl_ctx res" where
  "run_loop [] r = Inr r"
| "run_loop (rd # rds) r =
     (if rp_quit r then Inr r
      else res_bind (ik_repl_handle_key_injection (rd_io rd) (rd_stack rd) r) (\<lambda>(r1, handled).
        if handled then run_loop rds r1
        else res_bind (loop_round rd r1) (\<lambda>(r2, should_exit). if should_exit then Inr r2 else run_loop rds r2)))"

definition ik_repl_run :: "ik_io \<Rightarrow> ik_round list \<Rightarrow> ik_repl_ctx \<Rightarrow> ik_repl_ctx res" where
  "ik_repl_run io rds r = res_bind (render io r) (run_loop rds)"

end
