(* ===== verification/Ik_Stream_Adapter.thy ===== *)
theory Ik_Stream_Adapter
  imports Ik_Provider Ik_SSE
begin

text \<open>
  What the stream parsers of the providers share: the write callback that feeds a chunk to the parser of
  server-sent events and handles every complete event, and the completion that is built when the transfer
  has ended.

  Handling an event yields the changed stream context and the events given to the callback of the caller in
  their order; the callback does not change the context. The loop over the events of the buffer has fuel for
  every byte of it.
\<close>

type_synonym 's handler = "ik_sse_event \<Rightarrow> 's \<Rightarrow> ('s \<times> ik_stream_event list) res"

fun handle_all :: "'s handler \<Rightarrow> nat \<Rightarrow> ik_sse_parser \<Rightarrow> 's \<Rightarrow> (ik_sse_parser \<times> 's \<times> ik_stream_event list) res" where
  "handle_all f 0 p s = Inr (p, s, [])"
| "handle_all f (Suc n) p s =
     res_bind (ik_sse_parser_next p) (\<lambda>r.
       case r of None \<Rightarrow> Inr (p, s, [])
       | Some (e, q) \<Rightarrow>
          res_bind (f e s) (\<lambda>(s1, evs).
          res_bind (handle_all f n q s1) (\<lambda>(q1, s2, evs1). Inr (q1, s2, evs @ evs1))))"

definition stream_write :: "'s handler \<Rightarrow> byte list \<Rightarrow> ik_sse_parser \<Rightarrow> 's \<Rightarrow> (ik_sse_parser \<times> 's \<times> ik_stream_event list) res" where
  "stream_write f data p s =
     res_bind (ik_sse_parser_feed p data) (\<lambda>q. handle_all f (sp_len q + 1) q s)"

text \<open>The completion of a transfer with the given status.\<close>

definition http_error_category :: "int \<Rightarrow> ik_error_category" where
  "http_error_category status =
     (if status = 401 \<or> status = 403 then IK_ERR_CAT_AUTH
      else if status = 429 then IK_ERR_CAT_RATE_LIMIT
      else if status \<ge> 500 then IK_ERR_CAT_SERVER
      else IK_ERR_CAT_UNKNOWN)"

definition stream_completion :: "int \<Rightarrow> ik_response option \<Rightarrow> cstr \<Rightarrow> ik_provider_completion" where
  "stream_completion status response message =
     (if status \<ge> 200 \<and> status < 300
      then \<lparr>co_success = True, co_http_status = status, co_response = response, co_error_category = IK_ERR_CAT_UNKNOWN,
            co_error_message = None, co_retry_after_ms = - 1\<rparr>
      else \<lparr>co_success = False, co_http_status = status, co_response = None,
            co_error_category = http_error_category status, co_error_message = Some message, co_retry_after_ms = - 1\<rparr>)"

subsection \<open>Chunks\<close>

text \<open>Writing several chunks, and handling a list of events.\<close>

fun write_chunks :: "'s handler \<Rightarrow> byte list list \<Rightarrow> ik_sse_parser \<Rightarrow> 's \<Rightarrow> (ik_sse_parser \<times> 's \<times> ik_stream_event list) res" where
  "write_chunks f [] p s = Inr (p, s, [])"
| "write_chunks f (c # cs) p s =
     res_bind (stream_write f c p s) (\<lambda>(p1, s1, evs).
     res_bind (write_chunks f cs p1 s1) (\<lambda>(p2, s2, evs1). Inr (p2, s2, evs @ evs1)))"

fun handle_events :: "'s handler \<Rightarrow> ik_sse_event list \<Rightarrow> 's \<Rightarrow> ('s \<times> ik_stream_event list) res" where
  "handle_events f [] s = Inr (s, [])"
| "handle_events f (e # es) s =
     res_bind (f e s) (\<lambda>(s1, evs).
     res_bind (handle_events f es s1) (\<lambda>(s2, evs1). Inr (s2, evs @ evs1)))"

lemma handle_events_Cons_iff:
  "handle_events f (e # es) s = Inr (s2, evs) \<longleftrightarrow>
     (\<exists>s1 e1 e2. f e s = Inr (s1, e1) \<and> handle_events f es s1 = Inr (s2, e2) \<and> evs = e1 @ e2)"
  by (fastforce simp: res_bind_Inr_iff)

lemma handle_events_append_iff:
  "handle_events f (es @ es') s = Inr (s2, evs) \<longleftrightarrow>
     (\<exists>s1 e1 e2. handle_events f es s = Inr (s1, e1) \<and> handle_events f es' s1 = Inr (s2, e2) \<and> evs = e1 @ e2)"
proof (induction es arbitrary: s evs)
  case (Cons e es)
  show ?case
    unfolding append_Cons handle_events_Cons_iff Cons.IH
    by (simp only: ex_simps [symmetric] conj_assoc) (auto 4 4)
qed simp

lemma handle_all_repr:
  assumes "handle_events f (fst (drain_events bs)) s = Inr (s1, evs)"
  shows "sse_repr p bs \<Longrightarrow> length bs < n \<Longrightarrow>
    \<exists>q. handle_all f n p s = Inr (q, s1, evs) \<and> sse_repr q (snd (drain_events bs))"
  using assms
proof (induction n arbitrary: p bs s evs)
  case (Suc n)
  show ?case
  proof (cases "next_event bs")
    case None
    then have "ik_sse_parser_next p = Inr None"
      using next_repr [OF Suc.prems(1)] by (auto simp: returns_iff)
    with None Suc.prems show ?thesis by (simp add: drain_events.simps [of bs])
  next
    case (Some x)
    obtain e r where x: "x = (e, r)" by fastforce
    then obtain q where q: "ik_sse_parser_next p = Inr (Some (e, q))" "sse_repr q r"
      using next_repr [OF Suc.prems(1)] Some by (auto simp: returns_iff)
    have d: "drain_events bs = (e # fst (drain_events r), snd (drain_events r))"
      using Some x by (simp add: drain_events.simps [of bs] split: prod.splits)
    obtain s' e1 e2 where s': "f e s = Inr (s', e1)" "handle_events f (fst (drain_events r)) s' = Inr (s1, e2)"
      "evs = e1 @ e2"
      using Suc.prems(3) by (auto simp: d handle_events_Cons_iff simp del: handle_events.simps)
    have "length r < n" using next_event_shorter Some x Suc.prems(2) by fastforce
    then obtain q' where "handle_all f n q s' = Inr (q', s1, e2)" "sse_repr q' (snd (drain_events r))"
      using Suc.IH [OF q(2) _ s'(2)] by blast
    then show ?thesis using q(1) s' by (simp add: d)
  qed
qed simp

text \<open>However a stream is cut into chunks, its events are handled one after the other.\<close>

lemma write_chunks_repr:
  assumes "handle_events f (fst (drain_events (r @ concat chunks))) s = Inr (s1, evs)"
  shows "sse_repr p r \<Longrightarrow> next_event r = None \<Longrightarrow> length r + sum_list (map length chunks) < 2 ^ 31 \<Longrightarrow>
    \<exists>q. write_chunks f chunks p s = Inr (q, s1, evs) \<and> sse_repr q (snd (drain_events (r @ concat chunks)))"
  using assms
proof (induction chunks arbitrary: p r s evs)
  case Nil
  then show ?case by (simp add: drain_events.simps [of r])
next
  case (Cons c cs)
  let ?d = "drain_events (r @ c)"
  obtain q where q: "ik_sse_parser_feed p c = Inr q" "sse_repr q (r @ c)"
    using feed_repr [OF Cons.prems(1), of c] Cons.prems(3) by (auto simp: returns_iff)
  have l: "sp_len q = length (r @ c)" using q(2) by (simp add: sse_repr_def)
  have all: "drain_events (r @ concat (c # cs))
      = (fst ?d @ fst (drain_events (snd ?d @ concat cs)), snd (drain_events (snd ?d @ concat cs)))"
    using drain_append [of "r @ c" "concat cs"] by (simp split: prod.splits)
  obtain s' e1 e2 where s': "handle_events f (fst ?d) s = Inr (s', e1)" "evs = e1 @ e2"
    "handle_events f (fst (drain_events (snd ?d @ concat cs))) s' = Inr (s1, e2)"
    using Cons.prems(4) unfolding all fst_conv handle_events_append_iff by blast
  obtain q' where q': "handle_all f (sp_len q + 1) q s = Inr (q', s', e1)" "sse_repr q' (snd ?d)"
    using handle_all_repr [OF s'(1) q(2), of "sp_len q + 1"] l by auto
  have "length (snd ?d) + sum_list (map length cs) < 2 ^ 31"
    using drain_events_length [of "r @ c"] Cons.prems(3) by simp
  then obtain q'' where "write_chunks f cs q' s' = Inr (q'', s1, e2)"
    "sse_repr q'' (snd (drain_events (snd ?d @ concat cs)))"
    using Cons.IH [OF q'(2) drain_complete _ s'(3)] by blast
  then show ?case
    using q(1) q'(1) s'(2) unfolding all snd_conv by (simp add: stream_write_def del: handle_all.simps)
qed

lemma write_chunks_create:
  assumes "handle_events f (fst (drain_events (concat chunks))) s = Inr (s1, evs)"
    and "length (concat chunks) < 2 ^ 31"
  shows "\<exists>q. write_chunks f chunks ik_sse_parser_create s = Inr (q, s1, evs)"
proof -
  have "next_event [] = None" by (simp add: next_event_def find_event_delimiter_def c_string_def)
  moreover have "length [] + sum_list (map length chunks) < 2 ^ 31" using assms(2) by (simp add: length_concat)
  moreover have "handle_events f (fst (drain_events ([] @ concat chunks))) s = Inr (s1, evs)" using assms(1) by simp
  ultimately show ?thesis using write_chunks_repr [of f "[]" chunks s s1 evs] create_repr by auto
qed


text \<open>Whatever the bytes are, a stream goes wrong only where a handler does.\<close>

lemma handle_all_safe:
  assumes h: "\<And>e s. safe (h e s) (\<lambda>_. True)"
  shows "sse_repr p bs \<Longrightarrow> length bs < n \<Longrightarrow>
    safe (handle_all h n p s) (\<lambda>(q, s1, evs). sse_repr q (snd (drain_events bs)))"
proof (induction n arbitrary: p bs s)
  case (Suc n)
  show ?case
  proof (cases "next_event bs")
    case None
    then have "ik_sse_parser_next p = Inr None"
      using next_repr [OF Suc.prems(1)] by (auto simp: returns_iff)
    with None Suc.prems show ?thesis by (simp add: drain_events.simps [of bs])
  next
    case (Some x)
    obtain e r where x: "x = (e, r)" by fastforce
    then obtain q where q: "ik_sse_parser_next p = Inr (Some (e, q))" "sse_repr q r"
      using next_repr [OF Suc.prems(1)] Some by (auto simp: returns_iff)
    have d: "snd (drain_events bs) = snd (drain_events r)"
      using Some x by (simp add: drain_events.simps [of bs] split: prod.splits)
    have "length r < n" using next_event_shorter Some x Suc.prems(2) by fastforce
    note IH = Suc.IH [OF q(2) this]
    show ?thesis
      using h [of e s] IH
      by (simp add: q(1) d) (auto intro!: safe_bind [OF h] safe_bind [OF IH] split: prod.splits)
  qed
qed simp

lemma write_chunks_safe:
  assumes h: "\<And>e s. safe (h e s) (\<lambda>_. True)"
  shows "sse_repr p bs \<Longrightarrow> length bs + length (concat chunks) < 2 ^ 31 \<Longrightarrow> safe (write_chunks h chunks p s) (\<lambda>_. True)"
proof (induction chunks arbitrary: p bs s)
  case (Cons c cs)
  obtain q where q: "ik_sse_parser_feed p c = Inr q" "sse_repr q (bs @ c)"
    using feed_repr [OF Cons.prems(1), of c] Cons.prems(2) by (auto simp: returns_iff)
  have "sp_len q = length (bs @ c)" using q(2) by (simp add: sse_repr_def)
  then have w: "safe (stream_write h c p s) (\<lambda>(q', s1, evs). sse_repr q' (snd (drain_events (bs @ c))))"
    using handle_all_safe [OF h q(2), where n = "sp_len q + 1" and s = s] q(1) by (simp add: stream_write_def del: handle_all.simps)
  have l: "length (snd (drain_events (bs @ c))) + length (concat cs) < 2 ^ 31"
    using drain_events_length [of "bs @ c"] Cons.prems(2) by simp
  show ?case
    using Cons.IH [OF _ l]
    by (simp del: handle_all.simps) (rule safe_bind [OF w], auto intro!: safe_bind split: prod.splits)
qed simp

end
