(* ===== verification/Ik_Wire.thy ===== *)
theory Ik_Wire
  imports Ik_Stream_Adapter Ik_Message
begin

text \<open>
  The wire between a server and the stream parsers: frames of server-sent events, the documents they carry,
  and the delivery of a stream in arbitrary chunks to the write callback of a provider.

  The locale \<open>sse_client\<close> is the contract of an event handler that looks at the data of an event only through the
  reader of JSON, and \<open>stream_callback\<close> that of a write callback which feeds such a handler and keeps the parser
  and the stream context in its own state. They are interpreted for the providers where those are defined.
\<close>

subsection \<open>Frames\<close>

fun frame :: "byte list option \<times> byte list \<Rightarrow> byte list" where
  "frame (Some name, d) = sse_format name [d]"
| "frame (None, d) = data_prefix @ [0x20] @ d @ [0x0A, 0x0A]"

definition clean :: "byte list \<Rightarrow> bool" where
  "clean t \<longleftrightarrow> 0x0A \<notin> set t \<and> 0 \<notin> set t"

fun clean_frame :: "byte list option \<times> byte list \<Rightarrow> bool" where
  "clean_frame (n, d) \<longleftrightarrow> clean d \<and> (case n of None \<Rightarrow> True | Some name \<Rightarrow> clean name)"

fun frame_event :: "byte list option \<times> byte list \<Rightarrow> ik_sse_event" where
  "frame_event (n, d) = \<lparr>ev_event = n, ev_data = Some d\<rparr>"

lemma next_event_frame:
  assumes "clean_frame x"
  shows "next_event (frame x @ rest) = Some (frame_event x, rest)"
proof (cases x)
  case (Pair n d)
  show ?thesis
  proof (cases n)
    case None
    let ?l = "data_prefix @ [0x20] @ d"
    have "list_all good_line [?l]" "0 \<notin> set (join_nl [?l])"
      using assms Pair by (simp_all add: good_line_def data_prefix_def clean_def join_nl_simps)
    then have "next_event (join_nl [?l] @ 0x0A # 0x0A # rest)
        = Some (foldl process_line \<lparr>ev_event = None, ev_data = None\<rparr> [?l], rest)"
      using next_event_lines by blast
    then show ?thesis
      using Pair None process_data_format [of "\<lparr>ev_event = None, ev_data = None\<rparr>" d] by (simp add: join_nl_simps)
  next
    case (Some name)
    then show ?thesis
      using next_event_format [of "[d]" name rest] assms Pair by (simp add: clean_def join_nl_simps)
  qed
qed

lemma drain_frames: "list_all clean_frame xs \<Longrightarrow> fst (drain_events (concat (map frame xs))) = map frame_event xs"
proof (induction xs)
  case Nil
  show ?case by (simp add: drain_events.simps [of "[]"] next_event_def find_event_delimiter_def c_string_def)
next
  case (Cons x xs)
  then show ?case
    using next_event_frame [of x "concat (map frame xs)"]
    by (auto simp: drain_events.simps [of "frame x @ concat (map frame xs)"] split: prod.splits)
qed

subsection \<open>Documents\<close>

text \<open>What is assumed of yyjson on the wire: what is written is read back, and the written text is one line.\<close>

definition json_wire :: "yyjson \<Rightarrow> yyjson_writer \<Rightarrow> bool" where
  "json_wire J W \<longleftrightarrow> json_io J W \<and> (\<forall>d s. W d = Some s \<longrightarrow> clean s \<and> s \<noteq> []) \<and> J (bytes_of ''{}'') = Some (JObj [])"

text \<open>The frame \<open>x\<close> carries the document \<open>d\<close>.\<close>

fun carries :: "yyjson \<Rightarrow> byte list option \<times> byte list \<Rightarrow> byte list option \<times> json \<Rightarrow> bool" where
  "carries J (n, t) (m, v) \<longleftrightarrow> n = m \<and> J t = Some v \<and> t \<noteq> [] \<and> clean_frame (n, t)"

fun handle_docs ::
  "(byte list option \<Rightarrow> json \<Rightarrow> 's \<Rightarrow> ('s \<times> ik_stream_event list) res) \<Rightarrow> (byte list option \<times> json) list \<Rightarrow> 's
     \<Rightarrow> ('s \<times> ik_stream_event list) res" where
  "handle_docs doc [] s = Inr (s, [])"
| "handle_docs doc ((n, v) # ds) s =
     res_bind (doc n v s) (\<lambda>(s1, evs). res_bind (handle_docs doc ds s1) (\<lambda>(s2, evs1). Inr (s2, evs @ evs1)))"

lemma handle_docs_append:
  "handle_docs doc (xs @ ys) s =
     res_bind (handle_docs doc xs s) (\<lambda>(s1, evs). res_bind (handle_docs doc ys s1) (\<lambda>(s2, evs1). Inr (s2, evs @ evs1)))"
proof (induction xs arbitrary: s)
  case Nil
  show ?case by (cases "handle_docs doc ys s") auto
next
  case (Cons x xs)
  obtain n v where x: "x = (n, v)" by fastforce
  show ?case
  proof (cases "doc n v s")
    case (Inr p)
    obtain s1 e where p: "p = (s1, e)" by fastforce
    show ?thesis
    proof (cases "handle_docs doc xs s1")
      case (Inr q)
      then show ?thesis
        using \<open>doc n v s = Inr p\<close> p x Cons.IH [of s1] by (cases q; cases "handle_docs doc ys (fst q)") auto
    qed (use Inr p x Cons.IH [of s1] in simp)
  qed (simp add: x)
qed

locale sse_client =
  fixes J :: yyjson
    and h :: "'s handler"
    and doc :: "byte list option \<Rightarrow> json \<Rightarrow> 's \<Rightarrow> ('s \<times> ik_stream_event list) res"
  assumes reads_doc: "J t = Some v \<Longrightarrow> t \<noteq> [] \<Longrightarrow> h \<lparr>ev_event = n, ev_data = Some t\<rparr> s = doc n v s"
begin

lemma handle_frames:
  "list_all2 (carries J) xs ds \<Longrightarrow> handle_events h (map frame_event xs) s = handle_docs doc ds s"
proof (induction arbitrary: s rule: list_all2_induct)
  case (Cons x xs d ds)
  obtain n t v where "x = (n, t)" "d = (n, v)" "J t = Some v" "t \<noteq> []"
    using Cons.hyps(1) by (cases x; cases d) auto
  then show ?case by (simp add: reads_doc Cons.IH)
qed simp

lemma delivered:
  assumes "list_all2 (carries J) xs ds" and "handle_docs doc ds s = Inr (s1, evs)"
    and "concat chunks = concat (map frame xs)" and "length (concat chunks) < 2 ^ 31"
  shows "\<exists>q. write_chunks h chunks ik_sse_parser_create s = Inr (q, s1, evs)"
proof -
  have "list_all clean_frame xs"
    using assms(1) by (induction rule: list_all2_induct) (auto elim!: carries.elims)
  then have "handle_events h (fst (drain_events (concat chunks))) s = Inr (s1, evs)"
    using handle_frames [OF assms(1)] assms(2,3) by (simp add: drain_frames)
  then show ?thesis by (rule write_chunks_create) (rule assms(4))
qed

end

subsection \<open>Write callbacks\<close>

fun deliver ::
  "(byte list \<Rightarrow> 'a \<Rightarrow> ('a \<times> ik_stream_event list) res) \<Rightarrow> byte list list \<Rightarrow> 'a \<Rightarrow> ('a \<times> ik_stream_event list) res" where
  "deliver cb [] a = Inr (a, [])"
| "deliver cb (c # cs) a =
     res_bind (cb c a) (\<lambda>(a1, evs). res_bind (deliver cb cs a1) (\<lambda>(a2, evs1). Inr (a2, evs @ evs1)))"

locale stream_callback = sse_client J h doc
  for J :: yyjson and h :: "'s handler" and doc +
  fixes cb :: "byte list \<Rightarrow> 'a \<Rightarrow> ('a \<times> ik_stream_event list) res"
    and parser :: "'a \<Rightarrow> ik_sse_parser"
    and ctx :: "'a \<Rightarrow> 's"
    and put :: "ik_sse_parser \<Rightarrow> 's \<Rightarrow> 'a \<Rightarrow> 'a"
    and ok :: "'a \<Rightarrow> bool"
  assumes cb: "ok a \<Longrightarrow> cb data a = res_bind (stream_write h data (parser a) (ctx a)) (\<lambda>(p, s, evs). Inr (put p s a, evs))"
    and put_laws: "ok a \<Longrightarrow> ok (put p s a)" "ok a \<Longrightarrow> parser (put p s a) = p" "ok a \<Longrightarrow> ctx (put p s a) = s"
      "ok a \<Longrightarrow> put (parser a) (ctx a) a = a" "ok a \<Longrightarrow> put q r (put p s a) = put q r a"
begin

lemma deliver_chunks:
  "ok a \<Longrightarrow> write_chunks h chunks (parser a) (ctx a) = Inr (p, s, evs) \<Longrightarrow> deliver cb chunks a = Inr (put p s a, evs)"
proof (induction chunks arbitrary: a evs)
  case Nil
  then show ?case using put_laws(4) [of a] by simp
next
  case (Cons c cs)
  obtain p1 s1 e1 e2 where 1: "stream_write h c (parser a) (ctx a) = Inr (p1, s1, e1)"
    "write_chunks h cs p1 s1 = Inr (p, s, e2)" "evs = e1 @ e2"
    using Cons.prems(2) by (auto simp: res_bind_Inr_iff)
  have "deliver cb cs (put p1 s1 a) = Inr (put p s (put p1 s1 a), e2)"
    using Cons.IH [of "put p1 s1 a"] 1(2) Cons.prems(1) by (simp add: put_laws)
  then show ?case using 1 Cons.prems(1) by (simp add: cb put_laws)
qed

lemma deliver_fails:
  "ok a \<Longrightarrow> write_chunks h chunks (parser a) (ctx a) = Inl e \<Longrightarrow> deliver cb chunks a = Inl e"
proof (induction chunks arbitrary: a)
  case (Cons c cs)
  show ?case
  proof (cases "stream_write h c (parser a) (ctx a)")
    case (Inr x)
    obtain p1 s1 e1 where x: "x = (p1, s1, e1)" by (cases x)
    then have "write_chunks h cs p1 s1 = Inl e"
      using Cons.prems(2) Inr by (cases "write_chunks h cs p1 s1") auto
    then show ?thesis using Cons.IH [of "put p1 s1 a"] Inr x Cons.prems(1) by (simp add: cb put_laws)
  qed (use Cons.prems in \<open>simp add: cb\<close>)
qed simp

lemma stream_delivered:
  assumes "ok a" and "parser a = ik_sse_parser_create"
    and "list_all2 (carries J) xs ds" and "handle_docs doc ds (ctx a) = Inr (s, evs)"
    and "concat chunks = concat (map frame xs)" and "length (concat chunks) < 2 ^ 31"
  shows "\<exists>p. deliver cb chunks a = Inr (put p s a, evs)"
  using delivered [OF assms(3-6)] deliver_chunks [OF assms(1), of chunks] assms(2) by fastforce

end

end
