(* ===== verification/Ik_Anthropic.thy ===== *)
theory Ik_Anthropic
  imports Ik_Wire Ik_Event_Render
begin

text \<open>
  The stream of the Anthropic API: apps/ikigai/providers/anthropic/streaming.c, streaming_events.c, the map of
  finish reasons of response.c, error.c, and the callbacks of anthropic.c.

  The stream context is the record \<open>ik_anthropic_stream_ctx\<close>; an event processor takes the JSON object of the
  event and yields the changed context and the events it emits. The sum of the token counts is the only
  arithmetic; it is done on \<^verbatim>\<open>int32_t\<close>.
\<close>

record ik_anthropic_stream_ctx =
  an_model :: "cstr option"
  an_finish_reason :: ik_finish_reason
  an_usage :: ik_usage
  an_current_block_index :: int
  an_current_block_type :: ik_content_type
  an_current_tool_id :: "cstr option"
  an_current_tool_name :: "cstr option"
  an_current_tool_args :: "cstr option"
  an_current_thinking_text :: "cstr option"
  an_current_thinking_signature :: "cstr option"
  an_current_redacted_data :: "cstr option"

definition ik_anthropic_stream_ctx_create :: ik_anthropic_stream_ctx where
  "ik_anthropic_stream_ctx_create = \<lparr>an_model = None, an_finish_reason = IK_FINISH_UNKNOWN, an_usage = no_usage,
     an_current_block_index = - 1, an_current_block_type = IK_CONTENT_TEXT, an_current_tool_id = None,
     an_current_tool_name = None, an_current_tool_args = None, an_current_thinking_text = None,
     an_current_thinking_signature = None, an_current_redacted_data = None\<rparr>"

definition ik_anthropic_map_finish_reason :: "cstr \<Rightarrow> ik_finish_reason" where
  "ik_anthropic_map_finish_reason stop_reason =
     (if stop_reason = bytes_of ''end_turn'' then IK_FINISH_STOP
      else if stop_reason = bytes_of ''max_tokens'' then IK_FINISH_LENGTH
      else if stop_reason = bytes_of ''tool_use'' then IK_FINISH_TOOL_USE
      else if stop_reason = bytes_of ''stop_sequence'' then IK_FINISH_STOP
      else if stop_reason = bytes_of ''refusal'' then IK_FINISH_CONTENT_FILTER
      else IK_FINISH_UNKNOWN)"

subsection \<open>streaming_events.c\<close>

definition set_input_tokens :: "int \<Rightarrow> ik_anthropic_stream_ctx \<Rightarrow> ik_anthropic_stream_ctx" where
  "set_input_tokens n c = c\<lparr>an_usage := (an_usage c)\<lparr>us_input_tokens := n\<rparr>\<rparr>"

definition ik_anthropic_process_message_start ::
  "json \<Rightarrow> ik_anthropic_stream_ctx \<Rightarrow> ik_anthropic_stream_ctx \<times> ik_stream_event list" where
  "ik_anthropic_process_message_start v c =
     (let c1 = (case obj_member_of v ''message'' of None \<Rightarrow> c
                | Some message_obj \<Rightarrow>
                   (let c0 = set_if (\<lambda>m c. c\<lparr>an_model := Some m\<rparr>) (str_member_of message_obj ''model'') c
                    in case obj_member_of message_obj ''usage'' of None \<Rightarrow> c0
                       | Some usage_obj \<Rightarrow> set_if set_input_tokens (int32_member_of usage_obj ''input_tokens'') c0))
      in (c1, [IK_STREAM_START (an_model c1)]))"

definition start_tool_block ::
  "json \<Rightarrow> ik_anthropic_stream_ctx \<Rightarrow> ik_anthropic_stream_ctx \<times> ik_stream_event list" where
  "start_tool_block block_obj c =
     (let c1 = c\<lparr>an_current_block_type := IK_CONTENT_TOOL_CALL, an_current_tool_args := None\<rparr>;
          c2 = set_if (\<lambda>i c. c\<lparr>an_current_tool_id := Some i\<rparr>) (str_member_of block_obj ''id'') c1;
          c3 = set_if (\<lambda>n c. c\<lparr>an_current_tool_name := Some n\<rparr>) (str_member_of block_obj ''name'') c2
      in (c3, [IK_STREAM_TOOL_CALL_START (an_current_block_index c3) (an_current_tool_id c3) (an_current_tool_name c3)]))"

definition ik_anthropic_process_content_block_start ::
  "json \<Rightarrow> ik_anthropic_stream_ctx \<Rightarrow> ik_anthropic_stream_ctx \<times> ik_stream_event list" where
  "ik_anthropic_process_content_block_start v c =
     (let c1 = set_if (\<lambda>i c. c\<lparr>an_current_block_index := i\<rparr>) (int32_member_of v ''index'') c
      in case obj_member_of v ''content_block'' of None \<Rightarrow> (c1, [])
         | Some block_obj \<Rightarrow>
            (case str_member_of block_obj ''type'' of None \<Rightarrow> (c1, [])
             | Some type_str \<Rightarrow>
                if type_str = bytes_of ''text'' then (c1\<lparr>an_current_block_type := IK_CONTENT_TEXT\<rparr>, [])
                else if type_str = bytes_of ''thinking'' then (c1\<lparr>an_current_block_type := IK_CONTENT_THINKING\<rparr>, [])
                else if type_str = bytes_of ''redacted_thinking'' then
                  (set_if (\<lambda>d c. c\<lparr>an_current_redacted_data := Some d\<rparr>) (str_member_of block_obj ''data'')
                     (c1\<lparr>an_current_block_type := IK_CONTENT_REDACTED_THINKING\<rparr>), [])
                else if type_str = bytes_of ''tool_use'' then start_tool_block block_obj c1
                else (c1, [])))"

definition process_text_delta ::
  "json \<Rightarrow> int \<Rightarrow> ik_anthropic_stream_ctx \<Rightarrow> ik_anthropic_stream_ctx \<times> ik_stream_event list" where
  "process_text_delta delta_obj index c =
     (case str_member_of delta_obj ''text'' of None \<Rightarrow> (c, [])
      | Some t \<Rightarrow> (c, [IK_STREAM_TEXT_DELTA index (Some t)]))"

definition process_thinking_delta ::
  "json \<Rightarrow> int \<Rightarrow> ik_anthropic_stream_ctx \<Rightarrow> ik_anthropic_stream_ctx \<times> ik_stream_event list" where
  "process_thinking_delta delta_obj index c =
     (case str_member_of delta_obj ''thinking'' of None \<Rightarrow> (c, [])
      | Some thinking \<Rightarrow> (c\<lparr>an_current_thinking_text := append_to (an_current_thinking_text c) thinking\<rparr>,
          [IK_STREAM_THINKING_DELTA index (Some thinking)]))"

definition process_signature_delta :: "json \<Rightarrow> ik_anthropic_stream_ctx \<Rightarrow> ik_anthropic_stream_ctx" where
  "process_signature_delta delta_obj c =
     set_if (\<lambda>s c. c\<lparr>an_current_thinking_signature := Some s\<rparr>) (str_member_of delta_obj ''signature'') c"

definition process_input_json_delta ::
  "json \<Rightarrow> int \<Rightarrow> ik_anthropic_stream_ctx \<Rightarrow> ik_anthropic_stream_ctx \<times> ik_stream_event list" where
  "process_input_json_delta delta_obj index c =
     (case str_member_of delta_obj ''partial_json'' of None \<Rightarrow> (c, [])
      | Some partial_json \<Rightarrow> (c\<lparr>an_current_tool_args := append_to (an_current_tool_args c) partial_json\<rparr>,
          [IK_STREAM_TOOL_CALL_DELTA index (Some partial_json)]))"

definition ik_anthropic_process_content_block_delta ::
  "json \<Rightarrow> ik_anthropic_stream_ctx \<Rightarrow> ik_anthropic_stream_ctx \<times> ik_stream_event list" where
  "ik_anthropic_process_content_block_delta v c =
     (let index = default 0 (int32_member_of v ''index'')
      in case obj_member_of v ''delta'' of None \<Rightarrow> (c, [])
         | Some delta_obj \<Rightarrow>
            (case str_member_of delta_obj ''type'' of None \<Rightarrow> (c, [])
             | Some type_str \<Rightarrow>
                if type_str = bytes_of ''text_delta'' then process_text_delta delta_obj index c
                else if type_str = bytes_of ''thinking_delta'' then process_thinking_delta delta_obj index c
                else if type_str = bytes_of ''signature_delta'' then (process_signature_delta delta_obj c, [])
                else if type_str = bytes_of ''input_json_delta'' then process_input_json_delta delta_obj index c
                else (c, [])))"

definition ik_anthropic_process_content_block_stop ::
  "json \<Rightarrow> ik_anthropic_stream_ctx \<Rightarrow> ik_anthropic_stream_ctx \<times> ik_stream_event list" where
  "ik_anthropic_process_content_block_stop v c =
     (let index = default 0 (int32_member_of v ''index'')
      in (c\<lparr>an_current_block_index := - 1\<rparr>,
          if an_current_block_type c = IK_CONTENT_TOOL_CALL then [IK_STREAM_TOOL_CALL_DONE index] else []))"

definition ik_anthropic_process_message_delta :: "json \<Rightarrow> ik_anthropic_stream_ctx \<Rightarrow> ik_anthropic_stream_ctx res" where
  "ik_anthropic_process_message_delta v c =
     (let c1 = (case obj_member_of v ''delta'' of None \<Rightarrow> c
                | Some delta_obj \<Rightarrow> set_if (\<lambda>r c. c\<lparr>an_finish_reason := ik_anthropic_map_finish_reason r\<rparr>)
                    (str_member_of delta_obj ''stop_reason'') c)
      in case obj_member_of v ''usage'' of None \<Rightarrow> Inr c1
         | Some usage_obj \<Rightarrow>
            (let u = set_if (\<lambda>n u. u\<lparr>us_thinking_tokens := n\<rparr>) (int32_member_of usage_obj ''thinking_tokens'')
                       (set_if (\<lambda>n u. u\<lparr>us_output_tokens := n\<rparr>) (int32_member_of usage_obj ''output_tokens'') (an_usage c1))
             in res_bind (add32 (us_input_tokens u) (us_output_tokens u)) (\<lambda>n.
                res_bind (add32 n (us_thinking_tokens u)) (\<lambda>t.
                  Inr (c1\<lparr>an_usage := u\<lparr>us_total_tokens := t\<rparr>\<rparr>)))))"

definition ik_anthropic_process_message_stop :: "ik_anthropic_stream_ctx \<Rightarrow> ik_stream_event list" where
  "ik_anthropic_process_message_stop c = [IK_STREAM_DONE (an_finish_reason c) (an_usage c)]"

definition anthropic_error_category :: "cstr option \<Rightarrow> ik_error_category" where
  "anthropic_error_category type_str =
     (case type_str of None \<Rightarrow> IK_ERR_CAT_UNKNOWN
      | Some t \<Rightarrow> if t = bytes_of ''authentication_error'' then IK_ERR_CAT_AUTH
                  else if t = bytes_of ''rate_limit_error'' then IK_ERR_CAT_RATE_LIMIT
                  else if t = bytes_of ''overloaded_error'' then IK_ERR_CAT_SERVER
                  else if t = bytes_of ''invalid_request_error'' then IK_ERR_CAT_INVALID_ARG
                  else IK_ERR_CAT_UNKNOWN)"

definition ik_anthropic_process_error :: "json \<Rightarrow> ik_stream_event list" where
  "ik_anthropic_process_error v =
     (case obj_member_of v ''error'' of
        None \<Rightarrow> [IK_STREAM_ERROR IK_ERR_CAT_UNKNOWN (Some (bytes_of ''Unknown error''))]
      | Some error_obj \<Rightarrow>
          [IK_STREAM_ERROR (anthropic_error_category (str_member_of error_obj ''type''))
             (Some (default (bytes_of ''Unknown error'') (str_member_of error_obj ''message'')))])"

subsection \<open>streaming.c\<close>

definition ik_anthropic_stream_process_event ::
  "yyjson \<Rightarrow> cstr \<Rightarrow> cstr \<Rightarrow> ik_anthropic_stream_ctx \<Rightarrow> (ik_anthropic_stream_ctx \<times> ik_stream_event list) res" where
  "ik_anthropic_stream_process_event J event data c =
     (if event = bytes_of ''ping'' then Inr (c, [])
      else (case J data of
         None \<Rightarrow> Inr (c, [IK_STREAM_ERROR IK_ERR_CAT_UNKNOWN (Some (bytes_of ''Invalid JSON in SSE event''))])
       | Some v \<Rightarrow>
          if \<not> is_obj v then
            Inr (c, [IK_STREAM_ERROR IK_ERR_CAT_UNKNOWN (Some (bytes_of ''SSE event data is not a JSON object''))])
          else if event = bytes_of ''message_start'' then Inr (ik_anthropic_process_message_start v c)
          else if event = bytes_of ''content_block_start'' then Inr (ik_anthropic_process_content_block_start v c)
          else if event = bytes_of ''content_block_delta'' then Inr (ik_anthropic_process_content_block_delta v c)
          else if event = bytes_of ''content_block_stop'' then Inr (ik_anthropic_process_content_block_stop v c)
          else if event = bytes_of ''message_delta'' then
            res_bind (ik_anthropic_process_message_delta v c) (\<lambda>c1. Inr (c1, []))
          else if event = bytes_of ''message_stop'' then Inr (c, ik_anthropic_process_message_stop c)
          else if event = bytes_of ''error'' then Inr (c, ik_anthropic_process_error v)
          else Inr (c, [])))"

definition ik_anthropic_stream_build_response :: "ik_anthropic_stream_ctx \<Rightarrow> ik_response" where
  "ik_anthropic_stream_build_response c =
     \<lparr>rs_content_blocks =
        (case an_current_thinking_text c of None \<Rightarrow> []
         | Some t \<Rightarrow> [CONTENT_THINKING (Some t) (an_current_thinking_signature c)])
        @ (case an_current_redacted_data c of None \<Rightarrow> [] | Some d \<Rightarrow> [CONTENT_REDACTED_THINKING (Some d)])
        @ (case (an_current_tool_id c, an_current_tool_name c) of
             (Some i, Some n) \<Rightarrow>
               [CONTENT_TOOL_CALL (Some i) (Some n) (Some (default (bytes_of ''{}'') (an_current_tool_args c))) None]
           | _ \<Rightarrow> []),
      rs_finish_reason = an_finish_reason c, rs_usage = an_usage c, rs_model = an_model c, rs_provider_data = None\<rparr>"

subsection \<open>anthropic.c\<close>

definition anthropic_handler :: "yyjson \<Rightarrow> ik_anthropic_stream_ctx handler" where
  "anthropic_handler J e = ik_anthropic_stream_process_event J (default [] (ev_event e)) (default [] (ev_data e))"

record ik_anthropic_active_stream =
  as_stream_ctx :: ik_anthropic_stream_ctx
  as_sse_parser :: ik_sse_parser
  as_completed :: bool
  as_http_status :: int

definition anthropic_active_stream :: ik_anthropic_active_stream where
  "anthropic_active_stream = \<lparr>as_stream_ctx = ik_anthropic_stream_ctx_create, as_sse_parser = ik_sse_parser_create,
     as_completed = False, as_http_status = 0\<rparr>"

definition ik_anthropic_stream_write_cb ::
  "yyjson \<Rightarrow> byte list \<Rightarrow> ik_anthropic_active_stream \<Rightarrow> (ik_anthropic_active_stream \<times> ik_stream_event list) res" where
  "ik_anthropic_stream_write_cb J data st =
     res_bind (stream_write (anthropic_handler J) data (as_sse_parser st) (as_stream_ctx st))
       (\<lambda>(p, c, evs). Inr (st\<lparr>as_sse_parser := p, as_stream_ctx := c\<rparr>, evs))"

definition ik_anthropic_stream_completion_cb :: "int \<Rightarrow> ik_anthropic_active_stream \<Rightarrow> ik_anthropic_active_stream" where
  "ik_anthropic_stream_completion_cb http_code st = st\<lparr>as_completed := True, as_http_status := http_code\<rparr>"

text \<open>When the transfer has ended the completion callback is called once, and the stream is freed.\<close>

definition anthropic_info_read ::
  "ik_anthropic_active_stream option \<Rightarrow> ik_anthropic_active_stream option \<times> ik_provider_completion option" where
  "anthropic_info_read active =
     (case active of None \<Rightarrow> (None, None)
      | Some st \<Rightarrow>
         if as_completed st
         then (None, Some (stream_completion (as_http_status st)
                (Some (ik_anthropic_stream_build_response (as_stream_ctx st)))
                (bytes_of ''HTTP '' @ dec_int (as_http_status st))))
         else (Some st, None))"

definition anthropic_cancel :: "ik_anthropic_active_stream option \<Rightarrow> ik_anthropic_active_stream option" where
  "anthropic_cancel = map_option (\<lambda>st. st\<lparr>as_completed := True\<rparr>)"

subsection \<open>error.c\<close>

definition anthropic_status_to_category :: "int \<Rightarrow> ik_error_category" where
  "anthropic_status_to_category status =
     (if status = 401 \<or> status = 403 then IK_ERR_CAT_AUTH
      else if status = 429 then IK_ERR_CAT_RATE_LIMIT
      else if status = 400 then IK_ERR_CAT_INVALID_ARG
      else if status = 404 then IK_ERR_CAT_NOT_FOUND
      else if status = 500 \<or> status = 529 then IK_ERR_CAT_SERVER
      else IK_ERR_CAT_UNKNOWN)"

definition ik_anthropic_handle_error :: "yyjson \<Rightarrow> int \<Rightarrow> cstr \<Rightarrow> ik_error_category \<times> err_code option" where
  "ik_anthropic_handle_error J status body =
     (anthropic_status_to_category status, if J body = None then Some PARSE else None)"

subsection \<open>The contract of the stream\<close>

definition anthropic_doc ::
  "byte list option \<Rightarrow> json \<Rightarrow> ik_anthropic_stream_ctx \<Rightarrow> (ik_anthropic_stream_ctx \<times> ik_stream_event list) res" where
  "anthropic_doc n v c = ik_anthropic_stream_process_event (\<lambda>_. Some v) (default [] n) [] c"

interpretation an: stream_callback J "anthropic_handler J" anthropic_doc "ik_anthropic_stream_write_cb J"
  as_sse_parser as_stream_ctx "\<lambda>p c st. st\<lparr>as_sse_parser := p, as_stream_ctx := c\<rparr>" "\<lambda>_. True" for J
  by unfold_locales
     (simp_all add: anthropic_handler_def anthropic_doc_def ik_anthropic_stream_process_event_def ik_anthropic_stream_write_cb_def)

end
