(* ===== verification/Ik_Google.thy ===== *)
theory Ik_Google
  imports Ik_Wire Ik_Event_Render Ik_Message
begin

text \<open>
  The stream of the Google API: apps/ikigai/providers/google/streaming.c, streaming_helpers.c,
  response_utils.c and the callbacks of google.c.

  The identifier of a tool call is random: \<open>R k i\<close> is what \<^verbatim>\<open>rand\<close> returns for the character \<open>i\<close> of the
  identifier that is generated as number \<open>k\<close>. The writer of JSON, which turns the arguments of a call into
  text, is the argument \<open>W\<close>.
\<close>

record ik_google_stream_ctx =
  gg_model :: "cstr option"
  gg_finish_reason :: ik_finish_reason
  gg_usage :: ik_usage
  gg_started :: bool
  gg_in_thinking :: bool
  gg_in_tool_call :: bool
  gg_current_tool_id :: "cstr option"
  gg_current_tool_name :: "cstr option"
  gg_current_tool_args :: "cstr option"
  gg_current_tool_thought_sig :: "cstr option"
  gg_part_index :: int
  gg_generated :: nat

definition ik_google_stream_ctx_create :: ik_google_stream_ctx where
  "ik_google_stream_ctx_create = \<lparr>gg_model = None, gg_finish_reason = IK_FINISH_UNKNOWN, gg_usage = no_usage,
     gg_started = False, gg_in_thinking = False, gg_in_tool_call = False, gg_current_tool_id = None,
     gg_current_tool_name = None, gg_current_tool_args = None, gg_current_tool_thought_sig = None,
     gg_part_index = 0, gg_generated = 0\<rparr>"

subsection \<open>response_utils.c\<close>

definition ALPHABET :: "byte list" where
  "ALPHABET = bytes_of ''ABCDEFGHIJKLMNOPQRSTUVWXYZabcdefghijklmnopqrstuvwxyz0123456789-_''"

definition ik_google_generate_tool_id :: "(nat \<Rightarrow> nat) \<Rightarrow> cstr" where
  "ik_google_generate_tool_id rand = map (\<lambda>i. ALPHABET ! (rand i mod 64)) [0..<22]"

definition ik_google_map_finish_reason :: "cstr option \<Rightarrow> ik_finish_reason" where
  "ik_google_map_finish_reason finish_reason =
     (case finish_reason of None \<Rightarrow> IK_FINISH_UNKNOWN
      | Some r \<Rightarrow>
         if r = bytes_of ''STOP'' then IK_FINISH_STOP
         else if r = bytes_of ''MAX_TOKENS'' then IK_FINISH_LENGTH
         else if r \<in> {bytes_of ''SAFETY'', bytes_of ''BLOCKLIST'', bytes_of ''PROHIBITED_CONTENT'',
                      bytes_of ''IMAGE_SAFETY'', bytes_of ''IMAGE_PROHIBITED_CONTENT'', bytes_of ''RECITATION''}
         then IK_FINISH_CONTENT_FILTER
         else if r = bytes_of ''MALFORMED_FUNCTION_CALL'' \<or> r = bytes_of ''UNEXPECTED_TOOL_CALL'' then IK_FINISH_ERROR
         else IK_FINISH_UNKNOWN)"

definition ik_google_extract_thought_signature_from_response :: "yyjson_writer \<Rightarrow> json \<Rightarrow> cstr option" where
  "ik_google_extract_thought_signature_from_response W v =
     (let sig = (case obj_get v ''thoughtSignature'' of
                   None \<Rightarrow> (case arr_member_of v ''candidates'' of
                             Some (first # rest) \<Rightarrow> obj_get first ''thoughtSignature'' | _ \<Rightarrow> None)
                 | Some s \<Rightarrow> Some s)
      in case str_of sig of None \<Rightarrow> None
         | Some t \<Rightarrow> if t = [] then None else W (JObj [(bytes_of ''thought_signature'', JStr t)]))"

subsection \<open>streaming_helpers.c\<close>

definition ik_google_stream_end_tool_call_if_needed ::
  "ik_google_stream_ctx \<Rightarrow> ik_google_stream_ctx \<times> ik_stream_event list" where
  "ik_google_stream_end_tool_call_if_needed c =
     (if gg_in_tool_call c then (c\<lparr>gg_in_tool_call := False\<rparr>, [IK_STREAM_TOOL_CALL_DONE (gg_part_index c)]) else (c, []))"

definition map_error_status :: "cstr option \<Rightarrow> ik_error_category" where
  "map_error_status status =
     (case status of None \<Rightarrow> IK_ERR_CAT_UNKNOWN
      | Some s \<Rightarrow> if s = bytes_of ''UNAUTHENTICATED'' then IK_ERR_CAT_AUTH
                  else if s = bytes_of ''RESOURCE_EXHAUSTED'' then IK_ERR_CAT_RATE_LIMIT
                  else if s = bytes_of ''INVALID_ARGUMENT'' then IK_ERR_CAT_INVALID_ARG
                  else IK_ERR_CAT_UNKNOWN)"

definition ik_google_stream_process_error :: "json \<Rightarrow> ik_stream_event list" where
  "ik_google_stream_process_error error_obj =
     [IK_STREAM_ERROR (map_error_status (str_member_of error_obj ''status''))
        (Some (default (bytes_of ''Unknown error'') (str_member_of error_obj ''message'')))]"

definition google_start_tool ::
  "(nat \<Rightarrow> nat \<Rightarrow> nat) \<Rightarrow> json \<Rightarrow> ik_google_stream_ctx \<Rightarrow> ik_google_stream_ctx \<times> ik_stream_event list" where
  "google_start_tool R function_call c =
     (if gg_in_tool_call c then (c, [])
      else (let c1 = c\<lparr>gg_current_tool_id := Some (ik_google_generate_tool_id (R (gg_generated c))),
                      gg_generated := gg_generated c + 1\<rparr>;
                c2 = set_if (\<lambda>n c. c\<lparr>gg_current_tool_name := Some n\<rparr>) (str_member_of function_call ''name'') c1;
                c3 = c2\<lparr>gg_current_tool_args := Some [], gg_in_tool_call := True\<rparr>
            in (c3, [IK_STREAM_TOOL_CALL_START (gg_part_index c3) (gg_current_tool_id c3) (gg_current_tool_name c3)])))"

definition process_function_call ::
  "(nat \<Rightarrow> nat \<Rightarrow> nat) \<Rightarrow> yyjson_writer \<Rightarrow> json \<Rightarrow> ik_google_stream_ctx \<Rightarrow> ik_google_stream_ctx \<times> ik_stream_event list" where
  "process_function_call R W function_call c =
     (case google_start_tool R function_call c of (c1, evs) \<Rightarrow>
        (case obj_get function_call ''args'' of None \<Rightarrow> (c1, evs)
         | Some args_val \<Rightarrow>
            (case W args_val of None \<Rightarrow> (c1, evs)
             | Some args_json \<Rightarrow> (c1\<lparr>gg_current_tool_args := append_to (gg_current_tool_args c1) args_json\<rparr>,
                 evs @ [IK_STREAM_TOOL_CALL_DELTA (gg_part_index c1) (Some args_json)]))))"

definition process_thinking_part :: "cstr \<Rightarrow> ik_google_stream_ctx \<Rightarrow> ik_google_stream_ctx \<times> ik_stream_event list" where
  "process_thinking_part t c =
     (case ik_google_stream_end_tool_call_if_needed c of (c1, evs) \<Rightarrow>
        (c1\<lparr>gg_in_thinking := True\<rparr>, evs @ [IK_STREAM_THINKING_DELTA (gg_part_index c1) (Some t)]))"

definition process_text_part :: "cstr \<Rightarrow> ik_google_stream_ctx \<Rightarrow> ik_google_stream_ctx \<times> ik_stream_event list" where
  "process_text_part t c =
     (case ik_google_stream_end_tool_call_if_needed c of (c1, evs) \<Rightarrow>
        (let c2 = (if gg_in_thinking c1 then c1\<lparr>gg_part_index := gg_part_index c1 + 1, gg_in_thinking := False\<rparr> else c1)
         in (c2, evs @ [IK_STREAM_TEXT_DELTA (gg_part_index c2) (Some t)])))"

definition process_part ::
  "(nat \<Rightarrow> nat \<Rightarrow> nat) \<Rightarrow> yyjson_writer \<Rightarrow> json \<Rightarrow> ik_google_stream_ctx \<Rightarrow> ik_google_stream_ctx \<times> ik_stream_event list" where
  "process_part R W part c =
     (case obj_get part ''functionCall'' of
        Some function_call \<Rightarrow>
          process_function_call R W function_call
            (set_if (\<lambda>s c. c\<lparr>gg_current_tool_thought_sig := Some s\<rparr>) (str_member_of part ''thoughtSignature'') c)
      | None \<Rightarrow>
         (case str_member_of part ''text'' of None \<Rightarrow> (c, [])
          | Some t \<Rightarrow>
             if t = [] then (c, [])
             else if obj_get part ''thought'' = Some (JBool True) then process_thinking_part t c
             else process_text_part t c))"

fun ik_google_stream_process_parts ::
  "(nat \<Rightarrow> nat \<Rightarrow> nat) \<Rightarrow> yyjson_writer \<Rightarrow> json list \<Rightarrow> ik_google_stream_ctx \<Rightarrow> ik_google_stream_ctx \<times> ik_stream_event list" where
  "ik_google_stream_process_parts R W [] c = (c, [])"
| "ik_google_stream_process_parts R W (part # parts) c =
     (case process_part R W part c of (c1, evs) \<Rightarrow>
       (case ik_google_stream_process_parts R W parts c1 of (c2, evs1) \<Rightarrow> (c2, evs @ evs1)))"

definition ik_google_stream_process_usage ::
  "json \<Rightarrow> ik_google_stream_ctx \<Rightarrow> (ik_google_stream_ctx \<times> ik_stream_event list) res" where
  "ik_google_stream_process_usage usage_obj c =
     (let prompt = default 0 (int32_member_of usage_obj ''promptTokenCount'');
          candidates = default 0 (int32_member_of usage_obj ''candidatesTokenCount'');
          thoughts = default 0 (int32_member_of usage_obj ''thoughtsTokenCount'')
      in res_bind (sub32 candidates thoughts) (\<lambda>out.
           let c1 = c\<lparr>gg_usage := \<lparr>us_input_tokens = prompt, us_output_tokens = out, us_thinking_tokens = thoughts,
                 us_cached_tokens = 0, us_total_tokens = default 0 (int32_member_of usage_obj ''totalTokenCount'')\<rparr>\<rparr>
           in case ik_google_stream_end_tool_call_if_needed c1 of (c2, evs) \<Rightarrow>
                Inr (c2, evs @ [IK_STREAM_DONE (gg_finish_reason c2) (gg_usage c2)])))"

subsection \<open>streaming.c\<close>

definition google_start :: "json \<Rightarrow> ik_google_stream_ctx \<Rightarrow> ik_google_stream_ctx \<times> ik_stream_event list" where
  "google_start v c =
     (if gg_started c then (c, [])
      else (let c1 = set_if (\<lambda>m c. c\<lparr>gg_model := Some m\<rparr>) (str_member_of v ''modelVersion'') c
            in (c1\<lparr>gg_started := True\<rparr>, [IK_STREAM_START (gg_model c1)])))"

definition google_candidate ::
  "(nat \<Rightarrow> nat \<Rightarrow> nat) \<Rightarrow> yyjson_writer \<Rightarrow> json \<Rightarrow> ik_google_stream_ctx \<Rightarrow> ik_google_stream_ctx \<times> ik_stream_event list" where
  "google_candidate R W candidate c =
     (let c1 = (case obj_get candidate ''finishReason'' of None \<Rightarrow> c
                | Some finish_val \<Rightarrow> c\<lparr>gg_finish_reason := ik_google_map_finish_reason (str_of (Some finish_val))\<rparr>)
      in case obj_get candidate ''content'' of None \<Rightarrow> (c1, [])
         | Some content \<Rightarrow>
            (case arr_member_of content ''parts'' of None \<Rightarrow> (c1, [])
             | Some parts \<Rightarrow> ik_google_stream_process_parts R W parts c1))"

definition ik_google_stream_process_data ::
  "(nat \<Rightarrow> nat \<Rightarrow> nat) \<Rightarrow> yyjson \<Rightarrow> yyjson_writer \<Rightarrow> cstr \<Rightarrow> ik_google_stream_ctx
     \<Rightarrow> (ik_google_stream_ctx \<times> ik_stream_event list) res" where
  "ik_google_stream_process_data R J W data c =
     (if data = [] then Inr (c, [])
      else (case J data of None \<Rightarrow> Inr (c, [])
       | Some v \<Rightarrow>
          if \<not> is_obj v then Inr (c, [])
          else (case obj_get v ''error'' of Some error_obj \<Rightarrow> Inr (c, ik_google_stream_process_error error_obj)
           | None \<Rightarrow>
              (case google_start v c of (c1, evs) \<Rightarrow>
              (case (case arr_member_of v ''candidates'' of
                       Some (candidate # rest) \<Rightarrow> google_candidate R W candidate c1 | _ \<Rightarrow> (c1, [])) of (c2, evs1) \<Rightarrow>
                 (case obj_get v ''usageMetadata'' of None \<Rightarrow> Inr (c2, evs @ evs1)
                  | Some usage_obj \<Rightarrow>
                     res_bind (ik_google_stream_process_usage usage_obj c2)
                       (\<lambda>(c3, evs2). Inr (c3, evs @ evs1 @ evs2))))))))"

definition ik_google_stream_build_response :: "ik_google_stream_ctx \<Rightarrow> ik_response" where
  "ik_google_stream_build_response c =
     (let resp = \<lparr>rs_content_blocks = [], rs_finish_reason = gg_finish_reason c, rs_usage = gg_usage c,
                  rs_model = gg_model c, rs_provider_data = None\<rparr>
      in case (gg_current_tool_id c, gg_current_tool_name c) of
           (Some i, Some n) \<Rightarrow>
             resp\<lparr>rs_finish_reason := IK_FINISH_TOOL_USE,
                  rs_content_blocks := [CONTENT_TOOL_CALL (Some i) (Some n)
                    (Some (default (bytes_of ''{}'') (gg_current_tool_args c))) (gg_current_tool_thought_sig c)]\<rparr>
         | _ \<Rightarrow> resp)"

subsection \<open>google.c\<close>

definition google_handler :: "(nat \<Rightarrow> nat \<Rightarrow> nat) \<Rightarrow> yyjson \<Rightarrow> yyjson_writer \<Rightarrow> ik_google_stream_ctx handler" where
  "google_handler R J W e = ik_google_stream_process_data R J W (default [] (ev_data e))"

record ik_google_active_stream =
  gs_stream_ctx :: ik_google_stream_ctx
  gs_sse_parser :: ik_sse_parser
  gs_completed :: bool
  gs_http_status :: int

definition ik_google_stream_write_cb ::
  "(nat \<Rightarrow> nat \<Rightarrow> nat) \<Rightarrow> yyjson \<Rightarrow> yyjson_writer \<Rightarrow> byte list \<Rightarrow> ik_google_active_stream
     \<Rightarrow> (ik_google_active_stream \<times> ik_stream_event list) res" where
  "ik_google_stream_write_cb R J W data st =
     res_bind (stream_write (google_handler R J W) data (gs_sse_parser st) (gs_stream_ctx st))
       (\<lambda>(p, c, evs). Inr (st\<lparr>gs_sse_parser := p, gs_stream_ctx := c\<rparr>, evs))"

definition ik_google_stream_completion_cb :: "int \<Rightarrow> ik_google_active_stream \<Rightarrow> ik_google_active_stream" where
  "ik_google_stream_completion_cb http_code st = st\<lparr>gs_completed := True, gs_http_status := http_code\<rparr>"

definition google_info_read ::
  "ik_google_active_stream option \<Rightarrow> ik_google_active_stream option \<times> ik_provider_completion option" where
  "google_info_read active =
     (case active of None \<Rightarrow> (None, None)
      | Some st \<Rightarrow>
         if gs_completed st
         then (None, Some (stream_completion (gs_http_status st)
                (Some (ik_google_stream_build_response (gs_stream_ctx st)))
                (bytes_of ''HTTP '' @ dec_int (gs_http_status st))))
         else (Some st, None))"

definition google_active_stream :: ik_google_active_stream where
  "google_active_stream = \<lparr>gs_stream_ctx = ik_google_stream_ctx_create, gs_sse_parser = ik_sse_parser_create,
     gs_completed = False, gs_http_status = 0\<rparr>"

subsection \<open>The contract of the stream\<close>

definition google_doc ::
  "(nat \<Rightarrow> nat \<Rightarrow> nat) \<Rightarrow> yyjson_writer \<Rightarrow> byte list option \<Rightarrow> json \<Rightarrow> ik_google_stream_ctx
     \<Rightarrow> (ik_google_stream_ctx \<times> ik_stream_event list) res" where
  "google_doc R W n v c = ik_google_stream_process_data R (\<lambda>_. Some v) W [0x20] c"

interpretation gg: stream_callback J "google_handler R J W" "google_doc R W" "ik_google_stream_write_cb R J W"
  gs_sse_parser gs_stream_ctx "\<lambda>p c st. st\<lparr>gs_sse_parser := p, gs_stream_ctx := c\<rparr>" "\<lambda>_. True" for R J W
  by unfold_locales
     (simp_all add: google_handler_def google_doc_def ik_google_stream_process_data_def ik_google_stream_write_cb_def)

end
