(* ===== verification/Ik_OpenAI.thy ===== *)
theory Ik_OpenAI
  imports Ik_Wire Ik_Event_Render
begin

text \<open>
  The streams of the two OpenAI APIs: for Chat Completions apps/ikigai/providers/openai/streaming_chat.c and
  streaming_chat_delta.c, for Responses streaming_responses.c, streaming_responses_events.c and
  streaming_responses_handlers.c, and the callbacks of openai_handlers.c.

  The Responses API has a parser of server-sent events. The chat API reads lines from a buffer of its own,
  which holds the bytes since the last newline and a zero byte behind them; its size is passed to the
  reallocation as a 32 bit number.
\<close>

subsection \<open>streaming_chat.c, streaming_chat_delta.c\<close>

record ik_openai_chat_stream_ctx =
  oc_model :: "cstr option"
  oc_finish_reason :: ik_finish_reason
  oc_usage :: ik_usage
  oc_started :: bool
  oc_in_tool_call :: bool
  oc_tool_call_index :: int
  oc_current_tool_id :: "cstr option"
  oc_current_tool_name :: "cstr option"
  oc_current_tool_args :: "cstr option"

definition ik_openai_chat_stream_ctx_create :: ik_openai_chat_stream_ctx where
  "ik_openai_chat_stream_ctx_create = \<lparr>oc_model = None, oc_finish_reason = IK_FINISH_UNKNOWN, oc_usage = no_usage,
     oc_started = False, oc_in_tool_call = False, oc_tool_call_index = - 1, oc_current_tool_id = None,
     oc_current_tool_name = None, oc_current_tool_args = None\<rparr>"

definition ik_openai_map_chat_finish_reason :: "cstr \<Rightarrow> ik_finish_reason" where
  "ik_openai_map_chat_finish_reason finish_reason =
     (if finish_reason = bytes_of ''stop'' then IK_FINISH_STOP
      else if finish_reason = bytes_of ''length'' then IK_FINISH_LENGTH
      else if finish_reason = bytes_of ''tool_calls'' then IK_FINISH_TOOL_USE
      else if finish_reason = bytes_of ''content_filter'' then IK_FINISH_CONTENT_FILTER
      else if finish_reason = bytes_of ''error'' then IK_FINISH_ERROR
      else IK_FINISH_UNKNOWN)"

definition ik_openai_chat_maybe_emit_start ::
  "ik_openai_chat_stream_ctx \<Rightarrow> ik_openai_chat_stream_ctx \<times> ik_stream_event list" where
  "ik_openai_chat_maybe_emit_start c =
     (if oc_started c then (c, []) else (c\<lparr>oc_started := True\<rparr>, [IK_STREAM_START (oc_model c)]))"

definition ik_openai_chat_maybe_end_tool_call ::
  "ik_openai_chat_stream_ctx \<Rightarrow> ik_openai_chat_stream_ctx \<times> ik_stream_event list" where
  "ik_openai_chat_maybe_end_tool_call c =
     (if oc_in_tool_call c then (c\<lparr>oc_in_tool_call := False\<rparr>, [IK_STREAM_TOOL_CALL_DONE (oc_tool_call_index c)]) else (c, []))"

definition process_content_delta ::
  "json \<Rightarrow> ik_openai_chat_stream_ctx \<Rightarrow> ik_openai_chat_stream_ctx \<times> ik_stream_event list" where
  "process_content_delta delta c =
     (case str_member_of delta ''content'' of None \<Rightarrow> (c, [])
      | Some content \<Rightarrow>
         (case ik_openai_chat_maybe_end_tool_call c of (c1, evs) \<Rightarrow>
         (case ik_openai_chat_maybe_emit_start c1 of (c2, evs1) \<Rightarrow>
            (c2, evs @ evs1 @ [IK_STREAM_TEXT_DELTA 0 (Some content)]))))"

definition ik_openai_chat_process_delta ::
  "json \<Rightarrow> cstr option \<Rightarrow> ik_openai_chat_stream_ctx \<Rightarrow> ik_openai_chat_stream_ctx \<times> ik_stream_event list" where
  "ik_openai_chat_process_delta delta finish_reason_str c =
     (case process_content_delta delta c of (c1, evs) \<Rightarrow>
        (set_if (\<lambda>r c. c\<lparr>oc_finish_reason := ik_openai_map_chat_finish_reason r\<rparr>) finish_reason_str c1, evs))"

definition process_done_marker :: "ik_openai_chat_stream_ctx \<Rightarrow> ik_openai_chat_stream_ctx \<times> ik_stream_event list" where
  "process_done_marker c =
     (case ik_openai_chat_maybe_end_tool_call c of (c1, evs) \<Rightarrow>
        (c1, evs @ [IK_STREAM_DONE (oc_finish_reason c1) (oc_usage c1)]))"

definition contains :: "string \<Rightarrow> cstr \<Rightarrow> bool" where
  "contains pat t \<longleftrightarrow> find_sub (bytes_of pat) t \<noteq> None"

definition map_error_type :: "cstr option \<Rightarrow> ik_error_category" where
  "map_error_type type_str =
     (case type_str of None \<Rightarrow> IK_ERR_CAT_UNKNOWN
      | Some t \<Rightarrow> if contains ''authentication'' t \<or> contains ''permission'' t then IK_ERR_CAT_AUTH
                  else if contains ''rate_limit'' t then IK_ERR_CAT_RATE_LIMIT
                  else if contains ''invalid_request'' t then IK_ERR_CAT_INVALID_ARG
                  else if contains ''server'' t \<or> contains ''service'' t then IK_ERR_CAT_SERVER
                  else IK_ERR_CAT_UNKNOWN)"

definition process_error_object :: "json \<Rightarrow> ik_stream_event option" where
  "process_error_object v =
     map_option (\<lambda>error_val. IK_STREAM_ERROR (map_error_type (str_member_of error_val ''type''))
        (Some (default (bytes_of ''Unknown error'') (str_member_of error_val ''message''))))
       (obj_member_of v ''error'')"

definition extract_model_if_needed :: "json \<Rightarrow> ik_openai_chat_stream_ctx \<Rightarrow> ik_openai_chat_stream_ctx" where
  "extract_model_if_needed v c =
     (if oc_model c \<noteq> None then c else set_if (\<lambda>m c. c\<lparr>oc_model := Some m\<rparr>) (str_member_of v ''model'') c)"

definition process_choices_array ::
  "json \<Rightarrow> ik_openai_chat_stream_ctx \<Rightarrow> ik_openai_chat_stream_ctx \<times> ik_stream_event list" where
  "process_choices_array v c =
     (case arr_member_of v ''choices'' of
        Some (choice0 # rest) \<Rightarrow>
          (if is_obj choice0 then
             (case obj_member_of choice0 ''delta'' of None \<Rightarrow> (c, [])
              | Some delta_val \<Rightarrow> ik_openai_chat_process_delta delta_val (str_member_of choice0 ''finish_reason'') c)
           else (c, []))
      | _ \<Rightarrow> (c, []))"

definition extract_usage_statistics :: "json \<Rightarrow> ik_openai_chat_stream_ctx \<Rightarrow> ik_openai_chat_stream_ctx" where
  "extract_usage_statistics v c =
     (case obj_member_of v ''usage'' of None \<Rightarrow> c
      | Some usage_val \<Rightarrow>
         (let u1 = set_if (\<lambda>n u. u\<lparr>us_input_tokens := n\<rparr>) (int32_member_of usage_val ''prompt_tokens'') (oc_usage c);
              u2 = set_if (\<lambda>n u. u\<lparr>us_output_tokens := n\<rparr>) (int32_member_of usage_val ''completion_tokens'') u1;
              u3 = set_if (\<lambda>n u. u\<lparr>us_total_tokens := n\<rparr>) (int32_member_of usage_val ''total_tokens'') u2;
              u4 = (case obj_member_of usage_val ''completion_tokens_details'' of None \<Rightarrow> u3
                    | Some d \<Rightarrow> set_if (\<lambda>n u. u\<lparr>us_thinking_tokens := n\<rparr>) (int32_member_of d ''reasoning_tokens'') u3)
          in c\<lparr>oc_usage := u4\<rparr>))"

definition ik_openai_chat_stream_process_data ::
  "yyjson \<Rightarrow> cstr \<Rightarrow> ik_openai_chat_stream_ctx \<Rightarrow> ik_openai_chat_stream_ctx \<times> ik_stream_event list" where
  "ik_openai_chat_stream_process_data J data c =
     (if data = bytes_of ''[DONE]'' then process_done_marker c
      else (case J data of None \<Rightarrow> (c, [])
       | Some v \<Rightarrow>
          if \<not> is_obj v then (c, [])
          else (case process_error_object v of Some e \<Rightarrow> (c, [e])
           | None \<Rightarrow>
              (case process_choices_array v (extract_model_if_needed v c) of (c1, evs) \<Rightarrow>
                 (extract_usage_statistics v c1, evs)))))"

definition ik_openai_chat_stream_build_response :: "ik_openai_chat_stream_ctx \<Rightarrow> ik_response" where
  "ik_openai_chat_stream_build_response c =
     \<lparr>rs_content_blocks =
        (case (oc_current_tool_id c, oc_current_tool_name c) of
           (Some i, Some n) \<Rightarrow>
             [CONTENT_TOOL_CALL (Some i) (Some n) (Some (default (bytes_of ''{}'') (oc_current_tool_args c))) None]
         | _ \<Rightarrow> []),
      rs_finish_reason = oc_finish_reason c, rs_usage = oc_usage c, rs_model = oc_model c, rs_provider_data = None\<rparr>"

subsection \<open>streaming_responses.c, streaming_responses_events.c, streaming_responses_handlers.c\<close>

record ik_openai_responses_stream_ctx =
  ox_model :: "cstr option"
  ox_finish_reason :: ik_finish_reason
  ox_usage :: ik_usage
  ox_started :: bool
  ox_in_tool_call :: bool
  ox_tool_call_index :: int
  ox_current_tool_id :: "cstr option"
  ox_current_tool_name :: "cstr option"
  ox_current_tool_args :: "cstr option"

definition ik_openai_responses_stream_ctx_create :: ik_openai_responses_stream_ctx where
  "ik_openai_responses_stream_ctx_create = \<lparr>ox_model = None, ox_finish_reason = IK_FINISH_UNKNOWN, ox_usage = no_usage,
     ox_started = False, ox_in_tool_call = False, ox_tool_call_index = - 1, ox_current_tool_id = None,
     ox_current_tool_name = None, ox_current_tool_args = None\<rparr>"

definition ik_openai_maybe_emit_start ::
  "ik_openai_responses_stream_ctx \<Rightarrow> ik_openai_responses_stream_ctx \<times> ik_stream_event list" where
  "ik_openai_maybe_emit_start c =
     (if ox_started c then (c, []) else (c\<lparr>ox_started := True\<rparr>, [IK_STREAM_START (ox_model c)]))"

definition ik_openai_maybe_end_tool_call ::
  "ik_openai_responses_stream_ctx \<Rightarrow> ik_openai_responses_stream_ctx \<times> ik_stream_event list" where
  "ik_openai_maybe_end_tool_call c =
     (if ox_in_tool_call c then (c\<lparr>ox_in_tool_call := False\<rparr>, [IK_STREAM_TOOL_CALL_DONE (ox_tool_call_index c)]) else (c, []))"

definition ik_openai_responses_handle_response_created ::
  "json \<Rightarrow> ik_openai_responses_stream_ctx \<Rightarrow> ik_openai_responses_stream_ctx \<times> ik_stream_event list" where
  "ik_openai_responses_handle_response_created v c =
     ik_openai_maybe_emit_start
       (case obj_member_of v ''response'' of None \<Rightarrow> c
        | Some response_val \<Rightarrow> set_if (\<lambda>m c. c\<lparr>ox_model := Some m\<rparr>) (str_member_of response_val ''model'') c)"

definition ik_openai_responses_handle_output_text_delta ::
  "json \<Rightarrow> ik_openai_responses_stream_ctx \<Rightarrow> ik_openai_responses_stream_ctx \<times> ik_stream_event list" where
  "ik_openai_responses_handle_output_text_delta v c =
     (case str_member_of v ''delta'' of None \<Rightarrow> (c, [])
      | Some delta \<Rightarrow>
         (case ik_openai_maybe_emit_start c of (c1, evs) \<Rightarrow>
            (c1, evs @ [IK_STREAM_TEXT_DELTA (default 0 (int32_member_of v ''content_index'')) (Some delta)])))"

definition ik_openai_responses_handle_reasoning_summary_text_delta ::
  "json \<Rightarrow> ik_openai_responses_stream_ctx \<Rightarrow> ik_openai_responses_stream_ctx \<times> ik_stream_event list" where
  "ik_openai_responses_handle_reasoning_summary_text_delta v c =
     (case str_member_of v ''delta'' of None \<Rightarrow> (c, [])
      | Some delta \<Rightarrow>
         (case ik_openai_maybe_emit_start c of (c1, evs) \<Rightarrow>
            (c1, evs @ [IK_STREAM_THINKING_DELTA (default 0 (int32_member_of v ''summary_index'')) (Some delta)])))"

definition ik_openai_responses_handle_output_item_added ::
  "json \<Rightarrow> ik_openai_responses_stream_ctx \<Rightarrow> ik_openai_responses_stream_ctx \<times> ik_stream_event list" where
  "ik_openai_responses_handle_output_item_added v c =
     (case obj_member_of v ''item'' of None \<Rightarrow> (c, [])
      | Some item_val \<Rightarrow>
         if str_member_of item_val ''type'' = Some (bytes_of ''function_call'') then
           (case (str_member_of item_val ''call_id'', str_member_of item_val ''name'') of
              (Some cid, Some name) \<Rightarrow>
                (let output_index = default 0 (int32_member_of v ''output_index'')
                 in case ik_openai_maybe_end_tool_call c of (c1, evs) \<Rightarrow>
                   (case ik_openai_maybe_emit_start (c1\<lparr>ox_current_tool_args := None\<rparr>) of (c2, evs1) \<Rightarrow>
                      (c2\<lparr>ox_tool_call_index := output_index, ox_current_tool_id := Some cid,
                         ox_current_tool_name := Some name, ox_in_tool_call := True\<rparr>,
                       evs @ evs1 @ [IK_STREAM_TOOL_CALL_START output_index (Some cid) (Some name)])))
            | _ \<Rightarrow> (c, []))
         else (c, []))"

definition ik_openai_responses_handle_function_call_arguments_delta ::
  "json \<Rightarrow> ik_openai_responses_stream_ctx \<Rightarrow> ik_openai_responses_stream_ctx \<times> ik_stream_event list" where
  "ik_openai_responses_handle_function_call_arguments_delta v c =
     (case str_member_of v ''delta'' of None \<Rightarrow> (c, [])
      | Some delta \<Rightarrow>
         if ox_in_tool_call c then
           (c\<lparr>ox_current_tool_args := append_to (ox_current_tool_args c) delta\<rparr>,
            [IK_STREAM_TOOL_CALL_DELTA (default (ox_tool_call_index c) (int32_member_of v ''output_index'')) (Some delta)])
         else (c, []))"

definition ik_openai_responses_handle_output_item_done ::
  "json \<Rightarrow> ik_openai_responses_stream_ctx \<Rightarrow> ik_openai_responses_stream_ctx \<times> ik_stream_event list" where
  "ik_openai_responses_handle_output_item_done v c =
     (let output_index = default (- 1) (int32_member_of v ''output_index'')
      in if ox_in_tool_call c \<and> output_index = ox_tool_call_index c
         then (c\<lparr>ox_in_tool_call := False\<rparr>, [IK_STREAM_TOOL_CALL_DONE output_index]) else (c, []))"

definition responses_error_category :: "cstr option \<Rightarrow> ik_error_category" where
  "responses_error_category type_str =
     (case type_str of None \<Rightarrow> IK_ERR_CAT_UNKNOWN
      | Some t \<Rightarrow> if t = bytes_of ''authentication_error'' then IK_ERR_CAT_AUTH
                  else if t = bytes_of ''rate_limit_error'' then IK_ERR_CAT_RATE_LIMIT
                  else if t = bytes_of ''invalid_request_error'' then IK_ERR_CAT_INVALID_ARG
                  else if t = bytes_of ''server_error'' then IK_ERR_CAT_SERVER
                  else IK_ERR_CAT_UNKNOWN)"

definition ik_openai_responses_handle_error_event :: "json \<Rightarrow> ik_stream_event list" where
  "ik_openai_responses_handle_error_event v =
     (case obj_member_of v ''error'' of None \<Rightarrow> []
      | Some error_val \<Rightarrow>
          [IK_STREAM_ERROR (responses_error_category (str_member_of error_val ''type''))
             (Some (default (bytes_of ''Unknown error'') (str_member_of error_val ''message'')))])"

definition ik_openai_responses_stream_process_event ::
  "yyjson \<Rightarrow> cstr \<Rightarrow> cstr \<Rightarrow> ik_openai_responses_stream_ctx \<Rightarrow> ik_openai_responses_stream_ctx \<times> ik_stream_event list" where
  "ik_openai_responses_stream_process_event J event_name data c =
     (case J data of None \<Rightarrow> (c, [])
      | Some v \<Rightarrow>
         if \<not> is_obj v then (c, [])
         else if event_name = bytes_of ''response.created'' then ik_openai_responses_handle_response_created v c
         else if event_name = bytes_of ''response.output_text.delta'' then ik_openai_responses_handle_output_text_delta v c
         else if event_name = bytes_of ''response.reasoning_summary_text.delta''
         then ik_openai_responses_handle_reasoning_summary_text_delta v c
         else if event_name = bytes_of ''response.output_item.added'' then ik_openai_responses_handle_output_item_added v c
         else if event_name = bytes_of ''response.function_call_arguments.delta''
         then ik_openai_responses_handle_function_call_arguments_delta v c
         else if event_name = bytes_of ''response.output_item.done'' then ik_openai_responses_handle_output_item_done v c
         else if event_name = bytes_of ''error'' then (c, ik_openai_responses_handle_error_event v)
         else (c, []))"

definition ik_openai_responses_stream_build_response :: "ik_openai_responses_stream_ctx \<Rightarrow> ik_response" where
  "ik_openai_responses_stream_build_response c =
     (let resp = \<lparr>rs_content_blocks = [], rs_finish_reason = ox_finish_reason c, rs_usage = ox_usage c,
                  rs_model = ox_model c, rs_provider_data = None\<rparr>
      in case (ox_current_tool_id c, ox_current_tool_name c) of
           (Some i, Some n) \<Rightarrow>
             resp\<lparr>rs_finish_reason := IK_FINISH_TOOL_USE,
                  rs_content_blocks := [CONTENT_TOOL_CALL (Some i) (Some n)
                    (Some (default (bytes_of ''{}'') (ox_current_tool_args c))) None]\<rparr>
         | _ \<Rightarrow> resp)"

text \<open>An event without a name or without data is skipped.\<close>

definition responses_handler :: "yyjson \<Rightarrow> ik_openai_responses_stream_ctx handler" where
  "responses_handler J e c =
     (case (ev_event e, ev_data e) of
        (Some name, Some data) \<Rightarrow> Inr (ik_openai_responses_stream_process_event J name data c)
      | _ \<Rightarrow> Inr (c, []))"

definition ik_openai_responses_stream_write_callback ::
  "yyjson \<Rightarrow> byte list \<Rightarrow> ik_sse_parser \<times> ik_openai_responses_stream_ctx
     \<Rightarrow> ((ik_sse_parser \<times> ik_openai_responses_stream_ctx) \<times> ik_stream_event list) res" where
  "ik_openai_responses_stream_write_callback J data st =
     res_bind (stream_write (responses_handler J) data (fst st) (snd st)) (\<lambda>(p, c, evs). Inr ((p, c), evs))"

subsection \<open>openai_handlers.c\<close>

text \<open>The loop over the complete lines of the buffer; \<^verbatim>\<open>strchr\<close> finds a newline before the first zero byte only.\<close>

function chat_lines ::
  "yyjson \<Rightarrow> byte list \<Rightarrow> ik_openai_chat_stream_ctx \<Rightarrow> byte list \<times> ik_openai_chat_stream_ctx \<times> ik_stream_event list" where
  "chat_lines J bs c =
     (case find_sub [0x0A] (c_string bs) of None \<Rightarrow> (bs, c, [])
      | Some n \<Rightarrow>
         (let line = take n bs
          in case (if take 6 line = bytes_of ''data: '' then ik_openai_chat_stream_process_data J (drop 6 line) c
                   else (c, [])) of (c1, evs) \<Rightarrow>
             (case chat_lines J (drop (n + 1) bs) c1 of (rest, c2, evs1) \<Rightarrow> (rest, c2, evs @ evs1))))"
  by pat_completeness auto
termination
proof (relation "measure (\<lambda>(J, bs, c). length bs)")
  show "((J, drop (n + 1) bs, c1), (J, bs, c)) \<in> measure (\<lambda>(J, bs, c). length bs)"
    if "find_sub [0x0A] (c_string bs) = Some n" for J bs c n line p c1 evs
  proof -
    have "bs \<noteq> []" using that by (auto simp: c_string_def)
    then show ?thesis by simp
  qed
qed simp

declare chat_lines.simps [simp del]

datatype openai_parser_ctx =
    Chat_Parser ik_openai_chat_stream_ctx
  | Responses_Parser ik_sse_parser ik_openai_responses_stream_ctx

record ik_openai_stream_request_ctx =
  sr_parser_ctx :: openai_parser_ctx
  sr_sse_buffer :: "byte list"

definition openai_request_ctx :: "bool \<Rightarrow> ik_openai_stream_request_ctx" where
  "openai_request_ctx use_responses_api =
     \<lparr>sr_parser_ctx = (if use_responses_api then Responses_Parser ik_sse_parser_create ik_openai_responses_stream_ctx_create
                       else Chat_Parser ik_openai_chat_stream_ctx_create), sr_sse_buffer = []\<rparr>"

definition ik_openai_stream_write_callback ::
  "yyjson \<Rightarrow> byte list \<Rightarrow> ik_openai_stream_request_ctx \<Rightarrow> (ik_openai_stream_request_ctx \<times> ik_stream_event list) res" where
  "ik_openai_stream_write_callback J data r =
     (case sr_parser_ctx r of
        Responses_Parser p c \<Rightarrow>
          res_bind (ik_openai_responses_stream_write_callback J data (p, c))
            (\<lambda>((p1, c1), evs). Inr (r\<lparr>sr_parser_ctx := Responses_Parser p1 c1\<rparr>, evs))
      | Chat_Parser c \<Rightarrow>
          (let buf = sr_sse_buffer r @ data
           in if length buf + 1 \<ge> 2 ^ 32 then Inl MemFault
              else (case chat_lines J buf c of (rest, c1, evs) \<Rightarrow>
                      Inr (r\<lparr>sr_sse_buffer := rest, sr_parser_ctx := Chat_Parser c1\<rparr>, evs))))"

text \<open>The end of the transfer. \<open>body\<close> is the category and the message that \<^verbatim>\<open>ik_openai_parse_error\<close> finds in the body
  of the response, where there is one; \<open>transport\<close> is the message of the transport.\<close>

definition ik_openai_stream_completion_handler ::
  "bool \<Rightarrow> int \<Rightarrow> (ik_error_category \<times> cstr) res option \<Rightarrow> cstr option \<Rightarrow> ik_openai_stream_request_ctx \<Rightarrow> ik_provider_completion" where
  "ik_openai_stream_completion_handler http_success http_code body transport r =
     (if \<not> http_success then
        (let http_error = bytes_of ''HTTP '' @ dec_int http_code @ bytes_of '' error'';
             found = (case body of
                 Some (Inr (category, msg)) \<Rightarrow> (category, msg)
               | Some (Inl e) \<Rightarrow> (IK_ERR_CAT_UNKNOWN, http_error)
               | None \<Rightarrow> (if http_code = 0 then IK_ERR_CAT_NETWORK else IK_ERR_CAT_UNKNOWN, default http_error transport))
         in \<lparr>co_success = False, co_http_status = http_code, co_response = None, co_error_category = fst found,
             co_error_message = Some (snd found), co_retry_after_ms = - 1\<rparr>)
      else \<lparr>co_success = True, co_http_status = http_code,
            co_response = Some (case sr_parser_ctx r of
                Responses_Parser p c \<Rightarrow> ik_openai_responses_stream_build_response c
              | Chat_Parser c \<Rightarrow> ik_openai_chat_stream_build_response c),
            co_error_category = IK_ERR_CAT_UNKNOWN, co_error_message = None, co_retry_after_ms = - 1\<rparr>)"

subsection \<open>The contract of the Responses stream\<close>

definition responses_doc ::
  "byte list option \<Rightarrow> json \<Rightarrow> ik_openai_responses_stream_ctx \<Rightarrow> (ik_openai_responses_stream_ctx \<times> ik_stream_event list) res" where
  "responses_doc n v c = (case n of None \<Rightarrow> Inr (c, [])
     | Some name \<Rightarrow> Inr (ik_openai_responses_stream_process_event (\<lambda>_. Some v) name [] c))"

fun is_responses :: "openai_parser_ctx \<Rightarrow> bool" where
  "is_responses (Responses_Parser p c) = True"
| "is_responses (Chat_Parser c) = False"

fun responses_parser :: "openai_parser_ctx \<Rightarrow> ik_sse_parser" where
  "responses_parser (Responses_Parser p c) = p"
| "responses_parser (Chat_Parser c) = ik_sse_parser_create"

fun responses_ctx :: "openai_parser_ctx \<Rightarrow> ik_openai_responses_stream_ctx" where
  "responses_ctx (Responses_Parser p c) = c"
| "responses_ctx (Chat_Parser c) = ik_openai_responses_stream_ctx_create"

lemma responses_parser_eta: "is_responses x \<Longrightarrow> Responses_Parser (responses_parser x) (responses_ctx x) = x"
  by (cases x) simp_all

lemma responses_write:
  "is_responses (sr_parser_ctx r) \<Longrightarrow> ik_openai_stream_write_callback J data r =
     res_bind (stream_write (responses_handler J) data (responses_parser (sr_parser_ctx r)) (responses_ctx (sr_parser_ctx r)))
       (\<lambda>(p, c, evs). Inr (r\<lparr>sr_parser_ctx := Responses_Parser p c\<rparr>, evs))"
  by (cases "sr_parser_ctx r"; cases "stream_write (responses_handler J) data (responses_parser (sr_parser_ctx r))
        (responses_ctx (sr_parser_ctx r))")
     (auto simp: ik_openai_stream_write_callback_def ik_openai_responses_stream_write_callback_def)

interpretation ox: stream_callback J "responses_handler J" responses_doc "ik_openai_stream_write_callback J"
  "\<lambda>r. responses_parser (sr_parser_ctx r)" "\<lambda>r. responses_ctx (sr_parser_ctx r)"
  "\<lambda>p c r. r\<lparr>sr_parser_ctx := Responses_Parser p c\<rparr>" "\<lambda>r. is_responses (sr_parser_ctx r)" for J
  by unfold_locales
     (simp_all add: responses_handler_def responses_doc_def ik_openai_responses_stream_process_event_def responses_write
        responses_parser_eta split: option.splits)


subsection \<open>The lines of the chat stream\<close>

lemma find_newline: "10 \<notin> set l \<Longrightarrow> find_sub [10] (l @ 10 # x) = Some (length l)"
  by (induction l) auto

lemma find_no_newline: "10 \<notin> set x \<Longrightarrow> find_sub [10] x = None"
  by (induction x) auto

lemma chat_lines_none: "10 \<notin> set bs \<Longrightarrow> chat_lines J bs c = (bs, c, [])"
proof -
  assume "10 \<notin> set bs"
  then have "10 \<notin> set (c_string bs)" by (auto simp: c_string_def dest: set_takeWhileD)
  then show ?thesis by (simp add: chat_lines.simps [of J bs c] find_no_newline)
qed

lemma chat_lines_line:
  assumes "clean l"
  shows "chat_lines J (l @ 10 # rest) c =
    (case (if take 6 l = bytes_of ''data: '' then ik_openai_chat_stream_process_data J (drop 6 l) c else (c, [])) of (c1, evs) \<Rightarrow>
      (case chat_lines J rest c1 of (rest1, c2, evs1) \<Rightarrow> (rest1, c2, evs @ evs1)))"
proof -
  have "c_string (l @ 10 # rest) = l @ 10 # c_string rest"
    using c_string_nonzero [of "l @ [10]" rest] assms by (simp add: clean_def)
  then have "find_sub [10] (c_string (l @ 10 # rest)) = Some (length l)"
    using assms by (simp add: find_newline clean_def)
  then show ?thesis by (simp add: chat_lines.simps [of J "l @ 10 # rest" c])
qed

lemma chat_lines_append:
  "nul_free bs \<Longrightarrow> chat_lines J (bs @ cs) c =
    (case chat_lines J bs c of (rest, c1, evs) \<Rightarrow>
      (case chat_lines J (rest @ cs) c1 of (rest1, c2, evs1) \<Rightarrow> (rest1, c2, evs @ evs1)))"
proof (induction "length bs" arbitrary: bs c rule: less_induct)
  case less
  show ?case
  proof (cases "10 \<in> set bs")
    case False
    then show ?thesis by (simp add: chat_lines_none split: prod.splits)
  next
    case True
    then obtain l r where b: "bs = l @ 10 # r" "10 \<notin> set l" by (meson split_list_first)
    then have "clean l" "nul_free r" using less.prems by (auto simp: clean_def nul_free_def)
    then show ?thesis
      using less.hyps [of r] b(1) by (simp add: chat_lines_line split: prod.splits)
  qed
qed

lemma chat_lines_rest: "nul_free bs \<Longrightarrow> 10 \<notin> set (fst (chat_lines J bs c)) \<and> set (fst (chat_lines J bs c)) \<subseteq> set bs
    \<and> length (fst (chat_lines J bs c)) \<le> length bs"
proof (induction "length bs" arbitrary: bs c rule: less_induct)
  case less
  show ?case
  proof (cases "10 \<in> set bs")
    case False
    then show ?thesis by (simp add: chat_lines_none)
  next
    case True
    then obtain l r where b: "bs = l @ 10 # r" "10 \<notin> set l" by (meson split_list_first)
    then have "clean l" "nul_free r" using less.prems by (auto simp: clean_def nul_free_def)
    then obtain c1 where "fst (chat_lines J bs c) = fst (chat_lines J r c1)"
      using b(1) by (auto simp: chat_lines_line case_prod_unfold)
    then show ?thesis using less.hyps [of r c1] \<open>nul_free r\<close> b(1) by auto
  qed
qed

text \<open>However a chat stream is cut into chunks, its lines are handled one after the other.\<close>

lemma chat_delivered:
  assumes "sr_parser_ctx r = Chat_Parser c" and "nul_free (sr_sse_buffer r @ concat chunks)"
    and "10 \<notin> set (sr_sse_buffer r)" and "length (sr_sse_buffer r @ concat chunks) + 1 < 2 ^ 32"
    and "chat_lines J (sr_sse_buffer r @ concat chunks) c = (rest, c1, evs)"
  shows "deliver (ik_openai_stream_write_callback J) chunks r
    = Inr (r\<lparr>sr_sse_buffer := rest, sr_parser_ctx := Chat_Parser c1\<rparr>, evs)"
  using assms
proof (induction chunks arbitrary: r c evs)
  case Nil
  then show ?case by (cases r) (simp add: chat_lines_none)
next
  case (Cons d ds)
  let ?b = "sr_sse_buffer r @ d"
  obtain b1 c' e1 where l: "chat_lines J ?b c = (b1, c', e1)" by (cases "chat_lines J ?b c")
  have nf: "nul_free ?b" using Cons.prems(2) by (simp add: nul_free_def)
  have b1: "10 \<notin> set b1" "set b1 \<subseteq> set ?b" "length b1 \<le> length ?b"
    using chat_lines_rest [OF nf, of J c] l by simp_all
  obtain e2 where e2: "chat_lines J (b1 @ concat ds) c' = (rest, c1, e2)" "evs = e1 @ e2"
    using Cons.prems(5) chat_lines_append [OF nf, of J "concat ds" c] l by (simp split: prod.splits)
  let ?r = "r\<lparr>sr_sse_buffer := b1, sr_parser_ctx := Chat_Parser c'\<rparr>"
  have "deliver (ik_openai_stream_write_callback J) ds ?r
      = Inr (?r\<lparr>sr_sse_buffer := rest, sr_parser_ctx := Chat_Parser c1\<rparr>, e2)"
    using Cons.prems(2,4) b1 e2(1) by (intro Cons.IH [of _ c']) (auto simp: nul_free_def)
  moreover have "ik_openai_stream_write_callback J d r = Inr (?r, e1)"
    using Cons.prems(1,4) l by (simp add: ik_openai_stream_write_callback_def Let_def)
  ultimately show ?case using e2(2) by simp
qed

end
