(* ===== verification/Ik_Adapter_Safety.thy ===== *)
theory Ik_Adapter_Safety
  imports Ik_Anthropic Ik_Google Ik_OpenAI Ik_Turn_Safety
begin

text \<open>
  What the conversation relies on of a provider, shown for the stream parsers: whatever bytes a server sends, in
  whatever chunks, the write callback does not go wrong except for the overflow of a token count, and the completion at
  the end is one that the callbacks of the agent accept (\<open>provider_event_ok\<close>, the hypothesis of the theorems on
  turns). The locale \<open>provider_adapter\<close> is this contract for the providers with a parser of server-sent events.
\<close>

locale provider_adapter = stream_callback J h doc cb parser ctx put ok
  for J :: yyjson and h :: "'s handler" and doc
    and cb :: "byte list \<Rightarrow> 'a \<Rightarrow> ('a \<times> ik_stream_event list) res" and parser ctx put ok +
  fixes complete :: "int \<Rightarrow> 'a \<Rightarrow> ik_provider_completion option"
  assumes handler_safe: "safe (h e s) (\<lambda>_. True)"
    and complete_ok: "ok a \<Longrightarrow> complete status a = Some co \<Longrightarrow> provider_event_ok (Completion_Event co)"
begin

lemma stream_contract:
  assumes "ok a" and "parser a = ik_sse_parser_create" and "length (concat chunks) < 2 ^ 31"
  shows "safe (deliver cb chunks a) (\<lambda>(a', evs). \<forall>status co. complete status a' = Some co \<longrightarrow>
     provider_event_ok (Completion_Event co))"
proof -
  have w: "safe (write_chunks h chunks (parser a) (ctx a)) (\<lambda>_. True)"
    using write_chunks_safe [OF handler_safe create_repr, of chunks] assms(2,3) by simp
  show ?thesis
  proof (cases "write_chunks h chunks (parser a) (ctx a)")
    case (Inr x)
    obtain p s evs where "x = (p, s, evs)" by (cases x)
    then have "deliver cb chunks a = Inr (put p s a, evs)" using deliver_chunks [OF assms(1)] Inr by simp
    then show ?thesis using complete_ok [OF put_laws(1) [OF assms(1)]] by simp
  next
    case (Inl e)
    then show ?thesis using w deliver_fails [OF assms(1)] by simp
  qed
qed

end

subsection \<open>The providers\<close>

lemma anthropic_handler_safe: "safe (anthropic_handler J e c) (\<lambda>_. True)"
proof -
  have "safe (ik_anthropic_process_message_delta v c) (\<lambda>_. True)" for v
    by (auto simp: ik_anthropic_process_message_delta_def Let_def add32_def split: option.splits)
  then show ?thesis
    by (auto simp: anthropic_handler_def ik_anthropic_stream_process_event_def Let_def intro!: safe_bind split: option.splits)
qed

lemma google_handler_safe: "safe (google_handler R J W e c) (\<lambda>_. True)"
proof -
  have "safe (ik_google_stream_process_usage v c) (\<lambda>_. True)" for v c
    by (auto simp: ik_google_stream_process_usage_def Let_def sub32_def split: prod.splits)
  then show ?thesis
    by (auto simp: google_handler_def ik_google_stream_process_data_def intro!: safe_bind split: option.splits prod.splits)
qed

lemma responses_handler_safe: "safe (responses_handler J e c) (\<lambda>_. True)"
  by (auto simp: responses_handler_def split: option.splits)

definition anthropic_complete :: "int \<Rightarrow> ik_anthropic_active_stream \<Rightarrow> ik_provider_completion option" where
  "anthropic_complete status st = snd (anthropic_info_read (Some (ik_anthropic_stream_completion_cb status st)))"

definition google_complete :: "int \<Rightarrow> ik_google_active_stream \<Rightarrow> ik_provider_completion option" where
  "google_complete status st = snd (google_info_read (Some (ik_google_stream_completion_cb status st)))"

lemma anthropic_complete_ok: "anthropic_complete status st = Some co \<Longrightarrow> provider_event_ok (Completion_Event co)"
  by (auto simp: anthropic_complete_def anthropic_info_read_def ik_anthropic_stream_completion_cb_def stream_completion_def
      ik_anthropic_stream_build_response_def split: option.splits if_splits)

lemma google_complete_ok: "google_complete status st = Some co \<Longrightarrow> provider_event_ok (Completion_Event co)"
  by (auto simp: google_complete_def google_info_read_def ik_google_stream_completion_cb_def stream_completion_def
      ik_google_stream_build_response_def Let_def split: option.splits if_splits)

lemma openai_complete_ok:
  "provider_event_ok (Completion_Event (ik_openai_stream_completion_handler success status body transport r))"
  by (auto simp: ik_openai_stream_completion_handler_def ik_openai_responses_stream_build_response_def
      ik_openai_chat_stream_build_response_def Let_def split: option.splits openai_parser_ctx.splits)

interpretation ana: provider_adapter J "anthropic_handler J" anthropic_doc "ik_anthropic_stream_write_cb J"
  as_sse_parser as_stream_ctx "\<lambda>p c st. st\<lparr>as_sse_parser := p, as_stream_ctx := c\<rparr>" "\<lambda>_. True" anthropic_complete for J
  by unfold_locales (fact anthropic_handler_safe, rule anthropic_complete_ok)

interpretation gga: provider_adapter J "google_handler R J W" "google_doc R W" "ik_google_stream_write_cb R J W"
  gs_sse_parser gs_stream_ctx "\<lambda>p c st. st\<lparr>gs_sse_parser := p, gs_stream_ctx := c\<rparr>" "\<lambda>_. True" google_complete for R J W
  by unfold_locales (fact google_handler_safe, rule google_complete_ok)

interpretation oxa: provider_adapter J "responses_handler J" responses_doc "ik_openai_stream_write_callback J"
  "\<lambda>r. responses_parser (sr_parser_ctx r)" "\<lambda>r. responses_ctx (sr_parser_ctx r)"
  "\<lambda>p c r. r\<lparr>sr_parser_ctx := Responses_Parser p c\<rparr>" "\<lambda>r. is_responses (sr_parser_ctx r)"
  "\<lambda>status r. Some (ik_openai_stream_completion_handler (200 \<le> status \<and> status < 300) status None None r)" for J
  by unfold_locales (fact responses_handler_safe, auto simp del: provider_event_ok.simps intro: openai_complete_ok)


subsection \<open>The chat API\<close>

lemma chat_lines_length: "length (fst (chat_lines J bs c)) \<le> length bs"
proof (induction "length bs" arbitrary: bs c rule: less_induct)
  case less
  show ?case
  proof (cases "find_sub [10] (c_string bs)")
    case None
    then show ?thesis by (simp add: chat_lines.simps [of J bs c])
  next
    case (Some n)
    then have "bs \<noteq> []" by (auto simp: c_string_def)
    then have "length (fst (chat_lines J (drop (n + 1) bs) c1)) \<le> length bs" for c1
      using less [of "drop (n + 1) bs" c1] by simp
    then show ?thesis using Some by (simp add: chat_lines.simps [of J bs c] Let_def case_prod_unfold)
  qed
qed

lemma chat_contract:
  assumes "sr_parser_ctx r = Chat_Parser c" and "length (sr_sse_buffer r) + length (concat chunks) + 1 < 2 ^ 32"
  shows "\<exists>r' evs. deliver (ik_openai_stream_write_callback J) chunks r = Inr (r', evs)"
  using assms
proof (induction chunks arbitrary: r c)
  case (Cons d ds)
  let ?b = "sr_sse_buffer r @ d"
  obtain b1 c1 e1 where l: "chat_lines J ?b c = (b1, c1, e1)" by (cases "chat_lines J ?b c")
  let ?r = "r\<lparr>sr_sse_buffer := b1, sr_parser_ctx := Chat_Parser c1\<rparr>"
  have "length b1 \<le> length ?b" using chat_lines_length [of J ?b c] l by simp
  then obtain r' e2 where "deliver (ik_openai_stream_write_callback J) ds ?r = Inr (r', e2)"
    using Cons.IH [of ?r c1] Cons.prems(2) by auto
  moreover have "ik_openai_stream_write_callback J d r = Inr (?r, e1)"
    using Cons.prems l by (simp add: ik_openai_stream_write_callback_def Let_def)
  ultimately show ?case by simp
qed simp

subsection \<open>Theorem\<close>

text \<open>C9. Whatever bytes a server sends, in whatever chunks, no stream parser goes wrong except for the overflow of a
  token count, and the completion of the stream, with any status, has only tool calls with an identifier, a name and
  arguments, which is what the theorems on turns assume of a provider; the parser of the chat API does not even
  overflow.\<close>

theorem provider_contract:
  assumes "length (concat chunks) < 2 ^ 31"
  shows "safe (deliver (ik_anthropic_stream_write_cb J) chunks anthropic_active_stream)
      (\<lambda>(st, evs). \<forall>status. pred_option (\<lambda>co. provider_event_ok (Completion_Event co)) (anthropic_complete status st))
    \<and> safe (deliver (ik_google_stream_write_cb R J W) chunks google_active_stream)
      (\<lambda>(st, evs). \<forall>status. pred_option (\<lambda>co. provider_event_ok (Completion_Event co)) (google_complete status st))
    \<and> safe (deliver (ik_openai_stream_write_callback J) chunks (openai_request_ctx True))
      (\<lambda>(r, evs). \<forall>ok status b t. provider_event_ok (Completion_Event (ik_openai_stream_completion_handler ok status b t r)))
    \<and> returns (deliver (ik_openai_stream_write_callback J) chunks (openai_request_ctx False))
      (\<lambda>(r, evs). \<forall>ok status b t. provider_event_ok (Completion_Event (ik_openai_stream_completion_handler ok status b t r)))"
proof (intro conjI)
  show "safe (deliver (ik_anthropic_stream_write_cb J) chunks anthropic_active_stream)
      (\<lambda>(st, evs). \<forall>status. pred_option (\<lambda>co. provider_event_ok (Completion_Event co)) (anthropic_complete status st))"
    by (rule safe_mono [OF ana.stream_contract [OF TrueI _ assms]])
       (auto simp: anthropic_active_stream_def option.pred_set simp del: provider_event_ok.simps)
  show "safe (deliver (ik_google_stream_write_cb R J W) chunks google_active_stream)
      (\<lambda>(st, evs). \<forall>status. pred_option (\<lambda>co. provider_event_ok (Completion_Event co)) (google_complete status st))"
    by (rule safe_mono [OF gga.stream_contract [OF TrueI _ assms]])
       (auto simp: google_active_stream_def option.pred_set simp del: provider_event_ok.simps)
  show "safe (deliver (ik_openai_stream_write_callback J) chunks (openai_request_ctx True))
      (\<lambda>(r, evs). \<forall>ok status b t. provider_event_ok (Completion_Event (ik_openai_stream_completion_handler ok status b t r)))"
    using oxa.stream_contract [OF _ _ assms, of "openai_request_ctx True" J] openai_complete_ok
    by (auto simp: openai_request_ctx_def elim!: safe_mono simp del: provider_event_ok.simps)
  show "returns (deliver (ik_openai_stream_write_callback J) chunks (openai_request_ctx False))
      (\<lambda>(r, evs). \<forall>ok status b t. provider_event_ok (Completion_Event (ik_openai_stream_completion_handler ok status b t r)))"
    using chat_contract [of "openai_request_ctx False" _ chunks J] assms openai_complete_ok
    by (auto simp: openai_request_ctx_def simp del: provider_event_ok.simps)
qed

theorem provider_contract_witness:
  "safe (deliver (ik_anthropic_stream_write_cb (\<lambda>_. None)) [[0x64, 0x61], [0x0A, 0, 0x0A]] anthropic_active_stream)
      (\<lambda>(st, evs). \<forall>status. pred_option (\<lambda>co. provider_event_ok (Completion_Event co)) (anthropic_complete status st))"
  using provider_contract [of "[[0x64, 0x61], [0x0A, 0, 0x0A]]" "\<lambda>_. None"] by simp

end
