(* ===== verification/Ik_Mock.thy ===== *)
theory Ik_Mock
  imports Ik_Anthropic Ik_Google Ik_OpenAI
begin

text \<open>
  The scripted server used in place of a model: apps/mock-provider/mock_queue.c, anthropic_serializer.c,
  openai_serializer.c, google_serializer.c and the routes of main.c.

  A serializer yields the bytes it writes to the connection. The writer of JSON is the argument \<open>W\<close>; where it
  fails the code goes on with \<^verbatim>\<open>NULL\<close> and crashes. The queue is the list of its responses. The chunk of the chat
  API with tool calls refers to the identifiers in a local buffer that is gone when the document is written:
  what is read for the call \<open>i\<close> is \<open>stale i\<close>.
\<close>

record mock_tool_call =
  mt_name :: cstr
  mt_arguments_json :: cstr

datatype mock_response = MOCK_TEXT cstr | MOCK_TOOL_CALLS "mock_tool_call list"

type_synonym mock_queue = "mock_response list"

definition str_m :: "string \<Rightarrow> cstr \<Rightarrow> byte list \<times> json" where
  "str_m key t = (bytes_of key, JStr t)"

definition int_m :: "string \<Rightarrow> int \<Rightarrow> byte list \<times> json" where
  "int_m key n = (bytes_of key, JInt n)"

definition val_m :: "string \<Rightarrow> json \<Rightarrow> byte list \<times> json" where
  "val_m key v = (bytes_of key, v)"

lemmas m_defs = str_m_def int_m_def val_m_def

subsection \<open>mock_queue.c\<close>

definition mock_queue_create :: mock_queue where
  "mock_queue_create = []"

definition mock_parse_tool_call :: "yyjson_writer \<Rightarrow> json \<Rightarrow> mock_tool_call option" where
  "mock_parse_tool_call W tc_val =
     (case str_member_of tc_val ''name'' of None \<Rightarrow> None
      | Some name \<Rightarrow>
         Some \<lparr>mt_name = name, mt_arguments_json =
           (case obj_member_of tc_val ''arguments'' of None \<Rightarrow> bytes_of ''{}'' | Some a \<Rightarrow> default (bytes_of ''{}'') (W a))\<rparr>)"

fun parse_tool_calls :: "yyjson_writer \<Rightarrow> json list \<Rightarrow> mock_tool_call list option" where
  "parse_tool_calls W [] = Some []"
| "parse_tool_calls W (v # vs) =
     (case mock_parse_tool_call W v of None \<Rightarrow> None
      | Some tc \<Rightarrow> map_option ((#) tc) (parse_tool_calls W vs))"

definition parse_response :: "yyjson_writer \<Rightarrow> json \<Rightarrow> mock_queue \<Rightarrow> mock_queue option" where
  "parse_response W resp_val q =
     (case arr_member_of resp_val ''tool_calls'' of
        Some calls \<Rightarrow> map_option (\<lambda>tcs. q @ [MOCK_TOOL_CALLS tcs]) (parse_tool_calls W calls)
      | None \<Rightarrow> Some (q @ [MOCK_TEXT (default [] (str_member_of resp_val ''content''))]))"

text \<open>The queue and whether the load succeeded; responses read before an error stay in the queue.\<close>

fun load_responses :: "yyjson_writer \<Rightarrow> json list \<Rightarrow> mock_queue \<Rightarrow> mock_queue \<times> bool" where
  "load_responses W [] q = (q, True)"
| "load_responses W (v # vs) q = (case parse_response W v q of None \<Rightarrow> (q, False) | Some q1 \<Rightarrow> load_responses W vs q1)"

definition mock_queue_load :: "yyjson \<Rightarrow> yyjson_writer \<Rightarrow> byte list \<Rightarrow> mock_queue \<Rightarrow> mock_queue \<times> bool" where
  "mock_queue_load J W json_body q =
     (case J json_body of None \<Rightarrow> (q, False)
      | Some v \<Rightarrow> (case arr_member_of v ''responses'' of None \<Rightarrow> (q, False) | Some vs \<Rightarrow> load_responses W vs q))"

definition mock_queue_pop :: "mock_queue \<Rightarrow> mock_queue \<times> mock_response option" where
  "mock_queue_pop q = (case q of [] \<Rightarrow> ([], None) | r # rest \<Rightarrow> (rest, Some r))"

definition mock_queue_reset :: "mock_queue \<Rightarrow> mock_queue" where
  "mock_queue_reset q = []"

definition mock_queue_is_empty :: "mock_queue \<Rightarrow> bool" where
  "mock_queue_is_empty q \<longleftrightarrow> q = []"

subsection \<open>Writing\<close>

definition json_text :: "yyjson_writer \<Rightarrow> json \<Rightarrow> cstr res" where
  "json_text W v = (case W v of None \<Rightarrow> Inl MemFault | Some t \<Rightarrow> Inr t)"

definition write_sse_event :: "string \<Rightarrow> cstr \<Rightarrow> byte list" where
  "write_sse_event event_name json_str = bytes_of ''event: '' @ bytes_of event_name @ [0x0A] @ bytes_of ''data: '' @ json_str @ [0x0A, 0x0A]"

definition write_sse_data :: "cstr \<Rightarrow> byte list" where
  "write_sse_data json_str = bytes_of ''data: '' @ json_str @ [0x0A, 0x0A]"

text \<open>A sequence of writes; a document that cannot be written ends it.\<close>

fun write_events :: "yyjson_writer \<Rightarrow> (string \<times> json) list \<Rightarrow> byte list res" where
  "write_events W [] = Inr []"
| "write_events W ((name, v) # evs) =
     res_bind (json_text W v) (\<lambda>t. res_bind (write_events W evs) (\<lambda>rest. Inr (write_sse_event name t @ rest)))"

fun write_datas :: "yyjson_writer \<Rightarrow> json list \<Rightarrow> byte list res" where
  "write_datas W [] = Inr []"
| "write_datas W (v # vs) =
     res_bind (json_text W v) (\<lambda>t. res_bind (write_datas W vs) (\<lambda>rest. Inr (write_sse_data t @ rest)))"

subsection \<open>anthropic_serializer.c\<close>

definition build_message_start :: json where
  "build_message_start = JObj [val_m ''message'' (JObj [str_m ''model'' (bytes_of ''mock''),
     val_m ''usage'' (JObj [int_m ''input_tokens'' 0])])]"

definition build_text_block_start :: "int \<Rightarrow> json" where
  "build_text_block_start index = JObj [int_m ''index'' index,
     val_m ''content_block'' (JObj [str_m ''type'' (bytes_of ''text''), str_m ''text'' []])]"

definition build_text_delta :: "int \<Rightarrow> cstr \<Rightarrow> json" where
  "build_text_delta index t = JObj [int_m ''index'' index,
     val_m ''delta'' (JObj [str_m ''type'' (bytes_of ''text_delta''), str_m ''text'' t])]"

definition build_block_stop :: "int \<Rightarrow> json" where
  "build_block_stop index = JObj [int_m ''index'' index]"

definition build_message_delta :: "string \<Rightarrow> json" where
  "build_message_delta stop_reason = JObj [val_m ''delta'' (JObj [str_m ''stop_reason'' (bytes_of stop_reason)]),
     val_m ''usage'' (JObj [int_m ''output_tokens'' 0])]"

definition build_tool_block_start :: "int \<Rightarrow> cstr \<Rightarrow> json" where
  "build_tool_block_start index name = JObj [int_m ''index'' index,
     val_m ''content_block'' (JObj [str_m ''type'' (bytes_of ''tool_use''),
       str_m ''id'' (take 31 (bytes_of ''toolu_mock_'' @ dec_int index)), str_m ''name'' name])]"

definition build_tool_delta :: "int \<Rightarrow> cstr \<Rightarrow> json" where
  "build_tool_delta index partial_json = JObj [int_m ''index'' index,
     val_m ''delta'' (JObj [str_m ''type'' (bytes_of ''input_json_delta''), str_m ''partial_json'' partial_json])]"

text \<open>The last event is written as a literal.\<close>

definition anthropic_serialize_text :: "yyjson_writer \<Rightarrow> cstr \<Rightarrow> byte list res" where
  "anthropic_serialize_text W content =
     res_bind (write_events W [(''message_start'', build_message_start), (''content_block_start'', build_text_block_start 0),
         (''content_block_delta'', build_text_delta 0 content), (''content_block_stop'', build_block_stop 0),
         (''message_delta'', build_message_delta ''end_turn'')])
       (\<lambda>out. Inr (out @ write_sse_event ''message_stop'' (bytes_of ''{}'')))"

definition anthropic_tool_events :: "int \<Rightarrow> mock_tool_call \<Rightarrow> (string \<times> json) list" where
  "anthropic_tool_events i tc =
     [(''content_block_start'', build_tool_block_start i (mt_name tc)),
      (''content_block_delta'', build_tool_delta i (mt_arguments_json tc)),
      (''content_block_stop'', build_block_stop i)]"

fun number_calls :: "(int \<Rightarrow> mock_tool_call \<Rightarrow> 'a list) \<Rightarrow> int \<Rightarrow> mock_tool_call list \<Rightarrow> 'a list" where
  "number_calls f i [] = []"
| "number_calls f i (tc # tcs) = f i tc @ number_calls f (i + 1) tcs"

definition anthropic_serialize_tool_calls :: "yyjson_writer \<Rightarrow> mock_tool_call list \<Rightarrow> byte list res" where
  "anthropic_serialize_tool_calls W tool_calls =
     check_assert (tool_calls \<noteq> [])
       (res_bind (write_events W ([(''message_start'', build_message_start)]
             @ number_calls anthropic_tool_events 0 tool_calls
             @ [(''message_delta'', build_message_delta ''tool_use'')]))
         (\<lambda>out. Inr (out @ write_sse_event ''message_stop'' (bytes_of ''{}''))))"

subsection \<open>google_serializer.c\<close>

definition add_usage_metadata :: "(byte list \<times> json) list \<Rightarrow> (byte list \<times> json) list" where
  "add_usage_metadata members = members @ [val_m ''usageMetadata'' (JObj [int_m ''promptTokenCount'' 0,
     int_m ''candidatesTokenCount'' 0, int_m ''totalTokenCount'' 0])]"

definition google_chunk :: "json list \<Rightarrow> json" where
  "google_chunk parts = JObj (add_usage_metadata
     [val_m ''candidates'' (JArr [JObj [val_m ''content'' (JObj [val_m ''parts'' (JArr parts), str_m ''role'' (bytes_of ''model'')]),
        str_m ''finishReason'' (bytes_of ''STOP'')]]),
      str_m ''modelVersion'' (bytes_of ''mock'')])"

definition build_text_chunk :: "cstr \<Rightarrow> json" where
  "build_text_chunk content = google_chunk [JObj [str_m ''text'' content]]"

definition google_call_part :: "yyjson \<Rightarrow> mock_tool_call \<Rightarrow> json" where
  "google_call_part J tc = JObj [val_m ''functionCall'' (JObj [str_m ''name'' (mt_name tc),
     val_m ''args'' (default (JObj []) (J (mt_arguments_json tc)))])]"

definition build_tool_calls_chunk :: "yyjson \<Rightarrow> mock_tool_call list \<Rightarrow> json" where
  "build_tool_calls_chunk J tool_calls = google_chunk (map (google_call_part J) tool_calls)"

definition google_serialize_text :: "yyjson_writer \<Rightarrow> cstr \<Rightarrow> byte list res" where
  "google_serialize_text W content = write_datas W [build_text_chunk content]"

definition google_serialize_tool_calls :: "yyjson \<Rightarrow> yyjson_writer \<Rightarrow> mock_tool_call list \<Rightarrow> byte list res" where
  "google_serialize_tool_calls J W tool_calls =
     check_assert (tool_calls \<noteq> []) (write_datas W [build_tool_calls_chunk J tool_calls])"

subsection \<open>openai_serializer.c\<close>

definition chat_chunk :: "(byte list \<times> json) list \<Rightarrow> json \<Rightarrow> (byte list \<times> json) list \<Rightarrow> json" where
  "chat_chunk delta finish_reason extra = JObj ([str_m ''id'' (bytes_of ''mock-1''),
     str_m ''object'' (bytes_of ''chat.completion.chunk''), str_m ''model'' (bytes_of ''mock''),
     val_m ''choices'' (JArr [JObj [int_m ''index'' 0, val_m ''delta'' (JObj delta), val_m ''finish_reason'' finish_reason]])] @ extra)"

definition chat_usage :: "(byte list \<times> json) list" where
  "chat_usage = [val_m ''usage'' (JObj [int_m ''prompt_tokens'' 0, int_m ''completion_tokens'' 0, int_m ''total_tokens'' 0])]"

definition build_role_chunk :: json where
  "build_role_chunk = chat_chunk [str_m ''role'' (bytes_of ''assistant'')] JNull []"

definition build_content_chunk :: "cstr \<Rightarrow> json" where
  "build_content_chunk content = chat_chunk [str_m ''content'' content] JNull []"

definition build_stop_chunk :: json where
  "build_stop_chunk = chat_chunk [] (JStr (bytes_of ''stop'')) chat_usage"

definition chat_call :: "(int \<Rightarrow> cstr) \<Rightarrow> int \<Rightarrow> mock_tool_call \<Rightarrow> json list" where
  "chat_call stale i tc = [JObj [int_m ''index'' i, str_m ''id'' (stale i), str_m ''type'' (bytes_of ''function''),
     val_m ''function'' (JObj [str_m ''name'' (mt_name tc), str_m ''arguments'' (mt_arguments_json tc)])]]"

definition build_tool_call_chunk :: "(int \<Rightarrow> cstr) \<Rightarrow> mock_tool_call list \<Rightarrow> json" where
  "build_tool_call_chunk stale tool_calls =
     chat_chunk [str_m ''role'' (bytes_of ''assistant''),
       val_m ''tool_calls'' (JArr (number_calls (chat_call stale) 0 tool_calls))] JNull []"

definition build_tool_call_stop_chunk :: json where
  "build_tool_call_stop_chunk = chat_chunk [] (JStr (bytes_of ''tool_calls'')) chat_usage"

definition write_sse_done :: "byte list" where
  "write_sse_done = write_sse_data (bytes_of ''[DONE]'')"

definition openai_serialize_text :: "yyjson_writer \<Rightarrow> cstr \<Rightarrow> byte list res" where
  "openai_serialize_text W content =
     res_bind (write_datas W [build_role_chunk, build_content_chunk content, build_stop_chunk])
       (\<lambda>out. Inr (out @ write_sse_done))"

definition openai_serialize_tool_calls :: "yyjson_writer \<Rightarrow> (int \<Rightarrow> cstr) \<Rightarrow> mock_tool_call list \<Rightarrow> byte list res" where
  "openai_serialize_tool_calls W stale tool_calls =
     check_assert (tool_calls \<noteq> [])
       (res_bind (write_datas W [build_tool_call_chunk stale tool_calls, build_tool_call_stop_chunk])
         (\<lambda>out. Inr (out @ write_sse_done)))"

definition build_responses_created :: json where
  "build_responses_created = JObj [val_m ''response'' (JObj [str_m ''model'' (bytes_of ''mock'')])]"

definition build_responses_text_delta :: "cstr \<Rightarrow> json" where
  "build_responses_text_delta content = JObj [str_m ''delta'' content, int_m ''content_index'' 0]"

definition openai_responses_serialize_text :: "yyjson_writer \<Rightarrow> cstr \<Rightarrow> byte list res" where
  "openai_responses_serialize_text W content =
     res_bind (write_events W [(''response.created'', build_responses_created),
         (''response.output_text.delta'', build_responses_text_delta content)])
       (\<lambda>out. Inr (out @ write_sse_event ''response.completed'' (bytes_of ''{}'')))"

definition responses_tool_events :: "int \<Rightarrow> mock_tool_call \<Rightarrow> (string \<times> json) list" where
  "responses_tool_events i tc =
     [(''response.output_item.added'', JObj [int_m ''output_index'' i,
         val_m ''item'' (JObj [str_m ''type'' (bytes_of ''function_call''),
           str_m ''call_id'' (take 31 (bytes_of ''call_mock_'' @ dec_int i)), str_m ''name'' (mt_name tc)])]),
      (''response.function_call_arguments.delta'', JObj [int_m ''output_index'' i, str_m ''delta'' (mt_arguments_json tc)]),
      (''response.output_item.done'', JObj [int_m ''output_index'' i])]"

definition openai_responses_serialize_tool_calls :: "yyjson_writer \<Rightarrow> mock_tool_call list \<Rightarrow> byte list res" where
  "openai_responses_serialize_tool_calls W tool_calls =
     check_assert (tool_calls \<noteq> [])
       (res_bind (write_events W ([(''response.created'', build_responses_created)] @ number_calls responses_tool_events 0 tool_calls))
         (\<lambda>out. Inr (out @ write_sse_event ''response.completed'' (bytes_of ''{}''))))"

subsection \<open>main.c: the routes\<close>

datatype mock_reply = Error_Reply int | Json_Reply | Sse_Reply "byte list"

text \<open>The route of a model API: the next response, written by one of two serializers.\<close>

definition serve ::
  "(cstr \<Rightarrow> byte list res) \<Rightarrow> (mock_tool_call list \<Rightarrow> byte list res) \<Rightarrow> mock_queue \<Rightarrow> (mock_queue \<times> mock_reply) res" where
  "serve serialize_text serialize_tool_calls q =
     (case mock_queue_pop q of
        (q1, None) \<Rightarrow> Inr (q1, Error_Reply 503)
      | (q1, Some (MOCK_TEXT content)) \<Rightarrow> res_bind (serialize_text content) (\<lambda>out. Inr (q1, Sse_Reply out))
      | (q1, Some (MOCK_TOOL_CALLS tcs)) \<Rightarrow> res_bind (serialize_tool_calls tcs) (\<lambda>out. Inr (q1, Sse_Reply out)))"

definition handle_request ::
  "yyjson \<Rightarrow> yyjson_writer \<Rightarrow> (int \<Rightarrow> cstr) \<Rightarrow> (cstr \<times> byte list option) option \<Rightarrow> mock_queue \<Rightarrow> (mock_queue \<times> mock_reply) res" where
  "handle_request J W stale req q =
     (case req of None \<Rightarrow> Inr (q, Error_Reply 400)
      | Some (path, body) \<Rightarrow>
         if path = bytes_of ''/_mock/expect'' then
           (case body of None \<Rightarrow> Inr (q, Error_Reply 400)
            | Some t \<Rightarrow>
               if t = [] then Inr (q, Error_Reply 400)
               else (case mock_queue_load J W t q of (q1, ok) \<Rightarrow> Inr (q1, if ok then Json_Reply else Error_Reply 400)))
         else if path = bytes_of ''/_mock/reset'' then Inr (mock_queue_reset q, Json_Reply)
         else if path = bytes_of ''/v1/chat/completions'' then
           serve (openai_serialize_text W) (openai_serialize_tool_calls W stale) q
         else if path = bytes_of ''/v1/responses'' then
           serve (openai_responses_serialize_text W) (openai_responses_serialize_tool_calls W) q
         else if path = bytes_of ''/v1/messages'' then serve (anthropic_serialize_text W) (anthropic_serialize_tool_calls W) q
         else if take 8 path = bytes_of ''/models/'' then serve (google_serialize_text W) (google_serialize_tool_calls J W) q
         else Inr (q, Error_Reply 404))"

end
