(* ===== verification/Ik_Mock_Stream.thy ===== *)
theory Ik_Mock_Stream
  imports Ik_Mock
begin

text \<open>
  The scripted server and the stream parsers together. For every API the specification is the list of stream
  events and the response that a queued response must give (\<open>anthropic_outcome\<close> and so on); the theorems show that
  the bytes of the server, cut into chunks in any way, give exactly these.
\<close>

subsection \<open>What the server writes\<close>

lemma bytes_clean: "clean (bytes_of s) \<longleftrightarrow> list_all (\<lambda>c. of_char c \<noteq> (0x0A :: byte) \<and> of_char c \<noteq> (0 :: byte)) s"
  by (auto simp: clean_def bytes_of_def list_all_iff)

lemma write_sse_frames:
  "write_sse_event name t = frame (Some (bytes_of name), t)"
  "write_sse_data t = frame (None, t)"
  by (simp_all add: write_sse_event_def write_sse_data_def sse_format_def event_prefix_def data_prefix_def bytes_of_def)

lemma write_events_frames:
  assumes "json_wire J W"
  shows "write_events W evs = Inr out \<Longrightarrow> list_all (\<lambda>(n, v). clean (bytes_of n)) evs \<Longrightarrow>
    \<exists>xs. out = concat (map frame xs) \<and> list_all2 (carries J) xs (map (\<lambda>(n, v). (Some (bytes_of n), v)) evs)"
proof (induction evs arbitrary: out)
  case (Cons e evs)
  obtain n v where e: "e = (n, v)" by fastforce
  obtain t rest where t: "W v = Some t" "write_events W evs = Inr rest" "out = write_sse_event n t @ rest"
    using Cons.prems(1) e by (auto simp: json_text_def res_bind_Inr_iff split: option.splits)
  then obtain xs where xs: "rest = concat (map frame xs)"
    "list_all2 (carries J) xs (map (\<lambda>(n, v). (Some (bytes_of n), v)) evs)"
    using Cons by auto
  have "carries J (Some (bytes_of n), t) (Some (bytes_of n), v)"
    using assms t(1) Cons.prems(2) e by (simp add: json_wire_def json_io_def)
  then have "list_all2 (carries J) ((Some (bytes_of n), t) # xs) (map (\<lambda>(n, v). (Some (bytes_of n), v)) (e # evs))"
    using xs(2) e by simp
  moreover have "out = concat (map frame ((Some (bytes_of n), t) # xs))" using t(3) xs(1) by (simp add: write_sse_frames)
  ultimately show ?case by blast
qed simp

lemma write_datas_frames:
  assumes "json_wire J W"
  shows "write_datas W vs = Inr out \<Longrightarrow>
    \<exists>xs. out = concat (map frame xs) \<and> list_all2 (carries J) xs (map (Pair None) vs)"
proof (induction vs arbitrary: out)
  case (Cons v vs)
  obtain t rest where t: "W v = Some t" "write_datas W vs = Inr rest" "out = write_sse_data t @ rest"
    using Cons.prems by (auto simp: json_text_def res_bind_Inr_iff split: option.splits)
  then obtain xs where xs: "rest = concat (map frame xs)" "list_all2 (carries J) xs (map (Pair None) vs)"
    using Cons by auto
  have "carries J (None, t) (None, v)" using assms t(1) by (simp add: json_wire_def json_io_def)
  then have "list_all2 (carries J) ((None, t) # xs) (map (Pair None) (v # vs))" using xs(2) by simp
  moreover have "out = concat (map frame ((None, t) # xs))" using t(3) xs(1) by (simp add: write_sse_frames)
  ultimately show ?case by blast
qed simp

text \<open>A stream of named events that ends with an empty object written as a literal.\<close>

lemma closed_frames:
  assumes "json_wire J W" and "list_all (\<lambda>(n, v). clean (bytes_of n)) evs" and "clean (bytes_of z)"
    and "res_bind (write_events W evs) (\<lambda>out. Inr (out @ write_sse_event z (bytes_of ''{}''))) = Inr out"
  shows "\<exists>xs. out = concat (map frame xs)
    \<and> list_all2 (carries J) xs (map (\<lambda>(n, v). (Some (bytes_of n), v)) (evs @ [(z, JObj [])]))"
proof -
  obtain out1 where o: "write_events W evs = Inr out1" "out = out1 @ write_sse_event z (bytes_of ''{}'')"
    using assms(4) by (auto simp: res_bind_Inr_iff)
  obtain xs where xs: "out1 = concat (map frame xs)"
    "list_all2 (carries J) xs (map (\<lambda>(n, v). (Some (bytes_of n), v)) evs)"
    using write_events_frames [OF assms(1) o(1) assms(2)] by blast
  have "clean (bytes_of ''{}'')" "bytes_of ''{}'' \<noteq> []" by (simp_all add: bytes_clean, simp add: bytes_of_def)
  then have "carries J (Some (bytes_of z), bytes_of ''{}'') (Some (bytes_of z), JObj [])"
    using assms(1,3) by (simp add: json_wire_def)
  then have "list_all2 (carries J) (xs @ [(Some (bytes_of z), bytes_of ''{}'')])
      (map (\<lambda>(n, v). (Some (bytes_of n), v)) (evs @ [(z, JObj [])]))"
    using xs(2) by (simp add: list_all2_appendI)
  moreover have "out = concat (map frame (xs @ [(Some (bytes_of z), bytes_of ''{}'')]))"
    using o(2) xs(1) by (simp add: write_sse_frames)
  ultimately show ?thesis by blast
qed

subsection \<open>Calls\<close>

text \<open>The texts of a queued response are C strings, and there are at most as many calls as an \<^verbatim>\<open>int32_t\<close> counts.\<close>

definition call_ok :: "mock_tool_call \<Rightarrow> bool" where
  "call_ok tc \<longleftrightarrow> nul_free (mt_name tc) \<and> nul_free (mt_arguments_json tc)"

fun response_ok :: "mock_response \<Rightarrow> bool" where
  "response_ok (MOCK_TEXT content) \<longleftrightarrow> nul_free content"
| "response_ok (MOCK_TOOL_CALLS tcs) \<longleftrightarrow> list_all call_ok tcs \<and> length tcs < 2 ^ 31"

definition mock_id :: "string \<Rightarrow> int \<Rightarrow> cstr" where
  "mock_id stem i = take 31 (bytes_of stem @ dec_int i)"

definition call_events :: "string \<Rightarrow> int \<Rightarrow> mock_tool_call \<Rightarrow> ik_stream_event list" where
  "call_events stem i tc =
     [IK_STREAM_TOOL_CALL_START i (Some (mock_id stem i)) (Some (mt_name tc)),
      IK_STREAM_TOOL_CALL_DELTA i (Some (mt_arguments_json tc)), IK_STREAM_TOOL_CALL_DONE i]"

definition last_call :: "string \<Rightarrow> mock_tool_call list \<Rightarrow> ik_content_block" where
  "last_call stem tcs =
     CONTENT_TOOL_CALL (Some (mock_id stem (int (length tcs) - 1))) (Some (mt_name (last tcs)))
       (Some (mt_arguments_json (last tcs))) None"

definition mock_response_of :: "ik_content_block list \<Rightarrow> ik_finish_reason \<Rightarrow> ik_response" where
  "mock_response_of blocks reason = \<lparr>rs_content_blocks = blocks, rs_finish_reason = reason, rs_usage = no_usage,
     rs_model = Some (bytes_of ''mock''), rs_provider_data = None\<rparr>"

lemma dec_digits_nul_free: "0 \<notin> set (dec_digits n)"
proof (induction n rule: dec_digits.induct)
  case (1 n)
  have "(0x30 + of_nat k :: byte) \<noteq> 0" if "k < 10" for k
  proof -
    have "k \<in> {0, 1, 2, 3, 4, 5, 6, 7, 8, 9}" using that by auto
    then show ?thesis by auto
  qed
  then show ?case using 1 by (subst dec_digits.simps) (auto simp: Let_def)
qed

lemma mock_id_nul_free: "nul_free (bytes_of stem) \<Longrightarrow> nul_free (mock_id stem i)"
  using dec_digits_nul_free
  by (auto simp: mock_id_def nul_free_def dec_int_def dest!: in_set_takeD)

lemma to_int32_id: "in_int32 i \<Longrightarrow> to_int32 i = i"
  by (simp add: to_int32_def in_int32_def sint_sbintrunc' signed_take_bit_int_eq_self)

lemma bytes_nul_free: "nul_free (bytes_of s) \<longleftrightarrow> list_all (\<lambda>c. of_char c \<noteq> (0 :: byte)) s"
  by (auto simp: nul_free_def bytes_of_def list_all_iff)

lemmas doc_simps = str_member_of_def int32_member_of_def obj_member_of_def arr_member_of_def m_defs c_string_id


lemma number_calls_names:
  "(\<And>i tc. list_all P (f i tc)) \<Longrightarrow> list_all P (number_calls f i tcs)"
  by (induction tcs arbitrary: i) simp_all


abbreviation named :: "string \<times> json \<Rightarrow> byte list option \<times> json" where
  "named \<equiv> \<lambda>(n, v). (Some (bytes_of n), v)"

text \<open>The events of several calls, where those of one call are known.\<close>

lemma number_calls_docs:
  assumes step: "\<And>i tc c. call_ok tc \<Longrightarrow> in_int32 i \<Longrightarrow> P c \<Longrightarrow>
      handle_docs doc (map named (f i tc)) c = Inr (called i tc, g i tc)"
    and P: "\<And>i tc. P (called i tc)"
  shows "tcs \<noteq> [] \<Longrightarrow> list_all call_ok tcs \<Longrightarrow> 0 \<le> i \<Longrightarrow> i + int (length tcs) \<le> 2 ^ 31 \<Longrightarrow> P c \<Longrightarrow>
   handle_docs doc (map named (number_calls f i tcs)) c
     = Inr (called (i + int (length tcs) - 1) (last tcs), number_calls g i tcs)"
proof (induction tcs arbitrary: i c)
  case (Cons tc tcs)
  have "in_int32 i" using Cons.prems(3,4) by (simp add: in_int32_def)
  then have 1: "handle_docs doc (map named (f i tc)) c = Inr (called i tc, g i tc)"
    using step Cons.prems(2,5) by simp
  show ?case
  proof (cases "tcs = []")
    case True
    then show ?thesis using 1 by (simp add: handle_docs_append)
  next
    case False
    then have "handle_docs doc (map named (number_calls f (i + 1) tcs)) (called i tc)
        = Inr (called (i + int (length (tc # tcs)) - 1) (last (tc # tcs)), number_calls g (i + 1) tcs)"
      using Cons.IH [OF False, of "i + 1" "called i tc"] Cons.prems(2-4) P by (auto simp: algebra_simps)
    then show ?thesis using 1 by (simp add: handle_docs_append)
  qed
qed simp

subsection \<open>Anthropic\<close>

fun anthropic_outcome :: "mock_response \<Rightarrow> ik_stream_event list \<times> ik_response" where
  "anthropic_outcome (MOCK_TEXT content) =
     ([IK_STREAM_START (Some (bytes_of ''mock'')), IK_STREAM_TEXT_DELTA 0 (Some content), IK_STREAM_DONE IK_FINISH_STOP no_usage],
      mock_response_of [] IK_FINISH_STOP)"
| "anthropic_outcome (MOCK_TOOL_CALLS tcs) =
     (IK_STREAM_START (Some (bytes_of ''mock'')) # number_calls (call_events ''toolu_mock_'') 0 tcs
        @ [IK_STREAM_DONE IK_FINISH_TOOL_USE no_usage],
      mock_response_of [last_call ''toolu_mock_'' tcs] IK_FINISH_TOOL_USE)"

definition anthropic_started :: ik_anthropic_stream_ctx where
  "anthropic_started = ik_anthropic_stream_ctx_create\<lparr>an_model := Some (bytes_of ''mock'')\<rparr>"

lemma to_int32_0 [simp]: "to_int32 0 = 0"
  by (simp add: to_int32_id in_int32_def)

lemma anthropic_start_doc:
  "anthropic_doc (Some (bytes_of ''message_start'')) build_message_start ik_anthropic_stream_ctx_create
   = Inr (anthropic_started, [IK_STREAM_START (Some (bytes_of ''mock''))])"
  by (simp add: anthropic_doc_def ik_anthropic_stream_process_event_def build_message_start_def anthropic_started_def
      ik_anthropic_process_message_start_def doc_simps bytes_of_def nul_free_def set_input_tokens_def Let_def
      ik_anthropic_stream_ctx_create_def no_usage_def)

lemma anthropic_end_docs:
  assumes "an_usage c = no_usage" and "reason = ''end_turn'' \<or> reason = ''tool_use''"
  shows "handle_docs anthropic_doc [named (''message_delta'', build_message_delta reason), named (''message_stop'', JObj [])] c
   = Inr (c\<lparr>an_finish_reason := ik_anthropic_map_finish_reason (bytes_of reason)\<rparr>,
       [IK_STREAM_DONE (ik_anthropic_map_finish_reason (bytes_of reason)) no_usage])"
  using assms
  by (auto simp: anthropic_doc_def ik_anthropic_stream_process_event_def build_message_delta_def
      ik_anthropic_process_message_delta_def doc_simps bytes_of_def nul_free_def Let_def
      ik_anthropic_process_message_stop_def no_usage_def add32_def in_int32_def)

lemma anthropic_text_docs:
  assumes "nul_free content"
  shows "handle_docs anthropic_doc (map named [(''content_block_start'', build_text_block_start 0),
      (''content_block_delta'', build_text_delta 0 content), (''content_block_stop'', build_block_stop 0)]) anthropic_started
    = Inr (anthropic_started, [IK_STREAM_TEXT_DELTA 0 (Some content)])"
  using assms
  by (simp add: anthropic_doc_def ik_anthropic_stream_process_event_def build_text_block_start_def build_text_delta_def
      build_block_stop_def doc_simps bytes_of_def ik_anthropic_process_content_block_start_def
      ik_anthropic_process_content_block_delta_def ik_anthropic_process_content_block_stop_def process_text_delta_def
      Let_def anthropic_started_def ik_anthropic_stream_ctx_create_def nul_free_def)

definition anthropic_called :: "int \<Rightarrow> mock_tool_call \<Rightarrow> ik_anthropic_stream_ctx" where
  "anthropic_called i tc = anthropic_started\<lparr>an_current_block_type := IK_CONTENT_TOOL_CALL,
     an_current_tool_id := Some (mock_id ''toolu_mock_'' i), an_current_tool_name := Some (mt_name tc),
     an_current_tool_args := Some (mt_arguments_json tc)\<rparr>"

lemma anthropic_call_docs:
  assumes "call_ok tc" and "in_int32 i" and "c = anthropic_started \<or> (\<exists>j t. c = anthropic_called j t)"
  shows "handle_docs anthropic_doc (map named (anthropic_tool_events i tc)) c
    = Inr (anthropic_called i tc, call_events ''toolu_mock_'' i tc)"
proof -
  have i: "nul_free (mock_id ''toolu_mock_'' i)" by (intro mock_id_nul_free) (simp add: bytes_nul_free)
  have m: "build_tool_block_start i (mt_name tc) = JObj [int_m ''index'' i, val_m ''content_block''
      (JObj [str_m ''type'' (bytes_of ''tool_use''), str_m ''id'' (mock_id ''toolu_mock_'' i), str_m ''name'' (mt_name tc)])]"
    by (simp add: build_tool_block_start_def mock_id_def)
  show ?thesis
    using assms i to_int32_id [OF assms(2)]
    by (auto simp: anthropic_tool_events_def m call_ok_def anthropic_doc_def ik_anthropic_stream_process_event_def
        build_tool_delta_def build_block_stop_def doc_simps bytes_of_def nul_free_def append_to_def start_tool_block_def
        ik_anthropic_process_content_block_start_def ik_anthropic_process_content_block_delta_def
        ik_anthropic_process_content_block_stop_def process_input_json_delta_def Let_def
        anthropic_started_def anthropic_called_def ik_anthropic_stream_ctx_create_def call_events_def)
qed

lemma anthropic_calls_docs:
  "tcs \<noteq> [] \<Longrightarrow> list_all call_ok tcs \<Longrightarrow> length tcs < 2 ^ 31 \<Longrightarrow>
   handle_docs anthropic_doc (map named (number_calls anthropic_tool_events 0 tcs)) anthropic_started
     = Inr (anthropic_called (int (length tcs) - 1) (last tcs), number_calls (call_events ''toolu_mock_'') 0 tcs)"
  using number_calls_docs [of "\<lambda>c. c = anthropic_started \<or> (\<exists>j t. c = anthropic_called j t)" anthropic_doc
      anthropic_tool_events anthropic_called "call_events ''toolu_mock_''" tcs 0 anthropic_started] anthropic_call_docs
  by auto

fun anthropic_body :: "mock_response \<Rightarrow> (string \<times> json) list" where
  "anthropic_body (MOCK_TEXT content) = [(''content_block_start'', build_text_block_start 0),
     (''content_block_delta'', build_text_delta 0 content), (''content_block_stop'', build_block_stop 0)]"
| "anthropic_body (MOCK_TOOL_CALLS tcs) = number_calls anthropic_tool_events 0 tcs"

fun anthropic_reason :: "mock_response \<Rightarrow> string" where
  "anthropic_reason (MOCK_TEXT content) = ''end_turn''"
| "anthropic_reason (MOCK_TOOL_CALLS tcs) = ''tool_use''"

abbreviation anthropic_events :: "mock_response \<Rightarrow> (string \<times> json) list" where
  "anthropic_events r \<equiv> [(''message_start'', build_message_start)] @ anthropic_body r
     @ [(''message_delta'', build_message_delta (anthropic_reason r))]"

lemma anthropic_served:
  assumes "handle_request J W stale (Some (bytes_of ''/v1/messages'', body)) (r # q) = Inr (q1, Sse_Reply out)"
  shows "q1 = q" and "res_bind (write_events W (anthropic_events r))
      (\<lambda>out. Inr (out @ write_sse_event ''message_stop'' (bytes_of ''{}''))) = Inr out"
    and "r \<noteq> MOCK_TOOL_CALLS []"
  using assms
  by (auto simp: handle_request_def serve_def mock_queue_pop_def bytes_of_def anthropic_serialize_text_def
      anthropic_serialize_tool_calls_def check_assert_def res_bind_Inr_iff split: mock_response.splits if_splits)

lemma anthropic_body_docs:
  assumes "response_ok r" and "r \<noteq> MOCK_TOOL_CALLS []"
  shows "\<exists>c. handle_docs anthropic_doc (map named (anthropic_body r)) anthropic_started
      = Inr (c, butlast (tl (fst (anthropic_outcome r)))) \<and> an_usage c = no_usage
      \<and> ik_anthropic_stream_build_response (c\<lparr>an_finish_reason := ik_anthropic_map_finish_reason (bytes_of (anthropic_reason r))\<rparr>)
        = snd (anthropic_outcome r)"
proof (cases r)
  case (MOCK_TEXT content)
  then have "handle_docs anthropic_doc (map named (anthropic_body r)) anthropic_started
      = Inr (anthropic_started, butlast (tl (fst (anthropic_outcome r))))"
    using anthropic_text_docs [of content] assms(1) by simp
  then show ?thesis
    using MOCK_TEXT by (intro exI) (auto simp: anthropic_started_def ik_anthropic_stream_ctx_create_def
        ik_anthropic_stream_build_response_def mock_response_of_def ik_anthropic_map_finish_reason_def)
next
  case (MOCK_TOOL_CALLS tcs)
  then have "handle_docs anthropic_doc (map named (anthropic_body r)) anthropic_started
      = Inr (anthropic_called (int (length tcs) - 1) (last tcs), butlast (tl (fst (anthropic_outcome r))))"
    using anthropic_calls_docs [of tcs] assms by simp
  then show ?thesis
    using MOCK_TOOL_CALLS by (intro exI) (auto simp: anthropic_started_def ik_anthropic_stream_ctx_create_def
        anthropic_called_def ik_anthropic_stream_build_response_def mock_response_of_def last_call_def
        ik_anthropic_map_finish_reason_def bytes_of_def)
qed

lemma anthropic_docs:
  assumes "response_ok r" and "r \<noteq> MOCK_TOOL_CALLS []"
  shows "\<exists>c. handle_docs anthropic_doc (map named (anthropic_events r @ [(''message_stop'', JObj [])])) ik_anthropic_stream_ctx_create
      = Inr (c, fst (anthropic_outcome r)) \<and> ik_anthropic_stream_build_response c = snd (anthropic_outcome r)"
proof -
  let ?f = "ik_anthropic_map_finish_reason (bytes_of (anthropic_reason r))"
  obtain c where c: "handle_docs anthropic_doc (map named (anthropic_body r)) anthropic_started
      = Inr (c, butlast (tl (fst (anthropic_outcome r))))" "an_usage c = no_usage"
    "ik_anthropic_stream_build_response (c\<lparr>an_finish_reason := ?f\<rparr>) = snd (anthropic_outcome r)"
    using anthropic_body_docs [OF assms] by blast
  have "anthropic_reason r = ''end_turn'' \<or> anthropic_reason r = ''tool_use''" by (cases r) simp_all
  note e = anthropic_end_docs [OF c(2) this]
  have "IK_STREAM_START (Some (bytes_of ''mock'')) # butlast (tl (fst (anthropic_outcome r))) @ [IK_STREAM_DONE ?f no_usage]
      = fst (anthropic_outcome r)"
    by (cases r) (simp_all add: ik_anthropic_map_finish_reason_def bytes_of_def butlast_append)
  then show ?thesis
    using anthropic_start_doc c e by (simp add: handle_docs_append)
qed

definition ok_completion :: "ik_response \<Rightarrow> ik_provider_completion" where
  "ok_completion response = \<lparr>co_success = True, co_http_status = 200, co_response = Some response,
     co_error_category = IK_ERR_CAT_UNKNOWN, co_error_message = None, co_retry_after_ms = - 1\<rparr>"

lemma mock_anthropic_delivered:
  assumes "json_wire J W" and "response_ok r"
    and "handle_request J W stale (Some (bytes_of ''/v1/messages'', body)) (r # q) = Inr (q1, Sse_Reply (concat chunks))"
    and "length (concat chunks) < 2 ^ 31"
  shows "q1 = q \<and> returns (deliver (ik_anthropic_stream_write_cb J) chunks anthropic_active_stream) (\<lambda>(st, evs).
      evs = fst (anthropic_outcome r)
      \<and> anthropic_info_read (Some (ik_anthropic_stream_completion_cb 200 st))
        = (None, Some (ok_completion (snd (anthropic_outcome r)))))"
proof -
  note served = anthropic_served [OF assms(3)]
  have "list_all (\<lambda>(n, v). clean (bytes_of n)) (anthropic_body r)"
    by (cases r) (auto simp: bytes_clean anthropic_tool_events_def intro!: number_calls_names)
  then have "list_all (\<lambda>(n, v). clean (bytes_of n)) (anthropic_events r)" by (simp add: bytes_clean)
  then obtain xs where xs: "concat chunks = concat (map frame xs)"
    "list_all2 (carries J) xs (map named (anthropic_events r @ [(''message_stop'', JObj [])]))"
    using closed_frames [OF assms(1) _ _ served(2)] by (auto simp: bytes_clean)
  obtain c where c: "handle_docs anthropic_doc (map named (anthropic_events r @ [(''message_stop'', JObj [])]))
      ik_anthropic_stream_ctx_create = Inr (c, fst (anthropic_outcome r))"
    "ik_anthropic_stream_build_response c = snd (anthropic_outcome r)"
    using anthropic_docs [OF assms(2) served(3)] by blast
  have a: "as_sse_parser anthropic_active_stream = ik_sse_parser_create"
    "as_stream_ctx anthropic_active_stream = ik_anthropic_stream_ctx_create"
    by (simp_all add: anthropic_active_stream_def)
  obtain p where "deliver (ik_anthropic_stream_write_cb J) chunks anthropic_active_stream
      = Inr (anthropic_active_stream\<lparr>as_sse_parser := p, as_stream_ctx := c\<rparr>, fst (anthropic_outcome r))"
    using an.stream_delivered [OF TrueI a(1) xs(2) c(1) [folded a(2)] xs(1) assms(4)] by blast
  then show ?thesis
    using served(1) c(2)
    by (simp add: anthropic_info_read_def ik_anthropic_stream_completion_cb_def stream_completion_def ok_completion_def)
qed

text \<open>C10. What the scripted server has queued arrives over the Anthropic API: however the reply is cut into chunks,
  a text gives the start, one text event and the end, and the response without blocks; tool calls give the
  start, arguments and end of every call in their order, and a response with the last of the calls only.\<close>

theorem mock_anthropic:
  assumes "json_wire J W" and "response_ok r"
    and "handle_request J W stale (Some (bytes_of ''/v1/messages'', body)) (r # q) = Inr (q1, Sse_Reply (concat chunks))"
    and "length (concat chunks) < 2 ^ 31"
  shows "q1 = q \<and> returns (deliver (ik_anthropic_stream_write_cb J) chunks anthropic_active_stream) (\<lambda>(st, evs).
      evs = fst (anthropic_outcome r)
      \<and> anthropic_info_read (Some (ik_anthropic_stream_completion_cb 200 st))
        = (None, Some (ok_completion (snd (anthropic_outcome r)))))"
  using assms by (rule mock_anthropic_delivered)


subsection \<open>OpenAI Responses\<close>

fun responses_outcome :: "mock_response \<Rightarrow> ik_stream_event list \<times> ik_response" where
  "responses_outcome (MOCK_TEXT content) =
     ([IK_STREAM_START (Some (bytes_of ''mock'')), IK_STREAM_TEXT_DELTA 0 (Some content)],
      mock_response_of [] IK_FINISH_UNKNOWN)"
| "responses_outcome (MOCK_TOOL_CALLS tcs) =
     (IK_STREAM_START (Some (bytes_of ''mock'')) # number_calls (call_events ''call_mock_'') 0 tcs,
      mock_response_of [last_call ''call_mock_'' tcs] IK_FINISH_TOOL_USE)"

definition responses_started :: ik_openai_responses_stream_ctx where
  "responses_started = ik_openai_responses_stream_ctx_create\<lparr>ox_model := Some (bytes_of ''mock''), ox_started := True\<rparr>"

definition responses_called :: "int \<Rightarrow> mock_tool_call \<Rightarrow> ik_openai_responses_stream_ctx" where
  "responses_called i tc = responses_started\<lparr>ox_tool_call_index := i,
     ox_current_tool_id := Some (mock_id ''call_mock_'' i), ox_current_tool_name := Some (mt_name tc),
     ox_current_tool_args := Some (mt_arguments_json tc)\<rparr>"

lemma responses_start_doc:
  "responses_doc (Some (bytes_of ''response.created'')) build_responses_created ik_openai_responses_stream_ctx_create
   = Inr (responses_started, [IK_STREAM_START (Some (bytes_of ''mock''))])"
  by (simp add: responses_doc_def ik_openai_responses_stream_process_event_def build_responses_created_def
      responses_started_def ik_openai_responses_handle_response_created_def doc_simps bytes_of_def nul_free_def
      ik_openai_maybe_emit_start_def ik_openai_responses_stream_ctx_create_def)

lemma responses_end_doc: "responses_doc (Some (bytes_of ''response.completed'')) v c = Inr (c, [])"
  by (simp add: responses_doc_def ik_openai_responses_stream_process_event_def bytes_of_def)

lemma responses_text_doc:
  assumes "nul_free content"
  shows "responses_doc (Some (bytes_of ''response.output_text.delta'')) (build_responses_text_delta content) responses_started
    = Inr (responses_started, [IK_STREAM_TEXT_DELTA 0 (Some content)])"
  using assms
  by (simp add: responses_doc_def ik_openai_responses_stream_process_event_def build_responses_text_delta_def
      ik_openai_responses_handle_output_text_delta_def doc_simps bytes_of_def ik_openai_maybe_emit_start_def
      responses_started_def)

lemma responses_call_docs:
  assumes "call_ok tc" and "in_int32 i" and "c = responses_started \<or> (\<exists>j t. c = responses_called j t)"
  shows "handle_docs responses_doc (map named (responses_tool_events i tc)) c
    = Inr (responses_called i tc, call_events ''call_mock_'' i tc)"
proof -
  have i: "nul_free (mock_id ''call_mock_'' i)" by (intro mock_id_nul_free) (simp add: bytes_nul_free)
  have m: "responses_tool_events i tc = [(''response.output_item.added'', JObj [int_m ''output_index'' i,
         val_m ''item'' (JObj [str_m ''type'' (bytes_of ''function_call''),
           str_m ''call_id'' (mock_id ''call_mock_'' i), str_m ''name'' (mt_name tc)])]),
      (''response.function_call_arguments.delta'', JObj [int_m ''output_index'' i, str_m ''delta'' (mt_arguments_json tc)]),
      (''response.output_item.done'', JObj [int_m ''output_index'' i])]"
    by (simp add: responses_tool_events_def mock_id_def)
  show ?thesis
    using assms i to_int32_id [OF assms(2)]
    by (auto simp: m call_ok_def responses_doc_def ik_openai_responses_stream_process_event_def
        doc_simps bytes_of_def nul_free_def append_to_def
        ik_openai_responses_handle_output_item_added_def ik_openai_maybe_end_tool_call_def ik_openai_maybe_emit_start_def
        ik_openai_responses_handle_function_call_arguments_delta_def ik_openai_responses_handle_output_item_done_def Let_def
        responses_started_def responses_called_def ik_openai_responses_stream_ctx_create_def call_events_def)
qed

fun responses_body :: "mock_response \<Rightarrow> (string \<times> json) list" where
  "responses_body (MOCK_TEXT content) = [(''response.output_text.delta'', build_responses_text_delta content)]"
| "responses_body (MOCK_TOOL_CALLS tcs) = number_calls responses_tool_events 0 tcs"

abbreviation responses_events :: "mock_response \<Rightarrow> (string \<times> json) list" where
  "responses_events r \<equiv> [(''response.created'', build_responses_created)] @ responses_body r"

lemma responses_served:
  assumes "handle_request J W stale (Some (bytes_of ''/v1/responses'', body)) (r # q) = Inr (q1, Sse_Reply out)"
  shows "q1 = q" and "res_bind (write_events W (responses_events r))
      (\<lambda>out. Inr (out @ write_sse_event ''response.completed'' (bytes_of ''{}''))) = Inr out"
    and "r \<noteq> MOCK_TOOL_CALLS []"
  using assms
  by (auto simp: handle_request_def serve_def mock_queue_pop_def bytes_of_def openai_responses_serialize_text_def
      openai_responses_serialize_tool_calls_def check_assert_def res_bind_Inr_iff split: mock_response.splits if_splits)

lemma responses_docs:
  assumes "response_ok r" and "r \<noteq> MOCK_TOOL_CALLS []"
  shows "\<exists>c. handle_docs responses_doc (map named (responses_events r @ [(''response.completed'', JObj [])]))
      ik_openai_responses_stream_ctx_create = Inr (c, fst (responses_outcome r))
      \<and> ik_openai_responses_stream_build_response c = snd (responses_outcome r)"
proof (cases r)
  case (MOCK_TEXT content)
  then show ?thesis
    using responses_text_doc [of content] assms(1) responses_start_doc responses_end_doc
    by (simp add: ik_openai_responses_stream_build_response_def mock_response_of_def responses_started_def
        ik_openai_responses_stream_ctx_create_def)
next
  case (MOCK_TOOL_CALLS tcs)
  let ?c = "responses_called (int (length tcs) - 1) (last tcs)"
  have "handle_docs responses_doc (map named (number_calls responses_tool_events 0 tcs)) responses_started
      = Inr (?c, number_calls (call_events ''call_mock_'') 0 tcs)"
    using number_calls_docs [of "\<lambda>c. c = responses_started \<or> (\<exists>j t. c = responses_called j t)" responses_doc
        responses_tool_events responses_called "call_events ''call_mock_''" tcs 0 responses_started] responses_call_docs assms MOCK_TOOL_CALLS
    by auto
  moreover have "ik_openai_responses_stream_build_response ?c = snd (responses_outcome r)"
    using MOCK_TOOL_CALLS by (simp add: ik_openai_responses_stream_build_response_def mock_response_of_def last_call_def
        responses_called_def responses_started_def ik_openai_responses_stream_ctx_create_def)
  ultimately show ?thesis
    using MOCK_TOOL_CALLS by (simp add: handle_docs_append responses_start_doc responses_end_doc)
qed

lemma mock_responses_delivered:
  assumes "json_wire J W" and "response_ok r"
    and "handle_request J W stale (Some (bytes_of ''/v1/responses'', body)) (r # q) = Inr (q1, Sse_Reply (concat chunks))"
    and "length (concat chunks) < 2 ^ 31"
  shows "q1 = q \<and> returns (deliver (ik_openai_stream_write_callback J) chunks (openai_request_ctx True)) (\<lambda>(st, evs).
      evs = fst (responses_outcome r)
      \<and> ik_openai_stream_completion_handler True 200 None None st = ok_completion (snd (responses_outcome r)))"
proof -
  note served = responses_served [OF assms(3)]
  have "list_all (\<lambda>(n, v). clean (bytes_of n)) (responses_body r)"
    by (cases r) (auto simp: bytes_clean responses_tool_events_def intro!: number_calls_names)
  then have "list_all (\<lambda>(n, v). clean (bytes_of n)) (responses_events r)" by (simp add: bytes_clean)
  then obtain xs where xs: "concat chunks = concat (map frame xs)"
    "list_all2 (carries J) xs (map named (responses_events r @ [(''response.completed'', JObj [])]))"
    using closed_frames [OF assms(1) _ _ served(2)] by (auto simp: bytes_clean)
  obtain c where c: "handle_docs responses_doc (map named (responses_events r @ [(''response.completed'', JObj [])]))
      ik_openai_responses_stream_ctx_create = Inr (c, fst (responses_outcome r))"
    "ik_openai_responses_stream_build_response c = snd (responses_outcome r)"
    using responses_docs [OF assms(2) served(3)] by blast
  let ?r = "openai_request_ctx True"
  have a: "is_responses (sr_parser_ctx ?r)" "responses_parser (sr_parser_ctx ?r) = ik_sse_parser_create"
    "responses_ctx (sr_parser_ctx ?r) = ik_openai_responses_stream_ctx_create"
    by (simp_all add: openai_request_ctx_def)
  obtain p where "deliver (ik_openai_stream_write_callback J) chunks ?r
      = Inr (?r\<lparr>sr_parser_ctx := Responses_Parser p c\<rparr>, fst (responses_outcome r))"
    using ox.stream_delivered [OF a(1,2) xs(2) c(1) [folded a(3)] xs(1) assms(4)] by blast
  then show ?thesis
    using served(1) c(2) by (simp add: ik_openai_stream_completion_handler_def ok_completion_def)
qed

text \<open>C14. What the scripted server has queued arrives over the OpenAI Responses API: however the reply is cut into
  chunks, a text gives the start and one text event, and tool calls the start, arguments and end of every call;
  no event tells that the stream is done, the response to a text has no finish reason, and of several calls it has
  the last only.\<close>

theorem mock_responses:
  assumes "json_wire J W" and "response_ok r"
    and "handle_request J W stale (Some (bytes_of ''/v1/responses'', body)) (r # q) = Inr (q1, Sse_Reply (concat chunks))"
    and "length (concat chunks) < 2 ^ 31"
  shows "q1 = q \<and> returns (deliver (ik_openai_stream_write_callback J) chunks (openai_request_ctx True)) (\<lambda>(st, evs).
      evs = fst (responses_outcome r)
      \<and> ik_openai_stream_completion_handler True 200 None None st = ok_completion (snd (responses_outcome r)))"
  using assms by (rule mock_responses_delivered)


subsection \<open>Google\<close>

text \<open>The calls arrive as parts of one chunk, of which the first starts a call and the others continue it.\<close>

fun google_outcome :: "(nat \<Rightarrow> nat \<Rightarrow> nat) \<Rightarrow> mock_response \<Rightarrow> ik_stream_event list \<times> ik_response" where
  "google_outcome R (MOCK_TEXT content) =
     (IK_STREAM_START (Some (bytes_of ''mock'')) # (if content = [] then [] else [IK_STREAM_TEXT_DELTA 0 (Some content)])
        @ [IK_STREAM_DONE IK_FINISH_STOP no_usage],
      mock_response_of [] IK_FINISH_STOP)"
| "google_outcome R (MOCK_TOOL_CALLS tcs) =
     (let i = ik_google_generate_tool_id (R 0); name = mt_name (hd tcs)
      in ([IK_STREAM_START (Some (bytes_of ''mock'')), IK_STREAM_TOOL_CALL_START 0 (Some i) (Some name)]
            @ map (\<lambda>tc. IK_STREAM_TOOL_CALL_DELTA 0 (Some (mt_arguments_json tc))) tcs
            @ [IK_STREAM_TOOL_CALL_DONE 0, IK_STREAM_DONE IK_FINISH_STOP no_usage],
          mock_response_of [CONTENT_TOOL_CALL (Some i) (Some name) (Some (concat (map mt_arguments_json tcs))) None]
            IK_FINISH_TOOL_USE))"

text \<open>The arguments of the calls in the queue are texts that the writer has written, as \<open>mock_queue_load\<close> leaves them.\<close>

fun written :: "yyjson_writer \<Rightarrow> mock_response \<Rightarrow> bool" where
  "written W (MOCK_TEXT content) \<longleftrightarrow> True"
| "written W (MOCK_TOOL_CALLS tcs) \<longleftrightarrow> list_all (\<lambda>tc. \<exists>v. W v = Some (mt_arguments_json tc)) tcs"

definition google_started :: ik_google_stream_ctx where
  "google_started = ik_google_stream_ctx_create\<lparr>gg_model := Some (bytes_of ''mock''), gg_started := True,
     gg_finish_reason := IK_FINISH_STOP\<rparr>"

abbreviation google_first :: "json list \<Rightarrow> json" where
  "google_first parts \<equiv> JObj [val_m ''content'' (JObj [val_m ''parts'' (JArr parts), str_m ''role'' (bytes_of ''model'')]),
     str_m ''finishReason'' (bytes_of ''STOP'')]"

abbreviation google_usage :: json where
  "google_usage \<equiv> JObj [int_m ''promptTokenCount'' 0, int_m ''candidatesTokenCount'' 0, int_m ''totalTokenCount'' 0]"

lemma google_chunk_members:
  "is_obj (google_chunk parts)" "obj_get (google_chunk parts) ''error'' = None"
  "arr_member_of (google_chunk parts) ''candidates'' = Some [google_first parts]"
  "obj_get (google_chunk parts) ''usageMetadata'' = Some google_usage"
  "str_member_of (google_chunk parts) ''modelVersion'' = Some (bytes_of ''mock'')"
  by (simp_all add: google_chunk_def add_usage_metadata_def arr_member_of_def str_member_of_def val_m_def str_m_def
      bytes_of_def nul_free_def)

lemma google_usage_members:
  "int32_member_of google_usage ''promptTokenCount'' = Some 0" "int32_member_of google_usage ''candidatesTokenCount'' = Some 0"
  "int32_member_of google_usage ''thoughtsTokenCount'' = None" "int32_member_of google_usage ''totalTokenCount'' = Some 0"
  by (simp_all add: int32_member_of_def int_m_def bytes_of_def)

lemma google_first_candidate:
  "google_candidate R W (google_first parts) c
   = ik_google_stream_process_parts R W parts (c\<lparr>gg_finish_reason := IK_FINISH_STOP\<rparr>)"
  by (simp add: google_candidate_def doc_simps bytes_of_def nul_free_def ik_google_map_finish_reason_def Let_def)

lemma google_chunk_doc:
  assumes "ik_google_stream_process_parts R W parts google_started = (c, evs)"
    and "ik_google_stream_end_tool_call_if_needed (c\<lparr>gg_usage := no_usage\<rparr>) = (c1, evs1)" and "gg_finish_reason c = IK_FINISH_STOP"
  shows "google_doc R W n (google_chunk parts) ik_google_stream_ctx_create
    = Inr (c1, IK_STREAM_START (Some (bytes_of ''mock'')) # evs @ evs1 @ [IK_STREAM_DONE IK_FINISH_STOP no_usage])"
proof -
  let ?c = "ik_google_stream_ctx_create\<lparr>gg_model := Some (bytes_of ''mock''), gg_started := True\<rparr>"
  have 1: "google_start (google_chunk parts) ik_google_stream_ctx_create = (?c, [IK_STREAM_START (Some (bytes_of ''mock''))])"
    by (simp add: google_start_def google_chunk_members ik_google_stream_ctx_create_def Let_def)
  have 2: "google_candidate R W (google_first parts) ?c = (c, evs)"
    using assms(1) by (simp add: google_first_candidate google_started_def)
  have "gg_finish_reason c1 = IK_FINISH_STOP" "gg_usage c1 = no_usage"
    using assms(2,3) by (auto simp: ik_google_stream_end_tool_call_if_needed_def split: if_splits)
  then have 3: "ik_google_stream_process_usage google_usage c = Inr (c1, evs1 @ [IK_STREAM_DONE IK_FINISH_STOP no_usage])"
    using assms(2)
    by (simp add: ik_google_stream_process_usage_def google_usage_members sub32_def in_int32_def Let_def no_usage_def)
  show ?thesis
    by (simp add: google_doc_def ik_google_stream_process_data_def google_chunk_members 1 2 3)
qed

definition google_calling :: "(nat \<Rightarrow> nat \<Rightarrow> nat) \<Rightarrow> cstr \<Rightarrow> cstr \<Rightarrow> ik_google_stream_ctx" where
  "google_calling R name args = google_started\<lparr>gg_in_tool_call := True, gg_generated := 1,
     gg_current_tool_id := Some (ik_google_generate_tool_id (R 0)), gg_current_tool_name := Some name,
     gg_current_tool_args := Some args\<rparr>"

lemma google_call_members:
  assumes "W v = Some (mt_arguments_json tc)" and "json_wire J W" and "nul_free (mt_name tc)"
  shows "\<exists>f. obj_get (google_call_part J tc) ''functionCall'' = Some f \<and> str_member_of (google_call_part J tc) ''thoughtSignature'' = None
    \<and> str_member_of f ''name'' = Some (mt_name tc) \<and> obj_get f ''args'' = Some v"
proof -
  have "J (mt_arguments_json tc) = Some v" using assms(1,2) by (simp add: json_wire_def json_io_def)
  then show ?thesis using assms(3) by (simp add: google_call_part_def doc_simps bytes_of_def)
qed

lemma google_first_call:
  assumes "W v = Some (mt_arguments_json tc)" and "json_wire J W" and "nul_free (mt_name tc)"
  shows "process_part R W (google_call_part J tc) google_started = (google_calling R (mt_name tc) (mt_arguments_json tc),
     [IK_STREAM_TOOL_CALL_START 0 (Some (ik_google_generate_tool_id (R 0))) (Some (mt_name tc)),
      IK_STREAM_TOOL_CALL_DELTA 0 (Some (mt_arguments_json tc))])"
  using google_call_members [OF assms] assms(1)
  by (auto simp: process_part_def process_function_call_def google_start_tool_def google_started_def google_calling_def
      ik_google_stream_ctx_create_def append_to_def Let_def)

lemma google_next_call:
  assumes "W v = Some (mt_arguments_json tc)" and "json_wire J W" and "nul_free (mt_name tc)"
  shows "process_part R W (google_call_part J tc) (google_calling R name args)
    = (google_calling R name (args @ mt_arguments_json tc), [IK_STREAM_TOOL_CALL_DELTA 0 (Some (mt_arguments_json tc))])"
  using google_call_members [OF assms] assms(1)
  by (auto simp: process_part_def process_function_call_def google_start_tool_def google_started_def google_calling_def
      ik_google_stream_ctx_create_def append_to_def Let_def)

lemma google_next_calls:
  assumes "json_wire J W"
  shows "list_all call_ok tcs \<Longrightarrow> list_all (\<lambda>tc. \<exists>v. W v = Some (mt_arguments_json tc)) tcs \<Longrightarrow>
    ik_google_stream_process_parts R W (map (google_call_part J) tcs) (google_calling R name args)
    = (google_calling R name (args @ concat (map mt_arguments_json tcs)),
       map (\<lambda>tc. IK_STREAM_TOOL_CALL_DELTA 0 (Some (mt_arguments_json tc))) tcs)"
proof (induction tcs arbitrary: args)
  case (Cons tc tcs)
  then obtain v where "W v = Some (mt_arguments_json tc)" by auto
  then show ?case using Cons google_next_call [OF _ assms] by (simp add: call_ok_def)
qed simp


fun google_parts :: "yyjson \<Rightarrow> mock_response \<Rightarrow> json list" where
  "google_parts J (MOCK_TEXT content) = [JObj [str_m ''text'' content]]"
| "google_parts J (MOCK_TOOL_CALLS tcs) = map (google_call_part J) tcs"

lemma google_served:
  assumes "handle_request J W stale (Some (bytes_of ''/models/'' @ path, body)) (r # q) = Inr (q1, Sse_Reply out)"
  shows "q1 = q" and "write_datas W [google_chunk (google_parts J r)] = Inr out" and "r \<noteq> MOCK_TOOL_CALLS []"
  using assms
  by (auto simp: handle_request_def serve_def mock_queue_pop_def bytes_of_def google_serialize_text_def build_text_chunk_def
      build_tool_calls_chunk_def google_serialize_tool_calls_def check_assert_def res_bind_Inr_iff
      split: mock_response.splits if_splits)

lemma google_docs:
  assumes "json_wire J W" and "response_ok r" and "written W r" and "r \<noteq> MOCK_TOOL_CALLS []"
  shows "\<exists>c. google_doc R W n (google_chunk (google_parts J r)) ik_google_stream_ctx_create = Inr (c, fst (google_outcome R r))
    \<and> ik_google_stream_build_response c = snd (google_outcome R r)"
proof (cases r)
  case (MOCK_TEXT content)
  have "ik_google_stream_process_parts R W (google_parts J r) google_started
      = (google_started, if content = [] then [] else [IK_STREAM_TEXT_DELTA 0 (Some content)])"
    using assms(2) MOCK_TEXT
    by (simp add: process_part_def doc_simps bytes_of_def process_text_part_def ik_google_stream_end_tool_call_if_needed_def
        google_started_def ik_google_stream_ctx_create_def Let_def)
  moreover have "ik_google_stream_end_tool_call_if_needed (google_started\<lparr>gg_usage := no_usage\<rparr>) = (google_started, [])"
    "gg_finish_reason google_started = IK_FINISH_STOP"
    by (simp_all add: ik_google_stream_end_tool_call_if_needed_def google_started_def ik_google_stream_ctx_create_def)
  moreover have "ik_google_stream_build_response google_started = mock_response_of [] IK_FINISH_STOP"
    by (simp add: ik_google_stream_build_response_def google_started_def ik_google_stream_ctx_create_def mock_response_of_def)
  ultimately show ?thesis using google_chunk_doc [of R W "google_parts J r"] MOCK_TEXT by simp
next
  case (MOCK_TOOL_CALLS tcs)
  then obtain tc rest where tcs: "tcs = tc # rest" using assms(4) by (cases tcs) simp_all
  then obtain v where v: "W v = Some (mt_arguments_json tc)" using assms(3) MOCK_TOOL_CALLS by auto
  let ?c = "google_calling R (mt_name tc) (concat (map mt_arguments_json tcs))"
  let ?d = "?c\<lparr>gg_in_tool_call := False\<rparr>"
  have "ik_google_stream_process_parts R W (google_parts J r) google_started
      = (?c, IK_STREAM_TOOL_CALL_START 0 (Some (ik_google_generate_tool_id (R 0))) (Some (mt_name tc))
           # map (\<lambda>tc. IK_STREAM_TOOL_CALL_DELTA 0 (Some (mt_arguments_json tc))) tcs)"
    using google_first_call [OF v assms(1)] google_next_calls [OF assms(1), of rest] assms(2,3) MOCK_TOOL_CALLS tcs
    by (simp add: call_ok_def)
  moreover have "ik_google_stream_end_tool_call_if_needed (?c\<lparr>gg_usage := no_usage\<rparr>) = (?d, [IK_STREAM_TOOL_CALL_DONE 0])"
    "gg_finish_reason ?c = IK_FINISH_STOP"
    by (simp_all add: ik_google_stream_end_tool_call_if_needed_def google_calling_def google_started_def
        ik_google_stream_ctx_create_def)
  moreover have "ik_google_stream_build_response ?d = snd (google_outcome R r)"
    using MOCK_TOOL_CALLS tcs
    by (simp add: ik_google_stream_build_response_def google_calling_def google_started_def ik_google_stream_ctx_create_def
        mock_response_of_def Let_def)
  ultimately show ?thesis
    using google_chunk_doc [of R W "google_parts J r"] MOCK_TOOL_CALLS tcs by (simp add: Let_def)
qed

lemma mock_google_delivered:
  assumes "json_wire J W" and "response_ok r" and "written W r"
    and "handle_request J W stale (Some (bytes_of ''/models/'' @ path, body)) (r # q) = Inr (q1, Sse_Reply (concat chunks))"
    and "length (concat chunks) < 2 ^ 31"
  shows "q1 = q \<and> returns (deliver (ik_google_stream_write_cb R J W) chunks google_active_stream) (\<lambda>(st, evs).
      evs = fst (google_outcome R r)
      \<and> google_info_read (Some (ik_google_stream_completion_cb 200 st))
        = (None, Some (ok_completion (snd (google_outcome R r)))))"
proof -
  note served = google_served [OF assms(4)]
  obtain xs where xs: "concat chunks = concat (map frame xs)"
    "list_all2 (carries J) xs (map (Pair None) [google_chunk (google_parts J r)])"
    using write_datas_frames [OF assms(1) served(2)] by blast
  obtain c where c: "google_doc R W None (google_chunk (google_parts J r)) ik_google_stream_ctx_create
      = Inr (c, fst (google_outcome R r))" "ik_google_stream_build_response c = snd (google_outcome R r)"
    using google_docs [OF assms(1-3) served(3)] by blast
  have a: "gs_sse_parser google_active_stream = ik_sse_parser_create"
    "handle_docs (google_doc R W) (map (Pair None) [google_chunk (google_parts J r)]) (gs_stream_ctx google_active_stream)
     = Inr (c, fst (google_outcome R r))"
    using c(1) by (simp_all add: google_active_stream_def)
  obtain p where "deliver (ik_google_stream_write_cb R J W) chunks google_active_stream
      = Inr (google_active_stream\<lparr>gs_sse_parser := p, gs_stream_ctx := c\<rparr>, fst (google_outcome R r))"
    using gg.stream_delivered [OF TrueI a(1) xs(2) a(2) xs(1) assms(5)] by blast
  then show ?thesis
    using served(1) c(2)
    by (simp add: google_info_read_def ik_google_stream_completion_cb_def stream_completion_def ok_completion_def)
qed

text \<open>C15. What the scripted server has queued arrives over the Google API: however the reply is cut into chunks, a
  text gives the start, one text event unless it is empty, and the end. Of several tool calls only the first is
  started; the arguments of all of them are joined into one text and given to that call.\<close>

theorem mock_google:
  assumes "json_wire J W" and "response_ok r" and "written W r"
    and "handle_request J W stale (Some (bytes_of ''/models/'' @ path, body)) (r # q) = Inr (q1, Sse_Reply (concat chunks))"
    and "length (concat chunks) < 2 ^ 31"
  shows "q1 = q \<and> returns (deliver (ik_google_stream_write_cb R J W) chunks google_active_stream) (\<lambda>(st, evs).
      evs = fst (google_outcome R r)
      \<and> google_info_read (Some (ik_google_stream_completion_cb 200 st))
        = (None, Some (ok_completion (snd (google_outcome R r)))))"
  using assms by (rule mock_google_delivered)


subsection \<open>OpenAI Chat Completions\<close>

fun chat_outcome :: "mock_response \<Rightarrow> ik_stream_event list \<times> ik_response" where
  "chat_outcome (MOCK_TEXT content) =
     ([IK_STREAM_START (Some (bytes_of ''mock'')), IK_STREAM_TEXT_DELTA 0 (Some content), IK_STREAM_DONE IK_FINISH_STOP no_usage],
      mock_response_of [] IK_FINISH_STOP)"
| "chat_outcome (MOCK_TOOL_CALLS tcs) =
     ([IK_STREAM_DONE IK_FINISH_TOOL_USE no_usage], mock_response_of [] IK_FINISH_TOOL_USE)"

fun chat_texts ::
  "yyjson \<Rightarrow> cstr list \<Rightarrow> ik_openai_chat_stream_ctx \<Rightarrow> ik_openai_chat_stream_ctx \<times> ik_stream_event list" where
  "chat_texts J [] c = (c, [])"
| "chat_texts J (t # ts) c =
     (case ik_openai_chat_stream_process_data J t c of (c1, evs) \<Rightarrow>
       (case chat_texts J ts c1 of (c2, evs1) \<Rightarrow> (c2, evs @ evs1)))"

lemma chat_frame:
  assumes "clean t"
  shows "chat_lines J (frame (None, t) @ rest) c =
    (case ik_openai_chat_stream_process_data J t c of (c1, evs) \<Rightarrow>
      (case chat_lines J rest c1 of (rest1, c2, evs1) \<Rightarrow> (rest1, c2, evs @ evs1)))"
proof -
  have "clean (bytes_of ''data: '' @ t)" using assms by (simp add: clean_def bytes_of_def)
  note l = chat_lines_line [OF this, of J "10 # rest" c]
  have f: "frame (None, t) @ rest = (bytes_of ''data: '' @ t) @ 10 # 10 # rest"
    by (simp add: data_prefix_def bytes_of_def)
  have e: "chat_lines J (10 # rest) c1 = chat_lines J rest c1" for c1
    using chat_lines_line [of "[]" J rest c1] by (simp add: clean_def bytes_of_def split: prod.splits)
  have p: "take 6 (bytes_of ''data: '' @ t) = bytes_of ''data: ''" "drop 6 (bytes_of ''data: '' @ t) = t"
    by (simp_all add: bytes_of_def)
  show ?thesis unfolding f l e p by simp
qed

lemma chat_frames:
  "list_all clean ts \<Longrightarrow> chat_lines J (concat (map (\<lambda>t. frame (None, t)) ts)) c = ([], chat_texts J ts c)"
  by (induction ts arbitrary: c) (simp_all add: chat_lines_none chat_frame split: prod.splits del: frame.simps)

fun chat_documents :: "(int \<Rightarrow> cstr) \<Rightarrow> mock_response \<Rightarrow> json list" where
  "chat_documents stale (MOCK_TEXT content) = [build_role_chunk, build_content_chunk content, build_stop_chunk]"
| "chat_documents stale (MOCK_TOOL_CALLS tcs) = [build_tool_call_chunk stale tcs, build_tool_call_stop_chunk]"

lemma chat_served:
  assumes "handle_request J W stale (Some (bytes_of ''/v1/chat/completions'', body)) (r # q) = Inr (q1, Sse_Reply out)"
  shows "q1 = q" and "res_bind (write_datas W (chat_documents stale r)) (\<lambda>out. Inr (out @ write_sse_done)) = Inr out"
  using assms
  by (auto simp: handle_request_def serve_def mock_queue_pop_def bytes_of_def openai_serialize_text_def
      openai_serialize_tool_calls_def check_assert_def res_bind_Inr_iff split: mock_response.splits if_splits)

definition chat_doc :: "json \<Rightarrow> ik_openai_chat_stream_ctx \<Rightarrow> ik_openai_chat_stream_ctx \<times> ik_stream_event list" where
  "chat_doc v c = ik_openai_chat_stream_process_data (\<lambda>_. Some v) [] c"

lemma chat_reads_doc:
  "J t = Some v \<Longrightarrow> J (bytes_of ''[DONE]'') = None \<Longrightarrow> ik_openai_chat_stream_process_data J t c = chat_doc v c"
  by (auto simp: chat_doc_def ik_openai_chat_stream_process_data_def bytes_of_def)

definition chat_named :: ik_openai_chat_stream_ctx where
  "chat_named = ik_openai_chat_stream_ctx_create\<lparr>oc_model := Some (bytes_of ''mock'')\<rparr>"

lemma chat_chunk_members:
  assumes "extra = [] \<or> extra = chat_usage"
  shows "is_obj (chat_chunk delta f extra)" "obj_member_of (chat_chunk delta f extra) ''error'' = None"
    "str_member_of (chat_chunk delta f extra) ''model'' = Some (bytes_of ''mock'')"
    "arr_member_of (chat_chunk delta f extra) ''choices'' =
       Some [JObj [int_m ''index'' 0, val_m ''delta'' (JObj delta), val_m ''finish_reason'' f]]"
    "oc_usage c = no_usage \<Longrightarrow> extract_usage_statistics (chat_chunk delta f extra) c = c"
  using assms
  by (auto simp: chat_chunk_def doc_simps bytes_of_def nul_free_def extract_usage_statistics_def chat_usage_def
      no_usage_def Let_def)

lemma chat_chunk_doc:
  assumes "extra = [] \<or> extra = chat_usage" and "oc_usage c = no_usage" and "c = ik_openai_chat_stream_ctx_create \<or> oc_model c = Some (bytes_of ''mock'')"
  shows "chat_doc (chat_chunk delta f extra) c
    = ik_openai_chat_process_delta (JObj delta) (str_of (Some f)) (c\<lparr>oc_model := Some (bytes_of ''mock'')\<rparr>)"
proof -
  have m: "extract_model_if_needed (chat_chunk delta f extra) c = c\<lparr>oc_model := Some (bytes_of ''mock'')\<rparr>"
    using assms by (auto simp: extract_model_if_needed_def chat_chunk_members ik_openai_chat_stream_ctx_create_def)
  have "oc_usage (fst (ik_openai_chat_process_delta (JObj delta) fr c')) = oc_usage c'" for fr c'
    by (cases fr) (auto simp: ik_openai_chat_process_delta_def process_content_delta_def ik_openai_chat_maybe_end_tool_call_def
        ik_openai_chat_maybe_emit_start_def split: prod.splits option.splits if_splits)
  then have u: "oc_usage (fst (ik_openai_chat_process_delta (JObj delta) (str_of (Some f)) (c\<lparr>oc_model := Some (bytes_of ''mock'')\<rparr>))) = no_usage"
    using assms(2) by simp
  have "process_choices_array (chat_chunk delta f extra) (c\<lparr>oc_model := Some (bytes_of ''mock'')\<rparr>)
      = ik_openai_chat_process_delta (JObj delta) (str_of (Some f)) (c\<lparr>oc_model := Some (bytes_of ''mock'')\<rparr>)"
    using assms(1) by (simp add: process_choices_array_def chat_chunk_members) (simp add: doc_simps bytes_of_def)
  moreover have "[] \<noteq> bytes_of ''[DONE]''" by (simp add: bytes_of_def)
  ultimately show ?thesis
    using assms(1) u
    by (cases "ik_openai_chat_process_delta (JObj delta) (str_of (Some f)) (c\<lparr>oc_model := Some (bytes_of ''mock'')\<rparr>)")
       (simp add: chat_doc_def ik_openai_chat_stream_process_data_def chat_chunk_members process_error_object_def m)
qed


lemmas chat_delta_defs = ik_openai_chat_process_delta_def process_content_delta_def ik_openai_chat_maybe_end_tool_call_def
  ik_openai_chat_maybe_emit_start_def ik_openai_map_chat_finish_reason_def

lemma chat_text_docs:
  assumes "nul_free content"
  shows "chat_doc build_role_chunk ik_openai_chat_stream_ctx_create = (chat_named, [])"
    and "chat_doc (build_content_chunk content) chat_named
      = (chat_named\<lparr>oc_started := True\<rparr>, [IK_STREAM_START (Some (bytes_of ''mock'')), IK_STREAM_TEXT_DELTA 0 (Some content)])"
    and "chat_doc build_stop_chunk (chat_named\<lparr>oc_started := True\<rparr>)
      = (chat_named\<lparr>oc_started := True, oc_finish_reason := IK_FINISH_STOP\<rparr>, [])"
  using assms
  by (simp_all add: build_role_chunk_def build_content_chunk_def build_stop_chunk_def chat_chunk_doc chat_named_def
      ik_openai_chat_stream_ctx_create_def)
     (simp_all add: chat_delta_defs doc_simps bytes_of_def nul_free_def)

lemma chat_call_docs:
  "chat_doc (build_tool_call_chunk stale tcs) ik_openai_chat_stream_ctx_create = (chat_named, [])"
  "chat_doc build_tool_call_stop_chunk chat_named = (chat_named\<lparr>oc_finish_reason := IK_FINISH_TOOL_USE\<rparr>, [])"
  by (simp_all add: build_tool_call_chunk_def build_tool_call_stop_chunk_def chat_chunk_doc chat_named_def
      ik_openai_chat_stream_ctx_create_def)
     (simp_all add: chat_delta_defs doc_simps bytes_of_def nul_free_def)


lemma chat_done:
  "J (bytes_of ''[DONE]'') = None \<Longrightarrow> \<not> oc_in_tool_call c \<Longrightarrow>
   ik_openai_chat_stream_process_data J (bytes_of ''[DONE]'') c = (c, [IK_STREAM_DONE (oc_finish_reason c) (oc_usage c)])"
  by (simp add: ik_openai_chat_stream_process_data_def process_done_marker_def ik_openai_chat_maybe_end_tool_call_def)

lemma chat_outcome_texts:
  assumes "J (bytes_of ''[DONE]'') = None" and "response_ok r"
    and "list_all2 (\<lambda>t v. J t = Some v) ts (chat_documents stale r)"
  shows "\<exists>c. chat_texts J (ts @ [bytes_of ''[DONE]'']) ik_openai_chat_stream_ctx_create = (c, fst (chat_outcome r))
    \<and> ik_openai_chat_stream_build_response c = snd (chat_outcome r)"
proof (cases r)
  case (MOCK_TEXT content)
  then show ?thesis
    using assms
    by (auto simp: list_all2_Cons2 chat_reads_doc chat_text_docs chat_done, simp_all add: chat_done chat_named_def
        ik_openai_chat_stream_ctx_create_def ik_openai_chat_stream_build_response_def mock_response_of_def)
next
  case (MOCK_TOOL_CALLS tcs)
  then show ?thesis
    using assms
    by (auto simp: list_all2_Cons2 chat_reads_doc chat_call_docs chat_done, simp_all add: chat_done chat_named_def
        ik_openai_chat_stream_ctx_create_def ik_openai_chat_stream_build_response_def mock_response_of_def)
qed

lemma chat_out_texts:
  assumes "json_wire J W" and "res_bind (write_datas W vs) (\<lambda>out. Inr (out @ write_sse_done)) = Inr out"
  shows "\<exists>ts. out = concat (map (\<lambda>t. frame (None, t)) (ts @ [bytes_of ''[DONE]''])) \<and> list_all clean (ts @ [bytes_of ''[DONE]''])
    \<and> list_all2 (\<lambda>t v. J t = Some v) ts vs"
proof -
  obtain out1 where o: "write_datas W vs = Inr out1" "out = out1 @ write_sse_done"
    using assms(2) by (auto simp: res_bind_Inr_iff)
  obtain xs where xs: "out1 = concat (map frame xs)" "list_all2 (carries J) xs (map (Pair None) vs)"
    using write_datas_frames [OF assms(1) o(1)] by blast
  have x: "list_all2 (\<lambda>t v. J t = Some v) (map snd xs) vs \<and> list_all clean (map snd xs) 
      \<and> map frame xs = map (\<lambda>t. frame (None, t)) (map snd xs)"
    using xs(2)
    by (induction xs arbitrary: vs) (auto simp: list_all2_Cons1 list_all2_Cons2 simp del: frame.simps elim!: carries.elims)
  then have "out = concat (map (\<lambda>t. frame (None, t)) (map snd xs @ [bytes_of ''[DONE]'']))"
    unfolding map_append concat_append by (simp only: o(2) xs(1) write_sse_done_def write_sse_frames(2)) simp
  moreover have "list_all clean (map snd xs @ [bytes_of ''[DONE]''])" using x by (simp add: bytes_clean)
  ultimately show ?thesis using x by blast
qed

lemma mock_chat_delivered:
  assumes "json_wire J W" and "J (bytes_of ''[DONE]'') = None" and "response_ok r"
    and "handle_request J W stale (Some (bytes_of ''/v1/chat/completions'', body)) (r # q)
      = Inr (q1, Sse_Reply (concat chunks))"
    and "length (concat chunks) < 2 ^ 31"
  shows "q1 = q \<and> returns (deliver (ik_openai_stream_write_callback J) chunks (openai_request_ctx False)) (\<lambda>(st, evs).
      evs = fst (chat_outcome r)
      \<and> ik_openai_stream_completion_handler True 200 None None st = ok_completion (snd (chat_outcome r)))"
proof -
  note served = chat_served [OF assms(4)]
  let ?done = "bytes_of ''[DONE]''" and ?r = "openai_request_ctx False"
  obtain ts where ts: "concat chunks = concat (map (\<lambda>t. frame (None, t)) (ts @ [?done]))" "list_all clean (ts @ [?done])"
    "list_all2 (\<lambda>t v. J t = Some v) ts (chat_documents stale r)"
    using chat_out_texts [OF assms(1) served(2)] by blast
  obtain c where c: "chat_texts J (ts @ [?done]) ik_openai_chat_stream_ctx_create = (c, fst (chat_outcome r))"
    "ik_openai_chat_stream_build_response c = snd (chat_outcome r)"
    using chat_outcome_texts [OF assms(2,3) ts(3)] by blast
  have b: "sr_parser_ctx ?r = Chat_Parser ik_openai_chat_stream_ctx_create" "sr_sse_buffer ?r = []"
    by (simp_all add: openai_request_ctx_def)
  have "0 \<notin> set (frame (None, t))" if "clean t" for t using that by (simp add: clean_def data_prefix_def)
  then have "nul_free (concat chunks)" using ts(2) unfolding ts(1) nul_free_def list_all_iff by auto
  moreover have "chat_lines J (concat chunks) ik_openai_chat_stream_ctx_create = ([], c, fst (chat_outcome r))"
    using chat_frames [OF ts(2)] ts(1) c(1) by simp
  ultimately have "deliver (ik_openai_stream_write_callback J) chunks ?r
      = Inr (?r\<lparr>sr_sse_buffer := [], sr_parser_ctx := Chat_Parser c\<rparr>, fst (chat_outcome r))"
    using assms(5) by (intro chat_delivered [OF b(1)]) (simp_all add: b(2))
  then show ?thesis
    using served(1) c(2) by (simp add: ik_openai_stream_completion_handler_def ok_completion_def)
qed

text \<open>C16. What the scripted server has queued arrives over the OpenAI chat API: however the reply is cut into chunks,
  a text gives the start, one text event and the end. The calls of a reply are dropped: the stream has nothing but its
  end with the reason tool use, and the response that reason without a call.\<close>

theorem mock_chat:
  assumes "json_wire J W" and "J (bytes_of ''[DONE]'') = None" and "response_ok r"
    and "handle_request J W stale (Some (bytes_of ''/v1/chat/completions'', body)) (r # q)
      = Inr (q1, Sse_Reply (concat chunks))"
    and "length (concat chunks) < 2 ^ 31"
  shows "q1 = q \<and> returns (deliver (ik_openai_stream_write_callback J) chunks (openai_request_ctx False)) (\<lambda>(st, evs).
      evs = fst (chat_outcome r)
      \<and> ik_openai_stream_completion_handler True 200 None None st = ok_completion (snd (chat_outcome r)))"
  using assms by (rule mock_chat_delivered)

end
