(* ===== verification/Ik_Mock_Samples.thy ===== *)
theory Ik_Mock_Samples
  imports Ik_Mock_Stream
begin

text \<open>Concrete streams for the theorems on the scripted server: tables of documents and their texts stand for yyjson.\<close>

definition table_write :: "(cstr \<times> json) list \<Rightarrow> yyjson_writer" where
  "table_write tbl d = map_option fst (find (\<lambda>(s, e). e = d) tbl)"

lemma table_wire:
  assumes "distinct (map fst tbl)" and "\<forall>(s, d) \<in> set tbl. clean s \<and> s \<noteq> []"
    and "map_of tbl (bytes_of ''{}'') = Some (JObj [])"
  shows "json_wire (map_of tbl) (table_write tbl)"
proof -
  have m: "(s, d) \<in> set tbl" if "table_write tbl d = Some s" for s d
    using that by (auto simp: table_write_def find_Some_iff) (metis nth_mem)
  then have "clean s \<and> s \<noteq> []" if "table_write tbl d = Some s" for s d
    using assms(2) that by fastforce
  then show ?thesis using m assms(1,3) by (auto simp: json_wire_def json_io_def)
qed

definition sample_texts :: "cstr list" where
  "sample_texts = map (\<lambda>i. [word_of_nat i]) [20..<40]"

lemma sample_texts: "distinct sample_texts" "bytes_of ''{}'' \<notin> set sample_texts" "\<forall>s \<in> set sample_texts. clean s \<and> s \<noteq> []"
  by (simp_all add: sample_texts_def upt_conv_Cons clean_def bytes_of_def)

definition sample_table :: "json list \<Rightarrow> (cstr \<times> json) list" where
  "sample_table ds = (bytes_of ''{}'', JObj []) # zip sample_texts ds"

lemma sample_wire: "json_wire (map_of (sample_table ds)) (table_write (sample_table ds))"
proof (rule table_wire)
  have z: "s \<in> set sample_texts" if "(s, d) \<in> set (zip sample_texts ds)" for s d using that by (rule set_zip_leftD)
  have "distinct (map fst (zip sample_texts ds))" using sample_texts(1) by (simp add: map_fst_zip_take)
  then show "distinct (map fst (sample_table ds))" using z sample_texts(2) by (auto simp: sample_table_def)
  have "clean (bytes_of ''{}'') \<and> bytes_of ''{}'' \<noteq> []" by (simp add: bytes_clean) (simp add: bytes_of_def)
  then show "\<forall>(s, d) \<in> set (sample_table ds). clean s \<and> s \<noteq> []"
    using z sample_texts(3) by (auto simp: sample_table_def)
qed (simp add: sample_table_def)

text \<open>Two calls, and the documents of a reply.\<close>

definition sample_calls :: "mock_tool_call list" where
  "sample_calls = [\<lparr>mt_name = [0x61], mt_arguments_json = [0x31]\<rparr>, \<lparr>mt_name = [0x62], mt_arguments_json = bytes_of ''{}''\<rparr>]"

definition anthropic_sample :: "(cstr \<times> json) list" where
  "anthropic_sample = sample_table (map snd (anthropic_events (MOCK_TOOL_CALLS sample_calls)))"

lemma anthropic_wire: "json_wire (map_of anthropic_sample) (table_write anthropic_sample)"
  unfolding anthropic_sample_def by (rule sample_wire)

lemma anthropic_sample_reply:
  "\<exists>out. length out < 1000 \<and> handle_request (map_of anthropic_sample) (table_write anthropic_sample) stale
     (Some (bytes_of ''/v1/messages'', None)) [MOCK_TOOL_CALLS sample_calls] = Inr ([], Sse_Reply out)"
  by (simp add: handle_request_def serve_def mock_queue_pop_def anthropic_serialize_tool_calls_def check_assert_def
      json_text_def anthropic_tool_events_def table_write_def anthropic_sample_def sample_table_def sample_texts_def upt_conv_Cons
      sample_calls_def build_message_start_def build_tool_block_start_def build_tool_delta_def build_block_stop_def
      build_message_delta_def dec_int_def dec_digits.simps write_sse_event_def bytes_of_def m_defs)


lemma sample_calls_ok: "response_ok (MOCK_TOOL_CALLS sample_calls)"
  by (simp add: sample_calls_def call_ok_def nul_free_def bytes_of_def)

theorem mock_anthropic_witness:
  "\<exists>out. handle_request (map_of anthropic_sample) (table_write anthropic_sample) (\<lambda>_. [])
       (Some (bytes_of ''/v1/messages'', None)) [MOCK_TOOL_CALLS sample_calls] = Inr ([], Sse_Reply out)
     \<and> returns (deliver (ik_anthropic_stream_write_cb (map_of anthropic_sample)) [take 9 out, drop 9 out] anthropic_active_stream)
         (\<lambda>(st, evs). evs = fst (anthropic_outcome (MOCK_TOOL_CALLS sample_calls))
           \<and> anthropic_info_read (Some (ik_anthropic_stream_completion_cb 200 st))
             = (None, Some (ok_completion (snd (anthropic_outcome (MOCK_TOOL_CALLS sample_calls))))))"
proof -
  obtain out where out: "length out < 1000" "handle_request (map_of anthropic_sample) (table_write anthropic_sample) (\<lambda>_. [])
       (Some (bytes_of ''/v1/messages'', None)) [MOCK_TOOL_CALLS sample_calls] = Inr ([], Sse_Reply out)"
    using anthropic_sample_reply by blast
  have "concat [take 9 out, drop 9 out] = out" by simp
  then show ?thesis
    using mock_anthropic [OF anthropic_wire sample_calls_ok, of "\<lambda>_. []" None "[]" "[]" "[take 9 out, drop 9 out]"] out
    by auto
qed

definition responses_sample :: "(cstr \<times> json) list" where
  "responses_sample = sample_table (map snd (responses_events (MOCK_TOOL_CALLS sample_calls)))"

lemma responses_wire: "json_wire (map_of responses_sample) (table_write responses_sample)"
  unfolding responses_sample_def by (rule sample_wire)

lemma responses_sample_reply:
  "\<exists>out. length out < 1000 \<and> handle_request (map_of responses_sample) (table_write responses_sample) stale
     (Some (bytes_of ''/v1/responses'', None)) [MOCK_TOOL_CALLS sample_calls] = Inr ([], Sse_Reply out)"
  by (simp add: handle_request_def serve_def mock_queue_pop_def openai_responses_serialize_tool_calls_def check_assert_def
      json_text_def responses_tool_events_def table_write_def responses_sample_def sample_table_def sample_texts_def upt_conv_Cons
      sample_calls_def build_responses_created_def dec_int_def dec_digits.simps write_sse_event_def bytes_of_def m_defs)

theorem mock_responses_witness:
  "\<exists>out. handle_request (map_of responses_sample) (table_write responses_sample) (\<lambda>_. [])
       (Some (bytes_of ''/v1/responses'', None)) [MOCK_TOOL_CALLS sample_calls] = Inr ([], Sse_Reply out)
     \<and> returns (deliver (ik_openai_stream_write_callback (map_of responses_sample)) [take 9 out, drop 9 out] (openai_request_ctx True))
         (\<lambda>(st, evs). evs = fst (responses_outcome (MOCK_TOOL_CALLS sample_calls))
           \<and> ik_openai_stream_completion_handler True 200 None None st
             = ok_completion (snd (responses_outcome (MOCK_TOOL_CALLS sample_calls))))"
proof -
  obtain out where out: "length out < 1000" "handle_request (map_of responses_sample) (table_write responses_sample) (\<lambda>_. [])
       (Some (bytes_of ''/v1/responses'', None)) [MOCK_TOOL_CALLS sample_calls] = Inr ([], Sse_Reply out)"
    using responses_sample_reply by blast
  have "concat [take 9 out, drop 9 out] = out" by simp
  then show ?thesis
    using mock_responses [OF responses_wire sample_calls_ok, of "\<lambda>_. []" None "[]" "[]" "[take 9 out, drop 9 out]"] out
    by auto
qed

definition chat_sample :: "(cstr \<times> json) list" where
  "chat_sample = sample_table (chat_documents (\<lambda>_. [0x78]) (MOCK_TEXT [0x68]))"

lemma chat_wire: "json_wire (map_of chat_sample) (table_write chat_sample)"
  unfolding chat_sample_def by (rule sample_wire)

lemma chat_sample_reply:
  "\<exists>out. length out < 1000 \<and> handle_request (map_of chat_sample) (table_write chat_sample) stale
     (Some (bytes_of ''/v1/chat/completions'', None)) [MOCK_TEXT [0x68]] = Inr ([], Sse_Reply out)"
  by (simp add: handle_request_def serve_def mock_queue_pop_def openai_serialize_text_def
      json_text_def table_write_def chat_sample_def sample_table_def sample_texts_def upt_conv_Cons
      build_role_chunk_def build_content_chunk_def build_stop_chunk_def chat_chunk_def chat_usage_def write_sse_done_def
      write_sse_data_def bytes_of_def m_defs)

theorem mock_chat_witness:
  "\<exists>out. handle_request (map_of chat_sample) (table_write chat_sample) (\<lambda>_. [])
       (Some (bytes_of ''/v1/chat/completions'', None)) [MOCK_TEXT [0x68]] = Inr ([], Sse_Reply out)
     \<and> returns (deliver (ik_openai_stream_write_callback (map_of chat_sample)) [take 9 out, drop 9 out] (openai_request_ctx False))
         (\<lambda>(st, evs). evs = fst (chat_outcome (MOCK_TEXT [0x68]))
           \<and> ik_openai_stream_completion_handler True 200 None None st = ok_completion (snd (chat_outcome (MOCK_TEXT [0x68]))))"
proof -
  obtain out where out: "length out < 1000" "handle_request (map_of chat_sample) (table_write chat_sample) (\<lambda>_. [])
       (Some (bytes_of ''/v1/chat/completions'', None)) [MOCK_TEXT [0x68]] = Inr ([], Sse_Reply out)"
    using chat_sample_reply by blast
  have "map_of chat_sample (bytes_of ''[DONE]'') = None" "response_ok (MOCK_TEXT [0x68])"
    by (simp_all add: chat_sample_def sample_table_def sample_texts_def upt_conv_Cons bytes_of_def nul_free_def)
  moreover have "concat [take 9 out, drop 9 out] = out" by simp
  ultimately show ?thesis
    using mock_chat [OF chat_wire, of "MOCK_TEXT [0x68]" "\<lambda>_. []" None "[]" "[]" "[take 9 out, drop 9 out]"] out
    by auto
qed

definition google_sample_chunk :: json where
  "google_sample_chunk = google_chunk [JObj [val_m ''functionCall'' (JObj [str_m ''name'' [0x61], val_m ''args'' JNull])],
     JObj [val_m ''functionCall'' (JObj [str_m ''name'' [0x62], val_m ''args'' (JObj [])])]]"

definition google_sample :: "(cstr \<times> json) list" where
  "google_sample = sample_table [google_sample_chunk, JNull]"

lemma google_wire: "json_wire (map_of google_sample) (table_write google_sample)"
  unfolding google_sample_def by (rule sample_wire)

definition google_calls :: "mock_tool_call list" where
  "google_calls = [\<lparr>mt_name = [0x61], mt_arguments_json = [21]\<rparr>, \<lparr>mt_name = [0x62], mt_arguments_json = bytes_of ''{}''\<rparr>]"

lemma google_sample_table: "google_sample = [(bytes_of ''{}'', JObj []), ([20], google_sample_chunk), ([21], JNull)]"
  by (simp add: google_sample_def sample_table_def sample_texts_def upt_conv_Cons)

lemma google_sample_reply:
  "\<exists>out. length out < 1000 \<and> handle_request (map_of google_sample) (table_write google_sample) stale
     (Some (bytes_of ''/models/'' @ [], None)) [MOCK_TOOL_CALLS google_calls] = Inr ([], Sse_Reply out)"
proof -
  have "build_tool_calls_chunk (map_of google_sample) google_calls = google_sample_chunk"
    by (simp add: build_tool_calls_chunk_def google_sample_table google_calls_def google_call_part_def google_sample_chunk_def
        bytes_of_def)
  moreover have "table_write google_sample google_sample_chunk = Some [20]"
    by (simp add: table_write_def google_sample_table google_sample_chunk_def google_chunk_def add_usage_metadata_def)
  moreover have "google_calls \<noteq> []" by (simp add: google_calls_def)
  ultimately show ?thesis
    by (simp add: handle_request_def serve_def mock_queue_pop_def google_serialize_tool_calls_def check_assert_def
        json_text_def write_sse_data_def bytes_of_def)
qed

theorem mock_google_witness:
  "\<exists>out. handle_request (map_of google_sample) (table_write google_sample) (\<lambda>_. [])
       (Some (bytes_of ''/models/'' @ [], None)) [MOCK_TOOL_CALLS google_calls] = Inr ([], Sse_Reply out)
     \<and> returns (deliver (ik_google_stream_write_cb (\<lambda>_ i. i) (map_of google_sample) (table_write google_sample))
           [take 9 out, drop 9 out] google_active_stream)
         (\<lambda>(st, evs). evs = fst (google_outcome (\<lambda>_ i. i) (MOCK_TOOL_CALLS google_calls))
           \<and> google_info_read (Some (ik_google_stream_completion_cb 200 st))
             = (None, Some (ok_completion (snd (google_outcome (\<lambda>_ i. i) (MOCK_TOOL_CALLS google_calls))))))"
proof -
  obtain out where out: "length out < 1000" "handle_request (map_of google_sample) (table_write google_sample) (\<lambda>_. [])
       (Some (bytes_of ''/models/'' @ [], None)) [MOCK_TOOL_CALLS google_calls] = Inr ([], Sse_Reply out)"
    using google_sample_reply by blast
  have "table_write google_sample JNull = Some [21]" "table_write google_sample (JObj []) = Some (bytes_of ''{}'')"
    by (simp_all add: table_write_def google_sample_table google_sample_chunk_def google_chunk_def)
  then have "written (table_write google_sample) (MOCK_TOOL_CALLS google_calls)"
    unfolding written.simps google_calls_def by fastforce
  moreover have "response_ok (MOCK_TOOL_CALLS google_calls)"
    by (simp add: google_calls_def call_ok_def nul_free_def bytes_of_def)
  moreover have "concat [take 9 out, drop 9 out] = out" by simp
  ultimately show ?thesis
    using mock_google [OF google_wire, of "MOCK_TOOL_CALLS google_calls" "\<lambda>_. []" "[]" None "[]" "[]"
        "[take 9 out, drop 9 out]" "\<lambda>_ i. i"] out
    by auto
qed

end
