(* ===== verification/Ik_Answer.thy ===== *)
theory Ik_Answer
  imports Ik_Mock_Samples Ik_Stream_Text Ik_Adapter_Safety
begin

text \<open>
  From the bytes of a reply to the conversation: the chunks of a reply go through the stream parser of the API
  (\<open>api_run\<close>), and its events and its completion to the callbacks of the agent (\<open>receive_reply\<close>). The lemmas go through
  the outcome that the theorems on the scripted server establish for each API.
\<close>

datatype model_api = Anthropic_Api | Responses_Api | Chat_Api | Google_Api

fun outcome :: "(nat \<Rightarrow> nat \<Rightarrow> nat) \<Rightarrow> model_api \<Rightarrow> mock_response \<Rightarrow> ik_stream_event list \<times> ik_response" where
  "outcome R Anthropic_Api = anthropic_outcome"
| "outcome R Responses_Api = responses_outcome"
| "outcome R Chat_Api = chat_outcome"
| "outcome R Google_Api = google_outcome R"

text \<open>The path that the requests of an API are sent to; that of Google names the model.\<close>

fun api_path :: "model_api \<Rightarrow> cstr \<Rightarrow> cstr" where
  "api_path Anthropic_Api model = bytes_of ''/v1/messages''"
| "api_path Responses_Api model = bytes_of ''/v1/responses''"
| "api_path Chat_Api model = bytes_of ''/v1/chat/completions''"
| "api_path Google_Api model = bytes_of ''/models/'' @ model"

text \<open>The transfer of a reply with status 200: libcurl hands over the chunks, and then the completion is read.\<close>

fun api_run :: "(nat \<Rightarrow> nat \<Rightarrow> nat) \<Rightarrow> yyjson \<Rightarrow> yyjson_writer \<Rightarrow> model_api \<Rightarrow> byte list list \<Rightarrow>
    (ik_stream_event list \<times> ik_provider_completion option) res" where
  "api_run R J W Anthropic_Api chunks =
     res_bind (deliver (ik_anthropic_stream_write_cb J) chunks anthropic_active_stream) (\<lambda>(st, evs).
       Inr (evs, snd (anthropic_info_read (Some (ik_anthropic_stream_completion_cb 200 st)))))"
| "api_run R J W Google_Api chunks =
     res_bind (deliver (ik_google_stream_write_cb R J W) chunks google_active_stream) (\<lambda>(st, evs).
       Inr (evs, snd (google_info_read (Some (ik_google_stream_completion_cb 200 st)))))"
| "api_run R J W Responses_Api chunks =
     res_bind (deliver (ik_openai_stream_write_callback J) chunks (openai_request_ctx True)) (\<lambda>(st, evs).
       Inr (evs, Some (ik_openai_stream_completion_handler True 200 None None st)))"
| "api_run R J W Chat_Api chunks =
     res_bind (deliver (ik_openai_stream_write_callback J) chunks (openai_request_ctx False)) (\<lambda>(st, evs).
       Inr (evs, Some (ik_openai_stream_completion_handler True 200 None None st)))"

fun provider_callbacks :: "ik_stream_event list \<times> ik_provider_completion option \<Rightarrow> provider_event list" where
  "provider_callbacks (evs, co) = map Stream_Event evs @ (case co of None \<Rightarrow> [] | Some c \<Rightarrow> [Completion_Event c])"

definition receive_reply :: "ik_env \<Rightarrow> (nat \<Rightarrow> nat \<Rightarrow> nat) \<Rightarrow> yyjson \<Rightarrow> yyjson_writer \<Rightarrow> model_api \<Rightarrow> byte list list \<Rightarrow>
    ik_agent_ctx \<Rightarrow> ik_agent_ctx res" where
  "receive_reply E R J W api chunks a =
     res_bind (api_run R J W api chunks) (\<lambda>reply. run_callbacks E (provider_callbacks reply) a)"

fun stream_events :: "ik_env \<Rightarrow> ik_stream_event list \<Rightarrow> ik_agent_ctx \<Rightarrow> ik_agent_ctx res" where
  "stream_events E [] a = Inr a"
| "stream_events E (e # es) a = res_bind (ik_repl_stream_callback E e a) (stream_events E es)"

lemma run_stream_events: "run_callbacks E (map Stream_Event evs @ ps) a = res_bind (stream_events E evs a) (run_callbacks E ps)"
proof (induction evs arbitrary: a)
  case (Cons e evs)
  then show ?case by (cases "ik_repl_stream_callback E e a") simp_all
qed simp

lemma run_reply:
  "run_callbacks E (provider_callbacks (evs, Some co)) a = res_bind (stream_events E evs a) (ik_repl_completion_callback E co)"
proof (cases "stream_events E evs a")
  case (Inr b)
  then show ?thesis by (cases "ik_repl_completion_callback E co b") (simp_all add: run_stream_events)
qed (simp add: run_stream_events)

lemma returns_events:
  "returns m (\<lambda>(st, evs). evs = es \<and> P st) \<Longrightarrow> (\<And>st. P st \<Longrightarrow> f st = x) \<Longrightarrow> res_bind m (\<lambda>(st, evs). Inr (evs, f st)) = Inr (es, x)"
  by (cases m) auto

lemma api_delivered:
  assumes "json_wire J W" and "J (bytes_of ''[DONE]'') = None" and "response_ok r" and "written W r"
    and "handle_request J W stale (Some (api_path api model, body)) (r # q) = Inr (q1, Sse_Reply (concat chunks))"
    and "length (concat chunks) < 2 ^ 31"
  shows "api_run R J W api chunks = Inr (fst (outcome R api r), Some (ok_completion (snd (outcome R api r))))"
proof (cases api)
  case Anthropic_Api
  note d = mock_anthropic_delivered [OF assms(1,3) assms(5) [unfolded Anthropic_Api api_path.simps] assms(6)]
  show ?thesis unfolding Anthropic_Api api_run.simps outcome.simps by (rule returns_events [OF d [THEN conjunct2]]) simp
next
  case Responses_Api
  note d = mock_responses_delivered [OF assms(1,3) assms(5) [unfolded Responses_Api api_path.simps] assms(6)]
  show ?thesis unfolding Responses_Api api_run.simps outcome.simps by (rule returns_events [OF d [THEN conjunct2]]) simp
next
  case Chat_Api
  note d = mock_chat_delivered [OF assms(1-3) assms(5) [unfolded Chat_Api api_path.simps] assms(6)]
  show ?thesis unfolding Chat_Api api_run.simps outcome.simps by (rule returns_events [OF d [THEN conjunct2]]) simp
next
  case Google_Api
  note d = mock_google_delivered [OF assms(1,3,4) assms(5) [unfolded Google_Api api_path.simps] assms(6), of R]
  show ?thesis unfolding Google_Api api_run.simps outcome.simps by (rule returns_events [OF d [THEN conjunct2]]) simp
qed

text \<open>What the callbacks do not touch: the messages of the conversation and the state of the agent.\<close>

definition untouched :: "ik_agent_ctx \<Rightarrow> ik_message list \<times> ik_agent_state" where
  "untouched a = (al_messages (ac_llm a), ac_state a)"

lemma append_line_scrollback: "append_line E t a = Inr b \<Longrightarrow> b = a\<lparr>ac_scrollback := ac_scrollback b\<rparr>"
  by (auto simp: append_line_def on_scrollback_def res_bind_Inr_iff)

lemma append_line_untouched: "append_line E t a = Inr b \<Longrightarrow> untouched b = untouched a"
  by (auto simp: append_line_def on_scrollback_def res_bind_Inr_iff untouched_def)

lemma flush_line_untouched: "ik_repl_flush_line_to_scrollback E s a = Inr b \<Longrightarrow> untouched b = untouched a"
  by (auto simp: ik_repl_flush_line_to_scrollback_def append_line_def on_scrollback_def res_bind_Inr_iff
      not_first_def on_llm_def untouched_def split: option.splits if_splits)

lemma delta_loop_untouched: "delta_loop E s cs a = Inr b \<Longrightarrow> untouched b = untouched a"
proof (induction cs arbitrary: s a)
  case (Cons c cs)
  then show ?case using flush_line_untouched [of E s a] by (auto simp: res_bind_Inr_iff split: if_splits)
qed (auto simp: buffer_text_def on_llm_def untouched_def split: if_splits)

lemma stream_events_untouched: "stream_events E evs a = Inr b \<Longrightarrow> untouched b = untouched a"
proof (induction evs arbitrary: a)
  case (Cons e evs)
  have "untouched a' = untouched a" if "ik_repl_stream_callback E e a = Inr a'" for a'
    using that delta_loop_untouched
    by (cases e) (auto simp: on_llm_def untouched_def ik_repl_handle_text_delta_def split: option.splits if_splits)
  then show ?case using Cons by (auto simp: res_bind_Inr_iff)
qed simp

definition visible_text :: "cstr \<Rightarrow> bool" where
  "visible_text t \<longleftrightarrow> list_ex (\<lambda>c. c \<noteq> 0x20 \<and> c \<noteq> 9 \<and> c \<noteq> 10 \<and> c \<noteq> 13) t"

text \<open>The fields on which showing the rest of the line depends.\<close>

lemma flush_shows:
  "returns (flush_buffer E b) (\<lambda>a'. P (ac_scrollback a')) \<longleftrightarrow>
   returns (case al_streaming_line_buffer (ac_llm b) of None \<Rightarrow> Inr (ac_scrollback b)
     | Some buf \<Rightarrow> ik_scrollback_append_line (en_utf8proc E) (ac_scrollback b) (line_prefix b @ buf)) P"
  by (cases "al_streaming_line_buffer (ac_llm b)"; 
      cases "ik_scrollback_append_line (en_utf8proc E) (ac_scrollback b) (line_prefix b @ the (al_streaming_line_buffer (ac_llm b)))")
     (simp_all add: flush_buffer_def append_line_def on_scrollback_def on_llm_def)

lemma flush_same:
  assumes "al_streaming_line_buffer (ac_llm b') = al_streaming_line_buffer (ac_llm b)"
    and "al_streaming_first_line (ac_llm b') = al_streaming_first_line (ac_llm b)" and "ac_scrollback b' = ac_scrollback b"
  shows "returns (flush_buffer E b') (\<lambda>a'. P (ac_scrollback a')) = returns (flush_buffer E b) (\<lambda>a'. P (ac_scrollback a'))"
proof -
  have "line_prefix b' = line_prefix b" by (simp add: line_prefix_def assms(2))
  then show ?thesis unfolding flush_shows by (cases "al_streaming_line_buffer (ac_llm b)") (simp_all add: assms)
qed

lemma returns_flushE:
  assumes "returns (flush_buffer E b) (\<lambda>a'. P (ac_scrollback a'))"
  obtains a' where "flush_buffer E b = Inr a'" "P (ac_scrollback a')"
    "al_assistant_response (ac_llm a') = al_assistant_response (ac_llm b)" "ac_tool a' = ac_tool b" "untouched a' = untouched b"
  using assms
  by (cases "al_streaming_line_buffer (ac_llm b)")
     (auto simp: flush_buffer_def append_line_def on_scrollback_def on_llm_def res_bind_Inr_iff returns_iff untouched_def)

lemma answer_streamed:
  assumes "sb_repr (en_utf8proc E) (ac_scrollback a) lines" and "al_streaming_line_buffer (ac_llm a) = None"
    and "content \<noteq> []" and "rest = [] \<or> (\<exists>f u. rest = [IK_STREAM_DONE f u])"
  shows "returns (stream_events E ([IK_STREAM_START m, IK_STREAM_TEXT_DELTA i (Some content)] @ rest) a)
    (\<lambda>b. al_assistant_response (ac_llm b) = Some content
      \<and> returns (flush_buffer E b) (\<lambda>a'. sb_repr (en_utf8proc E) (ac_scrollback a') (lines @ answer_lines content)))"
proof -
  let ?a = "on_llm (\<lambda>l. l\<lparr>al_assistant_response := None, al_streaming_first_line := True\<rparr>) a"
  have "returns (ik_repl_handle_text_delta E content ?a) (\<lambda>b. al_assistant_response (ac_llm b) = Some content
      \<and> returns (flush_buffer E b) (\<lambda>a'. sb_repr (en_utf8proc E) (ac_scrollback a') (lines @ answer_lines content)))"
    using delta_shown [of E ?a lines content] assms(1-3) by (simp add: on_llm_def)
  then obtain b where b: "ik_repl_handle_text_delta E content ?a = Inr b" "al_assistant_response (ac_llm b) = Some content"
    "returns (flush_buffer E b) (\<lambda>a'. sb_repr (en_utf8proc E) (ac_scrollback a') (lines @ answer_lines content))"
    by (cases "ik_repl_handle_text_delta E content ?a") simp_all
  from assms(4) show ?thesis
  proof
    assume "\<exists>f u. rest = [IK_STREAM_DONE f u]"
    then obtain f u where d: "rest = [IK_STREAM_DONE f u]" by blast
    let ?b = "on_llm (\<lambda>l. l\<lparr>al_response_input_tokens := us_input_tokens u,
       al_response_output_tokens := us_output_tokens u, al_response_thinking_tokens := us_thinking_tokens u\<rparr>) b"
    have "returns (flush_buffer E ?b) (\<lambda>a'. sb_repr (en_utf8proc E) (ac_scrollback a') (lines @ answer_lines content))"
      using b(3) flush_same [of ?b b E "\<lambda>sb. sb_repr (en_utf8proc E) sb (lines @ answer_lines content)"]
      by (simp add: on_llm_def)
    then show ?thesis using b(1,2) d by simp (simp add: on_llm_def)
  qed (use b in simp)
qed

lemma usage_line:
  assumes "sb_repr (en_utf8proc E) (ac_scrollback a) lines" and "rs_usage r = no_usage"
  shows "\<exists>sb. ik_repl_render_usage_event E (ik_repl_store_response_metadata r a)
      = Inr ((ik_repl_store_response_metadata r a)\<lparr>ac_scrollback := sb\<rparr>)
    \<and> sb_repr (en_utf8proc E) sb (lines @ [[]])"
  using append_line_shows [of E "ik_repl_store_response_metadata r a" lines "[]"] assms
  by (auto simp: ik_repl_render_usage_event_def response_total_def ik_repl_store_response_metadata_def
      no_usage_def on_llm_def add32_def in_int32_def)

lemma completed_answer:
  assumes "returns (flush_buffer E b) (\<lambda>a'. sb_repr (en_utf8proc E) (ac_scrollback a') ls)"
    and "extract_loop (rs_content_blocks r) (ac_tool (clear_pending_data b)) = Inr t"
    and "rs_usage r = no_usage"
  shows "returns (ik_repl_completion_callback E (ok_completion r) b)
    (\<lambda>c. sb_repr (en_utf8proc E) (ac_scrollback c) (ls @ (if had_response_content b then [[], []] else [[]]))
      \<and> al_assistant_response (ac_llm c) = al_assistant_response (ac_llm b)
      \<and> al_response_finish_reason (ac_llm c) = Some (finish_reason_str (rs_finish_reason r))
      \<and> at_pending_tool_call (ac_tool c) = at_pending_tool_call t
      \<and> al_http_error_message (ac_llm c) = None \<and> response_total c = Inr 0 \<and> untouched c = untouched b)"
proof -
  obtain a1 where a1: "flush_buffer E b = Inr a1" "sb_repr (en_utf8proc E) (ac_scrollback a1) ls"
    "al_assistant_response (ac_llm a1) = al_assistant_response (ac_llm b)" "ac_tool a1 = ac_tool b" "untouched a1 = untouched b"
    using assms(1) by (rule returns_flushE)
  let ?g = "if had_response_content b then [[]] else []"
  obtain sb where sb: "(if had_response_content b then append_line E [] a1 else Inr a1) = Inr (a1\<lparr>ac_scrollback := sb\<rparr>)"
    "sb_repr (en_utf8proc E) sb (ls @ ?g)"
    using append_line_shows [OF a1(2), of "[]"] a1(2) that [of "ac_scrollback a1"] by (cases "had_response_content b") auto
  let ?a3 = "on_llm (\<lambda>l. l\<lparr>al_http_error_message := None\<rparr>) (a1\<lparr>ac_scrollback := sb\<rparr>)"
  obtain sb' where sb': "ik_repl_render_usage_event E (ik_repl_store_response_metadata r ?a3)
      = Inr ((ik_repl_store_response_metadata r ?a3)\<lparr>ac_scrollback := sb'\<rparr>)"
    "sb_repr (en_utf8proc E) sb' (ls @ ?g @ [[]])"
    using usage_line [of E ?a3 "ls @ ?g" r] sb(2) assms(3) by (auto simp: on_llm_def)
  have "ac_tool (clear_pending_data ((ik_repl_store_response_metadata r ?a3)\<lparr>ac_scrollback := sb'\<rparr>))
      = ac_tool (clear_pending_data b)"
    using a1(4) by (simp add: clear_pending_data_def on_tool_def ik_repl_store_response_metadata_def on_llm_def)
  then have "ik_repl_completion_callback E (ok_completion r) b
      = Inr ((clear_pending_data ((ik_repl_store_response_metadata r ?a3)\<lparr>ac_scrollback := sb'\<rparr>))\<lparr>ac_tool := t\<rparr>)"
    using a1(1) sb(1) sb'(1) assms(2)
    by (simp add: ik_repl_completion_callback_def ok_completion_def ik_repl_extract_tool_calls_def Let_def)
  then show ?thesis
    using sb'(2) a1(3,5)
    by (cases "had_response_content b") (simp_all add: clear_pending_data_def on_tool_def
        ik_repl_store_response_metadata_def on_llm_def untouched_def response_total_def assms(3) no_usage_def add32_def in_int32_def)
qed


fun quiet :: "ik_stream_event \<Rightarrow> bool" where
  "quiet (IK_STREAM_TEXT_DELTA i t) = False"
| "quiet (IK_STREAM_ERROR cat m) = False"
| "quiet _ = True"

lemma quiet_events:
  assumes "list_all quiet evs"
    and "al_streaming_line_buffer (ac_llm a) = None" and "al_assistant_response (ac_llm a) = None"
  shows "\<exists>b. stream_events E evs a = Inr b \<and> ac_scrollback b = ac_scrollback a \<and> ac_tool b = ac_tool a
    \<and> al_streaming_line_buffer (ac_llm b) = None \<and> al_assistant_response (ac_llm b) = None"
  using assms
proof (induction evs arbitrary: a)
  case (Cons e evs)
  obtain a1 where a1: "ik_repl_stream_callback E e a = Inr a1" "ac_scrollback a1 = ac_scrollback a" "ac_tool a1 = ac_tool a"
    "al_streaming_line_buffer (ac_llm a1) = None" "al_assistant_response (ac_llm a1) = None"
    using Cons.prems by (cases e) (auto simp: on_llm_def)
  then show ?case using Cons.IH [of a1] Cons.prems(1) by simp
qed simp


lemma answer_recorded:
  assumes "al_assistant_response (ac_llm b) = Some content" and "content \<noteq> []" and "at_pending_tool_call (ac_tool b) = None"
    and "response_total b = Inr 0" and "al_response_finish_reason (ac_llm b) = Some (finish_reason_str f)" and "f \<noteq> IK_FINISH_TOOL_USE"
  shows "returns (ik_repl_handle_agent_request_success E b) (\<lambda>c.
      untouched c = (al_messages (ac_llm b) @ [ik_message_create_text IK_ROLE_ASSISTANT content], ac_state b)
      \<and> ac_scrollback c = ac_scrollback b
      \<and> (\<exists>data. ac_effects c = ac_effects b @ (if persists E then [Db_Message ''assistant'' (Some content) data] else [])))"
proof -
  have "finish_reason_str f \<noteq> ''tool_use''" using assms(6) by (cases f) simp_all
  moreover have "response_total (emit e (ik_agent_add_message m b)) = Inr 0" for e m
    using assms(4) by (simp add: response_total_def emit_def ik_agent_add_message_def on_llm_def)
  ultimately show ?thesis
    using assms(1-3,5)
    by (auto simp: ik_repl_handle_agent_request_success_def persist_assistant_msg_def Let_def clear_response_def
        ik_agent_should_continue_tool_loop_def ik_agent_add_message_def emit_def on_llm_def untouched_def)
qed

text \<open>The call that is left of the calls of an answer, by API.\<close>

fun call_left :: "(nat \<Rightarrow> nat \<Rightarrow> nat) \<Rightarrow> model_api \<Rightarrow> mock_tool_call list \<Rightarrow> ik_tool_call option" where
  "call_left R Anthropic_Api tcs = Some \<lparr>call_id = mock_id ''toolu_mock_'' (int (length tcs) - 1),
     call_name = mt_name (last tcs), call_arguments = mt_arguments_json (last tcs)\<rparr>"
| "call_left R Responses_Api tcs = Some \<lparr>call_id = mock_id ''call_mock_'' (int (length tcs) - 1),
     call_name = mt_name (last tcs), call_arguments = mt_arguments_json (last tcs)\<rparr>"
| "call_left R Chat_Api tcs = None"
| "call_left R Google_Api tcs = Some \<lparr>call_id = ik_google_generate_tool_id (R 0), call_name = mt_name (hd tcs),
     call_arguments = concat (map mt_arguments_json tcs)\<rparr>"

lemma extract_one:
  "extract_loop [CONTENT_TOOL_CALL (Some i) (Some n) (Some x) None] t
   = Inr (t\<lparr>at_pending_tool_call := Some \<lparr>call_id = i, call_name = n, call_arguments = x\<rparr>\<rparr>)"
  by (simp add: ik_tool_call_create_def overwrite_def)

lemma calls_outcome:
  obtains evs bs where "outcome R api (MOCK_TOOL_CALLS tcs) = (evs, mock_response_of bs IK_FINISH_TOOL_USE)" "list_all quiet evs"
    "\<And>t. at_pending_tool_call t = None \<Longrightarrow> \<exists>t'. extract_loop bs t = Inr t' \<and> at_pending_tool_call t' = call_left R api tcs"
proof -
  have calls: "list_all quiet (number_calls (call_events stem) i tcs)" for stem i
    by (rule number_calls_names) (simp add: call_events_def)
  show ?thesis
  proof (cases api)
    case Anthropic_Api
    show ?thesis by (rule that) (use calls Anthropic_Api in \<open>auto simp: last_call_def extract_one simp del: extract_loop.simps\<close>)
  next
    case Responses_Api
    show ?thesis by (rule that) (use calls Responses_Api in \<open>auto simp: last_call_def extract_one simp del: extract_loop.simps\<close>)
  next
    case Chat_Api
    show ?thesis by (rule that) (use Chat_Api in auto)
  next
    case Google_Api
    have "list_all quiet (map (\<lambda>tc. IK_STREAM_TOOL_CALL_DELTA 0 (Some (mt_arguments_json tc))) tcs)"
      by (simp add: list_all_iff)
    then show ?thesis
      by (intro that [of "fst (outcome R api (MOCK_TOOL_CALLS tcs))" "[CONTENT_TOOL_CALL (Some (ik_google_generate_tool_id (R 0))) (Some (mt_name (hd tcs)))
            (Some (concat (map mt_arguments_json tcs))) None]"])
         (use Google_Api in \<open>simp_all add: Let_def extract_one del: extract_loop.simps\<close>)
  qed
qed

subsection \<open>Errors in a stream\<close>

abbreviation error_message :: "ik_agent_ctx \<Rightarrow> text_ptr" where
  "error_message a \<equiv> al_http_error_message (ac_llm a)"

lemma append_line_returns:
  assumes "sb_ok (en_utf8proc E) a"
  shows "returns (append_line E t a) (\<lambda>b. sb_ok (en_utf8proc E) b \<and> error_message b = error_message a)"
proof -
  obtain lines where "sb_repr (en_utf8proc E) (ac_scrollback a) lines" using assms by (auto simp: sb_ok_def)
  from append_line_shows [OF this, of t] show ?thesis by (auto simp: sb_ok_def)
qed

lemma flush_line_returns:
  assumes "sb_ok (en_utf8proc E) a"
  shows "returns (ik_repl_flush_line_to_scrollback E s a) (\<lambda>b. sb_ok (en_utf8proc E) b \<and> error_message b = error_message a)"
proof -
  note ap = returns_bindI [OF append_line_returns [OF assms]]
  show ?thesis using assms
    by (auto simp: ik_repl_flush_line_to_scrollback_def not_first_def on_llm_def sb_ok_def split: option.splits intro!: ap)
qed

lemma delta_loop_returns:
  "sb_ok (en_utf8proc E) a \<Longrightarrow>
   returns (delta_loop E s cs a) (\<lambda>b. sb_ok (en_utf8proc E) b \<and> error_message b = error_message a)"
proof (induction cs arbitrary: s a)
  case (Cons c cs)
  show ?case
  proof (cases "c = 10")
    case True
    obtain b where b: "ik_repl_flush_line_to_scrollback E s a = Inr b" "sb_ok (en_utf8proc E) b" "error_message b = error_message a"
      using flush_line_returns [OF Cons.prems, of s] by (auto elim!: returnsE)
    then show ?thesis using Cons.IH [OF b(2), of "[]"] True by simp
  qed (use Cons in simp)
qed (simp add: buffer_text_def on_llm_def sb_ok_def)

text \<open>The errors of a list of events.\<close>

definition is_error_of :: "ik_stream_event list \<Rightarrow> cstr \<Rightarrow> bool" where
  "is_error_of evs t \<longleftrightarrow> (\<exists>c. IK_STREAM_ERROR c (Some t) \<in> set evs)"

lemma stream_callback_error:
  assumes "sb_ok (en_utf8proc E) a"
  shows "returns (ik_repl_stream_callback E e a) (\<lambda>b. sb_ok (en_utf8proc E) b
    \<and> error_message b = (case e of IK_STREAM_ERROR c (Some t) \<Rightarrow> Some t | _ \<Rightarrow> error_message a))"
proof (cases e)
  case (IK_STREAM_TEXT_DELTA i t)
  show ?thesis
  proof (cases t)
    case (Some chunk)
    let ?a = "on_llm (\<lambda>l. l\<lparr>al_assistant_response := Some (case al_assistant_response l of None \<Rightarrow> chunk | Some r \<Rightarrow> r @ chunk)\<rparr>) a"
    have "sb_ok (en_utf8proc E) ?a" "error_message ?a = error_message a" using assms by (simp_all add: on_llm_def sb_ok_def)
    then show ?thesis
      using delta_loop_returns [of E ?a "[]" chunk] IK_STREAM_TEXT_DELTA Some assms by (simp add: ik_repl_handle_text_delta_def)
  qed (use IK_STREAM_TEXT_DELTA assms in simp)
next
  case (IK_STREAM_ERROR c t)
  then show ?thesis using assms by (cases t) (simp_all add: on_llm_def sb_ok_def)
qed (use assms in \<open>simp_all add: on_llm_def sb_ok_def\<close>)

lemma stream_events_error:
  assumes "sb_ok (en_utf8proc E) a"
  shows "returns (stream_events E evs a) (\<lambda>b. sb_ok (en_utf8proc E) b
    \<and> (if Ex (is_error_of evs) then \<exists>t. error_message b = Some t \<and> is_error_of evs t else error_message b = error_message a))"
  using assms
proof (induction evs arbitrary: a)
  case (Cons e evs)
  obtain b where b: "ik_repl_stream_callback E e a = Inr b" "sb_ok (en_utf8proc E) b"
    "error_message b = (case e of IK_STREAM_ERROR c (Some t) \<Rightarrow> Some t | _ \<Rightarrow> error_message a)"
    using stream_callback_error [OF Cons.prems, of e] by (auto elim!: returnsE)
  show ?case
  proof (cases "\<exists>c t. e = IK_STREAM_ERROR c (Some t)")
    case True
    then obtain c t where e: "e = IK_STREAM_ERROR c (Some t)" by blast
    have more: "is_error_of (e # evs) t'" if "is_error_of evs t' \<or> t' = t" for t' using that e by (auto simp: is_error_of_def)
    have "error_message b = Some t" using b(3) e by simp
    then have "returns (stream_events E evs b) (\<lambda>b'. sb_ok (en_utf8proc E) b'
        \<and> (\<exists>t'. error_message b' = Some t' \<and> is_error_of (e # evs) t'))"
      using more by (intro returns_mono [OF Cons.IH [OF b(2)]]) (auto split: if_splits)
    moreover have "Ex (is_error_of (e # evs))" using more by blast
    ultimately show ?thesis using b(1) by simp
  next
    case False
    then have "error_message b = error_message a" using b(3) by (auto split: ik_stream_event.splits option.splits)
    moreover have "is_error_of (e # evs) = is_error_of evs" using False by (intro ext) (auto simp: is_error_of_def)
    ultimately show ?thesis using Cons.IH [OF b(2)] by (simp only: stream_events.simps b(1) res_bind.simps)
  qed
qed (simp add: is_error_of_def)

lemma completion_clears_error:
  "ik_repl_completion_callback E co b = Inr c \<Longrightarrow> co_success co \<Longrightarrow> error_message c = None"
  by (auto simp: ik_repl_completion_callback_def ik_repl_render_usage_event_def ik_repl_store_response_metadata_def
      ik_repl_extract_tool_calls_def clear_pending_data_def append_line_def on_scrollback_def on_llm_def on_tool_def
      res_bind_Inr_iff Let_def split: option.splits if_splits)

lemma api_completion:
  assumes "api_run R J W api chunks = Inr (evs, co)"
  shows "\<exists>c. co = Some c \<and> co_success c \<and> provider_event_ok (Completion_Event c)"
proof (cases api)
  case Anthropic_Api
  then show ?thesis
    using assms anthropic_complete_ok [of 200]
    by (auto simp: res_bind_Inr_iff anthropic_complete_def anthropic_info_read_def ik_anthropic_stream_completion_cb_def
        stream_completion_def simp del: provider_event_ok.simps)
next
  case Google_Api
  then show ?thesis
    using assms google_complete_ok [of 200]
    by (auto simp: res_bind_Inr_iff google_complete_def google_info_read_def ik_google_stream_completion_cb_def
        stream_completion_def simp del: provider_event_ok.simps)
next
  case Responses_Api
  then obtain st where co: "co = Some (ik_openai_stream_completion_handler True 200 None None st)"
    using assms by (auto simp: res_bind_Inr_iff)
  have "co_success (ik_openai_stream_completion_handler True 200 None None st)" by (simp add: ik_openai_stream_completion_handler_def)
  then show ?thesis using co openai_complete_ok by blast
next
  case Chat_Api
  then obtain st where co: "co = Some (ik_openai_stream_completion_handler True 200 None None st)"
    using assms by (auto simp: res_bind_Inr_iff)
  have "co_success (ik_openai_stream_completion_handler True 200 None None st)" by (simp add: ik_openai_stream_completion_handler_def)
  then show ?thesis using co openai_complete_ok by blast
qed

subsection \<open>Theorems\<close>

text \<open>C11. Whichever API an answer of text comes through, and however the reply of the scripted server is cut into chunks, the user
  sees the answer and the conversation records it: after the parser of the API has taken the chunks and the callbacks its events and its
  completion, the scrollback has grown by the lines of the text and two empty lines, no tool call is pending and no error is left;
  and the end of the request adds one message of the assistant with the text to the conversation, stores it as such where
  messages are stored, and starts nothing new.\<close>

theorem answer_shown:
  assumes "json_wire J W" and "J (bytes_of ''[DONE]'') = None" and "nul_free content" and "visible_text content"
    and "handle_request J W stale (Some (api_path api model, body)) (MOCK_TEXT content # q) = Inr (q1, Sse_Reply (concat chunks))"
    and "length (concat chunks) < 2 ^ 31"
    and "sb_repr (en_utf8proc E) (ac_scrollback a) lines" and "al_streaming_line_buffer (ac_llm a) = None"
  shows "returns (receive_reply E R J W api chunks a) (\<lambda>b.
      sb_repr (en_utf8proc E) (ac_scrollback b) (lines @ answer_lines content @ [[], []])
      \<and> at_pending_tool_call (ac_tool b) = None \<and> al_http_error_message (ac_llm b) = None
      \<and> returns (ik_repl_handle_agent_request_success E b) (\<lambda>c.
          al_messages (ac_llm c) = al_messages (ac_llm a) @ [ik_message_create_text IK_ROLE_ASSISTANT content]
          \<and> ac_state c = ac_state a \<and> ac_scrollback c = ac_scrollback b
          \<and> (\<exists>data. ac_effects c = ac_effects b @ (if persists E then [Db_Message ''assistant'' (Some content) data] else []))))"
proof -
  let ?o = "outcome R api (MOCK_TEXT content)"
  have ne: "content \<noteq> []" using assms(4) by (auto simp: visible_text_def)
  obtain rest f where r: "?o = ([IK_STREAM_START (Some (bytes_of ''mock'')), IK_STREAM_TEXT_DELTA 0 (Some content)] @ rest, mock_response_of [] f)"
    "rest = [] \<or> (\<exists>f u. rest = [IK_STREAM_DONE f u])" "f \<noteq> IK_FINISH_TOOL_USE"
    using ne by (cases api) auto
  obtain b where b: "stream_events E (fst ?o) a = Inr b" "al_assistant_response (ac_llm b) = Some content"
    "returns (flush_buffer E b) (\<lambda>a'. sb_repr (en_utf8proc E) (ac_scrollback a') (lines @ answer_lines content))"
    using answer_streamed [OF assms(7,8) ne r(2), of "Some (bytes_of ''mock'')" 0] r(1) by (auto elim!: returnsE)
  have same: "untouched b = untouched a" using stream_events_untouched [OF b(1)] .
  have had: "had_response_content b" using b(2) assms(4) by (simp add: had_response_content_def visible_text_def)
  have e: "extract_loop (rs_content_blocks (snd ?o)) (ac_tool (clear_pending_data b)) = Inr (ac_tool (clear_pending_data b))"
    "rs_usage (snd ?o) = no_usage" "rs_finish_reason (snd ?o) = f"
    "at_pending_tool_call (ac_tool (clear_pending_data b)) = None"
    using r(1) by (simp_all add: mock_response_of_def clear_pending_data_def on_tool_def)
  have "api_run R J W api chunks = Inr (fst ?o, Some (ok_completion (snd ?o)))"
    using assms(3) by (intro api_delivered [OF assms(1,2) _ _ assms(5,6)]) simp_all
  then have run: "receive_reply E R J W api chunks a = ik_repl_completion_callback E (ok_completion (snd ?o)) b"
    using b(1) unfolding receive_reply_def by (simp only: res_bind.simps run_reply)
  show ?thesis unfolding run
  proof (rule returns_mono [OF completed_answer [OF b(3) e(1,2)]], goal_cases)
    case (1 c)
    then have c: "al_assistant_response (ac_llm c) = Some content" "at_pending_tool_call (ac_tool c) = None" "response_total c = Inr 0"
      "al_response_finish_reason (ac_llm c) = Some (finish_reason_str f)" "untouched c = untouched a"
      using b(2) e(3,4) same by simp_all
    show ?case
      using 1 had c(2,5) answer_recorded [OF c(1) ne c(2-4) r(3), of E] by (auto simp: untouched_def elim!: returns_mono)
  qed
qed

text \<open>C17. What becomes of the tool calls of an answer, whichever API it comes through and however the reply of the scripted server is
  cut into chunks: after the parser of the API has taken the chunks and the callbacks its events and its completion, over the Anthropic and
  the Responses API the last of the calls is pending, over the Google API one call with the name of the first and the arguments of all,
  and over the chat API none, although the finish reason is tool use in all cases.\<close>

theorem pending_calls:
  assumes "json_wire J W" and "J (bytes_of ''[DONE]'') = None" and "response_ok (MOCK_TOOL_CALLS tcs)" and "written W (MOCK_TOOL_CALLS tcs)"
    and "handle_request J W stale (Some (api_path api model, body)) (MOCK_TOOL_CALLS tcs # q) = Inr (q1, Sse_Reply (concat chunks))"
    and "length (concat chunks) < 2 ^ 31"
    and "sb_repr (en_utf8proc E) (ac_scrollback a) lines" and "al_streaming_line_buffer (ac_llm a) = None"
    and "al_assistant_response (ac_llm a) = None"
  shows "returns (receive_reply E R J W api chunks a) (\<lambda>b.
      at_pending_tool_call (ac_tool b) = call_left R api tcs \<and> al_response_finish_reason (ac_llm b) = Some ''tool_use''
      \<and> al_messages (ac_llm b) = al_messages (ac_llm a))"
proof -
  let ?o = "outcome R api (MOCK_TOOL_CALLS tcs)"
  obtain evs bs where r: "?o = (evs, mock_response_of bs IK_FINISH_TOOL_USE)" "list_all quiet evs"
    "\<And>t. at_pending_tool_call t = None \<Longrightarrow> \<exists>t'. extract_loop bs t = Inr t' \<and> at_pending_tool_call t' = call_left R api tcs"
    by (rule calls_outcome [of R api tcs]) (rule that)
  obtain b where b: "stream_events E evs a = Inr b" "ac_scrollback b = ac_scrollback a"
    "al_streaming_line_buffer (ac_llm b) = None"
    using quiet_events [OF r(2) assms(8,9)] by blast
  have f: "returns (flush_buffer E b) (\<lambda>a'. sb_repr (en_utf8proc E) (ac_scrollback a') lines)"
    using assms(7) b by (simp add: flush_buffer_def)
  obtain t where t: "extract_loop bs (ac_tool (clear_pending_data b)) = Inr t" "at_pending_tool_call t = call_left R api tcs"
    using r(3) [of "ac_tool (clear_pending_data b)"] by (auto simp: clear_pending_data_def on_tool_def)
  have "receive_reply E R J W api chunks a = ik_repl_completion_callback E (ok_completion (mock_response_of bs IK_FINISH_TOOL_USE)) b"
    using api_delivered [OF assms(1-6), of R] b(1) r(1) unfolding receive_reply_def by (simp only: res_bind.simps run_reply fst_conv snd_conv)
  then show ?thesis
    using completed_answer [OF f, of "mock_response_of bs IK_FINISH_TOOL_USE" t] t stream_events_untouched [OF b(1)]
    by (simp add: mock_response_of_def untouched_def) (auto elim!: returns_mono)
qed

text \<open>C19. An error in the stream of a successful transfer is lost. For each of the four APIs: when a reply with status 200, in whatever chunks,
  yields an error event with a message at any place among its events, then after the events the agent has recorded the message of an error
  event, and after the completion, unless a sum of token counts overflows in it, no error message is left in the agent.\<close>

theorem stream_error_lost:
  assumes "env_ok U E" and "base_inv U a"
    and "api_run R J W api chunks = Inr (evs, co)" and "is_error_of evs m"
  shows "returns (stream_events E evs a) (\<lambda>b. \<exists>t. al_http_error_message (ac_llm b) = Some t \<and> is_error_of evs t)
    \<and> safe (receive_reply E R J W api chunks a) (\<lambda>b. al_http_error_message (ac_llm b) = None)"
proof -
  obtain c where c: "co = Some c" "co_success c" "provider_event_ok (Completion_Event c)"
    using api_completion [OF assms(3)] by blast
  have "list_all provider_event_ok (provider_callbacks (evs, co))"
    using c(1,3) by (auto simp: list_all_iff)
  then have "safe (run_callbacks E (provider_callbacks (evs, co)) a) (calm U a)"
    using assms(1,2) by (intro calm_callbacks) (simp_all add: calm_def)
  moreover have "error_message b = None" if "run_callbacks E (provider_callbacks (evs, co)) a = Inr b" for b
    using that completion_clears_error c(1,2) unfolding c(1) run_reply by (auto simp: res_bind_Inr_iff)
  ultimately have "safe (run_callbacks E (provider_callbacks (evs, co)) a) (\<lambda>b. error_message b = None)"
    by (cases "run_callbacks E (provider_callbacks (evs, co)) a") auto
  moreover have "returns (stream_events E evs a) (\<lambda>b. \<exists>t. error_message b = Some t \<and> is_error_of evs t)"
    using stream_events_error [of E a evs] assms(2,4) env_utf8proc [OF assms(1)]
    by (auto simp: base_inv_def elim!: returns_mono split: if_splits)
  ultimately show ?thesis unfolding receive_reply_def assms(3) res_bind.simps by blast
qed

lemma streaming_ctx_ready:
  "sb_repr (en_utf8proc sample_env) (ac_scrollback streaming_ctx) []" "al_streaming_line_buffer (ac_llm streaming_ctx) = None"
  "al_assistant_response (ac_llm streaming_ctx) = None" "al_messages (ac_llm streaming_ctx) = []" "base_inv ref_utf8proc streaming_ctx"
  using sample_ctx by (simp_all add: streaming_ctx_def on_llm_def fresh_llm_def sample_env_def turn_inv_def base_inv_def sb_ok_def talk_ok_def)

lemma two_chunks: "concat [take n out, drop n out] = out"
  by simp

theorem answer_shown_witness:
  "\<exists>out. handle_request (map_of chat_sample) (table_write chat_sample) (\<lambda>_. []) (Some (bytes_of ''/v1/chat/completions'', None)) [MOCK_TEXT [0x68]]
       = Inr ([], Sse_Reply out)
     \<and> returns (receive_reply sample_env (\<lambda>_ i. i) (map_of chat_sample) (table_write chat_sample) Chat_Api [take 9 out, drop 9 out] streaming_ctx) (\<lambda>b.
      sb_repr ref_utf8proc (ac_scrollback b) [model_prefix @ [0x68], [], []]
      \<and> at_pending_tool_call (ac_tool b) = None \<and> al_http_error_message (ac_llm b) = None
      \<and> returns (ik_repl_handle_agent_request_success sample_env b) (\<lambda>c.
          al_messages (ac_llm c) = [ik_message_create_text IK_ROLE_ASSISTANT [0x68]]
          \<and> ac_state c = ac_state streaming_ctx \<and> ac_scrollback c = ac_scrollback b
          \<and> (\<exists>data. ac_effects c = ac_effects b @ (if persists sample_env then [Db_Message ''assistant'' (Some [0x68]) data] else []))))"
proof -
  obtain out where out: "length out < 1000" "handle_request (map_of chat_sample) (table_write chat_sample) (\<lambda>_. [])
       (Some (bytes_of ''/v1/chat/completions'', None)) [MOCK_TEXT [0x68]] = Inr ([], Sse_Reply out)"
    using chat_sample_reply by blast
  have d: "map_of chat_sample (bytes_of ''[DONE]'') = None"
    by (simp add: chat_sample_def sample_table_def sample_texts_def upt_conv_Cons bytes_of_def)
  have h: "nul_free [0x68]" "visible_text [0x68]" by (simp_all add: nul_free_def visible_text_def)
  have r: "handle_request (map_of chat_sample) (table_write chat_sample) (\<lambda>_. []) (Some (api_path Chat_Api [], None)) [MOCK_TEXT [0x68]]
      = Inr ([], Sse_Reply (concat [take 9 out, drop 9 out]))" "length (concat [take 9 out, drop 9 out]) < 2 ^ 31"
    unfolding two_chunks using out by simp_all
  have l: "answer_lines [0x68] @ [[], []] = [model_prefix @ [0x68], [], []]" "en_utf8proc sample_env = ref_utf8proc"
    by (simp_all add: answer_lines_def sample_env_def)
  note shown = answer_shown [OF chat_wire d h r streaming_ctx_ready(1,2), of "\<lambda>_ i. i",
      unfolded append.left_neutral streaming_ctx_ready(4) l]
  show ?thesis by (intro exI conjI) (rule out(2), rule shown)
qed

theorem pending_calls_witness:
  "\<exists>out. handle_request (map_of google_sample) (table_write google_sample) (\<lambda>_. []) (Some (bytes_of ''/models/'' @ [], None))
       [MOCK_TOOL_CALLS google_calls] = Inr ([], Sse_Reply out)
     \<and> returns (receive_reply sample_env (\<lambda>_ i. i) (map_of google_sample) (table_write google_sample) Google_Api
           [take 9 out, drop 9 out] streaming_ctx) (\<lambda>b.
         at_pending_tool_call (ac_tool b)
           = Some \<lparr>call_id = ik_google_generate_tool_id (\<lambda>i. i), call_name = [0x61], call_arguments = [21] @ bytes_of ''{}''\<rparr>
         \<and> al_response_finish_reason (ac_llm b) = Some ''tool_use'' \<and> al_messages (ac_llm b) = [])"
proof -
  obtain out where out: "length out < 1000" "handle_request (map_of google_sample) (table_write google_sample) (\<lambda>_. [])
       (Some (bytes_of ''/models/'' @ [], None)) [MOCK_TOOL_CALLS google_calls] = Inr ([], Sse_Reply out)"
    using google_sample_reply by blast
  have "table_write google_sample JNull = Some [21]" "table_write google_sample (JObj []) = Some (bytes_of ''{}'')"
    by (simp_all add: table_write_def google_sample_table google_sample_chunk_def google_chunk_def)
  then have w: "written (table_write google_sample) (MOCK_TOOL_CALLS google_calls)"
    unfolding written.simps google_calls_def by fastforce
  have d: "map_of google_sample (bytes_of ''[DONE]'') = None" "response_ok (MOCK_TOOL_CALLS google_calls)"
    by (simp_all add: google_sample_table google_calls_def call_ok_def nul_free_def bytes_of_def)
  have r: "handle_request (map_of google_sample) (table_write google_sample) (\<lambda>_. []) (Some (api_path Google_Api [], None))
      [MOCK_TOOL_CALLS google_calls] = Inr ([], Sse_Reply (concat [take 9 out, drop 9 out]))"
    "length (concat [take 9 out, drop 9 out]) < 2 ^ 31"
    unfolding two_chunks using out by simp_all
  have l: "call_left (\<lambda>_ i. i) Google_Api google_calls
      = Some \<lparr>call_id = ik_google_generate_tool_id (\<lambda>i. i), call_name = [0x61], call_arguments = [21] @ bytes_of ''{}''\<rparr>"
    by (simp add: google_calls_def)
  note left = pending_calls [OF google_wire d w r streaming_ctx_ready(1-3), of "\<lambda>_ i. i", unfolded streaming_ctx_ready(4) l]
  show ?thesis by (intro exI conjI) (rule out(2), rule left)
qed

theorem stream_error_lost_witness:
  "\<exists>evs co. api_run (\<lambda>_ i. i) (\<lambda>_. Some (JObj [])) (\<lambda>_. None) Anthropic_Api
       [take 5 (frame (Some (bytes_of ''error''), [0x78])), drop 5 (frame (Some (bytes_of ''error''), [0x78]))] = Inr (evs, co)
     \<and> returns (stream_events sample_env evs streaming_ctx) (\<lambda>b. \<exists>t. al_http_error_message (ac_llm b) = Some t \<and> is_error_of evs t)
     \<and> safe (receive_reply sample_env (\<lambda>_ i. i) (\<lambda>_. Some (JObj [])) (\<lambda>_. None) Anthropic_Api
         [take 5 (frame (Some (bytes_of ''error''), [0x78])), drop 5 (frame (Some (bytes_of ''error''), [0x78]))] streaming_ctx)
         (\<lambda>b. al_http_error_message (ac_llm b) = None)"
proof -
  let ?f = "(Some (bytes_of ''error''), [0x78])" and ?J = "\<lambda>_. Some (JObj [])"
  let ?chunks = "[take 5 (frame ?f), drop 5 (frame ?f)]" and ?m = "bytes_of ''Unknown error''"
  have d: "handle_docs anthropic_doc [(Some (bytes_of ''error''), JObj [])] (as_stream_ctx anthropic_active_stream)
      = Inr (as_stream_ctx anthropic_active_stream, [IK_STREAM_ERROR IK_ERR_CAT_UNKNOWN (Some ?m)])"
    by (simp add: anthropic_doc_def ik_anthropic_stream_process_event_def ik_anthropic_process_error_def doc_simps bytes_of_def)
  have x: "list_all2 (carries ?J) [?f] [(Some (bytes_of ''error''), JObj [])]"
    by (simp add: bytes_clean) (simp add: clean_def)
  have p: "as_sse_parser anthropic_active_stream = ik_sse_parser_create" by (simp add: anthropic_active_stream_def)
  have c: "concat ?chunks = concat (map frame [?f])" by simp
  have n: "length (concat ?chunks) < 2 ^ 31" by (simp add: sse_format_def event_prefix_def data_prefix_def bytes_of_def)
  obtain co where run: "api_run (\<lambda>_ i. i) ?J (\<lambda>_. None) Anthropic_Api ?chunks = Inr ([IK_STREAM_ERROR IK_ERR_CAT_UNKNOWN (Some ?m)], co)"
    using an.stream_delivered [OF TrueI p x d c n] by auto
  have e: "is_error_of [IK_STREAM_ERROR IK_ERR_CAT_UNKNOWN (Some ?m)] ?m" by (simp add: is_error_of_def)
  show ?thesis
    using stream_error_lost [OF sample_env_ok streaming_ctx_ready(5) run e] run by blast
qed

end
