(* ===== verification/Ik_OpenAI_Response.thy ===== *)
theory Ik_OpenAI_Response
  imports Ik_OpenAI
begin

text \<open>
  Whole responses of the OpenAI APIs: apps/ikigai/providers/openai/response_chat.c, response_responses.c and
  error.c.

  Both parsers count the content blocks first, allocate an array of that size and fill it in a second pass. The
  array is a block of zeroed cells; an assignment outside of it is \<open>MemFault\<close>.
\<close>

definition zero_block :: ik_content_block where
  "zero_block = CONTENT_TEXT None"

definition zero_blocks :: "nat \<Rightarrow> ik_content_block list" where
  "zero_blocks n = replicate (n mod 2 ^ 32) zero_block"

text \<open>A string that has to be there; a missing one is a parse error.\<close>

definition required_str :: "json \<Rightarrow> string \<Rightarrow> cstr res" where
  "required_str v key = (case str_member_of v key of None \<Rightarrow> Inl (Err PARSE) | Some t \<Rightarrow> Inr t)"

text \<open>The two parsers read the usage with the same code; the details need not be an object.\<close>

definition parse_chat_usage :: "json option \<Rightarrow> ik_usage" where
  "parse_chat_usage usage_val =
     (case usage_val of None \<Rightarrow> no_usage
      | Some v \<Rightarrow>
         (let u1 = set_if (\<lambda>n u. u\<lparr>us_input_tokens := n\<rparr>) (int32_member_of v ''prompt_tokens'') no_usage;
              u2 = set_if (\<lambda>n u. u\<lparr>us_output_tokens := n\<rparr>) (int32_member_of v ''completion_tokens'') u1;
              u3 = set_if (\<lambda>n u. u\<lparr>us_total_tokens := n\<rparr>) (int32_member_of v ''total_tokens'') u2
          in case obj_get v ''completion_tokens_details'' of None \<Rightarrow> u3
             | Some d \<Rightarrow> set_if (\<lambda>n u. u\<lparr>us_thinking_tokens := n\<rparr>) (int32_member_of d ''reasoning_tokens'') u3))"

subsection \<open>response_chat.c\<close>

definition parse_chat_tool_call :: "json \<Rightarrow> ik_content_block res" where
  "parse_chat_tool_call tc_val =
     res_bind (required_str tc_val ''id'') (\<lambda>i.
       case obj_get tc_val ''function'' of None \<Rightarrow> Inl (Err PARSE)
       | Some func_val \<Rightarrow>
          res_bind (required_str func_val ''name'') (\<lambda>name.
          res_bind (required_str func_val ''arguments'') (\<lambda>args_str.
            Inr (CONTENT_TOOL_CALL (Some i) (Some name) (Some args_str) None))))"

fun fill_tool_calls :: "json list \<Rightarrow> nat \<Rightarrow> ik_content_block list \<Rightarrow> ik_content_block list res" where
  "fill_tool_calls [] block_idx blocks = Inr blocks"
| "fill_tool_calls (tc_val # rest) block_idx blocks =
     res_bind (parse_chat_tool_call tc_val) (\<lambda>b.
     res_bind (store blocks block_idx b) (fill_tool_calls rest (block_idx + 1)))"

definition chat_content :: "json \<Rightarrow> cstr option" where
  "chat_content message = (case str_member_of message ''content'' of Some (c # cs) \<Rightarrow> Some (c # cs) | _ \<Rightarrow> None)"

definition chat_message_blocks :: "json \<Rightarrow> ik_content_block list res" where
  "chat_message_blocks message =
     (let content_str = chat_content message;
          calls = default [] (arr_member_of message ''tool_calls'');
          content_count = (if content_str \<noteq> None then 1 else 0) + length calls
      in if content_count = 0 then Inr []
         else check_assert (content_count \<le> 2 ^ 32 - 1)
           (res_bind (case content_str of None \<Rightarrow> Inr (zero_blocks content_count, 0)
                      | Some t \<Rightarrow> res_bind (store (zero_blocks content_count) 0 (CONTENT_TEXT (Some t))) (\<lambda>bs. Inr (bs, 1)))
             (\<lambda>(blocks, block_idx). fill_tool_calls calls block_idx blocks)))"

definition ik_openai_parse_chat_response :: "yyjson \<Rightarrow> byte list \<Rightarrow> ik_response res" where
  "ik_openai_parse_chat_response J body =
     (case J body of None \<Rightarrow> Inl (Err PARSE)
      | Some v \<Rightarrow>
         if \<not> is_obj v then Inl (Err PARSE)
         else if obj_get v ''error'' \<noteq> None then Inl (Err PROVIDER)
         else (let resp = \<lparr>rs_content_blocks = [], rs_finish_reason = IK_FINISH_UNKNOWN,
                     rs_usage = parse_chat_usage (obj_get v ''usage''), rs_model = str_member_of v ''model'',
                     rs_provider_data = None\<rparr>
               in case arr_member_of v ''choices'' of
                    Some (choice # others) \<Rightarrow>
                      (let resp1 = set_if (\<lambda>r s. s\<lparr>rs_finish_reason := ik_openai_map_chat_finish_reason r\<rparr>)
                             (str_member_of choice ''finish_reason'') resp
                       in case obj_get choice ''message'' of None \<Rightarrow> Inr resp1
                          | Some message \<Rightarrow>
                             res_bind (chat_message_blocks message) (\<lambda>blocks. Inr (resp1\<lparr>rs_content_blocks := blocks\<rparr>)))
                  | _ \<Rightarrow> Inr resp))"

definition map_http_status_to_category :: "int \<Rightarrow> ik_error_category" where
  "map_http_status_to_category http_status =
     (if http_status = 400 then IK_ERR_CAT_INVALID_ARG
      else if http_status = 401 \<or> http_status = 403 then IK_ERR_CAT_AUTH
      else if http_status = 404 then IK_ERR_CAT_NOT_FOUND
      else if http_status = 429 then IK_ERR_CAT_RATE_LIMIT
      else if http_status = 500 \<or> http_status = 502 \<or> http_status = 503 then IK_ERR_CAT_SERVER
      else IK_ERR_CAT_UNKNOWN)"

definition format_error_message :: "cstr option \<Rightarrow> cstr option \<Rightarrow> cstr option \<Rightarrow> int \<Rightarrow> cstr" where
  "format_error_message type_str code_str msg_str http_status =
     (case (type_str, code_str, msg_str) of
        (Some t, Some c, Some m) \<Rightarrow> t @ bytes_of '' ('' @ c @ bytes_of ''): '' @ m
      | (Some t, None, Some m) \<Rightarrow> t @ bytes_of '': '' @ m
      | (None, c, Some m) \<Rightarrow> m
      | (Some t, c, None) \<Rightarrow> t
      | (None, c, None) \<Rightarrow> bytes_of ''HTTP '' @ dec_int http_status)"

definition try_parse_json_error :: "yyjson \<Rightarrow> byte list option \<Rightarrow> int \<Rightarrow> cstr option" where
  "try_parse_json_error J body http_status =
     (case body of None \<Rightarrow> None
      | Some t \<Rightarrow>
         if t = [] then None
         else (case J t of None \<Rightarrow> None
          | Some v \<Rightarrow>
             if \<not> is_obj v then None
             else map_option (\<lambda>error_obj. format_error_message (str_member_of error_obj ''type'')
                    (str_member_of error_obj ''code'') (str_member_of error_obj ''message'') http_status)
                  (obj_get v ''error'')))"

definition ik_openai_parse_error :: "yyjson \<Rightarrow> int \<Rightarrow> byte list option \<Rightarrow> ik_error_category \<times> cstr" where
  "ik_openai_parse_error J http_status body =
     (map_http_status_to_category http_status,
      default (bytes_of ''HTTP '' @ dec_int http_status) (try_parse_json_error J body http_status))"

subsection \<open>response_responses.c\<close>

definition parse_function_call :: "json \<Rightarrow> ik_content_block res" where
  "parse_function_call item =
     (case (case str_member_of item ''call_id'' of Some i \<Rightarrow> Some i | None \<Rightarrow> str_member_of item ''id'') of
        None \<Rightarrow> Inl (Err PARSE)
      | Some i \<Rightarrow>
         res_bind (required_str item ''name'') (\<lambda>name.
         res_bind (required_str item ''arguments'') (\<lambda>args_str.
           Inr (CONTENT_TOOL_CALL (Some i) (Some name) (Some args_str) None))))"

definition count_item :: "json \<Rightarrow> nat" where
  "count_item item =
     (if str_member_of item ''type'' = Some (bytes_of ''message'') then length (default [] (arr_member_of item ''content''))
      else if str_member_of item ''type'' = Some (bytes_of ''function_call'') then 1 else 0)"

fun count_content_blocks :: "json list \<Rightarrow> nat" where
  "count_content_blocks [] = 0"
| "count_content_blocks (item # items) = count_item item + count_content_blocks items"

text \<open>The text of a content item of the given member; without it nothing is added.\<close>

definition add_text ::
  "json \<Rightarrow> string \<Rightarrow> ik_content_block list \<times> nat \<Rightarrow> (ik_content_block list \<times> nat) res" where
  "add_text content_item key st =
     (case str_member_of content_item key of None \<Rightarrow> Inr st
      | Some t \<Rightarrow> res_bind (store (fst st) (snd st) (CONTENT_TEXT (Some t))) (\<lambda>bs. Inr (bs, snd st + 1)))"

definition process_output_text :: "json \<Rightarrow> ik_content_block list \<times> nat \<Rightarrow> (ik_content_block list \<times> nat) res" where
  "process_output_text content_item st = add_text content_item ''text'' st"

definition process_refusal :: "json \<Rightarrow> ik_content_block list \<times> nat \<Rightarrow> (ik_content_block list \<times> nat) res" where
  "process_refusal content_item st = add_text content_item ''refusal'' st"

definition process_content_item :: "json \<Rightarrow> ik_content_block list \<times> nat \<Rightarrow> (ik_content_block list \<times> nat) res" where
  "process_content_item content_item st =
     (if str_member_of content_item ''type'' = Some (bytes_of ''output_text'') then process_output_text content_item st
      else if str_member_of content_item ''type'' = Some (bytes_of ''refusal'') then process_refusal content_item st
      else Inr st)"

fun process_message_content ::
  "json list \<Rightarrow> ik_content_block list \<times> nat \<Rightarrow> (ik_content_block list \<times> nat) res" where
  "process_message_content [] st = Inr st"
| "process_message_content (content_item # rest) st =
     res_bind (process_content_item content_item st) (process_message_content rest)"

definition process_output_item :: "json \<Rightarrow> ik_content_block list \<times> nat \<Rightarrow> (ik_content_block list \<times> nat) res" where
  "process_output_item item st =
     (if str_member_of item ''type'' = Some (bytes_of ''message'')
      then process_message_content (default [] (arr_member_of item ''content'')) st
      else if str_member_of item ''type'' = Some (bytes_of ''function_call'')
      then res_bind (parse_function_call item) (\<lambda>b.
           res_bind (store (fst st) (snd st) b) (\<lambda>bs. Inr (bs, snd st + 1)))
      else Inr st)"

fun process_output_items :: "json list \<Rightarrow> ik_content_block list \<times> nat \<Rightarrow> (ik_content_block list \<times> nat) res" where
  "process_output_items [] st = Inr st"
| "process_output_items (item # items) st = res_bind (process_output_item item st) (process_output_items items)"

definition ik_openai_map_responses_status :: "cstr option \<Rightarrow> cstr option \<Rightarrow> ik_finish_reason" where
  "ik_openai_map_responses_status status incomplete_reason =
     (case status of None \<Rightarrow> IK_FINISH_UNKNOWN
      | Some s \<Rightarrow>
         if s = bytes_of ''completed'' then IK_FINISH_STOP
         else if s = bytes_of ''failed'' then IK_FINISH_ERROR
         else if s = bytes_of ''cancelled'' then IK_FINISH_STOP
         else if s = bytes_of ''incomplete'' then
           (if incomplete_reason = Some (bytes_of ''content_filter'') then IK_FINISH_CONTENT_FILTER else IK_FINISH_LENGTH)
         else IK_FINISH_UNKNOWN)"

definition extract_basic_fields :: "json \<Rightarrow> ik_response" where
  "extract_basic_fields v =
     \<lparr>rs_content_blocks = [],
      rs_finish_reason = ik_openai_map_responses_status (str_member_of v ''status'')
        (case obj_get v ''incomplete_details'' of None \<Rightarrow> None | Some d \<Rightarrow> str_member_of d ''reason''),
      rs_usage = parse_chat_usage (obj_get v ''usage''), rs_model = str_member_of v ''model'', rs_provider_data = None\<rparr>"

definition ik_openai_parse_responses_response :: "yyjson \<Rightarrow> byte list \<Rightarrow> ik_response res" where
  "ik_openai_parse_responses_response J body =
     (case J body of None \<Rightarrow> Inl (Err PARSE)
      | Some v \<Rightarrow>
         if \<not> is_obj v then Inl (Err PARSE)
         else if obj_get v ''error'' \<noteq> None then Inl (Err PROVIDER)
         else (let resp = extract_basic_fields v
               in case arr_member_of v ''output'' of None \<Rightarrow> Inr resp
                  | Some items \<Rightarrow>
                     (let content_count = count_content_blocks items
                      in if items = [] \<or> content_count = 0 then Inr resp
                         else check_assert (content_count \<le> 2 ^ 32 - 1)
                           (res_bind (process_output_items items (zero_blocks content_count, 0))
                             (\<lambda>(blocks, block_idx). Inr (resp\<lparr>rs_content_blocks := take block_idx blocks\<rparr>))))))"

subsection \<open>error.c\<close>

definition is_content_filter :: "cstr option \<Rightarrow> bool" where
  "is_content_filter s = (case s of None \<Rightarrow> False | Some t \<Rightarrow> contains ''content_filter'' t)"

definition refine_category :: "cstr option \<Rightarrow> ik_error_category \<Rightarrow> ik_error_category" where
  "refine_category code category =
     (case code of None \<Rightarrow> category
      | Some c \<Rightarrow>
         if c = bytes_of ''invalid_api_key'' \<or> c = bytes_of ''invalid_org'' then IK_ERR_CAT_AUTH
         else if c = bytes_of ''rate_limit_exceeded'' \<or> c = bytes_of ''quota_exceeded'' then IK_ERR_CAT_RATE_LIMIT
         else if c = bytes_of ''model_not_found'' then IK_ERR_CAT_NOT_FOUND
         else category)"

definition ik_openai_handle_error :: "yyjson \<Rightarrow> int \<Rightarrow> cstr \<Rightarrow> ik_error_category \<times> err_code option" where
  "ik_openai_handle_error J status body =
     (let category = map_http_status_to_category status
      in case J body of None \<Rightarrow> (category, Some PARSE)
         | Some v \<Rightarrow>
            (case obj_member_of v ''error'' of None \<Rightarrow> (category, None)
             | Some error_obj \<Rightarrow>
                (if is_content_filter (str_member_of error_obj ''code'') \<or> is_content_filter (str_member_of error_obj ''type'')
                 then IK_ERR_CAT_CONTENT_FILTER
                 else refine_category (str_member_of error_obj ''code'') category, None)))"

subsection \<open>What the parsers find\<close>

text \<open>The content blocks of a message and of the items of a response, as lists.\<close>

definition item_text :: "json \<Rightarrow> ik_content_block list" where
  "item_text content_item =
     (let key = (if str_member_of content_item ''type'' = Some (bytes_of ''output_text'') then Some ''text''
                 else if str_member_of content_item ''type'' = Some (bytes_of ''refusal'') then Some ''refusal'' else None)
      in case key of None \<Rightarrow> []
         | Some k \<Rightarrow> (case str_member_of content_item k of None \<Rightarrow> [] | Some t \<Rightarrow> [CONTENT_TEXT (Some t)]))"

definition item_blocks :: "json \<Rightarrow> ik_content_block list res" where
  "item_blocks item =
     (if str_member_of item ''type'' = Some (bytes_of ''message'')
      then Inr (concat (map item_text (default [] (arr_member_of item ''content''))))
      else if str_member_of item ''type'' = Some (bytes_of ''function_call'')
      then res_bind (parse_function_call item) (\<lambda>b. Inr [b]) else Inr [])"

fun all_blocks :: "json list \<Rightarrow> ik_content_block list res" where
  "all_blocks [] = Inr []"
| "all_blocks (item # items) = res_bind (item_blocks item) (\<lambda>bs. res_bind (all_blocks items) (\<lambda>rest. Inr (bs @ rest)))"

text \<open>The array during the second pass: the blocks found so far and the free cells behind them.\<close>

definition block_cells :: "ik_content_block list \<Rightarrow> nat \<Rightarrow> ik_content_block list \<times> nat" where
  "block_cells us k = (us @ replicate k zero_block, length us)"

lemma store_cells: "0 < k \<Longrightarrow> store (fst (block_cells us k)) (snd (block_cells us k)) b = Inr (fst (block_cells (us @ [b]) (k - 1)))"
  by (cases k) (simp_all add: block_cells_def store_mid)

lemma add_text_cells:
  "0 < k \<Longrightarrow> add_text v key (block_cells us k) =
     Inr (case str_member_of v key of None \<Rightarrow> block_cells us k | Some t \<Rightarrow> block_cells (us @ [CONTENT_TEXT (Some t)]) (k - 1))"
  using store_cells [of k us] by (simp add: add_text_def split: option.splits) (simp add: block_cells_def)

lemma content_item_cells:
  "0 < k \<Longrightarrow> process_content_item v (block_cells us k) = Inr (block_cells (us @ item_text v) (k - length (item_text v)))"
  using add_text_cells [of k v "''text''" us] add_text_cells [of k v "''refusal''" us]
  by (simp add: process_content_item_def process_output_text_def process_refusal_def item_text_def split: option.splits)

lemma item_text_length: "length (item_text v) \<le> 1"
  by (simp add: item_text_def split: option.splits)

lemma message_content_cells:
  "length vs \<le> k \<Longrightarrow>
   process_message_content vs (block_cells us k) = Inr (block_cells (us @ concat (map item_text vs)) (k - length (concat (map item_text vs))))"
proof (induction vs arbitrary: us k)
  case (Cons v vs)
  let ?n = "length (item_text v)"
  have "length vs \<le> k - ?n" using Cons.prems item_text_length [of v] by simp
  then show ?case
    using Cons.IH [of "k - ?n" "us @ item_text v"] content_item_cells [of k v us] Cons.prems by simp
qed simp

lemma texts_length: "length (concat (map item_text vs)) \<le> length vs"
proof (induction vs)
  case (Cons v vs)
  then show ?case using item_text_length [of v] by simp
qed simp

lemma output_item_cells:
  assumes "count_item v \<le> k"
  shows "process_output_item v (block_cells us k) =
     res_bind (item_blocks v) (\<lambda>bs. Inr (block_cells (us @ bs) (k - length bs)))"
  using assms message_content_cells [of "default [] (arr_member_of v ''content'')" k us] store_cells [of k us]
  by (cases "parse_function_call v")
     (auto simp: process_output_item_def count_item_def item_blocks_def block_cells_def)

lemma item_blocks_length: "item_blocks v = Inr bs \<Longrightarrow> length bs \<le> count_item v"
  using texts_length by (auto simp: item_blocks_def count_item_def res_bind_Inr_iff split: if_splits)

lemma all_blocks_length: "all_blocks vs = Inr bs \<Longrightarrow> length bs \<le> count_content_blocks vs"
  by (induction vs arbitrary: bs) (fastforce simp: res_bind_Inr_iff dest: item_blocks_length)+

lemma output_items_cells:
  "count_content_blocks vs \<le> k \<Longrightarrow>
   process_output_items vs (block_cells us k) = res_bind (all_blocks vs) (\<lambda>bs. Inr (block_cells (us @ bs) (k - length bs)))"
proof (induction vs arbitrary: us k)
  case (Cons v vs)
  show ?case
  proof (cases "item_blocks v")
    case (Inl e)
    then show ?thesis using output_item_cells [of v k us] Cons.prems by simp
  next
    case (Inr bs)
    then have "count_content_blocks vs \<le> k - length bs"
      using item_blocks_length Cons.prems by fastforce
    then show ?thesis
      using Cons.IH [of "k - length bs" "us @ bs"] output_item_cells [of v k us] Inr Cons.prems
      by (cases "all_blocks vs") simp_all
  qed
qed simp

subsection \<open>Theorems\<close>

text \<open>C18. The two passes of the parser of a whole response agree: the array allocated for the counted content
  blocks is never overrun, whatever the server sends, and the response holds exactly the texts, refusals and
  function calls of the items in their order; the first malformed function call makes it a parse error.\<close>

theorem responses_blocks:
  assumes "J body = Some v" and "is_obj v" and "obj_get v ''error'' = None"
    and "count_content_blocks (default [] (arr_member_of v ''output'')) < 2 ^ 32"
  shows "ik_openai_parse_responses_response J body =
    res_bind (all_blocks (default [] (arr_member_of v ''output'')))
      (\<lambda>blocks. Inr ((extract_basic_fields v)\<lparr>rs_content_blocks := blocks\<rparr>))"
proof (cases "arr_member_of v ''output''")
  case None
  have "(extract_basic_fields v)\<lparr>rs_content_blocks := []\<rparr> = extract_basic_fields v"
    by (simp add: extract_basic_fields_def)
  then show ?thesis using assms None by (simp add: ik_openai_parse_responses_response_def)
next
  case (Some items)
  let ?n = "count_content_blocks items"
  have e: "(extract_basic_fields v)\<lparr>rs_content_blocks := []\<rparr> = extract_basic_fields v"
    by (simp add: extract_basic_fields_def)
  have z: "zero_blocks ?n = replicate ?n zero_block" using assms(4) Some by (simp add: zero_blocks_def)
  have p: "process_output_items items (zero_blocks ?n, 0) = res_bind (all_blocks items) (\<lambda>bs. Inr (block_cells bs (?n - length bs)))"
    using output_items_cells [of items ?n "[]"] by (simp add: block_cells_def z)
  show ?thesis
  proof (cases "items = [] \<or> ?n = 0")
    case True
    then have "all_blocks items = Inr [] \<or> (\<exists>f. all_blocks items = Inl f)"
      using all_blocks_length [of items] by (cases "all_blocks items") auto
    moreover have "all_blocks items = Inr []" if "?n = 0"
      using that by (induction items) (auto simp: count_item_def item_blocks_def split: if_splits)
    ultimately show ?thesis using assms Some True e by (auto simp: ik_openai_parse_responses_response_def)
  next
    case False
    then show ?thesis
      using assms Some p by (cases "all_blocks items") (simp_all add: ik_openai_parse_responses_response_def check_assert_def block_cells_def)
  qed
qed

definition sample_output :: "json list" where
  "sample_output =
     [JObj [(bytes_of ''type'', JStr (bytes_of ''message'')), (bytes_of ''content'', JArr
        [JObj [(bytes_of ''type'', JStr (bytes_of ''output_text'')), (bytes_of ''text'', JStr [0x68])],
         JObj [(bytes_of ''type'', JStr (bytes_of ''other''))]])],
      JObj [(bytes_of ''type'', JStr (bytes_of ''function_call'')), (bytes_of ''id'', JStr [0x31]),
        (bytes_of ''name'', JStr [0x61]), (bytes_of ''arguments'', JStr [0x7B, 0x7D])]]"

definition sample_body :: json where
  "sample_body = JObj [(bytes_of ''status'', JStr (bytes_of ''completed'')), (bytes_of ''output'', JArr sample_output)]"

theorem responses_blocks_witness:
  "ik_openai_parse_responses_response (\<lambda>_. Some sample_body) [] =
     Inr ((extract_basic_fields sample_body)\<lparr>rs_content_blocks :=
       [CONTENT_TEXT (Some [0x68]), CONTENT_TOOL_CALL (Some [0x31]) (Some [0x61]) (Some [0x7B, 0x7D]) None]\<rparr>)"
proof -
  have v: "is_obj sample_body" "obj_get sample_body ''error'' = None" "arr_member_of sample_body ''output'' = Some sample_output"
    by (simp_all add: sample_body_def arr_member_of_def bytes_of_def)
  have b: "all_blocks sample_output
      = Inr [CONTENT_TEXT (Some [0x68]), CONTENT_TOOL_CALL (Some [0x31]) (Some [0x61]) (Some [0x7B, 0x7D]) None]"
    by (simp add: sample_output_def item_blocks_def item_text_def parse_function_call_def required_str_def str_member_of_def
        arr_member_of_def bytes_of_def c_string_def)
  have "count_content_blocks sample_output < 2 ^ 32"
    by (simp add: sample_output_def count_item_def str_member_of_def arr_member_of_def bytes_of_def c_string_def)
  then show ?thesis using responses_blocks [of "\<lambda>_. Some sample_body" "[]" sample_body] v b by simp
qed

end
