(* ===== verification/Ik_Request_Json.thy ===== *)
theory Ik_Request_Json
  imports Ik_Message
begin

unbundle bit_operations_syntax

text \<open>
  What the serializers of requests share: members of the objects they build, loops that stop at the first failure, and the
  thinking budgets, which anthropic/thinking.c and google/thinking.c compute with the same code.

  yyjson does not add a \<^verbatim>\<open>NULL\<close> string to an object (\<open>with_str\<close>).
\<close>

subsection \<open>Members\<close>

definition str_mem :: "string \<Rightarrow> cstr \<Rightarrow> byte list \<times> json" where
  "str_mem key v = (bytes_of key, JStr v)"

definition lit_m :: "string \<Rightarrow> string \<Rightarrow> byte list \<times> json" where
  "lit_m key v = (bytes_of key, JStr (bytes_of v))"

definition with_str :: "string \<Rightarrow> text_ptr \<Rightarrow> (byte list \<times> json) list \<Rightarrow> (byte list \<times> json) list option" where
  "with_str key t ms = map_option (\<lambda>s. ms @ [str_mem key s]) t"

lemma with_str_simps [simp]: "with_str key None ms = None" "with_str key (Some s) ms = Some (ms @ [str_mem key s])"
  by (simp_all add: with_str_def)

text \<open>\<^verbatim>\<open>NULL\<close> or the empty string.\<close>

definition empty_ptr :: "text_ptr \<Rightarrow> bool" where
  "empty_ptr t \<longleftrightarrow> t = None \<or> t = Some []"

definition starts :: "string \<Rightarrow> cstr \<Rightarrow> bool" where
  "starts pat t \<longleftrightarrow> take (length pat) t = bytes_of pat"

text \<open>A loop over all elements that stops with a failure at the first that fails.\<close>

fun map_all :: "('a \<Rightarrow> 'b option) \<Rightarrow> 'a list \<Rightarrow> 'b list option" where
  "map_all f [] = Some []"
| "map_all f (x # xs) = (case f x of None \<Rightarrow> None | Some y \<Rightarrow> map_option ((#) y) (map_all f xs))"

lemma map_all_eq_Some: "map_all f xs = Some ys \<longleftrightarrow> map f xs = map Some ys"
proof (induction xs arbitrary: ys)
  case (Cons x xs)
  then show ?case by (cases ys) (auto split: option.splits)
qed auto

lemma map_all_eq_None: "map_all f xs = None \<longleftrightarrow> (\<exists>x \<in> set xs. f x = None)"
  by (induction xs) (auto split: option.splits)

text \<open>The same with faults: \<open>req_str\<close> is a string that has to be there.\<close>

definition req_str :: "fault \<Rightarrow> text_ptr \<Rightarrow> cstr res" where
  "req_str e t = (case t of None \<Rightarrow> Inl e | Some s \<Rightarrow> Inr s)"

lemma req_str_simps [simp]: "req_str e None = Inl e" "req_str e (Some s) = Inr s"
  by (simp_all add: req_str_def)

fun map_res :: "('a \<Rightarrow> 'b res) \<Rightarrow> 'a list \<Rightarrow> 'b list res" where
  "map_res f [] = Inr []"
| "map_res f (x # xs) = res_bind (f x) (\<lambda>y. res_bind (map_res f xs) (\<lambda>ys. Inr (y # ys)))"

lemma map_res_eq_Inr: "map_res f xs = Inr ys \<longleftrightarrow> map f xs = map Inr ys"
proof (induction xs arbitrary: ys)
  case (Cons x xs)
  then show ?case by (cases ys) (auto simp: res_bind_Inr_iff)
qed auto

lemma map_res_fails: "(\<exists>e. map_res f xs = Inl e) \<longleftrightarrow> (\<exists>x \<in> set xs. \<exists>e. f x = Inl e)"
proof (induction xs)
  case (Cons x xs)
  then show ?case by (cases "f x"; cases "map_res f xs") auto
qed simp

text \<open>A computation that returns under a condition and ends with a given fault otherwise.\<close>

definition succeeds_iff :: "bool \<Rightarrow> fault \<Rightarrow> 'a res \<Rightarrow> bool" where
  "succeeds_iff c e m \<longleftrightarrow> (if c then (\<exists>x. m = Inr x) else m = Inl e)"

lemma succeeds_bind:
  assumes "succeeds_iff c e m" and "\<And>x. succeeds_iff d e (f x)"
  shows "succeeds_iff (c \<and> d) e (res_bind m f)"
  using assms by (auto simp: succeeds_iff_def split: if_splits)

lemma succeeds_Inr: "succeeds_iff True e (Inr x)"
  by (simp add: succeeds_iff_def)

lemma succeeds_then:
  assumes "succeeds_iff c e m"
  shows "succeeds_iff c e (res_bind m (\<lambda>x. Inr (f x)))"
  using succeeds_bind [OF assms succeeds_Inr] by simp

lemma succeeds_map: "(\<And>x. x \<in> set xs \<Longrightarrow> succeeds_iff (c x) e (f x)) \<Longrightarrow> succeeds_iff (list_all c xs) e (map_res f xs)"
proof (induction xs)
  case (Cons x xs)
  then have "succeeds_iff (c x) e (f x)" and "succeeds_iff (list_all c xs) e (map_res f xs)" by simp_all
  from succeeds_bind [OF this(1) succeeds_then [OF this(2)]] show ?case by simp
qed (simp add: succeeds_Inr)

lemma list_all_Cons_iff: "list_all P (x # xs) \<longleftrightarrow> P x \<and> list_all P xs"
  by simp

text \<open>A block that has all of its strings.\<close>

fun complete_block :: "ik_content_block \<Rightarrow> bool" where
  "complete_block (CONTENT_TEXT t) = (t \<noteq> None)"
| "complete_block (CONTENT_TOOL_CALL i name args sig) = (i \<noteq> None \<and> name \<noteq> None \<and> args \<noteq> None)"
| "complete_block (CONTENT_TOOL_RESULT i content is_error) = (i \<noteq> None \<and> content \<noteq> None)"
| "complete_block (CONTENT_THINKING t signature) = (t \<noteq> None)"
| "complete_block (CONTENT_REDACTED_THINKING data) = (data \<noteq> None)"

definition every_block :: "(ik_content_block \<Rightarrow> bool) \<Rightarrow> ik_request \<Rightarrow> bool" where
  "every_block P req \<longleftrightarrow> list_all (\<lambda>m. list_all P (msg_blocks m)) (req_messages req)"

definition tools_parse :: "yyjson \<Rightarrow> ik_request \<Rightarrow> bool" where
  "tools_parse J req \<longleftrightarrow> list_all (\<lambda>t. J (td_parameters t) \<noteq> None) (req_tools req)"

definition tool_choice_str :: "string \<Rightarrow> string \<Rightarrow> string \<Rightarrow> int \<Rightarrow> string" where
  "tool_choice_str auto_s none_s required_s mode = (if mode = 1 then none_s else if mode = 2 then required_s else auto_s)"

definition max_tokens_field :: "string \<Rightarrow> ik_request \<Rightarrow> (byte list \<times> json) list" where
  "max_tokens_field key req = (if req_max_output_tokens req > 0 then [(bytes_of key, JInt (req_max_output_tokens req))] else [])"

subsection \<open>Thinking budgets\<close>

text \<open>The value of a table for a level.\<close>

fun pick_level :: "ik_thinking_level \<Rightarrow> 'a \<times> 'a \<times> 'a \<times> 'a \<Rightarrow> 'a" where
  "pick_level IK_THINKING_MIN (a, b, c, d) = a"
| "pick_level IK_THINKING_LOW (a, b, c, d) = b"
| "pick_level IK_THINKING_MED (a, b, c, d) = c"
| "pick_level IK_THINKING_HIGH (a, b, c, d) = d"

definition smear :: "nat \<Rightarrow> int \<Rightarrow> int" where
  "smear s n = n OR drop_bit s n"

definition floor_power_of_2 :: "int \<Rightarrow> int" where
  "floor_power_of_2 n =
     (if n \<le> 0 then 0 else drop_bit 1 (smear 16 (smear 8 (smear 4 (smear 2 (smear 1 n))))) + 1)"

fun level_budget :: "int \<times> int \<Rightarrow> ik_thinking_level \<Rightarrow> int" where
  "level_budget (min_budget, max_budget) IK_THINKING_MIN = min_budget"
| "level_budget (min_budget, max_budget) IK_THINKING_LOW = floor_power_of_2 (min_budget + (max_budget - min_budget) div 3)"
| "level_budget (min_budget, max_budget) IK_THINKING_MED = floor_power_of_2 (min_budget + (2 * (max_budget - min_budget)) div 3)"
| "level_budget (min_budget, max_budget) IK_THINKING_HIGH = max_budget"

text \<open>The \<open>w\<close> bits below and with bit \<open>k\<close> are set, and none above.\<close>

definition smeared :: "nat \<Rightarrow> nat \<Rightarrow> int \<Rightarrow> bool" where
  "smeared k w n \<longleftrightarrow> (\<forall>i. bit n i \<longrightarrow> i \<le> k) \<and> (\<forall>i. i \<le> k \<and> k < i + w \<longrightarrow> bit n i)"

lemma smear_step: "smeared k w n \<Longrightarrow> s \<le> w \<Longrightarrow> smeared k (w + s) (smear s n)"
  unfolding smeared_def smear_def bit_or_iff bit_drop_bit_eq
proof (intro conjI allI impI)
  fix i
  assume n: "(\<forall>i. bit n i \<longrightarrow> i \<le> k) \<and> (\<forall>i. i \<le> k \<and> k < i + w \<longrightarrow> bit n i)" and s: "s \<le> w"
  show "i \<le> k" if "bit n i \<or> (bit n \<circ> (+) s) i" using that n by fastforce
  show "bit n i \<or> (bit n \<circ> (+) s) i" if "i \<le> k \<and> k < i + (w + s)"
    using that n s by (cases "k < i + w") auto
qed

lemma smeared_all: "smeared k w n \<Longrightarrow> k < w \<Longrightarrow> n = mask (k + 1)"
  unfolding smeared_def by (intro bit_eqI) (auto simp: bit_mask_iff)

lemma highest_bit:
  fixes n :: int
  assumes "2 ^ k \<le> n" and "n < 2 ^ (k + 1)"
  shows "smeared k 1 n"
proof -
  have "n div 2 ^ k = 1" using assms by (intro int_div_pos_eq [where r = "n - 2 ^ k"]) auto
  then have k: "bit n k" by (simp add: bit_iff_odd)
  have "\<not> bit n i" if "k < i" for i
  proof -
    have "(2 :: int) ^ (k + 1) \<le> 2 ^ i" using that by (intro power_increasing) auto
    then have "n div 2 ^ i = 0" using assms by (intro div_pos_pos_trivial) (auto intro: order_trans [of 0 "2 ^ k"])
    then show ?thesis by (simp add: bit_iff_odd)
  qed
  moreover have "i = k" if "i \<le> k" and "k < i + 1" for i using that by simp
  ultimately show ?thesis using k unfolding smeared_def by (metis not_less)
qed

lemma floor_power_of_2_eq:
  assumes "2 ^ k \<le> n" and "n < 2 ^ (k + 1)" and "k < 32"
  shows "floor_power_of_2 n = 2 ^ k"
proof -
  have d: "smeared k (2 * w) (smear w m)" if "smeared k w m" for w m
    using smear_step [OF that, of w] by (simp add: mult_2)
  note d [OF d [OF d [OF d [OF d [OF highest_bit [OF assms(1,2)]]]]]]
  then have "smeared k 32 (smear 16 (smear 8 (smear 4 (smear 2 (smear 1 n)))))" by simp
  then have "smear 16 (smear 8 (smear 4 (smear 2 (smear 1 n)))) = mask (k + 1)"
    using assms(3) by (rule smeared_all)
  moreover have "0 < n" using assms(1) by (metis less_le_trans zero_less_numeral zero_less_power)
  moreover have "drop_bit 1 (mask (k + 1) :: int) = mask k"
    by (intro bit_eqI) (auto simp: bit_drop_bit_eq bit_mask_iff)
  ultimately show ?thesis by (simp add: floor_power_of_2_def mask_eq_exp_minus_1)
qed

text \<open>The rounding that both thinking.c files use for the middle thinking levels: for every positive 32-bit number it is the largest
  power of two that is not larger, so a budget between two limits is at least half of the value it is computed from.\<close>

theorem floor_power_of_2_largest:
  assumes "0 < n" and "in_int32 n"
  shows "\<exists>k. floor_power_of_2 n = 2 ^ k \<and> 2 ^ k \<le> n \<and> n < 2 ^ (k + 1)"
proof -
  have "1 \<le> nat n" using assms(1) by simp
  then obtain k where k: "2 ^ k \<le> nat n" "nat n < 2 ^ (k + 1)" using ex_power_ivl1 [of 2 "nat n"] by blast
  have lo: "2 ^ k \<le> n" and hi: "n < 2 ^ (k + 1)"
    using k assms(1) by (simp_all add: le_nat_iff nat_less_iff)
  have "(2 :: int) ^ k < 2 ^ 31" using lo assms(2) by (simp add: in_int32_def)
  then have "k < 31" by (simp only: power_strict_increasing_iff [where b = "2 :: int"] one_less_numeral_iff semiring_norm)
  then have "floor_power_of_2 n = 2 ^ k" using floor_power_of_2_eq [OF lo hi] by simp
  then show ?thesis using lo hi by auto
qed

theorem floor_power_of_2_largest_witness:
  "(0 :: int) < 22528 \<and> in_int32 22528 \<and> (\<exists>k. floor_power_of_2 22528 = 2 ^ k \<and> 2 ^ k \<le> (22528 :: int) \<and> (22528 :: int) < 2 ^ (k + 1))"
  using floor_power_of_2_largest [of 22528] by (simp add: in_int32_def)

end
