(* ===== verification/Ik_Anthropic_Request.thy ===== *)
theory Ik_Anthropic_Request
  imports Ik_Request_Json
begin

text \<open>
  The requests of the Anthropic API: apps/ikigai/providers/anthropic/request.c, request_serialize.c and thinking.c.

  A serializer yields the JSON value that the code appends to its document, \<open>None\<close> where it returns false.
\<close>

subsection \<open>thinking.c\<close>

definition BUDGET_TABLE :: "(string \<times> int \<times> int) list" where
  "BUDGET_TABLE = [(''claude-sonnet-4-5'', 1024, 65536), (''claude-haiku-4-5'', 1024, 32768), (''claude-opus-4-5'', 1024, 65536)]"

definition ADAPTIVE_MODELS :: "string list" where
  "ADAPTIVE_MODELS = [''claude-opus-4-6'', ''claude-sonnet-4-6'']"

definition ik_anthropic_supports_thinking :: "cstr \<Rightarrow> bool" where
  "ik_anthropic_supports_thinking model \<longleftrightarrow> starts ''claude-'' model"

definition ik_anthropic_is_adaptive_model :: "cstr \<Rightarrow> bool" where
  "ik_anthropic_is_adaptive_model model \<longleftrightarrow> list_ex (\<lambda>m. starts m model) ADAPTIVE_MODELS"

definition ik_anthropic_thinking_effort :: "cstr \<Rightarrow> ik_thinking_level \<Rightarrow> string option" where
  "ik_anthropic_thinking_effort model level =
     (if \<not> ik_anthropic_is_adaptive_model model then None
      else (case level of IK_THINKING_MIN \<Rightarrow> None | IK_THINKING_LOW \<Rightarrow> Some ''low'' | IK_THINKING_MED \<Rightarrow> Some ''medium''
              | IK_THINKING_HIGH \<Rightarrow> Some ''high''))"

definition anthropic_limits :: "cstr \<Rightarrow> int \<times> int" where
  "anthropic_limits model =
     (case find (\<lambda>(pattern, l). starts pattern model) BUDGET_TABLE of None \<Rightarrow> (1024, 32768) | Some (pattern, l) \<Rightarrow> l)"

definition ik_anthropic_thinking_budget :: "cstr \<Rightarrow> ik_thinking_level \<Rightarrow> int" where
  "ik_anthropic_thinking_budget model level =
     (if \<not> ik_anthropic_supports_thinking model then - 1 else level_budget (anthropic_limits model) level)"

subsection \<open>request_serialize.c\<close>

definition serialize_text_block :: "text_ptr \<Rightarrow> json option" where
  "serialize_text_block t = map_option JObj (with_str ''text'' t [lit_m ''type'' ''text''])"

definition serialize_thinking_block :: "text_ptr \<Rightarrow> text_ptr \<Rightarrow> json option" where
  "serialize_thinking_block t signature =
     (if empty_ptr t then None
      else map_option (\<lambda>ms. JObj (ms @ (case signature of None \<Rightarrow> [] | Some s \<Rightarrow> [str_mem ''signature'' s])))
             (with_str ''thinking'' t [lit_m ''type'' ''thinking'']))"

definition serialize_tool_call_block :: "yyjson \<Rightarrow> text_ptr \<Rightarrow> text_ptr \<Rightarrow> text_ptr \<Rightarrow> json option" where
  "serialize_tool_call_block J i name arguments =
     Option.bind (with_str ''id'' i [lit_m ''type'' ''tool_use'']) (\<lambda>ms.
     Option.bind (with_str ''name'' name ms) (\<lambda>ms1.
       map_option (\<lambda>args. JObj (ms1 @ [(bytes_of ''input'', args)]))
         (J (if empty_ptr arguments then bytes_of ''{}'' else the arguments))))"

definition serialize_tool_result_block :: "text_ptr \<Rightarrow> text_ptr \<Rightarrow> bool \<Rightarrow> json option" where
  "serialize_tool_result_block tool_call_id content is_error =
     Option.bind (with_str ''tool_use_id'' tool_call_id [lit_m ''type'' ''tool_result'']) (\<lambda>ms.
       map_option (\<lambda>ms1. JObj (ms1 @ [(bytes_of ''is_error'', JBool is_error)])) (with_str ''content'' content ms))"

definition serialize_redacted_thinking_block :: "text_ptr \<Rightarrow> json option" where
  "serialize_redacted_thinking_block data =
     (if empty_ptr data then None
      else map_option JObj (with_str ''data'' data [lit_m ''type'' ''redacted_thinking'']))"

fun ik_anthropic_serialize_content_block :: "yyjson \<Rightarrow> ik_content_block \<Rightarrow> json option" where
  "ik_anthropic_serialize_content_block J (CONTENT_TEXT t) = serialize_text_block t"
| "ik_anthropic_serialize_content_block J (CONTENT_THINKING t signature) = serialize_thinking_block t signature"
| "ik_anthropic_serialize_content_block J (CONTENT_TOOL_CALL i name args sig) = serialize_tool_call_block J i name args"
| "ik_anthropic_serialize_content_block J (CONTENT_TOOL_RESULT i content is_error) = serialize_tool_result_block i content is_error"
| "ik_anthropic_serialize_content_block J (CONTENT_REDACTED_THINKING data) = serialize_redacted_thinking_block data"

fun single_text :: "ik_content_block list \<Rightarrow> text_ptr option" where
  "single_text [CONTENT_TEXT t] = Some t"
| "single_text _ = None"

definition ik_anthropic_serialize_message_content :: "yyjson \<Rightarrow> ik_message \<Rightarrow> json option" where
  "ik_anthropic_serialize_message_content J message =
     (case single_text (msg_blocks message) of
        Some t \<Rightarrow> map_option JStr t
      | None \<Rightarrow> map_option JArr (map_all (ik_anthropic_serialize_content_block J) (msg_blocks message)))"

fun ik_anthropic_role_to_string :: "ik_role \<Rightarrow> string" where
  "ik_anthropic_role_to_string IK_ROLE_USER = ''user''"
| "ik_anthropic_role_to_string IK_ROLE_ASSISTANT = ''assistant''"
| "ik_anthropic_role_to_string IK_ROLE_TOOL = ''user''"

definition anthropic_message :: "yyjson \<Rightarrow> ik_message \<Rightarrow> json option" where
  "anthropic_message J message =
     map_option (\<lambda>content. JObj [lit_m ''role'' (ik_anthropic_role_to_string (msg_role message)), (bytes_of ''content'', content)])
       (ik_anthropic_serialize_message_content J message)"

definition ik_anthropic_serialize_messages :: "yyjson \<Rightarrow> ik_request \<Rightarrow> (byte list \<times> json) option" where
  "ik_anthropic_serialize_messages J req =
     map_option (\<lambda>ms. (bytes_of ''messages'', JArr ms)) (map_all (anthropic_message J) (req_messages req))"

subsection \<open>request.c\<close>

definition calculate_max_tokens :: "ik_request \<Rightarrow> int" where
  "calculate_max_tokens req =
     (let max_tokens = (if req_max_output_tokens req \<le> 0 then 4096 else req_max_output_tokens req)
      in if req_thinking req \<noteq> IK_THINKING_MIN \<and> \<not> ik_anthropic_is_adaptive_model (req_model req)
         then (let budget = ik_anthropic_thinking_budget (req_model req) (req_thinking req)
               in if budget > 0 \<and> max_tokens \<le> budget then budget + 4096 else max_tokens)
         else max_tokens)"

definition add_thinking_config :: "ik_request \<Rightarrow> (byte list \<times> json) list" where
  "add_thinking_config req =
     (if req_thinking req = IK_THINKING_MIN then []
      else if ik_anthropic_is_adaptive_model (req_model req) then
        (case ik_anthropic_thinking_effort (req_model req) (req_thinking req) of None \<Rightarrow> []
         | Some effort \<Rightarrow> [(bytes_of ''thinking'', JObj [lit_m ''type'' ''adaptive'']),
                           (bytes_of ''output_config'', JObj [lit_m ''effort'' effort])])
      else (let budget = ik_anthropic_thinking_budget (req_model req) (req_thinking req)
            in if budget = - 1 then []
               else [(bytes_of ''thinking'', JObj [lit_m ''type'' ''enabled'', (bytes_of ''budget_tokens'', JInt budget)])]))"

definition serialize_tool :: "yyjson \<Rightarrow> ik_tool_def \<Rightarrow> json option" where
  "serialize_tool J tool =
     map_option (\<lambda>params. JObj [str_mem ''name'' (td_name tool), str_mem ''description'' (td_description tool),
        (bytes_of ''input_schema'', params)]) (J (td_parameters tool))"

definition map_tool_choice_type :: "int \<Rightarrow> string" where
  "map_tool_choice_type mode = tool_choice_str ''auto'' ''none'' ''any'' mode"

definition add_tools :: "yyjson \<Rightarrow> ik_request \<Rightarrow> (byte list \<times> json) list option" where
  "add_tools J req =
     (if req_tools req = [] then Some []
      else map_option (\<lambda>ts. [(bytes_of ''tools'', JArr ts),
              (bytes_of ''tool_choice'', JObj [lit_m ''type'' (map_tool_choice_type (req_tool_choice_mode req))])])
             (map_all (serialize_tool J) (req_tools req)))"

definition anthropic_document :: "yyjson \<Rightarrow> ik_request \<Rightarrow> bool \<Rightarrow> json option" where
  "anthropic_document J req skip_output_fields =
     Option.bind (ik_anthropic_serialize_messages J req) (\<lambda>messages.
       map_option (\<lambda>tools. JObj ([str_mem ''model'' (req_model req)]
           @ (if skip_output_fields then []
              else [(bytes_of ''max_tokens'', JInt (calculate_max_tokens req)), (bytes_of ''stream'', JBool True)])
           @ (case req_system_prompt req of None \<Rightarrow> [] | Some s \<Rightarrow> [str_mem ''system'' s])
           @ [messages] @ add_thinking_config req @ tools))
         (add_tools J req))"

definition serialize_request_internal :: "yyjson \<Rightarrow> yyjson_writer \<Rightarrow> ik_request \<Rightarrow> bool \<Rightarrow> cstr res" where
  "serialize_request_internal J W req skip_output_fields =
     (case anthropic_document J req skip_output_fields of None \<Rightarrow> Inl (Err PARSE) | Some d \<Rightarrow> write_doc W d)"

definition ik_anthropic_serialize_request_stream :: "yyjson \<Rightarrow> yyjson_writer \<Rightarrow> ik_request \<Rightarrow> cstr res" where
  "ik_anthropic_serialize_request_stream J W req = serialize_request_internal J W req False"

definition ik_anthropic_serialize_request_count_tokens :: "yyjson \<Rightarrow> yyjson_writer \<Rightarrow> ik_request \<Rightarrow> cstr res" where
  "ik_anthropic_serialize_request_count_tokens J W req = serialize_request_internal J W req True"

subsection \<open>Which requests are sent\<close>

fun anthropic_ok :: "yyjson \<Rightarrow> ik_content_block \<Rightarrow> bool" where
  "anthropic_ok J (CONTENT_TOOL_CALL i name args sig) = (J (if empty_ptr args then bytes_of ''{}'' else the args) \<noteq> None)"
| "anthropic_ok J (CONTENT_THINKING t signature) = (\<not> empty_ptr t)"
| "anthropic_ok J (CONTENT_REDACTED_THINKING data) = (\<not> empty_ptr data)"
| "anthropic_ok J b = True"

lemma anthropic_block: "complete_block b \<Longrightarrow> ik_anthropic_serialize_content_block J b = None \<longleftrightarrow> \<not> anthropic_ok J b"
  by (cases b) (auto simp: serialize_text_block_def serialize_thinking_block_def serialize_tool_call_block_def
    serialize_tool_result_block_def serialize_redacted_thinking_block_def empty_ptr_def)

lemma anthropic_message_none:
  assumes "list_all complete_block (msg_blocks m)"
  shows "anthropic_message J m = None \<longleftrightarrow> \<not> list_all (anthropic_ok J) (msg_blocks m)"
proof (cases "single_text (msg_blocks m)")
  case None
  then show ?thesis using assms
    by (auto simp: anthropic_message_def ik_anthropic_serialize_message_content_def map_all_eq_None list_all_iff anthropic_block)
next
  case (Some t)
  then have "msg_blocks m = [CONTENT_TEXT t]" by (cases "msg_blocks m" rule: single_text.cases) auto
  then show ?thesis using assms by (auto simp: anthropic_message_def ik_anthropic_serialize_message_content_def)
qed

lemma anthropic_tools_none: "add_tools J req = None \<longleftrightarrow> \<not> tools_parse J req"
  by (auto simp: add_tools_def map_all_eq_None serialize_tool_def tools_parse_def list_all_iff)

lemma anthropic_document_made:
  assumes "every_block complete_block req"
  shows "anthropic_document J req skip = None \<longleftrightarrow> \<not> (every_block (anthropic_ok J) req \<and> tools_parse J req)"
proof -
  have "ik_anthropic_serialize_messages J req = None \<longleftrightarrow> \<not> every_block (anthropic_ok J) req"
    using assms anthropic_message_none
    by (auto simp: ik_anthropic_serialize_messages_def map_all_eq_None every_block_def list_all_iff)
  then show ?thesis using anthropic_tools_none [of J req] by (auto simp: anthropic_document_def bind_eq_None_conv)
qed

text \<open>C39. Which requests reach Anthropic. Let every block of a request have its strings. A document is made of the request exactly when no
  thinking and no redacted thinking is empty, the arguments of every tool call are empty or a JSON text, and the parameters of every tool are
  a JSON text; otherwise it ends with a parse error. What yyjson writes of the document is sent, and the program panics if yyjson refuses to
  write it, as it does for a string that is not UTF-8. The same holds for the request that counts tokens.\<close>

theorem anthropic_request_sent:
  assumes "every_block complete_block req"
  shows "if every_block (anthropic_ok J) req \<and> tools_parse J req
    then \<exists>d. anthropic_document J req skip = Some d
      \<and> serialize_request_internal J W req skip = (case W d of None \<Rightarrow> Inl Panic | Some s \<Rightarrow> Inr s)
    else serialize_request_internal J W req skip = Inl (Err PARSE)"
  using anthropic_document_made [OF assms, of J skip] by (auto simp: serialize_request_internal_def write_doc_def)

definition sample_thinking :: "string \<Rightarrow> ik_request" where
  "sample_thinking s = (ik_request_create (bytes_of ''claude-opus-4-5''))\<lparr>req_messages :=
     [blocks_message IK_ROLE_ASSISTANT [CONTENT_THINKING (Some (bytes_of s)) None, CONTENT_REDACTED_THINKING (Some (bytes_of ''x''))]],
     req_thinking := IK_THINKING_LOW, req_max_output_tokens := 1000\<rparr>"

theorem anthropic_request_sent_witness:
  "(\<exists>s. ik_anthropic_serialize_request_stream (\<lambda>t. None) (\<lambda>d. Some []) (sample_thinking ''why'') = Inr s)
   \<and> ik_anthropic_serialize_request_stream (\<lambda>t. None) (\<lambda>d. None) (sample_thinking ''why'') = Inl Panic
   \<and> ik_anthropic_serialize_request_stream (\<lambda>t. None) (\<lambda>d. Some []) (sample_thinking '''') = Inl (Err PARSE)"
proof -
  have h: "every_block complete_block (sample_thinking ''why'')" "every_block complete_block (sample_thinking '''')"
    by (simp_all add: every_block_def sample_thinking_def blocks_message_def)
  show ?thesis
    using anthropic_request_sent [OF h(1), of "\<lambda>t. None" False "\<lambda>d. Some []"] anthropic_request_sent [OF h(1), of "\<lambda>t. None" False "\<lambda>d. None"]
      anthropic_request_sent [OF h(2), of "\<lambda>t. None" False "\<lambda>d. Some []"]
    by (simp add: ik_anthropic_serialize_request_stream_def every_block_def tools_parse_def sample_thinking_def blocks_message_def
        ik_request_create_def empty_ptr_def bytes_of_def)
qed

subsection \<open>Budgets\<close>

lemma limits_cases: "anthropic_limits model = (1024, 65536) \<or> anthropic_limits model = (1024, 32768)"
  by (auto simp: anthropic_limits_def BUDGET_TABLE_def)

lemma budget_bounds:
  assumes "ik_anthropic_supports_thinking model"
  shows "1024 \<le> ik_anthropic_thinking_budget model level \<and> ik_anthropic_thinking_budget model level \<le> 65536"
proof -
  have "floor_power_of_2 22528 = 2 ^ 14" "floor_power_of_2 44032 = 2 ^ 15" "floor_power_of_2 11605 = 2 ^ 13" "floor_power_of_2 22186 = 2 ^ 14"
    by (rule floor_power_of_2_eq; simp)+
  then show ?thesis
    using limits_cases [of model] assms by (cases level) (auto simp: ik_anthropic_thinking_budget_def)
qed

text \<open>C25. The tokens a request to Anthropic asks for. For every request the limit of the answer is a positive 32-bit number, and when the model has a
  thinking budget, the budget is at least the 1024 tokens of the API and the limit leaves room for an answer after it.\<close>

theorem anthropic_budget_fits:
  assumes "in_int32 (req_max_output_tokens req)"
  shows "0 < calculate_max_tokens req \<and> in_int32 (calculate_max_tokens req)
     \<and> (add_thinking_config req = []
        \<or> ik_anthropic_is_adaptive_model (req_model req)
        \<or> (\<exists>b. add_thinking_config req = [(bytes_of ''thinking'', JObj [lit_m ''type'' ''enabled'', (bytes_of ''budget_tokens'', JInt b)])]
             \<and> 1024 \<le> b \<and> b < calculate_max_tokens req))"
proof (cases "ik_anthropic_supports_thinking (req_model req)")
  case True
  then show ?thesis
    using budget_bounds [OF True, of "req_thinking req"] assms
    by (auto simp: calculate_max_tokens_def add_thinking_config_def Let_def in_int32_def)
next
  case False
  then show ?thesis
    using assms by (auto simp: calculate_max_tokens_def add_thinking_config_def ik_anthropic_thinking_budget_def Let_def in_int32_def)
qed

theorem anthropic_budget_fits_witness:
  "in_int32 (req_max_output_tokens (sample_thinking '''')) \<and> 0 < calculate_max_tokens (sample_thinking '''')
   \<and> in_int32 (calculate_max_tokens (sample_thinking ''''))
   \<and> (add_thinking_config (sample_thinking '''') = []
        \<or> ik_anthropic_is_adaptive_model (req_model (sample_thinking ''''))
        \<or> (\<exists>b. add_thinking_config (sample_thinking '''') =
               [(bytes_of ''thinking'', JObj [lit_m ''type'' ''enabled'', (bytes_of ''budget_tokens'', JInt b)])]
             \<and> 1024 \<le> b \<and> b < calculate_max_tokens (sample_thinking '''')))"
proof -
  have h: "in_int32 (req_max_output_tokens (sample_thinking ''''))" by (simp add: sample_thinking_def in_int32_def)
  show ?thesis using h anthropic_budget_fits [OF h] by blast
qed

end
