(* ===== verification/Ik_OpenAI_Request.thy ===== *)
theory Ik_OpenAI_Request
  imports Ik_Request_Json
begin

text \<open>
  The requests of the two OpenAI APIs: apps/ikigai/providers/openai/reasoning.c, serialize.c, request_chat.c and request_responses.c.

  The functions that join text blocks write into a block of memory of the size they computed before, as the code does, so
  that a write outside of it is a fault. A string that is \<^verbatim>\<open>NULL\<close> makes yyjson refuse to add it, where the code panics; the length
  of a \<^verbatim>\<open>NULL\<close> text is a fault.
\<close>

subsection \<open>reasoning.c\<close>

definition REASONING_MODELS :: "string list" where
  "REASONING_MODELS = [''o1'', ''o3'', ''o3-mini'', ''o4-mini'', ''o3-pro'', ''gpt-5'', ''gpt-5-mini'', ''gpt-5-nano'', ''gpt-5-pro'',
     ''gpt-5.1'', ''gpt-5.1-chat-latest'', ''gpt-5.1-codex'', ''gpt-5.1-codex-mini'', ''gpt-5.2'', ''gpt-5.2-chat-latest'',
     ''gpt-5.2-codex'', ''gpt-5.2-pro'']"

definition ik_openai_is_reasoning_model :: "cstr \<Rightarrow> bool" where
  "ik_openai_is_reasoning_model model \<longleftrightarrow> model \<noteq> [] \<and> list_ex (\<lambda>m. model = bytes_of m) REASONING_MODELS"

definition EFFORT_MAP :: "(string \<times> string \<times> string \<times> string \<times> string) list" where
  "EFFORT_MAP =
    [(''o1'', ''low'', ''low'', ''medium'', ''high''),
     (''o3-mini'', ''low'', ''low'', ''medium'', ''high''),
     (''o3'', ''none'', ''low'', ''medium'', ''high''),
     (''o3-pro'', ''none'', ''low'', ''medium'', ''high''),
     (''o4-mini'', ''none'', ''low'', ''medium'', ''high''),
     (''gpt-5'', ''minimal'', ''low'', ''medium'', ''high''),
     (''gpt-5-mini'', ''minimal'', ''low'', ''medium'', ''high''),
     (''gpt-5-nano'', ''minimal'', ''low'', ''medium'', ''high''),
     (''gpt-5-pro'', ''high'', ''high'', ''high'', ''high''),
     (''gpt-5.1'', ''none'', ''low'', ''medium'', ''high''),
     (''gpt-5.1-chat-latest'', ''medium'', ''medium'', ''medium'', ''medium''),
     (''gpt-5.1-codex'', ''none'', ''low'', ''medium'', ''high''),
     (''gpt-5.1-codex-mini'', ''none'', ''low'', ''medium'', ''high''),
     (''gpt-5.2'', ''none'', ''low'', ''medium'', ''xhigh''),
     (''gpt-5.2-chat-latest'', ''medium'', ''medium'', ''medium'', ''medium''),
     (''gpt-5.2-codex'', ''none'', ''low'', ''medium'', ''xhigh''),
     (''gpt-5.2-pro'', ''medium'', ''medium'', ''high'', ''xhigh'')]"

definition ik_openai_reasoning_effort :: "cstr \<Rightarrow> ik_thinking_level \<Rightarrow> string option" where
  "ik_openai_reasoning_effort model level =
     map_option (\<lambda>(m, efforts). pick_level level efforts) (find (\<lambda>(m, efforts). model = bytes_of m) EFFORT_MAP)"

definition RESPONSES_API_MODELS :: "string list" where
  "RESPONSES_API_MODELS = [''o1'', ''o3'', ''o3-mini'', ''o4-mini'', ''o3-pro'', ''gpt-5'', ''gpt-5-mini'', ''gpt-5-nano'', ''gpt-5-pro'',
     ''gpt-5.1'', ''gpt-5.1-chat-latest'', ''gpt-5.1-codex'', ''gpt-5.1-codex-mini'', ''gpt-5.2'', ''gpt-5.2-chat-latest'',
     ''gpt-5.2-codex'', ''gpt-5.2-pro'']"

definition ik_openai_use_responses_api :: "cstr \<Rightarrow> bool" where
  "ik_openai_use_responses_api model \<longleftrightarrow> model \<noteq> [] \<and> list_ex (\<lambda>m. model = bytes_of m) RESPONSES_API_MODELS"

subsection \<open>serialize.c\<close>

fun map_role_to_string :: "ik_role \<Rightarrow> string" where
  "map_role_to_string IK_ROLE_USER = ''user''"
| "map_role_to_string IK_ROLE_ASSISTANT = ''assistant''"
| "map_role_to_string IK_ROLE_TOOL = ''tool''"

fun add_tool_result_content :: "ik_content_block list \<Rightarrow> (byte list \<times> json) list res" where
  "add_tool_result_content (CONTENT_TOOL_RESULT i content is_error # bs) =
     res_bind (req_str Panic i) (\<lambda>i'. res_bind (req_str Panic content) (\<lambda>c.
       Inr [str_mem ''tool_call_id'' i', str_mem ''content'' c]))"
| "add_tool_result_content _ = Inr []"

fun is_tool_call :: "ik_content_block \<Rightarrow> bool" where
  "is_tool_call (CONTENT_TOOL_CALL i name args sig) = True"
| "is_tool_call _ = False"

definition has_tool_calls :: "ik_message \<Rightarrow> bool" where
  "has_tool_calls msg \<longleftrightarrow> list_ex is_tool_call (msg_blocks msg)"

fun add_tool_call_to_array :: "ik_content_block \<Rightarrow> json res" where
  "add_tool_call_to_array (CONTENT_TOOL_CALL i name args sig) =
     res_bind (req_str Panic i) (\<lambda>i'. res_bind (req_str Panic name) (\<lambda>n. res_bind (req_str Panic args) (\<lambda>a.
       Inr (JObj [str_mem ''id'' i', lit_m ''type'' ''function'',
         (bytes_of ''function'', JObj [str_mem ''name'' n, str_mem ''arguments'' a])]))))"
| "add_tool_call_to_array _ = Inl MemFault"

definition add_tool_calls_content :: "ik_message \<Rightarrow> (byte list \<times> json) list res" where
  "add_tool_calls_content msg =
     res_bind (map_res add_tool_call_to_array (filter is_tool_call (msg_blocks msg)))
       (\<lambda>calls. Inr [(bytes_of ''content'', JNull), (bytes_of ''tool_calls'', JArr calls)])"

fun text_length :: "nat \<Rightarrow> ik_content_block list \<Rightarrow> nat res" where
  "text_length total_len [] = Inr total_len"
| "text_length total_len (CONTENT_TEXT t # bs) =
     res_bind (req_str MemFault t) (\<lambda>s. text_length ((if total_len > 0 then total_len + 2 else total_len) + length s) bs)"
| "text_length total_len (b # bs) = text_length total_len bs"

definition calculate_text_content_length :: "ik_message \<Rightarrow> nat res" where
  "calculate_text_content_length msg = text_length 0 (msg_blocks msg)"

fun copy_texts :: "byte list \<Rightarrow> nat \<Rightarrow> bool \<Rightarrow> ik_content_block list \<Rightarrow> byte list res" where
  "copy_texts content dest is_first [] = store content dest 0"
| "copy_texts content dest is_first (CONTENT_TEXT t # bs) =
     res_bind (if is_first then Inr (content, dest) else res_bind (copy_in content dest [10, 10]) (\<lambda>c. Inr (c, dest + 2)))
       (\<lambda>(c, d). res_bind (req_str MemFault t) (\<lambda>s. res_bind (copy_in c d s) (\<lambda>c1. copy_texts c1 (d + length s) False bs)))"
| "copy_texts content dest is_first (b # bs) = copy_texts content dest is_first bs"

definition concatenate_text_blocks :: "ik_message \<Rightarrow> byte list \<Rightarrow> byte list res" where
  "concatenate_text_blocks msg content = copy_texts content 0 True (msg_blocks msg)"

definition add_text_content :: "ik_message \<Rightarrow> (byte list \<times> json) list res" where
  "add_text_content msg =
     res_bind (calculate_text_content_length msg) (\<lambda>total_len.
       if total_len = 0 then Inr [lit_m ''content'' ''''] else
       res_bind (concatenate_text_blocks msg (replicate (total_len + 1) 0)) (\<lambda>content.
         Inr [str_mem ''content'' (c_string content)]))"

definition ik_openai_serialize_message :: "ik_message \<Rightarrow> json res" where
  "ik_openai_serialize_message msg =
     res_bind (if msg_role msg = IK_ROLE_TOOL then add_tool_result_content (msg_blocks msg)
               else if has_tool_calls msg then add_tool_calls_content msg else add_text_content msg)
       (\<lambda>ms. Inr (JObj (lit_m ''role'' (map_role_to_string (msg_role msg)) # ms)))"

fun responses_item :: "ik_role \<Rightarrow> ik_content_block \<Rightarrow> json list res" where
  "responses_item r (CONTENT_TEXT t) =
     res_bind (req_str Panic t) (\<lambda>s. Inr [JObj [lit_m ''role'' (map_role_to_string r), str_mem ''content'' s]])"
| "responses_item r (CONTENT_TOOL_CALL i name args sig) =
     res_bind (req_str Panic i) (\<lambda>i'. res_bind (req_str Panic name) (\<lambda>n. res_bind (req_str Panic args) (\<lambda>a.
       Inr [JObj [lit_m ''type'' ''function_call'', str_mem ''call_id'' i', str_mem ''name'' n, str_mem ''arguments'' a]])))"
| "responses_item r (CONTENT_TOOL_RESULT i content is_error) =
     res_bind (req_str Panic i) (\<lambda>i'. res_bind (req_str Panic content) (\<lambda>c.
       Inr [JObj [lit_m ''type'' ''function_call_output'', str_mem ''call_id'' i', str_mem ''output'' c]]))"
| "responses_item r b = Inr []"

definition ik_openai_serialize_responses_message :: "ik_message \<Rightarrow> json list res" where
  "ik_openai_serialize_responses_message msg =
     res_bind (map_res (responses_item (msg_role msg)) (msg_blocks msg)) (\<lambda>items. Inr (concat items))"

subsection \<open>request_chat.c\<close>

definition combinators :: "byte list list" where
  "combinators = [bytes_of ''oneOf'', bytes_of ''anyOf'', bytes_of ''allOf'']"

text \<open>
  The members are walked once: \<open>seen\<close> are the keys met before, as the code looks only at the first member of a name.
\<close>

function (sequential) remove_format_validators :: "json \<Rightarrow> json"
  and schema_members :: "byte list list \<Rightarrow> (byte list \<times> json) list \<Rightarrow> (byte list \<times> json) list"
  and property_members :: "(byte list \<times> json) list \<Rightarrow> (byte list \<times> json) list"
  and schema_elems :: "json list \<Rightarrow> json list" where
  "remove_format_validators (JObj ms) = JObj (schema_members [] ms)"
| "remove_format_validators v = v"
| "schema_members seen [] = []"
| "schema_members seen ((k, v) # ms) =
     (if k = bytes_of ''format'' then schema_members seen ms
      else (k, if k \<in> set seen then v
               else if k = bytes_of ''properties'' then (case v of JObj ps \<Rightarrow> JObj (property_members ps) | _ \<Rightarrow> v)
               else if k = bytes_of ''items'' then remove_format_validators v
               else if k \<in> set combinators then (case v of JArr es \<Rightarrow> JArr (schema_elems es) | _ \<Rightarrow> v)
               else v) # schema_members (k # seen) ms)"
| "property_members [] = []"
| "property_members ((k, v) # ms) = (k, remove_format_validators v) # property_members ms"
| "schema_elems [] = []"
| "schema_elems (v # vs) = remove_format_validators v # schema_elems vs"
  by pat_completeness auto
termination by size_change

definition remove_key :: "string \<Rightarrow> (byte list \<times> json) list \<Rightarrow> (byte list \<times> json) list" where
  "remove_key key ms = filter (\<lambda>(k, v). k \<noteq> bytes_of key) ms"

fun ensure_all_properties_required :: "json \<Rightarrow> json" where
  "ensure_all_properties_required (JObj ms) =
     (case obj_get (JObj ms) ''properties'' of
        Some (JObj ps) \<Rightarrow> JObj (remove_key ''required'' ms @ [(bytes_of ''required'', JArr (map (\<lambda>(k, v). JStr (c_string k)) ps))])
      | _ \<Rightarrow> JObj ms)"
| "ensure_all_properties_required v = v"

fun forbid_additional :: "json \<Rightarrow> json option" where
  "forbid_additional (JObj ms) = Some (JObj (ms @ [(bytes_of ''additionalProperties'', JBool False)]))"
| "forbid_additional v = None"

definition tool_parameters :: "yyjson \<Rightarrow> ik_tool_def \<Rightarrow> json option" where
  "tool_parameters J tool =
     Option.bind (J (td_parameters tool)) (\<lambda>v. forbid_additional (ensure_all_properties_required (remove_format_validators v)))"

definition serialize_chat_tool :: "yyjson \<Rightarrow> ik_tool_def \<Rightarrow> json option" where
  "serialize_chat_tool J tool =
     map_option (\<lambda>params. JObj [lit_m ''type'' ''function'',
        (bytes_of ''function'', JObj [str_mem ''name'' (td_name tool), str_mem ''description'' (td_description tool),
           (bytes_of ''parameters'', params), (bytes_of ''strict'', JBool True)])])
       (tool_parameters J tool)"

definition add_tool_choice :: "int \<Rightarrow> byte list \<times> json" where
  "add_tool_choice mode = lit_m ''tool_choice'' (tool_choice_str ''auto'' ''none'' ''required'' mode)"

definition chat_system :: "text_ptr \<Rightarrow> json list" where
  "chat_system system_prompt =
     (if empty_ptr system_prompt then [] else [JObj [lit_m ''role'' ''system'', str_mem ''content'' (the system_prompt)]])"

definition tools_field :: "(ik_tool_def \<Rightarrow> json option) \<Rightarrow> ik_request \<Rightarrow> (byte list \<times> json) list \<Rightarrow> (byte list \<times> json) list res" where
  "tools_field f req after =
     (if req_tools req = [] then Inr []
      else (case map_all f (req_tools req) of None \<Rightarrow> Inl (Err PARSE)
            | Some ts \<Rightarrow> Inr ([(bytes_of ''tools'', JArr ts), add_tool_choice (req_tool_choice_mode req)] @ after)))"

definition ik_openai_serialize_chat_request :: "yyjson \<Rightarrow> yyjson_writer \<Rightarrow> ik_request \<Rightarrow> bool \<Rightarrow> cstr res" where
  "ik_openai_serialize_chat_request J W req streaming =
     res_bind (map_res ik_openai_serialize_message (req_messages req)) (\<lambda>messages.
     res_bind (tools_field (serialize_chat_tool J) req [(bytes_of ''parallel_tool_calls'', JBool True)]) (\<lambda>tools.
       write_doc W (JObj ([str_mem ''model'' (req_model req),
           (bytes_of ''messages'', JArr (chat_system (req_system_prompt req) @ messages))]
         @ max_tokens_field ''max_completion_tokens'' req
         @ (if streaming then [(bytes_of ''stream'', JBool True),
              (bytes_of ''stream_options'', JObj [(bytes_of ''include_usage'', JBool True)])] else [])
         @ tools))))"

definition ik_openai_build_chat_url :: "cstr \<Rightarrow> cstr" where
  "ik_openai_build_chat_url base_url = base_url @ bytes_of ''/v1/chat/completions''"

definition ik_openai_build_headers :: "cstr \<Rightarrow> cstr list" where
  "ik_openai_build_headers api_key = [bytes_of ''Authorization: Bearer '' @ api_key, bytes_of ''Content-Type: application/json'']"

subsection \<open>request_responses.c\<close>

definition serialize_responses_tool :: "yyjson \<Rightarrow> ik_tool_def \<Rightarrow> json option" where
  "serialize_responses_tool J tool =
     map_option (\<lambda>params. JObj [lit_m ''type'' ''function'', str_mem ''name'' (td_name tool), str_mem ''description'' (td_description tool),
        (bytes_of ''parameters'', params), (bytes_of ''strict'', JBool True)])
       (tool_parameters J tool)"

definition build_string_input :: "ik_message \<Rightarrow> text_ptr res" where
  "build_string_input msg =
     res_bind (text_length 0 (msg_blocks msg)) (\<lambda>total_len.
       if total_len = 0 then Inr None else
       res_bind (copy_texts (replicate (total_len + 1) 0) 0 True (msg_blocks msg)) (\<lambda>input_text. Inr (Some (c_string input_text))))"

definition add_string_input :: "ik_message \<Rightarrow> (byte list \<times> json) res" where
  "add_string_input msg =
     res_bind (build_string_input msg) (\<lambda>t. case t of None \<Rightarrow> Inr (lit_m ''input'' '''') | Some s \<Rightarrow> Inr (str_mem ''input'' s))"

definition add_array_input :: "ik_request \<Rightarrow> (byte list \<times> json) res" where
  "add_array_input req =
     res_bind (map_res ik_openai_serialize_responses_message (req_messages req)) (\<lambda>items.
       Inr (bytes_of ''input'', JArr (concat items)))"

definition add_input_field :: "ik_request \<Rightarrow> (byte list \<times> json) res" where
  "add_input_field req =
     (case req_messages req of
        [msg] \<Rightarrow> if msg_role msg = IK_ROLE_USER \<and> msg_blocks msg \<noteq> [] then add_string_input msg else add_array_input req
      | _ \<Rightarrow> add_array_input req)"

definition add_reasoning_config :: "ik_request \<Rightarrow> (byte list \<times> json) list" where
  "add_reasoning_config req =
     (if \<not> ik_openai_is_reasoning_model (req_model req) then []
      else (case ik_openai_reasoning_effort (req_model req) (req_thinking req) of None \<Rightarrow> []
            | Some effort \<Rightarrow> [(bytes_of ''reasoning'', JObj [lit_m ''effort'' effort])]))"

definition add_tools_and_choice :: "yyjson \<Rightarrow> ik_request \<Rightarrow> (byte list \<times> json) list res" where
  "add_tools_and_choice J req = tools_field (serialize_responses_tool J) req []"

definition ik_openai_serialize_responses_request :: "yyjson \<Rightarrow> yyjson_writer \<Rightarrow> ik_request \<Rightarrow> bool \<Rightarrow> cstr res" where
  "ik_openai_serialize_responses_request J W req streaming =
     res_bind (add_input_field req) (\<lambda>input_field.
     res_bind (add_tools_and_choice J req) (\<lambda>tools.
       write_doc W (JObj ([str_mem ''model'' (req_model req)]
         @ (if empty_ptr (req_system_prompt req) then [] else [str_mem ''instructions'' (the (req_system_prompt req))])
         @ [input_field] @ max_tokens_field ''max_output_tokens'' req
         @ (if streaming then [(bytes_of ''stream'', JBool True)] else [])
         @ add_reasoning_config req @ tools))))"

definition ik_openai_build_responses_url :: "cstr \<Rightarrow> cstr" where
  "ik_openai_build_responses_url base_url = base_url @ bytes_of ''/v1/responses''"

subsection \<open>Joining the text blocks\<close>

text \<open>The texts of a message whose text blocks all have one, and the separator between them.\<close>

fun texts :: "ik_content_block list \<Rightarrow> cstr list" where
  "texts [] = []"
| "texts (CONTENT_TEXT t # bs) = the t # texts bs"
| "texts (b # bs) = texts bs"

definition has_texts :: "ik_content_block list \<Rightarrow> bool" where
  "has_texts bs \<longleftrightarrow> CONTENT_TEXT None \<notin> set bs \<and> list_all nul_free (texts bs)"

fun rest_texts :: "cstr list \<Rightarrow> cstr" where
  "rest_texts [] = []"
| "rest_texts (t # ts) = [10, 10] @ t @ rest_texts ts"

fun joined :: "cstr list \<Rightarrow> cstr" where
  "joined [] = []"
| "joined (t # ts) = t @ rest_texts ts"

lemma text_length_pos:
  "CONTENT_TEXT None \<notin> set bs \<Longrightarrow> n > 0 \<Longrightarrow> text_length n bs = Inr (n + length (rest_texts (texts bs)))"
proof (induction n bs rule: text_length.induct)
  case (2 n t bs)
  then show ?case by (cases t) auto
qed auto

lemma copy_in_mid: "length ds \<le> length vs \<Longrightarrow> copy_in (us @ vs) (length us) ds = Inr (us @ ds @ drop (length ds) vs)"
  by simp

lemma copy_texts_rest:
  assumes "CONTENT_TEXT None \<notin> set bs"
  shows "copy_texts (us @ vs) (length us) False bs =
     (if length (rest_texts (texts bs)) < length vs
      then Inr (us @ rest_texts (texts bs) @ [0] @ drop (length (rest_texts (texts bs)) + 1) vs) else Inl MemFault)"
  using assms
proof (induction bs arbitrary: us vs rule: texts.induct)
  case 1
  then show ?case by (cases vs) (auto simp: store_def)
next
  case (2 t bs)
  then obtain s where t: "t = Some s" by (cases t) auto
  show ?case
  proof (cases "2 + length s \<le> length vs")
    case True
    let ?us = "us @ [10, 10] @ s"
    have "copy_in (us @ vs) (length us) [10, 10] = Inr ((us @ [10, 10]) @ drop 2 vs)"
      using True by (simp add: copy_in_mid)
    moreover have "copy_in ((us @ [10, 10]) @ drop 2 vs) (length (us @ [10, 10])) s = Inr (?us @ drop (2 + length s) vs)"
      using True by (subst copy_in_mid) (auto simp: add.commute)
    ultimately have "copy_texts (us @ vs) (length us) False (CONTENT_TEXT t # bs)
        = copy_texts (?us @ drop (2 + length s) vs) (length ?us) False bs"
      using t by simp
    then show ?thesis using True t 2(1) [of ?us "drop (2 + length s) vs"] 2(2) by (auto simp: add.commute add.left_commute)
  next
    case False
    then show ?thesis using t by (auto simp: copy_in_def)
  qed
qed auto

lemma text_length_first:
  assumes "CONTENT_TEXT None \<notin> set bs" and "texts bs = t # ts" and "t \<noteq> []"
  shows "text_length 0 bs = Inr (length (joined (texts bs)))"
  using assms
proof (induction "0 :: nat" bs rule: text_length.induct)
  case (2 p bs)
  then show ?case by (cases p) (auto simp: text_length_pos)
qed auto

lemma text_length_skip:
  assumes "CONTENT_TEXT None \<notin> set bs" and "texts bs = [] # ts"
  shows "\<exists>bs'. text_length 0 bs = text_length 0 bs' \<and> texts bs' = ts \<and> CONTENT_TEXT None \<notin> set bs'"
  using assms
proof (induction bs rule: texts.induct)
  case (2 p bs)
  then show ?case by (cases p) auto
qed auto

lemma text_length_empty:
  assumes "CONTENT_TEXT None \<notin> set bs" and "texts bs = [] # ts"
  shows "returns (text_length 0 bs) (\<lambda>n. (n = 0 \<longleftrightarrow> list_all (\<lambda>t. t = []) ts) \<and> n \<le> length (rest_texts ts) - 2)"
  using assms
proof (induction ts arbitrary: bs)
  case Nil
  from text_length_skip [OF Nil] obtain bs' where bs': "text_length 0 bs = text_length 0 bs'" "texts bs' = []" by auto
  from bs'(2) have "text_length 0 bs' = Inr 0" by (induction "0 :: nat" bs' rule: text_length.induct) auto
  then show ?case using bs'(1) by simp
next
  case (Cons t ts)
  from text_length_skip [OF Cons.prems] obtain bs' where bs': "text_length 0 bs = text_length 0 bs'" "texts bs' = t # ts" "CONTENT_TEXT None \<notin> set bs'"
    by auto
  show ?case
  proof (cases "t = []")
    case True
    then show ?thesis using Cons.IH [of bs'] bs' by (auto elim!: returns_mono)
  next
    case False
    then show ?thesis using text_length_first [OF bs'(3,2)] bs' by simp
  qed
qed

lemma copy_texts_first:
  assumes "CONTENT_TEXT None \<notin> set bs" and "texts bs = t # ts"
  shows "copy_texts content 0 True bs =
     (if length (joined (texts bs)) < length content
      then Inr (joined (texts bs) @ [0] @ drop (length (joined (texts bs)) + 1) content) else Inl MemFault)"
  using assms
proof (induction content "0 :: nat" True bs rule: copy_texts.induct)
  case (2 content p bs)
  then obtain s where p: "p = Some s" by (cases p) auto
  show ?case
  proof (cases "length s \<le> length content")
    case True
    then have "copy_texts content 0 True (CONTENT_TEXT p # bs) = copy_texts (s @ drop (length s) content) (length s) False bs"
      using p by simp
    then show ?thesis using 2 p True by (auto simp: copy_texts_rest add.commute)
  next
    case False
    then show ?thesis using p by (simp add: copy_in_def)
  qed
qed auto

text \<open>What both functions compute: the texts joined, a write behind the block, or nothing.\<close>

definition text_outcome :: "cstr list \<Rightarrow> text_ptr res" where
  "text_outcome ts =
     (if list_all (\<lambda>t. t = []) ts then Inr None
      else if hd ts = [] then Inl MemFault else Inr (Some (joined ts)))"

lemma nul_free_joined: "list_all nul_free ts \<Longrightarrow> nul_free (joined ts)"
proof -
  have "nul_free (rest_texts us)" if "list_all nul_free us" for us
    using that by (induction us) (auto simp: nul_free_def)
  then show "list_all nul_free ts \<Longrightarrow> nul_free (joined ts)" by (cases ts) (auto simp: nul_free_def)
qed

lemma no_texts: "texts bs = [] \<Longrightarrow> text_length 0 bs = Inr 0"
  by (induction bs rule: texts.induct) auto

lemma c_string_joined: "list_all nul_free ts \<Longrightarrow> c_string (joined ts @ [0] @ zs) = joined ts"
  using nul_free_joined [of ts] by (simp add: c_string_def nul_free_def takeWhile_append)

lemma string_input_eq:
  assumes "has_texts (msg_blocks msg)"
  shows "build_string_input msg = text_outcome (texts (msg_blocks msg))"
proof (cases "texts (msg_blocks msg)")
  case Nil
  then show ?thesis by (simp add: build_string_input_def text_outcome_def no_texts)
next
  case (Cons t ts)
  let ?bs = "msg_blocks msg"
  have bs: "CONTENT_TEXT None \<notin> set ?bs" "list_all nul_free (texts ?bs)" using assms by (simp_all add: has_texts_def)
  show ?thesis
  proof (cases "t = []")
    case True
    with Cons have "texts ?bs = [] # ts" by simp
    from text_length_empty [OF bs(1) this] obtain n where n: "text_length 0 ?bs = Inr n"
      "n = 0 \<longleftrightarrow> list_all (\<lambda>t. t = []) ts" "n \<le> length (rest_texts ts) - 2" by (rule returnsE) auto
    have "ts \<noteq> []" if "n \<noteq> 0" using that n(2) by auto
    then have "\<not> length (rest_texts ts) < n + 1" if "n \<noteq> 0" using that n(3) by (cases ts) auto
    then show ?thesis
      using n True Cons copy_texts_first [OF bs(1) Cons, of "replicate (n + 1) 0"]
      by (auto simp: build_string_input_def text_outcome_def)
  next
    case False
    then show ?thesis
      using Cons text_length_first [OF bs(1) Cons] copy_texts_first [OF bs(1) Cons] c_string_joined [OF bs(2)] 
      by (simp add: build_string_input_def text_outcome_def)
  qed
qed

lemma text_content_eq:
  assumes "has_texts (msg_blocks msg)"
  shows "add_text_content msg =
     res_bind (text_outcome (texts (msg_blocks msg))) (\<lambda>t. Inr [str_mem ''content'' (case t of None \<Rightarrow> [] | Some s \<Rightarrow> s)])"
proof -
  have "add_text_content msg =
     res_bind (build_string_input msg) (\<lambda>t. Inr [str_mem ''content'' (case t of None \<Rightarrow> [] | Some s \<Rightarrow> s)])"
    by (cases "text_length 0 (msg_blocks msg)";
        cases "copy_texts (replicate (projr (text_length 0 (msg_blocks msg)) + 1) 0) 0 True (msg_blocks msg)")
      (auto simp: add_text_content_def build_string_input_def calculate_text_content_length_def concatenate_text_blocks_def
        lit_m_def str_mem_def bytes_of_def)
  then show ?thesis using string_input_eq [OF assms] by simp
qed

subsection \<open>Schemas of tools\<close>

text \<open>The schemas inside of a schema, along the keywords that hold schemas.\<close>

inductive subschema :: "json \<Rightarrow> json \<Rightarrow> bool" where
  subschema_self: "subschema s s"
| subschema_property: "obj_get s ''properties'' = Some (JObj ps) \<Longrightarrow> (k, v) \<in> set ps \<Longrightarrow> subschema v r \<Longrightarrow> subschema s r"
| subschema_items: "obj_get s ''items'' = Some v \<Longrightarrow> subschema v r \<Longrightarrow> subschema s r"
| subschema_combinator: "bytes_of key \<in> set combinators \<Longrightarrow> obj_get s key = Some (JArr es) \<Longrightarrow> e \<in> set es \<Longrightarrow> subschema e r \<Longrightarrow>
    subschema s r"

definition format_free :: "json \<Rightarrow> bool" where
  "format_free s \<longleftrightarrow> \<not> (\<exists>r. subschema s r \<and> obj_get r ''format'' \<noteq> None)"

lemma format_free_self: "format_free s \<Longrightarrow> obj_get s ''format'' = None"
  by (auto simp: format_free_def intro: subschema_self)

definition schema_part :: "byte list \<Rightarrow> json \<Rightarrow> json" where
  "schema_part k v =
     (if k = bytes_of ''properties'' then (case v of JObj ps \<Rightarrow> JObj (property_members ps) | _ \<Rightarrow> v)
      else if k = bytes_of ''items'' then remove_format_validators v
      else if k \<in> set combinators then (case v of JArr es \<Rightarrow> JArr (schema_elems es) | _ \<Rightarrow> v)
      else v)"

lemma property_members_eq: "property_members ps = map (\<lambda>(k, v). (k, remove_format_validators v)) ps"
  by (induction ps) auto

lemma schema_elems_eq: "schema_elems es = map remove_format_validators es"
  by (induction es) auto

lemma schema_members_Cons:
  "schema_members seen ((k, v) # ms) =
     (if k = bytes_of ''format'' then schema_members seen ms
      else (k, if k \<in> set seen then v else schema_part k v) # schema_members (k # seen) ms)"
  by (simp add: schema_part_def)

lemma schema_members_get:
  "k \<notin> set seen \<Longrightarrow> map_of (schema_members seen ms) k =
     (if k = bytes_of ''format'' then None else map_option (schema_part k) (map_of ms k))"
proof (induction ms arbitrary: seen)
  case (Cons m ms)
  then show ?case by (cases m) (auto simp: schema_members_Cons simp del: schema_members.simps(2))
qed simp

lemma schema_get:
  "obj_get (remove_format_validators s) key =
     (if bytes_of key = bytes_of ''format'' then None else map_option (schema_part (bytes_of key)) (obj_get s key))"
  by (cases s) (simp_all add: schema_members_get)

lemma schema_part_simps:
  "schema_part (bytes_of ''properties'') v = JObj ps \<longleftrightarrow> (\<exists>qs. v = JObj qs \<and> ps = map (\<lambda>(k, v). (k, remove_format_validators v)) qs)"
  "schema_part (bytes_of ''items'') v = remove_format_validators v"
  "k \<in> set combinators \<Longrightarrow> schema_part k v = JArr es \<longleftrightarrow> (\<exists>fs. v = JArr fs \<and> es = map remove_format_validators fs)"
  by (auto simp: schema_part_def property_members_eq schema_elems_eq combinators_def bytes_of_def split: json.splits)

lemma format_removed: "format_free (remove_format_validators s)"
proof -
  have "obj_get r ''format'' = None" if "subschema x r" and "x = remove_format_validators s" for x r s
    using that
  proof (induction arbitrary: s rule: subschema.induct)
    case (subschema_self x)
    then show ?case by (simp add: schema_get)
  next
    case (subschema_property x ps k v r)
    then show ?case by (auto simp: schema_get schema_part_simps split: if_splits)
  next
    case (subschema_items x v r)
    then show ?case by (auto simp: schema_get schema_part_simps split: if_splits)
  next
    case (subschema_combinator key x es e r)
    then show ?case by (auto simp: schema_get schema_part_simps split: if_splits)
  qed
  from this [OF _ refl] show ?thesis by (auto simp: format_free_def)
qed

lemma format_freeD:
  assumes "format_free s"
  shows "obj_get s ''properties'' = Some (JObj ps) \<Longrightarrow> (k, v) \<in> set ps \<Longrightarrow> format_free v"
    and "obj_get s ''items'' = Some v \<Longrightarrow> format_free v"
    and "bytes_of key \<in> set combinators \<Longrightarrow> obj_get s key = Some (JArr es) \<Longrightarrow> v \<in> set es \<Longrightarrow> format_free v"
  using assms subschema_property subschema_items subschema_combinator unfolding format_free_def by blast+

lemma schema_members_id:
  assumes "bytes_of ''format'' \<notin> fst ` set ms"
    and "\<And>k v. map_of ms k = Some v \<Longrightarrow> k \<notin> set seen \<Longrightarrow> schema_part k v = v"
  shows "schema_members seen ms = ms"
  using assms
proof (induction ms arbitrary: seen)
  case (Cons m ms)
  obtain k v where m: "m = (k, v)" by (cases m)
  have "schema_members (k # seen) ms = ms"
  proof (rule Cons.IH)
    show "bytes_of ''format'' \<notin> fst ` set ms" using Cons.prems(1) by simp
    show "schema_part k' v' = v'" if "map_of ms k' = Some v'" and "k' \<notin> set (k # seen)" for k' v'
      using that Cons.prems(2) [of k' v'] m by simp
  qed
  then show ?case using Cons.prems m by (auto simp: schema_members_Cons simp del: schema_members.simps(2))
qed simp

lemma member_size: "(k, v) \<in> set ms \<Longrightarrow> size v < size (JObj ms)"
  by (induction ms) auto

lemma elem_size: "v \<in> set es \<Longrightarrow> size v < size (JArr es)"
  by (induction es) auto

lemma schema_part_id:
  assumes s: "format_free (JObj ms)" and v: "map_of ms k = Some v"
    and IH: "\<And>w. size w < size (JObj ms) \<Longrightarrow> format_free w \<Longrightarrow> remove_format_validators w = w"
  shows "schema_part k v = v"
proof -
  have small: "size w < size (JObj ms)" if "size w \<le> size v" for w
    using that member_size [OF map_of_SomeD [OF v]] by simp
  have "remove_format_validators w = w" if "k = bytes_of ''properties''" "v = JObj ps" "(i, w) \<in> set ps" for i w ps
    using that v format_freeD(1) [OF s] IH small [of w] member_size [of i w ps] by auto
  moreover have "remove_format_validators v = v" if "k = bytes_of ''items''"
    using that v format_freeD(2) [OF s] IH small [of v] by simp
  moreover have "remove_format_validators w = w" if "k \<in> set combinators" "v = JArr es" "w \<in> set es" for w es
  proof -
    from that(1) obtain key where "k = bytes_of key" by (auto simp: combinators_def)
    then show ?thesis using that v format_freeD(3) [OF s] IH small [of w] elem_size [of w es] by auto
  qed
  ultimately show ?thesis
    by (auto simp: schema_part_def property_members_eq schema_elems_eq intro!: map_idI split: json.splits)
qed

lemma format_free_id: "format_free s \<Longrightarrow> remove_format_validators s = s"
proof (induction s rule: measure_induct_rule [of size])
  case (less s)
  show ?case
  proof (cases s)
    case (JObj ms)
    have "map_of ms (bytes_of ''format'') = None" using format_free_self [OF less.prems] JObj by simp
    then have "schema_members [] ms = ms"
      using schema_part_id [of ms] less JObj by (intro schema_members_id) (auto simp: map_of_eq_None_iff)
    then show ?thesis using JObj by simp
  qed simp_all
qed

text \<open>The steps after it change only two members of the outermost schema.\<close>

lemma remove_key_get: "bytes_of key' \<noteq> k \<Longrightarrow> map_of (remove_key key' ms) k = map_of ms k"
  by (induction ms) (auto simp: remove_key_def)

lemma remove_key_none [simp]: "map_of (remove_key key ms) (bytes_of key) = None"
  by (auto simp: remove_key_def map_of_eq_None_iff)

lemma format_free_outer:
  assumes "format_free s" and "obj_get p ''format'' = None"
    and "\<And>key. bytes_of key \<in> set (bytes_of ''properties'' # bytes_of ''items'' # combinators) \<Longrightarrow> obj_get p key = obj_get s key"
  shows "format_free p"
proof -
  have "r = p \<or> subschema s r" if "subschema p r" for r
    using that
  proof cases
    case (subschema_property ps k v)
    then show ?thesis using assms(3) by (auto intro: subschema.subschema_property)
  next
    case (subschema_items v)
    then show ?thesis using assms(3) by (auto intro: subschema.subschema_items)
  next
    case (subschema_combinator key es e)
    then show ?thesis using assms(3) by (auto intro: subschema.subschema_combinator)
  qed simp
  then show ?thesis using assms(1,2) by (auto simp: format_free_def)
qed

lemma required_get:
  "bytes_of key \<noteq> bytes_of ''required'' \<Longrightarrow> obj_get (ensure_all_properties_required s) key = obj_get s key"
  by (cases s) (auto simp: remove_key_get [where key' = "''required''"] map_add_def split: option.splits json.splits)

lemma required_all:
  "obj_get s ''properties'' = Some (JObj ps) \<Longrightarrow>
   obj_get (ensure_all_properties_required s) ''required'' = Some (JArr (map (\<lambda>(k, v). JStr (c_string k)) ps))"
  by (cases s) (auto simp: map_add_def)

lemma ensure_obj: "\<exists>es. ensure_all_properties_required (JObj ms) = JObj es"
  by (auto split: option.splits json.splits)

lemma keyword_neq [simp]:
  "bytes_of ''properties'' \<noteq> bytes_of ''required''" "bytes_of ''items'' \<noteq> bytes_of ''required''"
  "bytes_of ''format'' \<noteq> bytes_of ''required''" "bytes_of ''required'' \<noteq> bytes_of ''additionalProperties''"
  "bytes_of ''format'' \<noteq> bytes_of ''additionalProperties''" "bytes_of ''additionalProperties'' \<noteq> bytes_of ''required''"
  "bytes_of ''additionalProperties'' \<noteq> bytes_of ''format''" "bytes_of ''properties'' \<noteq> bytes_of ''format''"
  by (simp_all add: bytes_of_def)

lemma combinator_neq: "k \<in> set combinators \<Longrightarrow> k \<noteq> bytes_of ''required'' \<and> k \<noteq> bytes_of ''additionalProperties''"
  by (auto simp: combinators_def bytes_of_def)

lemma schema_part_other: "k \<notin> set (bytes_of ''properties'' # bytes_of ''items'' # combinators) \<Longrightarrow> schema_part k v = v"
  by (simp add: schema_part_def)

text \<open>The members that no step of the serializer looks into.\<close>

definition other_members :: "(byte list \<times> json) list \<Rightarrow> (byte list \<times> json) list" where
  "other_members ms = filter (\<lambda>(k, v). k \<notin> set (map bytes_of [''format'', ''required'', ''properties'', ''items''] @ combinators)) ms"

lemma other_schema_members: "other_members (schema_members seen ms) = other_members ms"
proof (induction ms arbitrary: seen)
  case (Cons m ms)
  obtain k v where m: "m = (k, v)" by (cases m)
  show ?case
    using Cons.IH [of seen] Cons.IH [of "k # seen"] schema_part_other [of k v]
    by (auto simp: other_members_def m schema_members_Cons simp del: schema_members.simps(2))
qed (simp add: other_members_def)

lemma other_remove_required: "other_members (remove_key ''required'' ms) = other_members ms"
  by (induction ms) (auto simp: other_members_def remove_key_def)

lemma other_ensure: "ensure_all_properties_required (JObj ms) = JObj es \<Longrightarrow> other_members es = other_members ms"
  using other_remove_required [of ms] by (auto simp: other_members_def split: option.splits json.splits)

lemma other_get: "bytes_of key \<notin> set (map bytes_of [''format'', ''required'', ''properties'', ''items''] @ combinators) \<Longrightarrow>
    obj_get (JObj (other_members ms)) key = obj_get (JObj ms) key"
  by (induction ms) (auto simp: other_members_def)

text \<open>C22. The parameters of every tool are sent to OpenAI as a strict schema. Let the text of a tool's parameters be a JSON
  object with properties. Then the tool is accepted. The schema sent for it lists the names of all its own properties as required, in order; it
  has no \<^verbatim>\<open>format\<close> keyword in itself and in the schemas that are reached from it through properties, items and the three combinators; and its
  other members are those of the parameters, unchanged (with any \<^verbatim>\<open>format\<close> inside of them), followed by one that forbids additional
  properties. So a schema that already says something about additional properties is sent with that member twice, the old one first.\<close>

theorem openai_tool_schema:
  assumes J: "J (td_parameters tool) = Some (JObj ms)"
    and ps: "obj_get (JObj ms) ''properties'' = Some (JObj ps)"
  shows "\<exists>qs. tool_parameters J tool = Some (JObj qs) \<and> format_free (JObj qs)
     \<and> obj_get (JObj qs) ''required'' = Some (JArr (map (\<lambda>(k, v). JStr (c_string k)) ps))
     \<and> other_members qs = other_members ms @ [(bytes_of ''additionalProperties'', JBool False)]
     \<and> obj_get (JObj qs) ''additionalProperties''
       = Some (case obj_get (JObj ms) ''additionalProperties'' of None \<Rightarrow> JBool False | Some v \<Rightarrow> v)"
proof -
  let ?s = "remove_format_validators (JObj ms)"
  obtain es where es: "ensure_all_properties_required ?s = JObj es" using ensure_obj by auto
  let ?qs = "es @ [(bytes_of ''additionalProperties'', JBool False)]"
  have p: "tool_parameters J tool = Some (JObj ?qs)" using J es by (simp add: tool_parameters_def del: remove_format_validators.simps)
  have get: "obj_get (JObj ?qs) key = obj_get (ensure_all_properties_required ?s) key"
    if "bytes_of key \<noteq> bytes_of ''additionalProperties''" for key
    using that es by (auto simp: map_add_def split: option.splits)
  have props: "obj_get ?s ''properties'' = Some (JObj (map (\<lambda>(k, v). (k, remove_format_validators v)) ps))"
    using ps by (simp add: schema_members_get schema_part_def property_members_eq)
  have "format_free (JObj ?qs)"
  proof (rule format_free_outer [OF format_removed [of "JObj ms"]])
    show "obj_get (JObj ?qs) ''format'' = None"
      using get [of "''format''"] by (simp add: required_get schema_get del: obj_get.simps remove_format_validators.simps)
    show "obj_get (JObj ?qs) key = obj_get ?s key"
      if "bytes_of key \<in> set (bytes_of ''properties'' # bytes_of ''items'' # combinators)" for key
      using that get [of key] combinator_neq [of "bytes_of key"] by (subst get) (auto simp: required_get bytes_of_def simp del: obj_get.simps remove_format_validators.simps)
  qed
  moreover have "obj_get (JObj ?qs) ''required'' = Some (JArr (map (\<lambda>(k, v). JStr (c_string k)) ps))"
    using get [of "''required''"] required_all [OF props] by (simp add: case_prod_unfold comp_def del: obj_get.simps)
  moreover have a: "bytes_of ''additionalProperties'' \<notin> set (map bytes_of [''format'', ''required'', ''properties'', ''items''] @ combinators)"
    by (simp add: combinators_def bytes_of_def)
  then have others: "other_members ?qs = other_members ms @ [(bytes_of ''additionalProperties'', JBool False)]"
    using other_ensure [of "schema_members [] ms" es] es other_schema_members [of "[]" ms] by (simp add: other_members_def)
  moreover have "obj_get (JObj ?qs) ''additionalProperties''
      = Some (case obj_get (JObj ms) ''additionalProperties'' of None \<Rightarrow> JBool False | Some v \<Rightarrow> v)"
    using other_get [OF a, of ?qs] other_get [OF a, of ms] unfolding others by (auto simp: map_add_def split: option.splits)
  ultimately show ?thesis using p by blast
qed

definition sample_tool :: ik_tool_def where
  "sample_tool = \<lparr>td_name = bytes_of ''fetch'', td_description = bytes_of ''Get a page'', td_parameters = bytes_of ''P'', td_strict = False\<rparr>"

definition sample_schema :: "(byte list \<times> json) list" where
  "sample_schema = [lit_m ''type'' ''object'',
     (bytes_of ''properties'', JObj [(bytes_of ''url'', JObj [lit_m ''type'' ''string'', lit_m ''format'' ''uri''])]),
     (bytes_of ''additionalProperties'', JBool True)]"

theorem openai_tool_schema_witness:
  "\<exists>qs. tool_parameters [bytes_of ''P'' \<mapsto> JObj sample_schema] sample_tool = Some (JObj qs) \<and> format_free (JObj qs)
     \<and> obj_get (JObj qs) ''required'' = Some (JArr [JStr (bytes_of ''url'')])
     \<and> other_members qs = [lit_m ''type'' ''object'', (bytes_of ''additionalProperties'', JBool True), (bytes_of ''additionalProperties'', JBool False)]
     \<and> obj_get (JObj qs) ''additionalProperties'' = Some (JBool True)"
proof -
  have h: "[bytes_of ''P'' \<mapsto> JObj sample_schema] (td_parameters sample_tool) = Some (JObj sample_schema)"
    "obj_get (JObj sample_schema) ''properties'' = Some (JObj [(bytes_of ''url'', JObj [lit_m ''type'' ''string'', lit_m ''format'' ''uri''])])"
    by (simp_all add: sample_tool_def sample_schema_def lit_m_def bytes_of_def)
  have o: "other_members sample_schema = [lit_m ''type'' ''object'', (bytes_of ''additionalProperties'', JBool True)]"
    "obj_get (JObj sample_schema) ''additionalProperties'' = Some (JBool True)" "c_string (bytes_of ''url'') = bytes_of ''url''"
    by (simp_all add: other_members_def sample_schema_def lit_m_def combinators_def bytes_of_def c_string_id nul_free_def)
  show ?thesis using openai_tool_schema [of "[bytes_of ''P'' \<mapsto> JObj sample_schema]", OF h] o by simp
qed

text \<open>C20. How the texts of a message are joined for OpenAI, by the copy in serialize.c and by the one in request_responses.c. When every text
  block of a message has its text, the content is the texts with a blank line between them if the first is not empty, and it is empty if all are.
  If the first text is empty and another is not, the code writes behind the block it allocated: the length counts a separator only
  after some text, the copy writes one before every text but the first.\<close>

theorem openai_text_content:
  assumes "has_texts (msg_blocks msg)"
  shows "build_string_input msg = text_outcome (texts (msg_blocks msg))
     \<and> add_text_content msg = res_bind (text_outcome (texts (msg_blocks msg)))
         (\<lambda>t. Inr [str_mem ''content'' (case t of None \<Rightarrow> [] | Some s \<Rightarrow> s)])"
  using string_input_eq [OF assms] text_content_eq [OF assms] by simp

definition sample_text_blocks :: "string list \<Rightarrow> ik_message" where
  "sample_text_blocks ss = blocks_message IK_ROLE_USER (map (\<lambda>s. CONTENT_TEXT (Some (bytes_of s))) ss)"

theorem openai_text_content_witness:
  "build_string_input (sample_text_blocks [''ab'', '''', ''c'']) = Inr (Some [97, 98, 10, 10, 10, 10, 99])
   \<and> build_string_input (sample_text_blocks ['''', ''c'']) = Inl MemFault
   \<and> add_text_content (sample_text_blocks ['''', ''c'']) = Inl MemFault
   \<and> add_text_content (sample_text_blocks ['''', '''']) = Inr [str_mem ''content'' []]"
proof -
  have h: "has_texts (msg_blocks (sample_text_blocks [''ab'', '''', ''c'']))" "has_texts (msg_blocks (sample_text_blocks ['''', ''c'']))"
    "has_texts (msg_blocks (sample_text_blocks ['''', '''']))"
    by (auto simp: has_texts_def sample_text_blocks_def blocks_message_def nul_free_def bytes_of_def)
  show ?thesis
    using openai_text_content [OF h(1)] openai_text_content [OF h(2)] openai_text_content [OF h(3)]
    by (simp add: sample_text_blocks_def blocks_message_def text_outcome_def bytes_of_def)
qed

text \<open>The three tables of reasoning.c agree: the models that use the Responses API are the reasoning models, and they are the models
  for which every thinking level has an effort. So a request to the Responses API for such a model always says how much to reason.\<close>

theorem openai_reasoning_tables:
  "(ik_openai_use_responses_api model \<longleftrightarrow> ik_openai_is_reasoning_model model)
   \<and> (ik_openai_use_responses_api model \<longleftrightarrow> ik_openai_reasoning_effort model level \<noteq> None)
   \<and> (ik_openai_use_responses_api (req_model req) \<longleftrightarrow> add_reasoning_config req \<noteq> [])"
proof -
  have same: "REASONING_MODELS = RESPONSES_API_MODELS" by (simp add: REASONING_MODELS_def RESPONSES_API_MODELS_def)
  have keys: "set (map fst EFFORT_MAP) = set RESPONSES_API_MODELS"
    unfolding EFFORT_MAP_def RESPONSES_API_MODELS_def by (simp only: list.map fst_conv) (simp only: list.set insert_commute)
  have ne: "bytes_of m \<noteq> []" if "m \<in> set RESPONSES_API_MODELS" for m
    using that by (auto simp: RESPONSES_API_MODELS_def bytes_of_def)
  have effort: "ik_openai_use_responses_api m \<longleftrightarrow> ik_openai_reasoning_effort m l \<noteq> None" for m l
  proof -
    have "ik_openai_reasoning_effort m l \<noteq> None \<longleftrightarrow> (\<exists>e \<in> set (map fst EFFORT_MAP). m = bytes_of e)"
      by (force simp: ik_openai_reasoning_effort_def find_None_iff)
    then show ?thesis using ne unfolding keys by (auto simp: ik_openai_use_responses_api_def list_ex_iff)
  qed
  have model: "ik_openai_use_responses_api m \<longleftrightarrow> ik_openai_is_reasoning_model m" for m
    by (simp add: ik_openai_use_responses_api_def ik_openai_is_reasoning_model_def same)
  have "ik_openai_use_responses_api (req_model req) \<longleftrightarrow> add_reasoning_config req \<noteq> []"
    using effort [of "req_model req" "req_thinking req"] model [of "req_model req"]
    by (cases "ik_openai_reasoning_effort (req_model req) (req_thinking req)") (simp_all add: add_reasoning_config_def)
  then show ?thesis using effort model by blast
qed

end
