(* ===== verification/Ik_Google_Request.thy ===== *)
theory Ik_Google_Request
  imports Ik_Request_Json Ik_Provider Ik_SSE Ik_Event_Render
begin

text \<open>
  The requests of the Gemini API and its error bodies: apps/ikigai/providers/google/thinking.c, request_helpers.c, request.c, error.c
  and response_error.c.

  A serializer that returns false is \<open>Err PARSE\<close>, the error its caller makes of it; reading a \<^verbatim>\<open>NULL\<close> string is a fault.
\<close>

subsection \<open>thinking.c\<close>

datatype ik_gemini_series = IK_GEMINI_2_5 | IK_GEMINI_3 | IK_GEMINI_OTHER

definition GOOGLE_BUDGET_TABLE :: "(string \<times> int \<times> int) list" where
  "GOOGLE_BUDGET_TABLE = [(''gemini-2.5-pro'', 128, 32768), (''gemini-2.5-flash-lite'', 512, 24576), (''gemini-2.5-flash'', 0, 24576)]"

definition ik_google_model_series :: "cstr \<Rightarrow> ik_gemini_series" where
  "ik_google_model_series model =
     (if find_sub (bytes_of ''gemini-3'') model \<noteq> None then IK_GEMINI_3
      else if find_sub (bytes_of ''gemini-2.5'') model \<noteq> None then IK_GEMINI_2_5 else IK_GEMINI_OTHER)"

definition ik_google_supports_thinking :: "cstr \<Rightarrow> bool" where
  "ik_google_supports_thinking model \<longleftrightarrow> ik_google_model_series model = IK_GEMINI_2_5 \<or> ik_google_model_series model = IK_GEMINI_3"

definition google_limits :: "cstr \<Rightarrow> (int \<times> int) option" where
  "google_limits model = map_option snd (find (\<lambda>(pattern, l). model = bytes_of pattern) GOOGLE_BUDGET_TABLE)"

definition ik_google_can_disable_thinking :: "cstr \<Rightarrow> bool" where
  "ik_google_can_disable_thinking model \<longleftrightarrow>
     ik_google_model_series model = IK_GEMINI_2_5
     \<and> (case google_limits model of None \<Rightarrow> False | Some (min_budget, max_budget) \<Rightarrow> min_budget = 0)"

definition ik_google_thinking_budget :: "cstr \<Rightarrow> ik_thinking_level \<Rightarrow> int" where
  "ik_google_thinking_budget model level =
     (if ik_google_model_series model \<noteq> IK_GEMINI_2_5 then - 1
      else (case google_limits model of None \<Rightarrow> - 1 | Some l \<Rightarrow> level_budget l level))"

definition LEVEL_TABLE :: "(string \<times> string \<times> string \<times> string \<times> string) list" where
  "LEVEL_TABLE =
    [(''gemini-3-flash-preview'', ''minimal'', ''low'', ''medium'', ''high''),
     (''gemini-3-pro-preview'', ''low'', ''low'', ''high'', ''high''),
     (''gemini-3.1-pro-preview'', ''low'', ''low'', ''medium'', ''high'')]"

definition ik_google_thinking_level_str :: "cstr \<Rightarrow> ik_thinking_level \<Rightarrow> string" where
  "ik_google_thinking_level_str model level =
     (case find (\<lambda>(pattern, s). model = bytes_of pattern) LEVEL_TABLE of
        None \<Rightarrow> pick_level level (''low'', ''low'', ''high'', ''high'')
      | Some (pattern, s) \<Rightarrow> pick_level level s)"

definition ik_google_validate_thinking :: "cstr \<Rightarrow> ik_thinking_level \<Rightarrow> unit res" where
  "ik_google_validate_thinking model level =
     (if level = IK_THINKING_MIN then
        (if ik_google_model_series model = IK_GEMINI_2_5 \<and> \<not> ik_google_can_disable_thinking model then Inl (Err INVALID_ARG) else Inr ())
      else if \<not> ik_google_supports_thinking model then Inl (Err INVALID_ARG) else Inr ())"

subsection \<open>request_helpers.c\<close>

fun ik_google_role_to_string :: "ik_role \<Rightarrow> cstr \<Rightarrow> string" where
  "ik_google_role_to_string IK_ROLE_USER model = ''user''"
| "ik_google_role_to_string IK_ROLE_ASSISTANT model = ''model''"
| "ik_google_role_to_string IK_ROLE_TOOL model = (if ik_google_model_series model = IK_GEMINI_3 then ''user'' else ''function'')"

fun scan_calls :: "text_ptr \<Rightarrow> ik_content_block list \<Rightarrow> text_ptr res" where
  "scan_calls tool_call_id [] = Inr None"
| "scan_calls tool_call_id (CONTENT_TOOL_CALL i name args sig # bs) =
     res_bind (req_str MemFault i) (\<lambda>i'. res_bind (req_str MemFault tool_call_id) (\<lambda>t.
       if i' = t then Inr name else scan_calls tool_call_id bs))"
| "scan_calls tool_call_id (b # bs) = scan_calls tool_call_id bs"

definition find_function_name_for_tool_call :: "ik_message list \<Rightarrow> nat \<Rightarrow> text_ptr \<Rightarrow> text_ptr res" where
  "find_function_name_for_tool_call messages current_idx tool_call_id =
     scan_calls tool_call_id (concat (map msg_blocks (take current_idx messages)))"

fun ik_google_serialize_content_block ::
  "yyjson \<Rightarrow> cstr \<Rightarrow> ik_message list \<Rightarrow> nat \<Rightarrow> ik_content_block \<Rightarrow> json res" where
  "ik_google_serialize_content_block J model messages idx (CONTENT_TEXT t) =
     res_bind (req_str (Err PARSE) t) (\<lambda>s. Inr (JObj [str_mem ''text'' s]))"
| "ik_google_serialize_content_block J model messages idx (CONTENT_THINKING t signature) =
     res_bind (req_str (Err PARSE) t) (\<lambda>s. Inr (JObj [str_mem ''text'' s, (bytes_of ''thought'', JBool True)]))"
| "ik_google_serialize_content_block J model messages idx (CONTENT_TOOL_CALL i name args sig) =
     res_bind (req_str (Err PARSE) name) (\<lambda>n. res_bind (req_str MemFault args) (\<lambda>a.
       (case J a of None \<Rightarrow> Inl (Err PARSE)
        | Some v \<Rightarrow> Inr (JObj ((case sig of Some s \<Rightarrow> if ik_google_model_series model = IK_GEMINI_3 then [str_mem ''thoughtSignature'' s] else []
                               | None \<Rightarrow> [])
             @ [(bytes_of ''functionCall'', JObj [str_mem ''name'' n, (bytes_of ''args'', v)])])))))"
| "ik_google_serialize_content_block J model messages idx (CONTENT_TOOL_RESULT i content is_error) =
     res_bind (find_function_name_for_tool_call messages idx i) (\<lambda>func_name.
     res_bind (req_str (Err PARSE) (case func_name of None \<Rightarrow> i | Some n \<Rightarrow> Some n)) (\<lambda>n. res_bind (req_str (Err PARSE) content) (\<lambda>c.
       Inr (JObj [(bytes_of ''functionResponse'', JObj [str_mem ''name'' n, (bytes_of ''response'', JObj [str_mem ''content'' c])])]))))"
| "ik_google_serialize_content_block J model messages idx (CONTENT_REDACTED_THINKING data) = Inl (Err PARSE)"

definition ik_google_extract_thought_signature :: "yyjson \<Rightarrow> text_ptr \<Rightarrow> text_ptr" where
  "ik_google_extract_thought_signature J metadata =
     (if empty_ptr metadata then None
      else (case J (the metadata) of None \<Rightarrow> None
            | Some v \<Rightarrow> (case str_of (obj_get v ''thought_signature'') of None \<Rightarrow> None | Some s \<Rightarrow> if s = [] then None else Some s)))"

fun latest_signature :: "yyjson \<Rightarrow> ik_message list \<Rightarrow> text_ptr" where
  "latest_signature J [] = None"
| "latest_signature J (msg # rev_msgs) =
     (if msg_role msg \<noteq> IK_ROLE_ASSISTANT then latest_signature J rev_msgs
      else (case ik_google_extract_thought_signature J (msg_metadata msg) of None \<Rightarrow> latest_signature J rev_msgs | Some s \<Rightarrow> Some s))"

definition ik_google_find_latest_thought_signature :: "yyjson \<Rightarrow> ik_request \<Rightarrow> text_ptr" where
  "ik_google_find_latest_thought_signature J req =
     (if ik_google_model_series (req_model req) \<noteq> IK_GEMINI_3 then None else latest_signature J (rev (req_messages req)))"

definition ik_google_serialize_message_parts ::
  "yyjson \<Rightarrow> ik_message \<Rightarrow> text_ptr \<Rightarrow> bool \<Rightarrow> cstr \<Rightarrow> ik_message list \<Rightarrow> nat \<Rightarrow> json res" where
  "ik_google_serialize_message_parts J message thought_sig is_first_assistant model messages idx =
     res_bind (map_res (ik_google_serialize_content_block J model messages idx) (msg_blocks message)) (\<lambda>parts.
       Inr (JArr ((case thought_sig of Some s \<Rightarrow> if is_first_assistant then [JObj [str_mem ''thoughtSignature'' s]] else [] | None \<Rightarrow> [])
         @ parts)))"

subsection \<open>request.c\<close>

definition serialize_system_instruction :: "ik_request \<Rightarrow> (byte list \<times> json) list" where
  "serialize_system_instruction req =
     (if empty_ptr (req_system_prompt req) then []
      else [(bytes_of ''systemInstruction'', JObj [(bytes_of ''parts'', JArr [JObj [str_mem ''text'' (the (req_system_prompt req))]])])])"

fun google_contents :: "yyjson \<Rightarrow> ik_request \<Rightarrow> text_ptr \<Rightarrow> nat \<Rightarrow> bool \<Rightarrow> ik_message list \<Rightarrow> json list res" where
  "google_contents J req sig i seen_assistant [] = Inr []"
| "google_contents J req sig i seen_assistant (msg # msgs) =
     res_bind (ik_google_serialize_message_parts J msg sig (msg_role msg = IK_ROLE_ASSISTANT \<and> \<not> seen_assistant) (req_model req)
         (req_messages req) i) (\<lambda>parts.
     res_bind (google_contents J req sig (i + 1) (seen_assistant \<or> msg_role msg = IK_ROLE_ASSISTANT) msgs) (\<lambda>contents.
       Inr (JObj [lit_m ''role'' (ik_google_role_to_string (msg_role msg) (req_model req)), (bytes_of ''parts'', parts)] # contents)))"

definition serialize_contents :: "yyjson \<Rightarrow> ik_request \<Rightarrow> text_ptr \<Rightarrow> (byte list \<times> json) res" where
  "serialize_contents J req thought_sig =
     res_bind (google_contents J req thought_sig 0 False (req_messages req)) (\<lambda>cs. Inr (bytes_of ''contents'', JArr cs))"

fun without_additional :: "json \<Rightarrow> json" where
  "without_additional (JObj ms) = JObj (filter (\<lambda>(k, v). k \<noteq> bytes_of ''additionalProperties'') ms)"
| "without_additional v = v"

definition google_function :: "yyjson \<Rightarrow> ik_tool_def \<Rightarrow> json option" where
  "google_function J tool =
     map_option (\<lambda>v. JObj [str_mem ''name'' (td_name tool), str_mem ''description'' (td_description tool),
        (bytes_of ''parameters'', without_additional v)]) (J (td_parameters tool))"

definition serialize_tools :: "yyjson \<Rightarrow> ik_request \<Rightarrow> (byte list \<times> json) list res" where
  "serialize_tools J req =
     (if req_tools req = [] then Inr []
      else (case map_all (google_function J) (req_tools req) of None \<Rightarrow> Inl (Err PARSE)
            | Some fs \<Rightarrow> Inr [(bytes_of ''tools'', JArr [JObj [(bytes_of ''functionDeclarations'', JArr fs)]])]))"

definition serialize_tool_config :: "ik_request \<Rightarrow> (byte list \<times> json) list" where
  "serialize_tool_config req =
     (if req_tools req = [] then []
      else [(bytes_of ''toolConfig'', JObj [(bytes_of ''functionCallingConfig'',
              JObj [lit_m ''mode'' (tool_choice_str ''AUTO'' ''NONE'' ''ANY'' (req_tool_choice_mode req))])])])"

definition google_thinking_config :: "ik_request \<Rightarrow> json" where
  "google_thinking_config req =
     JObj ((bytes_of ''includeThoughts'', JBool True) #
       (case ik_google_model_series (req_model req) of
          IK_GEMINI_2_5 \<Rightarrow> (let budget = ik_google_thinking_budget (req_model req) (req_thinking req)
                            in if budget \<ge> 0 then [(bytes_of ''thinkingBudget'', JInt budget)] else [])
        | IK_GEMINI_3 \<Rightarrow> [lit_m ''thinkingLevel'' (ik_google_thinking_level_str (req_model req) (req_thinking req))]
        | IK_GEMINI_OTHER \<Rightarrow> []))"

definition serialize_generation_config :: "ik_request \<Rightarrow> (byte list \<times> json) list" where
  "serialize_generation_config req =
     (let need_max_tokens = req_max_output_tokens req > 0;
          need_thinking = (ik_google_model_series (req_model req) = IK_GEMINI_3
             \<or> req_thinking req \<noteq> IK_THINKING_MIN \<and> ik_google_supports_thinking (req_model req))
      in if \<not> need_max_tokens \<and> \<not> need_thinking then []
         else [(bytes_of ''generationConfig'', JObj (max_tokens_field ''maxOutputTokens'' req
                @ (if need_thinking then [(bytes_of ''thinkingConfig'', google_thinking_config req)] else [])))])"

definition google_document :: "yyjson \<Rightarrow> ik_request \<Rightarrow> json res" where
  "google_document J req =
     res_bind (serialize_contents J req (ik_google_find_latest_thought_signature J req)) (\<lambda>contents.
     res_bind (serialize_tools J req) (\<lambda>tools.
       Inr (JObj (serialize_system_instruction req @ [contents] @ tools @ serialize_tool_config req @ serialize_generation_config req))))"

text \<open>The writer of yyjson refuses documents, among them those with a string that is not UTF-8.\<close>

definition ik_google_serialize_request :: "yyjson \<Rightarrow> yyjson_writer \<Rightarrow> ik_request \<Rightarrow> cstr res" where
  "ik_google_serialize_request J W req =
     res_bind (google_document J req) (\<lambda>d. case W d of None \<Rightarrow> Inl (Err PARSE) | Some s \<Rightarrow> Inr s)"

definition ik_google_build_url :: "cstr \<Rightarrow> cstr \<Rightarrow> cstr \<Rightarrow> bool \<Rightarrow> cstr" where
  "ik_google_build_url base_url model api_key streaming =
     base_url @ bytes_of ''/models/'' @ model @ bytes_of '':'' @ bytes_of (if streaming then ''streamGenerateContent'' else ''generateContent'')
     @ bytes_of ''?key='' @ api_key @ (if streaming then bytes_of ''&alt=sse'' else [])"

definition ik_google_build_headers :: "bool \<Rightarrow> cstr list" where
  "ik_google_build_headers streaming =
     bytes_of ''Content-Type: application/json'' # (if streaming then [bytes_of ''Accept: text/event-stream''] else [])"

subsection \<open>error.c and response_error.c\<close>

definition google_status_to_category :: "int \<Rightarrow> ik_error_category" where
  "google_status_to_category status =
     (if status = 403 then IK_ERR_CAT_AUTH
      else if status = 429 then IK_ERR_CAT_RATE_LIMIT
      else if status = 400 then IK_ERR_CAT_INVALID_ARG
      else if status = 404 then IK_ERR_CAT_NOT_FOUND
      else if status = 500 \<or> status = 503 then IK_ERR_CAT_SERVER
      else if status = 504 then IK_ERR_CAT_TIMEOUT
      else IK_ERR_CAT_UNKNOWN)"

definition ik_google_handle_error :: "yyjson \<Rightarrow> int \<Rightarrow> cstr \<Rightarrow> ik_error_category \<times> err_code option" where
  "ik_google_handle_error J status body = (google_status_to_category status, if J body = None then Some PARSE else None)"

definition google_http_status_to_category :: "int \<Rightarrow> ik_error_category" where
  "google_http_status_to_category http_status =
     (if http_status = 400 then IK_ERR_CAT_INVALID_ARG
      else if http_status = 401 \<or> http_status = 403 then IK_ERR_CAT_AUTH
      else if http_status = 404 then IK_ERR_CAT_NOT_FOUND
      else if http_status = 429 then IK_ERR_CAT_RATE_LIMIT
      else if http_status = 500 \<or> http_status = 502 \<or> http_status = 503 then IK_ERR_CAT_SERVER
      else if http_status = 504 then IK_ERR_CAT_TIMEOUT
      else IK_ERR_CAT_UNKNOWN)"

definition try_extract_error_message :: "yyjson \<Rightarrow> text_ptr \<Rightarrow> int \<Rightarrow> cstr option" where
  "try_extract_error_message J body http_status =
     (if empty_ptr body then None
      else (case J (the body) of None \<Rightarrow> None
            | Some v \<Rightarrow>
               if \<not> is_obj v then None
               else (case obj_get v ''error'' of None \<Rightarrow> None
                     | Some error_obj \<Rightarrow> map_option (\<lambda>m. dec_int http_status @ bytes_of '': '' @ m) (str_of (obj_get error_obj ''message'')))))"

definition ik_google_parse_error :: "yyjson \<Rightarrow> int \<Rightarrow> text_ptr \<Rightarrow> ik_error_category \<times> cstr" where
  "ik_google_parse_error J http_status body =
     (google_http_status_to_category http_status,
      default (bytes_of ''HTTP '' @ dec_int http_status) (try_extract_error_message J body http_status))"

subsection \<open>Which requests are sent\<close>

fun google_ok :: "yyjson \<Rightarrow> ik_content_block \<Rightarrow> bool" where
  "google_ok J (CONTENT_TOOL_CALL i name args sig) = (J (the args) \<noteq> None)"
| "google_ok J (CONTENT_REDACTED_THINKING data) = False"
| "google_ok J b = True"

lemma scan_calls_complete: "list_all complete_block bs \<Longrightarrow> \<exists>n. scan_calls (Some t) bs = Inr n"
  by (induction "Some t" bs rule: scan_calls.induct) auto

lemma google_block:
  assumes "list_all (\<lambda>m. list_all complete_block (msg_blocks m)) messages" and "complete_block b"
  shows "succeeds_iff (google_ok J b) (Err PARSE) (ik_google_serialize_content_block J model messages i b)"
proof (cases b)
  case (CONTENT_TOOL_RESULT t content is_error)
  have "list_all complete_block (concat (map msg_blocks (take i messages)))"
    using assms(1) by (auto simp: list_all_iff dest: in_set_takeD)
  then obtain n where "find_function_name_for_tool_call messages i t = Inr n"
    using assms(2) CONTENT_TOOL_RESULT scan_calls_complete unfolding find_function_name_for_tool_call_def by fastforce
  then show ?thesis using assms(2) CONTENT_TOOL_RESULT by (cases n) (auto simp: succeeds_iff_def)
qed (use assms(2) in \<open>auto simp: succeeds_iff_def split: option.splits\<close>)

lemma google_contents_succeeds:
  assumes "every_block complete_block req" and "list_all (\<lambda>m. list_all complete_block (msg_blocks m)) msgs"
  shows "succeeds_iff (list_all (\<lambda>m. list_all (google_ok J) (msg_blocks m)) msgs) (Err PARSE) (google_contents J req sig i seen msgs)"
  using assms(2)
proof (induction msgs arbitrary: i seen)
  case (Cons m msgs)
  have blocks: "list_all complete_block (msg_blocks m)" using Cons.prems by simp
  have "succeeds_iff (list_all (google_ok J) (msg_blocks m)) (Err PARSE)
      (map_res (ik_google_serialize_content_block J (req_model req) (req_messages req) i) (msg_blocks m))"
    using google_block assms(1) blocks by (intro succeeds_map) (auto simp: every_block_def list_all_iff)
  note here = succeeds_then [OF this]
  have "succeeds_iff (list_all (\<lambda>m. list_all (google_ok J) (msg_blocks m)) msgs) (Err PARSE) (google_contents J req sig i' seen' msgs)"
    for i' seen' using Cons by simp
  note rest = succeeds_then [OF this]
  show ?case unfolding google_contents.simps list_all_Cons_iff ik_google_serialize_message_parts_def
    by (intro succeeds_bind here rest)
qed (simp add: succeeds_Inr)

lemma google_tools_succeeds: "succeeds_iff (tools_parse J req) (Err PARSE) (serialize_tools J req)"
proof -
  have "map_all (google_function J) (req_tools req) = None \<longleftrightarrow> \<not> tools_parse J req"
    by (auto simp: map_all_eq_None tools_parse_def list_all_iff google_function_def)
  then show ?thesis
    by (cases "map_all (google_function J) (req_tools req)") (auto simp: serialize_tools_def succeeds_iff_def)
qed

lemma google_document_succeeds:
  assumes "every_block complete_block req"
  shows "succeeds_iff (every_block (google_ok J) req \<and> tools_parse J req) (Err PARSE) (google_document J req)"
proof -
  have contents: "succeeds_iff (every_block (google_ok J) req) (Err PARSE) (serialize_contents J req sig)" for sig
    using assms unfolding serialize_contents_def every_block_def
    by (intro succeeds_then google_contents_succeeds) (simp_all add: every_block_def)
  show ?thesis
    unfolding google_document_def
    by (rule succeeds_bind [OF contents]) (rule succeeds_then [OF google_tools_succeeds])
qed

lemma google_request_outcome:
  assumes "every_block complete_block req"
  shows "if every_block (google_ok J) req \<and> tools_parse J req
    then \<exists>d. google_document J req = Inr d
      \<and> ik_google_serialize_request J W req = (case W d of None \<Rightarrow> Inl (Err PARSE) | Some s \<Rightarrow> Inr s)
    else ik_google_serialize_request J W req = Inl (Err PARSE)"
  using google_document_succeeds [OF assms, of J] by (auto simp: succeeds_iff_def ik_google_serialize_request_def)

text \<open>C21. Which requests reach Gemini. Let every block of a request have its strings. A document is made of the request exactly when the
  arguments of every tool call and the parameters of every tool are JSON texts and no block is redacted thinking; then the request is the text
  that yyjson writes of it, or a parse error if yyjson refuses to write it, as it does for strings that are not UTF-8. Otherwise the request is
  a parse error. So a conversation that holds redacted thinking, or a tool call whose arguments are not a JSON text, makes every later
  request to Gemini fail.\<close>

theorem google_request_sent:
  assumes "every_block complete_block req"
  shows "if every_block (google_ok J) req \<and> tools_parse J req
    then \<exists>d. google_document J req = Inr d
      \<and> ik_google_serialize_request J W req = (case W d of None \<Rightarrow> Inl (Err PARSE) | Some s \<Rightarrow> Inr s)
    else ik_google_serialize_request J W req = Inl (Err PARSE)"
  using assms by (rule google_request_outcome)

text \<open>A writer that refuses strings other than ASCII.\<close>

fun json_strings :: "json \<Rightarrow> cstr list" where
  "json_strings (JStr s) = [s]"
| "json_strings (JArr vs) = concat (map json_strings vs)"
| "json_strings (JObj ms) = concat (map (\<lambda>(k, v). k # json_strings v) ms)"
| "json_strings v = []"

definition ascii_writer :: yyjson_writer where
  "ascii_writer d = (if list_all (list_all (\<lambda>b. b < 128)) (json_strings d) then Some (bytes_of ''{}'') else None)"

definition sample_dialogue :: "ik_content_block \<Rightarrow> ik_request" where
  "sample_dialogue b = (ik_request_create (bytes_of ''gemini''))\<lparr>req_messages :=
     [blocks_message IK_ROLE_USER [CONTENT_TEXT (Some (bytes_of ''hi''))], blocks_message IK_ROLE_ASSISTANT [b],
      blocks_message IK_ROLE_TOOL [CONTENT_TOOL_RESULT (Some (bytes_of ''c'')) (Some (bytes_of ''ok'')) False]]\<rparr>"

definition sample_call_block :: ik_content_block where
  "sample_call_block = CONTENT_TOOL_CALL (Some (bytes_of ''c'')) (Some (bytes_of ''ls'')) (Some (bytes_of ''{}'')) None"

theorem google_request_sent_witness:
  "ik_google_serialize_request [bytes_of ''{}'' \<mapsto> JObj []] ascii_writer (sample_dialogue sample_call_block) = Inr (bytes_of ''{}'')
   \<and> ik_google_serialize_request [bytes_of ''{}'' \<mapsto> JObj []] ascii_writer (sample_dialogue (CONTENT_TEXT (Some [0xFF]))) = Inl (Err PARSE)
   \<and> ik_google_serialize_request [bytes_of ''{}'' \<mapsto> JObj []] ascii_writer (sample_dialogue (CONTENT_REDACTED_THINKING (Some []))) = Inl (Err PARSE)
   \<and> ik_google_serialize_request (\<lambda>t. None) ascii_writer (sample_dialogue sample_call_block) = Inl (Err PARSE)"
proof -
  let ?J = "[bytes_of ''{}'' \<mapsto> JObj []]"
  have h: "every_block complete_block (sample_dialogue sample_call_block)"
    "every_block complete_block (sample_dialogue (CONTENT_TEXT (Some [0xFF])))"
    "every_block complete_block (sample_dialogue (CONTENT_REDACTED_THINKING (Some [])))"
    by (simp_all add: every_block_def sample_dialogue_def blocks_message_def sample_call_block_def)
  note sample_defs = every_block_def tools_parse_def sample_dialogue_def blocks_message_def sample_call_block_def ik_request_create_def
  have series: "ik_google_model_series [0x67, 0x65, 0x6D, 0x69, 0x6E, 0x69] = IK_GEMINI_OTHER"
    by (simp add: ik_google_model_series_def bytes_of_def)
  have docs: "pred_option (\<lambda>s. s = bytes_of ''{}'') (ascii_writer (projr (google_document ?J (sample_dialogue sample_call_block))))"
    "ascii_writer (projr (google_document ?J (sample_dialogue sample_call_block))) \<noteq> None"
    "ascii_writer (projr (google_document ?J (sample_dialogue (CONTENT_TEXT (Some [0xFF]))))) = None"
    by (simp_all add: sample_defs google_document_def serialize_contents_def serialize_tools_def ik_google_serialize_message_parts_def
        ik_google_find_latest_thought_signature_def series find_function_name_for_tool_call_def serialize_system_instruction_def
        serialize_tool_config_def serialize_generation_config_def ik_google_supports_thinking_def max_tokens_field_def empty_ptr_def
        ascii_writer_def str_mem_def lit_m_def bytes_of_def Let_def)
  have ok: "every_block (google_ok ?J) (sample_dialogue sample_call_block) \<and> tools_parse ?J (sample_dialogue sample_call_block)"
    "every_block (google_ok ?J) (sample_dialogue (CONTENT_TEXT (Some [0xFF]))) \<and> tools_parse ?J (sample_dialogue (CONTENT_TEXT (Some [0xFF])))"
    "\<not> every_block (google_ok ?J) (sample_dialogue (CONTENT_REDACTED_THINKING (Some [])))"
    "\<not> every_block (google_ok (\<lambda>t. None)) (sample_dialogue sample_call_block)"
    by (simp_all add: sample_defs)
  show ?thesis
    using google_request_sent [OF h(1), of ?J ascii_writer] google_request_sent [OF h(2), of ?J ascii_writer]
      google_request_sent [OF h(3), of ?J ascii_writer] google_request_sent [OF h(1), of "\<lambda>t. None" ascii_writer] docs ok
    by (auto split: option.splits)
qed

end
