(* ===== verification/Ik_Count_Tokens.thy ===== *)
theory Ik_Count_Tokens
  imports Ik_Anthropic_Request Ik_OpenAI_Request Ik_Google_Request Ik_Token_Cache
begin

text \<open>
  Counting the tokens of a request with the provider: count_tokens.c of the three providers.

  libcurl is a parameter: for a URL, headers and a body it yields the status and the chunks that it hands to the write callback, or \<open>None\<close> when a handle
  or a header cannot be made or the transfer fails. Sizes stay below the range of \<^verbatim>\<open>size_t\<close>; the cast to \<^verbatim>\<open>unsigned\<close> of one of the
  callbacks is part of the model.
\<close>

type_synonym http = "cstr \<Rightarrow> cstr list \<Rightarrow> cstr \<Rightarrow> (int \<times> byte list list) option"

subsection \<open>The response buffers\<close>

record count_buf =
  cb_data :: "byte list"
  cb_len :: nat
  cb_cap :: nat

text \<open>The three write callbacks differ in how much they allocate: \<open>grow cap need\<close> is the size of the block and the capacity noted.\<close>

definition make_room :: "(nat \<Rightarrow> nat \<Rightarrow> nat \<times> nat) \<Rightarrow> count_buf \<Rightarrow> nat \<Rightarrow> count_buf" where
  "make_room grow b need =
     (if need > cb_cap b
      then (case grow (cb_cap b) need of (block, cap) \<Rightarrow> b\<lparr>cb_data := realloc 0 (cb_data b) block, cb_cap := cap\<rparr>) else b)"

definition write_grow :: "(nat \<Rightarrow> nat \<Rightarrow> nat \<times> nat) \<Rightarrow> count_buf \<Rightarrow> byte list \<Rightarrow> count_buf res" where
  "write_grow grow b chunk =
     (let new_len = cb_len b + length chunk; b1 = make_room grow b (new_len + 1)
      in res_bind (copy_in (cb_data b1) (cb_len b) chunk) (\<lambda>d.
         res_bind (store d new_len 0) (\<lambda>d1. Inr (b1\<lparr>cb_data := d1, cb_len := new_len\<rparr>))))"

definition double_or_need :: "nat \<Rightarrow> nat \<Rightarrow> nat \<times> nat" where
  "double_or_need cap need = (let new_cap = (if cap * 2 < need then need else cap * 2) in (new_cap, new_cap))"

definition twice_need :: "nat \<Rightarrow> nat \<Rightarrow> nat \<times> nat" where
  "twice_need cap need = ((need * 2) mod 2 ^ 32, need * 2)"

definition anthropic_count_write_cb :: "count_buf \<Rightarrow> byte list \<Rightarrow> count_buf res" where
  "anthropic_count_write_cb = write_grow double_or_need"

definition openai_count_write_cb :: "count_buf \<Rightarrow> byte list \<Rightarrow> count_buf res" where
  "openai_count_write_cb = write_grow double_or_need"

definition google_count_write_cb :: "count_buf \<Rightarrow> byte list \<Rightarrow> count_buf res" where
  "google_count_write_cb = write_grow twice_need"

definition empty_buf :: "nat \<Rightarrow> count_buf" where
  "empty_buf cap = \<lparr>cb_data = replicate cap 0, cb_len = 0, cb_cap = cap\<rparr>"

fun hand_over :: "(count_buf \<Rightarrow> byte list \<Rightarrow> count_buf res) \<Rightarrow> count_buf \<Rightarrow> byte list list \<Rightarrow> count_buf res" where
  "hand_over cb b [] = Inr b"
| "hand_over cb b (chunk # chunks) = res_bind (cb b chunk) (\<lambda>b1. hand_over cb b1 chunks)"

subsection \<open>anthropic/count_tokens.c\<close>

definition ik_anthropic_count_tokens_http :: "http \<Rightarrow> cstr \<Rightarrow> cstr \<Rightarrow> cstr \<Rightarrow> (int \<times> cstr) res" where
  "ik_anthropic_count_tokens_http http url api_key body =
     (case http url [bytes_of ''Content-Type: application/json'', bytes_of ''anthropic-version: 2023-06-01'', bytes_of ''x-api-key: '' @ api_key] body of
        None \<Rightarrow> Inl (Err IO)
      | Some (status, chunks) \<Rightarrow>
          res_bind (hand_over anthropic_count_write_cb (empty_buf 4096) chunks) (\<lambda>b. Inr (status, c_string (cb_data b))))"

definition to_int64 :: "int \<Rightarrow> int" where
  "to_int64 v = sint (word_of_int v :: 64 word)"

definition parse_input_tokens :: "yyjson \<Rightarrow> cstr \<Rightarrow> int option" where
  "parse_input_tokens J json_body =
     (if json_body = [] then None
      else (case J json_body of None \<Rightarrow> None
            | Some v \<Rightarrow> (case int_of (obj_get v ''input_tokens'') of None \<Rightarrow> None
                | Some n \<Rightarrow> if to_int64 n < 0 then None else Some (to_int32 (to_int64 n)))))"

fun text_bytes :: "ik_content_block \<Rightarrow> nat" where
  "text_bytes (CONTENT_TEXT (Some t)) = length t"
| "text_bytes b = 0"

definition estimate_request_bytes :: "ik_request \<Rightarrow> nat" where
  "estimate_request_bytes req =
     (case req_system_prompt req of None \<Rightarrow> 0 | Some s \<Rightarrow> length s)
     + sum_list (map (\<lambda>m. sum_list (map text_bytes (msg_blocks m))) (req_messages req))"

text \<open>What is done with a request that cannot be serialized: an error is replaced by an estimate, a fault ends the process.\<close>

definition or_estimate :: "int \<Rightarrow> 'a res \<Rightarrow> ('a \<Rightarrow> int res) \<Rightarrow> int res" where
  "or_estimate n m f = (case m of Inl (Err e) \<Rightarrow> Inr n | Inl e \<Rightarrow> Inl e | Inr x \<Rightarrow> f x)"

definition ik_anthropic_count_tokens :: "yyjson \<Rightarrow> yyjson_writer \<Rightarrow> http \<Rightarrow> cstr \<Rightarrow> cstr \<Rightarrow> ik_request \<Rightarrow> int res" where
  "ik_anthropic_count_tokens J W http base_url api_key req =
     or_estimate (ik_token_count_from_bytes (estimate_request_bytes req)) (ik_anthropic_serialize_request_count_tokens J W req) (\<lambda>body.
     or_estimate (ik_token_count_from_bytes (length body))
         (ik_anthropic_count_tokens_http http (base_url @ bytes_of ''/v1/messages/count_tokens'') api_key body) (\<lambda>(http_status, response).
       if http_status < 200 \<or> http_status \<ge> 300 then Inr (ik_token_count_from_bytes (length body))
       else (case parse_input_tokens J response of None \<Rightarrow> Inr (ik_token_count_from_bytes (length body)) | Some n \<Rightarrow> Inr n)))"

subsection \<open>openai/count_tokens.c\<close>

definition ik_openai_count_tokens :: "yyjson \<Rightarrow> yyjson_writer \<Rightarrow> http \<Rightarrow> cstr \<Rightarrow> cstr \<Rightarrow> ik_request \<Rightarrow> int res" where
  "ik_openai_count_tokens J W http base_url api_key req =
     or_estimate (ik_token_count_from_bytes (case req_system_prompt req of None \<Rightarrow> 0 | Some s \<Rightarrow> length s))
       (ik_openai_serialize_responses_request J W req False) (\<lambda>json_body.
       (case http (base_url @ bytes_of ''/v1/responses/input_tokens'') (ik_openai_build_headers api_key) json_body of
          None \<Rightarrow> Inr (ik_token_count_from_bytes (length json_body))
        | Some (http_code, chunks) \<Rightarrow>
            res_bind (hand_over openai_count_write_cb (empty_buf 256) chunks) (\<lambda>b.
              if http_code < 200 \<or> http_code \<ge> 300 then Inr (ik_token_count_from_bytes (length json_body))
              else (case J (take (cb_len b) (cb_data b)) of None \<Rightarrow> Inr (ik_token_count_from_bytes (length json_body))
                    | Some v \<Rightarrow> (case int_of (obj_get v ''input_tokens'') of None \<Rightarrow> Inr (ik_token_count_from_bytes (length json_body))
                        | Some n \<Rightarrow> Inr (to_int32 (to_int32 n)))))))"

subsection \<open>google/count_tokens.c\<close>

definition count_body :: "cstr \<Rightarrow> cstr \<Rightarrow> cstr" where
  "count_body model body_json =
     (if length body_json \<le> 2 then bytes_of ''{\"generateContentRequest\":{\"model\":\"models/'' @ model @ bytes_of ''\"}}''
      else bytes_of ''{\"generateContentRequest\":{\"model\":\"models/'' @ model @ bytes_of ''\",'' @ drop 1 body_json @ bytes_of ''}'')"

definition ik_google_count_tokens :: "yyjson \<Rightarrow> yyjson_writer \<Rightarrow> http \<Rightarrow> cstr \<Rightarrow> cstr \<Rightarrow> ik_request \<Rightarrow> int res" where
  "ik_google_count_tokens J W http base_url api_key req =
     or_estimate (ik_token_count_from_bytes 0) (ik_google_serialize_request J W req) (\<lambda>body_json.
       let body = count_body (req_model req) body_json
       in (case http (base_url @ bytes_of ''/models/'' @ req_model req @ bytes_of '':countTokens?key='' @ api_key)
                  [bytes_of ''Content-Type: application/json''] body of
             None \<Rightarrow> Inr (ik_token_count_from_bytes (length body))
           | Some (http_status, chunks) \<Rightarrow>
               res_bind (hand_over google_count_write_cb (empty_buf 512) chunks) (\<lambda>b.
                 if http_status < 200 \<or> http_status \<ge> 300 then Inr (ik_token_count_from_bytes (length body))
                 else (case J (take (cb_len b) (cb_data b)) of None \<Rightarrow> Inr (ik_token_count_from_bytes (length body))
                       | Some v \<Rightarrow> (case int_of (obj_get v ''totalTokens'') of None \<Rightarrow> Inr (ik_token_count_from_bytes (length body))
                           | Some n \<Rightarrow> let count = to_int32 n in Inr (if count > 2147483647 then 2147483647 else to_int32 count))))))"

subsection \<open>A buffer holds what was written\<close>

definition holds :: "count_buf \<Rightarrow> byte list \<Rightarrow> bool" where
  "holds b data \<longleftrightarrow> length (cb_data b) = cb_cap b \<and> cb_len b = length data \<and> take (length data + 1) (cb_data b) = data @ [0]"

lemma holds_cap: "holds b data \<Longrightarrow> length data < cb_cap b"
proof -
  assume h: "holds b data"
  then have "length (take (length data + 1) (cb_data b)) = length data + 1" by (simp add: holds_def)
  then show ?thesis using h by (simp add: holds_def)
qed

lemma holds_take: "holds b data \<Longrightarrow> take (length data) (cb_data b) = data"
proof -
  assume "holds b data"
  then have "take (length data) (take (length data + 1) (cb_data b)) = take (length data) (data @ [0])" by (simp only: holds_def)
  then show ?thesis by (simp add: min_def)
qed

lemma holds_empty: "0 < cap \<Longrightarrow> holds (empty_buf cap) []"
  by (cases cap) (auto simp: holds_def empty_buf_def)

locale accumulator =
  fixes grow :: "nat \<Rightarrow> nat \<Rightarrow> nat \<times> nat" and small :: "nat \<Rightarrow> bool"
  assumes enough: "small need \<Longrightarrow> \<exists>c. grow cap need = (c, c) \<and> need \<le> c"
    and smaller: "small n \<Longrightarrow> m \<le> n \<Longrightarrow> small m"
begin

lemma make_room_fits:
  assumes "holds b data" and "small need" and "length data < need"
  shows "length (cb_data (make_room grow b need)) = cb_cap (make_room grow b need) \<and> need \<le> cb_cap (make_room grow b need)
    \<and> take (length data) (cb_data (make_room grow b need)) = data"
proof -
  obtain c where c: "grow (cb_cap b) need = (c, c)" "need \<le> c" using enough [OF assms(2)] by blast
  then show ?thesis
    using assms holds_cap [OF assms(1)] holds_take [OF assms(1)] by (simp add: make_room_def take_realloc holds_def)
qed

lemma write_holds:
  assumes "holds b data" and "small (length data + length chunk + 1)"
  shows "returns (write_grow grow b chunk) (\<lambda>b1. holds b1 (data @ chunk))"
proof -
  let ?n = "length data + length chunk"
  let ?b = "make_room grow b (?n + 1)"
  have len: "cb_len b = length data" using assms(1) by (simp add: holds_def)
  have b: "length (cb_data ?b) = cb_cap ?b" "?n < cb_cap ?b" "take (length data) (cb_data ?b) = data"
    using make_room_fits [OF assms] by simp_all
  obtain zs where zs: "cb_data ?b = data @ zs" using b(3) append_take_drop_id by metis
  then have "length chunk < length zs" using b(1,2) by (metis add_less_cancel_left length_append)
  then obtain us z vs where u: "zs = us @ z # vs" "length us = length chunk"
    using id_take_nth_drop [of "length chunk" zs] by (metis length_take min.absorb4)
  have "copy_in (cb_data ?b) (length data) chunk = Inr (data @ chunk @ z # vs)" using zs u by (simp add: copy_in_def)
  moreover have "store (data @ chunk @ z # vs) ?n 0 = Inr (data @ chunk @ 0 # vs)"
    using store_mid [of "data @ chunk" z vs 0] by simp
  ultimately have "write_grow grow b chunk = Inr (?b\<lparr>cb_data := data @ chunk @ 0 # vs, cb_len := ?n\<rparr>)"
    using len unfolding write_grow_def Let_def by (simp del: store_in_range copy_in_range)
  moreover have "length (data @ chunk @ 0 # vs) = cb_cap ?b" using b(1) zs u by simp
  ultimately show ?thesis by (simp add: holds_def)
qed

lemma hand_over_holds:
  assumes "holds b data" and "small (length data + length (concat chunks) + 1)"
  shows "returns (hand_over (write_grow grow) b chunks) (\<lambda>b1. holds b1 (data @ concat chunks))"
  using assms
proof (induction chunks arbitrary: b data)
  case (Cons chunk chunks)
  have "small (length data + length chunk + 1)" using Cons.prems(2) by (rule smaller) simp
  from write_holds [OF Cons.prems(1) this] Cons.IH Cons.prems(2) show ?case
    by (auto intro!: returns_bindI simp: add.assoc) (metis append.assoc length_append add.assoc)
qed simp

end

interpretation doubling: accumulator double_or_need "\<lambda>n. True"
  by unfold_locales (auto simp: double_or_need_def Let_def)

interpretation twice: accumulator twice_need "\<lambda>n. n < 2 ^ 31"
  by unfold_locales (auto simp: twice_need_def)

lemma reply_held:
  assumes "0 < cap" and "length (concat chunks) + 1 < 2 ^ 31"
  shows "returns (hand_over google_count_write_cb (empty_buf cap) chunks) (\<lambda>b. holds b (concat chunks))"
    and "returns (hand_over openai_count_write_cb (empty_buf cap) chunks) (\<lambda>b. holds b (concat chunks))"
    and "returns (hand_over anthropic_count_write_cb (empty_buf cap) chunks) (\<lambda>b. holds b (concat chunks))"
  using twice.hand_over_holds [OF holds_empty [OF assms(1)]] doubling.hand_over_holds [OF holds_empty [OF assms(1)]] assms(2)
  by (simp_all add: google_count_write_cb_def openai_count_write_cb_def anthropic_count_write_cb_def)

lemma holds_read: "holds b data \<Longrightarrow> take (cb_len b) (cb_data b) = data"
  using holds_take by (simp add: holds_def)

lemma to_int32_twice: "to_int32 (to_int32 n) = to_int32 n"
  by (simp add: to_int32_def)

lemma to_int32_max: "\<not> 2147483647 < to_int32 n"
  using to_int32_range [of n] by (simp add: in_int32_def)

lemma token_count_range: "in_int32 (ik_token_count_from_bytes n)"
  using to_int32_range [of "int (n div 4)"] by (simp add: ik_token_count_from_bytes_def to_int32_def)

text \<open>What a reply says: the member \<open>key\<close> of its document as a 32-bit number, or an estimate.\<close>

definition reported :: "yyjson \<Rightarrow> string \<Rightarrow> int \<Rightarrow> (int \<times> byte list list) option \<Rightarrow> int" where
  "reported J key estimate reply =
     (case reply of None \<Rightarrow> estimate
      | Some (status, chunks) \<Rightarrow>
         if 200 \<le> status \<and> status < 300
         then (case Option.bind (J (concat chunks)) (\<lambda>v. int_of (obj_get v key)) of None \<Rightarrow> estimate | Some n \<Rightarrow> to_int32 n)
         else estimate)"

definition short_reply :: "(int \<times> byte list list) option \<Rightarrow> bool" where
  "short_reply reply \<longleftrightarrow> pred_option (\<lambda>(status, chunks). length (concat chunks) + 1 < 2 ^ 31) reply"

lemma reported_range: "in_int32 estimate \<Longrightarrow> in_int32 (reported J key estimate reply)"
  by (auto simp: reported_def to_int32_range split: option.splits)

lemma google_reported:
  assumes "ik_google_serialize_request J W req = Inr body_json"
    and "short_reply (http (base_url @ bytes_of ''/models/'' @ req_model req @ bytes_of '':countTokens?key='' @ api_key)
      [bytes_of ''Content-Type: application/json''] (count_body (req_model req) body_json))"
  shows "ik_google_count_tokens J W http base_url api_key req =
    Inr (reported J ''totalTokens'' (ik_token_count_from_bytes (length (count_body (req_model req) body_json)))
      (http (base_url @ bytes_of ''/models/'' @ req_model req @ bytes_of '':countTokens?key='' @ api_key)
        [bytes_of ''Content-Type: application/json''] (count_body (req_model req) body_json)))"
proof (cases "http (base_url @ bytes_of ''/models/'' @ req_model req @ bytes_of '':countTokens?key='' @ api_key)
      [bytes_of ''Content-Type: application/json''] (count_body (req_model req) body_json)")
  case None
  then show ?thesis using assms(1) by (simp add: ik_google_count_tokens_def or_estimate_def reported_def Let_def)
next
  case (Some reply)
  obtain status chunks where reply: "reply = (status, chunks)" by (cases reply)
  then have "length (concat chunks) + 1 < 2 ^ 31" using assms(2) Some by (simp add: short_reply_def)
  from reply_held(1) [OF _ this, of 512] obtain b where "hand_over google_count_write_cb (empty_buf 512) chunks = Inr b" "holds b (concat chunks)"
    by (auto elim: returnsE)
  then show ?thesis
    using assms(1) Some reply to_int32_max
    by (simp add: ik_google_count_tokens_def or_estimate_def reported_def Let_def holds_read to_int32_twice split: option.splits)
qed

text \<open>C23. What Gemini's token count is. When the request is serialized and the reply is shorter than two gigabytes, in whatever chunks it comes, the count
  is the 32-bit conversion of the number that a successful reply gives, and a quarter of the bytes of the request otherwise. In particular a number
  above the 32-bit range wraps around: the clamp that the code applies never does anything.\<close>

theorem google_tokens_reported:
  assumes "ik_google_serialize_request J W req = Inr body_json"
    and "short_reply (http (base_url @ bytes_of ''/models/'' @ req_model req @ bytes_of '':countTokens?key='' @ api_key)
      [bytes_of ''Content-Type: application/json''] (count_body (req_model req) body_json))"
  shows "ik_google_count_tokens J W http base_url api_key req =
    Inr (reported J ''totalTokens'' (ik_token_count_from_bytes (length (count_body (req_model req) body_json)))
      (http (base_url @ bytes_of ''/models/'' @ req_model req @ bytes_of '':countTokens?key='' @ api_key)
        [bytes_of ''Content-Type: application/json''] (count_body (req_model req) body_json)))"
  using assms by (rule google_reported)

definition sample_reply :: http where
  "sample_reply url hs body = Some (200, [[123], [125]])"

theorem google_tokens_reported_witness:
  "ik_google_count_tokens [[123, 125] \<mapsto> JObj [(bytes_of ''totalTokens'', JInt 4294967301)]] (\<lambda>d. Some [])
     sample_reply [] [] (ik_request_create []) = Inr 5"
proof -
  have h: "ik_google_serialize_request [[123, 125] \<mapsto> JObj [(bytes_of ''totalTokens'', JInt 4294967301)]] (\<lambda>d. Some []) (ik_request_create []) = Inr []"
    by (simp add: ik_google_serialize_request_def google_document_def serialize_contents_def serialize_tools_def ik_request_create_def)
  show ?thesis
    using google_tokens_reported [OF h, of sample_reply "[]" "[]"]
    by (simp add: sample_reply_def short_reply_def reported_def to_int32_def signed_take_bit_eq_take_bit_minus)
qed

lemma or_estimate_returns:
  assumes "succeeds_iff c (Err e) m" and "P n" and "\<And>x. m = Inr x \<Longrightarrow> returns (f x) P"
  shows "returns (or_estimate n m f) P"
  using assms by (cases m) (auto simp: or_estimate_def succeeds_iff_def split: if_splits)

lemma http_succeeds:
  assumes "short_reply (http url [bytes_of ''Content-Type: application/json'', bytes_of ''anthropic-version: 2023-06-01'', bytes_of ''x-api-key: '' @ api_key] body)"
  shows "\<exists>c. succeeds_iff c (Err IO) (ik_anthropic_count_tokens_http http url api_key body)"
proof (cases "http url [bytes_of ''Content-Type: application/json'', bytes_of ''anthropic-version: 2023-06-01'', bytes_of ''x-api-key: '' @ api_key] body")
  case None
  then show ?thesis by (intro exI [of _ False]) (simp add: ik_anthropic_count_tokens_http_def succeeds_iff_def)
next
  case (Some reply)
  obtain status chunks where reply: "reply = (status, chunks)" by (cases reply)
  then have "length (concat chunks) + 1 < 2 ^ 31" using assms Some by (simp add: short_reply_def)
  from reply_held(3) [OF _ this, of 4096] obtain b where "hand_over anthropic_count_write_cb (empty_buf 4096) chunks = Inr b"
    by (auto elim: returnsE)
  then show ?thesis using Some reply by (intro exI [of _ True]) (simp add: ik_anthropic_count_tokens_http_def succeeds_iff_def)
qed

lemma parse_range: "parse_input_tokens J t = Some n \<Longrightarrow> in_int32 n"
  by (auto simp: parse_input_tokens_def to_int32_range split: if_splits option.splits)

lemma anthropic_counts:
  assumes "every_block complete_block req" and "\<And>url hs body. short_reply (http url hs body)"
    and "\<And>d. anthropic_document J req True = Some d \<Longrightarrow> W d \<noteq> None"
  shows "returns (ik_anthropic_count_tokens J W http base_url api_key req) in_int32"
proof -
  obtain c where sent: "succeeds_iff c (Err PARSE) (ik_anthropic_serialize_request_count_tokens J W req)"
  proof (cases "anthropic_document J req True")
    case None
    then show ?thesis
      by (intro that [of False]) (simp add: ik_anthropic_serialize_request_count_tokens_def serialize_request_internal_def succeeds_iff_def)
  next
    case (Some d)
    then obtain t where "W d = Some t" using assms(3) by blast
    then show ?thesis using Some
      by (intro that [of True])
        (simp add: ik_anthropic_serialize_request_count_tokens_def serialize_request_internal_def write_doc_def succeeds_iff_def)
  qed
  show ?thesis unfolding ik_anthropic_count_tokens_def
  proof (rule or_estimate_returns [where P = in_int32, OF sent token_count_range])
    fix body
    obtain d where got: "succeeds_iff d (Err IO) (ik_anthropic_count_tokens_http http (base_url @ bytes_of ''/v1/messages/count_tokens'') api_key body)"
      using http_succeeds assms(2) by blast
    show "returns (or_estimate (ik_token_count_from_bytes (length body))
        (ik_anthropic_count_tokens_http http (base_url @ bytes_of ''/v1/messages/count_tokens'') api_key body)
        (\<lambda>(http_status, response).
          if http_status < 200 \<or> http_status \<ge> 300 then Inr (ik_token_count_from_bytes (length body))
          else (case parse_input_tokens J response of None \<Rightarrow> Inr (ik_token_count_from_bytes (length body)) | Some n \<Rightarrow> Inr n))) in_int32"
      by (rule or_estimate_returns [where P = in_int32, OF got token_count_range]) (auto simp: token_count_range parse_range split: option.splits)
  qed
qed

lemma anthropic_unwritten:
  assumes "anthropic_document J req True = Some d" and "W d = None"
  shows "ik_anthropic_count_tokens J W http base_url api_key req = Inl Panic"
  using assms by (simp add: ik_anthropic_count_tokens_def ik_anthropic_serialize_request_count_tokens_def
      serialize_request_internal_def write_doc_def or_estimate_def)

lemma google_counts:
  assumes "every_block complete_block req" and "\<And>url hs body. short_reply (http url hs body)"
  shows "returns (ik_google_count_tokens J W http base_url api_key req) in_int32"
proof (cases "ik_google_serialize_request J W req")
  case (Inl e)
  then have "e = Err PARSE" using google_request_outcome [OF assms(1), of J W] by (auto split: if_splits option.splits)
  then show ?thesis using Inl by (simp add: ik_google_count_tokens_def or_estimate_def token_count_range)
next
  case (Inr body_json)
  then show ?thesis by (simp add: google_reported [OF _ assms(2)] reported_range token_count_range)
qed

text \<open>C24. Counting tokens gives a number, or panics with Anthropic for a text that is not UTF-8. For every request whose blocks have their
  strings and whatever the provider replies, counting with Gemini returns a 32-bit number, also when no document can be made of the request,
  yyjson refuses to write it or the transfer fails. Counting with Anthropic does the same with one exception: when a document is made of the
  request that yyjson refuses to write, the program panics instead of estimating.\<close>

theorem count_tokens_total:
  assumes "every_block complete_block req" and "\<And>url hs body. short_reply (http url hs body)"
  shows "returns (ik_google_count_tokens J W http base_url api_key req) in_int32
    \<and> (if \<exists>d. anthropic_document J req True = Some d \<and> W d = None
       then ik_anthropic_count_tokens J W http base_url api_key req = Inl Panic
       else returns (ik_anthropic_count_tokens J W http base_url api_key req) in_int32)"
  using google_counts [of req http J W] anthropic_counts [of req http J W] anthropic_unwritten [of J req _ W http] assms by auto

lemma sample_document:
  "pred_option (\<lambda>d. ascii_writer d = None) (anthropic_document (\<lambda>t. None) (sample_dialogue (CONTENT_TEXT (Some [0xFF]))) True)"
  "pred_option (\<lambda>d. ascii_writer d \<noteq> None) (anthropic_document (\<lambda>t. None) (sample_dialogue (CONTENT_TEXT (Some [0x68]))) True)"
  by (simp_all add: anthropic_document_def sample_dialogue_def blocks_message_def ik_request_create_def ascii_writer_def
      ik_anthropic_serialize_messages_def anthropic_message_def ik_anthropic_serialize_message_content_def
      serialize_tool_result_block_def add_thinking_config_def add_tools_def str_mem_def lit_m_def bytes_of_def)

theorem count_tokens_total_witness:
  "returns (ik_google_count_tokens (\<lambda>t. None) ascii_writer sample_reply [] [] (sample_dialogue (CONTENT_TEXT (Some [0xFF])))) in_int32
   \<and> ik_anthropic_count_tokens (\<lambda>t. None) ascii_writer sample_reply [] [] (sample_dialogue (CONTENT_TEXT (Some [0xFF]))) = Inl Panic
   \<and> returns (ik_anthropic_count_tokens (\<lambda>t. None) ascii_writer sample_reply [] [] (sample_dialogue (CONTENT_TEXT (Some [0x68])))) in_int32"
proof -
  have r: "short_reply (sample_reply url hs body)" for url hs body by (simp add: sample_reply_def short_reply_def)
  have b: "every_block complete_block (sample_dialogue (CONTENT_TEXT (Some t)))" for t
    by (simp add: every_block_def sample_dialogue_def blocks_message_def)
  have "anthropic_document (\<lambda>t. None) (sample_dialogue (CONTENT_TEXT (Some [0xFF]))) True \<noteq> None"
    using anthropic_document_made [OF b]
    by (simp add: every_block_def sample_dialogue_def blocks_message_def tools_parse_def ik_request_create_def)
  then show ?thesis
    using count_tokens_total [OF b [of "[0xFF]"], of sample_reply "\<lambda>t. None" ascii_writer "[]" "[]"]
      count_tokens_total [OF b [of "[0x68]"], of sample_reply "\<lambda>t. None" ascii_writer "[]" "[]"] r sample_document
    by (auto split: if_splits)
qed

end
