(* ===== verification/Spec2Isabelle.thy ===== *)
theory Spec2Isabelle
  imports Ik_Layer_Scrollback Ik_Event_Render Ik_Editor_Runs Ik_Input_Parser Ik_Scroll_Detector Ik_SSE Ik_History
    Ik_Token_Cache Ik_Turn_Safety Ik_Stream_Text Ik_Context_Window Ik_Repl_Nav Ik_Frame_Safety Ik_Repl_Loop
    Ik_Adapter_Safety Ik_Answer Ik_Mock_Samples Ik_OpenAI_Response Ik_Count_Tokens
begin

text \<open>
  A verification development for ikigai, a terminal program in C in which the user talks to agents backed by
  language models. Paths below are relative to src/apps/ikigai/.

  \<^bold>\<open>The program.\<close> The event loop (repl.c) reads bytes of the terminal. The input parser (input.c,
  input_escape.c, input_xkb.c) turns them into actions; the scroll detector (scroll_detector.c) tells wheel
  events from arrow keys; repl_actions*.c applies an action to the current agent: it edits the input buffer
  (input_buffer/), moves the viewport, offers completions (completion.c), switches to another agent
  (repl_navigation.c), runs a slash command (commands.c) or sends the line to the model (repl_actions_llm.c).
  The answer arrives as a stream of server-sent events (providers/common/sse_parser.c); the callbacks
  (repl_callbacks.c, repl_response_helpers.c) show it in the scrollback (scrollback*.c) by way of the event
  renderer (event_render.c), add it to the conversation (message.c, agent_messages.c) and persist it. A tool
  call is executed in a thread (repl_tool.c) and its result is sent back until the turn ends
  (repl_tool_completion.c, repl_event_handlers.c). The token cache (token_cache.c) keeps the conversation in
  its window. After a change the screen is drawn (repl_viewport.c) from the layers (layer*.c) of the agent.

  \<^bold>\<open>How code is modelled.\<close> A struct is a record and an enum a datatype, with the names of the source. An
  operation is a function from the state to the changed state. \<open>'a res\<close> (Ik_Prelude) is \<^verbatim>\<open>res_t\<close> together with
  everything that ends the program: \<open>Err\<close> is a returned error code, \<open>AssertFail\<close> a failed assertion, \<open>Panic\<close> the
  macro of that name, \<open>MemFault\<close> an access outside a block and \<open>IntOverflow\<close> a signed overflow. Allocated memory
  is a block, a list of the allocated length whose accesses are checked by \<open>load\<close> and \<open>store\<close>; allocation itself
  succeeds. Bytes are \<open>8 word\<close>, code points \<open>32 word\<close>; numbers of type \<^verbatim>\<open>int32_t\<close> or \<^verbatim>\<open>int64_t\<close> are \<open>int\<close>, with the
  overflow written out where the value comes from outside; \<^verbatim>\<open>size_t\<close> is \<open>nat\<close>, with the wrap-around written out
  where a difference can be negative. A pointer that may be \<^verbatim>\<open>NULL\<close> is an option.

  An operation that ends with an error yields the error alone: what it had changed before is not part of the result
  (for example the framebuffer and the cursor position when \<open>ik_repl_render_frame\<close> cannot write the frame).

  \<^bold>\<open>Parameters.\<close> Libraries and the system are arguments: utf8proc and xkbcommon (records \<open>utf8proc\<close> and \<open>xkb\<close>), libcurl,
  and two libraries whose third-party code is vendored under src/vendor and left out as such, yyjson (its reader
  and its writer, which refuses to write some documents, among them those with a string that is not UTF-8) and the
  score of the matcher fzy; also the provider, the formatters of tool calls, the clock, the terminal and \<^verbatim>\<open>waitpid\<close>. The environment of an agent is the record \<open>ik_env\<close>, that of
  the actions \<open>ik_io\<close>, and what happens in one round of the loop \<open>ik_round\<close>. What the code relies on is a named
  hypothesis (for example \<open>utf8proc_spec\<close>: the documented behaviour of the decoder), and the witnesses
  instantiate it with a concrete function.

  \<^bold>\<open>Foundations.\<close>
  \<^item> Ik_Prelude: results, blocks, generic lemmas, the contract \<open>editable_seq\<close> of a sequence in memory.
  \<^item> Ik_Array: array.c and byte_array.c; both are instances of \<open>editable_seq\<close>.
  \<^item> Ik_Ansi: ansi.c. Ik_Utf8: encoders, decoders and scanners of UTF-8. Ik_Utf8proc: the parameter and what is
    assumed of it. Ik_Json: documents and the accessors of yyjson that the program calls.

  \<^bold>\<open>Input.\<close>
  \<^item> Ik_Cursor, Ik_Input_Buffer: input_buffer/cursor.c, core.c, multiline.c, layout.c.
  \<^item> Ik_Editor: the abstract editor, two lists of code points, and the relation \<open>ib_repr\<close> of a buffer with it;
    every operation of the buffer refines the operation of the editor (Ik_Editor, Ik_Editor_Lines), so that
    runs of operations simulate the editor (Ik_Editor_Runs). Errors in the treatment of clusters are proved
    there as theorems about concrete inputs.
  \<^item> Ik_Input_Parser: the parser as a state machine with its fixed buffers; its invariant, the round trip of
    typed text, the meaning of key reports, the bound on the length of an escape sequence.
  \<^item> Ik_Scroll_Detector: the detector as a step relation; no event is lost or reported twice, and a report has the
    direction of the last arrow.
  \<^item> Ik_Key_Inject: key_inject.c, the queue of injected keys, an instance of the contract \<open>byte_queue\<close>.
  \<^item> Ik_History: history.c. Ik_Completion: completion.c, fzy_wrapper.c.

  \<^bold>\<open>Output.\<close>
  \<^item> Ik_Scrollback: scrollback*.c on its blocks. Ik_Scrollback_Lines: it refines a list of lines; the layout is a
    function of the text. Ik_Scrollback_Rows: the rows of a line tile it.
  \<^item> Ik_Layer: layer.c and the contract \<open>row_layer\<close> of a layer that draws exactly the rows it is asked for; the
    cake of such layers shows the window of the document. Ik_Layers and Ik_Layer_Scrollback: the layers.
  \<^item> Ik_Event_Render: event_render.c; colours do not change the layout.
  \<^item> Ik_Frame: repl_viewport.c and render_cursor.c, the whole frame; the contract \<open>drawable\<close> of a layer that can
    be drawn, which \<open>row_layer\<close> implies. Ik_Cursor_Position, Ik_Frame_Safety: the cursor and the frame buffer.

  \<^bold>\<open>Conversation.\<close>
  \<^item> Ik_Request: providers/request.c. Ik_Message: message.c, agent_messages.c, repl_tool_json.c.
  \<^item> Ik_SSE: the stream parser; the events do not depend on how the stream is cut.
  \<^item> Ik_Token_Cache: token_cache.c and its invariant. Ik_Context_Window: what the pruning loop keeps.
  \<^item> Ik_Agent: agent.c, agent_state.c, agent_provider.c. Ik_Turn: the turn of an agent, from the message of the user
    to the end of the tool loop. Ik_Turn_Safety: the turn as a transition system with its invariant: no
    assertion fails in a reachable state, and a turn makes progress. Ik_Stream_Text: what the streamed answer
    looks like.

  \<^bold>\<open>Providers.\<close>
  \<^item> Ik_Provider: providers/provider.h, provider_stream.h, response.c. Ik_Stream_Adapter: what the write callbacks of
    the providers share; however a stream is cut into chunks, its events are handled one after the other.
  \<^item> Ik_Wire: frames that carry JSON documents, and the contracts \<open>sse_client\<close> of an event handler and
    \<open>stream_callback\<close> of a write callback, under which a stream of frames is delivered as its documents.
  \<^item> Ik_Anthropic, Ik_Google, Ik_OpenAI: the streams of the three services with their callbacks, as instances of
    these contracts (the chat API has lines of its own and its own lemmas). Ik_OpenAI_Response: whole responses; the
    two passes over the output agree.
  \<^item> Ik_Adapter_Safety: no stream parser goes wrong on any input, and its completion satisfies the hypothesis of the
    theorems on turns (\<open>provider_adapter\<close>).
  \<^item> Ik_Mock: the scripted server, src/apps/mock-provider/. Ik_Mock_Stream: what is queued in it arrives in the agent,
    for the four APIs; where calls get lost or merged the specification says so. Ik_Mock_Samples: the concrete streams.
    Ik_Answer: from the chunks of a reply through the parser of the API (\<open>api_run\<close>) and the callbacks of the agent to
    the scrollback, the pending call and the messages of the conversation; what becomes of an error in a stream.
  \<^item> Ik_Request_Json: what the serialisers of requests share, and the thinking budgets. Ik_Anthropic_Request,
    Ik_Google_Request, Ik_OpenAI_Request: request*.c, serialize.c, thinking.c and reasoning.c of the three services;
    which requests are sent and what happens when yyjson refuses one, that a thinking budget leaves room for an answer, that tools get strict schemas, and when
    the joining of texts leaves its block.
  \<^item> Ik_Count_Tokens: count_tokens.c of the three services over a parameter for libcurl. The contract \<open>accumulator\<close> of the
    buffers of the replies has an instance for each way to grow; a count is a 32-bit number, except that counting with Anthropic panics when
    yyjson refuses to write the request.

  \<^bold>\<open>The REPL.\<close>
  \<^item> Ik_Repl: the state, repl_actions_viewport.c, repl_actions_completion.c, repl_actions_history.c.
  \<^item> Ik_Repl_Nav: repl_agent_mgmt.c, repl_navigation.c.
  \<^item> Ik_Repl_Actions: repl_actions.c, repl_actions_llm.c, the submission of a line, the dispatcher of commands.c.
  \<^item> Ik_Repl_Loop: the event loop.

  \<^bold>\<open>Termination.\<close> All loops are total functions; those that are not structural have a measure. The loop over the
  events of a stream buffer has as fuel one more than the bytes of the buffer, and every event consumes at least
  one (\<open>handle_all_repr\<close>), so that it never runs out. The loop of the program itself is a function of the list of
  rounds that happen.

  \<^bold>\<open>Not modelled.\<close> The database (SQL through libpq; rows and notifications are arguments and recorded events),
  the creation of the providers and the HTTP client (what a provider answers to a request is a parameter), the handlers of the slash commands, tool discovery and external processes, configuration,
  paths and credentials, logging and pretty printing, the control socket, signals and raw terminal access,
  the file of the command history, the template processor of the system prompt, the renderer used without
  layers, and the HTTP server of the mock provider.
\<close>

end
